(* ===== verification/Prelude.thy ===== *)
theory Prelude
  imports Main "HOL-Library.Word" "HOL-Library.Signed_Division"
begin

text \<open>
  Shared vocabulary of the development: the theorem collections the component
  theories extend, generic facts about sorted association lists (the abstract
  value of the ordered maps of \<^verbatim>\<open>src/src/persistent.rs\<close>), and the
  saturating arithmetic of Rust's \<^verbatim>\<open>i128\<close>.
\<close>

section \<open>Theorem collections\<close>

named_theorems map_entries
  \<open>the entries of a map after an operation\<close>
named_theorems sound_intros
  \<open>introduction rules of the soundness invariants\<close>

section \<open>Association lists sorted by key\<close>

text \<open>
  The abstract value of an ordered map is the list of its entries in strictly
  ascending key order.
\<close>

abbreviation keys_of :: "('k \<times> 'v) list \<Rightarrow> 'k list" where
  "keys_of xs \<equiv> map fst xs"

definition ascending :: "('k::linorder \<times> 'v) list \<Rightarrow> bool" where
  "ascending xs \<longleftrightarrow> sorted_wrt (<) (keys_of xs)"

lemma ascending_Nil [simp]: "ascending []"
  by (simp add: ascending_def)

lemma ascending_Cons [simp]:
  "ascending (x # xs) \<longleftrightarrow> (\<forall>y \<in> set xs. fst x < fst y) \<and> ascending xs"
  by (auto simp: ascending_def)

lemma ascending_append [simp]:
  "ascending (xs @ ys) \<longleftrightarrow>
     ascending xs \<and> ascending ys \<and> (\<forall>x \<in> set xs. \<forall>y \<in> set ys. fst x < fst y)"
  by (auto simp: ascending_def sorted_wrt_append)

lemma ascending_distinct: "ascending xs \<Longrightarrow> distinct (keys_of xs)"
  by (induction xs) auto

lemma map_of_less:
  "\<forall>y \<in> set xs. fst y < k \<Longrightarrow> map_of xs k = None"
  "\<forall>y \<in> set xs. k < fst y \<Longrightarrow> map_of xs k = None"
  for k :: "'k::linorder"
  by (fastforce simp: map_of_eq_None_iff)+

lemma ascending_map_of: "ascending xs \<Longrightarrow> (k, v) \<in> set xs \<longleftrightarrow> map_of xs k = Some v"
  by (metis ascending_distinct map_of_SomeD map_of_is_SomeI)

lemma keys_map_of:
  assumes "ascending xs"
  shows "map (\<lambda>k. (k, the (map_of xs k))) (keys_of xs) = xs"
proof -
  have "\<forall>x \<in> set xs. (fst x, the (map_of xs (fst x))) = x"
    using assms by (auto simp: ascending_map_of)
  then show ?thesis by (simp add: map_idI comp_def)
qed

text \<open>Two ascending lists with the same lookups are the same list.\<close>

lemma ascending_map_of_ext:
  assumes "ascending xs" and "ascending ys" and "map_of xs = map_of ys"
  shows "xs = ys"
proof -
  have s: "set xs = set ys"
    using assms by (auto simp: set_eq_iff ascending_map_of)
  have "keys_of xs = keys_of ys"
    using assms(1,2) s
    by (metis ascending_def ascending_distinct set_map sorted_distinct_set_unique
        strict_sorted_iff)
  then show ?thesis
    using assms(3) keys_map_of [OF assms(1)] keys_map_of [OF assms(2)] by metis
qed

section \<open>Saturating 128-bit arithmetic\<close>

text \<open>
  The source keeps bounds and offsets as \<^verbatim>\<open>i128\<close>. They are modelled as
  \<open>int\<close>; where the source saturates, the model does.
\<close>

definition i128_min :: int where
  "i128_min = - (2 ^ 127)"

definition i128_max :: int where
  "i128_max = 2 ^ 127 - 1"

definition saturate :: "int \<Rightarrow> int" where
  "saturate x = max i128_min (min i128_max x)"

definition saturating_add :: "int \<Rightarrow> int \<Rightarrow> int" where
  "saturating_add a b = saturate (a + b)"

definition saturating_sub :: "int \<Rightarrow> int \<Rightarrow> int" where
  "saturating_sub a b = saturate (a - b)"

lemma saturating_add_upper:
  assumes "x \<le> a + b" and "x \<le> i128_max"
  shows "x \<le> saturating_add a b"
  using assms by (simp add: saturating_add_def saturate_def le_max_iff_disj)

lemma saturating_sub_lower:
  assumes "a - b \<le> x" and "i128_min \<le> x"
  shows "saturating_sub a b \<le> x"
  using assms by (simp add: saturating_sub_def saturate_def min_le_iff_disj)

section \<open>Ordered match arms\<close>

text \<open>
  A \<^verbatim>\<open>match\<close> whose arms carry guards: the first arm that applies, or the last one.
\<close>

fun first_match :: "'a option list \<Rightarrow> 'a \<Rightarrow> 'a" where
  "first_match [] otherwise = otherwise"
| "first_match (None # arms) otherwise = first_match arms otherwise"
| "first_match (Some x # arms) otherwise = x"

lemma first_match_Cons: "first_match (a # arms) d = (case a of None \<Rightarrow> first_match arms d | Some x \<Rightarrow> x)"
  by (simp split: option.split)

lemma first_matchI: "\<lbrakk>\<And>x. Some x \<in> set arms \<Longrightarrow> P x; P d\<rbrakk> \<Longrightarrow> P (first_match arms d)"
  by (induction arms d rule: first_match.induct) auto

section \<open>Results\<close>

text \<open>Rust's \<^verbatim>\<open>?\<close> on a \<^verbatim>\<open>Result\<close>: an error ends the function with it.\<close>

definition attempt :: "'e + 'a \<Rightarrow> ('a \<Rightarrow> 'e + 'b) \<Rightarrow> 'e + 'b" where
  "attempt r f = (case r of Inl e \<Rightarrow> Inl e | Inr x \<Rightarrow> f x)"

lemma attempt_simps [simp]: "attempt (Inl e) f = Inl e" "attempt (Inr x) f = f x"
  by (simp_all add: attempt_def)

lemma attempt_Inr: "attempt r f = Inr y \<longleftrightarrow> (\<exists>x. r = Inr x \<and> f x = Inr y)"
  by (cases r) simp_all

end
