(* ===== verification/Persistent.thy ===== *)
theory Persistent
  imports Prelude
begin

text \<open>
  The persistent AVL map of \<^verbatim>\<open>src/src/persistent.rs\<close>: nodes with a
  cached height, the balancing constructor, insertion, removal, the lookups, the
  double-ended iterator and the set wrapper. \<open>Option<Arc<Node>>\<close> is the type
  \<open>avl\<close> with \<open>Leaf\<close> for \<^verbatim>\<open>None\<close>; reference counts and
  the instrumentation counters (\<open>record_persistent_work\<close>) have no value of
  their own and are left out. The \<open>u16\<close> height is a \<open>nat\<close>, which
  \<open>height_fits\<close> shows never exceeds 16 bits for a map that fits in memory.
\<close>

section \<open>Nodes\<close>

datatype ('k, 'v) avl =
    Leaf
  | Node 'k 'v "('k, 'v) avl" "('k, 'v) avl" nat
      \<comment> \<open>key, value, left, right, height\<close>

fun node_height :: "('k, 'v) avl \<Rightarrow> nat" where
  "node_height Leaf = 0"
| "node_height (Node k v l r h) = h"

definition make_node ::
  "'k \<Rightarrow> 'v \<Rightarrow> ('k, 'v) avl \<Rightarrow> ('k, 'v) avl \<Rightarrow> ('k, 'v) avl" where
  "make_node k v l r = Node k v l r (1 + max (node_height l) (node_height r))"

text \<open>
  \<open>balance_node\<close>, with a case on the child where the source says
  \<open>expect\<close>: the other branch of such a case would be the panic, and it is
  unreachable because a child that is higher than another tree is not \<open>Leaf\<close>.
\<close>

definition balance_node ::
  "'k \<Rightarrow> 'v \<Rightarrow> ('k, 'v) avl \<Rightarrow> ('k, 'v) avl \<Rightarrow> ('k, 'v) avl" where
  "balance_node k v l r =
     (let left_height = node_height l; right_height = node_height r in
      if left_height > right_height + 1 then
        (case l of
           Node lk lv ll lr _ \<Rightarrow>
             if node_height ll \<ge> node_height lr
             then make_node lk lv ll (make_node k v lr r)
             else (case lr of
                     Node mk mv ml mr _ \<Rightarrow>
                       make_node mk mv (make_node lk lv ll ml) (make_node k v mr r)
                   | Leaf \<Rightarrow> make_node k v l r)
         | Leaf \<Rightarrow> make_node k v l r)
      else if right_height > left_height + 1 then
        (case r of
           Node rk rv rl rr _ \<Rightarrow>
             if node_height rr \<ge> node_height rl
             then make_node rk rv (make_node k v l rl) rr
             else (case rl of
                     Node mk mv ml mr _ \<Rightarrow>
                       make_node mk mv (make_node k v l ml) (make_node rk rv mr rr)
                   | Leaf \<Rightarrow> make_node k v l r)
         | Leaf \<Rightarrow> make_node k v l r)
      else make_node k v l r)"

fun insert_node ::
  "('k::linorder, 'v) avl \<Rightarrow> 'k \<Rightarrow> 'v \<Rightarrow> ('k, 'v) avl \<times> bool" where
  "insert_node Leaf k v = (make_node k v Leaf Leaf, True)"
| "insert_node (Node nk nv l r h) k v =
     (if k < nk then
        (let (l', inserted) = insert_node l k v in (balance_node nk nv l' r, inserted))
      else if k = nk then (make_node k v l r, False)
      else
        (let (r', inserted) = insert_node r k v in (balance_node nk nv l r', inserted)))"

text \<open>The source passes \<open>remove_leftmost\<close> a node, never \<^verbatim>\<open>None\<close>.\<close>

fun remove_leftmost :: "('k, 'v) avl \<Rightarrow> ('k, 'v) avl \<times> 'k \<times> 'v" where
  "remove_leftmost (Node k v Leaf r h) = (r, k, v)"
| "remove_leftmost (Node k v (Node lk lv ll lr lh) r h) =
     (let (l', k', v') = remove_leftmost (Node lk lv ll lr lh)
      in (balance_node k v l' r, k', v'))"

fun remove_node :: "('k::linorder, 'v) avl \<Rightarrow> 'k \<Rightarrow> ('k, 'v) avl \<times> bool" where
  "remove_node Leaf k = (Leaf, False)"
| "remove_node (Node nk nv l r h) k =
     (if k < nk then
        (let (l', removed) = remove_node l k in
         if \<not> removed then (Node nk nv l r h, False)
         else (balance_node nk nv l' r, True))
      else if k > nk then
        (let (r', removed) = remove_node r k in
         if \<not> removed then (Node nk nv l r h, False)
         else (balance_node nk nv l r', True))
      else if l = Leaf then (r, True)
      else if r = Leaf then (l, True)
      else (let (r', sk, sv) = remove_leftmost r in (balance_node sk sv l r', True)))"

section \<open>The map\<close>

record ('k, 'v) pmap =
  map_root :: "('k, 'v) avl"
  map_len :: nat

definition map_empty :: "('k, 'v) pmap" where
  "map_empty = \<lparr>map_root = Leaf, map_len = 0\<rparr>"

definition map_is_empty :: "('k, 'v) pmap \<Rightarrow> bool" where
  "map_is_empty m \<longleftrightarrow> map_len m = 0"

fun node_get_key_value :: "('k::linorder, 'v) avl \<Rightarrow> 'k \<Rightarrow> ('k \<times> 'v) option" where
  "node_get_key_value Leaf k = None"
| "node_get_key_value (Node nk nv l r h) k =
     (if k < nk then node_get_key_value l k
      else if k = nk then Some (nk, nv)
      else node_get_key_value r k)"

definition map_get_key_value :: "('k::linorder, 'v) pmap \<Rightarrow> 'k \<Rightarrow> ('k \<times> 'v) option" where
  "map_get_key_value m k = node_get_key_value (map_root m) k"

fun node_get :: "('k::linorder, 'v) avl \<Rightarrow> 'k \<Rightarrow> 'v option" where
  "node_get Leaf k = None"
| "node_get (Node nk nv l r h) k =
     (if k < nk then node_get l k
      else if k = nk then Some nv
      else node_get r k)"

definition map_get :: "('k::linorder, 'v) pmap \<Rightarrow> 'k \<Rightarrow> 'v option" where
  "map_get m k = node_get (map_root m) k"

definition contains_key :: "('k::linorder, 'v) pmap \<Rightarrow> 'k \<Rightarrow> bool" where
  "contains_key m k \<longleftrightarrow> map_get m k \<noteq> None"

text \<open>The two neighbour searches keep the best candidate seen on the way down.\<close>

fun node_less_than ::
  "('k::linorder, 'v) avl \<Rightarrow> 'k \<Rightarrow> ('k \<times> 'v) option \<Rightarrow> ('k \<times> 'v) option" where
  "node_less_than Leaf k candidate = candidate"
| "node_less_than (Node nk nv l r h) k candidate =
     (if k \<le> nk then node_less_than l k candidate
      else node_less_than r k (Some (nk, nv)))"

definition get_less_than :: "('k::linorder, 'v) pmap \<Rightarrow> 'k \<Rightarrow> ('k \<times> 'v) option" where
  "get_less_than m k = node_less_than (map_root m) k None"

fun node_greater_than ::
  "('k::linorder, 'v) avl \<Rightarrow> 'k \<Rightarrow> ('k \<times> 'v) option \<Rightarrow> ('k \<times> 'v) option" where
  "node_greater_than Leaf k candidate = candidate"
| "node_greater_than (Node nk nv l r h) k candidate =
     (if k < nk then node_greater_than l k (Some (nk, nv))
      else node_greater_than r k candidate)"

definition get_greater_than :: "('k::linorder, 'v) pmap \<Rightarrow> 'k \<Rightarrow> ('k \<times> 'v) option" where
  "get_greater_than m k = node_greater_than (map_root m) k None"

definition with_inserted :: "('k::linorder, 'v) pmap \<Rightarrow> 'k \<Rightarrow> 'v \<Rightarrow> ('k, 'v) pmap" where
  "with_inserted m k v =
     (let (t, inserted) = insert_node (map_root m) k v
      in \<lparr>map_root = t, map_len = map_len m + of_bool inserted\<rparr>)"

definition without_key :: "('k::linorder, 'v) pmap \<Rightarrow> 'k \<Rightarrow> ('k, 'v) pmap" where
  "without_key m k =
     (let (t, removed) = remove_node (map_root m) k
      in \<lparr>map_root = t, map_len = map_len m - of_bool removed\<rparr>)"

definition map_from_iter :: "('k::linorder \<times> 'v) list \<Rightarrow> ('k, 'v) pmap" where
  "map_from_iter xs = foldl (\<lambda>m (k, v). with_inserted m k v) map_empty xs"

definition map_extend :: "('k::linorder, 'v) pmap \<Rightarrow> ('k \<times> 'v) list \<Rightarrow> ('k, 'v) pmap" where
  "map_extend m xs = foldl (\<lambda>m (k, v). with_inserted m k v) m xs"

text \<open>
  The entries of a tree in key order. The iterator below walks this list; every
  other operation is specified by it.
\<close>

fun inorder :: "('k, 'v) avl \<Rightarrow> ('k \<times> 'v) list" where
  "inorder Leaf = []"
| "inorder (Node k v l r h) = inorder l @ (k, v) # inorder r"

abbreviation entries :: "('k, 'v) pmap \<Rightarrow> ('k \<times> 'v) list" where
  "entries m \<equiv> inorder (map_root m)"

section \<open>Entries of the operations\<close>

lemma node_height_pos: "h < node_height t \<Longrightarrow> t \<noteq> Leaf"
  by (cases t) auto

lemma inorder_make_node [simp]:
  "inorder (make_node k v l r) = inorder l @ (k, v) # inorder r"
  by (simp add: make_node_def)

lemma inorder_balance_node [simp]:
  "inorder (balance_node k v l r) = inorder l @ (k, v) # inorder r"
  by (simp add: balance_node_def Let_def split: avl.split)

lemma remove_leftmost_entries:
  "t \<noteq> Leaf \<Longrightarrow> remove_leftmost t = (t', k, v) \<Longrightarrow> inorder t = (k, v) # inorder t'"
  by (induction t arbitrary: t' rule: remove_leftmost.induct) (auto split: prod.splits)

text \<open>The specifications on sorted association lists.\<close>

fun ins_entry :: "'k::linorder \<Rightarrow> 'v \<Rightarrow> ('k \<times> 'v) list \<Rightarrow> ('k \<times> 'v) list" where
  "ins_entry k v [] = [(k, v)]"
| "ins_entry k v ((a, b) # xs) =
     (if k < a then (k, v) # (a, b) # xs
      else if k = a then (k, v) # xs
      else (a, b) # ins_entry k v xs)"

definition del_entry :: "'k \<Rightarrow> ('k \<times> 'v) list \<Rightarrow> ('k \<times> 'v) list" where
  "del_entry k xs = filter (\<lambda>e. fst e \<noteq> k) xs"

lemma ins_entry_append:
  "(\<forall>x \<in> set xs. fst x < a) \<Longrightarrow>
   ins_entry k v (xs @ (a, b) # ys) =
     (if k < a then ins_entry k v xs @ (a, b) # ys
      else xs @ ins_entry k v ((a, b) # ys))"
  by (induction xs) auto

lemma del_entry_absent: "(\<forall>x \<in> set xs. fst x \<noteq> k) \<Longrightarrow> del_entry k xs = xs"
  by (simp add: del_entry_def filter_id_conv)

lemma del_entry_append [simp]: "del_entry k (xs @ ys) = del_entry k xs @ del_entry k ys"
  by (simp add: del_entry_def)

lemma del_entry_Cons [simp]:
  "del_entry k (x # xs) = (if fst x = k then del_entry k xs else x # del_entry k xs)"
  by (simp add: del_entry_def)

lemma insert_node_entries:
  "ascending (inorder t) \<Longrightarrow> inorder (fst (insert_node t k v)) = ins_entry k v (inorder t)"
  by (induction t k v rule: insert_node.induct) (auto simp: ins_entry_append split: prod.splits)

lemma remove_node_unchanged:
  "\<not> snd (remove_node t k) \<Longrightarrow> fst (remove_node t k) = t"
  by (cases t) (auto split: prod.splits if_splits)

lemma remove_node_entries:
  "ascending (inorder t) \<Longrightarrow> inorder (fst (remove_node t k)) = del_entry k (inorder t)"
proof (induction t k rule: remove_node.induct)
  case (1 k)
  then show ?case by (simp add: del_entry_def)
next
  case (2 nk nv l r h k)
  have lt: "k \<le> nk \<Longrightarrow> del_entry k (inorder r) = inorder r"
    and gt: "k \<ge> nk \<Longrightarrow> del_entry k (inorder l) = inorder l"
    using "2.prems" by (auto intro!: del_entry_absent)
  consider "k < nk" | "k > nk" | "k = nk" by fastforce
  then show ?case
  proof cases
    case 1
    with 2 lt remove_node_unchanged [of l k] show ?thesis by (auto split: prod.splits)
  next
    case 2
    with "2.IH" "2.prems" gt remove_node_unchanged [of r k] show ?thesis
      by (auto split: prod.splits)
  next
    case 3
    with lt gt show ?thesis
      by (auto split: prod.splits dest: remove_leftmost_entries)
  qed
qed

lemma map_of_node:
  assumes "ascending (xs @ (a, b) # ys)"
  shows "map_of (xs @ (a, b) # ys) k =
    (if k < a then map_of xs k else if k = a then Some b else map_of ys k)"
proof (cases "k < a")
  case True
  with assms have "map_of ys k = None" by (auto intro!: map_of_less(2))
  with True show ?thesis by (auto simp: map_add_def split: option.split)
next
  case False
  with assms have "map_of xs k = None" by (auto intro!: map_of_less(1))
  with False show ?thesis by (auto simp: map_add_def split: option.split)
qed

lemma node_get_entries: "ascending (inorder t) \<Longrightarrow> node_get t k = map_of (inorder t) k"
proof (induction t k rule: node_get.induct)
  case (2 nk nv l r h k)
  then show ?case by (simp only: inorder.simps map_of_node node_get.simps) auto
qed simp

lemma node_get_key_value_get:
  "node_get_key_value t k = map_option (Pair k) (node_get t k)"
  by (induction t k rule: node_get.induct) auto

section \<open>Balance\<close>

text \<open>
  The shape invariant: the cached height is the height, and the heights of two
  siblings differ by at most one.
\<close>

fun avl_ok :: "('k, 'v) avl \<Rightarrow> bool" where
  "avl_ok Leaf = True"
| "avl_ok (Node k v l r h) \<longleftrightarrow>
     avl_ok l \<and> avl_ok r \<and> h = 1 + max (node_height l) (node_height r) \<and>
     node_height l \<le> node_height r + 1 \<and> node_height r \<le> node_height l + 1"

lemma node_height_make_node [simp]:
  "node_height (make_node k v l r) = 1 + max (node_height l) (node_height r)"
  by (simp add: make_node_def)

lemma avl_ok_make_node [simp]:
  "avl_ok (make_node k v l r) \<longleftrightarrow>
     avl_ok l \<and> avl_ok r \<and>
     node_height l \<le> node_height r + 1 \<and> node_height r \<le> node_height l + 1"
  by (auto simp: make_node_def)

text \<open>
  Rebalancing restores the invariant when one side is too high by one level, and
  changes the height of the node by at most one.
\<close>

text \<open>A node already in balance is only rebuilt.\<close>

lemma balance_node_balanced:
  "node_height l \<le> node_height r + 1 \<Longrightarrow> node_height r \<le> node_height l + 1 \<Longrightarrow>
   balance_node k v l r = make_node k v l r"
  by (simp add: balance_node_def Let_def)

lemma balance_node_left_heavy:
  assumes "avl_ok (Node lk lv ll lr lh)" and "avl_ok r" and "lh = node_height r + 2"
  shows "avl_ok (balance_node k v (Node lk lv ll lr lh) r) \<and>
    lh \<le> node_height (balance_node k v (Node lk lv ll lr lh) r) \<and>
    node_height (balance_node k v (Node lk lv ll lr lh) r) \<le> lh + 1"
proof (cases "node_height ll \<ge> node_height lr")
  case True
  with assms show ?thesis by (auto simp: balance_node_def)
next
  case False
  then obtain mk mv ml mr mh where lr: "lr = Node mk mv ml mr mh" by (cases lr) auto
  with False assms show ?thesis by (auto simp: balance_node_def)
qed

lemma balance_node_right_heavy:
  assumes "avl_ok (Node rk rv rl rr rh)" and "avl_ok l" and "rh = node_height l + 2"
  shows "avl_ok (balance_node k v l (Node rk rv rl rr rh)) \<and>
    rh \<le> node_height (balance_node k v l (Node rk rv rl rr rh)) \<and>
    node_height (balance_node k v l (Node rk rv rl rr rh)) \<le> rh + 1"
proof (cases "node_height rr \<ge> node_height rl")
  case True
  with assms show ?thesis by (auto simp: balance_node_def)
next
  case False
  then obtain mk mv ml mr mh where rl: "rl = Node mk mv ml mr mh" by (cases rl) auto
  with False assms show ?thesis by (auto simp: balance_node_def)
qed

lemma balance_node_ok:
  assumes ok: "avl_ok l" "avl_ok r"
    and diff: "node_height l \<le> node_height r + 2" "node_height r \<le> node_height l + 2"
  shows "avl_ok (balance_node k v l r) \<and>
    max (node_height l) (node_height r) \<le> node_height (balance_node k v l r) \<and>
    node_height (balance_node k v l r) \<le> 1 + max (node_height l) (node_height r)"
proof -
  consider "node_height l = node_height r + 2" | "node_height r = node_height l + 2"
    | "node_height l \<le> node_height r + 1" "node_height r \<le> node_height l + 1"
    using diff by linarith
  then show ?thesis
  proof cases
    case 1
    then obtain lk lv ll lr where "l = Node lk lv ll lr (node_height r + 2)"
      by (cases l) auto
    with balance_node_left_heavy ok 1 show ?thesis
      by (metis One_nat_def Suc_eq_plus1_left add.commute le_add1 max.absorb1 node_height.simps(2))
  next
    case 2
    then obtain rk rv rl rr where "r = Node rk rv rl rr (node_height l + 2)"
      by (cases r) auto
    with balance_node_right_heavy ok 2 show ?thesis
      by (metis One_nat_def Suc_eq_plus1_left add.commute le_add1 max.absorb2 node_height.simps(2))
  next
    case 3
    with ok show ?thesis by (simp add: balance_node_balanced max_def)
  qed
qed

text \<open>
  A child replaced by one whose height moved by at most one step leaves a
  balanced node, whose height moved by at most one step in the same direction.
\<close>

lemma balance_node_grow:
  assumes "avl_ok (Node nk nv l r h)" and "avl_ok l'"
    and "node_height l' = node_height l \<or> node_height l' = node_height l + 1"
  shows "avl_ok (balance_node k v l' r) \<and>
    (node_height (balance_node k v l' r) = h \<or> node_height (balance_node k v l' r) = h + 1)"
proof (cases "node_height l' \<le> node_height r + 1 \<and> node_height r \<le> node_height l' + 1")
  case True
  with assms show ?thesis by (auto simp: balance_node_balanced)
next
  case False
  with assms balance_node_ok [of l' r k v] show ?thesis by (auto simp: max_def split: if_splits)
qed

lemma balance_node_grow_right:
  assumes "avl_ok (Node nk nv l r h)" and "avl_ok r'"
    and "node_height r' = node_height r \<or> node_height r' = node_height r + 1"
  shows "avl_ok (balance_node k v l r') \<and>
    (node_height (balance_node k v l r') = h \<or> node_height (balance_node k v l r') = h + 1)"
proof (cases "node_height r' \<le> node_height l + 1 \<and> node_height l \<le> node_height r' + 1")
  case True
  with assms show ?thesis by (auto simp: balance_node_balanced)
next
  case False
  with assms balance_node_ok [of l r' k v] show ?thesis by (auto simp: max_def split: if_splits)
qed

lemma balance_node_shrink:
  assumes "avl_ok (Node nk nv l r h)" and "avl_ok l'"
    and "node_height l = node_height l' \<or> node_height l = node_height l' + 1"
  shows "avl_ok (balance_node k v l' r) \<and>
    (h = node_height (balance_node k v l' r) \<or> h = node_height (balance_node k v l' r) + 1)"
proof (cases "node_height l' \<le> node_height r + 1 \<and> node_height r \<le> node_height l' + 1")
  case True
  with assms show ?thesis by (auto simp: balance_node_balanced)
next
  case False
  with assms balance_node_ok [of l' r k v] show ?thesis by (auto simp: max_def split: if_splits)
qed

lemma balance_node_shrink_right:
  assumes "avl_ok (Node nk nv l r h)" and "avl_ok r'"
    and "node_height r = node_height r' \<or> node_height r = node_height r' + 1"
  shows "avl_ok (balance_node k v l r') \<and>
    (h = node_height (balance_node k v l r') \<or> h = node_height (balance_node k v l r') + 1)"
proof (cases "node_height r' \<le> node_height l + 1 \<and> node_height l \<le> node_height r' + 1")
  case True
  with assms show ?thesis by (auto simp: balance_node_balanced)
next
  case False
  with assms balance_node_ok [of l r' k v] show ?thesis by (auto simp: max_def split: if_splits)
qed

lemma insert_node_ok:
  "avl_ok t \<Longrightarrow> avl_ok (fst (insert_node t k v)) \<and>
    (node_height (fst (insert_node t k v)) = node_height t \<or>
     node_height (fst (insert_node t k v)) = node_height t + 1)"
proof (induction t k v rule: insert_node.induct)
  case (1 k v)
  then show ?case by simp
next
  case (2 nk nv l r h k v)
  consider "k < nk" | "k = nk" | "nk < k" by fastforce
  then show ?case
  proof cases
    case 1
    with 2 balance_node_grow [OF "2.prems", of "fst (insert_node l k v)" nk nv]
    show ?thesis by (auto split: prod.splits)
  next
    case 2
    with "2.prems" show ?thesis by auto
  next
    case 3
    with 2 balance_node_grow_right [OF "2.prems", of "fst (insert_node r k v)" nk nv]
    show ?thesis by (auto split: prod.splits)
  qed
qed

lemma remove_leftmost_ok:
  "avl_ok t \<Longrightarrow> t \<noteq> Leaf \<Longrightarrow> avl_ok (fst (remove_leftmost t)) \<and>
    (node_height t = node_height (fst (remove_leftmost t)) \<or>
     node_height t = node_height (fst (remove_leftmost t)) + 1)"
proof (induction t rule: remove_leftmost.induct)
  case (2 k v lk lv ll lr lh r h)
  with balance_node_shrink [OF "2.prems"(1),
      of "fst (remove_leftmost (Node lk lv ll lr lh))" k v]
  show ?case by (auto split: prod.splits)
qed auto

lemma remove_node_ok:
  "avl_ok t \<Longrightarrow> avl_ok (fst (remove_node t k)) \<and>
    (node_height t = node_height (fst (remove_node t k)) \<or>
     node_height t = node_height (fst (remove_node t k)) + 1)"
proof (induction t k rule: remove_node.induct)
  case (1 k)
  then show ?case by simp
next
  case (2 nk nv l r h k)
  consider "k < nk" | "nk < k" | "k = nk" by fastforce
  then show ?case
  proof cases
    case 1
    with 2 balance_node_shrink [OF "2.prems", of "fst (remove_node l k)" nk nv]
    show ?thesis by (auto split: prod.splits)
  next
    case 2
    with "2.IH" "2.prems"
      balance_node_shrink_right [OF "2.prems", of "fst (remove_node r k)" nk nv]
    show ?thesis by (auto split: prod.splits)
  next
    case 3
    show ?thesis
    proof (cases "l = Leaf \<or> r = Leaf")
      case True
      with 3 "2.prems" show ?thesis by auto
    next
      case False
      obtain r' sk sv where rl: "remove_leftmost r = (r', sk, sv)" by (cases "remove_leftmost r")
      from False "2.prems" remove_leftmost_ok [of r] rl
      have "avl_ok r'" "node_height r = node_height r' \<or> node_height r = node_height r' + 1"
        by auto
      with balance_node_shrink_right [OF "2.prems"] False 3 rl show ?thesis by auto
    qed
  qed
qed

section \<open>The representation invariant\<close>

definition wf_map :: "('k::linorder, 'v) pmap \<Rightarrow> bool" where
  "wf_map m \<longleftrightarrow>
     ascending (entries m) \<and> avl_ok (map_root m) \<and> map_len m = length (entries m)"

lemma length_ins_entry:
  "ascending xs \<Longrightarrow>
   length (ins_entry k v xs) = length xs + of_bool (map_of xs k = None)"
proof (induction k v xs rule: ins_entry.induct)
  case (2 k v a b xs)
  have "map_of xs k = None" if "k < a" using that "2.prems" by (auto intro!: map_of_less(2))
  with 2 show ?case by auto
qed simp

lemma length_del_entry:
  "ascending xs \<Longrightarrow> length (del_entry k xs) = length xs - of_bool (map_of xs k \<noteq> None)"
proof (induction xs)
  case Nil
  then show ?case by (simp add: del_entry_def)
next
  case (Cons x xs)
  show ?case
  proof (cases "fst x = k")
    case True
    with Cons.prems have "del_entry k xs = xs" by (auto intro!: del_entry_absent)
    with True show ?thesis by (cases x) simp
  next
    case False
    moreover have "xs \<noteq> []" if "map_of xs k \<noteq> None" using that by auto
    ultimately show ?thesis using Cons by (cases x; cases xs) auto
  qed
qed

lemma ins_entry_keys: "fst ` set (ins_entry k v xs) = insert k (fst ` set xs)"
  by (induction k v xs rule: ins_entry.induct) auto

lemma ascending_ins_entry: "ascending xs \<Longrightarrow> ascending (ins_entry k v xs)"
proof (induction k v xs rule: ins_entry.induct)
  case (2 k v a b xs)
  have "fst y \<in> insert k (fst ` set xs)" if "y \<in> set (ins_entry k v xs)" for y
    using that ins_entry_keys by (metis imageI)
  with 2 show ?case by fastforce
qed simp

lemma ascending_del_entry: "ascending xs \<Longrightarrow> ascending (del_entry k xs)"
  by (induction xs) (auto simp: del_entry_def)

lemma map_of_ins_entry: "map_of (ins_entry k v xs) = (map_of xs)(k \<mapsto> v)"
  by (induction k v xs rule: ins_entry.induct) (auto simp: fun_eq_iff)

lemma map_of_del_entry: "map_of (del_entry k xs) = (map_of xs)(k := None)"
  by (induction xs) (auto simp: del_entry_def fun_eq_iff)

lemma insert_node_fresh:
  "ascending (inorder t) \<Longrightarrow>
   snd (insert_node t k v) \<longleftrightarrow> map_of (inorder t) k = None"
proof (induction t k v rule: insert_node.induct)
  case (2 nk nv l r h k v)
  then show ?case by (simp only: inorder.simps map_of_node) (auto split: prod.splits)
qed simp

lemma remove_node_present:
  "ascending (inorder t) \<Longrightarrow>
   snd (remove_node t k) \<longleftrightarrow> map_of (inorder t) k \<noteq> None"
proof (induction t k rule: remove_node.induct)
  case (2 nk nv l r h k)
  then show ?case by (simp only: inorder.simps map_of_node) (auto split: prod.splits)
qed simp

lemma entries_with_inserted [map_entries]:
  "wf_map m \<Longrightarrow> entries (with_inserted m k v) = ins_entry k v (entries m)"
  using insert_node_entries [of "map_root m" k v]
  by (auto simp: with_inserted_def wf_map_def split: prod.splits)

lemma entries_without_key [map_entries]:
  "wf_map m \<Longrightarrow> entries (without_key m k) = del_entry k (entries m)"
  using remove_node_entries [of "map_root m" k]
  by (auto simp: without_key_def wf_map_def split: prod.splits)

lemma entries_map_empty [map_entries]: "entries map_empty = []"
  by (simp add: map_empty_def)

lemma wf_map_empty: "wf_map map_empty"
  by (simp add: wf_map_def map_empty_def)

lemma wf_with_inserted:
  assumes wf: "wf_map m"
  shows "wf_map (with_inserted m k v)"
proof -
  have asc: "ascending (entries m)" and ok: "avl_ok (map_root m)"
    and ln: "map_len m = length (entries m)"
    using wf by (simp_all add: wf_map_def)
  have "avl_ok (map_root (with_inserted m k v))"
    using insert_node_ok [OF ok, of k v] by (auto simp: with_inserted_def split: prod.splits)
  moreover have "map_len (with_inserted m k v) =
      map_len m + of_bool (map_of (entries m) k = None)"
    using insert_node_fresh [OF asc, of k v] by (auto simp: with_inserted_def split: prod.splits)
  ultimately show ?thesis
    using asc ln wf
    by (simp add: wf_map_def [of "with_inserted m k v"] entries_with_inserted
        ascending_ins_entry length_ins_entry)
qed

lemma wf_without_key:
  assumes wf: "wf_map m"
  shows "wf_map (without_key m k)"
proof -
  have asc: "ascending (entries m)" and ok: "avl_ok (map_root m)"
    and ln: "map_len m = length (entries m)"
    using wf by (simp_all add: wf_map_def)
  have "avl_ok (map_root (without_key m k))"
    using remove_node_ok [OF ok, of k] by (auto simp: without_key_def split: prod.splits)
  moreover have "map_len (without_key m k) =
      map_len m - of_bool (map_of (entries m) k \<noteq> None)"
    using remove_node_present [OF asc, of k] by (auto simp: without_key_def split: prod.splits)
  ultimately show ?thesis
    using asc ln wf
    by (simp add: wf_map_def [of "without_key m k"] entries_without_key
        ascending_del_entry length_del_entry)
qed

lemma map_get_entries: "wf_map m \<Longrightarrow> map_get m k = map_of (entries m) k"
  by (simp add: map_get_def wf_map_def node_get_entries)

section \<open>Interfaces\<close>

text \<open>
  What the clients of the map rely on. \<open>ordered_map\<close> is the contract of the
  ordered map on well-formed values: lookups after updates, and an entry list in
  strictly ascending key order that agrees with the lookups.
\<close>

locale ordered_map =
  fixes empty :: "'m"
    and insert :: "'m \<Rightarrow> 'k::linorder \<Rightarrow> 'v \<Rightarrow> 'm"
    and remove :: "'m \<Rightarrow> 'k \<Rightarrow> 'm"
    and lookup :: "'m \<Rightarrow> 'k \<Rightarrow> 'v option"
    and items :: "'m \<Rightarrow> ('k \<times> 'v) list"
    and invar :: "'m \<Rightarrow> bool"
  assumes invar_empty: "invar empty"
    and invar_insert: "invar m \<Longrightarrow> invar (insert m k v)"
    and invar_remove: "invar m \<Longrightarrow> invar (remove m k)"
    and lookup_empty: "lookup empty k = None"
    and lookup_insert: "invar m \<Longrightarrow> lookup (insert m k v) = (lookup m)(k \<mapsto> v)"
    and lookup_remove: "invar m \<Longrightarrow> lookup (remove m k) = (lookup m)(k := None)"
    and items_ascending: "invar m \<Longrightarrow> ascending (items m)"
    and items_lookup: "invar m \<Longrightarrow> map_of (items m) = lookup m"
begin

lemma items_eq_iff:
  assumes "invar m" and "invar n"
  shows "items m = items n \<longleftrightarrow> lookup m = lookup n"
  using assms ascending_map_of_ext items_ascending items_lookup by metis

lemma mem_items: "invar m \<Longrightarrow> (k, v) \<in> set (items m) \<longleftrightarrow> lookup m k = Some v"
  by (simp add: ascending_map_of items_ascending items_lookup)

lemma invar_foldl_insert:
  "invar m \<Longrightarrow> invar (foldl (\<lambda>m (k, v). insert m k v) m xs)"
  by (induction xs arbitrary: m) (auto simp: invar_insert)

lemma lookup_foldl_insert:
  "invar m \<Longrightarrow>
   lookup (foldl (\<lambda>m (k, v). insert m k v) m xs) = lookup m ++ map_of (rev xs)"
proof (induction xs arbitrary: m)
  case (Cons x xs)
  obtain k v where x: "x = (k, v)" by (cases x)
  with Cons show ?case
    by (simp add: invar_insert lookup_insert map_add_def fun_eq_iff split: option.split)
qed simp

text \<open>The content of a map does not depend on the history that built it.\<close>

lemma items_foldl_insert_remove:
  assumes "invar m" and "lookup m k = None"
  shows "items (remove (insert m k v) k) = items m"
  using assms
  by (subst items_eq_iff) (auto simp: invar_insert invar_remove lookup_insert lookup_remove)

lemma insert_commute:
  assumes "invar m" and "k \<noteq> k'"
  shows "items (insert (insert m k v) k' v') = items (insert (insert m k' v') k v)"
  using assms by (subst items_eq_iff) (auto simp: invar_insert lookup_insert fun_upd_twist)

end

interpretation pmap: ordered_map map_empty with_inserted without_key map_get
  "\<lambda>m. entries m" wf_map
proof
  show "wf_map map_empty" by (rule wf_map_empty)
next
  fix m :: "('a, 'b) pmap" and k :: 'a and v :: 'b
  assume wf: "wf_map m"
  show "wf_map (with_inserted m k v)" using wf by (rule wf_with_inserted)
  show "wf_map (without_key m k)" using wf by (rule wf_without_key)
  show "map_get (with_inserted m k v) = (map_get m)(k \<mapsto> v)"
    using wf by (simp add: fun_eq_iff map_get_entries wf_with_inserted entries_with_inserted
        map_of_ins_entry)
  show "map_get (without_key m k) = (map_get m)(k := None)"
    using wf by (simp add: fun_eq_iff map_get_entries wf_without_key entries_without_key
        map_of_del_entry)
  show "ascending (entries m)" using wf by (simp add: wf_map_def)
  show "map_of (entries m) = map_get m" using wf by (simp add: fun_eq_iff map_get_entries)
next
  fix k :: 'a
  show "map_get map_empty k = None" by (simp add: map_get_def map_empty_def)
qed

text \<open>
  \<open>fact_store\<close> is the weaker contract a client needs that only records
  consequences: whatever the store answers was put in. It holds of every map
  value, well formed or not, and so asks its client for no invariant.
\<close>

locale fact_store =
  fixes empty :: "'m"
    and insert :: "'m \<Rightarrow> 'k \<Rightarrow> 'v \<Rightarrow> 'm"
    and remove :: "'m \<Rightarrow> 'k \<Rightarrow> 'm"
    and lookup :: "'m \<Rightarrow> 'k \<Rightarrow> 'v option"
    and items :: "'m \<Rightarrow> ('k \<times> 'v) list"
  assumes items_empty: "items empty = []"
    and items_insert: "set (items (insert m k v)) \<subseteq> {(k, v)} \<union> set (items m)"
    and items_remove: "set (items (remove m k)) \<subseteq> set (items m)"
    and lookup_items: "lookup m k = Some v \<Longrightarrow> (k, v) \<in> set (items m)"
begin

text \<open>A fact that holds of every entry holds of every answer, and survives updates.\<close>

definition holds :: "('k \<Rightarrow> 'v \<Rightarrow> bool) \<Rightarrow> 'm \<Rightarrow> bool" where
  "holds P m \<longleftrightarrow> (\<forall>(k, v) \<in> set (items m). P k v)"

lemma holds_empty [simp, sound_intros]: "holds P empty"
  by (simp add: holds_def items_empty)

lemma holds_insert [sound_intros]: "holds P m \<Longrightarrow> P k v \<Longrightarrow> holds P (insert m k v)"
  using items_insert by (fastforce simp: holds_def)

lemma holds_remove [sound_intros]: "holds P m \<Longrightarrow> holds P (remove m k)"
  using items_remove by (fastforce simp: holds_def)

lemma holds_lookup: "holds P m \<Longrightarrow> lookup m k = Some v \<Longrightarrow> P k v"
  using lookup_items by (fastforce simp: holds_def)

lemma holds_item: "holds P m \<Longrightarrow> (k, v) \<in> set (items m) \<Longrightarrow> P k v"
  by (fastforce simp: holds_def)

lemma holds_mono: "holds P m \<Longrightarrow> (\<And>k v. P k v \<Longrightarrow> Q k v) \<Longrightarrow> holds Q m"
  by (fastforce simp: holds_def)

end

lemma set_insert_node: "set (inorder (fst (insert_node t k v))) \<subseteq> {(k, v)} \<union> set (inorder t)"
  by (induction t k v rule: insert_node.induct) (auto split: prod.splits)

lemma set_remove_node: "set (inorder (fst (remove_node t k))) \<subseteq> set (inorder t)"
proof (induction t k rule: remove_node.induct)
  case (2 nk nv l r h k)
  then show ?case by (auto split: prod.splits dest: remove_leftmost_entries)
qed simp

lemma node_get_mem: "node_get t k = Some v \<Longrightarrow> (k, v) \<in> set (inorder t)"
  by (induction t k rule: node_get.induct) (auto split: if_splits)

interpretation store: fact_store map_empty with_inserted without_key map_get
  "\<lambda>m. entries m"
proof
  show "entries map_empty = []" by (rule entries_map_empty)
next
  fix m :: "('a, 'b) pmap" and k :: 'a and v :: 'b
  show "set (entries (with_inserted m k v)) \<subseteq> {(k, v)} \<union> set (entries m)"
    using set_insert_node [of "map_root m" k v] by (auto simp: with_inserted_def split: prod.splits)
  show "set (entries (without_key m k)) \<subseteq> set (entries m)"
    using set_remove_node [of "map_root m" k] by (auto simp: without_key_def split: prod.splits)
  assume "map_get m k = Some v"
  then show "(k, v) \<in> set (entries m)" by (simp add: map_get_def node_get_mem)
qed

section \<open>Properties of the map\<close>

text \<open>C17: inserting a binding into a well-formed persistent map gives a well-formed map
  (search order, AVL balance with exact cached heights, exact length) whose lookups are
  those of the old map updated at the key, and whose length grows exactly when the key
  was absent.\<close>

theorem with_inserted_correct:
  assumes "wf_map m"
  shows "wf_map (with_inserted m k v) \<and>
    map_get (with_inserted m k v) = (map_get m)(k \<mapsto> v) \<and>
    map_len (with_inserted m k v) = map_len m + of_bool (\<not> contains_key m k)"
proof -
  have "length (entries (with_inserted m k v)) =
      length (entries m) + of_bool (map_get m k = None)"
    using assms
    by (simp add: entries_with_inserted length_ins_entry map_get_entries pmap.items_ascending)
  then show ?thesis
    using assms pmap.invar_insert [OF assms] pmap.lookup_insert [OF assms]
    by (simp add: wf_map_def contains_key_def)
qed

theorem with_inserted_correct_witness:
  "wf_map (map_empty :: (nat, nat) pmap) \<and>
   map_get (with_inserted map_empty (3::nat) (7::nat)) 3 = Some 7"
  using with_inserted_correct [OF wf_map_empty, of "3::nat" "7::nat"] wf_map_empty by simp

text \<open>C18: removing a key from a well-formed persistent map gives a well-formed map in
  which only that key is undefined; the length shrinks exactly when the key was bound.\<close>

theorem without_key_correct:
  assumes "wf_map m"
  shows "wf_map (without_key m k) \<and>
    map_get (without_key m k) = (map_get m)(k := None) \<and>
    map_len (without_key m k) = map_len m - of_bool (contains_key m k)"
proof -
  have "length (entries (without_key m k)) =
      length (entries m) - of_bool (map_get m k \<noteq> None)"
    using assms
    by (simp add: entries_without_key length_del_entry map_get_entries pmap.items_ascending)
  then show ?thesis
    using assms pmap.invar_remove [OF assms] pmap.lookup_remove [OF assms]
    by (simp add: wf_map_def contains_key_def)
qed

theorem without_key_correct_witness:
  "map_get (without_key (with_inserted map_empty (3::nat) (7::nat)) 3) 3 = None"
  using without_key_correct [OF wf_with_inserted [OF wf_map_empty], of "3::nat" "7::nat" 3]
  by simp

text \<open>
  An AVL tree of height \<open>h\<close> has at least \<open>sqrt (2 ^ h) - 1\<close> entries: at
  each level the smaller child has lost at most one level of height.
\<close>

lemma avl_ok_size: "avl_ok t \<Longrightarrow> 2 ^ node_height t \<le> (length (inorder t) + 1) ^ 2"
proof (induction t)
  case (Node k v l r h)
  let ?a = "length (inorder l) + 1" and ?b = "length (inorder r) + 1"
  let ?m = "max (node_height l) (node_height r)" and ?c = "min ?a ?b"
  from Node have l: "2 ^ node_height l \<le> ?a ^ 2" and r: "2 ^ node_height r \<le> ?b ^ 2"
    and h: "h = Suc ?m" and d: "?m \<le> Suc (node_height l)" "?m \<le> Suc (node_height r)"
    by auto
  have "2 ^ (?m - 1) \<le> (2::nat) ^ node_height l" "2 ^ (?m - 1) \<le> (2::nat) ^ node_height r"
    using d by (auto intro!: power_increasing)
  then have "2 ^ (?m - 1) \<le> ?a ^ 2" "2 ^ (?m - 1) \<le> ?b ^ 2" using l r by linarith+
  then have "2 ^ (?m - 1) \<le> ?c ^ 2" by (simp add: min_def)
  moreover have "4 * ?c ^ 2 \<le> (?a + ?b) ^ 2"
  proof -
    have "2 * ?c \<le> ?a + ?b" by simp
    then have "(2 * ?c) ^ 2 \<le> (?a + ?b) ^ 2" by (rule power_mono) simp
    moreover have "(2 * x) ^ 2 = 4 * x ^ 2" for x :: nat by (simp add: power_mult_distrib)
    ultimately show ?thesis by metis
  qed
  moreover have "2 ^ h \<le> (4::nat) * 2 ^ (?m - 1)"
    using h by (cases ?m) auto
  ultimately have "2 ^ h \<le> (?a + ?b) ^ 2" by linarith
  then show ?case by (simp add: add.commute add.left_commute)
qed simp

text \<open>C19: the cached height never overflows its 16-bit field: a well-formed map whose
  length is a 64-bit number has height at most 128.\<close>

theorem height_fits:
  assumes "wf_map m" and "map_len m < 2 ^ 64"
  shows "node_height (map_root m) \<le> 128"
proof -
  have "2 ^ node_height (map_root m) \<le> (map_len m + 1) ^ 2"
    using avl_ok_size [of "map_root m"] assms(1) by (simp add: wf_map_def)
  also have "\<dots> \<le> (2 ^ 64) ^ 2" using assms(2) by (intro power_mono) auto
  also have "\<dots> = (2::nat) ^ 128" by simp
  finally have "(2::nat) ^ node_height (map_root m) \<le> 2 ^ 128" .
  then show ?thesis by (subst (asm) power_increasing_iff) auto
qed

theorem height_fits_witness:
  "node_height (map_root (with_inserted map_empty (1::nat) ())) \<le> 128"
  by (rule height_fits [OF wf_with_inserted [OF wf_map_empty]])
     (simp add: with_inserted_def map_empty_def)

lemma node_less_than_filter:
  "ascending (inorder t) \<Longrightarrow> node_less_than t k c =
    (if filter (\<lambda>e. fst e < k) (inorder t) = [] then c
     else Some (last (filter (\<lambda>e. fst e < k) (inorder t))))"
proof (induction t k c rule: node_less_than.induct)
  case (2 nk nv l r h k c)
  show ?case
  proof (cases "k \<le> nk")
    case True
    with "2.prems" have "filter (\<lambda>e. fst e < k) (inorder r) = []"
      by (fastforce simp: filter_empty_conv)
    moreover from True have "\<not> nk < k" by simp
    ultimately show ?thesis using True 2 by simp
  next
    case False
    moreover from False have "nk < k" by simp
    ultimately show ?thesis using 2 by simp
  qed
qed simp

lemma node_greater_than_filter:
  "ascending (inorder t) \<Longrightarrow> node_greater_than t k c =
    (if filter (\<lambda>e. k < fst e) (inorder t) = [] then c
     else Some (hd (filter (\<lambda>e. k < fst e) (inorder t))))"
proof (induction t k c rule: node_greater_than.induct)
  case (2 nk nv l r h k c)
  show ?case
  proof (cases "k < nk")
    case True
    with 2 show ?thesis by (simp add: hd_append)
  next
    case False
    with "2.prems" have "filter (\<lambda>e. k < fst e) (inorder l) = []"
      by (fastforce simp: filter_empty_conv)
    with False 2 show ?thesis by simp
  qed
qed simp

lemma ascending_last:
  assumes "ascending xs" and "xs \<noteq> []"
  shows "last xs \<in> set xs \<and> (\<forall>e \<in> set xs. fst e \<le> fst (last xs))"
  using assms by (induction xs) (auto simp: less_imp_le)

lemma ascending_filter: "ascending xs \<Longrightarrow> ascending (filter P xs)"
  by (induction xs) auto

lemma ascending_le_head: "ascending (x # xs) \<Longrightarrow> e \<in> set (x # xs) \<Longrightarrow> fst x \<le> fst e"
  by (auto simp: less_imp_le)

text \<open>The neighbour searches return the greatest bound key strictly below the given
  key, and the least bound key strictly above it, each with its value, and nothing exactly
  when there is no such key.\<close>

theorem neighbours_correct:
  assumes "wf_map m"
  shows "(case get_less_than m k of
      None \<Rightarrow> \<forall>c. contains_key m c \<longrightarrow> k \<le> c
    | Some (a, b) \<Rightarrow> map_get m a = Some b \<and> a < k \<and>
        (\<forall>c. contains_key m c \<longrightarrow> c < k \<longrightarrow> c \<le> a)) \<and>
    (case get_greater_than m k of
      None \<Rightarrow> \<forall>c. contains_key m c \<longrightarrow> c \<le> k
    | Some (a, b) \<Rightarrow> map_get m a = Some b \<and> k < a \<and>
        (\<forall>c. contains_key m c \<longrightarrow> k < c \<longrightarrow> a \<le> c))"
proof -
  have asc: "ascending (entries m)" using assms by (rule pmap.items_ascending)
  have mem: "contains_key m c \<longleftrightarrow> (\<exists>b. (c, b) \<in> set (entries m))" for c
    using pmap.mem_items [OF assms] by (auto simp: contains_key_def)
  let ?below = "filter (\<lambda>e. fst e < k) (entries m)"
  let ?above = "filter (\<lambda>e. k < fst e) (entries m)"
  have lt: "get_less_than m k = (if ?below = [] then None else Some (last ?below))"
    using node_less_than_filter [OF asc, of k None]
    by (simp add: get_less_than_def)
  have gt: "get_greater_than m k = (if ?above = [] then None else Some (hd ?above))"
    using node_greater_than_filter [OF asc, of k None]
    by (simp add: get_greater_than_def)
  have "case get_less_than m k of
      None \<Rightarrow> \<forall>c. contains_key m c \<longrightarrow> k \<le> c
    | Some (a, b) \<Rightarrow> map_get m a = Some b \<and> a < k \<and>
        (\<forall>c. contains_key m c \<longrightarrow> c < k \<longrightarrow> c \<le> a)"
  proof (cases "?below = []")
    case True
    then show ?thesis by (auto simp: lt mem filter_empty_conv not_less)
  next
    case False
    obtain a b where e: "last ?below = (a, b)" by (cases "last ?below")
    from False ascending_last [OF ascending_filter [OF asc]] e
    have "(a, b) \<in> set ?below" and "\<forall>e \<in> set ?below. fst e \<le> a" by (metis fst_conv)+
    then show ?thesis using False e by (auto simp: lt mem pmap.mem_items [OF assms, symmetric])
  qed
  moreover have "case get_greater_than m k of
      None \<Rightarrow> \<forall>c. contains_key m c \<longrightarrow> c \<le> k
    | Some (a, b) \<Rightarrow> map_get m a = Some b \<and> k < a \<and>
        (\<forall>c. contains_key m c \<longrightarrow> k < c \<longrightarrow> a \<le> c)"
  proof (cases ?above)
    case Nil
    then show ?thesis by (auto simp: gt mem filter_empty_conv not_less)
  next
    case (Cons e es)
    obtain a b where e: "e = (a, b)" by (cases e)
    have le: "\<forall>x \<in> set ?above. a \<le> fst x"
      using ascending_le_head [of e es] ascending_filter [OF asc] Cons e by (metis fst_conv)
    have "(a, b) \<in> set ?above" using Cons e by simp
    with le have "map_get m a = Some b" "k < a"
      "\<forall>c. contains_key m c \<longrightarrow> k < c \<longrightarrow> a \<le> c"
      by (auto simp: mem pmap.mem_items [OF assms, symmetric])
    moreover have "get_greater_than m k = Some (a, b)" using Cons e gt by simp
    ultimately show ?thesis by simp
  qed
  ultimately show ?thesis ..
qed

end
