(* ===== verification/PersistentIter.thy ===== *)
theory PersistentIter
  imports Persistent
begin

text \<open>
  Walks over the persistent map of \<^verbatim>\<open>src/src/persistent.rs\<close>: the
  double-ended iterator, the owned iterator of a set, the difference of two maps
  that skips what they share, and the equality built on it. A \<open>Vec\<close> used as
  a stack is a list whose head is the top.
\<close>

section \<open>The double-ended iterator\<close>

record ('k, 'v) map_iter =
  iter_front :: "('k, 'v) avl list"
  iter_back :: "('k, 'v) avl list"
  iter_remaining :: nat

fun push_front :: "('k, 'v) avl list \<Rightarrow> ('k, 'v) avl \<Rightarrow> ('k, 'v) avl list" where
  "push_front stack Leaf = stack"
| "push_front stack (Node k v l r h) = push_front (Node k v l r h # stack) l"

fun push_back :: "('k, 'v) avl list \<Rightarrow> ('k, 'v) avl \<Rightarrow> ('k, 'v) avl list" where
  "push_back stack Leaf = stack"
| "push_back stack (Node k v l r h) = push_back (Node k v l r h # stack) r"

definition iter_new :: "('k, 'v) avl \<Rightarrow> nat \<Rightarrow> ('k, 'v) map_iter" where
  "iter_new t n = \<lparr>iter_front = push_front [] t, iter_back = push_back [] t, iter_remaining = n\<rparr>"

definition map_iter :: "('k, 'v) pmap \<Rightarrow> ('k, 'v) map_iter" where
  "map_iter m = iter_new (map_root m) (map_len m)"

text \<open>
  \<open>next\<close> and \<open>next_back\<close> return the item and the advanced iterator. An
  empty stack is the early return of \<open>pop()?\<close>, after the count went down.
\<close>

definition iter_next ::
  "('k, 'v) map_iter \<Rightarrow> ('k \<times> 'v) option \<times> ('k, 'v) map_iter" where
  "iter_next it =
     (if iter_remaining it = 0 then (None, it)
      else
        let it = it\<lparr>iter_remaining := iter_remaining it - 1\<rparr> in
        (case iter_front it of
           Node k v l r h # stack \<Rightarrow> (Some (k, v), it\<lparr>iter_front := push_front stack r\<rparr>)
         | _ \<Rightarrow> (None, it)))"

definition iter_next_back ::
  "('k, 'v) map_iter \<Rightarrow> ('k \<times> 'v) option \<times> ('k, 'v) map_iter" where
  "iter_next_back it =
     (if iter_remaining it = 0 then (None, it)
      else
        let it = it\<lparr>iter_remaining := iter_remaining it - 1\<rparr> in
        (case iter_back it of
           Node k v l r h # stack \<Rightarrow> (Some (k, v), it\<lparr>iter_back := push_back stack l\<rparr>)
         | _ \<Rightarrow> (None, it)))"

definition iter_size_hint :: "('k, 'v) map_iter \<Rightarrow> nat \<times> nat option" where
  "iter_size_hint it = (iter_remaining it, Some (iter_remaining it))"

text \<open>
  The entries a front stack still has ahead of it, in order, and those a back
  stack has, in reverse order.
\<close>

fun front_entries :: "('k, 'v) avl list \<Rightarrow> ('k \<times> 'v) list" where
  "front_entries [] = []"
| "front_entries (Leaf # ts) = front_entries ts"
| "front_entries (Node k v l r h # ts) = (k, v) # inorder r @ front_entries ts"

fun back_entries :: "('k, 'v) avl list \<Rightarrow> ('k \<times> 'v) list" where
  "back_entries [] = []"
| "back_entries (Leaf # ts) = back_entries ts"
| "back_entries (Node k v l r h # ts) = (k, v) # rev (inorder l) @ back_entries ts"

lemma front_entries_push: "front_entries (push_front ts t) = inorder t @ front_entries ts"
  by (induction ts t rule: push_front.induct) auto

lemma back_entries_push: "back_entries (push_back ts t) = rev (inorder t) @ back_entries ts"
  by (induction ts t rule: push_back.induct) auto

definition no_leaf :: "('k, 'v) avl list \<Rightarrow> bool" where
  "no_leaf ts \<longleftrightarrow> Leaf \<notin> set ts"

lemma no_leaf_Nil [simp]: "no_leaf []"
  by (simp add: no_leaf_def)

lemma no_leaf_push: "no_leaf ts \<Longrightarrow> no_leaf (push_front ts t)" "no_leaf ts \<Longrightarrow> no_leaf (push_back ts t)"
  by (induction t arbitrary: ts) (auto simp: no_leaf_def)

text \<open>
  The iterator stands for a segment \<open>s\<close> of the entries: its front stack sees
  the segment and what follows, its back stack the segment and what precedes.
\<close>

definition iter_over :: "('k, 'v) map_iter \<Rightarrow> ('k \<times> 'v) list \<Rightarrow> bool" where
  "iter_over it s \<longleftrightarrow>
     iter_remaining it = length s \<and> no_leaf (iter_front it) \<and> no_leaf (iter_back it) \<and>
     (\<exists>post. front_entries (iter_front it) = s @ post) \<and>
     (\<exists>pre. back_entries (iter_back it) = rev s @ pre)"

lemma iter_over_new: "map_len m = length (entries m) \<Longrightarrow> iter_over (map_iter m) (entries m)"
  by (simp add: iter_over_def map_iter_def iter_new_def front_entries_push back_entries_push
      no_leaf_push)

lemma iter_next_Nil: "iter_over it [] \<Longrightarrow> iter_next it = (None, it)"
  by (simp add: iter_over_def iter_next_def)

lemma iter_next_back_Nil: "iter_over it [] \<Longrightarrow> iter_next_back it = (None, it)"
  by (simp add: iter_over_def iter_next_back_def)

lemma iter_next_Cons:
  assumes "iter_over it (e # s)"
  obtains it' where "iter_next it = (Some e, it')" and "iter_over it' s"
proof -
  from assms obtain post pre where
    f: "front_entries (iter_front it) = e # s @ post" and nl: "no_leaf (iter_front it)" "no_leaf (iter_back it)"
    and b: "back_entries (iter_back it) = rev s @ e # pre" and rm: "iter_remaining it = Suc (length s)"
    by (auto simp: iter_over_def)
  from f nl(1) obtain k v l r h stack where
    fr: "iter_front it = Node k v l r h # stack" and e: "e = (k, v)"
    and rest: "inorder r @ front_entries stack = s @ post"
    by (cases "iter_front it" rule: front_entries.cases) (auto simp: no_leaf_def)
  let ?it = "it\<lparr>iter_remaining := length s, iter_front := push_front stack r\<rparr>"
  have "iter_next it = (Some e, ?it)" using fr e rm by (simp add: iter_next_def)
  moreover have "no_leaf stack" using nl(1) fr by (simp add: no_leaf_def)
  then have "iter_over ?it s"
    using rest b nl(2) by (simp add: iter_over_def front_entries_push no_leaf_push)
  ultimately show ?thesis by (rule that)
qed

lemma iter_next_back_snoc:
  assumes "iter_over it (s @ [e])"
  obtains it' where "iter_next_back it = (Some e, it')" and "iter_over it' s"
proof -
  from assms obtain post pre where
    f: "front_entries (iter_front it) = s @ e # post" and nl: "no_leaf (iter_front it)" "no_leaf (iter_back it)"
    and b: "back_entries (iter_back it) = e # rev s @ pre" and rm: "iter_remaining it = Suc (length s)"
    by (auto simp: iter_over_def)
  from b nl(2) obtain k v l r h stack where
    bk: "iter_back it = Node k v l r h # stack" and e: "e = (k, v)"
    and rest: "rev (inorder l) @ back_entries stack = rev s @ pre"
    by (cases "iter_back it" rule: back_entries.cases) (auto simp: no_leaf_def)
  let ?it = "it\<lparr>iter_remaining := length s, iter_back := push_back stack l\<rparr>"
  have "iter_next_back it = (Some e, ?it)" using bk e rm by (simp add: iter_next_back_def)
  moreover have "no_leaf stack" using nl(2) bk by (simp add: no_leaf_def)
  then have "iter_over ?it s"
    using rest f nl(1) by (simp add: iter_over_def back_entries_push no_leaf_push)
  ultimately show ?thesis by (rule that)
qed

text \<open>
  A client calls the two ends in any order. \<open>drain\<close> runs a list of calls
  (\<open>True\<close> for \<open>next\<close>) and collects what they return; \<open>deque\<close> is the
  same client on a list.
\<close>

fun drain :: "bool list \<Rightarrow> ('k, 'v) map_iter \<Rightarrow> ('k \<times> 'v) option list" where
  "drain [] it = []"
| "drain (c # cs) it =
     (let (x, it') = (if c then iter_next it else iter_next_back it) in x # drain cs it')"

fun deque :: "bool list \<Rightarrow> 'a list \<Rightarrow> 'a option list" where
  "deque [] xs = []"
| "deque (c # cs) [] = None # deque cs []"
| "deque (c # cs) (x # xs) =
     (if c then Some x # deque cs xs
      else Some (last (x # xs)) # deque cs (butlast (x # xs)))"

lemma drain_deque: "iter_over it s \<Longrightarrow> drain cs it = deque cs s"
proof (induction cs s arbitrary: it rule: deque.induct)
  case (2 c cs)
  then show ?case by (simp add: iter_next_Nil iter_next_back_Nil)
next
  case (3 c cs x xs)
  show ?case
  proof (cases c)
    case True
    from "3.prems" obtain it' where "iter_next it = (Some x, it')" "iter_over it' xs"
      by (rule iter_next_Cons)
    with True "3.IH"(1) show ?thesis by simp
  next
    case False
    have "x # xs = butlast (x # xs) @ [last (x # xs)]" by simp
    with "3.prems" have "iter_over it (butlast (x # xs) @ [last (x # xs)])" by simp
    then obtain it' where "iter_next_back it = (Some (last (x # xs)), it')"
      "iter_over it' (butlast (x # xs))" by (rule iter_next_back_snoc)
    with False "3.IH"(2) show ?thesis by simp
  qed
qed simp

section \<open>Sets\<close>

type_synonym 'a pset = "('a, unit) pmap"

definition with_value :: "'a::linorder pset \<Rightarrow> 'a \<Rightarrow> 'a pset" where
  "with_value s x = with_inserted s x ()"

definition set_contains :: "'a::linorder pset \<Rightarrow> 'a \<Rightarrow> bool" where
  "set_contains s x \<longleftrightarrow> map_get s x \<noteq> None"

definition without_value :: "'a::linorder pset \<Rightarrow> 'a \<Rightarrow> 'a pset" where
  "without_value s x = without_key s x"

definition set_values :: "'a pset \<Rightarrow> 'a list" where
  "set_values s = keys_of (entries s)"

text \<open>The iterator that owns its nodes: the next subtree to enter and a stack.\<close>

record 'a owned_values =
  next_tree :: "('a, unit) avl"
  pending :: "('a, unit) avl list"

definition owned_values :: "'a pset \<Rightarrow> 'a owned_values" where
  "owned_values s = \<lparr>next_tree = map_root s, pending = []\<rparr>"

fun descend :: "('a, unit) avl list \<Rightarrow> ('a, unit) avl \<Rightarrow> ('a, unit) avl list" where
  "descend stack Leaf = stack"
| "descend stack (Node k v l r h) = descend (Node k v l r h # stack) l"

definition owned_next :: "'a owned_values \<Rightarrow> 'a option \<times> 'a owned_values" where
  "owned_next o' =
     (case descend (pending o') (next_tree o') of
        Node k v l r h # stack \<Rightarrow> (Some k, \<lparr>next_tree = r, pending = stack\<rparr>)
      | _ \<Rightarrow> (None, \<lparr>next_tree = Leaf, pending = []\<rparr>))"

lemma descend_push_front: "descend ts t = push_front ts t"
  by (induction ts t rule: descend.induct) auto

definition owned_over :: "'a owned_values \<Rightarrow> 'a list \<Rightarrow> bool" where
  "owned_over o' xs \<longleftrightarrow> no_leaf (pending o') \<and>
     keys_of (inorder (next_tree o') @ front_entries (pending o')) = xs"

lemma owned_next_step:
  assumes "owned_over o' xs"
  shows "case xs of [] \<Rightarrow> fst (owned_next o') = None
    | x # ys \<Rightarrow> fst (owned_next o') = Some x \<and> owned_over (snd (owned_next o')) ys"
proof -
  let ?stack = "descend (pending o') (next_tree o')"
  have e: "keys_of (front_entries ?stack) = xs" and nl: "no_leaf ?stack"
    using assms by (simp_all add: owned_over_def descend_push_front front_entries_push no_leaf_push)
  show ?thesis
  proof (cases ?stack rule: front_entries.cases)
    case 1
    with e show ?thesis by (simp add: owned_next_def)
  next
    case (2 ts)
    with nl show ?thesis by (simp add: no_leaf_def)
  next
    case (3 k v l r h ts)
    with e nl show ?thesis by (auto simp: owned_next_def owned_over_def no_leaf_def)
  qed
qed

section \<open>The difference of two maps\<close>

text \<open>
  A walk stack holds subtrees not yet entered and single entries. The source
  compares subtrees and values by address first (\<open>Arc::ptr_eq\<close>); addresses
  are not part of a value here, so the two tests are arguments \<open>same_node\<close>
  and \<open>same_value\<close>, of which only one thing is ever assumed: what has the
  same address is equal.
\<close>

datatype ('k, 'v) diff_item = DiffTree "('k, 'v) avl" | DiffEntry 'k 'v

type_synonym ('k, 'v) diff_stack = "('k, 'v) diff_item list"
type_synonym ('k, 'v) change = "'k \<times> 'v option \<times> 'v option"

definition some_tree :: "('k, 'v) avl \<Rightarrow> ('k, 'v) diff_stack" where
  "some_tree t = (if t = Leaf then [] else [DiffTree t])"

text \<open>Only a subtree expands; the source's other arm is unreachable.\<close>

fun expand :: "('k, 'v) diff_stack \<Rightarrow> ('k, 'v) diff_stack" where
  "expand (DiffTree (Node k v l r h) # st) = some_tree l @ DiffEntry k v # some_tree r @ st"
| "expand (DiffTree Leaf # st) = st"
| "expand st = st"

fun item_weight :: "('k, 'v) diff_item \<Rightarrow> nat" where
  "item_weight (DiffTree t) = 3 * length (inorder t) + 1"
| "item_weight (DiffEntry k v) = 1"

definition stack_weight :: "('k, 'v) diff_stack \<Rightarrow> nat" where
  "stack_weight st = sum_list (map item_weight st)"

lemma stack_weight_simps [simp]:
  "stack_weight [] = 0"
  "stack_weight (x # st) = item_weight x + stack_weight st"
  "stack_weight (st @ st') = stack_weight st + stack_weight st'"
  by (simp_all add: stack_weight_def)

lemma item_weight_pos [simp]: "0 < item_weight x"
  by (cases x) auto

lemma stack_weight_expand: "stack_weight (expand (DiffTree t # st)) < item_weight (DiffTree t) + stack_weight st"
  by (cases t) (simp_all add: some_tree_def)

function diff_next ::
  "(('k::linorder, 'v) avl \<Rightarrow> ('k, 'v) avl \<Rightarrow> bool) \<Rightarrow> ('v \<Rightarrow> 'v \<Rightarrow> bool) \<Rightarrow>
   ('k, 'v) diff_stack \<Rightarrow> ('k, 'v) diff_stack \<Rightarrow>
   ('k, 'v) change option \<times> ('k, 'v) diff_stack \<times> ('k, 'v) diff_stack" where
  "diff_next sn sv [] [] = (None, [], [])"
| "diff_next sn sv (DiffTree a # ls) (DiffTree b # rs) =
     (if sn a b then diff_next sn sv ls rs
      else
        diff_next sn sv
          (if node_height a \<ge> node_height b then expand (DiffTree a # ls) else DiffTree a # ls)
          (if node_height b \<ge> node_height a then expand (DiffTree b # rs) else DiffTree b # rs))"
| "diff_next sn sv (DiffTree a # ls) [] = diff_next sn sv (expand (DiffTree a # ls)) []"
| "diff_next sn sv (DiffTree a # ls) (DiffEntry k v # rs) =
     diff_next sn sv (expand (DiffTree a # ls)) (DiffEntry k v # rs)"
| "diff_next sn sv [] (DiffTree b # rs) = diff_next sn sv [] (expand (DiffTree b # rs))"
| "diff_next sn sv (DiffEntry k v # ls) (DiffTree b # rs) =
     diff_next sn sv (DiffEntry k v # ls) (expand (DiffTree b # rs))"
| "diff_next sn sv (DiffEntry k v # ls) (DiffEntry k' v' # rs) =
     (if k < k' then (Some (k, Some v, None), ls, DiffEntry k' v' # rs)
      else if k' < k then (Some (k', None, Some v'), DiffEntry k v # ls, rs)
      else if \<not> sv v v' \<and> v \<noteq> v' then (Some (k, Some v, Some v'), ls, rs)
      else diff_next sn sv ls rs)"
| "diff_next sn sv (DiffEntry k v # ls) [] = (Some (k, Some v, None), ls, [])"
| "diff_next sn sv [] (DiffEntry k' v' # rs) = (Some (k', None, Some v'), [], rs)"
  by pat_completeness auto
termination
proof (relation "measure (\<lambda>(sn, sv, ls, rs). stack_weight ls + stack_weight rs)", goal_cases)
  case (3 sn sv a ls b rs)
  then show ?case
    using stack_weight_expand [of a ls] stack_weight_expand [of b rs] by auto
qed (use stack_weight_expand in \<open>auto simp del: expand.simps item_weight.simps(1)\<close>)

lemma diff_next_weight:
  "diff_next sn sv ls rs = (Some x, ls', rs') \<Longrightarrow>
   stack_weight ls' + stack_weight rs' < stack_weight ls + stack_weight rs"
proof (induction sn sv ls rs rule: diff_next.induct)
  case (2 sn sv a ls b rs)
  then show ?case
    using stack_weight_expand [of a ls] stack_weight_expand [of b rs]
    by (fastforce simp del: expand.simps item_weight.simps(1) split: if_splits)
next
  case (3 sn sv a ls)
  then show ?case using stack_weight_expand [of a ls] by fastforce
next
  case (4 sn sv a ls k v rs)
  then show ?case using stack_weight_expand [of a ls] by fastforce
next
  case (5 sn sv b rs)
  then show ?case using stack_weight_expand [of b rs] by fastforce
next
  case (6 sn sv k v ls b rs)
  then show ?case using stack_weight_expand [of b rs] by fastforce
qed (auto split: if_splits)

text \<open>What a client that drains the walk collects.\<close>

function diff_collect ::
  "(('k::linorder, 'v) avl \<Rightarrow> ('k, 'v) avl \<Rightarrow> bool) \<Rightarrow> ('v \<Rightarrow> 'v \<Rightarrow> bool) \<Rightarrow>
   ('k, 'v) diff_stack \<Rightarrow> ('k, 'v) diff_stack \<Rightarrow> ('k, 'v) change list" where
  "diff_collect sn sv ls rs =
     (case diff_next sn sv ls rs of
        (None, ls', rs') \<Rightarrow> []
      | (Some x, ls', rs') \<Rightarrow> x # diff_collect sn sv ls' rs')"
  by pat_completeness auto
termination
  by (relation "measure (\<lambda>(sn, sv, ls, rs). stack_weight ls + stack_weight rs)")
     (auto dest: sym diff_next_weight)

declare diff_collect.simps [simp del]

definition map_diff ::
  "(('k::linorder, 'v) avl \<Rightarrow> ('k, 'v) avl \<Rightarrow> bool) \<Rightarrow> ('v \<Rightarrow> 'v \<Rightarrow> bool) \<Rightarrow>
   ('k, 'v) pmap \<Rightarrow> ('k, 'v) pmap \<Rightarrow> ('k, 'v) change list" where
  "map_diff sn sv m n = diff_collect sn sv (some_tree (map_root m)) (some_tree (map_root n))"

definition shares_root_with ::
  "(('k, 'v) avl \<Rightarrow> ('k, 'v) avl \<Rightarrow> bool) \<Rightarrow> ('k, 'v) pmap \<Rightarrow> ('k, 'v) pmap \<Rightarrow> bool" where
  "shares_root_with sn m n =
     (if map_root m = Leaf \<and> map_root n = Leaf then True
      else if map_root m = Leaf \<or> map_root n = Leaf then False
      else sn (map_root m) (map_root n))"

definition map_eq ::
  "(('k::linorder, 'v) avl \<Rightarrow> ('k, 'v) avl \<Rightarrow> bool) \<Rightarrow> ('v \<Rightarrow> 'v \<Rightarrow> bool) \<Rightarrow>
   ('k, 'v) pmap \<Rightarrow> ('k, 'v) pmap \<Rightarrow> bool" where
  "map_eq sn sv m n \<longleftrightarrow>
     map_len m = map_len n \<and>
     (shares_root_with sn m n \<or>
      fst (diff_next sn sv (some_tree (map_root m)) (some_tree (map_root n))) = None)"

text \<open>The specification: a merge of the two entry lists.\<close>

fun list_diff :: "('k::linorder \<times> 'v) list \<Rightarrow> ('k \<times> 'v) list \<Rightarrow> ('k, 'v) change list" where
  "list_diff [] [] = []"
| "list_diff ((k, v) # xs) [] = (k, Some v, None) # list_diff xs []"
| "list_diff [] ((k, v) # ys) = (k, None, Some v) # list_diff [] ys"
| "list_diff ((k, v) # xs) ((k', v') # ys) =
     (if k < k' then (k, Some v, None) # list_diff xs ((k', v') # ys)
      else if k' < k then (k', None, Some v') # list_diff ((k, v) # xs) ys
      else if v \<noteq> v' then (k, Some v, Some v') # list_diff xs ys
      else list_diff xs ys)"

lemma list_diff_common: "list_diff (zs @ xs) (zs @ ys) = list_diff xs ys"
  by (induction zs) auto

fun stack_entries :: "('k, 'v) diff_stack \<Rightarrow> ('k \<times> 'v) list" where
  "stack_entries [] = []"
| "stack_entries (DiffTree t # st) = inorder t @ stack_entries st"
| "stack_entries (DiffEntry k v # st) = (k, v) # stack_entries st"

lemma stack_entries_append [simp]: "stack_entries (st @ st') = stack_entries st @ stack_entries st'"
  by (induction st rule: stack_entries.induct) auto

lemma stack_entries_some_tree [simp]: "stack_entries (some_tree t) = inorder t"
  by (simp add: some_tree_def)

lemma stack_entries_expand [simp]: "stack_entries (expand st) = stack_entries st"
  by (induction st rule: expand.induct) auto

text \<open>One step of the walk yields the first change of the merge, if there is one.\<close>

lemma diff_next_list_diff:
  assumes "\<And>a b. sn a b \<Longrightarrow> a = b" and "\<And>v w. sv v w \<Longrightarrow> v = w"
    and "diff_next sn sv ls rs = (c, ls', rs')"
  shows "list_diff (stack_entries ls) (stack_entries rs) =
    (case c of None \<Rightarrow> []
     | Some x \<Rightarrow> x # list_diff (stack_entries ls') (stack_entries rs'))"
  using assms
proof (induction sn sv ls rs rule: diff_next.induct)
  case (2 sn sv a ls b rs)
  show ?case
  proof (cases "sn a b")
    case True
    with "2.prems" have "a = b" by blast
    with True 2 show ?thesis by (simp add: list_diff_common)
  next
    case False
    with 2 have "list_diff
        (stack_entries (if node_height a \<ge> node_height b then expand (DiffTree a # ls)
                        else DiffTree a # ls))
        (stack_entries (if node_height b \<ge> node_height a then expand (DiffTree b # rs)
                        else DiffTree b # rs)) =
      (case c of None \<Rightarrow> []
       | Some x \<Rightarrow> x # list_diff (stack_entries ls') (stack_entries rs'))"
      by simp
    then show ?thesis by (simp del: expand.simps split: if_splits)
  qed
next
  case (7 sn sv k v ls k' v' rs)
  then show ?case by (auto split: if_splits)
qed (auto simp del: expand.simps)

lemma diff_collect_list_diff:
  assumes "\<And>a b. sn a b \<Longrightarrow> a = b" and "\<And>v w. sv v w \<Longrightarrow> v = w"
  shows "diff_collect sn sv ls rs = list_diff (stack_entries ls) (stack_entries rs)"
  using assms
proof (induction sn sv ls rs rule: diff_collect.induct)
  case (1 sn sv ls rs)
  obtain c ls' rs' where d: "diff_next sn sv ls rs = (c, ls', rs')"
    by (cases "diff_next sn sv ls rs")
  show ?case
    using 1 d diff_next_list_diff [OF "1.prems" d]
    by (cases c) (auto simp: diff_collect.simps [of sn sv ls rs])
qed

text \<open>What the merge of two ascending lists contains.\<close>

lemma list_diff_keys:
  "\<forall>e \<in> set xs. P (fst e) \<Longrightarrow> \<forall>e \<in> set ys. P (fst e) \<Longrightarrow>
   \<forall>x \<in> set (list_diff xs ys). P (fst x)"
  by (induction xs ys rule: list_diff.induct) auto

lemma ascending_list_diff:
  "ascending xs \<Longrightarrow> ascending ys \<Longrightarrow> ascending (list_diff xs ys)"
proof (induction xs ys rule: list_diff.induct)
  case (2 k v xs)
  then show ?case using list_diff_keys [of xs "\<lambda>a. k < a" "[]"] by simp
next
  case (3 k v ys)
  then show ?case using list_diff_keys [of "[]" "\<lambda>a. k < a" ys] by simp
next
  case (4 k v xs k' v' ys)
  consider "k < k'" | "k' < k" | "k = k'" by fastforce
  then show ?case
  proof cases
    case 1
    with "4.prems" have "\<forall>x \<in> set (list_diff xs ((k', v') # ys)). k < fst x"
      by (intro list_diff_keys) auto
    with 1 4 show ?thesis by simp
  next
    case 2
    with "4.prems" have "\<forall>x \<in> set (list_diff ((k, v) # xs) ys). k' < fst x"
      by (intro list_diff_keys) auto
    moreover from 2 have "\<not> k < k'" by simp
    ultimately show ?thesis using 2 4 by simp
  next
    case 3
    with "4.prems" have "\<forall>x \<in> set (list_diff xs ys). k < fst x"
      by (intro list_diff_keys) auto
    with 3 4 show ?thesis by simp
  qed
qed simp

lemma list_diff_mem:
  assumes "ascending xs" and "ascending ys"
  shows "(k, a, b) \<in> set (list_diff xs ys) \<longleftrightarrow>
    a = map_of xs k \<and> b = map_of ys k \<and> a \<noteq> b"
  using assms
proof (induction xs ys arbitrary: a b rule: list_diff.induct)
  case 1
  then show ?case by (cases a; cases b) auto
next
  case (2 k' v xs)
  then show ?case using map_of_less(2) [of xs k'] by (cases a; cases b) (auto split: if_splits)
next
  case (3 k' v ys)
  then show ?case using map_of_less(2) [of ys k'] by (cases a; cases b) (auto split: if_splits)
next
  case (4 k1 v xs k2 w ys)
  have n: "map_of xs k1 = None" "map_of ys k2 = None"
    and n1: "k1 < k2 \<Longrightarrow> map_of ys k1 = None" and n2: "k2 < k1 \<Longrightarrow> map_of xs k2 = None"
    using "4.prems" by (fastforce intro!: map_of_less(2))+
  consider "k1 < k2" | "k2 < k1" | "k1 = k2" by fastforce
  then show ?case
  proof cases
    case 1
    with 4 n n1 show ?thesis by auto
  next
    case 2
    with 4 n n2 show ?thesis by auto
  next
    case 3
    with 4 n show ?thesis by auto
  qed
qed

section \<open>Properties of the walks\<close>

text \<open>C15: the iterator of a well-formed map serves both of its ends from one queue of
  entries: whatever the interleaving of calls to the front and to the back, each call
  returns the first or the last of the entries not yet returned, in key order, and
  nothing once they are used up.\<close>

theorem iterator_is_deque:
  assumes "wf_map m"
  shows "drain cs (map_iter m) = deque cs (entries m) \<and> ascending (entries m)"
proof -
  have "map_len m = length (entries m)" using assms by (simp add: wf_map_def)
  then show ?thesis using drain_deque [OF iter_over_new] pmap.items_ascending [OF assms] by blast
qed

theorem iterator_is_deque_witness:
  "drain [True, False, True, True] (map_iter (map_from_iter [(2::nat, ''b''), (1, ''a''), (3, ''c'')]))
   = [Some (1, ''a''), Some (3, ''c''), Some (2, ''b''), None]"
proof -
  let ?m = "map_from_iter [(2::nat, ''b''), (1, ''a''), (3, ''c'')]"
  have wf: "wf_map ?m" by (simp add: map_from_iter_def wf_with_inserted wf_map_empty)
  have "deque [True, False, True, True] (entries ?m) =
    [Some (1, ''a''), Some (3, ''c''), Some (2, ''b''), None]" by code_simp
  then show ?thesis using iterator_is_deque [OF wf] by simp
qed

text \<open>C16: the difference of two well-formed maps lists, in ascending key order, exactly the
  keys at which their lookups differ, each with what the two maps hold there, provided that
  nodes and values found to have the same address are equal; how many subtrees the walk
  skips by address does not change its result.\<close>

theorem map_diff_correct:
  assumes "wf_map m" and "wf_map n"
    and "\<And>a b. same_node a b \<Longrightarrow> a = b" and "\<And>v w. same_value v w \<Longrightarrow> v = w"
  shows "ascending (map_diff same_node same_value m n) \<and>
    ((k, a, b) \<in> set (map_diff same_node same_value m n) \<longleftrightarrow>
      a = map_get m k \<and> b = map_get n k \<and> a \<noteq> b)"
proof -
  have "map_diff same_node same_value m n = list_diff (entries m) (entries n)"
    using assms(3,4) by (simp add: map_diff_def diff_collect_list_diff)
  then show ?thesis
    using assms(1,2)
    by (simp add: ascending_list_diff list_diff_mem pmap.items_ascending pmap.items_lookup)
qed

theorem map_diff_correct_witness:
  "((5::nat), Some (7::nat), None) \<in> set (map_diff (=) (=) (with_inserted map_empty 5 7) map_empty)"
  using map_diff_correct [OF wf_with_inserted [OF wf_map_empty] wf_map_empty,
      where same_node = "(=)" and same_value = "(=)" and k = "5::nat"
        and a = "Some (7::nat)" and b = None]
    pmap.lookup_insert [OF wf_map_empty, of "5::nat" "7::nat"]
  by (simp add: pmap.lookup_empty)

text \<open>C20: equality of two well-formed maps, which compares lengths, then roots by address,
  then asks the difference walk for a first change, decides whether the two maps have the
  same lookups.\<close>

theorem map_eq_correct:
  assumes "wf_map m" and "wf_map n"
    and "\<And>a b. same_node a b \<Longrightarrow> a = b" and "\<And>v w. same_value v w \<Longrightarrow> v = w"
  shows "map_eq same_node same_value m n \<longleftrightarrow> map_get m = map_get n"
proof -
  let ?d = "list_diff (entries m) (entries n)"
  have first: "fst (diff_next same_node same_value (some_tree (map_root m)) (some_tree (map_root n)))
      = None \<longleftrightarrow> ?d = []"
    using diff_next_list_diff [of same_node same_value "some_tree (map_root m)"
        "some_tree (map_root n)"] assms(3,4)
    by (cases "diff_next same_node same_value (some_tree (map_root m)) (some_tree (map_root n))")
       (fastforce split: option.splits)
  have nil: "?d = [] \<longleftrightarrow> map_get m = map_get n"
  proof
    assume "?d = []"
    then have "(k, map_get m k, map_get n k) \<notin> set ?d" for k by simp
    then show "map_get m = map_get n"
      using assms(1,2) by (auto simp: fun_eq_iff list_diff_mem pmap.items_ascending pmap.items_lookup)
  next
    assume "map_get m = map_get n"
    then have "entries m = entries n" using pmap.items_eq_iff [OF assms(1,2)] by simp
    then show "?d = []" using list_diff_common [of "entries m" "[]" "[]"] by simp
  qed
  have root: "shares_root_with same_node m n \<Longrightarrow> map_get m = map_get n"
    by (auto simp: shares_root_with_def map_get_def fun_eq_iff dest!: assms(3) split: if_splits)
  have "map_get m = map_get n \<Longrightarrow> map_len m = map_len n"
    using pmap.items_eq_iff [OF assms(1,2)] assms(1,2) by (simp add: wf_map_def)
  then show ?thesis using first nil root by (auto simp: map_eq_def)
qed

theorem map_eq_correct_witness:
  "\<not> map_eq (=) (=) (with_inserted map_empty (5::nat) (7::nat)) map_empty"
proof -
  have "map_get (with_inserted map_empty (5::nat) (7::nat)) 5 \<noteq> map_get map_empty 5"
    using pmap.lookup_insert [OF wf_map_empty, of "5::nat" "7::nat"]
    by (simp add: pmap.lookup_empty)
  then show ?thesis
    using map_eq_correct [OF wf_with_inserted [OF wf_map_empty] wf_map_empty,
        of "(=)" "(=)" "5::nat" "7::nat"] by auto
qed

end
