(* ===== verification/MachineInteger.thy ===== *)
theory MachineInteger
  imports Prelude
begin

unbundle bit_operations_syntax

text \<open>
  Fixed-width integer constants: \<^verbatim>\<open>src/src/kernel/primitives/machine_integer.rs\<close>.
  \<open>u128\<close> and \<open>i128\<close> values are 128-bit words, the latter read through
  \<open>sint\<close>; \<open>BigInt\<close> is \<open>int\<close>. Casts between \<open>u128\<close> and
  \<open>i128\<close> keep the word.
\<close>

type_synonym u128 = "128 word"
type_synonym i128 = "128 word"

section \<open>Widths and formats\<close>

datatype machine_integer_width = Bits8 | Bits16 | Bits32 | Bits64 | Bits128

fun width_bits :: "machine_integer_width \<Rightarrow> nat" where
  "width_bits Bits8 = 8"
| "width_bits Bits16 = 16"
| "width_bits Bits32 = 32"
| "width_bits Bits64 = 64"
| "width_bits Bits128 = 128"

record machine_integer_format =
  fmt_width :: machine_integer_width
  fmt_signed :: bool

definition format_new :: "machine_integer_width \<Rightarrow> bool \<Rightarrow> machine_integer_format" where
  "format_new w s = \<lparr>fmt_width = w, fmt_signed = s\<rparr>"

definition format_bits :: "machine_integer_format \<Rightarrow> nat" where
  "format_bits f = width_bits (fmt_width f)"

definition byte_width :: "machine_integer_format \<Rightarrow> nat" where
  "byte_width f = format_bits f div 8"

definition format_contains :: "machine_integer_format \<Rightarrow> machine_integer_format \<Rightarrow> bool" where
  "format_contains self source =
     (if fmt_signed self then
        (if fmt_signed source then format_bits self \<ge> format_bits source
         else format_bits self > format_bits source)
      else \<not> fmt_signed source \<and> format_bits self \<ge> format_bits source)"

definition format_mask :: "machine_integer_format \<Rightarrow> u128" where
  "format_mask f = (if format_bits f = 128 then - 1 else push_bit (format_bits f) 1 - 1)"

definition format_bounds :: "machine_integer_format \<Rightarrow> int \<times> int" where
  "format_bounds f =
     (if fmt_signed f then
        (let upper = drop_bit 1 (format_mask f) in (sint (- upper - 1), sint upper))
      else (0, uint (format_mask f)))"

section \<open>Constants\<close>

record machine_integer_constant =
  const_format :: machine_integer_format
  const_bits :: u128

definition from_bits :: "machine_integer_format \<Rightarrow> u128 \<Rightarrow> machine_integer_constant option" where
  "from_bits f bits =
     (if bits \<le> format_mask f then Some \<lparr>const_format = f, const_bits = bits\<rparr> else None)"

definition from_unsigned ::
  "machine_integer_format \<Rightarrow> u128 \<Rightarrow> machine_integer_constant option" where
  "from_unsigned f value =
     (let upper = (if fmt_signed f then drop_bit 1 (format_mask f) else format_mask f) in
      if value \<le> upper then Some \<lparr>const_format = f, const_bits = value\<rparr> else None)"

text \<open>\<open>u128::try_from\<close> of an \<open>i128\<close> and \<open>i128::try_from\<close> of a \<open>u128\<close>.\<close>

definition u128_try_from :: "i128 \<Rightarrow> u128 option" where
  "u128_try_from value = (if 0 \<le> sint value then Some value else None)"

definition i128_try_from :: "u128 \<Rightarrow> i128 option" where
  "i128_try_from value = (if uint value < 2 ^ 127 then Some value else None)"

definition from_signed ::
  "machine_integer_format \<Rightarrow> i128 \<Rightarrow> machine_integer_constant option" where
  "from_signed f value =
     (if \<not> fmt_signed f then Option.bind (u128_try_from value) (from_unsigned f)
      else
        (let upper = drop_bit 1 (format_mask f) in
         if sint value < sint (- upper - 1) \<or> sint value > sint upper then None
         else Some \<lparr>const_format = f, const_bits = value AND format_mask f\<rparr>))"

text \<open>
  \<open>BigInt\<close>: the bit length of the magnitude, and the checked conversions to the
  two 128-bit host types.
\<close>

fun nat_bits :: "nat \<Rightarrow> nat" where
  "nat_bits n = (if n = 0 then 0 else Suc (nat_bits (n div 2)))"

declare nat_bits.simps [simp del]

definition bigint_bits :: "int \<Rightarrow> nat" where
  "bigint_bits v = nat_bits (nat \<bar>v\<bar>)"

definition bigint_to_i128 :: "int \<Rightarrow> i128 option" where
  "bigint_to_i128 v = (if - (2 ^ 127) \<le> v \<and> v < 2 ^ 127 then Some (word_of_int v) else None)"

definition bigint_to_u128 :: "int \<Rightarrow> u128 option" where
  "bigint_to_u128 v = (if 0 \<le> v \<and> v < 2 ^ 128 then Some (word_of_int v) else None)"

definition from_integer :: "machine_integer_format \<Rightarrow> int \<Rightarrow> machine_integer_constant option" where
  "from_integer f v =
     (if bigint_bits v > format_bits f then None
      else if fmt_signed f then Option.bind (bigint_to_i128 v) (from_signed f)
      else Option.bind (bigint_to_u128 v) (from_unsigned f))"

definition signed_value :: "machine_integer_constant \<Rightarrow> i128" where
  "signed_value c =
     (if format_bits (const_format c) = 128 then const_bits c
      else
        (let shift = 128 - format_bits (const_format c)
         in signed_drop_bit shift (push_bit shift (const_bits c))))"

definition to_i128 :: "machine_integer_constant \<Rightarrow> i128 option" where
  "to_i128 c =
     (if fmt_signed (const_format c) then Some (signed_value c)
      else i128_try_from (const_bits c))"

definition to_u128 :: "machine_integer_constant \<Rightarrow> u128 option" where
  "to_u128 c =
     (if fmt_signed (const_format c) then u128_try_from (signed_value c)
      else Some (const_bits c))"

definition to_integer :: "machine_integer_constant \<Rightarrow> int" where
  "to_integer c =
     (if fmt_signed (const_format c) then sint (signed_value c) else uint (const_bits c))"

definition checked_convert ::
  "machine_integer_constant \<Rightarrow> machine_integer_format \<Rightarrow> machine_integer_constant option" where
  "checked_convert c destination =
     (if fmt_signed (const_format c) then from_signed destination (signed_value c)
      else from_unsigned destination (const_bits c))"

definition convert_modulo ::
  "machine_integer_constant \<Rightarrow> machine_integer_format \<Rightarrow> machine_integer_constant" where
  "convert_modulo c destination =
     (let extended =
        (if fmt_signed (const_format c) then signed_value c else const_bits c)
      in \<lparr>const_format = destination, const_bits = extended AND format_mask destination\<rparr>)"

section \<open>Truncating division\<close>

datatype machine_integer_division_error = FormatMismatch | DivisionByZero | SignedOverflow

text \<open>\<open>i128::checked_div\<close> and \<open>i128::checked_rem\<close>.\<close>

definition i128_div_fails :: "i128 \<Rightarrow> i128 \<Rightarrow> bool" where
  "i128_div_fails l r \<longleftrightarrow> sint r = 0 \<or> sint l = - (2 ^ 127) \<and> sint r = - 1"

definition i128_checked_div :: "i128 \<Rightarrow> i128 \<Rightarrow> i128 option" where
  "i128_checked_div l r =
     (if i128_div_fails l r then None else Some (word_of_int (sint l sdiv sint r)))"

definition i128_checked_rem :: "i128 \<Rightarrow> i128 \<Rightarrow> i128 option" where
  "i128_checked_rem l r =
     (if i128_div_fails l r then None else Some (word_of_int (sint l smod sint r)))"

text \<open>
  \<open>truncating_div_rem\<close>. The outer option is the \<open>expect\<close> on the
  remainder: \<open>None\<close> would be the panic.
\<close>

definition truncating_div_rem ::
  "machine_integer_constant \<Rightarrow> machine_integer_constant \<Rightarrow>
   (machine_integer_division_error + machine_integer_constant \<times> machine_integer_constant) option"
where
  "truncating_div_rem self divisor =
     (if const_format self \<noteq> const_format divisor then Some (Inl FormatMismatch)
      else if const_bits divisor = 0 then Some (Inl DivisionByZero)
      else if fmt_signed (const_format self) then
        (let left = signed_value self; right = signed_value divisor in
         case i128_checked_div left right of
           None \<Rightarrow> Some (Inl SignedOverflow)
         | Some q \<Rightarrow>
             (case from_signed (const_format self) q of
                None \<Rightarrow> Some (Inl SignedOverflow)
              | Some qc \<Rightarrow>
                  (case i128_checked_rem left right of
                     None \<Rightarrow> Some (Inl SignedOverflow)
                   | Some r \<Rightarrow>
                       (case from_signed (const_format self) r of
                          None \<Rightarrow> None
                        | Some rc \<Rightarrow> Some (Inr (qc, rc))))))
      else
        Some (Inr
          (\<lparr>const_format = const_format self, const_bits = const_bits self div const_bits divisor\<rparr>,
           \<lparr>const_format = const_format self, const_bits = const_bits self mod const_bits divisor\<rparr>)))"

section \<open>Decimal spellings\<close>

text \<open>
  Rust's \<open>str::parse\<close> for the two host types: an optional \<open>+\<close> (for
  \<open>i128\<close> also \<open>-\<close>), at least one digit, and a value in the range of the type.
\<close>

definition digit_of :: "char \<Rightarrow> nat option" where
  "digit_of c =
     (if 48 \<le> (of_char c :: nat) \<and> (of_char c :: nat) \<le> 57 then Some (of_char c - 48) else None)"

fun parse_digits :: "string \<Rightarrow> nat \<Rightarrow> nat option" where
  "parse_digits [] acc = Some acc"
| "parse_digits (c # cs) acc =
     (case digit_of c of None \<Rightarrow> None | Some d \<Rightarrow> parse_digits cs (acc * 10 + d))"

definition parse_magnitude :: "string \<Rightarrow> int option" where
  "parse_magnitude s = (if s = [] then None else map_option int (parse_digits s 0))"

definition parse_u128 :: "string \<Rightarrow> u128 option" where
  "parse_u128 s =
     Option.bind (parse_magnitude (if s \<noteq> [] \<and> hd s = CHR ''+'' then tl s else s))
       bigint_to_u128"

definition parse_i128 :: "string \<Rightarrow> i128 option" where
  "parse_i128 s =
     (if s \<noteq> [] \<and> hd s = CHR ''-'' then
        Option.bind (map_option uminus (parse_magnitude (tl s))) bigint_to_i128
      else
        Option.bind (parse_magnitude (if s \<noteq> [] \<and> hd s = CHR ''+'' then tl s else s))
          bigint_to_i128)"

definition parse_decimal ::
  "machine_integer_format \<Rightarrow> string \<Rightarrow> machine_integer_constant option" where
  "parse_decimal f value =
     (if fmt_signed f then Option.bind (parse_i128 value) (from_signed f)
      else Option.bind (parse_u128 value) (from_unsigned f))"

section \<open>Readings as integers\<close>

text \<open>
  The invariant the private fields protect: a constant has no bits beyond its format.
\<close>

definition wf_const :: "machine_integer_constant \<Rightarrow> bool" where
  "wf_const c \<longleftrightarrow> const_bits c \<le> format_mask (const_format c)"

definition format_low :: "machine_integer_format \<Rightarrow> int" where
  "format_low f = (if fmt_signed f then - (2 ^ (format_bits f - 1)) else 0)"

definition format_high :: "machine_integer_format \<Rightarrow> int" where
  "format_high f = (if fmt_signed f then 2 ^ (format_bits f - 1) - 1 else 2 ^ format_bits f - 1)"

definition representable :: "machine_integer_format \<Rightarrow> int \<Rightarrow> bool" where
  "representable f v \<longleftrightarrow> format_low f \<le> v \<and> v \<le> format_high f"

lemma format_bits_cases:
  obtains "format_bits f = 8" | "format_bits f = 16" | "format_bits f = 32"
    | "format_bits f = 64" | "format_bits f = 128"
  by (cases "fmt_width f") (auto simp: format_bits_def)

lemma format_bits_bounds: "0 < format_bits f" "format_bits f \<le> 128"
  by (cases rule: format_bits_cases [of f]; simp)+

lemma format_mask_eq: "format_mask f = mask (format_bits f)"
proof (cases "format_bits f = 128")
  case True
  have "mask 128 = (- 1 :: u128)"
    by (rule bit_word_eqI) (simp add: bit_simps)
  with True show ?thesis by (simp add: format_mask_def)
next
  case False
  then show ?thesis by (simp add: format_mask_def mask_eq_exp_minus_1 push_bit_eq_mult)
qed

lemma uint_mask128:
  assumes "n \<le> 128"
  shows "uint (mask n :: u128) = 2 ^ n - 1"
proof -
  have "uint (mask n :: u128) = mask n"
    using assms by (intro bit_eqI) (auto simp: bit_simps)
  then show ?thesis by (simp add: mask_eq_exp_minus_1)
qed

lemma uint_format_mask: "uint (format_mask f) = 2 ^ format_bits f - 1"
  using format_bits_bounds [of f] by (simp add: format_mask_eq uint_mask128)

lemma le_format_mask_iff: "w \<le> format_mask f \<longleftrightarrow> uint w < 2 ^ format_bits f"
  by (simp add: word_le_def uint_format_mask)

lemma uint_format_half: "uint (drop_bit 1 (format_mask f)) = 2 ^ (format_bits f - 1) - 1"
proof -
  have "drop_bit 1 (format_mask f) = mask (format_bits f - 1)"
    using format_bits_bounds [of f]
    by (auto simp: format_mask_eq intro!: bit_word_eqI simp: bit_simps)
  then show ?thesis using format_bits_bounds [of f] by (simp add: uint_mask128)
qed

lemma sint_of_uint: "uint (w::u128) < 2 ^ 127 \<Longrightarrow> sint w = uint w"
proof -
  assume "uint w < 2 ^ 127"
  moreover have "0 \<le> uint w" by simp
  ultimately have "signed_take_bit 127 (uint w) = uint w"
    by (intro signed_take_bit_int_eq_self) linarith+
  then show ?thesis by (simp add: sint_uint)
qed

lemma sint_format_half:
  "sint (drop_bit 1 (format_mask f)) = 2 ^ (format_bits f - 1) - 1"
  "sint (- drop_bit 1 (format_mask f) - 1) = - (2 ^ (format_bits f - 1))"
proof -
  let ?h = "drop_bit 1 (format_mask f)"
  have p: "(2::int) ^ (format_bits f - 1) \<le> 2 ^ 127"
    using format_bits_bounds [of f] by (intro power_increasing) auto
  then show s: "sint ?h = 2 ^ (format_bits f - 1) - 1"
    using sint_of_uint [of ?h] uint_format_half [of f] by linarith
  have "sint (- ?h - 1) = sint (NOT ?h)" by (simp add: not_eq_complement)
  also have "\<dots> = signed_take_bit 128 (- (2 ^ (format_bits f - 1)))"
    by (simp only: signed_not_eq s not_int_def) simp
  also have "\<dots> = - (2 ^ (format_bits f - 1))"
  proof (rule signed_take_bit_int_eq_self)
    show "- (2 ^ 128) \<le> - ((2::int) ^ (format_bits f - 1))" using p by simp
    have "- ((2::int) ^ (format_bits f - 1)) \<le> 0" by simp
    then show "- ((2::int) ^ (format_bits f - 1)) < 2 ^ 128" by (rule order.strict_trans1) simp
  qed
  finally show "sint (- ?h - 1) = - (2 ^ (format_bits f - 1))" .
qed

lemma drop_bit_signed_take_bit_push_bit:
  "s \<le> m \<Longrightarrow> drop_bit s (signed_take_bit m (push_bit s k)) = signed_take_bit (m - s) (k::int)"
proof (rule bit_eqI)
  fix n
  assume "s \<le> m"
  then have "min m (s + n) - s = min (m - s) n" by simp
  then show "bit (drop_bit s (signed_take_bit m (push_bit s k))) n \<longleftrightarrow>
      bit (signed_take_bit (m - s) k) n"
    using \<open>s \<le> m\<close> by (auto simp: bit_simps)
qed

lemma sint_signed_value:
  "sint (signed_value c) = signed_take_bit (format_bits (const_format c) - 1) (uint (const_bits c))"
proof (cases "format_bits (const_format c) = 128")
  case True
  then show ?thesis by (simp add: signed_value_def sint_uint)
next
  case False
  let ?s = "128 - format_bits (const_format c)" and ?b = "uint (const_bits c)"
  have "sint (push_bit ?s (const_bits c)) = signed_take_bit 127 (push_bit ?s ?b)"
    by (simp add: sint_uint unsigned_push_bit_eq signed_take_bit_take_bit)
  then have "sint (signed_value c) = drop_bit ?s (signed_take_bit 127 (push_bit ?s ?b))"
    using False by (simp add: signed_value_def sint_signed_drop_bit_eq Let_def)
  also have "\<dots> = signed_take_bit (127 - ?s) ?b"
    using format_bits_bounds [of "const_format c"] by (intro drop_bit_signed_take_bit_push_bit) simp
  finally show ?thesis using format_bits_bounds [of "const_format c"] by simp
qed

text \<open>
  The abstract value of the operations: the constant of a format that is congruent
  to an integer modulo the width of the format.
\<close>

definition constant_of :: "machine_integer_format \<Rightarrow> int \<Rightarrow> machine_integer_constant" where
  "constant_of f v =
     \<lparr>const_format = f, const_bits = word_of_int (take_bit (format_bits f) v)\<rparr>"

lemma const_format_constant_of [simp]: "const_format (constant_of f v) = f"
  by (simp add: constant_of_def)

lemma uint_constant_of: "uint (const_bits (constant_of f v)) = take_bit (format_bits f) v"
  using format_bits_bounds [of f] by (simp add: constant_of_def unsigned_of_int min_def)

lemma wf_constant_of: "wf_const (constant_of f v)"
  by (simp add: wf_const_def le_format_mask_iff uint_constant_of)

lemma to_integer_signed:
  "fmt_signed (const_format c) \<Longrightarrow>
   to_integer c = signed_take_bit (format_bits (const_format c) - 1) (uint (const_bits c))"
  by (simp add: to_integer_def sint_signed_value)

lemma to_integer_constant_of:
  "to_integer (constant_of f v) =
    (if fmt_signed f then signed_take_bit (format_bits f - 1) v else take_bit (format_bits f) v)"
proof (cases "fmt_signed f")
  case True
  have "signed_take_bit (format_bits f - 1) (take_bit (Suc (format_bits f - 1)) v)
      = signed_take_bit (format_bits f - 1) v"
    by (simp add: signed_take_bit_take_bit)
  with True show ?thesis
    using format_bits_bounds [of f] by (simp add: to_integer_signed uint_constant_of)
qed (simp add: to_integer_def uint_constant_of)

lemma to_integer_representable: "wf_const c \<Longrightarrow> representable (const_format c) (to_integer c)"
  by (auto simp: representable_def format_low_def format_high_def to_integer_signed
      wf_const_def le_format_mask_iff to_integer_def sint_signed_value)

lemma to_integer_constant_of_representable:
  assumes "representable f v"
  shows "to_integer (constant_of f v) = v"
proof (cases "fmt_signed f")
  case True
  with assms have "signed_take_bit (format_bits f - 1) v = v"
    by (intro signed_take_bit_int_eq_self)
       (auto simp: representable_def format_low_def format_high_def)
  with True show ?thesis by (simp add: to_integer_constant_of)
next
  case False
  with assms have "take_bit (format_bits f) v = v"
    by (intro take_bit_int_eq_self) (auto simp: representable_def format_low_def format_high_def)
  with False show ?thesis by (simp add: to_integer_constant_of)
qed

lemma constant_of_to_integer:
  assumes "wf_const c"
  shows "constant_of (const_format c) (to_integer c) = c"
proof -
  let ?n = "format_bits (const_format c)"
  have "uint (const_bits c) < 2 ^ ?n" using assms by (simp add: wf_const_def le_format_mask_iff)
  then have "take_bit ?n (uint (const_bits c)) = uint (const_bits c)"
    by (intro take_bit_int_eq_self) auto
  moreover have "take_bit ?n (to_integer c) = take_bit ?n (uint (const_bits c))"
    using format_bits_bounds [of "const_format c"]
    by (simp add: to_integer_def sint_signed_value take_bit_signed_take_bit)
  ultimately show ?thesis by (simp add: constant_of_def)
qed

lemma and_format_mask: "w AND format_mask f = word_of_int (take_bit (format_bits f) (uint w))"
proof -
  have "w AND format_mask f = take_bit (format_bits f) w"
    by (simp add: format_mask_eq take_bit_eq_mask)
  moreover have "min 128 (format_bits f) = format_bits f" using format_bits_bounds [of f] by simp
  ultimately show ?thesis by (simp add: word_uint_eq_iff unsigned_take_bit_eq unsigned_of_int)
qed

lemma take_bit_sint: "n \<le> 128 \<Longrightarrow> take_bit n (sint (w::u128)) = take_bit n (uint w)"
  by (simp add: sint_uint take_bit_signed_take_bit)

lemma sint_eq_uint: "0 \<le> sint (w::u128) \<Longrightarrow> sint w = uint w"
proof -
  assume "0 \<le> sint w"
  then have "take_bit 128 (sint w) = sint w"
    using sint_lt [of w] by (intro take_bit_int_eq_self) auto
  moreover have "take_bit 128 (uint w) = uint w"
    by (simp flip: unsigned_take_bit_eq add: take_bit_word_eq_self)
  moreover have "take_bit 128 (sint w) = take_bit 128 (uint w)" by (rule take_bit_sint) simp
  ultimately show ?thesis by (metis (no_types))
qed

lemma from_unsigned_spec:
  "from_unsigned f v =
    (if representable f (uint v) then Some (constant_of f (uint v)) else None)"
proof -
  have "representable f (uint v) \<longleftrightarrow>
      v \<le> (if fmt_signed f then drop_bit 1 (format_mask f) else format_mask f)"
  proof -
    have "- (2 ^ (format_bits f - 1)) \<le> (0::int)" by simp
    then have "- (2 ^ (format_bits f - 1)) \<le> uint v" by (rule order_trans) simp
    then show ?thesis
      using uint_format_half [of f] uint_format_mask [of f]
      by (auto simp: representable_def format_low_def format_high_def word_le_def
          simp del: One_nat_def)
  qed
  moreover have "representable f (uint v) \<Longrightarrow> word_of_int (take_bit (format_bits f) (uint v)) = v"
  proof -
    assume r: "representable f (uint v)"
    have "(2::int) ^ (format_bits f - 1) \<le> 2 ^ format_bits f" by (rule power_increasing) auto
    with r have "uint v < 2 ^ format_bits f"
      unfolding representable_def format_low_def format_high_def
      by (cases "fmt_signed f") (simp_all only: if_True if_False, linarith+)
    then show ?thesis by (simp add: take_bit_int_eq_self)
  qed
  ultimately show ?thesis by (auto simp: from_unsigned_def constant_of_def Let_def)
qed

lemma from_signed_spec:
  "from_signed f v =
    (if representable f (sint v) then Some (constant_of f (sint v)) else None)"
proof (cases "fmt_signed f")
  case True
  then show ?thesis
    using format_bits_bounds [of f] sint_format_half [of f]
    by (auto simp: from_signed_def representable_def format_low_def format_high_def Let_def
        and_format_mask constant_of_def take_bit_sint)
next
  case False
  then show ?thesis
    using sint_eq_uint [of v]
    by (auto simp: from_signed_def u128_try_from_def from_unsigned_spec representable_def
        format_low_def)
qed

lemma nat_bits_le_iff: "nat_bits n \<le> k \<longleftrightarrow> n < 2 ^ k"
proof (induction n arbitrary: k rule: nat_bits.induct)
  case (1 n)
  show ?case
  proof (cases "n = 0 \<or> k = 0")
    case True
    then show ?thesis by (auto simp: nat_bits.simps [of n])
  next
    case False
    then obtain j where j: "k = Suc j" by (cases k) auto
    have "nat_bits n \<le> k \<longleftrightarrow> nat_bits (n div 2) \<le> j"
      using False j by (simp add: nat_bits.simps [of n])
    also have "\<dots> \<longleftrightarrow> n div 2 < 2 ^ j" using False by (intro "1.IH") simp
    also have "\<dots> \<longleftrightarrow> n < 2 ^ k" using j by (simp add: div_less_iff_less_mult mult.commute)
    finally show ?thesis .
  qed
qed

lemma representable_width: "representable f v \<Longrightarrow> bigint_bits v \<le> format_bits f"
proof -
  assume r: "representable f v"
  have "(2::int) ^ (format_bits f - 1) < 2 ^ format_bits f"
    using format_bits_bounds [of f] by (intro power_strict_increasing) auto
  with r have "\<bar>v\<bar> < 2 ^ format_bits f"
    unfolding representable_def format_low_def format_high_def
    by (cases "fmt_signed f") (simp_all only: if_True if_False, linarith+)
  then show ?thesis by (simp add: bigint_bits_def nat_bits_le_iff nat_less_iff)
qed

lemma sint_of_u128: "- (2 ^ 127) \<le> v \<Longrightarrow> v < 2 ^ 127 \<Longrightarrow> sint (word_of_int v :: u128) = v"
  by (simp add: signed_of_int signed_take_bit_int_eq_self)

lemma uint_of_u128: "0 \<le> v \<Longrightarrow> v < 2 ^ 128 \<Longrightarrow> uint (word_of_int v :: u128) = v"
  by (simp add: unsigned_of_int take_bit_int_eq_self)

lemma representable_i128:
  "fmt_signed f \<Longrightarrow> representable f v \<Longrightarrow> - (2 ^ 127) \<le> v \<and> v < 2 ^ 127"
  by (cases rule: format_bits_cases [of f])
     (auto simp: representable_def format_low_def format_high_def)

lemma representable_u128:
  "\<not> fmt_signed f \<Longrightarrow> representable f v \<Longrightarrow> 0 \<le> v \<and> v < 2 ^ 128"
  by (cases rule: format_bits_cases [of f])
     (auto simp: representable_def format_low_def format_high_def)

lemma from_integer_spec:
  "from_integer f v = (if representable f v then Some (constant_of f v) else None)"
proof (cases "bigint_bits v > format_bits f")
  case True
  then show ?thesis using representable_width [of f v] by (auto simp: from_integer_def)
next
  case False
  show ?thesis
  proof (cases "fmt_signed f")
    case True
    with False show ?thesis
      using representable_i128 [of f v] sint_of_u128 [of v]
      by (auto simp: from_integer_def bigint_to_i128_def from_signed_spec)
  next
    case uns: False
    with False show ?thesis
      using representable_u128 [of f v] uint_of_u128 [of v]
      by (auto simp: from_integer_def bigint_to_u128_def from_unsigned_spec)
  qed
qed

lemma checked_convert_spec:
  "checked_convert c d =
     (if representable d (to_integer c) then Some (constant_of d (to_integer c)) else None)"
  by (simp add: checked_convert_def from_signed_spec from_unsigned_spec to_integer_def)

lemma convert_modulo_spec: "convert_modulo c d = constant_of d (to_integer c)"
  using format_bits_bounds [of d]
  by (simp add: convert_modulo_def constant_of_def and_format_mask to_integer_def take_bit_sint)

lemma format_bounds_spec: "format_bounds f = (format_low f, format_high f)"
  by (simp add: format_bounds_def format_low_def format_high_def Let_def sint_format_half
      uint_format_mask del: One_nat_def)

lemma representable_between:
  "representable f a \<Longrightarrow> representable f b \<Longrightarrow> a \<le> v \<Longrightarrow> v \<le> b \<Longrightarrow> representable f v"
  by (simp add: representable_def)

lemma format_contains_bounds:
  "format_contains d s \<longleftrightarrow> format_low d \<le> format_low s \<and> format_high s \<le> format_high d"
  by (cases rule: format_bits_cases [of d]; cases rule: format_bits_cases [of s];
      simp add: format_contains_def format_low_def format_high_def)

lemma representable_bounds: "representable f (format_low f)" "representable f (format_high f)"
  by (cases rule: format_bits_cases [of f];
      simp add: representable_def format_low_def format_high_def)+

lemma representable_zero: "representable f 0"
  by (cases rule: format_bits_cases [of f];
      simp add: representable_def format_low_def format_high_def)

lemma format_contains_iff:
  "format_contains d s \<longleftrightarrow> (\<forall>v. representable s v \<longrightarrow> representable d v)"
proof
  assume "format_contains d s"
  then show "\<forall>v. representable s v \<longrightarrow> representable d v"
    by (auto simp: format_contains_bounds representable_def)
next
  assume "\<forall>v. representable s v \<longrightarrow> representable d v"
  with representable_bounds [of s] have "representable d (format_low s)" "representable d (format_high s)"
    by auto
  then show "format_contains d s" by (simp add: format_contains_bounds representable_def)
qed

section \<open>Printing and parsing\<close>

text \<open>The decimal spelling of an integer.\<close>

fun decimal_nat :: "nat \<Rightarrow> string" where
  "decimal_nat n = (if n < 10 then [char_of (48 + n)]
     else decimal_nat (n div 10) @ [char_of (48 + n mod 10)])"

declare decimal_nat.simps [simp del]

definition decimal :: "int \<Rightarrow> string" where
  "decimal v = (if v < 0 then CHR ''-'' # decimal_nat (nat (- v)) else decimal_nat (nat v))"

lemma digit_of_char: "d < 10 \<Longrightarrow> digit_of (char_of (48 + d)) = Some d"
  by (simp add: digit_of_def)

lemma parse_digits_append:
  "parse_digits (s @ t) acc = Option.bind (parse_digits s acc) (parse_digits t)"
  by (induction s arbitrary: acc) (auto split: option.splits)

lemma parse_digits_decimal: "parse_digits (decimal_nat n) 0 = Some n"
proof (induction n rule: decimal_nat.induct)
  case (1 n)
  then show ?case
    by (cases "n < 10")
       (simp_all add: decimal_nat.simps [of n] parse_digits_append digit_of_char)
qed

lemma decimal_nat_hd:
  "decimal_nat n \<noteq> [] \<and> hd (decimal_nat n) \<noteq> CHR ''-'' \<and> hd (decimal_nat n) \<noteq> CHR ''+''"
proof (induction n rule: decimal_nat.induct)
  case (1 n)
  have d: "d < 10 \<Longrightarrow> char_of (48 + d) \<noteq> CHR ''-'' \<and> char_of (48 + d) \<noteq> CHR ''+''"
    for d :: nat
  proof -
    have "digit_of (CHR ''-'') = None" "digit_of (CHR ''+'') = None"
      by (simp_all add: digit_of_def)
    moreover assume "d < 10"
    ultimately show ?thesis using digit_of_char [of d] by force
  qed
  show ?case
    using 1 d [of n] by (cases "n < 10") (auto simp: decimal_nat.simps [of n])
qed

lemma parse_magnitude_decimal: "parse_magnitude (decimal_nat n) = Some (int n)"
  using decimal_nat_hd [of n] by (simp add: parse_magnitude_def parse_digits_decimal)

lemma parse_i128_decimal: "parse_i128 (decimal v) = bigint_to_i128 v"
  using decimal_nat_hd [of "nat v"]
  by (simp add: parse_i128_def decimal_def parse_magnitude_decimal)

lemma parse_u128_decimal: "0 \<le> v \<Longrightarrow> parse_u128 (decimal v) = bigint_to_u128 v"
  using decimal_nat_hd [of "nat v"]
  by (simp add: parse_u128_def decimal_def parse_magnitude_decimal)

lemma parse_u128_negative: "v < 0 \<Longrightarrow> parse_u128 (decimal v) = None"
  by (simp add: parse_u128_def decimal_def parse_magnitude_def digit_of_def)

text \<open>C21: A constant is parsed from an integer exactly when the format represents it,
  the result reads back as that integer, and it is the only well-formed constant that
  does; parsing the decimal spelling of any integer agrees, so a literal out of range is
  refused and never wraps.\<close>

theorem integer_round_trip:
  "(from_integer f v = Some c \<longleftrightarrow> wf_const c \<and> const_format c = f \<and> to_integer c = v)
   \<and> parse_decimal f (decimal v) = from_integer f v"
proof
  show "from_integer f v = Some c \<longleftrightarrow> wf_const c \<and> const_format c = f \<and> to_integer c = v"
    using constant_of_to_integer [of c] to_integer_representable [of c]
    by (auto simp: from_integer_spec wf_constant_of to_integer_constant_of_representable)
  show "parse_decimal f (decimal v) = from_integer f v"
  proof (cases "fmt_signed f")
    case True
    then show ?thesis
      using representable_i128 [of f v] sint_of_u128 [of v]
      by (auto simp: parse_decimal_def parse_i128_decimal from_integer_spec bigint_to_i128_def
          from_signed_spec)
  next
    case False
    then show ?thesis
      using representable_u128 [of f v] uint_of_u128 [of v]
      by (cases "0 \<le> v")
         (auto simp: parse_decimal_def parse_u128_decimal parse_u128_negative from_integer_spec
           bigint_to_u128_def from_unsigned_spec)
  qed
qed

lemma constant_of_eq_iff:
  "constant_of d v = e \<longleftrightarrow>
     wf_const e \<and> const_format e = d \<and> to_integer e mod 2 ^ format_bits d = v mod 2 ^ format_bits d"
proof -
  have mod: "to_integer (constant_of d w) mod 2 ^ format_bits d = w mod 2 ^ format_bits d" for w
    using format_bits_bounds [of d]
    by (simp add: to_integer_constant_of take_bit_signed_take_bit flip: take_bit_eq_mod)
  show ?thesis
  proof
    assume "constant_of d v = e"
    then show "wf_const e \<and> const_format e = d
        \<and> to_integer e mod 2 ^ format_bits d = v mod 2 ^ format_bits d"
      using mod [of v] wf_constant_of [of d v] by auto
  next
    assume e: "wf_const e \<and> const_format e = d
        \<and> to_integer e mod 2 ^ format_bits d = v mod 2 ^ format_bits d"
    then have "constant_of d v = constant_of d (to_integer e)"
      by (simp add: constant_of_def take_bit_eq_mod)
    also have "\<dots> = e" using e constant_of_to_integer [of e] by simp
    finally show "constant_of d v = e" .
  qed
qed

lemma checked_convert_eq_Some:
  "checked_convert c d = Some e \<longleftrightarrow>
     wf_const e \<and> const_format e = d \<and> to_integer e = to_integer c"
  using constant_of_to_integer [of e] to_integer_representable [of e]
  by (auto simp: checked_convert_spec wf_constant_of to_integer_constant_of_representable)

text \<open>C22: A checked conversion succeeds exactly when the destination represents the value
  and then preserves it; a destination format contains another exactly when no well-formed
  constant of that other format is refused; and a modulo conversion is the unique well-formed
  constant of the destination congruent to the value.\<close>

theorem conversions_exact:
  "(checked_convert c d = Some e \<longleftrightarrow>
      wf_const e \<and> const_format e = d \<and> to_integer e = to_integer c)
   \<and> (format_contains d s \<longleftrightarrow>
        (\<nexists>x. wf_const x \<and> const_format x = s \<and> checked_convert x d = None))
   \<and> (convert_modulo c d = e \<longleftrightarrow>
        wf_const e \<and> const_format e = d
        \<and> to_integer e mod 2 ^ format_bits d = to_integer c mod 2 ^ format_bits d)"
proof -
  have "format_contains d s \<longleftrightarrow>
      (\<nexists>x. wf_const x \<and> const_format x = s \<and> checked_convert x d = None)"
  proof
    assume "format_contains d s"
    then show "\<nexists>x. wf_const x \<and> const_format x = s \<and> checked_convert x d = None"
      using to_integer_representable by (auto simp: format_contains_iff checked_convert_spec)
  next
    assume no: "\<nexists>x. wf_const x \<and> const_format x = s \<and> checked_convert x d = None"
    have "representable d v" if "representable s v" for v
      using no wf_constant_of [of s v] to_integer_constant_of_representable [OF that]
      by (metis checked_convert_spec const_format_constant_of)
    then show "format_contains d s" by (simp add: format_contains_iff)
  qed
  then show ?thesis
    by (simp add: checked_convert_eq_Some convert_modulo_spec constant_of_eq_iff)
qed

section \<open>Division\<close>

lemma wf_zero_iff:
  assumes "wf_const c"
  shows "const_bits c = 0 \<longleftrightarrow> to_integer c = 0"
proof
  assume "const_bits c = 0"
  then show "to_integer c = 0" by (simp add: to_integer_def sint_signed_value)
next
  assume "to_integer c = 0"
  with constant_of_to_integer [OF assms] have "c = constant_of (const_format c) 0" by simp
  then show "const_bits c = 0" by (metis constant_of_def machine_integer_constant.select_convs(2)
      take_bit_of_0 of_int_0)
qed

lemma smod_between:
  "0 \<le> a \<Longrightarrow> 0 \<le> a smod b \<and> a smod b \<le> a"
  "a < 0 \<Longrightarrow> a \<le> a smod b \<and> a smod b \<le> 0" for a b :: int
proof -
  have "0 \<le> \<bar>a\<bar> mod \<bar>b\<bar>" "\<bar>a\<bar> mod \<bar>b\<bar> \<le> \<bar>a\<bar>"
    by (cases "b = 0") (auto simp: zmod_le_nonneg_dividend)
  then show "0 \<le> a \<Longrightarrow> 0 \<le> a smod b \<and> a smod b \<le> a"
    and "a < 0 \<Longrightarrow> a \<le> a smod b \<and> a smod b \<le> 0"
    by (auto simp: signed_modulo_int_def sgn_if)
qed

lemma smod_representable:
  assumes "representable f a"
  shows "representable f (a smod b)"
proof (cases "0 \<le> a")
  case True
  then show ?thesis
    using representable_between [OF representable_zero assms] smod_between(1) [of a b] by blast
next
  case False
  then show ?thesis
    using representable_between [OF assms representable_zero] smod_between(2) [of a b] by auto
qed

lemma sdiv_magnitude: "\<bar>a sdiv b\<bar> \<le> \<bar>a\<bar>" for a b :: int
  using sdiv_int_range [of a b] by auto

lemma sdiv_i128_overflow:
  fixes a b :: int
  assumes "b \<noteq> 0" "- (2 ^ 127) \<le> a" "a < 2 ^ 127"
  shows "a sdiv b = 2 ^ 127 \<longleftrightarrow> a = - (2 ^ 127) \<and> b = - 1"
proof
  assume q: "a sdiv b = 2 ^ 127"
  with sdiv_magnitude [of a b] assms have a: "a = - (2 ^ 127)" by linarith
  have "b < 0"
  proof (rule ccontr)
    assume "\<not> b < 0"
    with assms(1) have "0 \<le> \<bar>a\<bar> div \<bar>b\<bar>" by (simp add: pos_imp_zdiv_nonneg_iff)
    with \<open>\<not> b < 0\<close> a assms(1) have "a sdiv b \<le> 0" by (simp add: signed_divide_int_def)
    with q show False by simp
  qed
  have "\<bar>b\<bar> = 1"
  proof (rule ccontr)
    assume "\<bar>b\<bar> \<noteq> 1"
    with \<open>b < 0\<close> have "2 \<le> \<bar>b\<bar>" by linarith
    then have "(2::int) ^ 127 div \<bar>b\<bar> \<le> 2 ^ 127 div 2" by (intro zdiv_mono2) auto
    with q a \<open>b < 0\<close> show False by (simp add: signed_divide_int_def)
  qed
  with \<open>b < 0\<close> a show "a = - (2 ^ 127) \<and> b = - 1" by simp
qed (simp add: signed_divide_int_def)

lemma truncating_div_rem_unsigned:
  assumes w: "wf_const a" "wf_const b" and f: "const_format b = const_format a"
    and u: "\<not> fmt_signed (const_format a)" and nz: "to_integer b \<noteq> 0"
  shows "truncating_div_rem a b =
      Some (Inr (constant_of (const_format a) (to_integer a sdiv to_integer b),
                 constant_of (const_format a) (to_integer a smod to_integer b)))"
    and "representable (const_format a) (to_integer a sdiv to_integer b)"
proof -
  let ?f = "const_format a"
  have v: "to_integer a = uint (const_bits a)" "to_integer b = uint (const_bits b)"
    using u f by (simp_all add: to_integer_def)
  have pos: "0 < uint x \<longleftrightarrow> uint x \<noteq> 0" for x :: u128
    by (auto simp: order_less_le simp del: uint_0_iff)
  have d: "to_integer a sdiv to_integer b = uint (const_bits a div const_bits b)"
    "to_integer a smod to_integer b = uint (const_bits a mod const_bits b)"
    using nz by (auto simp: v pos signed_divide_int_def signed_modulo_int_def uint_div uint_mod sgn_if
        simp del: uint_0_iff)
  have q: "0 \<le> to_integer a sdiv to_integer b" "to_integer a sdiv to_integer b \<le> to_integer a"
    using sdiv_magnitude [of "to_integer a" "to_integer b"] d v by auto
  have "representable ?f (to_integer a)" using w(1) by (rule to_integer_representable)
  from representable_between [OF representable_zero this q]
  show r: "representable ?f (to_integer a sdiv to_integer b)" .
  have sm: "representable ?f (to_integer a smod to_integer b)"
    using w(1) by (intro smod_representable to_integer_representable)
  have bits: "constant_of ?f (uint x) = \<lparr>const_format = ?f, const_bits = x\<rparr>"
    if "representable ?f (uint x)" for x :: u128
    using that u by (simp add: constant_of_def representable_def format_high_def take_bit_int_eq_self)
  show "truncating_div_rem a b =
      Some (Inr (constant_of ?f (to_integer a sdiv to_integer b),
                 constant_of ?f (to_integer a smod to_integer b)))"
    using bits r sm nz u f wf_zero_iff [OF w(2)]
    by (simp add: truncating_div_rem_def d)
qed

lemma truncating_div_rem_signed:
  assumes w: "wf_const a" "wf_const b" and f: "const_format b = const_format a"
    and s: "fmt_signed (const_format a)" and nz: "to_integer b \<noteq> 0"
  shows "truncating_div_rem a b =
     (if representable (const_format a) (to_integer a sdiv to_integer b)
      then Some (Inr (constant_of (const_format a) (to_integer a sdiv to_integer b),
                      constant_of (const_format a) (to_integer a smod to_integer b)))
      else Some (Inl SignedOverflow))"
proof -
  let ?f = "const_format a" and ?a = "to_integer a" and ?b = "to_integer b"
  have v: "sint (signed_value a) = ?a" "sint (signed_value b) = ?b"
    using s f by (simp_all add: to_integer_def)
  have ra: "representable ?f ?a" using w(1) by (rule to_integer_representable)
  note ab = representable_i128 [OF s ra]
  have rm: "representable ?f (?a smod ?b)" using ra by (rule smod_representable)
  note mb = representable_i128 [OF s rm]
  have nzb: "const_bits b \<noteq> 0" using nz wf_zero_iff [OF w(2)] by simp
  show ?thesis
  proof (cases "?a = - (2 ^ 127) \<and> ?b = - 1")
    case True
    then have "?a sdiv ?b = 2 ^ 127" by simp
    then have "\<not> representable ?f (?a sdiv ?b)" using representable_i128 [OF s] by force
    with True nzb f s show ?thesis
      by (simp add: truncating_div_rem_def i128_checked_div_def i128_div_fails_def v)
  next
    case False
    then have ok: "\<not> i128_div_fails (signed_value a) (signed_value b)"
      using nz by (auto simp: i128_div_fails_def v)
    have "?a sdiv ?b \<noteq> 2 ^ 127" using sdiv_i128_overflow [OF nz] ab False by auto
    moreover have "\<bar>?a sdiv ?b\<bar> \<le> 2 ^ 127" using sdiv_magnitude [of ?a ?b] ab by linarith
    ultimately have q: "- (2 ^ 127) \<le> ?a sdiv ?b" "?a sdiv ?b < 2 ^ 127" by linarith+
    show ?thesis
      using nzb f s ok rm mb sint_of_u128 [OF q] sint_of_u128 [of "?a smod ?b"]
      by (simp add: truncating_div_rem_def i128_checked_div_def i128_checked_rem_def v
          from_signed_spec)
  qed
qed

text \<open>C23: Truncating division of well-formed constants of one format: a zero divisor is
  refused, an unrepresentable quotient is the overflow error, and otherwise both results are
  exact in that format, with the remainder of the sign of the dividend. In particular the
  \<open>expect\<close> on the remainder never panics.\<close>

theorem truncating_division_exact:
  assumes "wf_const a" "wf_const b"
  shows "truncating_div_rem a b = Some
     (if const_format a \<noteq> const_format b then Inl FormatMismatch
      else if to_integer b = 0 then Inl DivisionByZero
      else if representable (const_format a) (to_integer a sdiv to_integer b)
      then Inr (constant_of (const_format a) (to_integer a sdiv to_integer b),
                constant_of (const_format a) (to_integer a smod to_integer b))
      else Inl SignedOverflow)"
proof (cases "const_format a \<noteq> const_format b \<or> to_integer b = 0")
  case True
  then show ?thesis using wf_zero_iff [OF assms(2)] by (auto simp: truncating_div_rem_def)
next
  case False
  then show ?thesis
    using truncating_div_rem_signed [OF assms] truncating_div_rem_unsigned [OF assms]
    by (cases "fmt_signed (const_format a)") simp_all
qed

theorem truncating_division_exact_witness:
  "truncating_div_rem (constant_of (format_new Bits8 True) (- 7)) (constant_of (format_new Bits8 True) 2)
     = Some (Inr (constant_of (format_new Bits8 True) (- 3), constant_of (format_new Bits8 True) (- 1)))
   \<and> truncating_div_rem (constant_of (format_new Bits8 True) (- 128)) (constant_of (format_new Bits8 True) (- 1))
     = Some (Inl SignedOverflow)"
proof -
  have v: "to_integer (constant_of (format_new Bits8 True) x) = signed_take_bit 7 x" for x
    by (simp add: to_integer_constant_of format_new_def format_bits_def)
  have r: "representable (format_new Bits8 True) x \<longleftrightarrow> - 128 \<le> x \<and> x \<le> 127" for x
    by (simp add: representable_def format_low_def format_high_def format_new_def format_bits_def)
  show ?thesis
    using truncating_division_exact [OF wf_constant_of wf_constant_of,
        of "format_new Bits8 True" "- 7" "format_new Bits8 True" 2]
      truncating_division_exact [OF wf_constant_of wf_constant_of,
        of "format_new Bits8 True" "- 128" "format_new Bits8 True" "- 1"]
    by (simp add: v r signed_divide_int_def signed_modulo_int_def)
qed

end
