(* ===== verification/Terms.thy ===== *)
theory Terms
  imports MachineInteger
begin

text \<open>
  The checked term arena: \<^verbatim>\<open>Bitvector32Term\<close>, \<^verbatim>\<open>PointerOffsetTerm\<close>,
  \<^verbatim>\<open>Pointer\<close> and \<^verbatim>\<open>ConditionTerm\<close> of
  \<^verbatim>\<open>src/src/kernel/primitives.rs\<close>, constructor for constructor, and what a
  valuation says a term denotes. Payloads the arithmetic never opens (memory
  snapshots, algebraic and exact-integer terms, function arguments) have the type
  parameter \<open>'x\<close>.
\<close>

section \<open>Names and small enumerations\<close>

datatype variable_origin = Ordinary | KernelFresh

datatype variable = Variable_Of (variable_number: nat) (variable_origin: variable_origin)

datatype load_kind =
    Load_Int8 | Load_UInt8 | Load_Int16 | Load_UInt16 | Load_Bits32 | Load_Bits64
  | Load_Int128 | Load_UInt128 | Load_Float32 | Load_Float64

datatype machine_integer_type =
    MInt8 | MInt16 | MInt32 | MUInt8 | MUInt16 | MUInt32 | MInt64 | MUInt64 | MInt128 | MUInt128

datatype float_binary_operator = Float_Add | Float_Subtract | Float_Multiply | Float_Divide

datatype comparison_operator =
    Less_Than | Less_Equal | Greater_Than | Greater_Equal | Equal_To | Not_Equal_To

datatype float_classification =
    Is_Finite | Is_Infinite | Is_Zero | Is_Subnormal | Is_Nan

datatype 'x pointer_block =
    Concrete string
  | StringLiteral string "8 word list"
  | Function_Block string
  | FunctionSymbolic variable
  | ExternalArgument
  | ExternalObject variable
  | Symbolic variable
  | LoadedPointer nat
  | PureApplicationBlock 'x
  | Heap nat
  | Temporary nat

section \<open>Operators\<close>

text \<open>
  Constructors of one shape share a constructor that carries the operator: the operators
  below are the source's constructors \<open>Add\<close>, \<open>Subtract\<close>, ... of two
  terms, the conversions and complements of one term, and the comparisons and overflow tests
  of two terms. The abbreviations after the datatypes give each source constructor back
  its name.
\<close>

datatype binary_operator =
    Op_Add | Op_Subtract | Op_Multiply | Op_Divide | Op_UnsignedDivide | Op_Remainder
    | Op_UnsignedRemainder | Op_ShiftLeft | Op_ArithmeticShiftRight | Op_LogicalShiftRight
    | Op_BitwiseAnd | Op_BitwiseOr | Op_BitwiseXor | Op_Int64Add | Op_Int64Subtract
    | Op_Int64Multiply | Op_Int64Divide | Op_Int64Remainder | Op_Int64ShiftLeft
    | Op_Int64ArithmeticShiftRight | Op_Int64BitwiseAnd | Op_Int64BitwiseOr
    | Op_Int64BitwiseXor | Op_UInt64Add | Op_UInt64Subtract | Op_UInt64Multiply
    | Op_UInt64Divide | Op_UInt64Remainder | Op_UInt64ShiftLeft | Op_UInt64LogicalShiftRight
    | Op_UInt64BitwiseAnd | Op_UInt64BitwiseOr | Op_UInt64BitwiseXor
    | Op_Float32Binary float_binary_operator | Op_Float64Binary float_binary_operator

datatype unary_operator =
    Op_BitwiseNot | Op_Int64From32 | Op_UInt64From32 | Op_UInt32From64 | Op_Int64FromUInt32
    | Op_UInt64FromInt32 | Op_UInt64FromInt64 | Op_Int64BitwiseNot | Op_UInt64BitwiseNot
    | Op_Float32Negate | Op_Float64Negate

datatype comparison =
    Op_Bitvector32SignedLessThan | Op_Bitvector32SignedLessEqual
    | Op_Bitvector32SignedGreaterThan | Op_Bitvector32SignedGreaterEqual
    | Op_Bitvector32Equal | Op_Bitvector32SignedAddOverflows
    | Op_Bitvector32SignedSubtractOverflows | Op_Bitvector32SignedMultiplyOverflows
    | Op_Bitvector32SignedDivideOverflows | Op_Bitvector32SignedShiftLeftOverflows
    | Op_Bitvector64SignedLessThan | Op_Bitvector64SignedLessEqual
    | Op_Bitvector64SignedGreaterThan | Op_Bitvector64SignedGreaterEqual
    | Op_Bitvector64UnsignedLessThan | Op_Bitvector64UnsignedLessEqual
    | Op_Bitvector64UnsignedGreaterThan | Op_Bitvector64UnsignedGreaterEqual
    | Op_Bitvector64Equal | Op_Bitvector64SignedAddOverflows
    | Op_Bitvector64SignedSubtractOverflows | Op_Bitvector64SignedMultiplyOverflows
    | Op_Bitvector64SignedDivideOverflows | Op_Bitvector64SignedShiftLeftOverflows

datatype integer_comparison =
    Op_IntegerLessThan | Op_IntegerLessEqual | Op_IntegerGreaterThan | Op_IntegerGreaterEqual
    | Op_IntegerEqual | Op_IntegerNotEqual

section \<open>Terms\<close>

datatype 'x bv =
    Constant "32 word"
  | Int64Constant "64 word"
  | UInt64Constant "64 word"
  | MachineIntegerConstant machine_integer_constant
  | Variable variable
  | Binary binary_operator "'x bv" "'x bv"
  | Unary unary_operator "'x bv"
  | If_Term "'x cond" "'x bv" "'x bv"
  | RangeFold "'x bv" "'x bv" "'x bv" variable variable "'x bv"
  | PureFunctionApplication string "'x bv list"
  | ClickFunctionApplication string "'x list"
  | AlgebraicMatch 'x "'x list"
  | MemoryLoad 'x "'x pointer" load_kind
  | PointerAddress "'x pointer"
  | IntegerToMachine 'x machine_integer_type
  | MachineIntegerCast "'x bv" machine_integer_type machine_integer_type
and 'x cond =
    Cond_Constant bool
  | Cond_Variable variable
  | AlgebraicEqual 'x 'x
  | Compare comparison "'x bv" "'x bv"
  | Float32_Condition "'x float_cond"
  | Float64_Condition "'x float_cond"
  | PointerOffsetEqual "'x offset" "'x offset"
  | PointerEqual "'x pointer" "'x pointer"
  | PointerValueEqual "'x pointer_value" "'x pointer_value"
  | Integer_Compare integer_comparison 'x 'x
and 'x float_cond =
    Float_Comparison comparison_operator "'x bv" "'x bv"
  | Float_Classification float_classification "'x bv"
and 'x offset =
    Off_Constant "64 word"
  | Off_Variable variable
  | Off_Add "'x offset" "'x offset"
  | Int32Scaled "'x bv" "64 word"
  | Int64Scaled "'x bv" "64 word" bool
and 'x pointer = Pointer (pointer_block: "'x pointer_block") (pointer_offset: "'x offset")
and 'x pointer_value = Pointer_Value (value_pointer: "'x pointer") (value_rest: 'x)

abbreviation Add :: "'x bv \<Rightarrow> 'x bv \<Rightarrow> 'x bv" where
  "Add a b \<equiv> Binary Op_Add a b"
abbreviation Subtract :: "'x bv \<Rightarrow> 'x bv \<Rightarrow> 'x bv" where
  "Subtract a b \<equiv> Binary Op_Subtract a b"
abbreviation Multiply :: "'x bv \<Rightarrow> 'x bv \<Rightarrow> 'x bv" where
  "Multiply a b \<equiv> Binary Op_Multiply a b"
abbreviation Divide :: "'x bv \<Rightarrow> 'x bv \<Rightarrow> 'x bv" where
  "Divide a b \<equiv> Binary Op_Divide a b"
abbreviation UnsignedDivide :: "'x bv \<Rightarrow> 'x bv \<Rightarrow> 'x bv" where
  "UnsignedDivide a b \<equiv> Binary Op_UnsignedDivide a b"
abbreviation Remainder :: "'x bv \<Rightarrow> 'x bv \<Rightarrow> 'x bv" where
  "Remainder a b \<equiv> Binary Op_Remainder a b"
abbreviation UnsignedRemainder :: "'x bv \<Rightarrow> 'x bv \<Rightarrow> 'x bv" where
  "UnsignedRemainder a b \<equiv> Binary Op_UnsignedRemainder a b"
abbreviation ShiftLeft :: "'x bv \<Rightarrow> 'x bv \<Rightarrow> 'x bv" where
  "ShiftLeft a b \<equiv> Binary Op_ShiftLeft a b"
abbreviation ArithmeticShiftRight :: "'x bv \<Rightarrow> 'x bv \<Rightarrow> 'x bv" where
  "ArithmeticShiftRight a b \<equiv> Binary Op_ArithmeticShiftRight a b"
abbreviation LogicalShiftRight :: "'x bv \<Rightarrow> 'x bv \<Rightarrow> 'x bv" where
  "LogicalShiftRight a b \<equiv> Binary Op_LogicalShiftRight a b"
abbreviation BitwiseAnd :: "'x bv \<Rightarrow> 'x bv \<Rightarrow> 'x bv" where
  "BitwiseAnd a b \<equiv> Binary Op_BitwiseAnd a b"
abbreviation BitwiseOr :: "'x bv \<Rightarrow> 'x bv \<Rightarrow> 'x bv" where
  "BitwiseOr a b \<equiv> Binary Op_BitwiseOr a b"
abbreviation BitwiseXor :: "'x bv \<Rightarrow> 'x bv \<Rightarrow> 'x bv" where
  "BitwiseXor a b \<equiv> Binary Op_BitwiseXor a b"
abbreviation Int64Add :: "'x bv \<Rightarrow> 'x bv \<Rightarrow> 'x bv" where
  "Int64Add a b \<equiv> Binary Op_Int64Add a b"
abbreviation Int64Subtract :: "'x bv \<Rightarrow> 'x bv \<Rightarrow> 'x bv" where
  "Int64Subtract a b \<equiv> Binary Op_Int64Subtract a b"
abbreviation Int64Multiply :: "'x bv \<Rightarrow> 'x bv \<Rightarrow> 'x bv" where
  "Int64Multiply a b \<equiv> Binary Op_Int64Multiply a b"
abbreviation Int64Divide :: "'x bv \<Rightarrow> 'x bv \<Rightarrow> 'x bv" where
  "Int64Divide a b \<equiv> Binary Op_Int64Divide a b"
abbreviation Int64Remainder :: "'x bv \<Rightarrow> 'x bv \<Rightarrow> 'x bv" where
  "Int64Remainder a b \<equiv> Binary Op_Int64Remainder a b"
abbreviation Int64ShiftLeft :: "'x bv \<Rightarrow> 'x bv \<Rightarrow> 'x bv" where
  "Int64ShiftLeft a b \<equiv> Binary Op_Int64ShiftLeft a b"
abbreviation Int64ArithmeticShiftRight :: "'x bv \<Rightarrow> 'x bv \<Rightarrow> 'x bv" where
  "Int64ArithmeticShiftRight a b \<equiv> Binary Op_Int64ArithmeticShiftRight a b"
abbreviation Int64BitwiseAnd :: "'x bv \<Rightarrow> 'x bv \<Rightarrow> 'x bv" where
  "Int64BitwiseAnd a b \<equiv> Binary Op_Int64BitwiseAnd a b"
abbreviation Int64BitwiseOr :: "'x bv \<Rightarrow> 'x bv \<Rightarrow> 'x bv" where
  "Int64BitwiseOr a b \<equiv> Binary Op_Int64BitwiseOr a b"
abbreviation Int64BitwiseXor :: "'x bv \<Rightarrow> 'x bv \<Rightarrow> 'x bv" where
  "Int64BitwiseXor a b \<equiv> Binary Op_Int64BitwiseXor a b"
abbreviation UInt64Add :: "'x bv \<Rightarrow> 'x bv \<Rightarrow> 'x bv" where
  "UInt64Add a b \<equiv> Binary Op_UInt64Add a b"
abbreviation UInt64Subtract :: "'x bv \<Rightarrow> 'x bv \<Rightarrow> 'x bv" where
  "UInt64Subtract a b \<equiv> Binary Op_UInt64Subtract a b"
abbreviation UInt64Multiply :: "'x bv \<Rightarrow> 'x bv \<Rightarrow> 'x bv" where
  "UInt64Multiply a b \<equiv> Binary Op_UInt64Multiply a b"
abbreviation UInt64Divide :: "'x bv \<Rightarrow> 'x bv \<Rightarrow> 'x bv" where
  "UInt64Divide a b \<equiv> Binary Op_UInt64Divide a b"
abbreviation UInt64Remainder :: "'x bv \<Rightarrow> 'x bv \<Rightarrow> 'x bv" where
  "UInt64Remainder a b \<equiv> Binary Op_UInt64Remainder a b"
abbreviation UInt64ShiftLeft :: "'x bv \<Rightarrow> 'x bv \<Rightarrow> 'x bv" where
  "UInt64ShiftLeft a b \<equiv> Binary Op_UInt64ShiftLeft a b"
abbreviation UInt64LogicalShiftRight :: "'x bv \<Rightarrow> 'x bv \<Rightarrow> 'x bv" where
  "UInt64LogicalShiftRight a b \<equiv> Binary Op_UInt64LogicalShiftRight a b"
abbreviation UInt64BitwiseAnd :: "'x bv \<Rightarrow> 'x bv \<Rightarrow> 'x bv" where
  "UInt64BitwiseAnd a b \<equiv> Binary Op_UInt64BitwiseAnd a b"
abbreviation UInt64BitwiseOr :: "'x bv \<Rightarrow> 'x bv \<Rightarrow> 'x bv" where
  "UInt64BitwiseOr a b \<equiv> Binary Op_UInt64BitwiseOr a b"
abbreviation UInt64BitwiseXor :: "'x bv \<Rightarrow> 'x bv \<Rightarrow> 'x bv" where
  "UInt64BitwiseXor a b \<equiv> Binary Op_UInt64BitwiseXor a b"
abbreviation Float32Binary :: "float_binary_operator \<Rightarrow> 'x bv \<Rightarrow> 'x bv \<Rightarrow> 'x bv" where
  "Float32Binary f a b \<equiv> Binary (Op_Float32Binary f) a b"
abbreviation Float64Binary :: "float_binary_operator \<Rightarrow> 'x bv \<Rightarrow> 'x bv \<Rightarrow> 'x bv" where
  "Float64Binary f a b \<equiv> Binary (Op_Float64Binary f) a b"
abbreviation BitwiseNot :: "'x bv \<Rightarrow> 'x bv" where
  "BitwiseNot a \<equiv> Unary Op_BitwiseNot a"
abbreviation Int64From32 :: "'x bv \<Rightarrow> 'x bv" where
  "Int64From32 a \<equiv> Unary Op_Int64From32 a"
abbreviation UInt64From32 :: "'x bv \<Rightarrow> 'x bv" where
  "UInt64From32 a \<equiv> Unary Op_UInt64From32 a"
abbreviation UInt32From64 :: "'x bv \<Rightarrow> 'x bv" where
  "UInt32From64 a \<equiv> Unary Op_UInt32From64 a"
abbreviation Int64FromUInt32 :: "'x bv \<Rightarrow> 'x bv" where
  "Int64FromUInt32 a \<equiv> Unary Op_Int64FromUInt32 a"
abbreviation UInt64FromInt32 :: "'x bv \<Rightarrow> 'x bv" where
  "UInt64FromInt32 a \<equiv> Unary Op_UInt64FromInt32 a"
abbreviation UInt64FromInt64 :: "'x bv \<Rightarrow> 'x bv" where
  "UInt64FromInt64 a \<equiv> Unary Op_UInt64FromInt64 a"
abbreviation Int64BitwiseNot :: "'x bv \<Rightarrow> 'x bv" where
  "Int64BitwiseNot a \<equiv> Unary Op_Int64BitwiseNot a"
abbreviation UInt64BitwiseNot :: "'x bv \<Rightarrow> 'x bv" where
  "UInt64BitwiseNot a \<equiv> Unary Op_UInt64BitwiseNot a"
abbreviation Float32Negate :: "'x bv \<Rightarrow> 'x bv" where
  "Float32Negate a \<equiv> Unary Op_Float32Negate a"
abbreviation Float64Negate :: "'x bv \<Rightarrow> 'x bv" where
  "Float64Negate a \<equiv> Unary Op_Float64Negate a"
abbreviation Bitvector32SignedLessThan :: "'x bv \<Rightarrow> 'x bv \<Rightarrow> 'x cond" where
  "Bitvector32SignedLessThan a b \<equiv> Compare Op_Bitvector32SignedLessThan a b"
abbreviation Bitvector32SignedLessEqual :: "'x bv \<Rightarrow> 'x bv \<Rightarrow> 'x cond" where
  "Bitvector32SignedLessEqual a b \<equiv> Compare Op_Bitvector32SignedLessEqual a b"
abbreviation Bitvector32SignedGreaterThan :: "'x bv \<Rightarrow> 'x bv \<Rightarrow> 'x cond" where
  "Bitvector32SignedGreaterThan a b \<equiv> Compare Op_Bitvector32SignedGreaterThan a b"
abbreviation Bitvector32SignedGreaterEqual :: "'x bv \<Rightarrow> 'x bv \<Rightarrow> 'x cond" where
  "Bitvector32SignedGreaterEqual a b \<equiv> Compare Op_Bitvector32SignedGreaterEqual a b"
abbreviation Bitvector32Equal :: "'x bv \<Rightarrow> 'x bv \<Rightarrow> 'x cond" where
  "Bitvector32Equal a b \<equiv> Compare Op_Bitvector32Equal a b"
abbreviation Bitvector32SignedAddOverflows :: "'x bv \<Rightarrow> 'x bv \<Rightarrow> 'x cond" where
  "Bitvector32SignedAddOverflows a b \<equiv> Compare Op_Bitvector32SignedAddOverflows a b"
abbreviation Bitvector32SignedSubtractOverflows :: "'x bv \<Rightarrow> 'x bv \<Rightarrow> 'x cond" where
  "Bitvector32SignedSubtractOverflows a b \<equiv> Compare Op_Bitvector32SignedSubtractOverflows a b"
abbreviation Bitvector32SignedMultiplyOverflows :: "'x bv \<Rightarrow> 'x bv \<Rightarrow> 'x cond" where
  "Bitvector32SignedMultiplyOverflows a b \<equiv> Compare Op_Bitvector32SignedMultiplyOverflows a b"
abbreviation Bitvector32SignedDivideOverflows :: "'x bv \<Rightarrow> 'x bv \<Rightarrow> 'x cond" where
  "Bitvector32SignedDivideOverflows a b \<equiv> Compare Op_Bitvector32SignedDivideOverflows a b"
abbreviation Bitvector32SignedShiftLeftOverflows :: "'x bv \<Rightarrow> 'x bv \<Rightarrow> 'x cond" where
  "Bitvector32SignedShiftLeftOverflows a b \<equiv> Compare Op_Bitvector32SignedShiftLeftOverflows a b"
abbreviation Bitvector64SignedLessThan :: "'x bv \<Rightarrow> 'x bv \<Rightarrow> 'x cond" where
  "Bitvector64SignedLessThan a b \<equiv> Compare Op_Bitvector64SignedLessThan a b"
abbreviation Bitvector64SignedLessEqual :: "'x bv \<Rightarrow> 'x bv \<Rightarrow> 'x cond" where
  "Bitvector64SignedLessEqual a b \<equiv> Compare Op_Bitvector64SignedLessEqual a b"
abbreviation Bitvector64SignedGreaterThan :: "'x bv \<Rightarrow> 'x bv \<Rightarrow> 'x cond" where
  "Bitvector64SignedGreaterThan a b \<equiv> Compare Op_Bitvector64SignedGreaterThan a b"
abbreviation Bitvector64SignedGreaterEqual :: "'x bv \<Rightarrow> 'x bv \<Rightarrow> 'x cond" where
  "Bitvector64SignedGreaterEqual a b \<equiv> Compare Op_Bitvector64SignedGreaterEqual a b"
abbreviation Bitvector64UnsignedLessThan :: "'x bv \<Rightarrow> 'x bv \<Rightarrow> 'x cond" where
  "Bitvector64UnsignedLessThan a b \<equiv> Compare Op_Bitvector64UnsignedLessThan a b"
abbreviation Bitvector64UnsignedLessEqual :: "'x bv \<Rightarrow> 'x bv \<Rightarrow> 'x cond" where
  "Bitvector64UnsignedLessEqual a b \<equiv> Compare Op_Bitvector64UnsignedLessEqual a b"
abbreviation Bitvector64UnsignedGreaterThan :: "'x bv \<Rightarrow> 'x bv \<Rightarrow> 'x cond" where
  "Bitvector64UnsignedGreaterThan a b \<equiv> Compare Op_Bitvector64UnsignedGreaterThan a b"
abbreviation Bitvector64UnsignedGreaterEqual :: "'x bv \<Rightarrow> 'x bv \<Rightarrow> 'x cond" where
  "Bitvector64UnsignedGreaterEqual a b \<equiv> Compare Op_Bitvector64UnsignedGreaterEqual a b"
abbreviation Bitvector64Equal :: "'x bv \<Rightarrow> 'x bv \<Rightarrow> 'x cond" where
  "Bitvector64Equal a b \<equiv> Compare Op_Bitvector64Equal a b"
abbreviation Bitvector64SignedAddOverflows :: "'x bv \<Rightarrow> 'x bv \<Rightarrow> 'x cond" where
  "Bitvector64SignedAddOverflows a b \<equiv> Compare Op_Bitvector64SignedAddOverflows a b"
abbreviation Bitvector64SignedSubtractOverflows :: "'x bv \<Rightarrow> 'x bv \<Rightarrow> 'x cond" where
  "Bitvector64SignedSubtractOverflows a b \<equiv> Compare Op_Bitvector64SignedSubtractOverflows a b"
abbreviation Bitvector64SignedMultiplyOverflows :: "'x bv \<Rightarrow> 'x bv \<Rightarrow> 'x cond" where
  "Bitvector64SignedMultiplyOverflows a b \<equiv> Compare Op_Bitvector64SignedMultiplyOverflows a b"
abbreviation Bitvector64SignedDivideOverflows :: "'x bv \<Rightarrow> 'x bv \<Rightarrow> 'x cond" where
  "Bitvector64SignedDivideOverflows a b \<equiv> Compare Op_Bitvector64SignedDivideOverflows a b"
abbreviation Bitvector64SignedShiftLeftOverflows :: "'x bv \<Rightarrow> 'x bv \<Rightarrow> 'x cond" where
  "Bitvector64SignedShiftLeftOverflows a b \<equiv> Compare Op_Bitvector64SignedShiftLeftOverflows a b"
abbreviation IntegerLessThan :: "'x \<Rightarrow> 'x \<Rightarrow> 'x cond" where
  "IntegerLessThan a b \<equiv> Integer_Compare Op_IntegerLessThan a b"
abbreviation IntegerLessEqual :: "'x \<Rightarrow> 'x \<Rightarrow> 'x cond" where
  "IntegerLessEqual a b \<equiv> Integer_Compare Op_IntegerLessEqual a b"
abbreviation IntegerGreaterThan :: "'x \<Rightarrow> 'x \<Rightarrow> 'x cond" where
  "IntegerGreaterThan a b \<equiv> Integer_Compare Op_IntegerGreaterThan a b"
abbreviation IntegerGreaterEqual :: "'x \<Rightarrow> 'x \<Rightarrow> 'x cond" where
  "IntegerGreaterEqual a b \<equiv> Integer_Compare Op_IntegerGreaterEqual a b"
abbreviation IntegerEqual :: "'x \<Rightarrow> 'x \<Rightarrow> 'x cond" where
  "IntegerEqual a b \<equiv> Integer_Compare Op_IntegerEqual a b"
abbreviation IntegerNotEqual :: "'x \<Rightarrow> 'x \<Rightarrow> 'x cond" where
  "IntegerNotEqual a b \<equiv> Integer_Compare Op_IntegerNotEqual a b"

end
