(* ===== verification/Denotation.thy ===== *)
theory Denotation
  imports Terms
begin

unbundle bit_operations_syntax

text \<open>
  What a valuation makes of a term. A valuation gives every term the arithmetic does
  not open (a variable, a load, an application, a fold, a float operation) a value;
  the operators have their machine meaning. A value is a 128-bit carrier: a 32-bit
  operation reads and writes its low 32 bits, a 64-bit one its low 64, and a wide
  constant is its bits. A pointer is an object and a byte position in it.

  The source never evaluates a division by zero or an out-of-range shift. Here they
  are total: a quotient by zero is zero, a remainder by zero the dividend, and a
  shift by the width or more shifts everything out.
\<close>

section \<open>Valuations\<close>

record 'x valuation =
  val_term :: "'x bv \<Rightarrow> 128 word"
  val_cond :: "'x cond \<Rightarrow> bool"
  val_block :: "'x pointer_block \<Rightarrow> nat \<times> int"
  val_object :: "nat \<Rightarrow> int"
  val_offset :: "variable \<Rightarrow> int"
  val_designation :: "'x \<Rightarrow> 'x \<Rightarrow> bool"

abbreviation low32 :: "128 word \<Rightarrow> 32 word" where
  "low32 w \<equiv> ucast w"

abbreviation low64 :: "128 word \<Rightarrow> 64 word" where
  "low64 w \<equiv> ucast w"

section \<open>Operators\<close>

definition signed_div :: "'a::len word \<Rightarrow> 'a word \<Rightarrow> 'a word" where
  "signed_div a b = word_of_int (sint a sdiv sint b)"

definition signed_rem :: "'a::len word \<Rightarrow> 'a word \<Rightarrow> 'a word" where
  "signed_rem a b = word_of_int (sint a smod sint b)"

definition binary32 :: "binary_operator \<Rightarrow> (32 word \<Rightarrow> 32 word \<Rightarrow> 32 word) option" where
  "binary32 op = (case op of
     Op_Add \<Rightarrow> Some (+)
   | Op_Subtract \<Rightarrow> Some (-)
   | Op_Multiply \<Rightarrow> Some (*)
   | Op_Divide \<Rightarrow> Some signed_div
   | Op_UnsignedDivide \<Rightarrow> Some (div)
   | Op_Remainder \<Rightarrow> Some signed_rem
   | Op_UnsignedRemainder \<Rightarrow> Some (mod)
   | Op_ShiftLeft \<Rightarrow> Some (\<lambda>a b. push_bit (unat b) a)
   | Op_ArithmeticShiftRight \<Rightarrow> Some (\<lambda>a b. signed_drop_bit (unat b) a)
   | Op_LogicalShiftRight \<Rightarrow> Some (\<lambda>a b. drop_bit (unat b) a)
   | Op_BitwiseAnd \<Rightarrow> Some (AND)
   | Op_BitwiseOr \<Rightarrow> Some (OR)
   | Op_BitwiseXor \<Rightarrow> Some (XOR)
   | _ \<Rightarrow> None)"

definition binary64 :: "binary_operator \<Rightarrow> (64 word \<Rightarrow> 64 word \<Rightarrow> 64 word) option" where
  "binary64 op = (case op of
     Op_Int64Add \<Rightarrow> Some (+)
   | Op_Int64Subtract \<Rightarrow> Some (-)
   | Op_Int64Multiply \<Rightarrow> Some (*)
   | Op_Int64Divide \<Rightarrow> Some signed_div
   | Op_Int64Remainder \<Rightarrow> Some signed_rem
   | Op_Int64ShiftLeft \<Rightarrow> Some (\<lambda>a b. push_bit (unat b) a)
   | Op_Int64ArithmeticShiftRight \<Rightarrow> Some (\<lambda>a b. signed_drop_bit (unat b) a)
   | Op_Int64BitwiseAnd \<Rightarrow> Some (AND)
   | Op_Int64BitwiseOr \<Rightarrow> Some (OR)
   | Op_Int64BitwiseXor \<Rightarrow> Some (XOR)
   | Op_UInt64Add \<Rightarrow> Some (+)
   | Op_UInt64Subtract \<Rightarrow> Some (-)
   | Op_UInt64Multiply \<Rightarrow> Some (*)
   | Op_UInt64Divide \<Rightarrow> Some (div)
   | Op_UInt64Remainder \<Rightarrow> Some (mod)
   | Op_UInt64ShiftLeft \<Rightarrow> Some (\<lambda>a b. push_bit (unat b) a)
   | Op_UInt64LogicalShiftRight \<Rightarrow> Some (\<lambda>a b. drop_bit (unat b) a)
   | Op_UInt64BitwiseAnd \<Rightarrow> Some (AND)
   | Op_UInt64BitwiseOr \<Rightarrow> Some (OR)
   | Op_UInt64BitwiseXor \<Rightarrow> Some (XOR)
   | _ \<Rightarrow> None)"

definition unary_value :: "unary_operator \<Rightarrow> (128 word \<Rightarrow> 128 word) option" where
  "unary_value op = (case op of
     Op_BitwiseNot \<Rightarrow> Some (\<lambda>a. ucast (NOT (low32 a)))
   | Op_Int64From32 \<Rightarrow> Some (\<lambda>a. ucast (scast (low32 a) :: 64 word))
   | Op_UInt64From32 \<Rightarrow> Some (\<lambda>a. ucast (ucast (low32 a) :: 64 word))
   | Op_UInt32From64 \<Rightarrow> Some (\<lambda>a. ucast (low32 a))
   | Op_Int64FromUInt32 \<Rightarrow> Some (\<lambda>a. ucast (ucast (low32 a) :: 64 word))
   | Op_UInt64FromInt32 \<Rightarrow> Some (\<lambda>a. ucast (scast (low32 a) :: 64 word))
   | Op_UInt64FromInt64 \<Rightarrow> Some (\<lambda>a. ucast (low64 a))
   | Op_Int64BitwiseNot \<Rightarrow> Some (\<lambda>a. ucast (NOT (low64 a)))
   | Op_UInt64BitwiseNot \<Rightarrow> Some (\<lambda>a. ucast (NOT (low64 a)))
   | _ \<Rightarrow> None)"

text \<open>The machine format of a type and the carrier of its values.\<close>

definition type_format :: "machine_integer_type \<Rightarrow> machine_integer_format" where
  "type_format ty = (case ty of
     MInt8 \<Rightarrow> format_new Bits8 True | MUInt8 \<Rightarrow> format_new Bits8 False
   | MInt16 \<Rightarrow> format_new Bits16 True | MUInt16 \<Rightarrow> format_new Bits16 False
   | MInt32 \<Rightarrow> format_new Bits32 True | MUInt32 \<Rightarrow> format_new Bits32 False
   | MInt64 \<Rightarrow> format_new Bits64 True | MUInt64 \<Rightarrow> format_new Bits64 False
   | MInt128 \<Rightarrow> format_new Bits128 True | MUInt128 \<Rightarrow> format_new Bits128 False)"

definition carrier_reading :: "machine_integer_type \<Rightarrow> 128 word \<Rightarrow> int" where
  "carrier_reading ty w = to_integer (constant_of (type_format ty) (uint w))"

definition carrier_of :: "machine_integer_type \<Rightarrow> machine_integer_constant \<Rightarrow> 128 word" where
  "carrier_of ty c =
     (if format_bits (type_format ty) \<le> 32 then ucast (word_of_int (to_integer c) :: 32 word)
      else if format_bits (type_format ty) = 64 then ucast (word_of_int (to_integer c) :: 64 word)
      else const_bits c)"

definition cast_value :: "machine_integer_type \<Rightarrow> machine_integer_type \<Rightarrow> 128 word \<Rightarrow> 128 word" where
  "cast_value source destination w =
     carrier_of destination (constant_of (type_format destination) (carrier_reading source w))"

text \<open>The comparisons and overflow tests, on two carriers.\<close>

definition overflow32 :: "(int \<Rightarrow> int \<Rightarrow> int) \<Rightarrow> 128 word \<Rightarrow> 128 word \<Rightarrow> bool" where
  "overflow32 f a b \<longleftrightarrow>
     \<not> (- (2 ^ 31) \<le> f (sint (low32 a)) (sint (low32 b)) \<and> f (sint (low32 a)) (sint (low32 b)) < 2 ^ 31)"

definition overflow64 :: "(int \<Rightarrow> int \<Rightarrow> int) \<Rightarrow> 128 word \<Rightarrow> 128 word \<Rightarrow> bool" where
  "overflow64 f a b \<longleftrightarrow>
     \<not> (- (2 ^ 63) \<le> f (sint (low64 a)) (sint (low64 b)) \<and> f (sint (low64 a)) (sint (low64 b)) < 2 ^ 63)"

definition compare_value :: "comparison \<Rightarrow> 128 word \<Rightarrow> 128 word \<Rightarrow> bool" where
  "compare_value op a b = (case op of
     Op_Bitvector32SignedLessThan \<Rightarrow> sint (low32 a) < sint (low32 b)
   | Op_Bitvector32SignedLessEqual \<Rightarrow> sint (low32 a) \<le> sint (low32 b)
   | Op_Bitvector32SignedGreaterThan \<Rightarrow> sint (low32 a) > sint (low32 b)
   | Op_Bitvector32SignedGreaterEqual \<Rightarrow> sint (low32 a) \<ge> sint (low32 b)
   | Op_Bitvector32Equal \<Rightarrow> low32 a = low32 b
   | Op_Bitvector32SignedAddOverflows \<Rightarrow> overflow32 (+) a b
   | Op_Bitvector32SignedSubtractOverflows \<Rightarrow> overflow32 (-) a b
   | Op_Bitvector32SignedMultiplyOverflows \<Rightarrow> overflow32 (*) a b
   | Op_Bitvector32SignedDivideOverflows \<Rightarrow>
       sint (low32 a) = - (2 ^ 31) \<and> sint (low32 b) = - 1
   | Op_Bitvector32SignedShiftLeftOverflows \<Rightarrow>
       0 \<le> sint (low32 a) \<and> (2::int) ^ 31 \<le> sint (low32 a) * 2 ^ unat (low32 b)
   | Op_Bitvector64SignedLessThan \<Rightarrow> sint (low64 a) < sint (low64 b)
   | Op_Bitvector64SignedLessEqual \<Rightarrow> sint (low64 a) \<le> sint (low64 b)
   | Op_Bitvector64SignedGreaterThan \<Rightarrow> sint (low64 a) > sint (low64 b)
   | Op_Bitvector64SignedGreaterEqual \<Rightarrow> sint (low64 a) \<ge> sint (low64 b)
   | Op_Bitvector64UnsignedLessThan \<Rightarrow> low64 a < low64 b
   | Op_Bitvector64UnsignedLessEqual \<Rightarrow> low64 a \<le> low64 b
   | Op_Bitvector64UnsignedGreaterThan \<Rightarrow> low64 a > low64 b
   | Op_Bitvector64UnsignedGreaterEqual \<Rightarrow> low64 a \<ge> low64 b
   | Op_Bitvector64Equal \<Rightarrow> low64 a = low64 b
   | Op_Bitvector64SignedAddOverflows \<Rightarrow> overflow64 (+) a b
   | Op_Bitvector64SignedSubtractOverflows \<Rightarrow> overflow64 (-) a b
   | Op_Bitvector64SignedMultiplyOverflows \<Rightarrow> overflow64 (*) a b
   | Op_Bitvector64SignedDivideOverflows \<Rightarrow>
       sint (low64 b) = 0 \<or> sint (low64 a) = - (2 ^ 63) \<and> sint (low64 b) = - 1
   | Op_Bitvector64SignedShiftLeftOverflows \<Rightarrow>
       64 \<le> unat (low64 b) \<or> sint (low64 a) < 0
       \<or> (2::int) ^ 63 \<le> sint (low64 a) * 2 ^ unat (low64 b))"

section \<open>Terms\<close>

primrec bv_value :: "'x valuation \<Rightarrow> 'x bv \<Rightarrow> 128 word"
  and cond_value :: "'x valuation \<Rightarrow> 'x cond \<Rightarrow> bool"
  and offset_value :: "'x valuation \<Rightarrow> 'x offset \<Rightarrow> int"
  and pointer_place :: "'x valuation \<Rightarrow> 'x pointer \<Rightarrow> nat \<times> int"
  and value_place :: "'x valuation \<Rightarrow> 'x pointer_value \<Rightarrow> nat \<times> int"
where
  "bv_value \<rho> (Constant w) = ucast w"
| "bv_value \<rho> (Int64Constant w) = ucast w"
| "bv_value \<rho> (UInt64Constant w) = ucast w"
| "bv_value \<rho> (MachineIntegerConstant c) = const_bits c"
| "bv_value \<rho> (Variable x) = val_term \<rho> (Variable x)"
| "bv_value \<rho> (Binary op a b) =
     (case binary32 op of
        Some f \<Rightarrow> ucast (f (low32 (bv_value \<rho> a)) (low32 (bv_value \<rho> b)))
      | None \<Rightarrow>
          (case binary64 op of
             Some f \<Rightarrow> ucast (f (low64 (bv_value \<rho> a)) (low64 (bv_value \<rho> b)))
           | None \<Rightarrow> val_term \<rho> (Binary op a b)))"
| "bv_value \<rho> (Unary op a) =
     (case unary_value op of Some f \<Rightarrow> f (bv_value \<rho> a) | None \<Rightarrow> val_term \<rho> (Unary op a))"
| "bv_value \<rho> (If_Term c a b) = (if cond_value \<rho> c then bv_value \<rho> a else bv_value \<rho> b)"
| "bv_value \<rho> (RangeFold s e i acc item body) = val_term \<rho> (RangeFold s e i acc item body)"
| "bv_value \<rho> (PureFunctionApplication n xs) = val_term \<rho> (PureFunctionApplication n xs)"
| "bv_value \<rho> (ClickFunctionApplication n xs) = val_term \<rho> (ClickFunctionApplication n xs)"
| "bv_value \<rho> (AlgebraicMatch s xs) = val_term \<rho> (AlgebraicMatch s xs)"
| "bv_value \<rho> (MemoryLoad m p k) = val_term \<rho> (MemoryLoad m p k)"
| "bv_value \<rho> (PointerAddress p) =
     (let (object, position) = pointer_place \<rho> p
      in ucast (word_of_int (val_object \<rho> object + position) :: 64 word))"
| "bv_value \<rho> (IntegerToMachine x ty) = val_term \<rho> (IntegerToMachine x ty)"
| "bv_value \<rho> (MachineIntegerCast a source destination) =
     cast_value source destination (bv_value \<rho> a)"
| "cond_value \<rho> (Cond_Constant b) = b"
| "cond_value \<rho> (Cond_Variable x) = val_cond \<rho> (Cond_Variable x)"
| "cond_value \<rho> (AlgebraicEqual x y) = val_cond \<rho> (AlgebraicEqual x y)"
| "cond_value \<rho> (Compare op a b) = compare_value op (bv_value \<rho> a) (bv_value \<rho> b)"
| "cond_value \<rho> (Float32_Condition f) = val_cond \<rho> (Float32_Condition f)"
| "cond_value \<rho> (Float64_Condition f) = val_cond \<rho> (Float64_Condition f)"
| "cond_value \<rho> (PointerOffsetEqual a b) = (offset_value \<rho> a = offset_value \<rho> b)"
| "cond_value \<rho> (PointerEqual p q) = (pointer_place \<rho> p = pointer_place \<rho> q)"
| "cond_value \<rho> (PointerValueEqual p q) =
     (value_place \<rho> p = value_place \<rho> q \<and> val_designation \<rho> (value_rest p) (value_rest q))"
| "cond_value \<rho> (Integer_Compare op x y) = val_cond \<rho> (Integer_Compare op x y)"
| "offset_value \<rho> (Off_Constant w) = sint w"
| "offset_value \<rho> (Off_Variable x) = val_offset \<rho> x"
| "offset_value \<rho> (Off_Add a b) = offset_value \<rho> a + offset_value \<rho> b"
| "offset_value \<rho> (Int32Scaled a w) = sint (low32 (bv_value \<rho> a)) * sint w"
| "offset_value \<rho> (Int64Scaled a w u) =
     (if u then uint (low64 (bv_value \<rho> a)) else sint (low64 (bv_value \<rho> a))) * sint w"
| "pointer_place \<rho> (Pointer block offset) =
     (let (object, position) = val_block \<rho> block in (object, position + offset_value \<rho> offset))"
| "value_place \<rho> (Pointer_Value p r) = pointer_place \<rho> p"

section \<open>Carriers\<close>

lemma low32_ucast [simp]: "low32 (ucast (x :: 32 word)) = x"
  by (rule bit_word_eqI) (simp add: bit_simps)

lemma low64_ucast [simp]: "low64 (ucast (x :: 64 word)) = x"
  by (rule bit_word_eqI) (auto simp: bit_simps)

lemma low64_ucast32 [simp]: "low64 (ucast (x :: 32 word)) = ucast x"
  by (rule bit_word_eqI) (auto simp: bit_simps)

lemma low32_ucast64 [simp]: "low32 (ucast (x :: 64 word)) = ucast x"
  by (rule bit_word_eqI) (auto simp: bit_simps)

lemma low32_low64: "low32 w = ucast (low64 w)"
  by (rule bit_word_eqI) (auto simp: bit_simps)

lemma low32_binary:
  "binary32 op = Some f \<Longrightarrow>
   low32 (bv_value \<rho> (Binary op a b)) = f (low32 (bv_value \<rho> a)) (low32 (bv_value \<rho> b))"
  by simp

lemma low64_binary:
  "binary64 op = Some f \<Longrightarrow> binary32 op = None \<Longrightarrow>
   low64 (bv_value \<rho> (Binary op a b)) = f (low64 (bv_value \<rho> a)) (low64 (bv_value \<rho> b))"
  by simp

end
