(* ===== verification/TermWidth.thy ===== *)
theory TermWidth
  imports Denotation
begin

text \<open>
  The carrier width a term implies: \<^verbatim>\<open>src/src/kernel/primitives/term_width.rs\<close>.
  An error names the first place the widths disagree. The collection of variable widths
  (a thread-local list that is empty in every other use) is not modelled.
\<close>

section \<open>Widths\<close>

datatype carrier_width = Width32 | Width64 | Width128

definition of_bits :: "nat \<Rightarrow> carrier_width" where
  "of_bits bits = (if bits \<le> 32 then Width32 else if bits \<le> 64 then Width64 else Width128)"

definition of_machine_type :: "machine_integer_type \<Rightarrow> carrier_width" where
  "of_machine_type ty = of_bits (format_bits (type_format ty))"

definition of_load :: "load_kind \<Rightarrow> carrier_width" where
  "of_load kind =
     (if kind \<in> {Load_Int8, Load_UInt8, Load_Int16, Load_UInt16, Load_Bits32, Load_Float32}
      then Width32
      else if kind \<in> {Load_Bits64, Load_Float64} then Width64
      else Width128)"

record width_mismatch =
  mismatch_site :: string
  mismatch_expected :: carrier_width
  mismatch_found :: carrier_width

type_synonym width_result = "width_mismatch + carrier_width option"

section \<open>Inference\<close>

text \<open>
  The helpers of the inference take a term beside the result already inferred for it.
\<close>

definition expect_width ::
  "string \<Rightarrow> carrier_width \<Rightarrow> 'x bv \<times> width_result \<Rightarrow> width_mismatch + unit" where
  "expect_width site expected operand =
     (case fst operand of
        Variable _ \<Rightarrow> Inr ()
      | _ \<Rightarrow>
          attempt (snd operand)
            (\<lambda>w. case w of
               Some found \<Rightarrow>
                 if found \<noteq> expected
                 then Inl \<lparr>mismatch_site = site, mismatch_expected = expected, mismatch_found = found\<rparr>
                 else Inr ()
             | None \<Rightarrow> Inr ()))"

fun operands :: "string \<Rightarrow> carrier_width \<Rightarrow> ('x bv \<times> width_result) list \<Rightarrow> width_result" where
  "operands site width [] = Inr (Some width)"
| "operands site width (t # ts) = attempt (expect_width site width t) (\<lambda>_. operands site width ts)"

definition unify :: "string \<Rightarrow> carrier_width option \<Rightarrow> carrier_width option \<Rightarrow> width_result" where
  "unify site left right =
     (case (left, right) of
        (Some l, Some r) \<Rightarrow>
          if l \<noteq> r
          then Inl \<lparr>mismatch_site = site, mismatch_expected = l, mismatch_found = r\<rparr>
          else Inr (Some l)
      | (Some w, None) \<Rightarrow> Inr (Some w)
      | (None, Some w) \<Rightarrow> Inr (Some w)
      | (None, None) \<Rightarrow> Inr None)"

fun all_agree :: "width_result list \<Rightarrow> width_result" where
  "all_agree [] = Inr None"
| "all_agree (r # rs) = attempt r (\<lambda>_. all_agree rs)"

definition word_operators :: "binary_operator set" where
  "word_operators = {Op_Add, Op_Subtract, Op_Multiply, Op_Divide, Op_UnsignedDivide, Op_Remainder,
     Op_UnsignedRemainder, Op_ShiftLeft, Op_ArithmeticShiftRight, Op_LogicalShiftRight,
     Op_BitwiseAnd, Op_BitwiseOr, Op_BitwiseXor}"

definition wide_shifts :: "binary_operator set" where
  "wide_shifts = {Op_Int64ShiftLeft, Op_Int64ArithmeticShiftRight, Op_UInt64ShiftLeft,
     Op_UInt64LogicalShiftRight}"

definition binary_width ::
  "binary_operator \<Rightarrow> 'x bv \<times> width_result \<Rightarrow> 'x bv \<times> width_result \<Rightarrow> width_result" where
  "binary_width op l r =
     (case op of
        Op_Float32Binary _ \<Rightarrow> operands ''float32 operator'' Width32 [l, r]
      | Op_Float64Binary _ \<Rightarrow> operands ''float64 operator'' Width64 [l, r]
      | _ \<Rightarrow>
          if op \<in> word_operators then operands ''32-bit operator'' Width32 [l, r]
          else if op \<in> wide_shifts
          then attempt (snd r) (\<lambda>_. operands ''64-bit shift'' Width64 [l])
          else operands ''64-bit operator'' Width64 [l, r])"

definition unary_width :: "unary_operator \<Rightarrow> 'x bv \<times> width_result \<Rightarrow> width_result" where
  "unary_width op v =
     (case op of
        Op_BitwiseNot \<Rightarrow> operands ''32-bit operator'' Width32 [v]
      | Op_UInt32From64 \<Rightarrow>
          attempt (expect_width ''64-to-32-bit conversion'' Width64 v) (\<lambda>_. Inr (Some Width32))
      | Op_UInt64FromInt64 \<Rightarrow> operands ''64-bit conversion'' Width64 [v]
      | Op_Int64BitwiseNot \<Rightarrow> operands ''64-bit operator'' Width64 [v]
      | Op_UInt64BitwiseNot \<Rightarrow> operands ''64-bit operator'' Width64 [v]
      | Op_Float32Negate \<Rightarrow> operands ''float32 operator'' Width32 [v]
      | Op_Float64Negate \<Rightarrow> operands ''float64 operator'' Width64 [v]
      | _ \<Rightarrow>
          attempt (expect_width ''32-to-64-bit conversion'' Width32 v) (\<lambda>_. Inr (Some Width64)))"

definition if_width ::
  "width_mismatch option \<Rightarrow> 'x bv \<times> width_result \<Rightarrow> 'x bv \<times> width_result \<Rightarrow> width_result" where
  "if_width condition t e =
     (case condition of
        Some mismatch \<Rightarrow> Inl mismatch
      | None \<Rightarrow>
          attempt (snd t) (\<lambda>tw. attempt (snd e) (\<lambda>ew. attempt (unify ''If arms'' tw ew) (\<lambda>width.
            case width of
              None \<Rightarrow> Inr None
            | Some w \<Rightarrow>
                attempt (expect_width ''If arms'' w t) (\<lambda>_.
                attempt (expect_width ''If arms'' w e) (\<lambda>_. Inr (Some w)))))))"

definition comparison_width :: "comparison \<Rightarrow> string \<times> carrier_width" where
  "comparison_width op =
     (if op \<in> {Op_Bitvector32SignedLessThan, Op_Bitvector32SignedLessEqual,
               Op_Bitvector32SignedGreaterThan, Op_Bitvector32SignedGreaterEqual,
               Op_Bitvector32Equal, Op_Bitvector32SignedAddOverflows,
               Op_Bitvector32SignedSubtractOverflows, Op_Bitvector32SignedMultiplyOverflows,
               Op_Bitvector32SignedDivideOverflows}
      then (''32-bit comparison'', Width32) else (''64-bit comparison'', Width64))"

definition is_load :: "'x bv \<Rightarrow> bool" where
  "is_load t = (case t of MemoryLoad _ _ _ \<Rightarrow> True | _ \<Rightarrow> False)"

definition error_of :: "'e + 'a \<Rightarrow> 'e option" where
  "error_of r = (case r of Inl e \<Rightarrow> Some e | Inr _ \<Rightarrow> None)"

definition compare_mismatch ::
  "comparison \<Rightarrow> 'x bv \<times> width_result \<Rightarrow> 'x bv \<times> width_result \<Rightarrow> width_mismatch option" where
  "compare_mismatch op l r =
     (if op = Op_Bitvector32Equal \<and> (is_load (fst l) \<or> is_load (fst r)) then
        error_of (attempt (snd l) (\<lambda>lw. attempt (snd r) (\<lambda>rw. unify ''load equation'' lw rw)))
      else if op = Op_Bitvector32SignedShiftLeftOverflows then
        error_of (attempt (snd r) (\<lambda>_. expect_width ''32-bit shift overflow'' Width32 l))
      else if op = Op_Bitvector64SignedShiftLeftOverflows then
        error_of (attempt (snd r) (\<lambda>_. expect_width ''64-bit shift overflow'' Width64 l))
      else
        (let (site, width) = comparison_width op
         in error_of (attempt (expect_width site width l) (\<lambda>_. expect_width site width r))))"

primrec term_width :: "'x bv \<Rightarrow> width_result"
  and condition_width_mismatch :: "'x cond \<Rightarrow> width_mismatch option"
where
  "term_width (Constant w) = Inr (Some Width32)"
| "term_width (Int64Constant w) = Inr (Some Width64)"
| "term_width (UInt64Constant w) = Inr (Some Width64)"
| "term_width (MachineIntegerConstant c) = Inr (Some (of_bits (format_bits (const_format c))))"
| "term_width (Variable x) = Inr None"
| "term_width (Binary op l r) = binary_width op (l, term_width l) (r, term_width r)"
| "term_width (Unary op v) = unary_width op (v, term_width v)"
| "term_width (If_Term c t e) =
     if_width (condition_width_mismatch c) (t, term_width t) (e, term_width e)"
| "term_width (RangeFold start end initial accumulator item body) =
     attempt (term_width start) (\<lambda>s. attempt (term_width end) (\<lambda>e.
     attempt (unify ''RangeFold bounds'' s e) (\<lambda>_.
     attempt (term_width initial) (\<lambda>i. attempt (term_width body) (\<lambda>b.
       unify ''RangeFold value'' i b)))))"
| "term_width (PureFunctionApplication name arguments) = all_agree (map term_width arguments)"
| "term_width (ClickFunctionApplication name arguments) = Inr None"
| "term_width (AlgebraicMatch scrutinee arms) = Inr None"
| "term_width (MemoryLoad memory pointer kind) = Inr (Some (of_load kind))"
| "term_width (PointerAddress pointer) = Inr None"
| "term_width (IntegerToMachine value destination) = Inr (Some (of_machine_type destination))"
| "term_width (MachineIntegerCast value source destination) =
     attempt (expect_width ''MachineIntegerCast operand'' (of_machine_type source) (value, term_width value))
       (\<lambda>_. Inr (Some (of_machine_type destination)))"
| "condition_width_mismatch (Cond_Constant b) = None"
| "condition_width_mismatch (Cond_Variable x) = None"
| "condition_width_mismatch (AlgebraicEqual x y) = None"
| "condition_width_mismatch (Compare op l r) =
     compare_mismatch op (l, term_width l) (r, term_width r)"
| "condition_width_mismatch (Float32_Condition f) = None"
| "condition_width_mismatch (Float64_Condition f) = None"
| "condition_width_mismatch (PointerOffsetEqual a b) = None"
| "condition_width_mismatch (PointerEqual a b) = None"
| "condition_width_mismatch (PointerValueEqual a b) = None"
| "condition_width_mismatch (Integer_Compare op x y) = None"

section \<open>Terms whose widths agree\<close>

text \<open>A term may stand where a carrier of a width is expected.\<close>

definition consistent :: "'x bv \<Rightarrow> bool" where
  "consistent t \<longleftrightarrow> (\<exists>w. term_width t = Inr w)"

definition carries :: "carrier_width \<Rightarrow> 'x bv \<Rightarrow> bool" where
  "carries w t \<longleftrightarrow> term_width t = Inr None \<or> term_width t = Inr (Some w)"

lemma carries_consistent: "carries w t \<Longrightarrow> consistent t"
  by (auto simp: carries_def consistent_def)

lemma expect_width_ok [simp]:
  "expect_width site w (t, term_width t) = Inr u \<longleftrightarrow> carries w t"
proof (cases "term_width t")
  case (Inl e)
  then show ?thesis by (cases t) (auto simp: expect_width_def carries_def)
next
  case (Inr x)
  then show ?thesis
    by (cases t; cases x) (auto simp: expect_width_def carries_def split: if_splits)
qed

lemma operands_ok [simp]:
  "operands site w [(l, term_width l)] = Inr v \<longleftrightarrow> v = Some w \<and> carries w l"
  "operands site w [(l, term_width l), (r, term_width r)] = Inr v
     \<longleftrightarrow> v = Some w \<and> carries w l \<and> carries w r"
  by (auto simp: attempt_Inr)

declare operands.simps [simp del]

lemma unify_ok: "unify site l r = Inr v \<longleftrightarrow>
    (l = v \<and> r = v) \<or> (l = None \<and> r = v) \<or> (l = v \<and> r = None)"
  by (auto simp: unify_def split: option.splits if_splits)

lemma consistent_word:
  assumes "op \<in> word_operators"
  shows "term_width (Binary op l r) = Inr v \<longleftrightarrow> v = Some Width32 \<and> carries Width32 l \<and> carries Width32 r"
  using assms by (auto simp: binary_width_def word_operators_def)

lemma consistent_shift:
  assumes "op \<in> wide_shifts"
  shows "term_width (Binary op l r) = Inr v \<longleftrightarrow> v = Some Width64 \<and> carries Width64 l \<and> consistent r"
proof -
  have "term_width (Binary op l r) = attempt (term_width r) (\<lambda>_. operands ''64-bit shift'' Width64 [(l, term_width l)])"
    using assms by (auto simp: binary_width_def wide_shifts_def word_operators_def)
  then show ?thesis by (auto simp: attempt_Inr consistent_def)
qed

lemma consistent_wide:
  assumes "op \<notin> word_operators" "op \<notin> wide_shifts" "\<nexists>f. op = Op_Float32Binary f"
  shows "term_width (Binary op l r) = Inr v \<longleftrightarrow> v = Some Width64 \<and> carries Width64 l \<and> carries Width64 r"
  using assms by (cases op) (auto simp: binary_width_def)

lemma consistent_unary:
  "term_width (Unary op v) = Inr w \<longleftrightarrow>
     (case op of
        Op_BitwiseNot \<Rightarrow> w = Some Width32 \<and> carries Width32 v
      | Op_Float32Negate \<Rightarrow> w = Some Width32 \<and> carries Width32 v
      | Op_UInt32From64 \<Rightarrow> w = Some Width32 \<and> carries Width64 v
      | Op_UInt64FromInt64 \<Rightarrow> w = Some Width64 \<and> carries Width64 v
      | Op_Int64BitwiseNot \<Rightarrow> w = Some Width64 \<and> carries Width64 v
      | Op_UInt64BitwiseNot \<Rightarrow> w = Some Width64 \<and> carries Width64 v
      | Op_Float64Negate \<Rightarrow> w = Some Width64 \<and> carries Width64 v
      | _ \<Rightarrow> w = Some Width64 \<and> carries Width32 v)"
  by (cases op) (auto simp: unary_width_def attempt_Inr operands_ok)

lemma if_width_ok:
  "if_width m (t, term_width t) (e, term_width e) = Inr w \<longleftrightarrow>
     m = None \<and>
     (case w of
        None \<Rightarrow> term_width t = Inr None \<and> term_width e = Inr None
      | Some x \<Rightarrow> carries x t \<and> carries x e
          \<and> (term_width t \<noteq> Inr None \<or> term_width e \<noteq> Inr None))"
proof (cases m)
  case None
  show ?thesis
  proof (cases "consistent t \<and> consistent e")
    case True
    then obtain v u where v: "term_width t = Inr v" "term_width e = Inr u" by (auto simp: consistent_def)
    show ?thesis
      using None v expect_width_ok [of _ _ t] expect_width_ok [of _ _ e]
      by (cases v; cases u; cases w)
        (auto simp: if_width_def unify_def attempt_Inr carries_def split: if_splits)
  next
    case False
    then show ?thesis
      using None carries_consistent [of _ t] carries_consistent [of _ e]
      by (cases w) (auto simp: if_width_def attempt_Inr consistent_def)
  qed
qed (simp add: if_width_def)

lemma consistent_if:
  assumes "consistent (If_Term c t e)"
  shows "consistent t" "consistent e"
proof -
  obtain w where w: "if_width (condition_width_mismatch c) (t, term_width t) (e, term_width e) = Inr w"
    using assms by (auto simp: consistent_def)
  show "consistent t" "consistent e"
    using w carries_consistent [of _ t] carries_consistent [of _ e]
    by (auto simp: if_width_ok consistent_def split: option.splits)
qed

lemma carries_if:
  "carries w (If_Term c t e) \<longleftrightarrow>
     condition_width_mismatch c = None \<and> carries w t \<and> carries w e"
  unfolding carries_def [of w "If_Term c t e"] term_width.simps if_width_ok
  by (auto simp: carries_def)

lemma carries_constant [simp]:
  "carries w (Constant c) \<longleftrightarrow> w = Width32"
  "carries w (Int64Constant d) \<longleftrightarrow> w = Width64"
  "carries w (UInt64Constant d) \<longleftrightarrow> w = Width64"
  "carries w (Variable x)"
  "carries w (PointerAddress p)"
  by (auto simp: carries_def)

lemma carries_word:
  "op \<in> word_operators \<Longrightarrow>
   carries w (Binary op l r) \<longleftrightarrow> w = Width32 \<and> carries Width32 l \<and> carries Width32 r"
  unfolding carries_def [of w "Binary op l r"] consistent_word by auto

lemma carries_shift:
  "op \<in> wide_shifts \<Longrightarrow>
   carries w (Binary op l r) \<longleftrightarrow> w = Width64 \<and> carries Width64 l \<and> consistent r"
  unfolding carries_def [of w "Binary op l r"] consistent_shift by auto

lemma carries_wide:
  "\<lbrakk>op \<notin> word_operators; op \<notin> wide_shifts; \<nexists>f. op = Op_Float32Binary f\<rbrakk> \<Longrightarrow>
   carries w (Binary op l r) \<longleftrightarrow> w = Width64 \<and> carries Width64 l \<and> carries Width64 r"
  unfolding carries_def [of w "Binary op l r"] using consistent_wide by blast

lemma carries_unary:
  "carries w (Unary op v) \<longleftrightarrow> term_width (Unary op v) = Inr (Some w)"
  unfolding carries_def consistent_unary by (cases op) auto

lemma consistent_constant [simp]:
  "consistent (Constant c)" "consistent (Int64Constant d)" "consistent (UInt64Constant d)"
  "consistent (Variable x)" "consistent (PointerAddress p)"
  by (auto simp: consistent_def)

lemmas width_rules = term_width.simps(6-8)

declare width_rules [simp del]

end
