(* ===== verification/TermFolds.thy ===== *)
theory TermFolds
  imports TermWidth
begin

unbundle bit_operations_syntax

text \<open>
  Constant folding: the checked constant operations and \<^verbatim>\<open>as_const\<close>,
  \<^verbatim>\<open>int64_constant\<close> and \<^verbatim>\<open>uint64_constant\<close> of
  \<^verbatim>\<open>src/src/kernel/primitives/term_operations.rs\<close>. A folded constant is the
  value of the term; the 64-bit folds need the term's widths to agree, and the null
  pointer to have address zero.
\<close>

section \<open>Checked operations on constants\<close>

definition checked_machine_div_rem_const ::
  "machine_integer_type \<Rightarrow> 128 word \<Rightarrow> 128 word \<Rightarrow> (128 word \<times> 128 word) option" where
  "checked_machine_div_rem_const ty left right =
     (case from_bits (type_format ty) left of
        None \<Rightarrow> None
      | Some left \<Rightarrow>
          (case from_bits (type_format ty) right of
             None \<Rightarrow> None
           | Some right \<Rightarrow>
               (case truncating_div_rem left right of
                  Some (Inr (q, r)) \<Rightarrow> Some (const_bits q, const_bits r)
                | _ \<Rightarrow> None)))"

definition checked_signed_divide_const :: "32 word \<Rightarrow> 32 word \<Rightarrow> 32 word option" where
  "checked_signed_divide_const left right =
     map_option (\<lambda>(q, _). ucast q)
       (checked_machine_div_rem_const MInt32 (ucast left) (ucast right))"

definition checked_signed_remainder_const :: "32 word \<Rightarrow> 32 word \<Rightarrow> 32 word option" where
  "checked_signed_remainder_const left right =
     map_option (\<lambda>(_, r). ucast r)
       (checked_machine_div_rem_const MInt32 (ucast left) (ucast right))"

definition checked_unsigned_divide_const :: "32 word \<Rightarrow> 32 word \<Rightarrow> 32 word option" where
  "checked_unsigned_divide_const left right =
     map_option (\<lambda>(q, _). ucast q)
       (checked_machine_div_rem_const MUInt32 (ucast left) (ucast right))"

definition checked_unsigned_remainder_const :: "32 word \<Rightarrow> 32 word \<Rightarrow> 32 word option" where
  "checked_unsigned_remainder_const left right =
     map_option (\<lambda>(_, r). ucast r)
       (checked_machine_div_rem_const MUInt32 (ucast left) (ucast right))"

definition checked_int64_divide_const :: "64 word \<Rightarrow> 64 word \<Rightarrow> 64 word option" where
  "checked_int64_divide_const left right =
     map_option (\<lambda>(q, _). ucast q)
       (checked_machine_div_rem_const MInt64 (ucast left) (ucast right))"

definition checked_int64_remainder_const :: "64 word \<Rightarrow> 64 word \<Rightarrow> 64 word option" where
  "checked_int64_remainder_const left right =
     map_option (\<lambda>(_, r). ucast r)
       (checked_machine_div_rem_const MInt64 (ucast left) (ucast right))"

definition checked_uint64_divide_const :: "64 word \<Rightarrow> 64 word \<Rightarrow> 64 word option" where
  "checked_uint64_divide_const left right =
     map_option (\<lambda>(q, _). ucast q)
       (checked_machine_div_rem_const MUInt64 (ucast left) (ucast right))"

definition checked_uint64_remainder_const :: "64 word \<Rightarrow> 64 word \<Rightarrow> 64 word option" where
  "checked_uint64_remainder_const left right =
     map_option (\<lambda>(_, r). ucast r)
       (checked_machine_div_rem_const MUInt64 (ucast left) (ucast right))"

definition checked_shift_count_const :: "32 word \<Rightarrow> 32 word option" where
  "checked_shift_count_const count =
     (if 0 \<le> sint count \<and> sint count < 32 then Some count else None)"

text \<open>A shift of an \<^verbatim>\<open>i64\<close> by a count the caller has checked.\<close>

definition shifted_i64 :: "32 word \<Rightarrow> 32 word \<Rightarrow> 64 word" where
  "shifted_i64 left count = push_bit (unat count) (scast left)"

definition checked_signed_shift_left_const :: "32 word \<Rightarrow> 32 word \<Rightarrow> 32 word option" where
  "checked_signed_shift_left_const left right =
     (case checked_shift_count_const right of
        None \<Rightarrow> None
      | Some count \<Rightarrow>
          if sint left < 0 then None
          else
            (let shifted = shifted_i64 left count
             in if sint shifted \<le> 2 ^ 31 - 1 then Some (ucast shifted) else None))"

definition checked_arithmetic_shift_right_const :: "32 word \<Rightarrow> 32 word \<Rightarrow> 32 word option" where
  "checked_arithmetic_shift_right_const left right =
     map_option (\<lambda>count. signed_drop_bit (unat count) left) (checked_shift_count_const right)"

definition checked_logical_shift_right_const :: "32 word \<Rightarrow> 32 word \<Rightarrow> 32 word option" where
  "checked_logical_shift_right_const left right =
     map_option (\<lambda>count. drop_bit (unat count) left) (checked_shift_count_const right)"

definition signed_shift_left_overflows_const :: "32 word \<Rightarrow> 32 word \<Rightarrow> bool option" where
  "signed_shift_left_overflows_const left right =
     (case checked_shift_count_const right of
        None \<Rightarrow> None
      | Some count \<Rightarrow>
          if sint left < 0 then Some False
          else Some (sint (shifted_i64 left count) > 2 ^ 31 - 1))"

text \<open>\<open>i64::checked_add\<close>, \<open>checked_sub\<close> and \<open>checked_mul\<close>.\<close>

definition i64_checked :: "(int \<Rightarrow> int \<Rightarrow> int) \<Rightarrow> 64 word \<Rightarrow> 64 word \<Rightarrow> 64 word option" where
  "i64_checked f left right =
     (let value = f (sint left) (sint right)
      in if - (2 ^ 63) \<le> value \<and> value < 2 ^ 63 then Some (word_of_int value) else None)"

section \<open>Folding 32-bit terms\<close>

definition fold32 :: "binary_operator \<Rightarrow> 32 word \<Rightarrow> 32 word \<Rightarrow> 32 word option" where
  "fold32 op left right = (case op of
     Op_Add \<Rightarrow> Some (left + right)
   | Op_Subtract \<Rightarrow> Some (left - right)
   | Op_Multiply \<Rightarrow> Some (left * right)
   | Op_Divide \<Rightarrow> checked_signed_divide_const left right
   | Op_UnsignedDivide \<Rightarrow> checked_unsigned_divide_const left right
   | Op_Remainder \<Rightarrow> checked_signed_remainder_const left right
   | Op_UnsignedRemainder \<Rightarrow> checked_unsigned_remainder_const left right
   | Op_ShiftLeft \<Rightarrow>
       map_option (\<lambda>count. push_bit (unat count) left) (checked_shift_count_const right)
   | Op_ArithmeticShiftRight \<Rightarrow> checked_arithmetic_shift_right_const left right
   | Op_LogicalShiftRight \<Rightarrow> checked_logical_shift_right_const left right
   | Op_BitwiseAnd \<Rightarrow> Some (left AND right)
   | Op_BitwiseOr \<Rightarrow> Some (left OR right)
   | Op_BitwiseXor \<Rightarrow> Some (left XOR right)
   | _ \<Rightarrow> None)"

fun as_const :: "'x bv \<Rightarrow> 32 word option" where
  "as_const (Constant w) = Some w"
| "as_const (Binary op left right) =
     (case as_const left of
        None \<Rightarrow> None
      | Some l \<Rightarrow> (case as_const right of None \<Rightarrow> None | Some r \<Rightarrow> fold32 op l r))"
| "as_const (Unary op v) = (if op = Op_BitwiseNot then map_option NOT (as_const v) else None)"
| "as_const (If_Term c t e) =
     (case c of Cond_Constant b \<Rightarrow> if b then as_const t else as_const e | _ \<Rightarrow> None)"
| "as_const t = None"

section \<open>Folding 64-bit terms\<close>

definition null_pointer :: "'x pointer" where
  "null_pointer = Pointer (Concrete ''null'') (Off_Constant 0)"

definition int64_shift_count_constant :: "'x bv \<Rightarrow> 32 word option" where
  "int64_shift_count_constant t =
     (case (case t of
              Constant w \<Rightarrow> Some (ucast w)
            | Int64Constant w \<Rightarrow> if 0 \<le> sint w then Some w else None
            | UInt64Constant w \<Rightarrow> Some w
            | _ \<Rightarrow> None) of
        None \<Rightarrow> None
      | Some (w :: 64 word) \<Rightarrow> if uint w < 2 ^ 32 then Some (ucast w) else None)"

definition fold_uint64 :: "binary_operator \<Rightarrow> 64 word \<Rightarrow> 64 word \<Rightarrow> 64 word option" where
  "fold_uint64 op left right = (case op of
     Op_UInt64Add \<Rightarrow> Some (left + right)
   | Op_UInt64Subtract \<Rightarrow> Some (left - right)
   | Op_UInt64Multiply \<Rightarrow> Some (left * right)
   | Op_UInt64Divide \<Rightarrow> checked_uint64_divide_const left right
   | Op_UInt64Remainder \<Rightarrow> checked_uint64_remainder_const left right
   | Op_UInt64BitwiseAnd \<Rightarrow> Some (left AND right)
   | Op_UInt64BitwiseOr \<Rightarrow> Some (left OR right)
   | Op_UInt64BitwiseXor \<Rightarrow> Some (left XOR right)
   | _ \<Rightarrow> None)"

definition fold_uint64_shift :: "binary_operator \<Rightarrow> 64 word \<Rightarrow> 32 word \<Rightarrow> 64 word option" where
  "fold_uint64_shift op left count =
     (if unat count < 64 then
        (if op = Op_UInt64ShiftLeft then Some (push_bit (unat count) left)
         else Some (drop_bit (unat count) left))
      else None)"

fun uint64_constant :: "'x bv \<Rightarrow> 64 word option" where
  "uint64_constant (UInt64Constant w) = Some w"
| "uint64_constant (PointerAddress p) = (if p = null_pointer then Some 0 else None)"
| "uint64_constant (Unary op v) = (case op of
     Op_UInt64From32 \<Rightarrow> (case v of Constant w \<Rightarrow> Some (ucast w) | _ \<Rightarrow> uint64_constant v)
   | Op_UInt64FromInt32 \<Rightarrow> (case v of Constant w \<Rightarrow> Some (scast w) | _ \<Rightarrow> uint64_constant v)
   | Op_UInt64FromInt64 \<Rightarrow> (case v of Int64Constant w \<Rightarrow> Some w | _ \<Rightarrow> uint64_constant v)
   | Op_UInt64BitwiseNot \<Rightarrow> map_option NOT (uint64_constant v)
   | _ \<Rightarrow> None)"
| "uint64_constant (Binary op left right) =
     (if op \<in> {Op_UInt64ShiftLeft, Op_UInt64LogicalShiftRight} then
        (case int64_shift_count_constant right of
           None \<Rightarrow> None
         | Some count \<Rightarrow>
             (case uint64_constant left of
                None \<Rightarrow> None
              | Some l \<Rightarrow> fold_uint64_shift op l count))
      else
        (case uint64_constant left of
           None \<Rightarrow> None
         | Some l \<Rightarrow> (case uint64_constant right of None \<Rightarrow> None | Some r \<Rightarrow> fold_uint64 op l r)))"
| "uint64_constant (If_Term c t e) =
     (case c of Cond_Constant b \<Rightarrow> if b then uint64_constant t else uint64_constant e | _ \<Rightarrow> None)"
| "uint64_constant t = None"

definition int64_operators :: "binary_operator set" where
  "int64_operators = {Op_Int64Add, Op_Int64Subtract, Op_Int64Multiply, Op_Int64Divide,
     Op_Int64Remainder, Op_Int64BitwiseAnd, Op_Int64BitwiseOr, Op_Int64BitwiseXor}"

definition fold_int64 :: "binary_operator \<Rightarrow> 64 word \<Rightarrow> 64 word \<Rightarrow> 64 word option" where
  "fold_int64 op left right = (case op of
     Op_Int64Add \<Rightarrow> i64_checked (+) left right
   | Op_Int64Subtract \<Rightarrow> i64_checked (-) left right
   | Op_Int64Multiply \<Rightarrow> i64_checked (*) left right
   | Op_Int64Divide \<Rightarrow> checked_int64_divide_const left right
   | Op_Int64Remainder \<Rightarrow> checked_int64_remainder_const left right
   | Op_Int64BitwiseAnd \<Rightarrow> Some (left AND right)
   | Op_Int64BitwiseOr \<Rightarrow> Some (left OR right)
   | Op_Int64BitwiseXor \<Rightarrow> Some (left XOR right)
   | _ \<Rightarrow> None)"

text \<open>
  Rust's \<open>checked_shl\<close> refuses only a count of the width or more: bits shifted out are
  lost without notice.
\<close>

definition fold_int64_shift :: "binary_operator \<Rightarrow> 64 word \<Rightarrow> 32 word \<Rightarrow> 64 word option" where
  "fold_int64_shift op left count =
     (if op = Op_Int64ShiftLeft then
        (if 0 \<le> sint left \<and> unat count < 64 then
           (let value = push_bit (unat count) left in if 0 \<le> sint value then Some value else None)
         else None)
      else if unat count < 64 then Some (signed_drop_bit (unat count) left)
      else None)"

fun int64_constant :: "'x bv \<Rightarrow> 64 word option" where
  "int64_constant (Int64Constant w) = Some w"
| "int64_constant (Unary op v) = (case op of
     Op_Int64From32 \<Rightarrow> (case v of Constant w \<Rightarrow> Some (scast w) | _ \<Rightarrow> int64_constant v)
   | Op_Int64FromUInt32 \<Rightarrow> (case v of Constant w \<Rightarrow> Some (ucast w) | _ \<Rightarrow> int64_constant v)
   | Op_Int64BitwiseNot \<Rightarrow> map_option NOT (int64_constant v)
   | _ \<Rightarrow> uint64_constant (Unary op v))"
| "int64_constant (Binary op left right) =
     (if op \<in> int64_operators then
        (case int64_constant left of
           None \<Rightarrow> None
         | Some l \<Rightarrow> (case int64_constant right of None \<Rightarrow> None | Some r \<Rightarrow> fold_int64 op l r))
      else if op \<in> {Op_Int64ShiftLeft, Op_Int64ArithmeticShiftRight} then
        (case int64_constant left of
           None \<Rightarrow> None
         | Some l \<Rightarrow>
             (case int64_shift_count_constant right of
                None \<Rightarrow> None
              | Some count \<Rightarrow> fold_int64_shift op l count))
      else uint64_constant (Binary op left right))"
| "int64_constant (If_Term c t e) =
     (case c of Cond_Constant b \<Rightarrow> if b then int64_constant t else int64_constant e | _ \<Rightarrow> None)"
| "int64_constant t = uint64_constant t"

definition bitvector64_as_const :: "'x bv \<Rightarrow> 64 word option" where
  "bitvector64_as_const t = (case uint64_constant t of Some w \<Rightarrow> Some w | None \<Rightarrow> int64_constant t)"

section \<open>The checked operations are exact\<close>

lemma machine_div_rem_const:
  assumes "from_bits (type_format ty) left = Some a" "from_bits (type_format ty) right = Some b"
  shows "checked_machine_div_rem_const ty left right =
    (if to_integer b = 0 \<or> \<not> representable (type_format ty) (to_integer a sdiv to_integer b) then None
     else Some (const_bits (constant_of (type_format ty) (to_integer a sdiv to_integer b)),
                const_bits (constant_of (type_format ty) (to_integer a smod to_integer b))))"
proof -
  have f: "wf_const a" "wf_const b" "const_format a = type_format ty" "const_format b = type_format ty"
    using assms by (auto simp: from_bits_def wf_const_def le_format_mask_iff split: if_splits)
  show ?thesis
    unfolding checked_machine_div_rem_const_def assms
    by (simp add: truncating_division_exact [OF f(1,2)] f(3,4))
qed

lemma constant_word:
  "format_bits f = LENGTH('a) \<Longrightarrow>
   (ucast (const_bits (constant_of f v)) :: 'a::len word) = word_of_int v"
  using format_bits_bounds [of f]
  by (intro bit_word_eqI) (auto simp: constant_of_def bit_simps)

lemma sdiv_nonneg: "0 \<le> a \<Longrightarrow> 0 \<le> b \<Longrightarrow> a sdiv b = a div b"
  "0 \<le> a \<Longrightarrow> 0 \<le> b \<Longrightarrow> a smod b = a mod b" for a b :: int
  by (auto simp: signed_divide_int_def signed_modulo_int_def sgn_if)

text \<open>A constant read at a format of the width of a host word.\<close>

lemma host_constant:
  fixes w :: "'a::len word"
  assumes "format_bits f = LENGTH('a)" "LENGTH('a) < 128"
  shows "from_bits f (ucast w) = Some \<lparr>const_format = f, const_bits = ucast w\<rparr>"
    and "to_integer \<lparr>const_format = f, const_bits = ucast w\<rparr> = (if fmt_signed f then sint w else uint w)"
proof -
  have u: "uint (ucast w :: 128 word) = uint w" using assms(2) by (simp add: uint_up_ucast is_up)
  have "uint w < 2 ^ LENGTH('a)" by (rule uint_bounded)
  then show "from_bits f (ucast w) = Some \<lparr>const_format = f, const_bits = ucast w\<rparr>"
    by (simp add: from_bits_def le_format_mask_iff u assms(1))
  show "to_integer \<lparr>const_format = f, const_bits = ucast w\<rparr> = (if fmt_signed f then sint w else uint w)"
    by (simp add: to_integer_def sint_signed_value u assms(1) sint_uint [of w])
qed

lemma type_format_simps [simp]:
  "format_bits (type_format MInt32) = 32" "fmt_signed (type_format MInt32)"
  "format_bits (type_format MUInt32) = 32" "\<not> fmt_signed (type_format MUInt32)"
  "format_bits (type_format MInt64) = 64" "fmt_signed (type_format MInt64)"
  "format_bits (type_format MUInt64) = 64" "\<not> fmt_signed (type_format MUInt64)"
  by (simp_all add: type_format_def format_new_def format_bits_def)

lemma signed_division_const:
  "checked_signed_divide_const l r = Some v \<Longrightarrow> v = signed_div l r"
  "checked_signed_remainder_const l r = Some v \<Longrightarrow> v = signed_rem l r"
  using machine_div_rem_const [OF host_constant(1) host_constant(1), of MInt32 l r]
  by (auto simp: checked_signed_divide_const_def checked_signed_remainder_const_def host_constant(2)
      constant_word signed_div_def signed_rem_def split: if_splits)

lemma int64_division_const:
  "checked_int64_divide_const x y = Some z \<Longrightarrow> z = signed_div x y"
  "checked_int64_remainder_const x y = Some z \<Longrightarrow> z = signed_rem x y"
  using machine_div_rem_const [OF host_constant(1) host_constant(1), of MInt64 x y]
  by (auto simp: checked_int64_divide_const_def checked_int64_remainder_const_def host_constant(2)
      constant_word signed_div_def signed_rem_def split: if_splits)

lemma word_of_quotient:
  "word_of_int (uint x sdiv uint y) = x div y" "word_of_int (uint x smod uint y) = x mod y"
  for x y :: "'a::len word"
  by (simp_all add: sdiv_nonneg word_div_def word_mod_def)

lemma unsigned_division_const:
  "checked_unsigned_divide_const l r = Some v \<Longrightarrow> v = l div r"
  "checked_unsigned_remainder_const l r = Some v \<Longrightarrow> v = l mod r"
  "checked_uint64_divide_const x y = Some z \<Longrightarrow> z = x div y"
  "checked_uint64_remainder_const x y = Some z \<Longrightarrow> z = x mod y"
  using machine_div_rem_const [OF host_constant(1) host_constant(1), of MUInt32 l r]
    machine_div_rem_const [OF host_constant(1) host_constant(1), of MUInt64 x y]
  by (auto simp: checked_unsigned_divide_const_def checked_unsigned_remainder_const_def
      checked_uint64_divide_const_def checked_uint64_remainder_const_def host_constant(2)
      constant_word word_of_quotient split: if_splits)

lemma i64_checked_ops:
  "i64_checked (+) a b = Some v \<Longrightarrow> v = a + b"
  "i64_checked (-) a b = Some v \<Longrightarrow> v = a - b"
  "i64_checked (*) a b = Some v \<Longrightarrow> v = a * b"
  by (auto simp: i64_checked_def Let_def split: if_splits)

lemma fold32_sound: "fold32 op l r = Some v \<Longrightarrow> \<exists>f. binary32 op = Some f \<and> f l r = v"
  by (cases op)
    (auto simp: fold32_def binary32_def checked_shift_count_const_def checked_arithmetic_shift_right_const_def
      checked_logical_shift_right_const_def
      dest: signed_division_const unsigned_division_const split: if_splits)

lemma as_const_sound: "as_const t = Some c \<Longrightarrow> low32 (bv_value \<rho> t) = c"
proof (induction t arbitrary: c rule: as_const.induct)
  case (2 op left right)
  then obtain l r where "as_const left = Some l" "as_const right = Some r" "fold32 op l r = Some c"
    by (auto split: option.splits)
  then show ?case using 2 fold32_sound by fastforce
next
  case (3 op v)
  then show ?case by (auto simp: unary_value_def split: if_splits)
next
  case (4 c t e)
  then show ?case by (auto split: cond.splits if_splits)
qed auto

section \<open>64-bit folds\<close>

definition null_at_zero :: "'x valuation \<Rightarrow> bool" where
  "null_at_zero \<rho> \<longleftrightarrow> bv_value \<rho> (PointerAddress null_pointer) = 0"

lemma shift_count_word:
  fixes w :: "64 word"
  assumes "uint w < 2 ^ 32"
  shows "unat (ucast w :: 32 word) = unat w"
proof -
  have "int (unat w) < 2 ^ 32" using assms by (simp only: uint_nat)
  then have "unat w < 2 ^ 32" by (simp only: flip: of_nat_less_iff [where 'a = int]) simp
  then have "take_bit 32 (unat w) = unat w" by (rule take_bit_nat_eq_self)
  then show ?thesis by (simp add: unsigned_ucast_eq)
qed

lemma shift_count_sound:
  assumes "int64_shift_count_constant t = Some c"
  shows "unat (low64 (bv_value \<rho> t)) = unat c" "consistent t"
proof -
  obtain w :: "64 word" where w: "low64 (bv_value \<rho> t) = w" "uint w < 2 ^ 32" "c = ucast w" and t: "consistent t"
  proof (cases t)
    case (Constant x)
    then show ?thesis using assms by (intro that [of "ucast x"]) (auto simp: int64_shift_count_constant_def split: if_splits)
  next
    case (Int64Constant x)
    then show ?thesis using assms by (intro that [of x]) (auto simp: int64_shift_count_constant_def split: if_splits)
  next
    case (UInt64Constant x)
    then show ?thesis using assms by (intro that [of x]) (auto simp: int64_shift_count_constant_def split: if_splits)
  qed (use assms in \<open>simp_all add: int64_shift_count_constant_def\<close>)
  show "consistent t" by (rule t)
  show "unat (low64 (bv_value \<rho> t)) = unat c" using shift_count_word [OF w(2)] w(1,3) by simp
qed

lemma fold_uint64_sound: "fold_uint64 op l r = Some v \<Longrightarrow> \<exists>f. binary64 op = Some f \<and> binary32 op = None \<and> f l r = v"
  by (cases op) (auto simp: fold_uint64_def binary64_def binary32_def dest: unsigned_division_const)

lemma fold_int64_sound: "fold_int64 op l r = Some v \<Longrightarrow> \<exists>f. binary64 op = Some f \<and> binary32 op = None \<and> f l r = v"
  by (cases op)
    (auto simp: fold_int64_def binary64_def binary32_def dest: int64_division_const i64_checked_ops)

lemma fold_operators:
  "fold_uint64 op l r = Some v \<Longrightarrow> op \<notin> word_operators \<and> op \<notin> wide_shifts \<and> (\<nexists>f. op = Op_Float32Binary f)"
  "fold_int64 op l r = Some v \<Longrightarrow> op \<notin> word_operators \<and> op \<notin> wide_shifts \<and> (\<nexists>f. op = Op_Float32Binary f)"
  by (cases op; simp add: fold_uint64_def fold_int64_def word_operators_def wide_shifts_def)+

text \<open>
  A folded 64-bit constant is the term's value. A term that could stand at 32 bits
  folds only through the null address.
\<close>

definition folds_to :: "'x valuation \<Rightarrow> 'x bv \<Rightarrow> 64 word \<Rightarrow> bool" where
  "folds_to \<rho> t c \<longleftrightarrow>
     low64 (bv_value \<rho> t) = c \<and> (carries Width32 t \<longrightarrow> c = 0 \<and> bv_value \<rho> t = 0)"

lemma folds_to_unary:
  assumes "consistent (Unary op v)" and "unary_value op = Some f"
    and "low64 (f (bv_value \<rho> v)) = c" and "op \<notin> {Op_BitwiseNot, Op_UInt32From64}"
  shows "folds_to \<rho> (Unary op v) c"
  using assms carries_unary [of Width32 op v]
  by (cases op) (auto simp: folds_to_def consistent_unary unary_value_def)

lemma folds_to_binary:
  assumes "binary64 op = Some f" "binary32 op = None"
    and "f (low64 (bv_value \<rho> l)) (low64 (bv_value \<rho> r)) = c"
  shows "folds_to \<rho> (Binary op l r) c"
proof -
  have "\<not> carries Width32 (Binary op l r)"
  proof (cases "op \<in> wide_shifts")
    case True
    then show ?thesis by (simp add: carries_shift)
  next
    case False
    then show ?thesis
      using assms(1,2) carries_wide [OF _ False, of Width32 l r]
      by (cases op) (auto simp: binary64_def binary32_def word_operators_def)
  qed
  then show ?thesis using assms by (simp add: folds_to_def)
qed

lemma folds_to_if: "folds_to \<rho> (if b then t else e) c \<Longrightarrow> folds_to \<rho> (If_Term (Cond_Constant b) t e) c"
  by (auto simp: folds_to_def carries_if split: if_splits)

text \<open>The operand of a widening conversion: a constant, or a null address.\<close>

lemma folds_to_operand:
  assumes "(case v of Constant w \<Rightarrow> Some (f w) | _ \<Rightarrow> g v) = Some c" and "carries Width32 v"
    and "g v = Some c \<Longrightarrow> folds_to \<rho> v c" and "f 0 = 0"
  shows "f (low32 (bv_value \<rho> v)) = c"
proof (cases "\<exists>w. v = Constant w")
  case True
  then show ?thesis using assms(1) by auto
next
  case False
  then have "g v = Some c" using assms(1) by (cases v) auto
  then show ?thesis using assms(2-4) by (simp add: folds_to_def)
qed

lemma consistent_operand: "consistent (Unary op v) \<Longrightarrow> consistent v"
proof -
  assume "consistent (Unary op v)"
  then obtain w where "term_width (Unary op v) = Inr w" unfolding consistent_def by blast
  then have "carries Width32 v \<or> carries Width64 v" unfolding consistent_unary by (cases op) simp_all
  then show ?thesis using carries_consistent by blast
qed

lemma carries_operand:
  assumes "consistent (Unary op v)"
  shows "op \<in> {Op_Int64From32, Op_UInt64From32, Op_Int64FromUInt32, Op_UInt64FromInt32} \<Longrightarrow> carries Width32 v"
    and "op \<in> {Op_UInt64FromInt64, Op_Int64BitwiseNot, Op_UInt64BitwiseNot, Op_UInt32From64} \<Longrightarrow> carries Width64 v"
proof -
  obtain w where w: "term_width (Unary op v) = Inr w" using assms unfolding consistent_def by blast
  show "op \<in> {Op_Int64From32, Op_UInt64From32, Op_Int64FromUInt32, Op_UInt64FromInt32} \<Longrightarrow> carries Width32 v"
    and "op \<in> {Op_UInt64FromInt64, Op_Int64BitwiseNot, Op_UInt64BitwiseNot, Op_UInt32From64} \<Longrightarrow> carries Width64 v"
    using w unfolding consistent_unary by (cases op; simp)+
qed

lemma consistent_operands:
  assumes "consistent (Binary op l r)"
  shows "consistent l \<and> consistent r"
proof -
  obtain w where w: "term_width (Binary op l r) = Inr w" using assms by (auto simp: consistent_def)
  show ?thesis
  proof (cases "op \<in> wide_shifts")
    case True
    then show ?thesis using w carries_consistent by (auto simp: consistent_shift)
  next
    case shift: False
    show ?thesis
    proof (cases op)
      case (Op_Float32Binary f)
      then show ?thesis using w carries_consistent by (auto simp: width_rules binary_width_def)
    qed (use w shift carries_consistent in
        \<open>auto simp: consistent_word consistent_wide word_operators_def wide_shifts_def width_rules binary_width_def\<close>)
  qed
qed

lemma uint64_constant_unary:
  assumes c: "consistent (Unary op v)" "uint64_constant (Unary op v) = Some c"
    and IH: "\<And>c. uint64_constant v = Some c \<Longrightarrow> folds_to \<rho> v c"
  shows "folds_to \<rho> (Unary op v) c"
proof -
  consider "op = Op_UInt64From32" | "op = Op_UInt64FromInt32" | "op = Op_UInt64FromInt64" | "op = Op_UInt64BitwiseNot"
    using c(2) by (cases op) auto
  then show ?thesis
  proof cases
    case 1
    have "ucast (low32 (bv_value \<rho> v)) = c"
      by (rule folds_to_operand [where g = uint64_constant]) (use c carries_operand(1) [OF c(1)] 1 IH in auto)
    then show ?thesis by (intro folds_to_unary [OF c(1)]) (auto simp: 1 unary_value_def)
  next
    case 2
    have "scast (low32 (bv_value \<rho> v)) = c"
      by (rule folds_to_operand [where g = uint64_constant]) (use c carries_operand(1) [OF c(1)] 2 IH in auto)
    then show ?thesis by (intro folds_to_unary [OF c(1)]) (auto simp: 2 unary_value_def)
  next
    case 3
    have "low64 (bv_value \<rho> v) = c"
    proof (cases "\<exists>w. v = Int64Constant w")
      case True
      then show ?thesis using c(2) 3 by auto
    next
      case False
      then have "uint64_constant v = Some c" using c(2) 3 by (cases v) auto
      then show ?thesis using IH by (simp add: folds_to_def)
    qed
    then show ?thesis by (intro folds_to_unary [OF c(1), where f = "\<lambda>a. ucast (low64 a)"]) (auto simp: 3 unary_value_def)
  next
    case 4
    then obtain d where "uint64_constant v = Some d" "c = NOT d" using c(2) by auto
    then show ?thesis using IH by (intro folds_to_unary [OF c(1)]) (auto simp: 4 unary_value_def folds_to_def)
  qed
qed

lemma folds_value: "folds_to \<rho> t c \<Longrightarrow> low64 (bv_value \<rho> t) = c"
  by (simp add: folds_to_def)

lemma uint64_constant_binary:
  assumes c: "uint64_constant (Binary op l r) = Some c"
    and IH: "\<And>c. uint64_constant l = Some c \<Longrightarrow> folds_to \<rho> l c" "\<And>c. uint64_constant r = Some c \<Longrightarrow> folds_to \<rho> r c"
  shows "folds_to \<rho> (Binary op l r) c"
proof (cases "op \<in> {Op_UInt64ShiftLeft, Op_UInt64LogicalShiftRight}")
  case True
  then obtain n x where n: "int64_shift_count_constant r = Some n" "uint64_constant l = Some x"
    "fold_uint64_shift op x n = Some c"
    using c by (auto split: option.splits)
  then show ?thesis
    using True folds_value [OF IH(1) [OF n(2)]] shift_count_sound(1) [OF n(1), of \<rho>]
    by (auto simp: fold_uint64_shift_def binary64_def binary32_def intro!: folds_to_binary split: if_splits)
next
  case False
  then obtain x y where n: "uint64_constant l = Some x" "uint64_constant r = Some y" "fold_uint64 op x y = Some c"
    using c by (auto split: option.splits)
  obtain f where "binary64 op = Some f" "binary32 op = None" "f x y = c" using fold_uint64_sound [OF n(3)] by blast
  then show ?thesis
    using folds_value [OF IH(1) [OF n(1)]] folds_value [OF IH(2) [OF n(2)]] by (intro folds_to_binary [of op f]) auto
qed

lemma uint64_constant_sound:
  assumes z: "null_at_zero \<rho>"
  shows "consistent t \<Longrightarrow> uint64_constant t = Some c \<Longrightarrow> folds_to \<rho> t c"
proof (induction "size t" arbitrary: t c rule: less_induct)
  case less
  show ?case
  proof (cases t)
    case (UInt64Constant w)
    then show ?thesis using less.prems by (simp add: folds_to_def)
  next
    case (PointerAddress p)
    then show ?thesis using less.prems z by (auto simp: folds_to_def null_at_zero_def split: if_splits)
  next
    case (Unary op v)
    show ?thesis
      using less.prems less.hyps [of v] consistent_operand [of op v]
      unfolding Unary by (intro uint64_constant_unary) auto
  next
    case (Binary op l r)
    show ?thesis
      using less.prems less.hyps [of l] less.hyps [of r] consistent_operands [of op l r]
      unfolding Binary by (intro uint64_constant_binary) auto
  next
    case (If_Term b x y)
    then obtain v where b: "b = Cond_Constant v" "uint64_constant (if v then x else y) = Some c"
      using less.prems by (cases b) (auto simp: If_Term split: if_splits)
    have "consistent (if v then x else y)" using less.prems(1) consistent_if [of b x y] by (simp add: If_Term)
    then show ?thesis
      using less.hyps [of "if v then x else y" c] b by (auto simp: If_Term intro!: folds_to_if)
  qed (use less.prems in auto)
qed

lemma int64_constant_unary:
  assumes z: "null_at_zero \<rho>" and c: "consistent (Unary op v)" "int64_constant (Unary op v) = Some c"
    and IH: "\<And>c. int64_constant v = Some c \<Longrightarrow> folds_to \<rho> v c"
  shows "folds_to \<rho> (Unary op v) c"
proof -
  consider "op = Op_Int64From32" | "op = Op_Int64FromUInt32" | "op = Op_Int64BitwiseNot"
    | "uint64_constant (Unary op v) = Some c"
    using c(2) by (cases op) auto
  then show ?thesis
  proof cases
    case 1
    have "scast (low32 (bv_value \<rho> v)) = c"
      by (rule folds_to_operand [where g = int64_constant]) (use c carries_operand(1) [OF c(1)] 1 IH in auto)
    then show ?thesis by (intro folds_to_unary [OF c(1)]) (auto simp: 1 unary_value_def)
  next
    case 2
    have "ucast (low32 (bv_value \<rho> v)) = c"
      by (rule folds_to_operand [where g = int64_constant]) (use c carries_operand(1) [OF c(1)] 2 IH in auto)
    then show ?thesis by (intro folds_to_unary [OF c(1)]) (auto simp: 2 unary_value_def)
  next
    case 3
    then obtain d where "int64_constant v = Some d" "c = NOT d" using c(2) by auto
    then show ?thesis using IH by (intro folds_to_unary [OF c(1)]) (auto simp: 3 unary_value_def folds_to_def)
  next
    case 4
    then show ?thesis by (rule uint64_constant_sound [OF z c(1)])
  qed
qed

lemma int64_constant_binary:
  assumes z: "null_at_zero \<rho>" and c: "consistent (Binary op l r)" "int64_constant (Binary op l r) = Some c"
    and IH: "\<And>c. int64_constant l = Some c \<Longrightarrow> folds_to \<rho> l c" "\<And>c. int64_constant r = Some c \<Longrightarrow> folds_to \<rho> r c"
  shows "folds_to \<rho> (Binary op l r) c"
proof -
  consider (arith) "op \<in> int64_operators" | (shift) "op \<in> {Op_Int64ShiftLeft, Op_Int64ArithmeticShiftRight}"
    | (unsigned) "uint64_constant (Binary op l r) = Some c"
    using c(2) by (metis int64_constant.simps(3))
  then show ?thesis
  proof cases
    case arith
    then obtain x y where n: "int64_constant l = Some x" "int64_constant r = Some y" "fold_int64 op x y = Some c"
      using c(2) by (auto split: option.splits)
    obtain f where "binary64 op = Some f" "binary32 op = None" "f x y = c" using fold_int64_sound [OF n(3)] by blast
    then show ?thesis
      using folds_value [OF IH(1) [OF n(1)]] folds_value [OF IH(2) [OF n(2)]] by (intro folds_to_binary [of op f]) auto
  next
    case shift
    then obtain n x where n: "int64_shift_count_constant r = Some n" "int64_constant l = Some x"
      "fold_int64_shift op x n = Some c"
      using c(2) by (auto simp: int64_operators_def split: option.splits)
    then show ?thesis
      using shift folds_value [OF IH(1) [OF n(2)]] shift_count_sound(1) [OF n(1), of \<rho>]
      by (auto simp: fold_int64_shift_def Let_def binary64_def binary32_def intro!: folds_to_binary split: if_splits)
  next
    case unsigned
    then show ?thesis by (rule uint64_constant_sound [OF z c(1)])
  qed
qed

lemma int64_constant_sound:
  assumes z: "null_at_zero \<rho>"
  shows "consistent t \<Longrightarrow> int64_constant t = Some c \<Longrightarrow> folds_to \<rho> t c"
proof (induction "size t" arbitrary: t c rule: less_induct)
  case less
  show ?case
  proof (cases t)
    case (Int64Constant w)
    then show ?thesis using less.prems by (simp add: folds_to_def)
  next
    case (Unary op v)
    show ?thesis
      using less.prems less.hyps [of v] consistent_operand [of op v]
      unfolding Unary by (intro int64_constant_unary [OF z]) auto
  next
    case (Binary op l r)
    show ?thesis
      using less.prems less.hyps [of l] less.hyps [of r] consistent_operands [of op l r]
      unfolding Binary by (intro int64_constant_binary [OF z]) auto
  next
    case (If_Term b x y)
    then obtain v where b: "b = Cond_Constant v" "int64_constant (if v then x else y) = Some c"
      using less.prems by (cases b) (auto simp: If_Term split: if_splits)
    have "consistent (if v then x else y)" using less.prems(1) consistent_if [of b x y] by (simp add: If_Term)
    then show ?thesis
      using less.hyps [of "if v then x else y" c] b by (auto simp: If_Term intro!: folds_to_if)
  qed (use less.prems uint64_constant_sound [OF z less.prems(1)] in auto)
qed

lemma constants64:
  assumes "null_at_zero \<rho>" "consistent t"
  shows "uint64_constant t = Some c \<Longrightarrow> low64 (bv_value \<rho> t) = c"
    and "int64_constant t = Some c \<Longrightarrow> low64 (bv_value \<rho> t) = c"
    and "bitvector64_as_const t = Some c \<Longrightarrow> low64 (bv_value \<rho> t) = c"
  using uint64_constant_sound [OF assms] int64_constant_sound [OF assms] folds_value
  by (auto simp: bitvector64_as_const_def split: option.splits)

section \<open>Folding as a whole\<close>

text \<open>C24: A folded constant is the value of the term: \<open>as_const\<close> gives the low 32 bits
  of every term it folds, and the 64-bit folds the low 64 bits of every term whose widths agree,
  in every valuation that puts the null pointer at address zero. (Of a term whose widths
  disagree they may not: \<open>Int64From32 (Int64Constant w)\<close> folds to \<open>w\<close>.)\<close>

theorem folds_sound:
  assumes "null_at_zero \<rho>" "consistent t"
  shows "(as_const t = Some c \<longrightarrow> low32 (bv_value \<rho> t) = c)
    \<and> (uint64_constant t = Some d \<longrightarrow> low64 (bv_value \<rho> t) = d)
    \<and> (int64_constant t = Some d \<longrightarrow> low64 (bv_value \<rho> t) = d)"
  using as_const_sound [of t c \<rho>] constants64 [OF assms] by blast

definition zero_valuation :: "nat valuation" where
  "zero_valuation = \<lparr>val_term = \<lambda>_. 0, val_cond = \<lambda>_. False, val_block = \<lambda>_. (0, 0),
     val_object = \<lambda>_. 0, val_offset = \<lambda>_. 0, val_designation = \<lambda>_ _. True\<rparr>"

lemma zero_valuation_null: "null_at_zero zero_valuation"
  by (simp add: null_at_zero_def zero_valuation_def null_pointer_def)

theorem folds_sound_witness:
  "low64 (bv_value zero_valuation (Int64Add (Int64From32 (Constant (- 3))) (Int64Constant 10))) = 7"
proof -
  let ?t = "Int64Add (Int64From32 (Constant (- 3))) (Int64Constant 10) :: nat bv"
  have "consistent ?t"
    by (auto simp: consistent_def consistent_wide word_operators_def wide_shifts_def carries_unary consistent_unary)
  moreover have "int64_constant ?t = Some 7"
    by (simp add: int64_operators_def fold_int64_def i64_checked_def)
  ultimately show ?thesis using folds_sound [OF zero_valuation_null, of ?t _ 7] by blast
qed

end
