(* ===== verification/WordOps.thy ===== *)
theory WordOps
  imports TermFolds
begin

unbundle bit_operations_syntax

text \<open>
  The 32-bit term constructors of \<^verbatim>\<open>src/src/kernel/primitives/term_operations.rs\<close>.
  Each folds constants and cancels what it can, and otherwise builds the operator's term:
  it denotes what the operator means, and takes 32-bit operands to a 32-bit term.
\<close>

section \<open>Patterns\<close>

definition then_some :: "bool \<Rightarrow> 'a \<Rightarrow> 'a option" where
  "then_some b x = (if b then Some x else None)"

definition parts :: "binary_operator \<Rightarrow> 'x bv \<Rightarrow> ('x bv \<times> 'x bv) option" where
  "parts op t = (case t of Binary p a b \<Rightarrow> if p = op then Some (a, b) else None | _ \<Rightarrow> None)"

definition on_parts ::
  "binary_operator \<Rightarrow> 'x bv \<Rightarrow> ('x bv \<Rightarrow> 'x bv \<Rightarrow> 'a option) \<Rightarrow> 'a option" where
  "on_parts op t f = (case parts op t of None \<Rightarrow> None | Some (a, b) \<Rightarrow> f a b)"

definition constant_parts :: "'x bv \<Rightarrow> 32 word option" where
  "constant_parts t = (case t of Constant w \<Rightarrow> Some w | _ \<Rightarrow> None)"

text \<open>An arm for two constants, whose folding may decline.\<close>

definition fold_arm ::
  "binary_operator \<Rightarrow> (32 word \<Rightarrow> 32 word \<Rightarrow> 32 word option) \<Rightarrow> 'x bv \<Rightarrow> 'x bv \<Rightarrow> 'x bv option" where
  "fold_arm op f left right =
     (case (constant_parts left, constant_parts right) of
        (Some l, Some r) \<Rightarrow>
          Some (case f l r of Some v \<Rightarrow> Constant v | None \<Rightarrow> Binary op (Constant l) (Constant r))
      | _ \<Rightarrow> None)"

lemma then_some_Some [simp]: "then_some b x = Some y \<longleftrightarrow> b \<and> x = y"
  by (simp add: then_some_def)

lemma parts_Some [simp]: "parts op t = Some (a, b) \<longleftrightarrow> t = Binary op a b"
  by (cases t) (auto simp: parts_def)

lemma on_parts_cong [fundef_cong]:
  "\<lbrakk>op = op'; t = t'; \<And>a b. t' = Binary op' a b \<Longrightarrow> f a b = g a b\<rbrakk> \<Longrightarrow> on_parts op t f = on_parts op' t' g"
  by (auto simp: on_parts_def split: option.split)

lemma constant_parts_Some [simp]: "constant_parts t = Some w \<longleftrightarrow> t = Constant w"
  by (cases t) (auto simp: constant_parts_def)

section \<open>Constructors\<close>

definition subtract_one_base :: "'x bv \<Rightarrow> 'x bv option" where
  "subtract_one_base t = on_parts Op_Subtract t (\<lambda>left right. then_some (right = Constant 1) left)"

definition is_subtract_one :: "'x bv \<Rightarrow> bool" where
  "is_subtract_one t \<longleftrightarrow> subtract_one_base t \<noteq> None"

definition add_const_base :: "'x bv \<Rightarrow> 32 word \<Rightarrow> 'x bv option" where
  "add_const_base t v =
     on_parts Op_Add t (\<lambda>left right.
       if right = Constant v then Some left
       else if left = Constant v then Some right
       else None)"

definition add_const_parts :: "'x bv \<Rightarrow> ('x bv \<times> 32 word) option" where
  "add_const_parts t =
     on_parts Op_Add t (\<lambda>left right.
       case constant_parts right of
         Some v \<Rightarrow> Some (left, v)
       | None \<Rightarrow> map_option (\<lambda>v. (right, v)) (constant_parts left))"

definition subtract_const_parts :: "'x bv \<Rightarrow> ('x bv \<times> 32 word) option" where
  "subtract_const_parts t =
     on_parts Op_Subtract t (\<lambda>left right. map_option (\<lambda>v. (left, v)) (constant_parts right))"

definition add :: "'x bv \<Rightarrow> 'x bv \<Rightarrow> 'x bv" where
  "add left right =
     first_match
       [fold_arm Op_Add (\<lambda>l r. Some (l + r)) left right,
        on_parts Op_Subtract right (\<lambda>base subtrahend. then_some (subtrahend = left) base),
        on_parts Op_Subtract left (\<lambda>base subtrahend. then_some (subtrahend = right) base),
        on_parts Op_Subtract left (\<lambda>zero subtrahend. on_parts Op_Add right (\<lambda>base addend.
          then_some (zero = Constant 0 \<and> subtrahend = base) addend)),
        on_parts Op_Subtract left (\<lambda>zero subtrahend. on_parts Op_Add right (\<lambda>addend base.
          then_some (zero = Constant 0 \<and> subtrahend = base) addend)),
        on_parts Op_Add left (\<lambda>base addend. on_parts Op_Subtract right (\<lambda>zero subtrahend.
          then_some (zero = Constant 0 \<and> base = subtrahend) addend)),
        on_parts Op_Add left (\<lambda>addend base. on_parts Op_Subtract right (\<lambda>zero subtrahend.
          then_some (zero = Constant 0 \<and> base = subtrahend) addend)),
        then_some (right = Constant 0) left,
        then_some (left = Constant 0) right]
       (Add left right)"

lemma term_size_pos [simp]: "0 < size t" for t :: "'x bv"
  by (cases t) simp_all

function subtract :: "'x bv \<Rightarrow> 'x bv \<Rightarrow> 'x bv" where
  "subtract left right =
     first_match
       [fold_arm Op_Subtract (\<lambda>l r. Some (l - r)) left right,
        then_some (right = Constant 0) left,
        then_some (left = right) (Constant 0),
        on_parts Op_Add left (\<lambda>left_base left_addend. on_parts Op_Add right (\<lambda>right_base right_addend.
          if left_base = right_base then Some (subtract left_addend right_addend)
          else if left_base = right_addend then Some (subtract left_addend right_base)
          else if left_addend = right_base then Some (subtract left_base right_addend)
          else if left_addend = right_addend then Some (subtract left_base right_base)
          else None)),
        on_parts Op_Add left (\<lambda>left_base left_addend.
          if left_base = right then Some left_addend
          else if left_addend = right then Some left_base
          else None),
        on_parts Op_Add right (\<lambda>right_base right_addend.
          if left = right_base then Some (subtract (Constant 0) right_addend)
          else if left = right_addend then Some (subtract (Constant 0) right_base)
          else None)]
       (Subtract left right)"
  by pat_completeness auto
termination
  by (relation "measure (\<lambda>(l, r). size l + size r)") auto

declare subtract.simps [simp del]

definition multiply :: "'x bv \<Rightarrow> 'x bv \<Rightarrow> 'x bv" where
  "multiply left right =
     first_match
       [fold_arm Op_Multiply (\<lambda>l r. Some (l * r)) left right,
        then_some (right = Constant 1) left,
        then_some (left = Constant 1) right,
        then_some (right = Constant 0 \<or> left = Constant 0) (Constant 0)]
       (Multiply left right)"

definition divide_term :: "'x bv \<Rightarrow> 'x bv \<Rightarrow> 'x bv" where
  "divide_term left right =
     first_match
       [fold_arm Op_Divide checked_signed_divide_const left right,
        then_some (right = Constant 1) left]
       (Divide left right)"

definition unsigned_divide :: "'x bv \<Rightarrow> 'x bv \<Rightarrow> 'x bv" where
  "unsigned_divide left right =
     first_match
       [fold_arm Op_UnsignedDivide checked_unsigned_divide_const left right,
        then_some (right = Constant 1) left]
       (UnsignedDivide left right)"

definition remainder :: "'x bv \<Rightarrow> 'x bv \<Rightarrow> 'x bv" where
  "remainder left right =
     first_match [fold_arm Op_Remainder checked_signed_remainder_const left right]
       (Remainder left right)"

definition unsigned_remainder :: "'x bv \<Rightarrow> 'x bv \<Rightarrow> 'x bv" where
  "unsigned_remainder left right =
     first_match [fold_arm Op_UnsignedRemainder checked_unsigned_remainder_const left right]
       (UnsignedRemainder left right)"

definition shift_left :: "'x bv \<Rightarrow> 'x bv \<Rightarrow> 'x bv" where
  "shift_left left right =
     first_match [fold_arm Op_ShiftLeft checked_signed_shift_left_const left right]
       (ShiftLeft left right)"

definition unsigned_shift_left :: "'x bv \<Rightarrow> 'x bv \<Rightarrow> 'x bv" where
  "unsigned_shift_left left right =
     first_match
       [fold_arm Op_ShiftLeft
          (\<lambda>l r. map_option (\<lambda>count. push_bit (unat count) l) (checked_shift_count_const r)) left right,
        then_some (right = Constant 0) left]
       (ShiftLeft left right)"

definition arithmetic_shift_right :: "'x bv \<Rightarrow> 'x bv \<Rightarrow> 'x bv" where
  "arithmetic_shift_right left right =
     first_match
       [fold_arm Op_ArithmeticShiftRight checked_arithmetic_shift_right_const left right,
        then_some (right = Constant 0) left]
       (ArithmeticShiftRight left right)"

definition logical_shift_right :: "'x bv \<Rightarrow> 'x bv \<Rightarrow> 'x bv" where
  "logical_shift_right left right =
     first_match
       [fold_arm Op_LogicalShiftRight checked_logical_shift_right_const left right,
        then_some (right = Constant 0) left]
       (LogicalShiftRight left right)"

definition bitwise_and :: "'x bv \<Rightarrow> 'x bv \<Rightarrow> 'x bv" where
  "bitwise_and left right =
     first_match
       [fold_arm Op_BitwiseAnd (\<lambda>l r. Some (l AND r)) left right,
        then_some (right = Constant (- 1)) left,
        then_some (left = Constant (- 1)) right,
        then_some (right = Constant 0 \<or> left = Constant 0) (Constant 0),
        then_some (left = right) left]
       (BitwiseAnd left right)"

definition bitwise_or :: "'x bv \<Rightarrow> 'x bv \<Rightarrow> 'x bv" where
  "bitwise_or left right =
     first_match
       [fold_arm Op_BitwiseOr (\<lambda>l r. Some (l OR r)) left right,
        then_some (right = Constant 0) left,
        then_some (left = Constant 0) right,
        then_some (right = Constant (- 1) \<or> left = Constant (- 1)) (Constant (- 1)),
        then_some (left = right) left]
       (BitwiseOr left right)"

text \<open>
  Exclusive or flattens both operands, sorts them by the order the source derives for
  terms (a parameter), and keeps one of each run of odd length.
\<close>

fun flatten_xor :: "'x bv \<Rightarrow> 32 word \<times> 'x bv list \<Rightarrow> 32 word \<times> 'x bv list" where
  "flatten_xor (Constant v) (c, terms) = (c XOR v, terms)"
| "flatten_xor (Binary op left right) (c, terms) =
     (if op = Op_BitwiseXor then flatten_xor right (flatten_xor left (c, terms))
      else (c, terms @ [Binary op left right]))"
| "flatten_xor t (c, terms) = (c, terms @ [t])"

fun sort_insert :: "('a \<Rightarrow> 'a \<Rightarrow> bool) \<Rightarrow> 'a \<Rightarrow> 'a list \<Rightarrow> 'a list" where
  "sort_insert below x [] = [x]"
| "sort_insert below x (y # ys) = (if below y x then y # sort_insert below x ys else x # y # ys)"

definition sort_terms :: "('a \<Rightarrow> 'a \<Rightarrow> bool) \<Rightarrow> 'a list \<Rightarrow> 'a list" where
  "sort_terms below terms = foldr (sort_insert below) terms []"

function odd_runs :: "'a list \<Rightarrow> 'a list" where
  "odd_runs [] = []"
| "odd_runs (x # xs) =
     (if even (length (takeWhile ((=) x) xs)) then [x] else []) @ odd_runs (dropWhile ((=) x) xs)"
  by pat_completeness auto
termination by (relation "measure length") (auto simp: le_imp_less_Suc length_dropWhile_le)

definition bitwise_xor :: "('x bv \<Rightarrow> 'x bv \<Rightarrow> bool) \<Rightarrow> 'x bv \<Rightarrow> 'x bv \<Rightarrow> 'x bv" where
  "bitwise_xor below left right =
     (let (c, terms) = flatten_xor right (flatten_xor left (0, []));
          normalized = odd_runs (sort_terms below terms);
          normalized = (if c \<noteq> 0 then sort_terms below (normalized @ [Constant c]) else normalized)
      in case normalized of [] \<Rightarrow> Constant 0 | t # ts \<Rightarrow> foldl BitwiseXor t ts)"

definition bitwise_not :: "'x bv \<Rightarrow> 'x bv" where
  "bitwise_not v =
     (case v of
        Constant w \<Rightarrow> Constant (NOT w)
      | Unary op inner \<Rightarrow> if op = Op_BitwiseNot then inner else BitwiseNot v
      | _ \<Rightarrow> BitwiseNot v)"

definition if_then_else :: "'x cond \<Rightarrow> 'x bv \<Rightarrow> 'x bv \<Rightarrow> 'x bv" where
  "if_then_else condition then_term else_term =
     (case condition of
        Cond_Constant b \<Rightarrow> if b then then_term else else_term
      | _ \<Rightarrow> if then_term = else_term then then_term
             else If_Term condition then_term else_term)"

section \<open>Their meaning\<close>

definition means32 :: "'x valuation \<Rightarrow> 32 word \<Rightarrow> 'x bv \<Rightarrow> bool" where
  "means32 \<rho> w t \<longleftrightarrow> low32 (bv_value \<rho> t) = w"

lemma means32_value [simp]: "means32 \<rho> (low32 (bv_value \<rho> t)) t"
  by (simp add: means32_def)

section \<open>Reasoning arm by arm\<close>

text \<open>What an arm yields, if it applies, has a property.\<close>

definition arm :: "('a \<Rightarrow> bool) \<Rightarrow> 'a option \<Rightarrow> bool" where
  "arm P a \<longleftrightarrow> (\<forall>x. a = Some x \<longrightarrow> P x)"

named_theorems arm_intros
  \<open>introduction rules for the arms of a match\<close>

lemma arm_simps [arm_intros]:
  "arm P None"
  "P x \<Longrightarrow> arm P (Some x)"
  "(b \<Longrightarrow> P x) \<Longrightarrow> arm P (then_some b x)"
  "\<lbrakk>b \<Longrightarrow> arm P a; \<not> b \<Longrightarrow> arm P a'\<rbrakk> \<Longrightarrow> arm P (if b then a else a')"
  by (auto simp: arm_def)

lemma arm_on_parts [arm_intros]:
  "(\<And>a b. t = Binary op a b \<Longrightarrow> arm P (f a b)) \<Longrightarrow> arm P (on_parts op t f)"
  by (auto simp: arm_def on_parts_def split: option.splits)

lemma arms_intros [arm_intros]:
  "list_all (arm P) []"
  "\<lbrakk>arm P a; list_all (arm P) arms\<rbrakk> \<Longrightarrow> list_all (arm P) (a # arms)"
  by simp_all

lemma first_match_arms: "list_all (arm P) arms \<Longrightarrow> P d \<Longrightarrow> P (first_match arms d)"
  by (rule first_matchI) (auto simp: list_all_iff arm_def)

lemma means32_match:
  "list_all (arm (means32 \<rho> w)) arms \<Longrightarrow> means32 \<rho> w d \<Longrightarrow> means32 \<rho> w (first_match arms d)"
  by (rule first_match_arms)

lemma carries_match:
  "list_all (arm (carries v)) arms \<Longrightarrow> carries v d \<Longrightarrow> carries v (first_match arms d)"
  by (rule first_match_arms)

lemma arm_fold_means:
  assumes "binary32 op = Some g" "\<And>l r v. f l r = Some v \<Longrightarrow> v = g l r"
  shows "arm (means32 \<rho> (g (low32 (bv_value \<rho> left)) (low32 (bv_value \<rho> right)))) (fold_arm op f left right)"
  using assms by (auto simp: arm_def fold_arm_def means32_def split: option.splits)

lemma arm_fold_carries [arm_intros]:
  "op \<in> word_operators \<Longrightarrow> arm (carries Width32) (fold_arm op f left right)"
  by (auto simp: arm_def fold_arm_def carries_word split: option.splits)

lemma binary32_simps [simp]:
  "binary32 Op_Add = Some (+)" "binary32 Op_Subtract = Some (-)" "binary32 Op_Multiply = Some (*)"
  "binary32 Op_Divide = Some signed_div" "binary32 Op_UnsignedDivide = Some (div)"
  "binary32 Op_Remainder = Some signed_rem" "binary32 Op_UnsignedRemainder = Some (mod)"
  "binary32 Op_ShiftLeft = Some (\<lambda>a b. push_bit (unat b) a)"
  "binary32 Op_ArithmeticShiftRight = Some (\<lambda>a b. signed_drop_bit (unat b) a)"
  "binary32 Op_LogicalShiftRight = Some (\<lambda>a b. drop_bit (unat b) a)"
  "binary32 Op_BitwiseAnd = Some (AND)" "binary32 Op_BitwiseOr = Some (OR)"
  "binary32 Op_BitwiseXor = Some (XOR)"
  by (simp_all add: binary32_def)

lemma add_means: "means32 \<rho> (low32 (bv_value \<rho> left) + low32 (bv_value \<rho> right)) (add left right)"
  unfolding add_def
  by (intro means32_match arm_intros arm_fold_means [where op = Op_Add]) (simp_all add: means32_def)

lemma subtract_means: "means32 \<rho> (low32 (bv_value \<rho> left) - low32 (bv_value \<rho> right)) (subtract left right)"
proof (induction left right rule: subtract.induct)
  case (1 left right)
  show ?case
    unfolding subtract.simps [of left right]
    by (intro means32_match arm_intros arm_fold_means [where op = Op_Subtract])
      (use 1 in \<open>simp_all add: means32_def\<close>)
qed

lemma multiply_means: "means32 \<rho> (low32 (bv_value \<rho> left) * low32 (bv_value \<rho> right)) (multiply left right)"
  unfolding multiply_def
  by (intro means32_match arm_intros arm_fold_means [where op = Op_Multiply]) (auto simp: means32_def)

lemma signed_div_one: "signed_div x 1 = x" for x :: "32 word"
  by (simp add: signed_div_def)

lemma signed_shift_left_const: "checked_signed_shift_left_const l r = Some v \<Longrightarrow> v = push_bit (unat r) l"
  by (rule bit_word_eqI)
    (auto simp: checked_signed_shift_left_const_def checked_shift_count_const_def shifted_i64_def Let_def
      bit_simps split: if_splits)

lemma shift_count_const: "checked_shift_count_const r = Some z \<Longrightarrow> z = r"
  by (simp add: checked_shift_count_const_def split: if_splits)

lemma shift_consts:
  "map_option (\<lambda>count. push_bit (unat count) l) (checked_shift_count_const r) = Some v \<Longrightarrow> v = push_bit (unat r) l"
  "checked_arithmetic_shift_right_const l r = Some v \<Longrightarrow> v = signed_drop_bit (unat r) l"
  "checked_logical_shift_right_const l r = Some v \<Longrightarrow> v = drop_bit (unat r) l"
  by (auto simp: checked_shift_count_const_def checked_arithmetic_shift_right_const_def
      checked_logical_shift_right_const_def split: if_splits)

lemma divide_means: "means32 \<rho> (signed_div (low32 (bv_value \<rho> l)) (low32 (bv_value \<rho> r))) (divide_term l r)"
  unfolding divide_term_def
  by (intro means32_match arm_intros arm_fold_means [where op = Op_Divide])
    (auto simp: means32_def signed_div_one dest: signed_division_const)

lemma unsigned_divide_means: "means32 \<rho> (low32 (bv_value \<rho> l) div low32 (bv_value \<rho> r)) (unsigned_divide l r)"
  unfolding unsigned_divide_def
  by (intro means32_match arm_intros arm_fold_means [where op = Op_UnsignedDivide])
    (auto simp: means32_def dest: unsigned_division_const)

lemma remainder_means: "means32 \<rho> (signed_rem (low32 (bv_value \<rho> l)) (low32 (bv_value \<rho> r))) (remainder l r)"
  unfolding remainder_def
  by (intro means32_match arm_intros arm_fold_means [where op = Op_Remainder])
    (auto simp: means32_def dest: signed_division_const)

lemma unsigned_remainder_means:
  "means32 \<rho> (low32 (bv_value \<rho> l) mod low32 (bv_value \<rho> r)) (unsigned_remainder l r)"
  unfolding unsigned_remainder_def
  by (intro means32_match arm_intros arm_fold_means [where op = Op_UnsignedRemainder])
    (auto simp: means32_def dest: unsigned_division_const)

lemma shift_left_means:
  "means32 \<rho> (push_bit (unat (low32 (bv_value \<rho> r))) (low32 (bv_value \<rho> l))) (shift_left l r)"
  "means32 \<rho> (push_bit (unat (low32 (bv_value \<rho> r))) (low32 (bv_value \<rho> l))) (unsigned_shift_left l r)"
  unfolding shift_left_def unsigned_shift_left_def
  by (intro means32_match arm_intros arm_fold_means [where op = Op_ShiftLeft and g = "\<lambda>a b. push_bit (unat b) a"];
      auto simp: means32_def dest: signed_shift_left_const shift_count_const)+

lemma arithmetic_shift_right_means:
  "means32 \<rho> (signed_drop_bit (unat (low32 (bv_value \<rho> r))) (low32 (bv_value \<rho> l))) (arithmetic_shift_right l r)"
  unfolding arithmetic_shift_right_def
  by (intro means32_match arm_intros
      arm_fold_means [where op = Op_ArithmeticShiftRight and g = "\<lambda>a b. signed_drop_bit (unat b) a"])
    (auto simp: means32_def dest: shift_consts)

lemma logical_shift_right_means:
  "means32 \<rho> (drop_bit (unat (low32 (bv_value \<rho> r))) (low32 (bv_value \<rho> l))) (logical_shift_right l r)"
  unfolding logical_shift_right_def
  by (intro means32_match arm_intros
      arm_fold_means [where op = Op_LogicalShiftRight and g = "\<lambda>a b. drop_bit (unat b) a"])
    (auto simp: means32_def dest: shift_consts)

lemma bitwise_and_means: "means32 \<rho> (low32 (bv_value \<rho> l) AND low32 (bv_value \<rho> r)) (bitwise_and l r)"
  unfolding bitwise_and_def
  by (intro means32_match arm_intros arm_fold_means [where op = Op_BitwiseAnd]) (auto simp: means32_def)

lemma bitwise_or_means: "means32 \<rho> (low32 (bv_value \<rho> l) OR low32 (bv_value \<rho> r)) (bitwise_or l r)"
  unfolding bitwise_or_def
  by (intro means32_match arm_intros arm_fold_means [where op = Op_BitwiseOr]) (auto simp: means32_def)

lemma bitwise_not_means: "means32 \<rho> (NOT (low32 (bv_value \<rho> t))) (bitwise_not t)"
  by (cases t) (auto simp: bitwise_not_def means32_def unary_value_def)

lemma if_then_else_value:
  "bv_value \<rho> (if_then_else c t e) = (if cond_value \<rho> c then bv_value \<rho> t else bv_value \<rho> e)"
  by (cases c) (auto simp: if_then_else_def)

section \<open>Exclusive or\<close>

fun xor_all :: "'x valuation \<Rightarrow> 'x bv list \<Rightarrow> 32 word" where
  "xor_all \<rho> [] = 0"
| "xor_all \<rho> (t # ts) = low32 (bv_value \<rho> t) XOR xor_all \<rho> ts"

lemma xor_all_append [simp]: "xor_all \<rho> (xs @ ys) = xor_all \<rho> xs XOR xor_all \<rho> ys"
  by (induction xs) (simp_all add: xor.assoc)

lemma flatten_xor_means:
  "fst (flatten_xor t acc) XOR xor_all \<rho> (snd (flatten_xor t acc))
     = fst acc XOR xor_all \<rho> (snd acc) XOR low32 (bv_value \<rho> t)"
proof (induction t acc rule: flatten_xor.induct)
  case (2 op left right c terms)
  show ?case
  proof (cases "op = Op_BitwiseXor")
    case True
    let ?mid = "flatten_xor left (c, terms)"
    have "fst ?mid XOR xor_all \<rho> (snd ?mid) XOR low32 (bv_value \<rho> right)
        = (fst ?mid XOR xor_all \<rho> (snd ?mid)) XOR low32 (bv_value \<rho> right)"
      by (simp only: xor.assoc)
    then show ?thesis using 2(1,2) [OF True] by (simp add: True xor.assoc)
  qed (simp add: xor.assoc)
qed (simp_all add: xor.assoc xor.commute xor.left_commute)

lemma xor_all_sort: "xor_all \<rho> (sort_terms below ts) = xor_all \<rho> ts"
proof -
  have insert: "xor_all \<rho> (sort_insert below x ys) = low32 (bv_value \<rho> x) XOR xor_all \<rho> ys" for x ys
    by (induction ys) (simp_all add: xor.left_commute)
  show ?thesis by (induction ts) (simp_all add: sort_terms_def insert)
qed

lemma xor_all_run: "\<forall>y \<in> set ys. y = x \<Longrightarrow>
    xor_all \<rho> ys = (if even (length ys) then 0 else low32 (bv_value \<rho> x))"
  by (induction ys) (auto simp: xor.assoc)

lemma xor_all_odd_runs: "xor_all \<rho> (odd_runs ts) = xor_all \<rho> ts"
proof (induction ts rule: odd_runs.induct)
  case (2 x xs)
  have "xor_all \<rho> xs = xor_all \<rho> (takeWhile ((=) x) xs) XOR xor_all \<rho> (dropWhile ((=) x) xs)"
    by (simp flip: xor_all_append)
  moreover have "xor_all \<rho> (takeWhile ((=) x) xs)
      = (if even (length (takeWhile ((=) x) xs)) then 0 else low32 (bv_value \<rho> x))"
    by (rule xor_all_run) (auto dest: set_takeWhileD)
  ultimately show ?case using 2 by (simp add: xor.assoc [symmetric])
qed simp

lemma fold_xor_means:
  "low32 (bv_value \<rho> (foldl BitwiseXor t ts)) = low32 (bv_value \<rho> t) XOR xor_all \<rho> ts"
  by (induction ts arbitrary: t) (simp_all add: xor.assoc)

lemma bitwise_xor_means:
  "means32 \<rho> (low32 (bv_value \<rho> l) XOR low32 (bv_value \<rho> r)) (bitwise_xor below l r)"
proof -
  obtain c ts where f: "flatten_xor r (flatten_xor l (0, [])) = (c, ts)" by (rule prod.exhaust)
  define ns where "ns = (if c \<noteq> 0 then sort_terms below (odd_runs (sort_terms below ts) @ [Constant c])
    else odd_runs (sort_terms below ts))"
  have "c XOR xor_all \<rho> ts = low32 (bv_value \<rho> l) XOR low32 (bv_value \<rho> r)"
    using flatten_xor_means [of r "flatten_xor l (0, [])" \<rho>] flatten_xor_means [of l "(0, [])" \<rho>]
    by (simp add: f) (simp flip: xor.assoc)
  then have "xor_all \<rho> ns = low32 (bv_value \<rho> l) XOR low32 (bv_value \<rho> r)"
    by (auto simp: ns_def xor_all_sort xor_all_odd_runs xor.commute)
  moreover have "low32 (bv_value \<rho> (case ns of [] \<Rightarrow> Constant 0 | t # ts \<Rightarrow> foldl BitwiseXor t ts)) = xor_all \<rho> ns"
    by (cases ns) (simp_all add: fold_xor_means del: bv_value.simps(6))
  ultimately show ?thesis by (simp add: bitwise_xor_def f ns_def means32_def Let_def)
qed

section \<open>Their widths\<close>

lemma carries_words [simp]:
  "carries w (Add l r) \<longleftrightarrow> w = Width32 \<and> carries Width32 l \<and> carries Width32 r"
  "carries w (Subtract l r) \<longleftrightarrow> w = Width32 \<and> carries Width32 l \<and> carries Width32 r"
  "carries w (Multiply l r) \<longleftrightarrow> w = Width32 \<and> carries Width32 l \<and> carries Width32 r"
  "carries w (Divide l r) \<longleftrightarrow> w = Width32 \<and> carries Width32 l \<and> carries Width32 r"
  "carries w (UnsignedDivide l r) \<longleftrightarrow> w = Width32 \<and> carries Width32 l \<and> carries Width32 r"
  "carries w (Remainder l r) \<longleftrightarrow> w = Width32 \<and> carries Width32 l \<and> carries Width32 r"
  "carries w (UnsignedRemainder l r) \<longleftrightarrow> w = Width32 \<and> carries Width32 l \<and> carries Width32 r"
  "carries w (ShiftLeft l r) \<longleftrightarrow> w = Width32 \<and> carries Width32 l \<and> carries Width32 r"
  "carries w (ArithmeticShiftRight l r) \<longleftrightarrow> w = Width32 \<and> carries Width32 l \<and> carries Width32 r"
  "carries w (LogicalShiftRight l r) \<longleftrightarrow> w = Width32 \<and> carries Width32 l \<and> carries Width32 r"
  "carries w (BitwiseAnd l r) \<longleftrightarrow> w = Width32 \<and> carries Width32 l \<and> carries Width32 r"
  "carries w (BitwiseOr l r) \<longleftrightarrow> w = Width32 \<and> carries Width32 l \<and> carries Width32 r"
  "carries w (BitwiseXor l r) \<longleftrightarrow> w = Width32 \<and> carries Width32 l \<and> carries Width32 r"
  by (simp_all add: carries_word word_operators_def)

lemma carries_bitwise_not [simp]: "carries w (BitwiseNot v) \<longleftrightarrow> w = Width32 \<and> carries Width32 v"
  unfolding carries_unary consistent_unary by auto

lemma arm_folds_carries [arm_intros]:
  "arm (carries Width32) (fold_arm Op_Add f l r)" "arm (carries Width32) (fold_arm Op_Subtract f l r)"
  "arm (carries Width32) (fold_arm Op_Multiply f l r)" "arm (carries Width32) (fold_arm Op_Divide f l r)"
  "arm (carries Width32) (fold_arm Op_UnsignedDivide f l r)" "arm (carries Width32) (fold_arm Op_Remainder f l r)"
  "arm (carries Width32) (fold_arm Op_UnsignedRemainder f l r)" "arm (carries Width32) (fold_arm Op_ShiftLeft f l r)"
  "arm (carries Width32) (fold_arm Op_ArithmeticShiftRight f l r)"
  "arm (carries Width32) (fold_arm Op_LogicalShiftRight f l r)"
  "arm (carries Width32) (fold_arm Op_BitwiseAnd f l r)" "arm (carries Width32) (fold_arm Op_BitwiseOr f l r)"
  by (intro arm_fold_carries; simp add: word_operators_def)+

lemma add_carries: "carries Width32 l \<Longrightarrow> carries Width32 r \<Longrightarrow> carries Width32 (add l r)"
  unfolding add_def by (intro carries_match arm_intros) simp_all

lemma subtract_carries: "carries Width32 l \<Longrightarrow> carries Width32 r \<Longrightarrow> carries Width32 (subtract l r)"
proof (induction l r rule: subtract.induct)
  case (1 left right)
  show ?case
    unfolding subtract.simps [of left right]
    by (intro carries_match arm_intros) (use 1 in simp_all)
qed

lemma word_ops_carry:
  assumes "carries Width32 l" "carries Width32 r"
  shows "carries Width32 (multiply l r)" "carries Width32 (divide_term l r)"
    "carries Width32 (unsigned_divide l r)" "carries Width32 (remainder l r)"
    "carries Width32 (unsigned_remainder l r)" "carries Width32 (shift_left l r)"
    "carries Width32 (unsigned_shift_left l r)" "carries Width32 (arithmetic_shift_right l r)"
    "carries Width32 (logical_shift_right l r)" "carries Width32 (bitwise_and l r)"
    "carries Width32 (bitwise_or l r)"
  unfolding multiply_def divide_term_def unsigned_divide_def remainder_def unsigned_remainder_def
    shift_left_def unsigned_shift_left_def arithmetic_shift_right_def logical_shift_right_def
    bitwise_and_def bitwise_or_def
  by (intro carries_match arm_intros; use assms in simp)+

lemma bitwise_not_carries: "carries Width32 t \<Longrightarrow> carries Width32 (bitwise_not t)"
  by (cases t) (auto simp: bitwise_not_def)

lemma flatten_xor_carries:
  "carries Width32 t \<Longrightarrow> list_all (carries Width32) (snd acc) \<Longrightarrow>
   list_all (carries Width32) (snd (flatten_xor t acc))"
  by (induction t acc rule: flatten_xor.induct) auto

lemma set_sort_terms [simp]: "set (sort_terms below ts) = set ts"
proof -
  have insert: "set (sort_insert below x ys) = insert x (set ys)" for x :: 'a and ys
    by (induction ys) auto
  show ?thesis by (induction ts) (simp_all add: sort_terms_def insert)
qed

lemma set_odd_runs: "set (odd_runs ts) \<subseteq> set ts"
proof (induction ts rule: odd_runs.induct)
  case (2 x xs)
  then show ?case using set_dropWhileD [of _ "(=) x" xs] by auto
qed simp

lemma fold_xor_carries:
  "carries Width32 t \<Longrightarrow> \<forall>u \<in> set ts. carries Width32 u \<Longrightarrow> carries Width32 (foldl BitwiseXor t ts)"
  by (induction ts arbitrary: t) simp_all

lemma bitwise_xor_carries:
  assumes "carries Width32 l" "carries Width32 r"
  shows "carries Width32 (bitwise_xor below l r)"
proof -
  obtain c ts where f: "flatten_xor r (flatten_xor l (0, [])) = (c, ts)" by (rule prod.exhaust)
  have "list_all (carries Width32) ts"
    using flatten_xor_carries [OF assms(2) flatten_xor_carries [OF assms(1), of "(0, [])"]] by (simp add: f)
  then have ts: "\<forall>t \<in> set (odd_runs (sort_terms below ts)). carries Width32 t"
    using set_odd_runs [of "sort_terms below ts"] by (auto simp: list_all_iff)
  then have "carries Width32 (case ns of [] \<Rightarrow> Constant 0 | t # ts \<Rightarrow> foldl BitwiseXor t ts)"
    if "set ns \<subseteq> insert (Constant c) (set (odd_runs (sort_terms below ts)))" for ns
    using that by (cases ns) (auto intro!: fold_xor_carries)
  then show ?thesis by (auto simp: bitwise_xor_def f Let_def)
qed

lemma if_then_else_carries:
  "condition_width_mismatch c = None \<Longrightarrow> carries w t \<Longrightarrow> carries w e \<Longrightarrow> carries w (if_then_else c t e)"
  by (cases c) (auto simp: if_then_else_def carries_if)

section \<open>The constructors as a whole\<close>

text \<open>C25: Every 32-bit term constructor denotes its operator, whatever it folds, cancels,
  flattens or sorts: the term it builds has, in every valuation, the wrapped 32-bit sum,
  difference, product, quotient, remainder, shift, bitwise combination or choice of its
  operands' values. No rewrite of the constructors depends on a fact about the operands,
  and none on the order terms are sorted by.\<close>

theorem word_constructors_exact:
  "low32 (bv_value \<rho> (add l r)) = low32 (bv_value \<rho> l) + low32 (bv_value \<rho> r)
   \<and> low32 (bv_value \<rho> (subtract l r)) = low32 (bv_value \<rho> l) - low32 (bv_value \<rho> r)
   \<and> low32 (bv_value \<rho> (multiply l r)) = low32 (bv_value \<rho> l) * low32 (bv_value \<rho> r)
   \<and> low32 (bv_value \<rho> (divide_term l r)) = signed_div (low32 (bv_value \<rho> l)) (low32 (bv_value \<rho> r))
   \<and> low32 (bv_value \<rho> (unsigned_divide l r)) = low32 (bv_value \<rho> l) div low32 (bv_value \<rho> r)
   \<and> low32 (bv_value \<rho> (remainder l r)) = signed_rem (low32 (bv_value \<rho> l)) (low32 (bv_value \<rho> r))
   \<and> low32 (bv_value \<rho> (unsigned_remainder l r)) = low32 (bv_value \<rho> l) mod low32 (bv_value \<rho> r)
   \<and> low32 (bv_value \<rho> (shift_left l r)) = push_bit (unat (low32 (bv_value \<rho> r))) (low32 (bv_value \<rho> l))
   \<and> low32 (bv_value \<rho> (unsigned_shift_left l r)) = push_bit (unat (low32 (bv_value \<rho> r))) (low32 (bv_value \<rho> l))
   \<and> low32 (bv_value \<rho> (arithmetic_shift_right l r))
       = signed_drop_bit (unat (low32 (bv_value \<rho> r))) (low32 (bv_value \<rho> l))
   \<and> low32 (bv_value \<rho> (logical_shift_right l r)) = drop_bit (unat (low32 (bv_value \<rho> r))) (low32 (bv_value \<rho> l))
   \<and> low32 (bv_value \<rho> (bitwise_and l r)) = low32 (bv_value \<rho> l) AND low32 (bv_value \<rho> r)
   \<and> low32 (bv_value \<rho> (bitwise_or l r)) = low32 (bv_value \<rho> l) OR low32 (bv_value \<rho> r)
   \<and> low32 (bv_value \<rho> (bitwise_xor below l r)) = low32 (bv_value \<rho> l) XOR low32 (bv_value \<rho> r)
   \<and> low32 (bv_value \<rho> (bitwise_not l)) = NOT (low32 (bv_value \<rho> l))
   \<and> bv_value \<rho> (if_then_else c l r) = (if cond_value \<rho> c then bv_value \<rho> l else bv_value \<rho> r)"
  unfolding means32_def [symmetric]
  by (intro conjI add_means subtract_means multiply_means divide_means unsigned_divide_means
      remainder_means unsigned_remainder_means shift_left_means arithmetic_shift_right_means
      logical_shift_right_means bitwise_and_means bitwise_or_means bitwise_xor_means
      bitwise_not_means if_then_else_value)

text \<open>C26: Every 32-bit term constructor keeps widths consistent: of operands that may
  stand where a 32-bit carrier is expected it builds a term that may, so the inferred width
  of a term built from well-formed operands never disagrees with itself.\<close>

theorem word_constructors_width:
  assumes "carries Width32 l" "carries Width32 r"
  shows "carries Width32 (add l r) \<and> carries Width32 (subtract l r) \<and> carries Width32 (multiply l r)
   \<and> carries Width32 (divide_term l r) \<and> carries Width32 (unsigned_divide l r)
   \<and> carries Width32 (remainder l r) \<and> carries Width32 (unsigned_remainder l r)
   \<and> carries Width32 (shift_left l r) \<and> carries Width32 (unsigned_shift_left l r)
   \<and> carries Width32 (arithmetic_shift_right l r) \<and> carries Width32 (logical_shift_right l r)
   \<and> carries Width32 (bitwise_and l r) \<and> carries Width32 (bitwise_or l r)
   \<and> carries Width32 (bitwise_xor below l r) \<and> carries Width32 (bitwise_not l)"
  by (intro conjI add_carries subtract_carries word_ops_carry bitwise_xor_carries bitwise_not_carries assms)

theorem word_constructors_width_witness:
  "carries Width32 (add (Variable (Variable_Of 0 Ordinary)) (Constant 1 :: nat bv))"
  using word_constructors_width [of "Variable (Variable_Of 0 Ordinary)" "Constant 1 :: nat bv"] by simp

end
