(* ===== verification/WideOps.thy ===== *)
theory WideOps
  imports WordOps
begin

unbundle bit_operations_syntax

text \<open>
  The conversions and the 64-bit term constructors of
  \<^verbatim>\<open>src/src/kernel/primitives/term_operations.rs\<close>. They fold through
  \<^verbatim>\<open>int64_constant\<close> and \<^verbatim>\<open>uint64_constant\<close>, so their meaning needs operands whose
  widths agree.
\<close>

section \<open>Conversions\<close>

definition int64_from_32 :: "'x bv \<Rightarrow> 'x bv" where
  "int64_from_32 v = (case v of
     Constant w \<Rightarrow> Int64Constant (scast w)
   | Int64Constant _ \<Rightarrow> v
   | Unary op _ \<Rightarrow> if op = Op_Int64From32 then v else Int64From32 v
   | _ \<Rightarrow> Int64From32 v)"

text \<open>The root of a term narrowed to 32 bits.\<close>

definition narrow_root :: "'x bv \<Rightarrow> 'x bv" where
  "narrow_root v = (case v of
     UInt64Constant bits \<Rightarrow> Constant (ucast bits)
   | Int64Constant bits \<Rightarrow> Constant (ucast bits)
   | Unary op inner \<Rightarrow>
       if op \<in> {Op_UInt64From32, Op_Int64From32, Op_Int64FromUInt32, Op_UInt64FromInt32} then inner
       else UInt32From64 v
   | _ \<Rightarrow> UInt32From64 v)"

definition uint64_parts :: "'x bv \<Rightarrow> 64 word option" where
  "uint64_parts t = (case t of UInt64Constant w \<Rightarrow> Some w | _ \<Rightarrow> None)"

definition uint32_from_64 :: "'x bv \<Rightarrow> 'x bv" where
  "uint32_from_64 v =
     first_match
       [on_parts Op_UInt64Add v (\<lambda>a b.
          case uint64_parts b of
            Some w \<Rightarrow> Some (add (narrow_root a) (Constant (ucast w)))
          | None \<Rightarrow> map_option (\<lambda>w. add (Constant (ucast w)) (narrow_root b)) (uint64_parts a)),
        on_parts Op_UInt64Subtract v (\<lambda>a b.
          map_option (\<lambda>w. subtract (narrow_root a) (Constant (ucast w))) (uint64_parts b))]
       (narrow_root v)"

definition uint64_from_32 :: "'x bv \<Rightarrow> 'x bv" where
  "uint64_from_32 v = (case v of
     Constant w \<Rightarrow> UInt64Constant (ucast w)
   | UInt64Constant _ \<Rightarrow> v
   | Unary op _ \<Rightarrow> if op = Op_UInt64From32 then v else UInt64From32 v
   | _ \<Rightarrow> UInt64From32 v)"

definition int64_from_uint32 :: "'x bv \<Rightarrow> 'x bv" where
  "int64_from_uint32 v = (case v of
     Constant w \<Rightarrow> Int64Constant (ucast w)
   | Int64Constant _ \<Rightarrow> v
   | Unary op _ \<Rightarrow> if op = Op_Int64FromUInt32 then v else Int64FromUInt32 v
   | _ \<Rightarrow> Int64FromUInt32 v)"

definition uint64_from_int32 :: "'x bv \<Rightarrow> 'x bv" where
  "uint64_from_int32 v = (case v of
     Constant w \<Rightarrow> UInt64Constant (scast w)
   | UInt64Constant _ \<Rightarrow> v
   | Unary op _ \<Rightarrow> if op = Op_UInt64FromInt32 then v else UInt64FromInt32 v
   | _ \<Rightarrow> UInt64FromInt32 v)"

definition uint64_from_int64 :: "'x bv \<Rightarrow> 'x bv" where
  "uint64_from_int64 v = (case v of
     Int64Constant w \<Rightarrow> UInt64Constant w
   | UInt64Constant _ \<Rightarrow> v
   | Unary op _ \<Rightarrow> if op = Op_UInt64FromInt64 then v else UInt64FromInt64 v
   | _ \<Rightarrow> UInt64FromInt64 v)"

definition int64_from_uint64_bits :: "'x bv \<Rightarrow> 'x bv" where
  "int64_from_uint64_bits v = (case v of
     UInt64Constant bits \<Rightarrow> Int64Constant bits
   | Unary op inner \<Rightarrow>
       if op = Op_UInt64FromInt64 then inner
       else if op = Op_UInt64From32 then int64_from_uint32 inner
       else if op = Op_UInt64FromInt32 then int64_from_32 inner
       else v
   | _ \<Rightarrow> v)"

section \<open>Signed operators\<close>

definition int64_binary ::
  "'x bv \<Rightarrow> 'x bv \<Rightarrow> (64 word \<Rightarrow> 64 word \<Rightarrow> 64 word option) \<Rightarrow> binary_operator \<Rightarrow> 'x bv" where
  "int64_binary left right operation constructor =
     (case (int64_constant left, int64_constant right) of
        (Some l, Some r) \<Rightarrow>
          (case operation l r of
             Some v \<Rightarrow> Int64Constant v
           | None \<Rightarrow> Binary constructor (Int64Constant l) (Int64Constant r))
      | _ \<Rightarrow> Binary constructor left right)"

definition int64_add :: "'x bv \<Rightarrow> 'x bv \<Rightarrow> 'x bv" where
  "int64_add left right = int64_binary left right (i64_checked (+)) Op_Int64Add"

definition int64_subtract :: "'x bv \<Rightarrow> 'x bv \<Rightarrow> 'x bv" where
  "int64_subtract left right =
     (if left = right then Int64Constant 0
      else int64_binary left right (i64_checked (-)) Op_Int64Subtract)"

definition int64_multiply :: "'x bv \<Rightarrow> 'x bv \<Rightarrow> 'x bv" where
  "int64_multiply left right =
     (if int64_constant right = Some 1 then left
      else if int64_constant left = Some 1 then right
      else if int64_constant right = Some 0 \<or> int64_constant left = Some 0 then Int64Constant 0
      else int64_binary left right (i64_checked (*)) Op_Int64Multiply)"

definition int64_divide :: "'x bv \<Rightarrow> 'x bv \<Rightarrow> 'x bv" where
  "int64_divide left right = int64_binary left right checked_int64_divide_const Op_Int64Divide"

definition int64_remainder :: "'x bv \<Rightarrow> 'x bv \<Rightarrow> 'x bv" where
  "int64_remainder left right = int64_binary left right checked_int64_remainder_const Op_Int64Remainder"

definition int64_shift_left :: "'x bv \<Rightarrow> 'x bv \<Rightarrow> 'x bv" where
  "int64_shift_left left right =
     (case (int64_constant left, int64_shift_count_constant right) of
        (Some l, Some count) \<Rightarrow>
          if 0 \<le> sint l \<and> unat count < 64 then
            (let value = push_bit (unat count) l
             in if 0 \<le> sint value then Int64Constant value
                else Int64ShiftLeft (Int64Constant l) right)
          else Int64ShiftLeft left right
      | _ \<Rightarrow> Int64ShiftLeft left right)"

definition int64_arithmetic_shift_right :: "'x bv \<Rightarrow> 'x bv \<Rightarrow> 'x bv" where
  "int64_arithmetic_shift_right left right =
     (case (int64_constant left, int64_shift_count_constant right) of
        (Some l, Some count) \<Rightarrow>
          if unat count < 64 then Int64Constant (signed_drop_bit (unat count) l)
          else Int64ArithmeticShiftRight left right
      | _ \<Rightarrow> Int64ArithmeticShiftRight left right)"

text \<open>The bitwise operators keep their operands unless both are constants.\<close>

definition int64_bitwise ::
  "(64 word \<Rightarrow> 64 word \<Rightarrow> 64 word) \<Rightarrow> binary_operator \<Rightarrow> 'x bv \<Rightarrow> 'x bv \<Rightarrow> 'x bv" where
  "int64_bitwise f constructor left right =
     (case (int64_constant left, int64_constant right) of
        (Some l, Some r) \<Rightarrow> Int64Constant (f l r)
      | _ \<Rightarrow> Binary constructor left right)"

definition int64_bitwise_and :: "'x bv \<Rightarrow> 'x bv \<Rightarrow> 'x bv" where
  "int64_bitwise_and = int64_bitwise (AND) Op_Int64BitwiseAnd"

definition int64_bitwise_or :: "'x bv \<Rightarrow> 'x bv \<Rightarrow> 'x bv" where
  "int64_bitwise_or = int64_bitwise (OR) Op_Int64BitwiseOr"

definition int64_bitwise_xor :: "'x bv \<Rightarrow> 'x bv \<Rightarrow> 'x bv" where
  "int64_bitwise_xor = int64_bitwise (XOR) Op_Int64BitwiseXor"

definition int64_bitwise_not :: "'x bv \<Rightarrow> 'x bv" where
  "int64_bitwise_not v =
     (case int64_constant v of Some w \<Rightarrow> Int64Constant (NOT w) | None \<Rightarrow> Int64BitwiseNot v)"

section \<open>Unsigned operators\<close>

definition uint64_binary ::
  "'x bv \<Rightarrow> 'x bv \<Rightarrow> (64 word \<Rightarrow> 64 word \<Rightarrow> 64 word option) \<Rightarrow> binary_operator \<Rightarrow> 'x bv" where
  "uint64_binary left right operation constructor =
     (case (uint64_constant left, uint64_constant right) of
        (Some l, Some r) \<Rightarrow>
          (case operation l r of
             Some v \<Rightarrow> UInt64Constant v
           | None \<Rightarrow> Binary constructor (UInt64Constant l) (UInt64Constant r))
      | _ \<Rightarrow> Binary constructor left right)"

definition uint64_add :: "'x bv \<Rightarrow> 'x bv \<Rightarrow> 'x bv" where
  "uint64_add left right =
     first_match
       [then_some (left = UInt64Constant 0) right,
        then_some (right = UInt64Constant 0) left,
        on_parts Op_UInt64Subtract left (\<lambda>inner taken.
          case (uint64_parts taken, uint64_parts right) of
            (Some t, Some a) \<Rightarrow> then_some (t = a) inner
          | _ \<Rightarrow> None)]
       (uint64_binary left right (\<lambda>l r. Some (l + r)) Op_UInt64Add)"

definition is_variable :: "'x bv \<Rightarrow> bool" where
  "is_variable t = (case t of Variable _ \<Rightarrow> True | _ \<Rightarrow> False)"

definition uint64_subtract :: "'x bv \<Rightarrow> 'x bv \<Rightarrow> 'x bv" where
  "uint64_subtract left right =
     first_match
       [then_some (right = UInt64Constant 0) left,
        then_some (is_variable left \<and> left = right) (UInt64Constant 0),
        on_parts Op_UInt64Add left (\<lambda>inner added.
          case (uint64_parts added, uint64_parts right) of
            (Some a, Some t) \<Rightarrow> then_some (a = t) inner
          | _ \<Rightarrow> None)]
       (uint64_binary left right (\<lambda>l r. Some (l - r)) Op_UInt64Subtract)"

definition uint64_multiply :: "'x bv \<Rightarrow> 'x bv \<Rightarrow> 'x bv" where
  "uint64_multiply left right =
     (if uint64_constant right = Some 1 then left
      else if uint64_constant left = Some 1 then right
      else if uint64_constant right = Some 0 \<or> uint64_constant left = Some 0 then UInt64Constant 0
      else uint64_binary left right (\<lambda>l r. Some (l * r)) Op_UInt64Multiply)"

definition uint64_divide :: "'x bv \<Rightarrow> 'x bv \<Rightarrow> 'x bv" where
  "uint64_divide left right = uint64_binary left right checked_uint64_divide_const Op_UInt64Divide"

definition uint64_remainder :: "'x bv \<Rightarrow> 'x bv \<Rightarrow> 'x bv" where
  "uint64_remainder left right = uint64_binary left right checked_uint64_remainder_const Op_UInt64Remainder"

definition uint64_shift ::
  "(nat \<Rightarrow> 64 word \<Rightarrow> 64 word) \<Rightarrow> binary_operator \<Rightarrow> 'x bv \<Rightarrow> 'x bv \<Rightarrow> 'x bv" where
  "uint64_shift f constructor left right =
     (case (uint64_constant left, int64_shift_count_constant right) of
        (Some l, Some count) \<Rightarrow>
          if unat count < 64 then UInt64Constant (f (unat count) l)
          else Binary constructor left right
      | _ \<Rightarrow> Binary constructor left right)"

definition uint64_shift_left :: "'x bv \<Rightarrow> 'x bv \<Rightarrow> 'x bv" where
  "uint64_shift_left = uint64_shift push_bit Op_UInt64ShiftLeft"

definition uint64_logical_shift_right :: "'x bv \<Rightarrow> 'x bv \<Rightarrow> 'x bv" where
  "uint64_logical_shift_right = uint64_shift drop_bit Op_UInt64LogicalShiftRight"

definition or_else :: "'a option \<Rightarrow> 'a option \<Rightarrow> 'a option" where
  "or_else a b = (case a of None \<Rightarrow> b | Some x \<Rightarrow> Some x)"

definition uint64_bitwise_or :: "'x bv \<Rightarrow> 'x bv \<Rightarrow> 'x bv" where
  "uint64_bitwise_or left right =
     first_match
       [on_parts Op_UInt64BitwiseAnd left (\<lambda>masked_left masked_right.
          case (uint64_constant right, or_else (uint64_constant masked_left) (uint64_constant masked_right)) of
            (Some c, Some m) \<Rightarrow> then_some (m AND NOT c = 0) (UInt64Constant c)
          | _ \<Rightarrow> None),
        then_some (uint64_constant left = Some 0) right,
        then_some (uint64_constant right = Some 0) left,
        (case (uint64_constant left, uint64_constant right) of
           (Some l, Some r) \<Rightarrow> Some (UInt64Constant (l OR r))
         | _ \<Rightarrow> None)]
       (UInt64BitwiseOr left right)"

function uint64_bitwise_and :: "'x bv \<Rightarrow> 'x bv \<Rightarrow> 'x bv" where
  "uint64_bitwise_and left right =
     first_match
       [on_parts Op_UInt64BitwiseAnd left (\<lambda>inner_left inner_right.
          case uint64_constant right of
            None \<Rightarrow> None
          | Some outer \<Rightarrow>
              (case (uint64_constant inner_left, uint64_constant inner_right) of
                 (None, Some inner) \<Rightarrow>
                   Some (uint64_bitwise_and inner_left (UInt64Constant (inner AND outer)))
               | (Some inner, None) \<Rightarrow>
                   Some (uint64_bitwise_and inner_right (UInt64Constant (inner AND outer)))
               | _ \<Rightarrow> None)),
        then_some (uint64_constant right = Some 0 \<or> uint64_constant left = Some 0) (UInt64Constant 0),
        on_parts Op_UInt64BitwiseOr left (\<lambda>inner_left inner_right.
          case uint64_constant right of
            None \<Rightarrow> None
          | Some bits \<Rightarrow>
              (case (uint64_constant inner_left, uint64_constant inner_right) of
                 (None, Some c) \<Rightarrow>
                   Some (uint64_bitwise_or (uint64_bitwise_and inner_left (UInt64Constant bits))
                           (UInt64Constant (c AND bits)))
               | (Some c, None) \<Rightarrow>
                   Some (uint64_bitwise_or (uint64_bitwise_and inner_right (UInt64Constant bits))
                           (UInt64Constant (c AND bits)))
               | _ \<Rightarrow> None)),
        (case (uint64_constant left, uint64_constant right) of
           (Some l, Some r) \<Rightarrow> Some (UInt64Constant (l AND r))
         | _ \<Rightarrow> None)]
       (UInt64BitwiseAnd left right)"
  by pat_completeness auto
termination by (relation "measure (\<lambda>(l, r). size l)") auto

declare uint64_bitwise_and.simps [simp del]

definition uint64_bitwise_xor :: "'x bv \<Rightarrow> 'x bv \<Rightarrow> 'x bv" where
  "uint64_bitwise_xor left right =
     (case (uint64_constant left, uint64_constant right) of
        (Some l, Some r) \<Rightarrow> UInt64Constant (l XOR r)
      | _ \<Rightarrow> UInt64BitwiseXor left right)"

definition uint64_bitwise_not :: "'x bv \<Rightarrow> 'x bv" where
  "uint64_bitwise_not v =
     (case uint64_constant v of Some w \<Rightarrow> UInt64Constant (NOT w) | None \<Rightarrow> UInt64BitwiseNot v)"

section \<open>Their widths\<close>

lemma carries_wides [simp]:
  "carries w (Int64Add l r) \<longleftrightarrow> w = Width64 \<and> carries Width64 l \<and> carries Width64 r"
  "carries w (Int64Subtract l r) \<longleftrightarrow> w = Width64 \<and> carries Width64 l \<and> carries Width64 r"
  "carries w (Int64Multiply l r) \<longleftrightarrow> w = Width64 \<and> carries Width64 l \<and> carries Width64 r"
  "carries w (Int64Divide l r) \<longleftrightarrow> w = Width64 \<and> carries Width64 l \<and> carries Width64 r"
  "carries w (Int64Remainder l r) \<longleftrightarrow> w = Width64 \<and> carries Width64 l \<and> carries Width64 r"
  "carries w (Int64BitwiseAnd l r) \<longleftrightarrow> w = Width64 \<and> carries Width64 l \<and> carries Width64 r"
  "carries w (Int64BitwiseOr l r) \<longleftrightarrow> w = Width64 \<and> carries Width64 l \<and> carries Width64 r"
  "carries w (Int64BitwiseXor l r) \<longleftrightarrow> w = Width64 \<and> carries Width64 l \<and> carries Width64 r"
  "carries w (UInt64Add l r) \<longleftrightarrow> w = Width64 \<and> carries Width64 l \<and> carries Width64 r"
  "carries w (UInt64Subtract l r) \<longleftrightarrow> w = Width64 \<and> carries Width64 l \<and> carries Width64 r"
  "carries w (UInt64Multiply l r) \<longleftrightarrow> w = Width64 \<and> carries Width64 l \<and> carries Width64 r"
  "carries w (UInt64Divide l r) \<longleftrightarrow> w = Width64 \<and> carries Width64 l \<and> carries Width64 r"
  "carries w (UInt64Remainder l r) \<longleftrightarrow> w = Width64 \<and> carries Width64 l \<and> carries Width64 r"
  "carries w (UInt64BitwiseAnd l r) \<longleftrightarrow> w = Width64 \<and> carries Width64 l \<and> carries Width64 r"
  "carries w (UInt64BitwiseOr l r) \<longleftrightarrow> w = Width64 \<and> carries Width64 l \<and> carries Width64 r"
  "carries w (UInt64BitwiseXor l r) \<longleftrightarrow> w = Width64 \<and> carries Width64 l \<and> carries Width64 r"
  by (simp_all add: carries_wide word_operators_def wide_shifts_def)

lemma carries_shifts [simp]:
  "carries w (Int64ShiftLeft l r) \<longleftrightarrow> w = Width64 \<and> carries Width64 l \<and> consistent r"
  "carries w (Int64ArithmeticShiftRight l r) \<longleftrightarrow> w = Width64 \<and> carries Width64 l \<and> consistent r"
  "carries w (UInt64ShiftLeft l r) \<longleftrightarrow> w = Width64 \<and> carries Width64 l \<and> consistent r"
  "carries w (UInt64LogicalShiftRight l r) \<longleftrightarrow> w = Width64 \<and> carries Width64 l \<and> consistent r"
  by (simp_all add: carries_shift wide_shifts_def)

lemma carries_conversions [simp]:
  "carries w (Int64From32 v) \<longleftrightarrow> w = Width64 \<and> carries Width32 v"
  "carries w (UInt64From32 v) \<longleftrightarrow> w = Width64 \<and> carries Width32 v"
  "carries w (Int64FromUInt32 v) \<longleftrightarrow> w = Width64 \<and> carries Width32 v"
  "carries w (UInt64FromInt32 v) \<longleftrightarrow> w = Width64 \<and> carries Width32 v"
  "carries w (UInt64FromInt64 v) \<longleftrightarrow> w = Width64 \<and> carries Width64 v"
  "carries w (UInt32From64 v) \<longleftrightarrow> w = Width32 \<and> carries Width64 v"
  "carries w (Int64BitwiseNot v) \<longleftrightarrow> w = Width64 \<and> carries Width64 v"
  "carries w (UInt64BitwiseNot v) \<longleftrightarrow> w = Width64 \<and> carries Width64 v"
  unfolding carries_unary consistent_unary by auto

lemma uint64_parts_Some [simp]: "uint64_parts t = Some w \<longleftrightarrow> t = UInt64Constant w"
  by (cases t) (auto simp: uint64_parts_def)

lemma arm_cases [arm_intros]:
  "(\<And>x. a = Some x \<Longrightarrow> arm P (f x)) \<Longrightarrow> arm P (case a of None \<Rightarrow> None | Some x \<Rightarrow> f x)"
  "(\<And>x. a = Some x \<Longrightarrow> P (g x)) \<Longrightarrow> arm P (map_option g a)"
  by (auto simp: arm_def split: option.splits)

lemma conversions_carry:
  "carries Width32 v \<Longrightarrow> carries Width64 (int64_from_32 v)"
  "carries Width32 v \<Longrightarrow> carries Width64 (uint64_from_32 v)"
  "carries Width32 v \<Longrightarrow> carries Width64 (int64_from_uint32 v)"
  "carries Width32 v \<Longrightarrow> carries Width64 (uint64_from_int32 v)"
  "carries Width64 v \<Longrightarrow> carries Width64 (uint64_from_int64 v)"
  by (cases v; auto simp: int64_from_32_def uint64_from_32_def int64_from_uint32_def
      uint64_from_int32_def uint64_from_int64_def)+

lemma narrow_root_carries: "carries Width64 v \<Longrightarrow> carries Width32 (narrow_root v)"
  by (cases v) (auto simp: narrow_root_def)

lemma uint32_from_64_carries: "carries Width64 v \<Longrightarrow> carries Width32 (uint32_from_64 v)"
  unfolding uint32_from_64_def
  by (intro carries_match arm_intros)
    (auto simp: narrow_root_carries add_carries subtract_carries arm_def split: option.splits)

lemma int64_from_uint64_bits_carries: "carries Width64 v \<Longrightarrow> carries Width64 (int64_from_uint64_bits v)"
  by (cases v) (auto simp: int64_from_uint64_bits_def conversions_carry)

lemma binaries_carry:
  fixes l :: "'x bv"
  assumes "carries Width64 l" "carries Width64 r" "carries Width64 (Binary op l r)"
    "\<And>a b. carries Width64 (Binary op (Int64Constant a) (Int64Constant b) :: 'x bv)"
    "\<And>a b. carries Width64 (Binary op (UInt64Constant a) (UInt64Constant b) :: 'x bv)"
  shows "carries Width64 (int64_binary l r f op)" "carries Width64 (uint64_binary l r f op)"
    "carries Width64 (int64_bitwise g op l r)"
  using assms by (auto simp: int64_binary_def uint64_binary_def int64_bitwise_def split: option.splits)

lemma int64_ops_carry:
  assumes "carries Width64 l" "carries Width64 r"
  shows "carries Width64 (int64_add l r)" "carries Width64 (int64_subtract l r)"
    "carries Width64 (int64_multiply l r)" "carries Width64 (int64_divide l r)"
    "carries Width64 (int64_remainder l r)" "carries Width64 (int64_bitwise_and l r)"
    "carries Width64 (int64_bitwise_or l r)" "carries Width64 (int64_bitwise_xor l r)"
    "carries Width64 (int64_bitwise_not l)"
  using assms
  by (auto simp: int64_add_def int64_subtract_def int64_multiply_def int64_divide_def int64_remainder_def
      int64_bitwise_and_def int64_bitwise_or_def int64_bitwise_xor_def int64_bitwise_not_def
      binaries_carry split: option.split)

lemma shifts_carry:
  assumes "carries Width64 l" "consistent r"
  shows "carries Width64 (int64_shift_left l r)" "carries Width64 (int64_arithmetic_shift_right l r)"
    "carries Width64 (uint64_shift_left l r)" "carries Width64 (uint64_logical_shift_right l r)"
  using assms
  by (auto simp: int64_shift_left_def int64_arithmetic_shift_right_def uint64_shift_left_def
      uint64_logical_shift_right_def uint64_shift_def Let_def split: option.split)

lemma uint64_ops_carry:
  assumes "carries Width64 l" "carries Width64 r"
  shows "carries Width64 (uint64_add l r)" "carries Width64 (uint64_subtract l r)"
    "carries Width64 (uint64_multiply l r)" "carries Width64 (uint64_divide l r)"
    "carries Width64 (uint64_remainder l r)" "carries Width64 (uint64_bitwise_xor l r)"
    "carries Width64 (uint64_bitwise_not l)"
  using assms
  by (auto simp: uint64_add_def uint64_subtract_def uint64_multiply_def uint64_divide_def uint64_remainder_def
      uint64_bitwise_xor_def uint64_bitwise_not_def binaries_carry arm_def split: option.split
      intro!: carries_match arm_intros)

lemma uint64_bitwise_or_carries:
  "carries Width64 l \<Longrightarrow> carries Width64 r \<Longrightarrow> carries Width64 (uint64_bitwise_or l r)"
  unfolding uint64_bitwise_or_def
  by (intro carries_match arm_intros) (auto simp: arm_def split: option.splits)

lemma uint64_bitwise_and_carries:
  "carries Width64 l \<Longrightarrow> carries Width64 r \<Longrightarrow> carries Width64 (uint64_bitwise_and l r)"
proof (induction l r rule: uint64_bitwise_and.induct)
  case (1 left right)
  show ?case
    unfolding uint64_bitwise_and.simps [of left right]
    by (intro carries_match arm_intros)
      (use 1 in \<open>auto simp: arm_def uint64_bitwise_or_carries split: option.splits\<close>)
qed

section \<open>Their meaning\<close>

definition means64 :: "'x valuation \<Rightarrow> 64 word \<Rightarrow> 'x bv \<Rightarrow> bool" where
  "means64 \<rho> w t \<longleftrightarrow> low64 (bv_value \<rho> t) = w"

lemma means64_match:
  "list_all (arm (means64 \<rho> w)) arms \<Longrightarrow> means64 \<rho> w d \<Longrightarrow> means64 \<rho> w (first_match arms d)"
  by (rule first_match_arms)

lemma binary64_simps [simp]:
  "binary64 Op_Int64Add = Some (+)" "binary64 Op_Int64Subtract = Some (-)" "binary64 Op_Int64Multiply = Some (*)"
  "binary64 Op_Int64Divide = Some signed_div" "binary64 Op_Int64Remainder = Some signed_rem"
  "binary64 Op_Int64ShiftLeft = Some (\<lambda>a b. push_bit (unat b) a)"
  "binary64 Op_Int64ArithmeticShiftRight = Some (\<lambda>a b. signed_drop_bit (unat b) a)"
  "binary64 Op_Int64BitwiseAnd = Some (AND)" "binary64 Op_Int64BitwiseOr = Some (OR)"
  "binary64 Op_Int64BitwiseXor = Some (XOR)"
  "binary64 Op_UInt64Add = Some (+)" "binary64 Op_UInt64Subtract = Some (-)" "binary64 Op_UInt64Multiply = Some (*)"
  "binary64 Op_UInt64Divide = Some (div)" "binary64 Op_UInt64Remainder = Some (mod)"
  "binary64 Op_UInt64ShiftLeft = Some (\<lambda>a b. push_bit (unat b) a)"
  "binary64 Op_UInt64LogicalShiftRight = Some (\<lambda>a b. drop_bit (unat b) a)"
  "binary64 Op_UInt64BitwiseAnd = Some (AND)" "binary64 Op_UInt64BitwiseOr = Some (OR)"
  "binary64 Op_UInt64BitwiseXor = Some (XOR)"
  by (simp_all add: binary64_def)

lemma binary32_wides [simp]:
  "binary32 Op_Int64Add = None" "binary32 Op_Int64Subtract = None" "binary32 Op_Int64Multiply = None"
  "binary32 Op_Int64Divide = None" "binary32 Op_Int64Remainder = None" "binary32 Op_Int64ShiftLeft = None"
  "binary32 Op_Int64ArithmeticShiftRight = None" "binary32 Op_Int64BitwiseAnd = None"
  "binary32 Op_Int64BitwiseOr = None" "binary32 Op_Int64BitwiseXor = None"
  "binary32 Op_UInt64Add = None" "binary32 Op_UInt64Subtract = None" "binary32 Op_UInt64Multiply = None"
  "binary32 Op_UInt64Divide = None" "binary32 Op_UInt64Remainder = None" "binary32 Op_UInt64ShiftLeft = None"
  "binary32 Op_UInt64LogicalShiftRight = None" "binary32 Op_UInt64BitwiseAnd = None"
  "binary32 Op_UInt64BitwiseOr = None" "binary32 Op_UInt64BitwiseXor = None"
  by (simp_all add: binary32_def)

lemma narrowed_sum:
  fixes a b :: "64 word"
  shows "(ucast (a + b) :: 32 word) = ucast a + ucast b" "(ucast (a - b) :: 32 word) = ucast a - ucast b"
proof -
  have n: "(ucast (word_of_int n :: 64 word) :: 32 word) = word_of_int n" for n
    by (rule bit_word_eqI) (auto simp: bit_simps)
  have w: "(ucast x :: 32 word) = word_of_int (uint x)" for x :: "64 word"
    using n [of "uint x"] by simp
  have "(ucast (a + b) :: 32 word) = ucast (word_of_int (uint a + uint b) :: 64 word)"
    "(ucast (a - b) :: 32 word) = ucast (word_of_int (uint a - uint b) :: 64 word)"
    by simp_all
  then show "(ucast (a + b) :: 32 word) = ucast a + ucast b" "(ucast (a - b) :: 32 word) = ucast a - ucast b"
    unfolding n by (simp_all only: of_int_add of_int_diff w)
qed

lemma narrow_root_means: "means32 \<rho> (low32 (bv_value \<rho> v)) (narrow_root v)"
proof -
  have "ucast (scast x :: 64 word) = x" "ucast (ucast x :: 64 word) = x" for x :: "32 word"
    by (rule bit_word_eqI; simp add: bit_simps; auto)+
  then show ?thesis by (cases v) (auto simp: narrow_root_def means32_def unary_value_def)
qed

lemma uint32_from_64_means: "means32 \<rho> (low32 (bv_value \<rho> v)) (uint32_from_64 v)"
proof -
  have root: "low32 (bv_value \<rho> (narrow_root a)) = low32 (bv_value \<rho> a)" for a
    using narrow_root_means by (simp add: means32_def)
  have add: "low32 (bv_value \<rho> (add a b)) = low32 (bv_value \<rho> a) + low32 (bv_value \<rho> b)" for a b
    using add_means by (simp add: means32_def)
  have subtract: "low32 (bv_value \<rho> (subtract a b)) = low32 (bv_value \<rho> a) - low32 (bv_value \<rho> b)" for a b
    using subtract_means by (simp add: means32_def)
  show ?thesis
    unfolding uint32_from_64_def
    by (intro means32_match arm_intros narrow_root_means)
      (auto simp: means32_def root add subtract narrowed_sum arm_def low32_low64 [symmetric] split: option.splits)
qed

lemma conversions_mean:
  assumes "carries Width32 v"
  shows "means64 \<rho> (scast (low32 (bv_value \<rho> v))) (int64_from_32 v)"
    "means64 \<rho> (ucast (low32 (bv_value \<rho> v))) (uint64_from_32 v)"
    "means64 \<rho> (ucast (low32 (bv_value \<rho> v))) (int64_from_uint32 v)"
    "means64 \<rho> (scast (low32 (bv_value \<rho> v))) (uint64_from_int32 v)"
  using assms
  by (cases v; auto simp: means64_def int64_from_32_def uint64_from_32_def int64_from_uint32_def
      uint64_from_int32_def unary_value_def)+

lemma uint64_from_int64_means: "means64 \<rho> (low64 (bv_value \<rho> v)) (uint64_from_int64 v)"
  by (cases v) (auto simp: means64_def uint64_from_int64_def unary_value_def)

lemma int64_from_uint64_bits_means:
  "carries Width64 v \<Longrightarrow> means64 \<rho> (low64 (bv_value \<rho> v)) (int64_from_uint64_bits v)"
  using conversions_mean [of _ \<rho>]
  by (cases v) (auto simp: means64_def int64_from_uint64_bits_def unary_value_def)

text \<open>The operators, for a valuation with null at address zero and operands that carry 64 bits.\<close>

definition wide_operands :: "'x valuation \<Rightarrow> 'x bv \<Rightarrow> 'x bv \<Rightarrow> bool" where
  "wide_operands \<rho> l r \<longleftrightarrow> null_at_zero \<rho> \<and> carries Width64 l \<and> carries Width64 r"

lemma wide_constants:
  assumes "wide_operands \<rho> l r"
  shows "uint64_constant l = Some c \<Longrightarrow> low64 (bv_value \<rho> l) = c"
    "uint64_constant r = Some c \<Longrightarrow> low64 (bv_value \<rho> r) = c"
    "int64_constant l = Some c \<Longrightarrow> low64 (bv_value \<rho> l) = c"
    "int64_constant r = Some c \<Longrightarrow> low64 (bv_value \<rho> r) = c"
proof -
  have z: "null_at_zero \<rho>" and l: "consistent l" and r: "consistent r"
    using assms carries_consistent by (auto simp: wide_operands_def)
  show "uint64_constant l = Some c \<Longrightarrow> low64 (bv_value \<rho> l) = c" by (rule constants64(1) [OF z l])
  show "uint64_constant r = Some c \<Longrightarrow> low64 (bv_value \<rho> r) = c" by (rule constants64(1) [OF z r])
  show "int64_constant l = Some c \<Longrightarrow> low64 (bv_value \<rho> l) = c" by (rule constants64(2) [OF z l])
  show "int64_constant r = Some c \<Longrightarrow> low64 (bv_value \<rho> r) = c" by (rule constants64(2) [OF z r])
qed

lemma binaries_mean:
  assumes "wide_operands \<rho> l r" "binary64 op = Some f" "binary32 op = None"
    "\<And>a b v. g a b = Some v \<Longrightarrow> v = f a b"
  shows "means64 \<rho> (f (low64 (bv_value \<rho> l)) (low64 (bv_value \<rho> r))) (int64_binary l r g op)"
    "means64 \<rho> (f (low64 (bv_value \<rho> l)) (low64 (bv_value \<rho> r))) (uint64_binary l r g op)"
    "means64 \<rho> (f (low64 (bv_value \<rho> l)) (low64 (bv_value \<rho> r))) (int64_bitwise f op l r)"
  using assms(2-) wide_constants [OF assms(1)]
  by (auto simp: means64_def int64_binary_def uint64_binary_def int64_bitwise_def split: option.split)

lemma int64_ops_mean:
  assumes "wide_operands \<rho> l r"
  shows "means64 \<rho> (low64 (bv_value \<rho> l) + low64 (bv_value \<rho> r)) (int64_add l r)"
    "means64 \<rho> (low64 (bv_value \<rho> l) - low64 (bv_value \<rho> r)) (int64_subtract l r)"
    "means64 \<rho> (low64 (bv_value \<rho> l) * low64 (bv_value \<rho> r)) (int64_multiply l r)"
    "means64 \<rho> (signed_div (low64 (bv_value \<rho> l)) (low64 (bv_value \<rho> r))) (int64_divide l r)"
    "means64 \<rho> (signed_rem (low64 (bv_value \<rho> l)) (low64 (bv_value \<rho> r))) (int64_remainder l r)"
    "means64 \<rho> (low64 (bv_value \<rho> l) AND low64 (bv_value \<rho> r)) (int64_bitwise_and l r)"
    "means64 \<rho> (low64 (bv_value \<rho> l) OR low64 (bv_value \<rho> r)) (int64_bitwise_or l r)"
    "means64 \<rho> (low64 (bv_value \<rho> l) XOR low64 (bv_value \<rho> r)) (int64_bitwise_xor l r)"
proof -
  note c = wide_constants [OF assms]
  show "means64 \<rho> (low64 (bv_value \<rho> l) + low64 (bv_value \<rho> r)) (int64_add l r)"
    unfolding int64_add_def by (rule binaries_mean(1) [OF assms]) (auto dest: i64_checked_ops)
  have "means64 \<rho> (low64 (bv_value \<rho> l) - low64 (bv_value \<rho> r)) (int64_binary l r (i64_checked (-)) Op_Int64Subtract)"
    by (rule binaries_mean(1) [OF assms]) (auto dest: i64_checked_ops)
  then show "means64 \<rho> (low64 (bv_value \<rho> l) - low64 (bv_value \<rho> r)) (int64_subtract l r)"
    by (auto simp: int64_subtract_def means64_def)
  have "means64 \<rho> (low64 (bv_value \<rho> l) * low64 (bv_value \<rho> r)) (int64_binary l r (i64_checked (*)) Op_Int64Multiply)"
    by (rule binaries_mean(1) [OF assms]) (auto dest: i64_checked_ops)
  then show "means64 \<rho> (low64 (bv_value \<rho> l) * low64 (bv_value \<rho> r)) (int64_multiply l r)"
    using c by (auto simp: int64_multiply_def means64_def)
  show "means64 \<rho> (signed_div (low64 (bv_value \<rho> l)) (low64 (bv_value \<rho> r))) (int64_divide l r)"
    unfolding int64_divide_def by (rule binaries_mean(1) [OF assms]) (auto dest: int64_division_const)
  show "means64 \<rho> (signed_rem (low64 (bv_value \<rho> l)) (low64 (bv_value \<rho> r))) (int64_remainder l r)"
    unfolding int64_remainder_def by (rule binaries_mean(1) [OF assms]) (auto dest: int64_division_const)
  show "means64 \<rho> (low64 (bv_value \<rho> l) AND low64 (bv_value \<rho> r)) (int64_bitwise_and l r)"
    unfolding int64_bitwise_and_def by (rule binaries_mean(3) [OF assms, where g = "\<lambda>_ _. None"]) auto
  show "means64 \<rho> (low64 (bv_value \<rho> l) OR low64 (bv_value \<rho> r)) (int64_bitwise_or l r)"
    unfolding int64_bitwise_or_def by (rule binaries_mean(3) [OF assms, where g = "\<lambda>_ _. None"]) auto
  show "means64 \<rho> (low64 (bv_value \<rho> l) XOR low64 (bv_value \<rho> r)) (int64_bitwise_xor l r)"
    unfolding int64_bitwise_xor_def by (rule binaries_mean(3) [OF assms, where g = "\<lambda>_ _. None"]) auto
qed

lemma shifts_mean:
  assumes "null_at_zero \<rho>" "carries Width64 l"
  shows "means64 \<rho> (push_bit (unat (low64 (bv_value \<rho> r))) (low64 (bv_value \<rho> l))) (int64_shift_left l r)"
    "means64 \<rho> (signed_drop_bit (unat (low64 (bv_value \<rho> r))) (low64 (bv_value \<rho> l))) (int64_arithmetic_shift_right l r)"
    "means64 \<rho> (push_bit (unat (low64 (bv_value \<rho> r))) (low64 (bv_value \<rho> l))) (uint64_shift_left l r)"
    "means64 \<rho> (drop_bit (unat (low64 (bv_value \<rho> r))) (low64 (bv_value \<rho> l))) (uint64_logical_shift_right l r)"
  using constants64 [OF assms(1) carries_consistent [OF assms(2)]] shift_count_sound(1) [of r _ \<rho>]
  by (auto simp: means64_def int64_shift_left_def int64_arithmetic_shift_right_def uint64_shift_left_def
      uint64_logical_shift_right_def uint64_shift_def Let_def split: option.split)

lemma uint64_binary_means:
  assumes "wide_operands \<rho> l r" "binary64 op = Some f" "binary32 op = None"
  shows "means64 \<rho> (f (low64 (bv_value \<rho> l)) (low64 (bv_value \<rho> r))) (uint64_binary l r (\<lambda>a b. Some (f a b)) op)"
  by (rule binaries_mean(2) [OF assms]) auto

lemma uint64_ops_mean:
  assumes "wide_operands \<rho> l r"
  shows "means64 \<rho> (low64 (bv_value \<rho> l) + low64 (bv_value \<rho> r)) (uint64_add l r)"
    "means64 \<rho> (low64 (bv_value \<rho> l) - low64 (bv_value \<rho> r)) (uint64_subtract l r)"
    "means64 \<rho> (low64 (bv_value \<rho> l) * low64 (bv_value \<rho> r)) (uint64_multiply l r)"
    "means64 \<rho> (low64 (bv_value \<rho> l) div low64 (bv_value \<rho> r)) (uint64_divide l r)"
    "means64 \<rho> (low64 (bv_value \<rho> l) mod low64 (bv_value \<rho> r)) (uint64_remainder l r)"
    "means64 \<rho> (low64 (bv_value \<rho> l) XOR low64 (bv_value \<rho> r)) (uint64_bitwise_xor l r)"
proof -
  note c = wide_constants [OF assms]
  show "means64 \<rho> (low64 (bv_value \<rho> l) + low64 (bv_value \<rho> r)) (uint64_add l r)"
    unfolding uint64_add_def
    by (intro means64_match arm_intros uint64_binary_means [OF assms])
      (auto simp: means64_def arm_def split: option.splits)
  show "means64 \<rho> (low64 (bv_value \<rho> l) - low64 (bv_value \<rho> r)) (uint64_subtract l r)"
    unfolding uint64_subtract_def
    by (intro means64_match arm_intros uint64_binary_means [OF assms])
      (auto simp: means64_def arm_def split: option.splits)
  have "means64 \<rho> (low64 (bv_value \<rho> l) * low64 (bv_value \<rho> r)) (uint64_binary l r (\<lambda>a b. Some (a * b)) Op_UInt64Multiply)"
    by (rule uint64_binary_means [OF assms]) auto
  then show "means64 \<rho> (low64 (bv_value \<rho> l) * low64 (bv_value \<rho> r)) (uint64_multiply l r)"
    using c by (auto simp: uint64_multiply_def means64_def)
  show "means64 \<rho> (low64 (bv_value \<rho> l) div low64 (bv_value \<rho> r)) (uint64_divide l r)"
    unfolding uint64_divide_def by (rule binaries_mean(2) [OF assms]) (auto dest: unsigned_division_const)
  show "means64 \<rho> (low64 (bv_value \<rho> l) mod low64 (bv_value \<rho> r)) (uint64_remainder l r)"
    unfolding uint64_remainder_def by (rule binaries_mean(2) [OF assms]) (auto dest: unsigned_division_const)
  show "means64 \<rho> (low64 (bv_value \<rho> l) XOR low64 (bv_value \<rho> r)) (uint64_bitwise_xor l r)"
    using c by (auto simp: uint64_bitwise_xor_def means64_def split: option.split)
qed

lemma nots_mean:
  assumes "null_at_zero \<rho>" "carries Width64 v"
  shows "means64 \<rho> (NOT (low64 (bv_value \<rho> v))) (int64_bitwise_not v)"
    "means64 \<rho> (NOT (low64 (bv_value \<rho> v))) (uint64_bitwise_not v)"
  using constants64 [OF assms(1) carries_consistent [OF assms(2)]]
  by (auto simp: means64_def int64_bitwise_not_def uint64_bitwise_not_def unary_value_def split: option.split)

text \<open>A mask inside a constant is lost in it.\<close>

lemma or_covers: "m AND NOT c = 0 \<Longrightarrow> (x AND m) OR c = c" "m AND NOT c = 0 \<Longrightarrow> (m AND x) OR c = c"
  for c :: "64 word"
  by (intro bit_word_eqI; simp add: bit_eq_iff bit_simps; blast)+

lemma uint64_bitwise_or_means:
  assumes "wide_operands \<rho> l r"
  shows "means64 \<rho> (low64 (bv_value \<rho> l) OR low64 (bv_value \<rho> r)) (uint64_bitwise_or l r)"
proof -
  have z: "null_at_zero \<rho>" using assms by (simp add: wide_operands_def)
  have inner: "uint64_constant a = Some c \<Longrightarrow> low64 (bv_value \<rho> a) = c" if "carries Width64 a" for a c
    by (rule constants64(1) [OF z carries_consistent [OF that]])
  show ?thesis
    unfolding uint64_bitwise_or_def
    by (intro means64_match arm_intros)
      (use wide_constants [OF assms] inner assms in
        \<open>auto simp: means64_def arm_def or_else_def or_covers wide_operands_def split: option.splits\<close>)
qed

lemma uint64_bitwise_and_means:
  "wide_operands \<rho> l r \<Longrightarrow> means64 \<rho> (low64 (bv_value \<rho> l) AND low64 (bv_value \<rho> r)) (uint64_bitwise_and l r)"
proof (induction l r rule: uint64_bitwise_and.induct)
  case (1 left right)
  have z: "null_at_zero \<rho>" and l: "carries Width64 left" and r: "carries Width64 right"
    using 1(5) by (simp_all add: wide_operands_def)
  have const: "uint64_constant a = Some c \<Longrightarrow> low64 (bv_value \<rho> a) = c" if "carries Width64 a" for a c
    by (rule constants64(1) [OF z carries_consistent [OF that]])
  have masked: "arm (means64 \<rho> (low64 (bv_value \<rho> left) AND low64 (bv_value \<rho> right)))
      (case (uint64_constant a, uint64_constant b) of
         (None, Some inner) \<Rightarrow> Some (uint64_bitwise_and a (UInt64Constant (inner AND outer)))
       | (Some inner, None) \<Rightarrow> Some (uint64_bitwise_and b (UInt64Constant (inner AND outer)))
       | _ \<Rightarrow> None)"
    if left: "left = UInt64BitwiseAnd a b" and outer: "uint64_constant right = Some outer" for a b outer
  proof -
    have ab: "carries Width64 a" "carries Width64 b" using l left by simp_all
    show ?thesis
      using 1(1,2) [OF left outer refl] const [OF ab(1)] const [OF ab(2)] const [OF r outer] ab z
      by (auto simp: arm_def left wide_operands_def means64_def and.assoc and.commute and.left_commute
          split: option.split)
  qed
  have covered: "arm (means64 \<rho> (low64 (bv_value \<rho> left) AND low64 (bv_value \<rho> right)))
      (case (uint64_constant a, uint64_constant b) of
         (None, Some c) \<Rightarrow>
           Some (uint64_bitwise_or (uint64_bitwise_and a (UInt64Constant bits)) (UInt64Constant (c AND bits)))
       | (Some c, None) \<Rightarrow>
           Some (uint64_bitwise_or (uint64_bitwise_and b (UInt64Constant bits)) (UInt64Constant (c AND bits)))
       | _ \<Rightarrow> None)"
    if left: "left = UInt64BitwiseOr a b" and bits: "uint64_constant right = Some bits" for a b bits
  proof -
    have ab: "carries Width64 a" "carries Width64 b" using l left by simp_all
    have x: "wide_operands \<rho> (uint64_bitwise_and x (UInt64Constant bits)) (UInt64Constant y)"
      if "carries Width64 x" for x y
      using that z by (simp add: wide_operands_def uint64_bitwise_and_carries)
    note meanings = uint64_bitwise_or_means [OF x, unfolded means64_def] 1(3,4) [OF left bits refl]
    show ?thesis
      using meanings const [OF ab(1)] const [OF ab(2)] const [OF r bits] ab z
      by (auto simp: arm_def left wide_operands_def means64_def bit.conj_disj_distrib2 or.commute
          split: option.split)
  qed
  show ?case
    unfolding uint64_bitwise_and.simps [of left right]
    by (intro means64_match arm_intros masked covered)
      (use const l r in \<open>auto simp: means64_def arm_def split: option.splits\<close>)
qed

section \<open>The constructors as a whole\<close>

text \<open>C27: Every 64-bit term constructor denotes its operator on the 64-bit carrier and keeps
  widths consistent. Folding goes through checked constants, so a signed sum or product that
  would overflow is left symbolic and the term still has the wrapped value.\<close>

theorem wide_constructors_exact:
  assumes "null_at_zero \<rho>" "carries Width64 l" "carries Width64 r"
  shows "low64 (bv_value \<rho> (int64_add l r)) = low64 (bv_value \<rho> l) + low64 (bv_value \<rho> r)
   \<and> low64 (bv_value \<rho> (int64_subtract l r)) = low64 (bv_value \<rho> l) - low64 (bv_value \<rho> r)
   \<and> low64 (bv_value \<rho> (int64_multiply l r)) = low64 (bv_value \<rho> l) * low64 (bv_value \<rho> r)
   \<and> low64 (bv_value \<rho> (int64_divide l r)) = signed_div (low64 (bv_value \<rho> l)) (low64 (bv_value \<rho> r))
   \<and> low64 (bv_value \<rho> (int64_remainder l r)) = signed_rem (low64 (bv_value \<rho> l)) (low64 (bv_value \<rho> r))
   \<and> low64 (bv_value \<rho> (int64_shift_left l r)) = push_bit (unat (low64 (bv_value \<rho> r))) (low64 (bv_value \<rho> l))
   \<and> low64 (bv_value \<rho> (int64_arithmetic_shift_right l r))
       = signed_drop_bit (unat (low64 (bv_value \<rho> r))) (low64 (bv_value \<rho> l))
   \<and> low64 (bv_value \<rho> (int64_bitwise_and l r)) = low64 (bv_value \<rho> l) AND low64 (bv_value \<rho> r)
   \<and> low64 (bv_value \<rho> (int64_bitwise_or l r)) = low64 (bv_value \<rho> l) OR low64 (bv_value \<rho> r)
   \<and> low64 (bv_value \<rho> (int64_bitwise_xor l r)) = low64 (bv_value \<rho> l) XOR low64 (bv_value \<rho> r)
   \<and> low64 (bv_value \<rho> (int64_bitwise_not l)) = NOT (low64 (bv_value \<rho> l))
   \<and> low64 (bv_value \<rho> (uint64_add l r)) = low64 (bv_value \<rho> l) + low64 (bv_value \<rho> r)
   \<and> low64 (bv_value \<rho> (uint64_subtract l r)) = low64 (bv_value \<rho> l) - low64 (bv_value \<rho> r)
   \<and> low64 (bv_value \<rho> (uint64_multiply l r)) = low64 (bv_value \<rho> l) * low64 (bv_value \<rho> r)
   \<and> low64 (bv_value \<rho> (uint64_divide l r)) = low64 (bv_value \<rho> l) div low64 (bv_value \<rho> r)
   \<and> low64 (bv_value \<rho> (uint64_remainder l r)) = low64 (bv_value \<rho> l) mod low64 (bv_value \<rho> r)
   \<and> low64 (bv_value \<rho> (uint64_shift_left l r)) = push_bit (unat (low64 (bv_value \<rho> r))) (low64 (bv_value \<rho> l))
   \<and> low64 (bv_value \<rho> (uint64_logical_shift_right l r)) = drop_bit (unat (low64 (bv_value \<rho> r))) (low64 (bv_value \<rho> l))
   \<and> low64 (bv_value \<rho> (uint64_bitwise_and l r)) = low64 (bv_value \<rho> l) AND low64 (bv_value \<rho> r)
   \<and> low64 (bv_value \<rho> (uint64_bitwise_or l r)) = low64 (bv_value \<rho> l) OR low64 (bv_value \<rho> r)
   \<and> low64 (bv_value \<rho> (uint64_bitwise_xor l r)) = low64 (bv_value \<rho> l) XOR low64 (bv_value \<rho> r)
   \<and> low64 (bv_value \<rho> (uint64_bitwise_not l)) = NOT (low64 (bv_value \<rho> l))
   \<and> list_all (carries Width64)
       [int64_add l r, int64_subtract l r, int64_multiply l r, int64_divide l r, int64_remainder l r,
        int64_shift_left l r, int64_arithmetic_shift_right l r, int64_bitwise_and l r,
        int64_bitwise_or l r, int64_bitwise_xor l r, int64_bitwise_not l,
        uint64_add l r, uint64_subtract l r, uint64_multiply l r, uint64_divide l r,
        uint64_remainder l r, uint64_shift_left l r, uint64_logical_shift_right l r,
        uint64_bitwise_and l r, uint64_bitwise_or l r, uint64_bitwise_xor l r, uint64_bitwise_not l]"
proof -
  have w: "wide_operands \<rho> l r" using assms by (simp add: wide_operands_def)
  have r: "consistent r" by (rule carries_consistent [OF assms(3)])
  show ?thesis
    using int64_ops_mean [OF w] uint64_ops_mean [OF w] shifts_mean [OF assms(1,2), of r]
      nots_mean [OF assms(1,2)] uint64_bitwise_or_means [OF w] uint64_bitwise_and_means [OF w]
      int64_ops_carry [OF assms(2,3)] uint64_ops_carry [OF assms(2,3)] shifts_carry [OF assms(2) r]
      uint64_bitwise_or_carries [OF assms(2,3)] uint64_bitwise_and_carries [OF assms(2,3)]
    by (simp add: means64_def)
qed

theorem wide_constructors_exact_witness:
  "low64 (bv_value zero_valuation (uint64_bitwise_and
     (UInt64BitwiseOr (Variable (Variable_Of 0 Ordinary)) (UInt64Constant 12)) (UInt64Constant 10))) = 8"
  using wide_constructors_exact [OF zero_valuation_null,
      of "UInt64BitwiseOr (Variable (Variable_Of 0 Ordinary)) (UInt64Constant 12)" "UInt64Constant 10"]
  by (simp add: zero_valuation_def)

text \<open>C28: The conversions between carriers keep the value they convert: widening extends by
  the sign or by zero, narrowing keeps the low 32 bits even through a sum or difference it
  moves inside the narrower arithmetic, and a change of signedness keeps the bits.\<close>

theorem conversion_terms_exact:
  assumes "carries Width32 v" "carries Width64 w"
  shows "low64 (bv_value \<rho> (int64_from_32 v)) = scast (low32 (bv_value \<rho> v))
   \<and> low64 (bv_value \<rho> (uint64_from_32 v)) = ucast (low32 (bv_value \<rho> v))
   \<and> low64 (bv_value \<rho> (int64_from_uint32 v)) = ucast (low32 (bv_value \<rho> v))
   \<and> low64 (bv_value \<rho> (uint64_from_int32 v)) = scast (low32 (bv_value \<rho> v))
   \<and> low32 (bv_value \<rho> (uint32_from_64 w)) = low32 (bv_value \<rho> w)
   \<and> low64 (bv_value \<rho> (uint64_from_int64 w)) = low64 (bv_value \<rho> w)
   \<and> low64 (bv_value \<rho> (int64_from_uint64_bits w)) = low64 (bv_value \<rho> w)
   \<and> carries Width32 (uint32_from_64 w)
   \<and> list_all (carries Width64) [int64_from_32 v, uint64_from_32 v, int64_from_uint32 v,
        uint64_from_int32 v, uint64_from_int64 w, int64_from_uint64_bits w]"
  using conversions_mean [OF assms(1), of \<rho>] uint32_from_64_means [of \<rho> w] uint64_from_int64_means [of \<rho> w]
    int64_from_uint64_bits_means [OF assms(2), of \<rho>] conversions_carry(1-4) [OF assms(1)]
    conversions_carry(5) [OF assms(2)] uint32_from_64_carries [OF assms(2)]
    int64_from_uint64_bits_carries [OF assms(2)]
  by (simp add: means64_def means32_def)

theorem conversion_terms_exact_witness:
  "low64 (bv_value zero_valuation (int64_from_32 (Constant (- 1)))) = - 1"
  using conversion_terms_exact [of "Constant (- 1)" "UInt64Constant 0" zero_valuation] by simp

end
