(* ===== verification/OffsetTerms.thy ===== *)
theory OffsetTerms
  imports WideOps
begin

unbundle bit_operations_syntax

text \<open>
  Pointer offsets and the equality of pointers: \<^verbatim>\<open>PointerOffsetTerm\<close>'s operations and
  the \<^verbatim>\<open>pointer_equal\<close> constructors of
  \<^verbatim>\<open>src/src/kernel/primitives/term_operations.rs\<close>, and
  \<^verbatim>\<open>PointerBlock::proven_distinct\<close> of \<^verbatim>\<open>src/src/kernel/primitives.rs\<close>. Offsets are
  64-bit byte displacements; unchecked sums wrap, as in a release build.
\<close>

section \<open>Offsets\<close>

definition MAX_LEAVES :: nat where "MAX_LEAVES = 64"
definition MAX_STRIDE :: int where "MAX_STRIDE = 2 ^ 24"
definition MAX_CONSTANT :: int where "MAX_CONSTANT = 2 ^ 48"

text \<open>The walk keeps a stack of terms, the leaves seen, the scaled leaves and the constant.\<close>

function linear_walk ::
  "'x offset list \<Rightarrow> nat \<Rightarrow> ('x bv \<times> int) list \<Rightarrow> int \<Rightarrow> (('x bv \<times> int) list \<times> int) option" where
  "linear_walk [] leaves scaled c = Some (scaled, c)"
| "linear_walk (term # pending) leaves scaled c =
     (if Suc leaves > MAX_LEAVES then None
      else
        (case term of
           Off_Add left right \<Rightarrow> linear_walk (left # right # pending) (Suc leaves) scaled c
         | Off_Constant v \<Rightarrow>
             if \<bar>sint v\<bar> < MAX_CONSTANT then linear_walk pending (Suc leaves) scaled (c + sint v)
             else None
         | Int32Scaled v w \<Rightarrow>
             if \<bar>sint w\<bar> \<le> MAX_STRIDE then linear_walk pending (Suc leaves) (scaled @ [(v, sint w)]) c
             else None
         | _ \<Rightarrow> None))"
  by pat_completeness auto
termination by (relation "measure (\<lambda>(_, leaves, _). Suc MAX_LEAVES - leaves)") auto

declare linear_walk.simps(2) [simp del]

definition int32_scaled_linear_form :: "'x offset \<Rightarrow> (('x bv \<times> int) list \<times> int) option" where
  "int32_scaled_linear_form offset = linear_walk [offset] 0 [] 0"

definition i64_try_from :: "64 word \<Rightarrow> 64 word option" where
  "i64_try_from w = (if uint w < 2 ^ 63 then Some w else None)"

fun offset_as_const :: "'x offset \<Rightarrow> 64 word option" where
  "offset_as_const (Off_Constant v) = Some v"
| "offset_as_const (Off_Variable x) = None"
| "offset_as_const (Off_Add left right) =
     (case offset_as_const left of
        None \<Rightarrow> None
      | Some l \<Rightarrow>
          (case offset_as_const right of None \<Rightarrow> None | Some r \<Rightarrow> i64_checked (+) l r))"
| "offset_as_const (Int32Scaled v w) =
     (case as_const v of None \<Rightarrow> None | Some value \<Rightarrow> i64_checked (*) (scast value) w)"
| "offset_as_const (Int64Scaled v w u) =
     (case (if u then Option.bind (uint64_constant v) i64_try_from else int64_constant v) of
        None \<Rightarrow> None
      | Some value \<Rightarrow> i64_checked (*) value w)"

function offset_add :: "'x offset \<Rightarrow> 'x offset \<Rightarrow> 'x offset" where
  "offset_add left right =
     (case (offset_as_const left, offset_as_const right) of
        (Some l, Some r) \<Rightarrow> Off_Constant (l + r)
      | _ \<Rightarrow>
          if offset_as_const left = Some 0 then right
          else if offset_as_const right = Some 0 then left
          else
            (case (left, right) of
               (Off_Add base trailing, Off_Constant r) \<Rightarrow>
                 (case offset_as_const trailing of
                    Some t \<Rightarrow> offset_add base (Off_Constant (t + r))
                  | None \<Rightarrow> Off_Add left right)
             | _ \<Rightarrow> Off_Add left right))"
  by pat_completeness auto
termination by (relation "measure (\<lambda>(l, r). size l)") auto

declare offset_add.simps [simp del]

definition scale_int32 :: "'x bv \<Rightarrow> 64 word \<Rightarrow> 'x offset" where
  "scale_int32 v w =
     (case as_const v of
        Some value \<Rightarrow> Off_Constant (scast value * w)
      | None \<Rightarrow> Int32Scaled v w)"

definition u32_try_from :: "64 word \<Rightarrow> 32 word option" where
  "u32_try_from w = (if 0 \<le> sint w \<and> sint w < 2 ^ 32 then Some (ucast w) else None)"

definition int64_parts :: "'x bv \<Rightarrow> 64 word option" where
  "int64_parts t = (case t of Int64Constant w \<Rightarrow> Some w | _ \<Rightarrow> None)"

definition extended_parts :: "'x bv \<Rightarrow> 'x bv option" where
  "extended_parts t = (case t of Unary op v \<Rightarrow> if op = Op_Int64From32 then Some v else None | _ \<Rightarrow> None)"

text \<open>The arm for an extended index times a constant stride.\<close>

definition scaled_index :: "64 word \<Rightarrow> 'x bv \<Rightarrow> 'x bv \<Rightarrow> 'x offset option" where
  "scaled_index bytes index stride =
     (case (extended_parts index, int64_parts stride) of
        (Some index, Some stride) \<Rightarrow>
          (case u32_try_from stride of
             None \<Rightarrow> None
           | Some stride \<Rightarrow>
               (case i64_checked (*) (ucast stride) bytes of
                  None \<Rightarrow> None
                | Some width \<Rightarrow>
                    if u32_try_from width \<noteq> None then Some (scale_int32 index width) else None))
      | _ \<Rightarrow> None)"

definition scale_int64 :: "'x bv \<Rightarrow> 64 word \<Rightarrow> bool \<Rightarrow> 'x offset" where
  "scale_int64 v bytes u =
     first_match
       (if u then []
        else
          [(case extended_parts v of
              Some index \<Rightarrow> if u32_try_from bytes \<noteq> None then Some (scale_int32 index bytes) else None
            | None \<Rightarrow> None),
           on_parts Op_Int64Multiply v (\<lambda>left right. scaled_index bytes left right),
           on_parts Op_Int64Multiply v (\<lambda>left right. scaled_index bytes right left)])
       (case (if u
              then Option.bind (uint64_constant v)
                     (\<lambda>value. Option.bind (i64_try_from value) (\<lambda>value. i64_checked (*) value bytes))
              else Option.bind (int64_constant v) (\<lambda>value. i64_checked (*) value bytes)) of
          Some value \<Rightarrow> Off_Constant value
        | None \<Rightarrow> Int64Scaled v bytes u)"

text \<open>Euclid's algorithm on two 64-bit magnitudes.\<close>

function gcd_u64 :: "nat \<Rightarrow> nat \<Rightarrow> nat" where
  "gcd_u64 left right = (if right \<noteq> 0 then gcd_u64 right (left mod right) else left)"
  by pat_completeness auto
termination by (relation "measure (\<lambda>(l, r). r)") auto

declare gcd_u64.simps [simp del]

definition pointer_offsets_differ_by_residue :: "'x offset \<Rightarrow> 'x offset \<Rightarrow> bool" where
  "pointer_offsets_differ_by_residue left right =
     (case (int32_scaled_linear_form left, int32_scaled_linear_form right) of
        (Some (left_scaled, left_constant), Some (right_scaled, right_constant)) \<Rightarrow>
          (let divisor = foldl (\<lambda>divisor (_, stride). gcd_u64 divisor (nat \<bar>stride\<bar>)) 0
                           (left_scaled @ right_scaled)
           in divisor > 1 \<and> nat \<bar>left_constant - right_constant\<bar> mod divisor \<noteq> 0)
      | _ \<Rightarrow> False)"

definition pointer_offset_equal :: "'x offset \<Rightarrow> 'x offset \<Rightarrow> 'x cond" where
  "pointer_offset_equal left right =
     (case (offset_as_const left, offset_as_const right) of
        (Some l, Some r) \<Rightarrow> Cond_Constant (l = r)
      | _ \<Rightarrow>
          if pointer_offsets_differ_by_residue left right then Cond_Constant False
          else PointerOffsetEqual left right)"

section \<open>Blocks\<close>

text \<open>
  What the verifier's registries say of a block at the time of a question: locals whose
  address is never taken, variables that name loads, and loads read before an object existed.
\<close>

record 'x block_registry =
  reg_hidden_local :: "'x pointer_block \<Rightarrow> bool"
  reg_load_variable :: "variable \<Rightarrow> bool"
  reg_variable_predates :: "variable \<Rightarrow> 'x pointer_block \<Rightarrow> bool"
  reg_read_predates :: "nat \<Rightarrow> 'x pointer_block \<Rightarrow> bool"

text \<open>A registry that knows nothing of any block, for the examples.\<close>

definition bare_registry :: "'x block_registry" where
  "bare_registry =
     \<lparr>reg_hidden_local = (\<lambda>_. False), reg_load_variable = (\<lambda>_. False),
      reg_variable_predates = (\<lambda>_ _. False), reg_read_predates = (\<lambda>_ _. False)\<rparr>"

definition block_starts_with :: "'x pointer_block \<Rightarrow> string \<Rightarrow> bool" where
  "block_starts_with block pre =
     (case block of
        Concrete name \<Rightarrow> take (length pre) name = pre
      | StringLiteral _ _ \<Rightarrow> pre = ''string:''
      | _ \<Rightarrow> False)"

definition is_local_block :: "'x pointer_block \<Rightarrow> bool" where
  "is_local_block block = block_starts_with block ''local:''"

definition hidden_from :: "'x block_registry \<Rightarrow> 'x pointer_block \<Rightarrow> 'x pointer_block \<Rightarrow> bool" where
  "hidden_from reg v local \<longleftrightarrow>
     (case v of
        Symbolic _ \<Rightarrow> True | LoadedPointer _ \<Rightarrow> True | FunctionSymbolic _ \<Rightarrow> True
      | ExternalArgument \<Rightarrow> True | ExternalObject _ \<Rightarrow> True | _ \<Rightarrow> False)
     \<and> reg_hidden_local reg local"

definition loaded_before :: "'x block_registry \<Rightarrow> 'x pointer_block \<Rightarrow> 'x pointer_block \<Rightarrow> bool" where
  "loaded_before reg v object =
     (case v of
        Symbolic x \<Rightarrow> reg_load_variable reg x \<and> reg_variable_predates reg x object
      | LoadedPointer i \<Rightarrow> reg_read_predates reg i object
      | _ \<Rightarrow> False)"

definition any_address :: "'x pointer_block \<Rightarrow> bool" where
  "any_address block =
     (case block of
        Symbolic _ \<Rightarrow> True | LoadedPointer _ \<Rightarrow> True | PureApplicationBlock _ \<Rightarrow> True | _ \<Rightarrow> False)"

definition local_versus_argument :: "'x pointer_block \<Rightarrow> 'x pointer_block \<Rightarrow> bool" where
  "local_versus_argument left right \<longleftrightarrow>
     is_local_block left
     \<and> (case right of ExternalArgument \<Rightarrow> True | ExternalObject _ \<Rightarrow> True | _ \<Rightarrow> False)"

definition literal_versus_declared :: "'x pointer_block \<Rightarrow> 'x pointer_block \<Rightarrow> bool" where
  "literal_versus_declared left right \<longleftrightarrow>
     (case left of StringLiteral _ _ \<Rightarrow> True | _ \<Rightarrow> False)
     \<and> (case right of Concrete _ \<Rightarrow> True | Function_Block _ \<Rightarrow> True | _ \<Rightarrow> False)"

definition own_storage :: "'x pointer_block \<Rightarrow> bool" where
  "own_storage block = (case block of Heap _ \<Rightarrow> True | Temporary _ \<Rightarrow> True | _ \<Rightarrow> False)"

definition proven_distinct :: "'x block_registry \<Rightarrow> 'x pointer_block \<Rightarrow> 'x pointer_block \<Rightarrow> bool" where
  "proven_distinct reg self other =
     (if hidden_from reg self other \<or> hidden_from reg other self then True
      else if loaded_before reg self other \<or> loaded_before reg other self then True
      else if any_address self \<or> any_address other then False
      else
        self \<noteq> other
        \<and> (own_storage self \<or> own_storage other
           \<or> (case (self, other) of
                (StringLiteral _ left, StringLiteral _ right) \<Rightarrow> left \<noteq> right
              | (Concrete left, Concrete right) \<Rightarrow> left \<noteq> right
              | _ \<Rightarrow> False)
           \<or> literal_versus_declared self other \<or> literal_versus_declared other self
           \<or> local_versus_argument self other \<or> local_versus_argument other self))"

definition may_alias :: "'x block_registry \<Rightarrow> 'x pointer_block \<Rightarrow> 'x pointer_block \<Rightarrow> bool" where
  "may_alias reg self other = (\<not> proven_distinct reg self other)"

section \<open>Pointers\<close>

definition blocks_proven_distinct :: "'x block_registry \<Rightarrow> 'x pointer \<Rightarrow> 'x pointer \<Rightarrow> bool" where
  "blocks_proven_distinct reg left right =
     proven_distinct reg (pointer_block left) (pointer_block right)"

definition pointer_equal :: "'x block_registry \<Rightarrow> 'x pointer \<Rightarrow> 'x pointer \<Rightarrow> 'x cond" where
  "pointer_equal reg left right =
     (if blocks_proven_distinct reg left right then Cond_Constant False
      else if pointer_block left = pointer_block right then
        (case pointer_offset_equal (pointer_offset left) (pointer_offset right) of
           Cond_Constant v \<Rightarrow>
             if v \<and> (case pointer_block left of LoadedPointer _ \<Rightarrow> True | _ \<Rightarrow> False)
             then PointerEqual left right
             else Cond_Constant v
         | _ \<Rightarrow> PointerEqual left right)
      else PointerEqual left right)"

section \<open>The linear form\<close>

definition scaled_sum :: "'x valuation \<Rightarrow> ('x bv \<times> int) list \<Rightarrow> int" where
  "scaled_sum \<rho> scaled = sum_list (map (\<lambda>(v, stride). sint (low32 (bv_value \<rho> v)) * stride) scaled)"

definition pending_sum :: "'x valuation \<Rightarrow> 'x offset list \<Rightarrow> int" where
  "pending_sum \<rho> pending = sum_list (map (offset_value \<rho>) pending)"

lemma linear_walk_sound:
  "linear_walk pending leaves scaled c = Some (scaled', c') \<Longrightarrow>
   scaled_sum \<rho> scaled' + c' = scaled_sum \<rho> scaled + c + pending_sum \<rho> pending"
proof (induction pending leaves scaled c rule: linear_walk.induct)
  case (2 t pending leaves scaled c)
  then show ?case
    by (cases t) (auto simp: linear_walk.simps(2) scaled_sum_def pending_sum_def split: if_splits)
qed (simp add: pending_sum_def)

text \<open>The constant and the sum of any values of the leaves stay inside a 64-bit integer.\<close>

lemma linear_walk_bounds:
  "linear_walk pending leaves scaled c = Some (scaled', c') \<Longrightarrow>
   \<bar>c\<bar> \<le> int (leaves - length scaled) * 2 ^ 48 \<Longrightarrow> length scaled \<le> leaves \<Longrightarrow> leaves \<le> 64 \<Longrightarrow>
   list_all (\<lambda>(_, stride). \<bar>stride\<bar> \<le> 2 ^ 24) scaled \<Longrightarrow>
   \<exists>n \<le> 64. length scaled' \<le> n \<and> \<bar>c'\<bar> \<le> int (n - length scaled') * 2 ^ 48
     \<and> list_all (\<lambda>(_, stride). \<bar>stride\<bar> \<le> 2 ^ 24) scaled'"
proof (induction pending leaves scaled c rule: linear_walk.induct)
  case (1 leaves scaled c)
  then show ?case by auto
next
  case (2 t pending leaves scaled c)
  have leaves: "Suc leaves \<le> 64"
    using 2(4) by (simp add: linear_walk.simps(2) MAX_LEAVES_def split: if_splits)
  have grow: "\<bar>c\<bar> \<le> int (Suc leaves - length scaled) * 2 ^ 48"
    using 2(5,6) by (simp add: Suc_diff_le)
  show ?case
  proof (cases t)
    case (Off_Add left right)
    then show ?thesis using 2 leaves grow by (simp add: linear_walk.simps(2) split: if_splits)
  next
    case (Off_Constant v)
    have "\<bar>sint v\<bar> < 2 ^ 48"
      using 2(4) by (simp add: Off_Constant linear_walk.simps(2) MAX_CONSTANT_def split: if_splits)
    then have "\<bar>c + sint v\<bar> \<le> int (Suc leaves - length scaled) * 2 ^ 48"
      using 2(5,6) by (simp add: Suc_diff_le abs_le_iff abs_less_iff)
    then show ?thesis using 2 leaves by (simp add: Off_Constant linear_walk.simps(2) split: if_splits)
  next
    case (Int32Scaled v w)
    have "\<bar>sint w\<bar> \<le> 2 ^ 24"
      using 2(4) by (simp add: Int32Scaled linear_walk.simps(2) MAX_STRIDE_def split: if_splits)
    then show ?thesis using 2 leaves by (simp add: Int32Scaled linear_walk.simps(2) split: if_splits)
  qed (use 2(4) in \<open>simp_all add: linear_walk.simps(2) split: if_splits\<close>)
qed

lemma linear_form_sound:
  "int32_scaled_linear_form a = Some (scaled, c) \<Longrightarrow> offset_value \<rho> a = scaled_sum \<rho> scaled + c"
  using linear_walk_sound [of "[a]" 0 "[]" 0 scaled c \<rho>]
  by (simp add: int32_scaled_linear_form_def scaled_sum_def pending_sum_def)

lemma gcd_u64_gcd: "gcd_u64 a b = gcd a b"
proof (induction a b rule: gcd_u64.induct)
  case (1 a b)
  then show ?case by (cases "b = 0") (simp_all add: gcd_u64.simps [of a 0] gcd_u64.simps [of a b] gcd_red_nat [of a b])
qed

definition stride_gcd :: "nat \<Rightarrow> ('x bv \<times> int) list \<Rightarrow> nat" where
  "stride_gcd = foldl (\<lambda>divisor (_, stride). gcd_u64 divisor (nat \<bar>stride\<bar>))"

lemma stride_gcd_simps:
  "stride_gcd d [] = d"
  "stride_gcd d ((v, s) # scaled) = stride_gcd (gcd_u64 d (nat \<bar>s\<bar>)) scaled"
  by (simp_all add: stride_gcd_def)

lemma stride_gcd_dvd: "stride_gcd d scaled dvd d"
proof (induction scaled arbitrary: d)
  case (Cons x scaled)
  obtain v s where x: "x = (v, s)" by (rule prod.exhaust)
  have "gcd_u64 d (nat \<bar>s\<bar>) dvd d" unfolding gcd_u64_gcd by (rule gcd_dvd1)
  with Cons.IH show ?case unfolding x stride_gcd_simps by (rule dvd_trans)
qed (simp add: stride_gcd_simps)

lemma stride_gcd_dvd_stride: "(v, s) \<in> set scaled \<Longrightarrow> int (stride_gcd d scaled) dvd s"
proof (induction scaled arbitrary: d)
  case (Cons x scaled)
  obtain v' s' where x: "x = (v', s')" by (rule prod.exhaust)
  have "stride_gcd (gcd_u64 d (nat \<bar>s'\<bar>)) scaled dvd nat \<bar>s'\<bar>"
    by (rule dvd_trans [OF stride_gcd_dvd]) (unfold gcd_u64_gcd, rule gcd_dvd2)
  then have "int (stride_gcd (gcd_u64 d (nat \<bar>s'\<bar>)) scaled) dvd s'"
    by (metis dvd_abs_iff int_dvd_int_iff nat_0_le abs_ge_zero)
  then show ?case using Cons by (auto simp: x stride_gcd_simps)
qed simp

lemma scaled_sum_dvd: "\<forall>(v, stride) \<in> set scaled. d dvd stride \<Longrightarrow> d dvd scaled_sum \<rho> scaled"
  by (induction scaled) (auto simp: scaled_sum_def)

lemma differ_by_residue_sound:
  assumes "pointer_offsets_differ_by_residue a b"
  shows "offset_value \<rho> a \<noteq> offset_value \<rho> b"
proof
  assume eq: "offset_value \<rho> a = offset_value \<rho> b"
  obtain ls lc rs rc where l: "int32_scaled_linear_form a = Some (ls, lc)"
    and r: "int32_scaled_linear_form b = Some (rs, rc)"
    using assms by (auto simp: pointer_offsets_differ_by_residue_def split: option.splits)
  let ?d = "stride_gcd 0 (ls @ rs)"
  have d: "nat \<bar>lc - rc\<bar> mod ?d \<noteq> 0"
    using assms by (simp add: pointer_offsets_differ_by_residue_def l r Let_def stride_gcd_def)
  have "int ?d dvd scaled_sum \<rho> ls" "int ?d dvd scaled_sum \<rho> rs"
    using stride_gcd_dvd_stride [of _ _ "ls @ rs" 0] by (fastforce intro!: scaled_sum_dvd)+
  moreover have "lc - rc = scaled_sum \<rho> rs - scaled_sum \<rho> ls"
    using eq linear_form_sound [OF l, of \<rho>] linear_form_sound [OF r, of \<rho>] by simp
  ultimately have "int ?d dvd \<bar>lc - rc\<bar>" by simp
  then have "?d dvd nat \<bar>lc - rc\<bar>" by (metis int_dvd_int_iff nat_0_le abs_ge_zero)
  then show False using d by simp
qed

section \<open>Folded offsets\<close>

fun scaled_terms :: "'x offset \<Rightarrow> 'x bv list" where
  "scaled_terms (Off_Add a b) = scaled_terms a @ scaled_terms b"
| "scaled_terms (Int64Scaled v w u) = [v]"
| "scaled_terms _ = []"

definition offset_consistent :: "'x offset \<Rightarrow> bool" where
  "offset_consistent a \<longleftrightarrow> list_all consistent (scaled_terms a)"

lemma offset_consistent_simps [simp]:
  "offset_consistent (Off_Constant w)" "offset_consistent (Off_Variable x)"
  "offset_consistent (Off_Add a b) \<longleftrightarrow> offset_consistent a \<and> offset_consistent b"
  "offset_consistent (Int32Scaled v w)" "offset_consistent (Int64Scaled v w u) \<longleftrightarrow> consistent v"
  by (simp_all add: offset_consistent_def)

lemma sint_wi_eq: "sint (word_of_int x :: 64 word) = signed_take_bit 63 x"
  by transfer simp

lemma i64_checked_sint: "i64_checked f a b = Some v \<Longrightarrow> sint v = f (sint a) (sint b)"
  by (auto simp: i64_checked_def Let_def sint_wi_eq signed_take_bit_int_eq_self split: if_splits)

lemma i64_try_from_uint: "i64_try_from w = Some v \<Longrightarrow> sint v = uint w"
  using signed_take_bit_int_eq_self [of 63 "uint w"] order_trans [of "- (2 ^ 63)" "0 :: int" "uint w"]
  by (auto simp: i64_try_from_def sint_uint split: if_splits)

lemma sint_scast [simp]: "sint (scast (w :: 32 word) :: 64 word) = sint w"
  by (simp add: sint_up_scast is_up)

lemma offset_as_const_sound:
  assumes "null_at_zero \<rho>"
  shows "offset_consistent a \<Longrightarrow> offset_as_const a = Some c \<Longrightarrow> offset_value \<rho> a = sint c"
proof (induction a arbitrary: c rule: offset_as_const.induct)
  case (4 v w)
  then show ?case by (auto simp: as_const_sound i64_checked_sint split: option.splits)
next
  case (5 v w u)
  then show ?case
    using constants64(1) [OF assms, of v] constants64(2) [OF assms, of v]
    by (auto simp: i64_checked_sint i64_try_from_uint bind_eq_Some_conv split: option.splits if_splits)
qed (auto simp: i64_checked_sint split: option.splits)

text \<open>Two displacements that agree as machine words.\<close>

definition words_agree :: "int \<Rightarrow> int \<Rightarrow> bool" where
  "words_agree x y \<longleftrightarrow> (word_of_int x :: 64 word) = word_of_int y"

lemma words_agree_refl [simp]: "words_agree x x"
  by (simp add: words_agree_def)

lemma words_agree_sint [simp]:
  "words_agree (sint (a + b)) (sint a + sint b)" "words_agree (sint (a * b)) (sint a * sint b)"
  for a b :: "64 word"
  by (simp_all add: words_agree_def)

lemma words_agree_add: "words_agree x x' \<Longrightarrow> words_agree y y' \<Longrightarrow> words_agree (x + y) (x' + y')"
  unfolding words_agree_def by (simp only: wi_hom_add [symmetric])

lemma words_agree_exact:
  assumes "words_agree x y" and "- (2 ^ 63) \<le> x" "x < 2 ^ 63" and "- (2 ^ 63) \<le> y" "y < 2 ^ 63"
  shows "x = y"
proof -
  have "sint (word_of_int x :: 64 word) = sint (word_of_int y :: 64 word)"
    using assms(1) by (simp add: words_agree_def)
  then show ?thesis using assms by (simp add: sint_wi_eq signed_take_bit_int_eq_self)
qed

text \<open>A sum of offsets is exact up to the wrap of its constants.\<close>

lemma offset_add_cases:
  obtains (both) l r where "offset_as_const a = Some l" "offset_as_const b = Some r"
  | (left) "offset_as_const a = Some 0" "offset_as_const b = None"
  | (right) "offset_as_const a = None" "offset_as_const b = Some 0"
  | (chain) base trailing t r where "a = Off_Add base trailing" "b = Off_Constant r"
      "offset_as_const trailing = Some t" "offset_add a b = offset_add base (Off_Constant (t + r))"
  | (plain) "offset_add a b = Off_Add a b"
proof (cases "offset_as_const a = None \<or> offset_as_const b = None")
  case False
  then show thesis using both by auto
next
  case open_case: True
  show thesis
  proof (cases "offset_as_const a = Some 0 \<or> offset_as_const b = Some 0")
    case True
    then show thesis using open_case left right by auto
  next
    case False
    then have rest: "offset_add a b =
      (case (a, b) of
         (Off_Add base trailing, Off_Constant r) \<Rightarrow>
           (case offset_as_const trailing of
              Some t \<Rightarrow> offset_add base (Off_Constant (t + r))
            | None \<Rightarrow> Off_Add a b)
       | _ \<Rightarrow> Off_Add a b)"
      using open_case by (subst offset_add.simps) (auto split: option.split)
    show thesis
    proof (cases "(\<exists>base trailing. a = Off_Add base trailing) \<and> (\<exists>r. b = Off_Constant r)")
      case True
      then obtain base trailing r where "a = Off_Add base trailing" "b = Off_Constant r" by blast
      then show thesis
        using rest chain plain by (cases "offset_as_const trailing") simp_all
    next
      case False
      then have "offset_add a b = Off_Add a b" unfolding rest by (cases a; cases b) simp_all
      then show thesis by (rule plain)
    qed
  qed
qed

lemma offset_add_word:
  assumes "null_at_zero \<rho>"
  shows "offset_consistent a \<Longrightarrow> offset_consistent b \<Longrightarrow>
    offset_consistent (offset_add a b)
    \<and> words_agree (offset_value \<rho> (offset_add a b)) (offset_value \<rho> a + offset_value \<rho> b)"
proof (induction "size a" arbitrary: a b rule: less_induct)
  case less
  note const = offset_as_const_sound [OF assms]
  consider
      (both) l r where "offset_as_const a = Some l" "offset_as_const b = Some r"
    | (left) "offset_as_const a = Some 0" "offset_as_const b = None"
    | (right) "offset_as_const a = None" "offset_as_const b = Some 0"
    | (chain) base trailing t r where "a = Off_Add base trailing" "b = Off_Constant r"
        "offset_as_const trailing = Some t" "offset_add a b = offset_add base (Off_Constant (t + r))"
    | (plain) "offset_add a b = Off_Add a b"
    by (rule offset_add_cases)
  then show ?case
  proof cases
    case both
    then show ?thesis using less(2,3) by (simp add: offset_add.simps [of a b] const)
  next
    case left
    then show ?thesis using less(2,3) by (simp add: offset_add.simps [of a b] const [of a 0])
  next
    case right
    then show ?thesis using less(2,3) by (simp add: offset_add.simps [of a b] const [of b 0])
  next
    case chain
    have "offset_consistent (offset_add base (Off_Constant (t + r)))
      \<and> words_agree (offset_value \<rho> (offset_add base (Off_Constant (t + r))))
          (offset_value \<rho> base + offset_value \<rho> (Off_Constant (t + r)))"
      using less(2) by (intro less(1)) (simp_all add: chain(1))
    moreover have "words_agree (offset_value \<rho> base + sint (t + r)) (offset_value \<rho> a + offset_value \<rho> b)"
      using words_agree_add [OF words_agree_refl words_agree_sint(1), of "offset_value \<rho> base" t r]
        less(2) const [OF _ chain(3)]
      by (simp add: chain(1,2) add.assoc)
    ultimately show ?thesis by (simp add: chain(4) words_agree_def)
  next
    case plain
    then show ?thesis using less(2,3) by simp
  qed
qed

text \<open>Scaling.\<close>

lemma u32_round_trip:
  fixes w :: "64 word"
  assumes "0 \<le> sint w" "sint w < 2 ^ 32"
  shows "ucast (ucast w :: 32 word) = w"
proof -
  have "\<not> bit w n" if "32 \<le> n" for n
  proof -
    have "\<not> bit (sint w) n"
      using assms that take_bit_int_eq_self [OF assms] by (metis bit_take_bit_iff not_less)
    then show ?thesis using that
      by (cases "n < 64") (auto simp: bit_sint_iff impossible_bit)
  qed
  then have "n < 32" if "bit w n" for n using that by (meson not_less)
  then show ?thesis by (intro bit_word_eqI) (auto simp: bit_simps)
qed

lemma u32_try_from_Some:
  assumes "u32_try_from w = Some v"
  shows "0 \<le> sint w" "sint w < 2 ^ 32" "ucast v = w"
proof -
  show w: "0 \<le> sint w" "sint w < 2 ^ 32" and v: "ucast v = w"
    using assms u32_round_trip [of w] by (auto simp: u32_try_from_def split: if_splits)
qed

lemma scaled_fits:
  fixes x :: "32 word"
  assumes "0 \<le> k" "k < 2 ^ 32"
  shows "- (2 ^ 63) \<le> sint x * k" "sint x * k < 2 ^ 63"
proof -
  have "- (2 ^ 31) \<le> sint x" "sint x < 2 ^ 31" using sint_ge [of x] sint_lt [of x] by simp_all
  then have "- (2 ^ 31) * k \<le> sint x * k" "sint x * k \<le> 2 ^ 31 * k"
    using assms(1) by (intro mult_right_mono; simp)+
  then show "- (2 ^ 63) \<le> sint x * k" "sint x * k < 2 ^ 63" using assms(2) by simp_all
qed

lemma scale_int32_word:
  "words_agree (offset_value \<rho> (scale_int32 v w)) (sint (low32 (bv_value \<rho> v)) * sint w)"
  using words_agree_sint(2) [of "scast (low32 (bv_value \<rho> v))" w]
  by (auto simp: scale_int32_def as_const_sound split: option.split)

lemma scale_int32_exact:
  assumes "0 \<le> sint w" "sint w < 2 ^ 32"
  shows "offset_value \<rho> (scale_int32 v w) = sint (low32 (bv_value \<rho> v)) * sint w"
proof (cases "as_const v")
  case (Some c)
  have "sint (scast c * w :: 64 word) = sint c * sint w"
    using scaled_fits [OF assms, of c] words_agree_sint(2) [of "scast c" w]
      words_agree_exact [of "sint (scast c * w :: 64 word)" "sint c * sint w"]
      sint_ge [of "scast c * w :: 64 word"] sint_lt [of "scast c * w :: 64 word"]
    by simp
  then show ?thesis using as_const_sound [OF Some, of \<rho>] by (simp add: scale_int32_def Some)
qed (simp add: scale_int32_def)

lemma scaled_index_sound:
  assumes "scaled_index w index stride = Some a"
  shows "offset_value \<rho> a = sint (low64 (bv_value \<rho> index) * low64 (bv_value \<rho> stride)) * sint w"
    and "offset_consistent a"
proof -
  obtain i and s :: "64 word" and s32 width width32
    where i: "index = Unary Op_Int64From32 i" and stride: "stride = Int64Constant s"
      and s32: "u32_try_from s = Some s32"
      and width: "i64_checked (*) (ucast s32) w = Some width" "u32_try_from width = Some width32"
      and a: "a = scale_int32 i width"
    using assms
    by (auto simp: scaled_index_def extended_parts_def int64_parts_def
        split: option.splits if_splits bv.splits)
  note s = u32_try_from_Some [OF s32]
  let ?i = "low32 (bv_value \<rho> i)"
  have product: "sint (scast ?i * s :: 64 word) = sint ?i * sint s"
    using scaled_fits [OF s(1,2), of ?i] words_agree_sint(2) [of "scast ?i" s]
      words_agree_exact [of "sint (scast ?i * s :: 64 word)" "sint ?i * sint s"]
      sint_ge [of "scast ?i * s :: 64 word"] sint_lt [of "scast ?i * s :: 64 word"]
    by simp
  have "sint width = sint s * sint w" using i64_checked_sint [OF width(1)] s(3) by simp
  then have "offset_value \<rho> a = sint ?i * (sint s * sint w)"
    using scale_int32_exact [OF u32_try_from_Some(1,2) [OF width(2)], of \<rho> i] by (simp add: a)
  then show "offset_value \<rho> a = sint (low64 (bv_value \<rho> index) * low64 (bv_value \<rho> stride)) * sint w"
    by (simp add: i stride unary_value_def product mult.assoc)
  show "offset_consistent a" by (simp add: a scale_int32_def split: option.split)
qed

lemma scale_int64_exact:
  assumes "null_at_zero \<rho>" "consistent v"
  shows "offset_value \<rho> (scale_int64 v w u) =
      (if u then uint (low64 (bv_value \<rho> v)) else sint (low64 (bv_value \<rho> v))) * sint w
    \<and> offset_consistent (scale_int64 v w u)"
  unfolding scale_int64_def
proof (rule first_matchI, goal_cases)
  case (1 a)
  then have signed: "\<not> u" by (auto split: if_splits)
  from 1 consider
      (extended) i k where "v = Unary Op_Int64From32 i" "u32_try_from w = Some k" "a = scale_int32 i w"
    | (product) l r where "v = Binary Op_Int64Multiply l r"
        "scaled_index w l r = Some a \<or> scaled_index w r l = Some a"
    by (auto simp: signed extended_parts_def on_parts_def parts_def split: if_splits option.splits bv.splits)
  then show ?case
  proof cases
    case extended
    then show ?thesis
      using signed scale_int32_exact [OF u32_try_from_Some(1,2) [OF extended(2)], of \<rho> i]
      by (simp add: unary_value_def scale_int32_def split: option.splits)
  next
    case product
    then show ?thesis
      using signed scaled_index_sound(1) [where \<rho> = \<rho> and index = l and stride = r]
        scaled_index_sound(1) [where \<rho> = \<rho> and index = r and stride = l]
        scaled_index_sound(2) [where index = l and stride = r]
        scaled_index_sound(2) [where index = r and stride = l]
      by (auto simp: binary32_def binary64_def mult.commute)
  qed
next
  case 2
  show ?case
    using constants64(1) [OF assms] constants64(2) [OF assms] assms(2)
    by (auto simp: i64_checked_sint i64_try_from_uint bind_eq_Some_conv split: option.split)
qed

section \<open>Equality\<close>

text \<open>
  What the registries promise of a valuation: blocks proved distinct stand for distinct
  objects.
\<close>

definition told_apart ::
  "'x block_registry \<Rightarrow> 'x valuation \<Rightarrow> 'x pointer_block \<Rightarrow> 'x pointer_block \<Rightarrow> bool" where
  "told_apart reg \<rho> p q \<longleftrightarrow>
     (proven_distinct reg p q \<longrightarrow> fst (val_block \<rho> p) \<noteq> fst (val_block \<rho> q))"

lemma pointer_offset_equal_value:
  assumes "null_at_zero \<rho>" "offset_consistent a" "offset_consistent b"
  shows "cond_value \<rho> (pointer_offset_equal a b) \<longleftrightarrow> offset_value \<rho> a = offset_value \<rho> b"
proof (cases "offset_as_const a \<noteq> None \<and> offset_as_const b \<noteq> None")
  case True
  then obtain l r where c: "offset_as_const a = Some l" "offset_as_const b = Some r" by auto
  then show ?thesis
    using offset_as_const_sound [OF assms(1)] assms(2,3)
    by (simp add: pointer_offset_equal_def word_eq_iff_signed)
next
  case False
  then have "pointer_offset_equal a b =
    (if pointer_offsets_differ_by_residue a b then Cond_Constant False else PointerOffsetEqual a b)"
    by (auto simp: pointer_offset_equal_def split: option.split)
  then show ?thesis using differ_by_residue_sound [of a b \<rho>] by simp
qed

definition pointer_consistent :: "'x pointer \<Rightarrow> bool" where
  "pointer_consistent p \<longleftrightarrow> offset_consistent (pointer_offset p)"

lemma pointer_equal_value:
  assumes null: "null_at_zero \<rho>" and reg: "told_apart reg \<rho> (pointer_block p) (pointer_block q)"
    and ok: "pointer_consistent p" "pointer_consistent q"
  shows "cond_value \<rho> (pointer_equal reg p q) \<longleftrightarrow> pointer_place \<rho> p = pointer_place \<rho> q"
proof -
  obtain b x where p: "p = Pointer b x" by (cases p)
  obtain c y where q: "q = Pointer c y" by (cases q)
  show ?thesis
  proof (cases "proven_distinct reg b c")
    case True
    then have "fst (val_block \<rho> b) \<noteq> fst (val_block \<rho> c)" using reg by (simp add: told_apart_def p q)
    then show ?thesis using True by (auto simp: pointer_equal_def blocks_proven_distinct_def p q split: prod.split)
  next
    case False
    note distinct = this
    show ?thesis
    proof (cases "b = c")
      case True
      have "cond_value \<rho> (pointer_offset_equal x y) \<longleftrightarrow> offset_value \<rho> x = offset_value \<rho> y"
        using pointer_offset_equal_value [OF null] ok by (simp add: pointer_consistent_def p q)
      then show ?thesis
        using distinct True
        by (cases "pointer_offset_equal x y")
          (auto simp: pointer_equal_def blocks_proven_distinct_def p q split: prod.split)
    next
      case False
      then show ?thesis using distinct by (simp add: pointer_equal_def blocks_proven_distinct_def p q)
    qed
  qed
qed

text \<open>C29: The three offset constructors denote the displacement they are built from. A sum,
  and a 32-bit index scaled by any stride, agree with it as a machine word, which is all that
  a folded displacement keeps (the folded product is not checked for overflow); a 32-bit index
  scaled by a stride of at most 32 bits and a 64-bit index scaled by any stride denote it
  exactly, a product too large for a word left unfolded. Equality of two offsets holds exactly
  when they denote the same displacement. The offsets are well formed and the null pointer's
  address is zero.\<close>

theorem offset_constructors_exact:
  assumes null: "null_at_zero \<rho>"
    and ok: "offset_consistent a" "offset_consistent b" "consistent v"
  shows "words_agree (offset_value \<rho> (offset_add a b)) (offset_value \<rho> a + offset_value \<rho> b)
    \<and> words_agree (offset_value \<rho> (scale_int32 i w)) (sint (low32 (bv_value \<rho> i)) * sint w)
    \<and> (0 \<le> sint w \<and> sint w < 2 ^ 32 \<longrightarrow>
         offset_value \<rho> (scale_int32 i w) = sint (low32 (bv_value \<rho> i)) * sint w)
    \<and> offset_value \<rho> (scale_int64 v k False) = sint (low64 (bv_value \<rho> v)) * sint k
    \<and> offset_value \<rho> (scale_int64 v k True) = uint (low64 (bv_value \<rho> v)) * sint k
    \<and> (cond_value \<rho> (pointer_offset_equal a b) \<longleftrightarrow> offset_value \<rho> a = offset_value \<rho> b)"
  using offset_add_word [OF null ok(1,2)] scale_int32_word [of \<rho> i w] scale_int32_exact [of w \<rho> i]
    scale_int64_exact [OF null ok(3), of k] pointer_offset_equal_value [OF null ok(1,2)]
  by simp

theorem offset_constructors_exact_witness:
  "words_agree (offset_value zero_valuation (offset_add (Off_Add (Off_Variable (Variable_Of 0 Ordinary)) (Off_Constant 5)) (Off_Constant 3))) 8
   \<and> \<not> cond_value zero_valuation (pointer_offset_equal
        (Off_Add (Int32Scaled (Variable (Variable_Of 1 Ordinary)) 8) (Off_Constant 4)) (Off_Constant 8))
   \<and> offset_value zero_valuation (scale_int32 (Constant (- 3)) 8) = - 24"
proof -
  let ?a = "Off_Add (Off_Variable (Variable_Of 0 Ordinary)) (Off_Constant 5) :: nat offset"
  let ?b = "Off_Add (Int32Scaled (Variable (Variable_Of 1 Ordinary)) 8) (Off_Constant 4) :: nat offset"
  have "consistent (Constant 0 :: nat bv)" by simp
  note exact = offset_constructors_exact [OF zero_valuation_null _ _ this]
  show ?thesis
    using exact [of ?a "Off_Constant 3"] exact [of ?b "Off_Constant 8"]
      exact [of ?a "Off_Constant 3" "Constant (- 3)" 8]
    by (simp add: zero_valuation_def)
qed

section \<open>Objects and their storage\<close>

text \<open>
  What the objects of an execution are, and what the verifier's blocks and registries say of
  them: where the storage of an object comes from, whether its address was ever taken, when
  it came into being, and when a load variable or a loaded pointer was read. A block's law is
  the meaning of its constructor: an allocation, an introduced object, a literal, a declared
  object and a function each name storage of their own kind and no other, what a caller's
  pointer reaches existed before the call, and a pointer value points only where an address
  was taken and only at what existed when it was read. The registries are right about a
  block when a hidden local's address was never taken and a load recorded as earlier is earlier.
\<close>

datatype origin =
    Allocated nat | Introduced nat | Literal_Bytes "8 word list" | Declared string | Code string | Unnamed

record storage =
  object_origin :: "nat \<Rightarrow> origin"
  object_exposed :: "nat \<Rightarrow> bool"
  object_born :: "nat \<Rightarrow> nat"
  variable_loaded :: "variable \<Rightarrow> nat"
  pointer_read :: "nat \<Rightarrow> nat"

fun origin_fits :: "'x pointer_block \<Rightarrow> origin \<Rightarrow> bool" where
  "origin_fits (Heap n) k = (k = Allocated n)"
| "origin_fits (Temporary n) k = (k = Introduced n)"
| "origin_fits (StringLiteral _ bytes) k = (k = Literal_Bytes bytes)"
| "origin_fits (Concrete name) k = (k = Declared name)"
| "origin_fits (Function_Block name) k = (k = Code name)"
| "origin_fits (FunctionSymbolic _) k = (case k of Allocated _ \<Rightarrow> False | Introduced _ \<Rightarrow> False | _ \<Rightarrow> True)"
| "origin_fits ExternalArgument k =
     (case k of Allocated _ \<Rightarrow> False | Introduced _ \<Rightarrow> False | Declared name \<Rightarrow> take 6 name \<noteq> ''local:'' | _ \<Rightarrow> True)"
| "origin_fits (ExternalObject _) k =
     (case k of Allocated _ \<Rightarrow> False | Introduced _ \<Rightarrow> False | Declared name \<Rightarrow> take 6 name \<noteq> ''local:'' | _ \<Rightarrow> True)"
| "origin_fits _ k = True"

definition pointer_value :: "'x pointer_block \<Rightarrow> bool" where
  "pointer_value b =
     (case b of
        Symbolic _ \<Rightarrow> True | LoadedPointer _ \<Rightarrow> True | FunctionSymbolic _ \<Rightarrow> True | ExternalArgument \<Rightarrow> True
      | ExternalObject _ \<Rightarrow> True | _ \<Rightarrow> False)"

definition block_stored :: "'x block_registry \<Rightarrow> storage \<Rightarrow> 'x valuation \<Rightarrow> 'x pointer_block \<Rightarrow> bool" where
  "block_stored reg \<sigma> \<rho> b \<longleftrightarrow>
     (let object = fst (val_block \<rho> b); born = object_born \<sigma> object
      in origin_fits b (object_origin \<sigma> object)
         \<and> (pointer_value b \<longrightarrow> object_exposed \<sigma> object)
         \<and> (\<forall>x. b = Symbolic x \<longrightarrow> reg_load_variable reg x \<longrightarrow> born \<le> variable_loaded \<sigma> x)
         \<and> (\<forall>i. b = LoadedPointer i \<longrightarrow> born \<le> pointer_read \<sigma> i)
         \<and> (reg_hidden_local reg b \<longrightarrow> \<not> object_exposed \<sigma> object)
         \<and> (\<forall>x. reg_variable_predates reg x b \<longrightarrow> variable_loaded \<sigma> x < born)
         \<and> (\<forall>i. reg_read_predates reg i b \<longrightarrow> pointer_read \<sigma> i < born))"

lemma block_storedD:
  assumes "block_stored reg \<sigma> \<rho> b"
  shows "origin_fits b (object_origin \<sigma> (fst (val_block \<rho> b)))"
    and "pointer_value b \<Longrightarrow> object_exposed \<sigma> (fst (val_block \<rho> b))"
    and "reg_hidden_local reg b \<Longrightarrow> \<not> object_exposed \<sigma> (fst (val_block \<rho> b))"
    and "b = Symbolic x \<Longrightarrow> reg_load_variable reg x \<Longrightarrow> object_born \<sigma> (fst (val_block \<rho> b)) \<le> variable_loaded \<sigma> x"
    and "b = LoadedPointer i \<Longrightarrow> object_born \<sigma> (fst (val_block \<rho> b)) \<le> pointer_read \<sigma> i"
    and "reg_variable_predates reg x b \<Longrightarrow> variable_loaded \<sigma> x < object_born \<sigma> (fst (val_block \<rho> b))"
    and "reg_read_predates reg i b \<Longrightarrow> pointer_read \<sigma> i < object_born \<sigma> (fst (val_block \<rho> b))"
  using assms unfolding block_stored_def Let_def by blast+

text \<open>The three reasons to tell two blocks apart, each from its law.\<close>

lemma hidden_from_apart:
  assumes "hidden_from reg b c" "block_stored reg \<sigma> \<rho> b" "block_stored reg \<sigma> \<rho> c"
  shows "fst (val_block \<rho> b) \<noteq> fst (val_block \<rho> c)"
proof -
  have "pointer_value b" "reg_hidden_local reg c"
    using assms(1) by (auto simp: hidden_from_def pointer_value_def)
  then show ?thesis using block_storedD(2) [OF assms(2)] block_storedD(3) [OF assms(3)] by force
qed

lemma loaded_before_apart:
  assumes "loaded_before reg b c" "block_stored reg \<sigma> \<rho> b" "block_stored reg \<sigma> \<rho> c"
  shows "fst (val_block \<rho> b) \<noteq> fst (val_block \<rho> c)"
proof
  assume same: "fst (val_block \<rho> b) = fst (val_block \<rho> c)"
  from assms(1) consider
      (variable) x where "b = Symbolic x" "reg_load_variable reg x" "reg_variable_predates reg x c"
    | (pointer) i where "b = LoadedPointer i" "reg_read_predates reg i c"
    by (auto simp: loaded_before_def split: pointer_block.splits)
  then show False
  proof cases
    case variable
    then show False using block_storedD(4) [OF assms(2), of x] block_storedD(6) [OF assms(3), of x] same by simp
  next
    case pointer
    then show False using block_storedD(5) [OF assms(2), of i] block_storedD(7) [OF assms(3), of i] same by simp
  qed
qed

lemma own_storage_apart:
  assumes "origin_fits b k" "origin_fits c k" "b \<noteq> c" "own_storage b" "\<not> any_address c"
  shows False
  using assms by (cases b; cases c) (auto simp: own_storage_def any_address_def)

lemma local_versus_argument_apart:
  assumes "origin_fits b k" "origin_fits c k" "local_versus_argument b c"
  shows False
proof -
  obtain name where "b = Concrete name" "take 6 name = ''local:''"
    using assms(3)
    by (cases b) (auto simp: local_versus_argument_def is_local_block_def block_starts_with_def numeral_eq_Suc)
  then show False
    using assms by (cases c) (simp_all add: local_versus_argument_def)
qed

lemma literal_versus_declared_apart:
  assumes "origin_fits b k" "origin_fits c k" "literal_versus_declared b c"
  shows False
  using assms by (cases b; cases c) (auto simp: literal_versus_declared_def)

lemma proven_distinct_apart:
  assumes distinct: "proven_distinct reg b c" and stored: "block_stored reg \<sigma> \<rho> b" "block_stored reg \<sigma> \<rho> c"
  shows "fst (val_block \<rho> b) \<noteq> fst (val_block \<rho> c)"
proof
  assume same: "fst (val_block \<rho> b) = fst (val_block \<rho> c)"
  define k where "k = object_origin \<sigma> (fst (val_block \<rho> b))"
  have fits: "origin_fits b k" "origin_fits c k"
    using block_storedD(1) [OF stored(1)] block_storedD(1) [OF stored(2)] same by (simp_all add: k_def)
  have "\<not> hidden_from reg b c" "\<not> hidden_from reg c b" "\<not> loaded_before reg b c" "\<not> loaded_before reg c b"
    using hidden_from_apart [OF _ stored] hidden_from_apart [OF _ stored(2,1)]
      loaded_before_apart [OF _ stored] loaded_before_apart [OF _ stored(2,1)] same by auto
  then have known: "\<not> any_address b" "\<not> any_address c" and d: "b \<noteq> c"
    "own_storage b \<or> own_storage c
      \<or> (case (b, c) of (StringLiteral _ left, StringLiteral _ right) \<Rightarrow> left \<noteq> right
         | (Concrete left, Concrete right) \<Rightarrow> left \<noteq> right | _ \<Rightarrow> False)
      \<or> literal_versus_declared b c \<or> literal_versus_declared c b
      \<or> local_versus_argument b c \<or> local_versus_argument c b"
    using distinct unfolding proven_distinct_def by (simp_all split: if_splits)
  from d(2) show False
  proof (elim disjE)
    assume "case (b, c) of (StringLiteral _ left, StringLiteral _ right) \<Rightarrow> left \<noteq> right
         | (Concrete left, Concrete right) \<Rightarrow> left \<noteq> right | _ \<Rightarrow> False"
    then show False using fits by (cases b; cases c) auto
  qed (use own_storage_apart [OF fits] own_storage_apart [OF fits(2,1)] known d(1)
      local_versus_argument_apart [OF fits] local_versus_argument_apart [OF fits(2,1)]
      literal_versus_declared_apart [OF fits] literal_versus_declared_apart [OF fits(2,1)] in auto)
qed

text \<open>C30: The equality of two pointers that \<^verbatim>\<open>pointer_equal\<close> builds holds exactly when they
  are the same place, and two blocks that may not alias are different objects, wherever the
  two blocks stand for objects of their own kind of storage and the registries are right
  about them (\<open>block_stored\<close>), the offsets are well formed and the null pointer's address
  is zero: that the kernel's structural rule separates only what is
  apart is proved from the kinds of storage, not assumed.\<close>

theorem pointer_equal_exact:
  assumes "null_at_zero \<rho>" "block_stored reg \<sigma> \<rho> (pointer_block p)" "block_stored reg \<sigma> \<rho> (pointer_block q)"
    and "pointer_consistent p" "pointer_consistent q"
  shows "(cond_value \<rho> (pointer_equal reg p q) \<longleftrightarrow> pointer_place \<rho> p = pointer_place \<rho> q)
    \<and> (may_alias reg (pointer_block p) (pointer_block q)
       \<or> fst (val_block \<rho> (pointer_block p)) \<noteq> fst (val_block \<rho> (pointer_block q)))"
proof -
  have "told_apart reg \<rho> (pointer_block p) (pointer_block q)"
    using proven_distinct_apart [OF _ assms(2,3)] by (simp add: told_apart_def)
  then show ?thesis
    using pointer_equal_value [OF assms(1) _ assms(4,5)] by (auto simp: told_apart_def may_alias_def)
qed

text \<open>
  A hidden local is apart from what the caller's pointer reaches, and an allocation is apart
  from every other one, at equal displacements.
\<close>

definition sample_registry :: "nat block_registry" where
  "sample_registry = bare_registry\<lparr>reg_hidden_local := (\<lambda>b. b = Concrete ''local:x'')\<rparr>"

definition sample_storage :: storage where
  "sample_storage =
     \<lparr>object_origin = (\<lambda>n. if n = 0 then Declared ''null'' else if n = 1 then Declared ''local:x''
         else if n = 2 then Unnamed else Allocated (n - 3)),
      object_exposed = (\<lambda>n. n \<noteq> 1), object_born = (\<lambda>_. 0), variable_loaded = (\<lambda>_. 0), pointer_read = (\<lambda>_. 0)\<rparr>"

definition sample_blocks :: "nat valuation" where
  "sample_blocks = zero_valuation\<lparr>val_block := (\<lambda>b. case b of
     Concrete name \<Rightarrow> (if name = ''local:x'' then 1 else 0, 0) | Heap n \<Rightarrow> (n + 3, 0) | _ \<Rightarrow> (2, 0))\<rparr>"

theorem pointer_equal_exact_witness:
  "(\<not> cond_value sample_blocks (pointer_equal sample_registry
       (Pointer (Concrete ''local:x'') (Off_Constant 4)) (Pointer ExternalArgument (Off_Constant 4))))
   \<and> (\<not> may_alias sample_registry (Heap 0) (Heap 1))
   \<and> cond_value sample_blocks (pointer_equal sample_registry
       (Pointer (Heap 1) (Off_Constant 4)) (Pointer (Heap 1) (Off_Add (Off_Constant 1) (Off_Constant 3))))
   \<and> fst (val_block sample_blocks (Heap 0)) \<noteq> fst (val_block sample_blocks (Heap 1))"
proof -
  have null: "null_at_zero sample_blocks"
    by (simp add: null_at_zero_def null_pointer_def sample_blocks_def zero_valuation_def)
  have stored: "block_stored sample_registry sample_storage sample_blocks b"
    if "b \<in> {Concrete ''local:x'', ExternalArgument, Heap 0, Heap 1}" for b
    using that
    by (auto simp: block_stored_def Let_def sample_registry_def bare_registry_def sample_storage_def
        sample_blocks_def zero_valuation_def pointer_value_def)
  have heaps: "\<not> may_alias sample_registry (Heap 0) (Heap 1)"
    by (simp add: may_alias_def proven_distinct_def hidden_from_def loaded_before_def any_address_def own_storage_def)
  note exact = pointer_equal_exact [OF null stored stored]
  show ?thesis
    using exact [of "Pointer (Concrete ''local:x'') (Off_Constant 4)" "Pointer ExternalArgument (Off_Constant 4)"]
      exact [of "Pointer (Heap 1) (Off_Constant 4)" "Pointer (Heap 1) (Off_Add (Off_Constant 1) (Off_Constant 3))"]
      exact [of "Pointer (Heap 0) (Off_Constant 0)" "Pointer (Heap 1) (Off_Constant 0)"] heaps
    by (simp add: pointer_consistent_def sample_blocks_def)
qed

end
