(* ===== verification/DifferenceTerms.thy ===== *)
theory DifferenceTerms
  imports Denotation
begin

unbundle bit_operations_syntax

text \<open>
  What the difference graph reads off one term or condition: the helper functions of
  \<^verbatim>\<open>src/src/kernel/difference_graph.rs\<close> that keep no state, and that each of
  them is right about the values of terms.
\<close>

section \<open>Domains\<close>

datatype domain = Int32 | Int64 | UInt64

fun domain_range :: "domain \<Rightarrow> int \<times> int" where
  "domain_range Int32 = (- (2 ^ 31), 2 ^ 31 - 1)"
| "domain_range Int64 = (- (2 ^ 63), 2 ^ 63 - 1)"
| "domain_range UInt64 = (0, 2 ^ 64 - 1)"

text \<open>The value of a term as a mathematical integer of a domain.\<close>

fun word_reading :: "domain \<Rightarrow> 128 word \<Rightarrow> int" where
  "word_reading Int32 w = sint (low32 w)"
| "word_reading Int64 w = sint (low64 w)"
| "word_reading UInt64 w = uint (low64 w)"

definition reading :: "'x valuation \<Rightarrow> domain \<Rightarrow> 'x bv \<Rightarrow> int" where
  "reading \<rho> d t = word_reading d (bv_value \<rho> t)"

section \<open>Constants and links\<close>

definition domain_constant :: "domain \<Rightarrow> 'x bv \<Rightarrow> int option" where
  "domain_constant d t = (case t of
     Constant w \<Rightarrow> if d = Int32 then Some (sint w) else None
   | Int64Constant w \<Rightarrow>
       if d = Int64 then Some (sint w)
       else if d = UInt64 \<and> 0 \<le> sint w then Some (sint w) else None
   | UInt64Constant w \<Rightarrow> if d = UInt64 then Some (uint w) else None
   | _ \<Rightarrow> None)"

definition is_sum :: "domain \<Rightarrow> binary_operator \<Rightarrow> bool" where
  "is_sum d op \<longleftrightarrow>
     (d, op) \<in> {(Int32, Op_Add), (Int64, Op_Int64Add), (UInt64, Op_UInt64Add)}"

definition is_difference :: "domain \<Rightarrow> binary_operator \<Rightarrow> bool" where
  "is_difference d op \<longleftrightarrow>
     (d, op) \<in> {(Int32, Op_Subtract), (Int64, Op_Int64Subtract), (UInt64, Op_UInt64Subtract)}"

definition link_parts :: "domain \<Rightarrow> 'x bv \<Rightarrow> (domain \<times> 'x bv \<times> int \<times> bool) option" where
  "link_parts d t = (case t of
     Binary op left right \<Rightarrow>
       if is_sum d op then
         (case domain_constant d right of
            Some k \<Rightarrow> Some (d, left, k, False)
          | None \<Rightarrow> map_option (\<lambda>k. (d, right, k, False)) (domain_constant d left))
       else if is_difference d op then
         map_option (\<lambda>k. (d, left, - k, False)) (domain_constant d right)
       else None
   | Unary op inner \<Rightarrow>
       if (d, op) = (Int64, Op_Int64From32) then Some (Int32, inner, 0, False)
       else if (d, op) = (UInt64, Op_UInt64From32) then Some (Int32, inner, 0, True)
       else if (d, op) = (UInt64, Op_UInt64FromInt64) then Some (Int64, inner, 0, True)
       else if (d, op) = (Int64, Op_Int64FromUInt32) \<or> (d, op) = (UInt64, Op_UInt64FromInt32)
       then Some (Int32, inner, 0, True)
       else None
   | _ \<Rightarrow> None)"

definition modular_parts :: "domain \<Rightarrow> 'x bv \<Rightarrow> ('x bv \<times> int) option" where
  "modular_parts d t = (case t of
     Binary op a b \<Rightarrow>
       if is_sum d op then
         (case (domain_constant d a, domain_constant d b) of
            (_, Some k) \<Rightarrow> Some (a, k)
          | (Some k, _) \<Rightarrow> Some (b, k)
          | _ \<Rightarrow> None)
       else if is_difference d op then map_option (\<lambda>k. (a, - k)) (domain_constant d b)
       else None
   | _ \<Rightarrow> None)"

definition link_fits :: "int \<times> int \<Rightarrow> int \<Rightarrow> domain \<Rightarrow> bool \<Rightarrow> bool" where
  "link_fits interval offset d nonnegative =
     (let (low, high) = interval; (min, max) = domain_range d in
      if nonnegative then low \<ge> 0 \<and> high \<le> max
      else low + offset \<ge> min \<and> high + offset \<le> max)"

section \<open>Modular arithmetic of a domain\<close>

definition domain_modulus :: "domain \<Rightarrow> int" where
  "domain_modulus d = (let (min, max) = domain_range d in max - min + 1)"

definition wrap :: "domain \<Rightarrow> int \<Rightarrow> int" where
  "wrap d value = value mod domain_modulus d"

definition wrap_range :: "int \<times> int \<Rightarrow> int \<Rightarrow> int \<Rightarrow> int \<times> int" where
  "wrap_range bounds low high =
     (let (min, max) = bounds;
          modulus = max - min + 1;
          shift = (low - min) div modulus * modulus;
          (low, high) = (low - shift, high - shift)
      in if high \<le> max then (low, high) else (min, max))"

definition wrap_interval :: "domain \<Rightarrow> int \<Rightarrow> int \<Rightarrow> int \<times> int" where
  "wrap_interval d low high = wrap_range (domain_range d) low high"

definition flip_sign :: "domain \<Rightarrow> int \<Rightarrow> int" where
  "flip_sign d value =
     (let min = fst (domain_range d) in if value \<ge> 0 then value + min else value - min)"

definition sign_flip_base :: "domain \<Rightarrow> 'x bv \<Rightarrow> 'x bv option" where
  "sign_flip_base d t = (case t of
     Binary op a b \<Rightarrow>
       if (d, op) = (Int32, Op_BitwiseXor) \<or> (d, op) = (Int64, Op_Int64BitwiseXor) then
         (let min = Some (fst (domain_range d)) in
          if domain_constant d a = min then Some b
          else if domain_constant d b = min then Some a
          else None)
       else None
   | _ \<Rightarrow> None)"

definition word_domain :: "'x bv \<Rightarrow> domain" where
  "word_domain t = (case t of
     UInt64Constant _ \<Rightarrow> UInt64
   | Binary op _ _ \<Rightarrow>
       if op \<in> {Op_UInt64Add, Op_UInt64Subtract, Op_UInt64Multiply, Op_UInt64Divide,
                Op_UInt64Remainder, Op_UInt64BitwiseAnd, Op_UInt64BitwiseOr, Op_UInt64BitwiseXor}
       then UInt64 else Int64
   | Unary op _ \<Rightarrow>
       if op \<in> {Op_UInt64BitwiseNot, Op_UInt64From32, Op_UInt64FromInt32, Op_UInt64FromInt64}
       then UInt64 else Int64
   | _ \<Rightarrow> Int64)"

section \<open>Narrow casts\<close>

definition narrow_range :: "machine_integer_type \<Rightarrow> (int \<times> int) option" where
  "narrow_range kind = (case kind of
     MInt8 \<Rightarrow> Some (- 128, 127)
   | MUInt8 \<Rightarrow> Some (0, 255)
   | MInt16 \<Rightarrow> Some (- 32768, 32767)
   | MUInt16 \<Rightarrow> Some (0, 65535)
   | MInt32 \<Rightarrow> Some (- (2 ^ 31), 2 ^ 31 - 1)
   | _ \<Rightarrow> None)"

definition narrow_cast_parts ::
  "domain \<Rightarrow> 'x bv \<Rightarrow> ('x bv \<times> (int \<times> int) \<times> (int \<times> int) \<times> int) option" where
  "narrow_cast_parts d t = (case t of
     MachineIntegerCast value source destination \<Rightarrow>
       if d \<noteq> Int32 then None
       else
         (case narrow_range source of
            None \<Rightarrow> None
          | Some source_range \<Rightarrow>
              (case narrow_range destination of
                 None \<Rightarrow> None
               | Some destination_range \<Rightarrow>
                   Some (value, source_range, destination_range,
                         snd destination_range - fst destination_range + 1)))
   | _ \<Rightarrow> None)"

section \<open>Conditions\<close>

text \<open>
  The orders a condition states, as \<open>(domain, lower, upper, strict)\<close>.
\<close>

definition order_parts :: "comparison \<Rightarrow> (domain \<times> bool \<times> bool) option" where
  "order_parts op = (case op of
     Op_Bitvector32SignedLessThan \<Rightarrow> Some (Int32, False, True)
   | Op_Bitvector32SignedLessEqual \<Rightarrow> Some (Int32, False, False)
   | Op_Bitvector32SignedGreaterThan \<Rightarrow> Some (Int32, True, True)
   | Op_Bitvector32SignedGreaterEqual \<Rightarrow> Some (Int32, True, False)
   | Op_Bitvector64SignedLessThan \<Rightarrow> Some (Int64, False, True)
   | Op_Bitvector64SignedLessEqual \<Rightarrow> Some (Int64, False, False)
   | Op_Bitvector64SignedGreaterThan \<Rightarrow> Some (Int64, True, True)
   | Op_Bitvector64SignedGreaterEqual \<Rightarrow> Some (Int64, True, False)
   | Op_Bitvector64UnsignedLessThan \<Rightarrow> Some (UInt64, False, True)
   | Op_Bitvector64UnsignedLessEqual \<Rightarrow> Some (UInt64, False, False)
   | Op_Bitvector64UnsignedGreaterThan \<Rightarrow> Some (UInt64, True, True)
   | Op_Bitvector64UnsignedGreaterEqual \<Rightarrow> Some (UInt64, True, False)
   | _ \<Rightarrow> None)"

definition equality_domains :: "comparison \<Rightarrow> domain list option" where
  "equality_domains op = (case op of
     Op_Bitvector32Equal \<Rightarrow> Some [Int32]
   | Op_Bitvector64Equal \<Rightarrow> Some [Int64, UInt64]
   | _ \<Rightarrow> None)"

definition condition_orders ::
  "'x cond \<Rightarrow> bool \<Rightarrow> (domain \<times> 'x bv \<times> 'x bv \<times> bool) list" where
  "condition_orders condition value = (case condition of
     Compare op a b \<Rightarrow>
       (case order_parts op of
          Some (d, swapped, strict) \<Rightarrow>
            (let (left, right) = (if swapped then (b, a) else (a, b)) in
             if value then [(d, left, right, strict)] else [(d, right, left, \<not> strict)])
        | None \<Rightarrow>
            (case equality_domains op of
               Some domains \<Rightarrow>
                 if value then concat (map (\<lambda>d. [(d, a, b, False), (d, b, a, False)]) domains)
                 else []
             | None \<Rightarrow> []))
   | _ \<Rightarrow> [])"

definition overflow_op :: "comparison \<Rightarrow> (nat \<times> domain \<times> bool) option" where
  "overflow_op op = (case op of
     Op_Bitvector32SignedAddOverflows \<Rightarrow> Some (0, Int32, True)
   | Op_Bitvector32SignedSubtractOverflows \<Rightarrow> Some (1, Int32, False)
   | Op_Bitvector32SignedMultiplyOverflows \<Rightarrow> Some (2, Int32, True)
   | Op_Bitvector32SignedDivideOverflows \<Rightarrow> Some (3, Int32, False)
   | Op_Bitvector32SignedShiftLeftOverflows \<Rightarrow> Some (4, Int32, False)
   | Op_Bitvector64SignedAddOverflows \<Rightarrow> Some (5, Int64, True)
   | Op_Bitvector64SignedSubtractOverflows \<Rightarrow> Some (6, Int64, False)
   | Op_Bitvector64SignedMultiplyOverflows \<Rightarrow> Some (7, Int64, True)
   | Op_Bitvector64SignedDivideOverflows \<Rightarrow> Some (8, Int64, False)
   | _ \<Rightarrow> None)"

definition overflow_parts :: "'x cond \<Rightarrow> (nat \<times> domain \<times> 'x bv \<times> 'x bv \<times> bool) option" where
  "overflow_parts condition = (case condition of
     Compare op a b \<Rightarrow>
       map_option (\<lambda>(code, d, commutative). (code, d, a, b, commutative)) (overflow_op op)
   | _ \<Rightarrow> None)"

text \<open>
  A value as a node plus an offset, or a constant when there is no node, and the key of
  an overflow condition. The order of the keys is that of \<open>(Option<u32>, i128)\<close>.
\<close>

type_synonym affine = "nat option \<times> int"
type_synonym overflow_key = "nat \<times> affine \<times> affine"

definition affine_less :: "affine \<Rightarrow> affine \<Rightarrow> bool" where
  "affine_less a b =
     (case (fst a, fst b) of
        (None, None) \<Rightarrow> snd a < snd b
      | (None, Some _) \<Rightarrow> True
      | (Some _, None) \<Rightarrow> False
      | (Some m, Some n) \<Rightarrow> m < n \<or> m = n \<and> snd a < snd b)"

definition overflow_key :: "nat \<Rightarrow> affine \<Rightarrow> affine \<Rightarrow> bool \<Rightarrow> overflow_key" where
  "overflow_key operation a b commutative =
     (if commutative \<and> affine_less b a then (operation, b, a) else (operation, a, b))"

section \<open>Pointer offsets\<close>

datatype 'x scaled_offset = Scaled "'x bv" int | Bytes int

definition scaled_offset :: "'x offset \<Rightarrow> 'x scaled_offset option" where
  "scaled_offset offset = (case offset of
     Int32Scaled value width \<Rightarrow>
       if width \<noteq> 0 then Some (Scaled value (sint width)) else None
   | Off_Constant bytes \<Rightarrow> Some (Bytes (sint bytes))
   | _ \<Rightarrow> None)"

text \<open>\<open>i32::try_from\<close> of an integer, as the 32-bit pattern.\<close>

definition i32_try_from :: "int \<Rightarrow> 32 word option" where
  "i32_try_from count =
     (if - (2 ^ 31) \<le> count \<and> count < 2 ^ 31 then Some (word_of_int count) else None)"

definition same_field_bases :: "'x offset \<Rightarrow> 'x offset \<Rightarrow> ('x offset \<times> 'x offset) option" where
  "same_field_bases a b = (case (a, b) of
     (Off_Add a_base (Off_Constant a_field), Off_Add b_base (Off_Constant b_field)) \<Rightarrow>
       if a_field = b_field then Some (a_base, b_base) else None
   | _ \<Rightarrow> None)"

definition scaled_equality :: "'x bv \<Rightarrow> int \<Rightarrow> int \<Rightarrow> 'x cond option" where
  "scaled_equality value width bytes =
     (if bytes smod width = 0 then
        map_option (\<lambda>count. Compare Op_Bitvector32Equal value (Constant count))
          (i32_try_from (bytes sdiv width))
      else None)"

lemma same_field_bases_size:
  "same_field_bases a b = Some (a', b') \<Longrightarrow> size a' < size a \<and> size b' < size b"
  by (auto simp: same_field_bases_def split: offset.splits if_splits)

function offset_equality_sides :: "'x offset \<Rightarrow> 'x offset \<Rightarrow> 'x cond option" where
  "offset_equality_sides a b =
     (case same_field_bases a b of
        Some (a, b) \<Rightarrow> offset_equality_sides a b
      | None \<Rightarrow>
          (case (scaled_offset a, scaled_offset b) of
             (Some (Scaled a wa), Some (Scaled b wb)) \<Rightarrow>
               if wa = wb then Some (Compare Op_Bitvector32Equal a b) else None
           | (Some (Scaled value width), Some (Bytes bytes)) \<Rightarrow> scaled_equality value width bytes
           | (Some (Bytes bytes), Some (Scaled value width)) \<Rightarrow> scaled_equality value width bytes
           | _ \<Rightarrow> None))"
  by pat_completeness auto
termination
  by (relation "measure (\<lambda>(a, b). size a)") (auto dest: same_field_bases_size)

declare offset_equality_sides.simps [simp del]

definition offset_equality :: "'x cond \<Rightarrow> 'x cond option" where
  "offset_equality condition = (case condition of
     PointerOffsetEqual a b \<Rightarrow> offset_equality_sides a b
   | _ \<Rightarrow> None)"

definition unreachable_bytes :: "int \<Rightarrow> int \<Rightarrow> bool option" where
  "unreachable_bytes width bytes =
     (if bytes smod width \<noteq> 0 \<or> i32_try_from (bytes sdiv width) = None then Some False else None)"

definition offset_mismatch :: "'x offset \<Rightarrow> 'x offset \<Rightarrow> bool option" where
  "offset_mismatch a b =
     (case (scaled_offset a, scaled_offset b) of
        (Some (Scaled _ width), Some (Bytes bytes)) \<Rightarrow> unreachable_bytes width bytes
      | (Some (Bytes bytes), Some (Scaled _ width)) \<Rightarrow> unreachable_bytes width bytes
      | _ \<Rightarrow> None)"

definition expresses :: "'x cond \<Rightarrow> bool" where
  "expresses condition \<longleftrightarrow>
     (case condition of PointerEqual _ _ \<Rightarrow> True | PointerValueEqual _ _ \<Rightarrow> True | _ \<Rightarrow> False)
     \<or> overflow_parts condition \<noteq> None
     \<or> offset_equality condition \<noteq> None
     \<or> (case condition of
          Compare op _ _ \<Rightarrow> order_parts op \<noteq> None \<or> equality_domains op \<noteq> None
        | _ \<Rightarrow> False)"

section \<open>Readings\<close>

definition in_domain :: "domain \<Rightarrow> int \<Rightarrow> bool" where
  "in_domain d x \<longleftrightarrow> fst (domain_range d) \<le> x \<and> x \<le> snd (domain_range d)"

definition within :: "int \<Rightarrow> int \<times> int \<Rightarrow> bool" where
  "within x interval \<longleftrightarrow> fst interval \<le> x \<and> x \<le> snd interval"

lemma within_pair [simp]: "within x (low, high) \<longleftrightarrow> low \<le> x \<and> x \<le> high"
  by (simp add: within_def)

lemma within_domain: "within x (domain_range d) \<longleftrightarrow> in_domain d x"
  by (simp add: within_def in_domain_def)

lemma domain_modulus_eq [simp]:
  "domain_modulus Int32 = 2 ^ 32" "domain_modulus Int64 = 2 ^ 64" "domain_modulus UInt64 = 2 ^ 64"
  by (simp_all add: domain_modulus_def)

lemma domain_modulus_pos: "0 < domain_modulus d"
  by (cases d) auto

lemma sint_range32: "- (2 ^ 31) \<le> sint w" "sint w \<le> 2 ^ 31 - 1" for w :: "32 word"
  using sint_greater_eq [of w] sint_less [of w] by simp_all

lemma sint_range64: "- (2 ^ 63) \<le> sint w" "sint w \<le> 2 ^ 63 - 1" for w :: "64 word"
  using sint_greater_eq [of w] sint_less [of w] by simp_all

lemma uint_range64: "0 \<le> uint w" "uint w \<le> 2 ^ 64 - 1" for w :: "64 word"
  using uint_bounded [of w] by simp_all

lemma word_reading_in_domain: "in_domain d (word_reading d w)"
  using sint_range32 [of "low32 w"] sint_range64 [of "low64 w"] uint_range64 [of "low64 w"]
  by (cases d) (auto simp: in_domain_def)

lemma reading_in_domain: "in_domain d (reading \<rho> d t)"
  by (simp add: reading_def word_reading_in_domain)

lemma domain_unique:
  assumes "in_domain d x" "in_domain d y" "x mod domain_modulus d = y mod domain_modulus d"
  shows "x = y"
proof -
  have "domain_modulus d dvd x - y" using assms(3) by (simp add: mod_eq_dvd_iff)
  moreover have "\<bar>x - y\<bar> < domain_modulus d"
    using assms(1,2) by (cases d) (auto simp: in_domain_def)
  ultimately show ?thesis using zdvd_imp_le [of "domain_modulus d" "\<bar>x - y\<bar>"] by auto
qed

lemma sint_mod: "sint w mod 2 ^ LENGTH('a) = uint (w :: 'a::len word)"
  by (simp add: sint_uint take_bit_signed_take_bit unsigned_take_bit_eq take_bit_word_eq_self
      flip: take_bit_eq_mod unsigned_take_bit_eq)

lemma word_reading_mod:
  "word_reading Int32 w mod 2 ^ 32 = uint (low32 w)"
  "word_reading Int64 w mod 2 ^ 64 = uint (low64 w)"
  "word_reading UInt64 w mod 2 ^ 64 = uint (low64 w)"
  using sint_mod [of "low32 w"] sint_mod [of "low64 w"] by simp_all

text \<open>A value that stays in the domain and agrees modulo its width is the reading.\<close>

lemma reading_eqI:
  assumes "in_domain d x" "reading \<rho> d t mod domain_modulus d = x mod domain_modulus d"
  shows "reading \<rho> d t = x"
  using domain_unique [OF reading_in_domain assms] .

section \<open>The helpers are right about values\<close>

lemma sint_uint_nonneg: "0 \<le> sint w \<Longrightarrow> uint w = sint w" for w :: "'a::len word"
proof -
  assume "0 \<le> sint w"
  moreover have "sint w < 2 ^ LENGTH('a)"
    using sint_less [of w] by (rule order.strict_trans2) (rule power_increasing; simp)
  ultimately have "sint w mod 2 ^ LENGTH('a) = sint w" by simp
  then show ?thesis by (simp add: sint_mod)
qed

lemma domain_constant_sound: "domain_constant d t = Some v \<Longrightarrow> reading \<rho> d t = v"
  by (cases t) (auto simp: domain_constant_def reading_def sint_uint_nonneg split: if_splits)

text \<open>The word a domain reads, and its residue.\<close>

definition congruent :: "domain \<Rightarrow> 128 word \<Rightarrow> int \<Rightarrow> bool" where
  "congruent d w x \<longleftrightarrow>
     (if d = Int32 then low32 w = word_of_int x else low64 w = word_of_int x)"

lemma eq_word_of_int_iff: "v = word_of_int x \<longleftrightarrow> uint v = x mod 2 ^ LENGTH('a)" for v :: "'a::len word"
  by (simp add: word_uint_eq_iff uint_word_of_int)

lemma congruent_iff: "congruent d w x \<longleftrightarrow> word_reading d w mod domain_modulus d = x mod domain_modulus d"
proof (cases d)
  case Int32
  then show ?thesis
    by (simp only: congruent_def if_True domain_modulus_eq word_reading_mod eq_word_of_int_iff len_num1
        len_bit0 len_bit1) simp
next
  case Int64
  then show ?thesis
    by (simp only: congruent_def domain.distinct if_False domain_modulus_eq word_reading_mod
        eq_word_of_int_iff) simp
next
  case UInt64
  then show ?thesis
    by (simp only: congruent_def domain.distinct if_False domain_modulus_eq word_reading_mod
        eq_word_of_int_iff) simp
qed

lemma congruent_reading: "congruent d (bv_value \<rho> t) (reading \<rho> d t)"
  by (simp add: congruent_iff reading_def)

lemma congruent_readingI:
  "congruent d (bv_value \<rho> t) x \<Longrightarrow> reading \<rho> d t mod domain_modulus d = x mod domain_modulus d"
  by (simp add: congruent_iff reading_def)

lemma low32_reading: "low32 (bv_value \<rho> t) = word_of_int (reading \<rho> Int32 t)"
  using congruent_reading [of Int32 \<rho> t] by (simp add: congruent_def)

lemma low64_reading:
  "d \<noteq> Int32 \<Longrightarrow> low64 (bv_value \<rho> t) = word_of_int (reading \<rho> d t)"
  using congruent_reading [of d \<rho> t] by (simp add: congruent_def)

lemma reading_sum_mod:
  assumes "is_sum d op"
  shows "reading \<rho> d (Binary op a b) mod domain_modulus d
       = (reading \<rho> d a + reading \<rho> d b) mod domain_modulus d"
  using assms low64_reading [of d \<rho> a] low64_reading [of d \<rho> b]
  by (intro congruent_readingI)
     (auto simp: is_sum_def congruent_def binary32_def binary64_def low32_reading)

lemma reading_difference_mod:
  assumes "is_difference d op"
  shows "reading \<rho> d (Binary op a b) mod domain_modulus d
       = (reading \<rho> d a - reading \<rho> d b) mod domain_modulus d"
  using assms low64_reading [of d \<rho> a] low64_reading [of d \<rho> b]
  by (intro congruent_readingI)
     (auto simp: is_difference_def congruent_def binary32_def binary64_def low32_reading)

lemma reading_widening:
  "reading \<rho> Int64 (Int64From32 t) = reading \<rho> Int32 t"
  "reading \<rho> UInt64 (UInt64From32 t) = reading \<rho> Int32 t mod 2 ^ 32"
  "reading \<rho> Int64 (Int64FromUInt32 t) = reading \<rho> Int32 t mod 2 ^ 32"
  "reading \<rho> UInt64 (UInt64FromInt32 t) = reading \<rho> Int32 t mod 2 ^ 64"
  "reading \<rho> UInt64 (UInt64FromInt64 t) = reading \<rho> Int64 t mod 2 ^ 64"
proof -
  let ?w = "low32 (bv_value \<rho> t)"
  have u: "uint ?w < 2 ^ 32" using uint_bounded [of ?w] by simp
  show "reading \<rho> Int64 (Int64From32 t) = reading \<rho> Int32 t"
    by (simp add: reading_def unary_value_def sint_up_scast is_up)
  show "reading \<rho> UInt64 (UInt64From32 t) = reading \<rho> Int32 t mod 2 ^ 32"
    using sint_mod [of ?w]
    by (simp add: reading_def unary_value_def uint_up_ucast is_up)
  show "reading \<rho> Int64 (Int64FromUInt32 t) = reading \<rho> Int32 t mod 2 ^ 32"
    using sint_mod [of ?w] u
    by (simp add: reading_def unary_value_def uint_up_ucast is_up sint_uint signed_take_bit_int_eq_self)
  show "reading \<rho> UInt64 (UInt64FromInt32 t) = reading \<rho> Int32 t mod 2 ^ 64"
    using sint_mod [of "scast ?w :: 64 word"]
    by (simp add: reading_def unary_value_def sint_up_scast is_up)
  show "reading \<rho> UInt64 (UInt64FromInt64 t) = reading \<rho> Int64 t mod 2 ^ 64"
    using sint_mod [of "low64 (bv_value \<rho> t)"]
    by (simp add: reading_def unary_value_def)
qed

lemma link_parts_cases:
  assumes "link_parts d t = Some (d', b, k, nn)"
  obtains (sum) op where "is_sum d op" "d' = d" "\<not> nn"
      "(\<exists>c. t = Binary op b c \<and> domain_constant d c = Some k)
       \<or> (\<exists>c. t = Binary op c b \<and> domain_constant d c = Some k)"
    | (difference) op c where "is_difference d op" "d' = d" "\<not> nn" "t = Binary op b c"
      "domain_constant d c = Some (- k)"
    | (sign_extension) "d = Int64" "d' = Int32" "t = Int64From32 b" "k = 0" "\<not> nn"
    | (conversion) "k = 0" "nn"
      "(d, d', t) \<in> {(UInt64, Int32, UInt64From32 b), (UInt64, Int64, UInt64FromInt64 b),
        (Int64, Int32, Int64FromUInt32 b), (UInt64, Int32, UInt64FromInt32 b)}"
proof -
  show thesis
  proof (cases t)
    case (Binary op x y)
    have parts: "link_parts d (Binary op x y) = Some (d', b, k, nn)" using assms Binary by simp
    note parts = parts [unfolded link_parts_def, simplified]
    show thesis
    proof (cases "is_sum d op")
      case True
      show thesis
      proof (cases "domain_constant d y")
        case None
        with parts True have "domain_constant d x = Some k \<and> d' = d \<and> b = y \<and> \<not> nn"
          by force
        with True Binary show thesis using sum by blast
      next
        case (Some c)
        then have "d' = d \<and> b = x \<and> k = c \<and> \<not> nn" using parts True by simp
        with True Binary Some show thesis using sum by blast
      qed
    next
      case False
      then have "is_difference d op" using parts by (simp split: if_splits)
      moreover from this False parts
      have "domain_constant d y = Some (- k) \<and> d' = d \<and> b = x \<and> \<not> nn" by force
      ultimately show thesis using Binary difference [of op y] by simp
    qed
  next
    case (Unary op x)
    show thesis
    proof (cases "d = Int64 \<and> op = Op_Int64From32")
      case True
      with assms Unary show thesis by (intro sign_extension) (auto simp: link_parts_def)
    next
      case False
      have "k = 0 \<and> nn \<and>
        (d, d', t) \<in> {(UInt64, Int32, UInt64From32 b), (UInt64, Int64, UInt64FromInt64 b),
          (Int64, Int32, Int64FromUInt32 b), (UInt64, Int32, UInt64FromInt32 b)}"
        using assms False Unary by (simp add: link_parts_def split: if_splits)
      then show thesis using conversion by blast
    qed
  qed (use assms in \<open>simp_all add: link_parts_def\<close>)
qed

lemma in_domain_mod:
  "in_domain Int32 x \<Longrightarrow> 0 \<le> x \<Longrightarrow> x mod 2 ^ 32 = x"
  "in_domain Int32 x \<Longrightarrow> 0 \<le> x \<Longrightarrow> x mod 2 ^ 64 = x"
  "in_domain Int64 x \<Longrightarrow> 0 \<le> x \<Longrightarrow> x mod 2 ^ 64 = x"
  by (auto simp: in_domain_def)

text \<open>
  A link holds when its sum stays in the domain and, for a conversion that keeps only
  non-negative values, the base is non-negative.
\<close>

lemma link_parts_sound:
  assumes "link_parts d t = Some (d', b, k, nn)"
    and "nn \<Longrightarrow> 0 \<le> reading \<rho> d' b" and "\<not> nn \<Longrightarrow> in_domain d (reading \<rho> d' b + k)"
  shows "reading \<rho> d t = reading \<rho> d' b + k"
  using assms(1)
proof (cases rule: link_parts_cases)
  case (sum op)
  then consider c where "t = Binary op b c" "reading \<rho> d c = k"
    | c where "t = Binary op c b" "reading \<rho> d c = k"
    using domain_constant_sound by blast
  then show ?thesis
    using reading_eqI [OF assms(3) [OF sum(3)], of \<rho> t] sum(2)
      reading_sum_mod [OF sum(1), of \<rho> b] reading_sum_mod [OF sum(1), of \<rho> _ b]
    by cases (simp_all add: add.commute)
next
  case (difference op c)
  then have "reading \<rho> d c = - k" using domain_constant_sound by blast
  then show ?thesis
    using reading_eqI [OF assms(3) [OF difference(3)], of \<rho> t] difference(2,4)
      reading_difference_mod [OF difference(1), of \<rho> b] by simp
next
  case sign_extension
  then show ?thesis by (simp add: reading_widening)
next
  case conversion
  then show ?thesis
    using assms(2) in_domain_mod [OF reading_in_domain, of \<rho> b] by (auto simp: reading_widening)
qed

lemma link_parts_nonnegative:
  assumes "link_parts d t = Some (d', b, k, True)"
  shows "k = 0"
  using assms by (cases rule: link_parts_cases) auto

lemma modular_parts_sound:
  assumes "modular_parts d t = Some (b, k)"
  shows "reading \<rho> d t mod domain_modulus d = (reading \<rho> d b + k) mod domain_modulus d"
proof -
  obtain op x y where t: "t = Binary op x y"
    using assms by (cases t) (auto simp: modular_parts_def)
  show ?thesis
  proof (cases "is_sum d op")
    case True
    then have "(b = x \<and> domain_constant d y = Some k) \<or> (b = y \<and> domain_constant d x = Some k)"
      using assms t by (auto simp: modular_parts_def split: option.splits)
    then show ?thesis
      using reading_sum_mod [OF True, of \<rho> x y] t
      by (auto dest!: domain_constant_sound [of _ _ _ \<rho>] simp: add.commute)
  next
    case False
    then have d: "is_difference d op" "b = x" "domain_constant d y = Some (- k)"
      using assms t by (auto simp: modular_parts_def split: if_splits)
    then show ?thesis
      using reading_difference_mod [OF d(1), of \<rho> x y] t
      by (auto dest!: domain_constant_sound [of _ _ _ \<rho>])
  qed
qed

lemma link_parts_size: "link_parts d t = Some (d', b, k, nn) \<Longrightarrow> size b < size t"
  by (erule link_parts_cases) auto

lemma modular_parts_size: "modular_parts d t = Some (b, k) \<Longrightarrow> size b < size t"
  by (cases t) (auto simp: modular_parts_def split: if_splits option.splits)

lemma sign_flip_base_size: "sign_flip_base d t = Some b \<Longrightarrow> size b < size t"
  by (cases t) (auto simp: sign_flip_base_def Let_def split: if_splits)

lemma narrow_cast_parts_size: "narrow_cast_parts d t = Some (b, r) \<Longrightarrow> size b < size t"
  by (cases t) (auto simp: narrow_cast_parts_def split: if_splits option.splits)

text \<open>Flipping the sign bit adds or subtracts half the modulus.\<close>

lemma xor_top_bit:
  fixes w :: "'a::len word"
  shows "w XOR push_bit (LENGTH('a) - 1) 1 = w + push_bit (LENGTH('a) - 1) 1"
proof -
  let ?m = "push_bit (LENGTH('a) - 1) 1 :: 'a word"
  show ?thesis
  proof (cases "bit w (LENGTH('a) - 1)")
    case False
    then have "w AND ?m = 0"
      by (intro bit_word_eqI) (auto simp: bit_simps)
    then show ?thesis by (simp add: disjunctive_add_eq_xor)
  next
    case True
    have m: "NOT w AND ?m = 0"
      using True by (intro bit_word_eqI) (auto simp: bit_simps)
    have "w - ?m = w XOR ?m" using disjunctive_diff_eq_xor [OF m] disjunctive_diff_eq_and_not [OF m] by simp
    moreover have "?m + ?m = 0"
    proof -
      have "?m + ?m = 2 ^ Suc (LENGTH('a) - 1)"
        by (simp only: push_bit_eq_mult power_Suc mult_2 mult_1_left)
      also have "Suc (LENGTH('a) - 1) = LENGTH('a)" by simp
      finally show ?thesis by simp
    qed
    then have "w - ?m = w + ?m" by (simp add: diff_eq_eq add.assoc)
    ultimately show ?thesis by simp
  qed
qed

lemma flip_sign_cases:
  "flip_sign d x = (if 0 \<le> x then x + fst (domain_range d) else x - fst (domain_range d))"
  by (simp add: flip_sign_def)

lemma flip_sign_in_domain: "in_domain d x \<Longrightarrow> d \<noteq> UInt64 \<Longrightarrow> in_domain d (flip_sign d x)"
  by (cases d) (auto simp: in_domain_def flip_sign_cases)

lemma flip_sign_mod:
  "d \<noteq> UInt64 \<Longrightarrow>
   flip_sign d x mod domain_modulus d = (x + fst (domain_range d)) mod domain_modulus d"
  by (cases d) (auto simp: flip_sign_cases mod_eq_dvd_iff)

lemma min_word:
  "(word_of_int (- (2 ^ 31)) :: 32 word) = push_bit 31 1"
  "(word_of_int (- (2 ^ 63)) :: 64 word) = push_bit 63 1"
  by (transfer; simp)+

lemma xor_min_word:
  "(a :: 32 word) XOR word_of_int (- (2 ^ 31)) = a + word_of_int (- (2 ^ 31))"
  "(b :: 64 word) XOR word_of_int (- (2 ^ 63)) = b + word_of_int (- (2 ^ 63))"
  unfolding min_word using xor_top_bit [of a] xor_top_bit [of b] by simp_all

lemma sign_flip_base_cases:
  assumes "sign_flip_base d t = Some b"
  obtains c op where "(d, op) = (Int32, Op_BitwiseXor) \<or> (d, op) = (Int64, Op_Int64BitwiseXor)"
    "t = Binary op b c \<or> t = Binary op c b" "domain_constant d c = Some (fst (domain_range d))"
proof -
  obtain op x y where t: "t = Binary op x y"
    using assms by (cases t) (simp_all add: sign_flip_base_def)
  note parts = assms [unfolded t sign_flip_base_def Let_def, simplified]
  have op: "(d, op) = (Int32, Op_BitwiseXor) \<or> (d, op) = (Int64, Op_Int64BitwiseXor)"
    using parts by (simp split: if_splits)
  have "(domain_constant d x = Some (fst (domain_range d)) \<and> b = y)
      \<or> (domain_constant d y = Some (fst (domain_range d)) \<and> b = x)"
    using parts by (auto split: if_splits)
  then show thesis using that [OF op] t by blast
qed

lemma sign_flip_base_domain: "sign_flip_base d t = Some b \<Longrightarrow> d \<noteq> UInt64"
  by (erule sign_flip_base_cases) auto

lemma sign_flip_sound:
  assumes "sign_flip_base d t = Some b"
  shows "reading \<rho> d t = flip_sign d (reading \<rho> d b)"
  using assms
proof (cases rule: sign_flip_base_cases)
  case (1 c op)
  let ?m = "fst (domain_range d)"
  have d: "d \<noteq> UInt64" using 1 by auto
  have c: "reading \<rho> d c = ?m" using 1(3) by (rule domain_constant_sound)
  have "congruent d (bv_value \<rho> t) (reading \<rho> d b + ?m)"
  proof (cases d)
    case Int32
    with 1(1,2) have "low32 (bv_value \<rho> t) = low32 (bv_value \<rho> b) XOR low32 (bv_value \<rho> c)"
      by (auto simp: binary32_def xor.commute)
    with c Int32 show ?thesis
      by (simp only: low32_reading [of \<rho> b] low32_reading [of \<rho> c] congruent_def simp_thms if_True
          domain_range.simps fst_conv xor_min_word of_int_add)
  next
    case Int64
    then have "d \<noteq> Int32" by simp
    note low64 = low64_reading [OF this, of \<rho> b] low64_reading [OF this, of \<rho> c]
    from Int64 1(1,2) have "low64 (bv_value \<rho> t) = low64 (bv_value \<rho> b) XOR low64 (bv_value \<rho> c)"
      by (auto simp: binary32_def binary64_def xor.commute)
    with c Int64 show ?thesis
      by (simp only: low64 congruent_def
          domain.distinct if_False domain_range.simps fst_conv xor_min_word of_int_add)
  qed (use d in simp)
  then show ?thesis
    by (intro reading_eqI flip_sign_in_domain reading_in_domain d)
       (simp add: congruent_readingI flip_sign_mod [OF d])
qed

text \<open>Wrapping an interval keeps the residues of its members.\<close>

lemma wrap_range_sound:
  assumes x: "within x (low, high)" and y: "lower \<le> y" "y \<le> upper"
    and eq: "y mod (upper - lower + 1) = x mod (upper - lower + 1)"
  shows "within y (wrap_range (lower, upper) low high)"
proof -
  let ?m = "upper - lower + 1" let ?s = "(low - lower) div ?m * ?m"
  show ?thesis
  proof (cases "high - ?s \<le> upper")
    case True
    have "lower \<le> low - ?s"
      using y pos_mod_sign [of ?m "low - lower"] minus_div_mult_eq_mod [of "low - lower" ?m] by linarith
    have "?m dvd y - (x - ?s)"
    proof -
      have "?m dvd y - x" using eq by (simp add: mod_eq_dvd_iff)
      then have "?m dvd (y - x) + ?s" by simp
      then show ?thesis by (simp add: algebra_simps)
    qed
    moreover have "\<bar>y - (x - ?s)\<bar> < ?m"
      using \<open>lower \<le> low - ?s\<close> True x y by auto
    ultimately have "y - (x - ?s) = 0"
      using zdvd_imp_le [of ?m "\<bar>y - (x - ?s)\<bar>"] by (cases "y - (x - ?s) = 0") auto
    then show ?thesis using x True by (auto simp: wrap_range_def Let_def)
  next
    case False
    then show ?thesis using y by (auto simp: wrap_range_def Let_def)
  qed
qed

lemma wrap_interval_sound:
  assumes "within x (low, high)" and "in_domain d y"
    and "y mod domain_modulus d = x mod domain_modulus d"
  shows "within y (wrap_interval d low high)"
  using wrap_range_sound [OF assms(1), of "fst (domain_range d)" y "snd (domain_range d)"] assms
  by (simp add: wrap_interval_def in_domain_def domain_modulus_def case_prod_beta)

text \<open>Narrow casts stay in the destination and keep the operand modulo its width.\<close>

lemma narrow_range_format:
  assumes "narrow_range kind = Some r"
  shows "r = (format_low (type_format kind), format_high (type_format kind))"
    and "format_bits (type_format kind) \<le> 32"
    and "snd r - fst r + 1 = 2 ^ format_bits (type_format kind)"
    and "- (2 ^ 31) \<le> fst r" "snd r \<le> 2 ^ 31 - 1"
  using assms
  by (cases kind; simp add: narrow_range_def type_format_def format_low_def format_high_def
      format_new_def format_bits_def; clarsimp)+

lemma sint_low32_carrier:
  assumes "narrow_range kind = Some r" "representable (type_format kind) x"
  shows "sint (low32 (carrier_of kind (constant_of (type_format kind) x))) = x"
proof -
  have "- (2 ^ 31) \<le> x \<and> x < 2 ^ 31"
    using assms(2) narrow_range_format [OF assms(1)] by (auto simp: representable_def)
  then have "sint (word_of_int x :: 32 word) = x"
    by (simp add: signed_of_int signed_take_bit_int_eq_self)
  then show ?thesis
    using narrow_range_format [OF assms(1)] to_integer_constant_of_representable [OF assms(2)]
    by (simp add: carrier_of_def)
qed

lemma constant_of_cong:
  "x mod 2 ^ format_bits f = y mod 2 ^ format_bits f \<Longrightarrow> constant_of f x = constant_of f y"
  by (simp add: constant_of_def take_bit_eq_mod)

lemma mod_power_le: "n \<le> m \<Longrightarrow> x mod 2 ^ m = y mod 2 ^ m \<Longrightarrow> x mod 2 ^ n = y mod 2 ^ n" for x y :: int
  by (metis mod_mod_cancel le_imp_power_dvd)

lemma carrier_reading_narrow:
  assumes "narrow_range source = Some r" "within (sint (low32 w)) r"
  shows "carrier_reading source w = sint (low32 w)"
proof -
  let ?f = "type_format source"
  have "sint (low32 w) mod 2 ^ 32 = uint (low32 w)" using sint_mod [of "low32 w"] by simp
  moreover have "uint (low32 w) = uint w mod 2 ^ 32"
    by (simp add: unsigned_ucast_eq take_bit_eq_mod)
  ultimately have "uint w mod 2 ^ 32 = sint (low32 w) mod 2 ^ 32" by simp
  then have "constant_of ?f (uint w) = constant_of ?f (sint (low32 w))"
    by (intro constant_of_cong mod_power_le [OF narrow_range_format(2) [OF assms(1)]])
  moreover have "representable ?f (sint (low32 w))"
    using assms(2) narrow_range_format(1) [OF assms(1)] by (simp add: representable_def)
  ultimately show ?thesis by (simp add: carrier_reading_def to_integer_constant_of_representable)
qed

lemma narrow_cast_sound:
  assumes "narrow_cast_parts d t = Some (v, source, destination, modulus)"
  shows "d = Int32" "0 < modulus" "within (reading \<rho> d t) destination"
    and "within (reading \<rho> Int32 v) source \<Longrightarrow>
         reading \<rho> d t mod modulus = reading \<rho> Int32 v mod modulus"
proof -
  obtain s e where t: "t = MachineIntegerCast v s e" and d: "d = Int32"
    and s: "narrow_range s = Some source" and e: "narrow_range e = Some destination"
    and m: "modulus = snd destination - fst destination + 1"
    using assms by (cases t) (auto simp: narrow_cast_parts_def split: if_splits option.splits)
  show "d = Int32" by (rule d)
  have m': "modulus = 2 ^ format_bits (type_format e)" using narrow_range_format(3) [OF e] m by simp
  then show "0 < modulus" by simp
  let ?c = "constant_of (type_format e) (carrier_reading s (bv_value \<rho> v))"
  have rep: "representable (type_format e) (to_integer ?c)"
    using to_integer_representable [OF wf_constant_of, of "type_format e"] by simp
  have "constant_of (type_format e) (to_integer ?c) = ?c"
    using constant_of_to_integer [OF wf_constant_of] by simp
  then have r: "reading \<rho> d t = to_integer ?c"
    using sint_low32_carrier [OF e rep] by (simp add: reading_def d t cast_value_def)
  then show "within (reading \<rho> d t) destination"
    using rep narrow_range_format(1) [OF e] by (simp add: representable_def)
  show "reading \<rho> d t mod modulus = reading \<rho> Int32 v mod modulus"
    if "within (reading \<rho> Int32 v) source"
  proof -
    have "carrier_reading s (bv_value \<rho> v) = reading \<rho> Int32 v"
      using carrier_reading_narrow [OF s] that by (simp add: reading_def)
    then show ?thesis
      using constant_of_eq_iff [of "type_format e" "reading \<rho> Int32 v" ?c] r m' by simp
  qed
qed

text \<open>Orders and equalities.\<close>

lemma order_parts_sound:
  assumes "order_parts op = Some (d, swapped, strict)"
  shows "cond_value \<rho> (Compare op a b) \<longleftrightarrow>
    (let (lower, upper) = (if swapped then (b, a) else (a, b)) in
     if strict then reading \<rho> d lower < reading \<rho> d upper else reading \<rho> d lower \<le> reading \<rho> d upper)"
  using assms
  by (cases op) (simp_all add: order_parts_def compare_value_def reading_def word_less_def word_le_def
      split: if_splits)

lemma sint_inject: "sint v = sint w \<longleftrightarrow> v = w" for v w :: "'a::len word"
  using sint_mod [of v] sint_mod [of w] by (metis word_uint_eq_iff)

lemma equality_domains_sound:
  assumes "equality_domains op = Some domains" "d \<in> set domains"
  shows "cond_value \<rho> (Compare op a b) \<longleftrightarrow> reading \<rho> d a = reading \<rho> d b"
  using assms
  by (cases op) (auto simp: equality_domains_def compare_value_def reading_def sint_inject simp flip: word_uint_eq_iff)

lemma condition_orders_sound:
  assumes "(d, lower, upper, strict) \<in> set (condition_orders c value)" "cond_value \<rho> c = value"
  shows "reading \<rho> d lower + of_bool strict \<le> reading \<rho> d upper"
proof -
  obtain op a b where c: "c = Compare op a b"
    using assms(1) by (cases c) (simp_all add: condition_orders_def)
  show ?thesis
  proof (cases "order_parts op")
    case (Some p)
    obtain d' swapped strict' where p: "p = (d', swapped, strict')" by (cases p)
    show ?thesis
      using assms order_parts_sound [OF Some [unfolded p], of \<rho> a b]
      by (auto simp: condition_orders_def c Some p Let_def split: if_splits)
  next
    case None
    then obtain domains where e: "equality_domains op = Some domains"
      using assms(1) by (cases "equality_domains op") (simp_all add: condition_orders_def c)
    with assms None have "d \<in> set domains" "value" "\<not> strict"
      "(lower, upper) = (a, b) \<or> (lower, upper) = (b, a)"
      by (auto simp: condition_orders_def c split: if_splits)
    then show ?thesis
      using equality_domains_sound [OF e, of d \<rho> a b] assms(2) c by auto
  qed
qed

lemma condition_orders_single:
  assumes "condition_orders c True = [(d, lower, upper, strict)]"
  shows "cond_value \<rho> c \<longleftrightarrow> reading \<rho> d lower + of_bool strict \<le> reading \<rho> d upper"
proof -
  obtain op a b where c: "c = Compare op a b"
    using assms by (cases c) (simp_all add: condition_orders_def)
  have "equality_domains op = None \<or> order_parts op \<noteq> None"
  proof (rule ccontr)
    assume "\<not> ?thesis"
    then show False
      using assms
      by (cases "order_parts op"; cases op) (auto simp: condition_orders_def c equality_domains_def)
  qed
  then obtain p where p: "order_parts op = Some p"
    using assms by (cases "order_parts op") (auto simp: condition_orders_def c)
  obtain d' swapped strict' where p': "p = (d', swapped, strict')" by (cases p)
  show ?thesis
    using assms order_parts_sound [OF p [unfolded p'], of \<rho> a b]
    by (auto simp: condition_orders_def c p p' Let_def split: if_splits)
qed

text \<open>An overflow condition is a function of its operands' readings.\<close>

definition overflow_value :: "nat \<Rightarrow> int \<Rightarrow> int \<Rightarrow> bool" where
  "overflow_value code x y =
     (if code = 0 then \<not> in_domain Int32 (x + y)
      else if code = 1 then \<not> in_domain Int32 (x - y)
      else if code = 2 then \<not> in_domain Int32 (x * y)
      else if code = 3 then x = - (2 ^ 31) \<and> y = - 1
      else if code = 4 then 0 \<le> x \<and> (2::int) ^ 31 \<le> x * 2 ^ nat (y mod 2 ^ 32)
      else if code = 5 then \<not> in_domain Int64 (x + y)
      else if code = 6 then \<not> in_domain Int64 (x - y)
      else if code = 7 then \<not> in_domain Int64 (x * y)
      else y = 0 \<or> x = - (2 ^ 63) \<and> y = - 1)"

lemma unat_sint: "unat w = nat (sint w mod 2 ^ 32)" for w :: "32 word"
proof -
  have "sint w mod 2 ^ 32 = uint w" using sint_mod [of w] by simp
  then show ?thesis by (simp only: unat_eq_nat_uint)
qed

lemma overflow_domain:
  "overflow32 f a b \<longleftrightarrow> \<not> in_domain Int32 (f (word_reading Int32 a) (word_reading Int32 b))"
  "overflow64 f a b \<longleftrightarrow> \<not> in_domain Int64 (f (word_reading Int64 a) (word_reading Int64 b))"
  by (auto simp: overflow32_def overflow64_def in_domain_def)

lemma overflow_parts_sound:
  assumes "overflow_parts c = Some (code, d, a, b, commutative)"
  shows "cond_value \<rho> c \<longleftrightarrow> overflow_value code (reading \<rho> d a) (reading \<rho> d b)"
proof -
  obtain op where c: "c = Compare op a b" and op: "overflow_op op = Some (code, d, commutative)"
    using assms by (cases c) (auto simp: overflow_parts_def)
  have "compare_value op (bv_value \<rho> a) (bv_value \<rho> b)
      \<longleftrightarrow> overflow_value code (reading \<rho> d a) (reading \<rho> d b)"
    using op
    by (cases op; simp add: overflow_op_def; elim conjE; hypsubst)
       (simp_all add: compare_value_def overflow_value_def overflow_domain reading_def unat_sint)
  then show ?thesis by (simp add: c)
qed

lemma overflow_parts_commutative:
  assumes "overflow_parts c = Some (code, d, a, b, True)"
  shows "overflow_value code x y = overflow_value code y x"
proof -
  obtain op where "overflow_op op = Some (code, d, True)"
    using assms by (cases c) (auto simp: overflow_parts_def)
  then show ?thesis
    by (cases op) (auto simp: overflow_op_def overflow_value_def add.commute mult.commute)
qed

text \<open>Pointer offsets.\<close>

lemma same_field_bases_sound:
  assumes "same_field_bases a b = Some (a', b')"
  shows "offset_value \<rho> a = offset_value \<rho> b \<longleftrightarrow> offset_value \<rho> a' = offset_value \<rho> b'"
  using assms by (auto simp: same_field_bases_def split: offset.splits if_splits)

lemma scaled_offset_sound:
  "scaled_offset a = Some (Scaled v w) \<Longrightarrow> offset_value \<rho> a = reading \<rho> Int32 v * w \<and> w \<noteq> 0"
  "scaled_offset a = Some (Bytes n) \<Longrightarrow> offset_value \<rho> a = n"
proof -
  show "offset_value \<rho> a = reading \<rho> Int32 v * w \<and> w \<noteq> 0" if "scaled_offset a = Some (Scaled v w)"
  proof (cases a)
    case (Int32Scaled t c)
    with that have "t = v \<and> sint c = w \<and> c \<noteq> 0"
      by (simp add: scaled_offset_def split: if_splits)
    moreover have "sint c \<noteq> 0" if "c \<noteq> 0" using that sint_inject [of c 0] by simp
    ultimately show ?thesis using Int32Scaled by (auto simp: reading_def)
  qed (use that in \<open>simp_all add: scaled_offset_def\<close>)
  show "offset_value \<rho> a = n" if "scaled_offset a = Some (Bytes n)"
    using that by (cases a) (simp_all add: scaled_offset_def split: if_splits)
qed

lemma smod_zero_iff: "b smod w = 0 \<longleftrightarrow> w dvd b" for b w :: int
  by (auto simp: signed_modulo_int_def sgn_if)

lemma sdiv_exact: "w dvd b \<Longrightarrow> w \<noteq> 0 \<Longrightarrow> x * w = b \<longleftrightarrow> x = b sdiv w" for b w x :: int
proof -
  assume "w dvd b" "w \<noteq> 0"
  then have "b sdiv w * w = b"
    using sdiv_mult_smod_eq [of b w] smod_zero_iff [of b w] by simp
  then have "x * w = b \<longleftrightarrow> x * w = b sdiv w * w" by simp
  then show "x * w = b \<longleftrightarrow> x = b sdiv w" using \<open>w \<noteq> 0\<close> by simp
qed

lemma scaled_equality_sound:
  assumes "scaled_equality v w n = Some e" "w \<noteq> 0"
  shows "reading \<rho> Int32 v * w = n \<longleftrightarrow> cond_value \<rho> e"
proof -
  have d: "w dvd n" using assms by (auto simp: scaled_equality_def smod_zero_iff split: if_splits)
  obtain count where count: "i32_try_from (n sdiv w) = Some count"
    and e: "e = Compare Op_Bitvector32Equal v (Constant count)"
    using assms by (auto simp: scaled_equality_def split: if_splits)
  have "sint count = n sdiv w"
    using count by (auto simp: i32_try_from_def signed_of_int signed_take_bit_int_eq_self
        split: if_splits)
  then show ?thesis
    using equality_domains_sound [of Op_Bitvector32Equal "[Int32]" Int32 \<rho> v "Constant count"]
      sdiv_exact [OF d assms(2), of "reading \<rho> Int32 v"]
    by (simp add: e equality_domains_def reading_def)
qed

lemma offset_equality_sides_sound:
  "offset_equality_sides a b = Some e \<Longrightarrow>
   offset_value \<rho> a = offset_value \<rho> b \<longleftrightarrow> cond_value \<rho> e"
proof (induction a b rule: offset_equality_sides.induct)
  case (1 a b)
  show ?case
  proof (cases "same_field_bases a b")
    case (Some ab)
    obtain a' b' where ab: "ab = (a', b')" by (cases ab)
    then show ?thesis
      using "1.IH" [OF Some ab [symmetric]] "1.prems" Some same_field_bases_sound [of a b a' b' \<rho>]
      by (simp add: offset_equality_sides.simps [of a b])
  next
    case None
    show ?thesis
    proof (cases "scaled_offset a"; cases "scaled_offset b")
      fix x y
      assume x: "scaled_offset a = Some x" and y: "scaled_offset b = Some y"
      show ?thesis
      proof (cases x; cases y)
        fix v w v' w'
        assume "x = Scaled v w" "y = Scaled v' w'"
        then show ?thesis
          using "1.prems" None x y scaled_offset_sound(1) [of a v w \<rho>] scaled_offset_sound(1) [of b v' w' \<rho>]
            equality_domains_sound [of Op_Bitvector32Equal "[Int32]" Int32 \<rho> v v']
          by (auto simp: offset_equality_sides.simps [of a b] equality_domains_def split: if_splits)
      next
        fix v w n
        assume "x = Scaled v w" "y = Bytes n"
        then show ?thesis
          using "1.prems" None x y scaled_offset_sound(1) [of a v w \<rho>] scaled_offset_sound(2) [of b n \<rho>]
            scaled_equality_sound [of v w n e \<rho>]
          by (simp add: offset_equality_sides.simps [of a b])
      next
        fix n v w
        assume "x = Bytes n" "y = Scaled v w"
        then show ?thesis
          using "1.prems" None x y scaled_offset_sound(1) [of b v w \<rho>] scaled_offset_sound(2) [of a n \<rho>]
            scaled_equality_sound [of v w n e \<rho>]
          by (simp add: offset_equality_sides.simps [of a b] eq_commute [of n])
      next
        fix n n'
        assume "x = Bytes n" "y = Bytes n'"
        then show ?thesis
          using "1.prems" None x y by (simp add: offset_equality_sides.simps [of a b])
      qed
    qed (use "1.prems" None in \<open>simp_all add: offset_equality_sides.simps [of a b]
        split: scaled_offset.splits\<close>)
  qed
qed

lemma offset_equality_sound:
  "offset_equality c = Some e \<Longrightarrow> cond_value \<rho> c \<longleftrightarrow> cond_value \<rho> e"
  by (cases c) (simp_all add: offset_equality_def offset_equality_sides_sound)

lemma unreachable_bytes_sound:
  assumes "unreachable_bytes w n = Some v" "w \<noteq> 0"
  shows "\<not> v \<and> reading \<rho> Int32 t * w \<noteq> n"
proof -
  have "\<not> v" and u: "n smod w \<noteq> 0 \<or> i32_try_from (n sdiv w) = None"
    using assms by (auto simp: unreachable_bytes_def split: if_splits)
  moreover have "reading \<rho> Int32 t * w \<noteq> n"
  proof
    assume eq: "reading \<rho> Int32 t * w = n"
    then have "w dvd n" by auto
    then have "i32_try_from (reading \<rho> Int32 t) = None"
      using u eq sdiv_exact [of w n "reading \<rho> Int32 t"] assms(2) by (auto simp: smod_zero_iff)
    then show False
      using reading_in_domain [of Int32 \<rho> t] by (auto simp: i32_try_from_def in_domain_def)
  qed
  ultimately show ?thesis by simp
qed

lemma offset_mismatch_sound:
  assumes "offset_mismatch a b = Some v"
  shows "\<not> v \<and> offset_value \<rho> a \<noteq> offset_value \<rho> b"
proof (cases "scaled_offset a"; cases "scaled_offset b")
  fix x y
  assume x: "scaled_offset a = Some x" and y: "scaled_offset b = Some y"
  show ?thesis
  proof (cases x; cases y)
    fix t w n
    assume "x = Scaled t w" "y = Bytes n"
    then show ?thesis
      using assms x y unreachable_bytes_sound [of w n v \<rho> t] scaled_offset_sound(1) [of a t w \<rho>]
        scaled_offset_sound(2) [of b n \<rho>] by (simp add: offset_mismatch_def)
  next
    fix n t w
    assume "x = Bytes n" "y = Scaled t w"
    then show ?thesis
      using assms x y unreachable_bytes_sound [of w n v \<rho> t] scaled_offset_sound(1) [of b t w \<rho>]
        scaled_offset_sound(2) [of a n \<rho>] by (simp add: offset_mismatch_def)
  qed (use assms x y in \<open>simp_all add: offset_mismatch_def\<close>)
qed (use assms in \<open>simp_all add: offset_mismatch_def split: scaled_offset.splits\<close>)

end
