(* ===== verification/ConditionOps.thy ===== *)
theory ConditionOps
  imports OffsetTerms DifferenceTerms
begin

unbundle bit_operations_syntax

text \<open>
  The condition constructors of \<^verbatim>\<open>src/src/kernel/primitives/term_operations.rs\<close>:
  comparisons, equalities and overflow tests, folded on constants and on the ranges a
  term's root implies. The proofs are one \<open>cond_means\<close> fact per constructor.
\<close>

section \<open>Ranges of a root\<close>

definition int64_width_interval :: "'x bv \<Rightarrow> (int \<times> int) option" where
  "int64_width_interval t = (case t of
     Int64Constant v \<Rightarrow> Some (sint v, sint v)
   | Unary op _ \<Rightarrow>
       if op = Op_Int64From32 then Some (- (2 ^ 31), 2 ^ 31 - 1)
       else if op = Op_Int64FromUInt32 then Some (0, 2 ^ 32 - 1)
       else None
   | _ \<Rightarrow> None)"

text \<open>A shift count below 64, as a constant of any width.\<close>

definition known_count :: "'x bv \<Rightarrow> nat option" where
  "known_count t = (case t of
     Constant c \<Rightarrow> if unat c < 64 then Some (unat c) else None
   | UInt64Constant c \<Rightarrow> if unat c < 64 then Some (unat c) else None
   | Int64Constant c \<Rightarrow> if 0 \<le> sint c \<and> sint c < 64 then Some (unat c) else None
   | _ \<Rightarrow> None)"

definition unsigned32_upper_bound :: "'x bv \<Rightarrow> 32 word" where
  "unsigned32_upper_bound t = (case t of
     Constant v \<Rightarrow> v
   | Binary op left right \<Rightarrow>
       if op = Op_BitwiseAnd then
         (case constant_parts left of
            Some bits \<Rightarrow> bits
          | None \<Rightarrow> (case constant_parts right of Some bits \<Rightarrow> bits | None \<Rightarrow> - 1))
       else - 1
   | Unary op v \<Rightarrow>
       if op = Op_UInt32From64 then
         (case on_parts Op_UInt64LogicalShiftRight v (\<lambda>_ count. known_count count) of
            Some count \<Rightarrow> ucast (min (drop_bit count (- 1)) (2 ^ 32 - 1) :: 64 word)
          | None \<Rightarrow> - 1)
       else - 1
   | _ \<Rightarrow> - 1)"

definition int64_interval_fits :: "int \<Rightarrow> int \<Rightarrow> bool" where
  "int64_interval_fits lower upper \<longleftrightarrow> - (2 ^ 63) \<le> lower \<and> upper \<le> 2 ^ 63 - 1"

definition int64_add_interval_fits :: "(int \<times> int) option \<Rightarrow> (int \<times> int) option \<Rightarrow> bool" where
  "int64_add_interval_fits left right =
     (case (left, right) of
        (Some (left_lower, left_upper), Some (right_lower, right_upper)) \<Rightarrow>
          int64_interval_fits (left_lower + right_lower) (left_upper + right_upper)
      | _ \<Rightarrow> False)"

definition int64_subtract_interval_fits :: "(int \<times> int) option \<Rightarrow> (int \<times> int) option \<Rightarrow> bool" where
  "int64_subtract_interval_fits left right =
     (case (left, right) of
        (Some (left_lower, left_upper), Some (right_lower, right_upper)) \<Rightarrow>
          int64_interval_fits (left_lower - right_upper) (left_upper - right_lower)
      | _ \<Rightarrow> False)"

definition or_whole :: "(int \<times> int) option \<Rightarrow> int \<times> int" where
  "or_whole known = (case known of Some r \<Rightarrow> r | None \<Rightarrow> (- (2 ^ 63), 2 ^ 63 - 1))"

definition int64_signed_order_by_width :: "'x bv \<Rightarrow> 'x bv \<Rightarrow> (int \<Rightarrow> int \<Rightarrow> bool) \<Rightarrow> bool option" where
  "int64_signed_order_by_width left right holds =
     (let (left_lower, left_upper) = or_whole (int64_width_interval left);
          (right_lower, right_upper) = or_whole (int64_width_interval right);
          (worst, best) =
            (if holds (- (2 ^ 63)) (2 ^ 63 - 1)
             then (holds left_upper right_lower, holds left_lower right_upper)
             else (holds left_lower right_upper, holds left_upper right_lower))
      in if worst then Some True else if \<not> best then Some False else None)"

section \<open>Reflexivity\<close>

definition compare_reflexive :: "comparison \<Rightarrow> bool option" where
  "compare_reflexive op =
     (if op \<in> {Op_Bitvector32SignedLessEqual, Op_Bitvector32SignedGreaterEqual, Op_Bitvector32Equal,
               Op_Bitvector64SignedLessEqual, Op_Bitvector64SignedGreaterEqual,
               Op_Bitvector64UnsignedLessEqual, Op_Bitvector64UnsignedGreaterEqual,
               Op_Bitvector64Equal} then Some True
      else if op \<in> {Op_Bitvector32SignedLessThan, Op_Bitvector32SignedGreaterThan,
               Op_Bitvector64SignedLessThan, Op_Bitvector64SignedGreaterThan,
               Op_Bitvector64UnsignedLessThan, Op_Bitvector64UnsignedGreaterThan} then Some False
      else None)"

definition integer_reflexive :: "integer_comparison \<Rightarrow> bool" where
  "integer_reflexive op \<longleftrightarrow> op \<in> {Op_IntegerLessEqual, Op_IntegerGreaterEqual, Op_IntegerEqual}"

definition reflexive_value :: "'x cond \<Rightarrow> bool option" where
  "reflexive_value c = (case c of
     PointerValueEqual left right \<Rightarrow> then_some (left = right) True
   | Compare op left right \<Rightarrow> if left = right then compare_reflexive op else None
   | Integer_Compare op left right \<Rightarrow> then_some (left = right) (integer_reflexive op)
   | PointerOffsetEqual left right \<Rightarrow> then_some (left = right) True
   | PointerEqual left right \<Rightarrow> then_some (left = right) True
   | _ \<Rightarrow> None)"

section \<open>Signed 64-bit orders\<close>

definition by_width :: "comparison \<Rightarrow> (int \<Rightarrow> int \<Rightarrow> bool) \<Rightarrow> 'x bv \<Rightarrow> 'x bv \<Rightarrow> 'x cond" where
  "by_width op holds left right =
     (case int64_signed_order_by_width left right holds of
        Some v \<Rightarrow> Cond_Constant v
      | None \<Rightarrow> Compare op left right)"

definition int64_signed_less_than :: "'x bv \<Rightarrow> 'x bv \<Rightarrow> 'x cond" where
  "int64_signed_less_than = by_width Op_Bitvector64SignedLessThan (<)"

definition int64_signed_less_equal :: "'x bv \<Rightarrow> 'x bv \<Rightarrow> 'x cond" where
  "int64_signed_less_equal = by_width Op_Bitvector64SignedLessEqual (\<le>)"

definition int64_signed_greater_than :: "'x bv \<Rightarrow> 'x bv \<Rightarrow> 'x cond" where
  "int64_signed_greater_than = by_width Op_Bitvector64SignedGreaterThan (>)"

definition int64_signed_greater_equal :: "'x bv \<Rightarrow> 'x bv \<Rightarrow> 'x cond" where
  "int64_signed_greater_equal = by_width Op_Bitvector64SignedGreaterEqual (\<ge>)"

section \<open>Unsigned 64-bit orders\<close>

definition uint64_less_than :: "'x bv \<Rightarrow> 'x bv \<Rightarrow> 'x cond" where
  "uint64_less_than left right =
     first_match
       [on_parts Op_UInt64BitwiseAnd left (\<lambda>masked_left masked_right.
          case (uint64_constant right, or_else (uint64_constant masked_left) (uint64_constant masked_right)) of
            (Some bound, Some bits) \<Rightarrow> then_some (bits < bound) (Cond_Constant True)
          | _ \<Rightarrow> None),
        (case (uint64_constant left, uint64_constant right) of
           (Some l, Some r) \<Rightarrow> Some (Cond_Constant (l < r))
         | _ \<Rightarrow> None),
        then_some (uint64_constant right = Some 0 \<or> uint64_constant left = Some (- 1)) (Cond_Constant False)]
       (Compare Op_Bitvector64UnsignedLessThan left right)"

definition uint64_less_equal :: "'x bv \<Rightarrow> 'x bv \<Rightarrow> 'x cond" where
  "uint64_less_equal left right =
     first_match
       [(case (uint64_constant left, uint64_constant right) of
           (Some l, Some r) \<Rightarrow> Some (Cond_Constant (l \<le> r))
         | _ \<Rightarrow> None),
        then_some (uint64_constant left = Some 0 \<or> uint64_constant right = Some (- 1)) (Cond_Constant True)]
       (Compare Op_Bitvector64UnsignedLessEqual left right)"

definition uint64_greater_than :: "'x bv \<Rightarrow> 'x bv \<Rightarrow> 'x cond" where
  "uint64_greater_than left right =
     first_match
       [(case (uint64_constant left, uint64_constant right) of
           (Some l, Some r) \<Rightarrow> Some (Cond_Constant (l > r))
         | _ \<Rightarrow> None),
        then_some (uint64_constant left = Some 0 \<or> uint64_constant right = Some (- 1)) (Cond_Constant False)]
       (Compare Op_Bitvector64UnsignedGreaterThan left right)"

definition uint64_greater_equal :: "'x bv \<Rightarrow> 'x bv \<Rightarrow> 'x cond" where
  "uint64_greater_equal left right =
     first_match
       [(case (uint64_constant left, uint64_constant right) of
           (Some l, Some r) \<Rightarrow> Some (Cond_Constant (l \<ge> r))
         | _ \<Rightarrow> None),
        then_some (uint64_constant right = Some 0 \<or> uint64_constant left = Some (- 1)) (Cond_Constant True)]
       (Compare Op_Bitvector64UnsignedGreaterEqual left right)"

section \<open>Addresses and 64-bit equality\<close>

definition address_parts :: "'x bv \<Rightarrow> 'x pointer option" where
  "address_parts t = (case t of PointerAddress p \<Rightarrow> Some p | _ \<Rightarrow> None)"

text \<open>The pointer of an address that is compared with zero.\<close>

definition null_test :: "'x bv \<Rightarrow> 'x bv \<Rightarrow> 'x pointer option" where
  "null_test left right =
     (case address_parts left of
        Some p \<Rightarrow> then_some (uint64_constant right = Some 0) p
      | None \<Rightarrow>
          (case address_parts right of
             Some q \<Rightarrow> then_some (uint64_constant left = Some 0) q
           | None \<Rightarrow> None))"

definition address_equality_as_pointer_equality ::
  "'x block_registry \<Rightarrow> 'x bv \<Rightarrow> 'x bv \<Rightarrow> 'x cond option" where
  "address_equality_as_pointer_equality reg left right =
     (case (address_parts left, address_parts right) of
        (Some p, Some q) \<Rightarrow> Some (pointer_equal reg p q)
      | _ \<Rightarrow> map_option (\<lambda>p. pointer_equal reg p null_pointer) (null_test left right))"

definition flipped :: "'x cond \<Rightarrow> 'x cond" where
  "flipped c = (case c of
     Compare op left right \<Rightarrow>
       if op = Op_Bitvector32Equal \<or> op = Op_Bitvector64Equal then Compare op right left else c
   | PointerEqual left right \<Rightarrow> PointerEqual right left
   | PointerValueEqual left right \<Rightarrow> PointerValueEqual right left
   | PointerOffsetEqual left right \<Rightarrow> PointerOffsetEqual right left
   | _ \<Rightarrow> c)"

definition is_power_of_two :: "64 word \<Rightarrow> bool" where
  "is_power_of_two w \<longleftrightarrow> w \<noteq> 0 \<and> w AND (w - 1) = 0"

text \<open>The pointer and the mask of an alignment test of a masked word.\<close>

definition masked_address :: "'x bv \<Rightarrow> ('x pointer \<times> 64 word) option" where
  "masked_address masked =
     on_parts Op_UInt64BitwiseAnd masked (\<lambda>left right.
       case (case address_parts left of
               Some p \<Rightarrow> Some (p, right)
             | None \<Rightarrow> map_option (\<lambda>p. (p, left)) (address_parts right)) of
         None \<Rightarrow> None
       | Some (p, bits) \<Rightarrow>
           (case uint64_constant bits of
              None \<Rightarrow> None
            | Some bits \<Rightarrow>
                if bits = - 1 then None
                else then_some (is_power_of_two (bits + 1)) (p, bits + 1)))"

definition as_pointer_alignment :: "'x cond \<Rightarrow> ('x pointer \<times> 64 word) option" where
  "as_pointer_alignment c = (case c of
     Compare op left right \<Rightarrow>
       if op \<noteq> Op_Bitvector64Equal then None
       else if uint64_constant right = Some 0 then masked_address left
       else if uint64_constant left = Some 0 then masked_address right
       else None
   | _ \<Rightarrow> None)"

definition int64_equal :: "'x block_registry \<Rightarrow> 'x bv \<Rightarrow> 'x bv \<Rightarrow> 'x cond" where
  "int64_equal reg left right =
     (if left = right then Cond_Constant True
      else
        (case null_test left right of
           Some p \<Rightarrow> pointer_equal reg p null_pointer
         | None \<Rightarrow>
             (case (bitvector64_as_const left, bitvector64_as_const right) of
                (Some l, Some r) \<Rightarrow> Cond_Constant (l = r)
              | _ \<Rightarrow>
                  (case as_pointer_alignment (Compare Op_Bitvector64Equal left right) of
                     Some (p, alignment) \<Rightarrow>
                       Compare Op_Bitvector64Equal
                         (UInt64BitwiseAnd (PointerAddress p) (UInt64Constant (alignment - 1)))
                         (UInt64Constant 0)
                   | None \<Rightarrow> Compare Op_Bitvector64Equal left right))))"

definition uint64_equal :: "'x block_registry \<Rightarrow> 'x bv \<Rightarrow> 'x bv \<Rightarrow> 'x cond" where
  "uint64_equal = int64_equal"

definition pointer_aligned :: "'x block_registry \<Rightarrow> 'x pointer \<Rightarrow> 64 word \<Rightarrow> 'x cond" where
  "pointer_aligned reg p alignment =
     uint64_equal reg
       (uint64_bitwise_and (PointerAddress p) (UInt64Constant (alignment - 1)))
       (UInt64Constant 0)"

section \<open>Overflow tests\<close>

definition i64_overflows :: "(int \<Rightarrow> int \<Rightarrow> int) \<Rightarrow> 64 word \<Rightarrow> 64 word \<Rightarrow> bool" where
  "i64_overflows f l r \<longleftrightarrow> i64_checked f l r = None"

definition int64_signed_add_overflows :: "'x bv \<Rightarrow> 'x bv \<Rightarrow> 'x cond" where
  "int64_signed_add_overflows left right =
     (case (int64_constant left, int64_constant right) of
        (Some l, Some r) \<Rightarrow> Cond_Constant (i64_overflows (+) l r)
      | _ \<Rightarrow>
          if int64_add_interval_fits (int64_width_interval left) (int64_width_interval right)
          then Cond_Constant False
          else Compare Op_Bitvector64SignedAddOverflows left right)"

definition int64_signed_subtract_overflows :: "'x bv \<Rightarrow> 'x bv \<Rightarrow> 'x cond" where
  "int64_signed_subtract_overflows left right =
     (case (int64_constant left, int64_constant right) of
        (Some l, Some r) \<Rightarrow> Cond_Constant (i64_overflows (-) l r)
      | _ \<Rightarrow>
          if int64_subtract_interval_fits (int64_width_interval left) (int64_width_interval right)
          then Cond_Constant False
          else Compare Op_Bitvector64SignedSubtractOverflows left right)"

definition int64_signed_multiply_overflows :: "'x bv \<Rightarrow> 'x bv \<Rightarrow> 'x cond" where
  "int64_signed_multiply_overflows left right =
     (case (int64_constant left, int64_constant right) of
        (Some l, Some r) \<Rightarrow> Cond_Constant (i64_overflows (*) l r)
      | _ \<Rightarrow> Compare Op_Bitvector64SignedMultiplyOverflows left right)"

definition int64_signed_divide_overflows :: "'x bv \<Rightarrow> 'x bv \<Rightarrow> 'x cond" where
  "int64_signed_divide_overflows left right =
     (case (int64_constant left, int64_constant right) of
        (Some l, Some r) \<Rightarrow> Cond_Constant (r = 0 \<or> sint l = - (2 ^ 63) \<and> r = - 1)
      | _ \<Rightarrow> Compare Op_Bitvector64SignedDivideOverflows left right)"

text \<open>
  \<open>checked_shl\<close> refuses only a count of the width or more, so the last test sees the sign of
  the word that is left after bits were shifted out.
\<close>

definition int64_signed_shift_left_overflows :: "'x bv \<Rightarrow> 'x bv \<Rightarrow> 'x cond" where
  "int64_signed_shift_left_overflows left right =
     (case (int64_constant left, int64_shift_count_constant right) of
        (Some l, Some count) \<Rightarrow>
          Cond_Constant (64 \<le> unat count \<or> sint l < 0 \<or> sint (push_bit (unat count) l) < 0)
      | _ \<Rightarrow> Compare Op_Bitvector64SignedShiftLeftOverflows left right)"

section \<open>32-bit comparisons\<close>

definition fold_compare :: "(32 word \<Rightarrow> 32 word \<Rightarrow> bool) \<Rightarrow> comparison \<Rightarrow> 'x bv \<Rightarrow> 'x bv \<Rightarrow> 'x cond" where
  "fold_compare f op left right =
     (case (as_const left, as_const right) of
        (Some l, Some r) \<Rightarrow> Cond_Constant (f l r)
      | _ \<Rightarrow> Compare op left right)"

definition signed_less_than :: "'x bv \<Rightarrow> 'x bv \<Rightarrow> 'x cond" where
  "signed_less_than = fold_compare (\<lambda>l r. sint l < sint r) Op_Bitvector32SignedLessThan"

definition signed_less_equal :: "'x bv \<Rightarrow> 'x bv \<Rightarrow> 'x cond" where
  "signed_less_equal = fold_compare (\<lambda>l r. sint l \<le> sint r) Op_Bitvector32SignedLessEqual"

definition signed_greater_than :: "'x bv \<Rightarrow> 'x bv \<Rightarrow> 'x cond" where
  "signed_greater_than = fold_compare (\<lambda>l r. sint l > sint r) Op_Bitvector32SignedGreaterThan"

definition signed_greater_equal :: "'x bv \<Rightarrow> 'x bv \<Rightarrow> 'x cond" where
  "signed_greater_equal = fold_compare (\<lambda>l r. sint l \<ge> sint r) Op_Bitvector32SignedGreaterEqual"

definition equal_terms :: "'x bv \<Rightarrow> 'x bv \<Rightarrow> 'x cond" where
  "equal_terms = fold_compare (=) Op_Bitvector32Equal"

definition i32_overflows :: "(int \<Rightarrow> int \<Rightarrow> int) \<Rightarrow> 32 word \<Rightarrow> 32 word \<Rightarrow> bool" where
  "i32_overflows f l r \<longleftrightarrow> \<not> (- (2 ^ 31) \<le> f (sint l) (sint r) \<and> f (sint l) (sint r) < 2 ^ 31)"

definition signed_add_overflows :: "'x bv \<Rightarrow> 'x bv \<Rightarrow> 'x cond" where
  "signed_add_overflows = fold_compare (i32_overflows (+)) Op_Bitvector32SignedAddOverflows"

definition signed_subtract_overflows :: "'x bv \<Rightarrow> 'x bv \<Rightarrow> 'x cond" where
  "signed_subtract_overflows left right =
     (if as_const right = Some 0 then Cond_Constant False
      else fold_compare (i32_overflows (-)) Op_Bitvector32SignedSubtractOverflows left right)"

definition signed_multiply_overflows :: "'x bv \<Rightarrow> 'x bv \<Rightarrow> 'x cond" where
  "signed_multiply_overflows = fold_compare (i32_overflows (*)) Op_Bitvector32SignedMultiplyOverflows"

definition signed_divide_overflows :: "'x bv \<Rightarrow> 'x bv \<Rightarrow> 'x cond" where
  "signed_divide_overflows =
     fold_compare (\<lambda>l r. l = 0x80000000 \<and> r = - 1) Op_Bitvector32SignedDivideOverflows"

definition signed_shift_left_overflows :: "'x bv \<Rightarrow> 'x bv \<Rightarrow> 'x cond" where
  "signed_shift_left_overflows left right =
     (case (as_const left, as_const right) of
        (Some l, Some r) \<Rightarrow>
          (case signed_shift_left_overflows_const l r of
             Some overflows \<Rightarrow> Cond_Constant overflows
           | None \<Rightarrow> Compare Op_Bitvector32SignedShiftLeftOverflows left right)
      | _ \<Rightarrow> Compare Op_Bitvector32SignedShiftLeftOverflows left right)"

definition sign_bit :: "'x bv" where
  "sign_bit = Constant 0x80000000"

text \<open>The order of terms that \<^verbatim>\<open>bitwise_xor\<close> sorts by is a parameter.\<close>

definition unsigned_less_than :: "('x bv \<Rightarrow> 'x bv \<Rightarrow> bool) \<Rightarrow> 'x bv \<Rightarrow> 'x bv \<Rightarrow> 'x cond" where
  "unsigned_less_than below left right =
     first_match
       [(case constant_parts right of
           Some bound \<Rightarrow> then_some (unsigned32_upper_bound left < bound) (Cond_Constant True)
         | None \<Rightarrow> None)]
       (signed_less_than (bitwise_xor below left sign_bit) (bitwise_xor below right sign_bit))"

definition unsigned_less_equal :: "('x bv \<Rightarrow> 'x bv \<Rightarrow> bool) \<Rightarrow> 'x bv \<Rightarrow> 'x bv \<Rightarrow> 'x cond" where
  "unsigned_less_equal below left right =
     first_match
       [(case constant_parts right of
           Some bound \<Rightarrow> then_some (unsigned32_upper_bound left \<le> bound) (Cond_Constant True)
         | None \<Rightarrow> None)]
       (signed_less_equal (bitwise_xor below left sign_bit) (bitwise_xor below right sign_bit))"

definition unsigned_greater_than :: "('x bv \<Rightarrow> 'x bv \<Rightarrow> bool) \<Rightarrow> 'x bv \<Rightarrow> 'x bv \<Rightarrow> 'x cond" where
  "unsigned_greater_than below left right =
     first_match
       [(case constant_parts right of
           Some bound \<Rightarrow> then_some (unsigned32_upper_bound left \<le> bound) (Cond_Constant False)
         | None \<Rightarrow> None)]
       (signed_greater_than (bitwise_xor below left sign_bit) (bitwise_xor below right sign_bit))"

definition unsigned_greater_equal :: "('x bv \<Rightarrow> 'x bv \<Rightarrow> bool) \<Rightarrow> 'x bv \<Rightarrow> 'x bv \<Rightarrow> 'x cond" where
  "unsigned_greater_equal below left right =
     first_match
       [(case constant_parts right of
           Some bound \<Rightarrow> then_some (unsigned32_upper_bound left < bound) (Cond_Constant False)
         | None \<Rightarrow> None)]
       (signed_greater_equal (bitwise_xor below left sign_bit) (bitwise_xor below right sign_bit))"

section \<open>Their meaning\<close>

definition cond_means :: "'x valuation \<Rightarrow> bool \<Rightarrow> 'x cond \<Rightarrow> bool" where
  "cond_means \<rho> b c \<longleftrightarrow> cond_value \<rho> c = b"

lemma cond_means_constant: "b = v \<Longrightarrow> cond_means \<rho> b (Cond_Constant v)"
  by (simp add: cond_means_def)

lemma cond_means_compare: "cond_means \<rho> (compare_value op (bv_value \<rho> l) (bv_value \<rho> r)) (Compare op l r)"
  by (simp add: cond_means_def)

lemma cond_means_match:
  "list_all (arm (cond_means \<rho> b)) arms \<Longrightarrow> cond_means \<rho> b d \<Longrightarrow> cond_means \<rho> b (first_match arms d)"
  by (rule first_match_arms)

subsection \<open>Ranges\<close>

lemma sint_scast32: "- (2 ^ 31) \<le> sint (scast (x :: 32 word) :: 64 word)" "sint (scast x :: 64 word) \<le> 2 ^ 31 - 1"
  using sint_ge [of x] sint_lt [of x] by simp_all

lemma sint_ucast32: "0 \<le> sint (ucast (x :: 32 word) :: 64 word)" "sint (ucast x :: 64 word) \<le> 2 ^ 32 - 1"
proof -
  have u: "uint (ucast x :: 64 word) = uint x" by (simp add: uint_up_ucast is_up)
  have x: "0 \<le> uint x" "uint x < 2 ^ 32" using uint_bounded [of x] by simp_all
  have "sint (ucast x :: 64 word) = uint x"
    using x signed_take_bit_int_eq_self [of 63 "uint x"] order_trans [of "- (2 ^ 63)" "0 :: int" "uint x"]
    by (simp add: sint_uint u)
  then show "0 \<le> sint (ucast x :: 64 word)" "sint (ucast x :: 64 word) \<le> 2 ^ 32 - 1" using x by simp_all
qed

lemma sint64_range: "- (2 ^ 63) \<le> sint (w :: 64 word)" "sint w \<le> 2 ^ 63 - 1"
  using sint_ge [of w] sint_lt [of w] by simp_all

lemma int64_width_interval_sound:
  assumes "int64_width_interval t = Some (lower, upper)"
  shows "lower \<le> sint (low64 (bv_value \<rho> t)) \<and> sint (low64 (bv_value \<rho> t)) \<le> upper"
  using assms sint_scast32 sint_ucast32
  by (cases t) (auto simp: int64_width_interval_def unary_value_def split: if_splits)

lemma or_whole_sound:
  "fst (or_whole (int64_width_interval t)) \<le> sint (low64 (bv_value \<rho> t))
   \<and> sint (low64 (bv_value \<rho> t)) \<le> snd (or_whole (int64_width_interval t))"
proof (cases "int64_width_interval t")
  case None
  then show ?thesis using sint64_range [of "low64 (bv_value \<rho> t)"] by (simp add: or_whole_def)
next
  case (Some r)
  then show ?thesis using int64_width_interval_sound [of t "fst r" "snd r" \<rho>] by (simp add: or_whole_def)
qed

text \<open>An order: true of the least and the greatest integer, or of the greatest and the least.\<close>

definition rises :: "(int \<Rightarrow> int \<Rightarrow> bool) \<Rightarrow> bool" where
  "rises holds \<longleftrightarrow> (\<forall>a b a' b'. holds a b \<longrightarrow> a' \<le> a \<longrightarrow> b \<le> b' \<longrightarrow> holds a' b')"

lemma int64_signed_order_by_width_sound:
  assumes "int64_signed_order_by_width l r holds = Some v"
    and "rises holds \<and> holds (- (2 ^ 63)) (2 ^ 63 - 1)
      \<or> rises (\<lambda>a b. holds b a) \<and> \<not> holds (- (2 ^ 63)) (2 ^ 63 - 1)"
  shows "holds (sint (low64 (bv_value \<rho> l))) (sint (low64 (bv_value \<rho> r))) = v"
proof -
  let ?a = "sint (low64 (bv_value \<rho> l))" and ?b = "sint (low64 (bv_value \<rho> r))"
  obtain a a' where l: "or_whole (int64_width_interval l) = (a, a')" by (rule prod.exhaust)
  obtain b b' where r: "or_whole (int64_width_interval r) = (b, b')" by (rule prod.exhaust)
  have "a \<le> ?a" "?a \<le> a'" "b \<le> ?b" "?b \<le> b'"
    using or_whole_sound [of l \<rho>] or_whole_sound [of r \<rho>] by (simp_all add: l r)
  moreover have "(if holds (- (2 ^ 63)) (2 ^ 63 - 1)
     then (if holds a' b then Some True else if \<not> holds a b' then Some False else None)
     else (if holds a b' then Some True else if \<not> holds a' b then Some False else None)) = Some v"
    using assms(1) by (simp add: int64_signed_order_by_width_def l r split: if_splits)
  ultimately show ?thesis
    using assms(2) unfolding rises_def by (elim disjE conjE) (auto split: if_splits)
qed

lemma int64_orders_mean:
  "cond_means \<rho> (sint (low64 (bv_value \<rho> l)) < sint (low64 (bv_value \<rho> r))) (int64_signed_less_than l r)"
  "cond_means \<rho> (sint (low64 (bv_value \<rho> l)) \<le> sint (low64 (bv_value \<rho> r))) (int64_signed_less_equal l r)"
  "cond_means \<rho> (sint (low64 (bv_value \<rho> l)) > sint (low64 (bv_value \<rho> r))) (int64_signed_greater_than l r)"
  "cond_means \<rho> (sint (low64 (bv_value \<rho> l)) \<ge> sint (low64 (bv_value \<rho> r))) (int64_signed_greater_equal l r)"
  using int64_signed_order_by_width_sound [of l r "(<)" _ \<rho>] int64_signed_order_by_width_sound [of l r "(\<le>)" _ \<rho>]
    int64_signed_order_by_width_sound [of l r "(>)" _ \<rho>] int64_signed_order_by_width_sound [of l r "(\<ge>)" _ \<rho>]
  by (auto simp: int64_signed_less_than_def int64_signed_less_equal_def int64_signed_greater_than_def
      int64_signed_greater_equal_def by_width_def cond_means_def compare_value_def rises_def split: option.split)

subsection \<open>Unsigned orders\<close>

lemma uint64_orders_mean:
  assumes w: "wide_operands \<rho> l r"
  shows "cond_means \<rho> (low64 (bv_value \<rho> l) \<le> low64 (bv_value \<rho> r)) (uint64_less_equal l r)"
    "cond_means \<rho> (low64 (bv_value \<rho> l) > low64 (bv_value \<rho> r)) (uint64_greater_than l r)"
    "cond_means \<rho> (low64 (bv_value \<rho> l) \<ge> low64 (bv_value \<rho> r)) (uint64_greater_equal l r)"
  unfolding uint64_less_equal_def uint64_greater_than_def uint64_greater_equal_def
  by (intro cond_means_match arm_intros;
      auto simp: arm_def cond_means_def compare_value_def wide_constants [OF w] split: option.splits)+

lemma masked_bound:
  assumes "null_at_zero \<rho>" "carries Width64 (Binary Op_UInt64BitwiseAnd a b)"
    and "or_else (uint64_constant a) (uint64_constant b) = Some bits"
  shows "low64 (bv_value \<rho> (Binary Op_UInt64BitwiseAnd a b)) \<le> bits"
proof -
  have "consistent a" "consistent b"
    using assms(2) by (auto simp: carries_wide word_operators_def wide_shifts_def dest: carries_consistent)
  then have "low64 (bv_value \<rho> a) = bits \<or> low64 (bv_value \<rho> b) = bits"
    using constants64(1) [OF assms(1)] assms(3) by (auto simp: or_else_def split: option.splits)
  then show ?thesis by (auto simp: word_and_le1 word_and_le2)
qed

lemma uint64_less_than_means:
  assumes w: "wide_operands \<rho> l r"
  shows "cond_means \<rho> (low64 (bv_value \<rho> l) < low64 (bv_value \<rho> r)) (uint64_less_than l r)"
  unfolding uint64_less_than_def
proof (intro cond_means_match arm_intros, goal_cases)
  case (1 a b)
  then show ?case
    using w masked_bound [of \<rho> a b]
    by (fastforce simp: arm_def cond_means_def wide_operands_def wide_constants [OF w] split: option.splits)
qed (auto simp: arm_def cond_means_def compare_value_def wide_constants [OF w] split: option.splits)

subsection \<open>Equality of addresses and words\<close>

lemma address_parts_Some [simp]: "address_parts t = Some p \<longleftrightarrow> t = PointerAddress p"
  by (cases t) (auto simp: address_parts_def)

text \<open>
  What an address promises: it is zero exactly when its pointer is null, and equal pointers
  have equal addresses. The second is true of every valuation.
\<close>

definition null_only :: "'x block_registry \<Rightarrow> 'x valuation \<Rightarrow> 'x bv \<Rightarrow> bool" where
  "null_only reg \<rho> t \<longleftrightarrow>
     (\<forall>p. t = PointerAddress p \<longrightarrow>
        pointer_consistent p \<and> told_apart reg \<rho> (pointer_block p) (pointer_block null_pointer)
        \<and> (low64 (bv_value \<rho> t) = 0 \<longrightarrow> pointer_place \<rho> p = pointer_place \<rho> null_pointer))"

lemma equal_places_equal_addresses:
  "pointer_place \<rho> p = pointer_place \<rho> q \<Longrightarrow> bv_value \<rho> (PointerAddress p) = bv_value \<rho> (PointerAddress q)"
  by simp

lemma pointer_equal_null:
  assumes null: "null_at_zero \<rho>" and only: "null_only reg \<rho> (PointerAddress p)"
  shows "cond_means \<rho> (low64 (bv_value \<rho> (PointerAddress p)) = 0) (pointer_equal reg p null_pointer)"
proof -
  have "cond_value \<rho> (pointer_equal reg p null_pointer) \<longleftrightarrow> pointer_place \<rho> p = pointer_place \<rho> null_pointer"
    using only by (intro pointer_equal_value [OF null]) (simp_all add: null_only_def pointer_consistent_def null_pointer_def)
  moreover have "low64 (bv_value \<rho> (PointerAddress p)) = 0" if "pointer_place \<rho> p = pointer_place \<rho> null_pointer"
    using equal_places_equal_addresses [OF that] null unfolding null_at_zero_def by simp
  ultimately show ?thesis using only unfolding cond_means_def null_only_def by blast
qed

lemma null_test_means:
  assumes w: "wide_operands \<rho> l r" and only: "null_only reg \<rho> l" "null_only reg \<rho> r"
    and test: "null_test l r = Some p"
  shows "cond_means \<rho> (low64 (bv_value \<rho> l) = low64 (bv_value \<rho> r)) (pointer_equal reg p null_pointer)"
proof -
  have null: "null_at_zero \<rho>" using w by (simp add: wide_operands_def)
  from test consider
      (left) "l = PointerAddress p" "uint64_constant r = Some 0"
    | (right) "r = PointerAddress p" "uint64_constant l = Some 0"
    by (auto simp: null_test_def split: option.splits)
  then show ?thesis
  proof cases
    case left
    have "low64 (bv_value \<rho> r) = 0" by (rule wide_constants(2) [OF w left(2)])
    then show ?thesis using pointer_equal_null [OF null only(1) [unfolded left(1)]] unfolding left(1) by simp
  next
    case right
    have "low64 (bv_value \<rho> l) = 0" by (rule wide_constants(1) [OF w right(2)])
    then show ?thesis
      using pointer_equal_null [OF null only(2) [unfolded right(1)]] unfolding right(1) by (simp only: eq_commute [of 0])
  qed
qed

lemma on_parts_Binary [simp]: "on_parts op (Binary op a b) f = f a b"
  by (simp add: on_parts_def parts_def)

lemma masked_address_sound:
  assumes null: "null_at_zero \<rho>" and ok: "carries Width64 t" and parts: "masked_address t = Some (p, alignment)"
  shows "low64 (bv_value \<rho> t) = low64 (bv_value \<rho> (PointerAddress p)) AND (alignment - 1)"
proof -
  obtain a b where t: "t = Binary Op_UInt64BitwiseAnd a b"
    using parts by (auto simp: masked_address_def on_parts_def split: option.splits)
  have "\<exists>bits. alignment = bits + 1
      \<and> (a = PointerAddress p \<and> uint64_constant b = Some bits
         \<or> b = PointerAddress p \<and> uint64_constant a = Some bits)"
    using parts
    by (cases "address_parts a"; cases "address_parts b")
      (auto simp: t masked_address_def simp del: uint64_constant.simps split: option.splits if_splits)
  then obtain bits where bits: "alignment = bits + 1"
    and ab: "a = PointerAddress p \<and> uint64_constant b = Some bits \<or> b = PointerAddress p \<and> uint64_constant a = Some bits"
    by blast
  have "consistent a" "consistent b"
    using ok by (auto simp: t carries_wide word_operators_def wide_shifts_def dest: carries_consistent)
  then show ?thesis
    using ab constants64(1) [OF null] by (auto simp: t bits simp flip: and.commute)
qed

lemma as_pointer_alignment_sound:
  assumes w: "wide_operands \<rho> l r"
    and parts: "as_pointer_alignment (Compare Op_Bitvector64Equal l r) = Some (p, alignment)"
  shows "low64 (bv_value \<rho> l) = low64 (bv_value \<rho> r) \<longleftrightarrow>
    low64 (bv_value \<rho> (PointerAddress p)) AND (alignment - 1) = 0"
proof -
  have null: "null_at_zero \<rho>" and ok: "carries Width64 l" "carries Width64 r"
    using w by (simp_all add: wide_operands_def)
  from parts consider
      (left) "uint64_constant r = Some 0" "masked_address l = Some (p, alignment)"
    | (right) "uint64_constant l = Some 0" "masked_address r = Some (p, alignment)"
    by (auto simp: as_pointer_alignment_def split: if_splits)
  then show ?thesis
  proof cases
    case left
    then show ?thesis using masked_address_sound [OF null ok(1) left(2)] wide_constants(2) [OF w left(1)] by simp
  next
    case right
    then show ?thesis
      using masked_address_sound [OF null ok(2) right(2)] wide_constants(1) [OF w right(1)]
      by (simp add: eq_commute [of 0])
  qed
qed

lemma int64_equal_means:
  assumes w: "wide_operands \<rho> l r" and only: "null_only reg \<rho> l" "null_only reg \<rho> r"
  shows "cond_means \<rho> (low64 (bv_value \<rho> l) = low64 (bv_value \<rho> r)) (int64_equal reg l r)"
proof -
  have null: "null_at_zero \<rho>" and ok: "consistent l" "consistent r"
    using w carries_consistent by (auto simp: wide_operands_def)
  note const = constants64(3) [OF null ok(1)] constants64(3) [OF null ok(2)]
  consider "l = r"
    | (null) p where "l \<noteq> r" "null_test l r = Some p"
    | (constants) a b where "l \<noteq> r" "null_test l r = None"
        "bitvector64_as_const l = Some a" "bitvector64_as_const r = Some b"
    | (aligned) p alignment where "l \<noteq> r" "null_test l r = None"
        "bitvector64_as_const l = None \<or> bitvector64_as_const r = None"
        "as_pointer_alignment (Compare Op_Bitvector64Equal l r) = Some (p, alignment)"
    | (plain) "int64_equal reg l r = Compare Op_Bitvector64Equal l r"
    by (cases "l = r"; cases "null_test l r"; cases "bitvector64_as_const l"; cases "bitvector64_as_const r";
        cases "as_pointer_alignment (Compare Op_Bitvector64Equal l r)")
      (auto simp: int64_equal_def split: prod.split)
  then show ?thesis
  proof cases
    case null
    then show ?thesis using null_test_means [OF w only] by (simp add: int64_equal_def)
  next
    case constants
    then show ?thesis using const by (simp add: int64_equal_def cond_means_def)
  next
    case aligned
    have "int64_equal reg l r = Compare Op_Bitvector64Equal
        (UInt64BitwiseAnd (PointerAddress p) (UInt64Constant (alignment - 1))) (UInt64Constant 0)"
      using aligned by (auto simp: int64_equal_def split: option.split)
    then show ?thesis
      using as_pointer_alignment_sound [OF w aligned(4)]
      by (simp add: cond_means_def compare_value_def)
  next
    case plain
    then show ?thesis by (simp add: cond_means_def compare_value_def)
  qed (simp add: int64_equal_def cond_means_def)
qed

subsection \<open>Overflow\<close>

lemma i64_overflows_value: "i64_overflows f l r \<longleftrightarrow> \<not> (- (2 ^ 63) \<le> f (sint l) (sint r) \<and> f (sint l) (sint r) < 2 ^ 63)"
  by (simp add: i64_overflows_def i64_checked_def Let_def)

lemma interval_fits_sound:
  assumes "int64_add_interval_fits (int64_width_interval l) (int64_width_interval r)"
  shows "\<not> overflow64 (+) (bv_value \<rho> l) (bv_value \<rho> r)"
proof -
  obtain a a' b b' where range: "int64_width_interval l = Some (a, a')" "int64_width_interval r = Some (b, b')"
    and fits: "int64_interval_fits (a + b) (a' + b')"
    using assms by (auto simp: int64_add_interval_fits_def split: option.splits prod.splits)
  then show ?thesis
    using int64_width_interval_sound [OF range(1), of \<rho>] int64_width_interval_sound [OF range(2), of \<rho>]
    by (simp add: overflow64_def int64_interval_fits_def)
qed

lemma subtract_interval_fits_sound:
  assumes "int64_subtract_interval_fits (int64_width_interval l) (int64_width_interval r)"
  shows "\<not> overflow64 (-) (bv_value \<rho> l) (bv_value \<rho> r)"
proof -
  obtain a a' b b' where range: "int64_width_interval l = Some (a, a')" "int64_width_interval r = Some (b, b')"
    and fits: "int64_interval_fits (a - b') (a' - b)"
    using assms by (auto simp: int64_subtract_interval_fits_def split: option.splits prod.splits)
  then show ?thesis
    using int64_width_interval_sound [OF range(1), of \<rho>] int64_width_interval_sound [OF range(2), of \<rho>]
    by (simp add: overflow64_def int64_interval_fits_def)
qed

lemma minus_one_word: "sint (w :: 64 word) = - 1 \<longleftrightarrow> w = - 1" "sint w = 0 \<longleftrightarrow> w = 0"
  using word_eq_iff_signed [of w "- 1"] word_eq_iff_signed [of w 0] by auto

lemma int64_overflows_mean:
  assumes w: "wide_operands \<rho> l r"
  shows "cond_means \<rho> (overflow64 (+) (bv_value \<rho> l) (bv_value \<rho> r)) (int64_signed_add_overflows l r)"
    "cond_means \<rho> (overflow64 (-) (bv_value \<rho> l) (bv_value \<rho> r)) (int64_signed_subtract_overflows l r)"
    "cond_means \<rho> (overflow64 (*) (bv_value \<rho> l) (bv_value \<rho> r)) (int64_signed_multiply_overflows l r)"
    "cond_means \<rho> (low64 (bv_value \<rho> r) = 0 \<or> sint (low64 (bv_value \<rho> l)) = - (2 ^ 63) \<and> low64 (bv_value \<rho> r) = - 1)
       (int64_signed_divide_overflows l r)"
proof -
  let ?c = "\<lambda>f. overflow64 f (bv_value \<rho> l) (bv_value \<rho> r)"
  have const: "?c f \<longleftrightarrow> i64_overflows f a b"
    if "int64_constant l = Some a" "int64_constant r = Some b" for f a b
    using wide_constants(3) [OF w that(1)] wide_constants(4) [OF w that(2)]
    by (simp add: overflow64_def i64_overflows_value)
  show "cond_means \<rho> (?c (+)) (int64_signed_add_overflows l r)"
    using interval_fits_sound [of l r \<rho>]
    by (auto simp: int64_signed_add_overflows_def cond_means_def compare_value_def const split: option.split)
  show "cond_means \<rho> (?c (-)) (int64_signed_subtract_overflows l r)"
    using subtract_interval_fits_sound [of l r \<rho>]
    by (auto simp: int64_signed_subtract_overflows_def cond_means_def compare_value_def const split: option.split)
  show "cond_means \<rho> (?c (*)) (int64_signed_multiply_overflows l r)"
    by (auto simp: int64_signed_multiply_overflows_def cond_means_def compare_value_def const split: option.split)
  show "cond_means \<rho> (low64 (bv_value \<rho> r) = 0 \<or> sint (low64 (bv_value \<rho> l)) = - (2 ^ 63) \<and> low64 (bv_value \<rho> r) = - 1)
       (int64_signed_divide_overflows l r)"
    by (auto simp: int64_signed_divide_overflows_def cond_means_def compare_value_def minus_one_word
        wide_constants [OF w] split: option.split)
qed

lemma signed_window:
  fixes p :: int
  assumes "0 \<le> p" "p < 2 ^ 64"
  shows "(p + 2 ^ 63) mod 2 ^ 64 - 2 ^ 63 = (if p < 2 ^ 63 then p else p - 2 ^ 64)"
proof (cases "p < 2 ^ 63")
  case True
  then show ?thesis using assms by simp
next
  case False
  have "(p + 2 ^ 63) mod 2 ^ 64 = (p - 2 ^ 63) mod 2 ^ 64"
    using mod_add_self2 [of "p - 2 ^ 63" "2 ^ 64"] by (simp add: add.commute)
  also have "\<dots> = p - 2 ^ 63" using False assms by simp
  finally show ?thesis using False by simp
qed

text \<open>
  The shift test as the code has it: unfolded, it is the machine's test; folded, it asks for
  the sign of a word that keeps only the low 64 bits of the product.
\<close>

definition shift_leaves :: "bool \<Rightarrow> int \<Rightarrow> nat \<Rightarrow> bool" where
  "shift_leaves folded a n \<longleftrightarrow>
     64 \<le> n \<or> a < 0 \<or> 2 ^ 63 \<le> (if folded then a * 2 ^ n mod 2 ^ 64 else a * 2 ^ n)"

definition shift_folds :: "'x bv \<Rightarrow> 'x bv \<Rightarrow> bool" where
  "shift_folds l r \<longleftrightarrow> int64_constant l \<noteq> None \<and> int64_shift_count_constant r \<noteq> None"

lemma pushed_sign:
  fixes a :: "64 word"
  shows "sint (push_bit n a) < 0 \<longleftrightarrow> (2::int) ^ 63 \<le> sint a * 2 ^ n mod 2 ^ 64"
proof -
  let ?p = "sint a * 2 ^ n mod (2::int) ^ 64"
  have "push_bit n a = word_of_int (sint a * 2 ^ n)" by (simp add: push_bit_eq_mult)
  then have "sint (push_bit n a) = (sint a * 2 ^ n + 2 ^ 63) mod 2 ^ 64 - 2 ^ 63"
    by (simp only: int_word_sint) simp
  also have "\<dots> = (?p + 2 ^ 63) mod 2 ^ 64 - 2 ^ 63" by (simp only: mod_add_left_eq)
  also have "\<dots> = (if ?p < 2 ^ 63 then ?p else ?p - 2 ^ 64)" by (rule signed_window) simp_all
  finally show ?thesis using pos_mod_bound [of "2 ^ 64" "sint a * 2 ^ n"] pos_mod_sign [of "2 ^ 64" "sint a * 2 ^ n"]
    by (auto split: if_splits)
qed

lemma shift_overflows_means:
  assumes "null_at_zero \<rho>" "consistent l"
  shows "cond_means \<rho>
      (shift_leaves (shift_folds l r) (sint (low64 (bv_value \<rho> l))) (unat (low64 (bv_value \<rho> r))))
    (int64_signed_shift_left_overflows l r)"
proof (cases "shift_folds l r")
  case False
  then show ?thesis
    by (auto simp: int64_signed_shift_left_overflows_def cond_means_def compare_value_def shift_leaves_def
        shift_folds_def split: option.split)
next
  case True
  then obtain a count where c: "int64_constant l = Some a" "int64_shift_count_constant r = Some count"
    by (auto simp: shift_folds_def)
  have v: "low64 (bv_value \<rho> l) = a" by (rule constants64(2) [OF assms c(1)])
  have n: "unat (low64 (bv_value \<rho> r)) = unat count" by (rule shift_count_sound(1) [OF c(2)])
  show ?thesis
    by (cases "0 \<le> sint a"; cases "unat count < 64")
      (simp_all add: int64_signed_shift_left_overflows_def c cond_means_def v n True shift_leaves_def pushed_sign)
qed

text \<open>Where the folded test and the machine's differ: a product of two to the 64 or more.\<close>

lemma shift_leaves_differs:
  "shift_leaves True a n = shift_leaves False a n \<longleftrightarrow>
     64 \<le> n \<or> a < 0 \<or> a * 2 ^ n < 2 ^ 64 \<or> 2 ^ 63 \<le> a * 2 ^ n mod 2 ^ 64"
proof (cases "64 \<le> n \<or> a < 0")
  case False
  then have "0 \<le> a * 2 ^ n" by simp
  then show ?thesis using False by (cases "a * 2 ^ n < 2 ^ 64") (auto simp: shift_leaves_def)
qed (auto simp: shift_leaves_def)

subsection \<open>32-bit comparisons\<close>

lemma fold_compare_means:
  assumes "\<And>a b. f (low32 a) (low32 b) = compare_value op a b"
  shows "cond_means \<rho> (f (low32 (bv_value \<rho> l)) (low32 (bv_value \<rho> r))) (fold_compare f op l r)"
  using assms [of "bv_value \<rho> l" "bv_value \<rho> r"] as_const_sound [of l _ \<rho>] as_const_sound [of r _ \<rho>]
  by (auto simp: fold_compare_def cond_means_def split: option.split)

lemma signed_orders_mean:
  "cond_means \<rho> (sint (low32 (bv_value \<rho> l)) < sint (low32 (bv_value \<rho> r))) (signed_less_than l r)"
  "cond_means \<rho> (sint (low32 (bv_value \<rho> l)) \<le> sint (low32 (bv_value \<rho> r))) (signed_less_equal l r)"
  "cond_means \<rho> (sint (low32 (bv_value \<rho> l)) > sint (low32 (bv_value \<rho> r))) (signed_greater_than l r)"
  "cond_means \<rho> (sint (low32 (bv_value \<rho> l)) \<ge> sint (low32 (bv_value \<rho> r))) (signed_greater_equal l r)"
  "cond_means \<rho> (low32 (bv_value \<rho> l) = low32 (bv_value \<rho> r)) (equal_terms l r)"
  unfolding signed_less_than_def signed_less_equal_def signed_greater_than_def signed_greater_equal_def
    equal_terms_def
  using fold_compare_means [of "\<lambda>l r. sint l < sint r" Op_Bitvector32SignedLessThan \<rho> l r]
    fold_compare_means [of "\<lambda>l r. sint l \<le> sint r" Op_Bitvector32SignedLessEqual \<rho> l r]
    fold_compare_means [of "\<lambda>l r. sint l > sint r" Op_Bitvector32SignedGreaterThan \<rho> l r]
    fold_compare_means [of "\<lambda>l r. sint l \<ge> sint r" Op_Bitvector32SignedGreaterEqual \<rho> l r]
    fold_compare_means [of "(=)" Op_Bitvector32Equal \<rho> l r]
  by (simp_all add: compare_value_def)

lemma low32_extremes:
  "sint (w :: 32 word) = - 2147483648 \<longleftrightarrow> w = 0x80000000" "sint w = - 1 \<longleftrightarrow> w = - 1"
  using word_eq_iff_signed [of w "0x80000000"] word_eq_iff_signed [of w "- 1"] by auto

lemma signed_overflows_mean:
  "cond_means \<rho> (overflow32 (+) (bv_value \<rho> l) (bv_value \<rho> r)) (signed_add_overflows l r)"
  "cond_means \<rho> (overflow32 (-) (bv_value \<rho> l) (bv_value \<rho> r)) (signed_subtract_overflows l r)"
  "cond_means \<rho> (overflow32 (*) (bv_value \<rho> l) (bv_value \<rho> r)) (signed_multiply_overflows l r)"
  "cond_means \<rho> (low32 (bv_value \<rho> l) = 0x80000000 \<and> low32 (bv_value \<rho> r) = - 1) (signed_divide_overflows l r)"
proof -
  have fold: "cond_means \<rho> (overflow32 f (bv_value \<rho> l) (bv_value \<rho> r)) (fold_compare (i32_overflows f) op l r)"
    if "\<And>a b. compare_value op a b = overflow32 f a b" for f op
    using fold_compare_means [of "i32_overflows f" op \<rho> l r] that
    by (simp add: i32_overflows_def overflow32_def)
  show "cond_means \<rho> (overflow32 (+) (bv_value \<rho> l) (bv_value \<rho> r)) (signed_add_overflows l r)"
    "cond_means \<rho> (overflow32 (*) (bv_value \<rho> l) (bv_value \<rho> r)) (signed_multiply_overflows l r)"
    unfolding signed_add_overflows_def signed_multiply_overflows_def
    by (rule fold; simp add: compare_value_def)+
  have zero: "\<not> overflow32 (-) a b" if "low32 b = 0" for a b
    using sint_ge [of "low32 a"] sint_lt [of "low32 a"] by (simp add: overflow32_def that)
  have "cond_means \<rho> (overflow32 (-) (bv_value \<rho> l) (bv_value \<rho> r))
      (fold_compare (i32_overflows (-)) Op_Bitvector32SignedSubtractOverflows l r)"
    by (rule fold) (simp add: compare_value_def)
  then show "cond_means \<rho> (overflow32 (-) (bv_value \<rho> l) (bv_value \<rho> r)) (signed_subtract_overflows l r)"
    using zero [OF as_const_sound [of r 0 \<rho>], of "bv_value \<rho> l"]
    by (simp add: signed_subtract_overflows_def cond_means_def)
  show "cond_means \<rho> (low32 (bv_value \<rho> l) = 0x80000000 \<and> low32 (bv_value \<rho> r) = - 1) (signed_divide_overflows l r)"
    unfolding signed_divide_overflows_def
    by (rule fold_compare_means) (simp add: compare_value_def low32_extremes)
qed

lemma signed_shift_left_overflows_means:
  "cond_means \<rho> (0 \<le> sint (low32 (bv_value \<rho> l))
      \<and> (2::int) ^ 31 \<le> sint (low32 (bv_value \<rho> l)) * 2 ^ unat (low32 (bv_value \<rho> r)))
    (signed_shift_left_overflows l r)"
proof (cases "as_const l = None \<or> as_const r = None")
  case True
  then show ?thesis
    by (auto simp: signed_shift_left_overflows_def cond_means_def compare_value_def split: option.split)
next
  case False
  then obtain a b where c: "as_const l = Some a" "as_const r = Some b" by auto
  have v: "low32 (bv_value \<rho> l) = a" "low32 (bv_value \<rho> r) = b" using as_const_sound c by blast+
  show ?thesis
  proof (cases "0 \<le> sint b \<and> sint b < 32")
    case False
    then show ?thesis
      by (auto simp: signed_shift_left_overflows_def c signed_shift_left_overflows_const_def
          checked_shift_count_const_def cond_means_def compare_value_def v)
  next
    case True
    have n: "unat b < 32"
    proof -
      have "uint b = sint b"
        using True uint_sint [of b] take_bit_int_eq_self [of "sint b" 32] by simp
      then show ?thesis using True by (simp add: nat_less_iff flip: nat_uint_eq)
    qed
    have "sint (shifted_i64 a b) = sint a * 2 ^ unat b" if "0 \<le> sint a"
    proof -
      have a: "sint a < 2 ^ 31" using sint_lt [of a] by simp
      have "sint a * 2 ^ unat b < 2 ^ 31 * 2 ^ unat b" using a by simp
      also have "\<dots> \<le> 2 ^ 31 * 2 ^ 31" using n by (intro mult_left_mono power_increasing) auto
      finally have p: "sint a * 2 ^ unat b < 2 ^ 63" by simp
      have "shifted_i64 a b = word_of_int (sint a * 2 ^ unat b)"
        by (simp add: shifted_i64_def push_bit_eq_mult)
      then have "sint (shifted_i64 a b) = signed_take_bit 63 (sint a * 2 ^ unat b)" by (simp only: sint_wi_eq)
      then show ?thesis
        using p that order_trans [of "- (2 ^ 63)" "0 :: int" "sint a * 2 ^ unat b"]
        by (simp add: signed_take_bit_int_eq_self)
    qed
    then show ?thesis
      using True
      by (auto simp: signed_shift_left_overflows_def c signed_shift_left_overflows_const_def
          checked_shift_count_const_def cond_means_def v)
  qed
qed

text \<open>The unsigned orders compare the words with their sign bits flipped.\<close>

lemma flipped_order:
  fixes a b :: "32 word"
  shows "sint (a XOR 0x80000000) < sint (b XOR 0x80000000) \<longleftrightarrow> a < b"
    "sint (a XOR 0x80000000) \<le> sint (b XOR 0x80000000) \<longleftrightarrow> a \<le> b"
proof -
  have s: "sint (w XOR 0x80000000) = uint w - 2 ^ 31" for w :: "32 word"
  proof -
    have e: "(0x80000000 :: 32 word) = word_of_int (- (2 ^ 31))" by simp
    have "w XOR 0x80000000 = word_of_int (uint w - 2 ^ 31)"
      unfolding e xor_min_word by simp
    then have "sint (w XOR 0x80000000) = uint w mod 2 ^ 32 - 2 ^ 31"
      by (simp only: int_word_sint) simp
    then show ?thesis using uint_bounded [of w] by simp
  qed
  show "sint (a XOR 0x80000000) < sint (b XOR 0x80000000) \<longleftrightarrow> a < b"
    "sint (a XOR 0x80000000) \<le> sint (b XOR 0x80000000) \<longleftrightarrow> a \<le> b"
    by (simp_all add: s word_less_def word_le_def)
qed

lemma xor_sign_bit: "low32 (bv_value \<rho> (bitwise_xor below t sign_bit)) = low32 (bv_value \<rho> t) XOR 0x80000000"
  using bitwise_xor_means [of \<rho> t sign_bit below] by (simp add: means32_def sign_bit_def)

lemma drop_bit_bound:
  fixes w :: "64 word"
  shows "drop_bit n w \<le> drop_bit n (- 1)"
proof -
  have "uint w div 2 ^ n \<le> uint (- 1 :: 64 word) div 2 ^ n"
    using uint_bounded [of w] by (intro zdiv_mono1) (simp_all add: unsigned_minus_1_eq_mask mask_eq_exp_minus_1)
  moreover have "uint (drop_bit n x) = uint x div 2 ^ n" for x :: "64 word"
    using take_bit_int_eq_self [of "uint x" 64] uint_bounded [of x]
    by (simp only: unsigned_drop_bit_eq) (simp add: drop_bit_eq_div)
  ultimately show ?thesis by (simp only: word_le_def)
qed

lemma known_count_sound: "known_count t = Some n \<Longrightarrow> unat (low64 (bv_value \<rho> t)) = n"
  by (cases t) (auto simp: known_count_def unsigned_ucast_eq take_bit_nat_eq_self_iff split: if_splits)

lemma narrow_bound:
  fixes w b :: "64 word"
  assumes "w \<le> b"
  shows "(ucast w :: 32 word) \<le> ucast (min b (2 ^ 32 - 1))"
proof -
  have small: "uint (ucast (min b (2 ^ 32 - 1)) :: 32 word) = min (uint b) (2 ^ 32 - 1)"
    by (auto simp: unsigned_ucast_eq take_bit_int_eq_self_iff min_def word_le_def)
  have "uint (ucast w :: 32 word) \<le> uint w" by (simp add: unsigned_ucast_eq take_bit_int_less_eq_self_iff)
  moreover have "uint w \<le> uint b" using assms by (simp add: word_le_def)
  moreover have "uint (ucast w :: 32 word) \<le> 2 ^ 32 - 1" using uint_bounded [of "ucast w :: 32 word"] by simp
  ultimately show ?thesis unfolding word_le_def small by simp
qed

lemma unsigned32_upper_bound_sound: "low32 (bv_value \<rho> t) \<le> unsigned32_upper_bound t"
proof (cases t)
  case (Binary op a b)
  then show ?thesis
    by (auto simp: unsigned32_upper_bound_def word_and_le1 word_and_le2 split: option.split)
next
  case (Unary op v)
  show ?thesis
  proof (cases "op = Op_UInt32From64")
    case True
    show ?thesis
    proof (cases "on_parts Op_UInt64LogicalShiftRight v (\<lambda>_ count. known_count count)")
      case (Some n)
      then obtain a c where v: "v = Binary Op_UInt64LogicalShiftRight a c" "known_count c = Some n"
        by (auto simp: on_parts_def split: option.splits)
      show ?thesis
        using narrow_bound [OF drop_bit_bound [of n "low64 (bv_value \<rho> a)"]]
        by (simp add: unsigned32_upper_bound_def Unary True v unary_value_def known_count_sound [OF v(2)]
            del: drop_bit_minus_one)
    qed (simp add: unsigned32_upper_bound_def Unary True)
  qed (simp add: unsigned32_upper_bound_def Unary)
qed (simp_all add: unsigned32_upper_bound_def)

lemma unsigned_orders_mean:
  "cond_means \<rho> (low32 (bv_value \<rho> l) < low32 (bv_value \<rho> r)) (unsigned_less_than below l r)"
  "cond_means \<rho> (low32 (bv_value \<rho> l) \<le> low32 (bv_value \<rho> r)) (unsigned_less_equal below l r)"
  "cond_means \<rho> (low32 (bv_value \<rho> l) > low32 (bv_value \<rho> r)) (unsigned_greater_than below l r)"
  "cond_means \<rho> (low32 (bv_value \<rho> l) \<ge> low32 (bv_value \<rho> r)) (unsigned_greater_equal below l r)"
proof -
  note orders = signed_orders_mean
    [where \<rho> = \<rho> and l = "bitwise_xor below l sign_bit" and r = "bitwise_xor below r sign_bit",
      unfolded xor_sign_bit flipped_order]
  have bound: "low32 (bv_value \<rho> l) < w" if "unsigned32_upper_bound l < w" for w
    using unsigned32_upper_bound_sound that by (rule le_less_trans)
  have bound': "low32 (bv_value \<rho> l) \<le> w" if "unsigned32_upper_bound l \<le> w" for w
    using unsigned32_upper_bound_sound that by (rule order_trans)
  show "cond_means \<rho> (low32 (bv_value \<rho> l) < low32 (bv_value \<rho> r)) (unsigned_less_than below l r)"
    unfolding unsigned_less_than_def
    by (intro cond_means_match arm_intros orders)
      (auto simp: arm_def cond_means_def bound split: option.split)
  show "cond_means \<rho> (low32 (bv_value \<rho> l) \<le> low32 (bv_value \<rho> r)) (unsigned_less_equal below l r)"
    unfolding unsigned_less_equal_def
    by (intro cond_means_match arm_intros orders)
      (auto simp: arm_def cond_means_def bound' split: option.split)
  show "cond_means \<rho> (low32 (bv_value \<rho> l) > low32 (bv_value \<rho> r)) (unsigned_greater_than below l r)"
    unfolding unsigned_greater_than_def
    by (intro cond_means_match arm_intros orders)
      (auto simp: arm_def cond_means_def not_less bound' split: option.split)
  show "cond_means \<rho> (low32 (bv_value \<rho> l) \<ge> low32 (bv_value \<rho> r)) (unsigned_greater_equal below l r)"
    unfolding unsigned_greater_equal_def
    by (intro cond_means_match arm_intros orders)
      (auto simp: arm_def cond_means_def not_le bound split: option.split)
qed

lemma pointer_aligned_means:
  assumes null: "null_at_zero \<rho>" and only: "null_only reg \<rho> (PointerAddress p)"
    "null_only reg \<rho> (uint64_bitwise_and (PointerAddress p) (UInt64Constant (alignment - 1)))"
  shows "cond_means \<rho> (low64 (bv_value \<rho> (PointerAddress p)) AND (alignment - 1) = 0)
    (pointer_aligned reg p alignment)"
proof -
  let ?m = "uint64_bitwise_and (PointerAddress p) (UInt64Constant (alignment - 1))"
  have w: "wide_operands \<rho> (PointerAddress p) (UInt64Constant (alignment - 1))"
    using null by (simp add: wide_operands_def)
  have "carries Width64 ?m" by (rule uint64_bitwise_and_carries) simp_all
  then have "wide_operands \<rho> ?m (UInt64Constant 0)" using null by (simp add: wide_operands_def)
  then have "cond_means \<rho> (low64 (bv_value \<rho> ?m) = low64 (bv_value \<rho> (UInt64Constant 0)))
      (pointer_aligned reg p alignment)"
    unfolding pointer_aligned_def uint64_equal_def
    by (rule int64_equal_means [OF _ only(2)]) (simp add: null_only_def)
  then show ?thesis using uint64_bitwise_and_means [OF w] unfolding means64_def by simp
qed

section \<open>The constructors as a whole\<close>

text \<open>C31: Every 32-bit comparison and overflow test that a constructor builds holds exactly
  when the comparison holds of the operands' values, or the exact sum, difference, product or
  shifted value leaves the range of a 32-bit integer: nothing is assumed of the operands. The
  unsigned orders, which compare words with flipped sign bits, are orders of the unsigned
  values.\<close>

theorem word_conditions_exact:
  "(cond_value \<rho> (signed_less_than l r) \<longleftrightarrow> sint (low32 (bv_value \<rho> l)) < sint (low32 (bv_value \<rho> r)))
   \<and> (cond_value \<rho> (signed_less_equal l r) \<longleftrightarrow> sint (low32 (bv_value \<rho> l)) \<le> sint (low32 (bv_value \<rho> r)))
   \<and> (cond_value \<rho> (signed_greater_than l r) \<longleftrightarrow> sint (low32 (bv_value \<rho> l)) > sint (low32 (bv_value \<rho> r)))
   \<and> (cond_value \<rho> (signed_greater_equal l r) \<longleftrightarrow> sint (low32 (bv_value \<rho> l)) \<ge> sint (low32 (bv_value \<rho> r)))
   \<and> (cond_value \<rho> (equal_terms l r) \<longleftrightarrow> low32 (bv_value \<rho> l) = low32 (bv_value \<rho> r))
   \<and> (cond_value \<rho> (unsigned_less_than below l r) \<longleftrightarrow> low32 (bv_value \<rho> l) < low32 (bv_value \<rho> r))
   \<and> (cond_value \<rho> (unsigned_less_equal below l r) \<longleftrightarrow> low32 (bv_value \<rho> l) \<le> low32 (bv_value \<rho> r))
   \<and> (cond_value \<rho> (unsigned_greater_than below l r) \<longleftrightarrow> low32 (bv_value \<rho> l) > low32 (bv_value \<rho> r))
   \<and> (cond_value \<rho> (unsigned_greater_equal below l r) \<longleftrightarrow> low32 (bv_value \<rho> l) \<ge> low32 (bv_value \<rho> r))
   \<and> (cond_value \<rho> (signed_add_overflows l r) \<longleftrightarrow> overflow32 (+) (bv_value \<rho> l) (bv_value \<rho> r))
   \<and> (cond_value \<rho> (signed_subtract_overflows l r) \<longleftrightarrow> overflow32 (-) (bv_value \<rho> l) (bv_value \<rho> r))
   \<and> (cond_value \<rho> (signed_multiply_overflows l r) \<longleftrightarrow> overflow32 (*) (bv_value \<rho> l) (bv_value \<rho> r))
   \<and> (cond_value \<rho> (signed_divide_overflows l r) \<longleftrightarrow>
        low32 (bv_value \<rho> l) = 0x80000000 \<and> low32 (bv_value \<rho> r) = - 1)
   \<and> (cond_value \<rho> (signed_shift_left_overflows l r) \<longleftrightarrow>
        0 \<le> sint (low32 (bv_value \<rho> l))
        \<and> (2::int) ^ 31 \<le> sint (low32 (bv_value \<rho> l)) * 2 ^ unat (low32 (bv_value \<rho> r)))"
  using signed_orders_mean [where \<rho> = \<rho> and l = l and r = r]
    unsigned_orders_mean [where \<rho> = \<rho> and l = l and r = r and below = below]
    signed_overflows_mean [where \<rho> = \<rho> and l = l and r = r] signed_shift_left_overflows_means [of \<rho> l r]
  unfolding cond_means_def by blast

text \<open>C32: The 64-bit comparisons, the equality of words and addresses and the overflow tests
  of sums, differences, products and quotients hold exactly when they hold of the operands'
  values: folding by the range of a root, by a mask or by the extreme values, turning a test
  of an address against zero into a pointer equality and rewriting an alignment test into its
  one canonical form change no truth value. The operands are well formed and 64 bits wide,
  and an address is zero only at the null pointer, whose block the registries tell apart only
  from other objects (\<open>null_only\<close>). The shift test is not among them.\<close>

theorem wide_conditions_exact:
  assumes "null_at_zero \<rho>" "carries Width64 l" "carries Width64 r" "null_only reg \<rho> l" "null_only reg \<rho> r"
  shows "(cond_value \<rho> (int64_signed_less_than l r) \<longleftrightarrow> sint (low64 (bv_value \<rho> l)) < sint (low64 (bv_value \<rho> r)))
   \<and> (cond_value \<rho> (int64_signed_less_equal l r) \<longleftrightarrow> sint (low64 (bv_value \<rho> l)) \<le> sint (low64 (bv_value \<rho> r)))
   \<and> (cond_value \<rho> (int64_signed_greater_than l r) \<longleftrightarrow> sint (low64 (bv_value \<rho> l)) > sint (low64 (bv_value \<rho> r)))
   \<and> (cond_value \<rho> (int64_signed_greater_equal l r) \<longleftrightarrow> sint (low64 (bv_value \<rho> l)) \<ge> sint (low64 (bv_value \<rho> r)))
   \<and> (cond_value \<rho> (uint64_less_than l r) \<longleftrightarrow> low64 (bv_value \<rho> l) < low64 (bv_value \<rho> r))
   \<and> (cond_value \<rho> (uint64_less_equal l r) \<longleftrightarrow> low64 (bv_value \<rho> l) \<le> low64 (bv_value \<rho> r))
   \<and> (cond_value \<rho> (uint64_greater_than l r) \<longleftrightarrow> low64 (bv_value \<rho> l) > low64 (bv_value \<rho> r))
   \<and> (cond_value \<rho> (uint64_greater_equal l r) \<longleftrightarrow> low64 (bv_value \<rho> l) \<ge> low64 (bv_value \<rho> r))
   \<and> (cond_value \<rho> (int64_equal reg l r) \<longleftrightarrow> low64 (bv_value \<rho> l) = low64 (bv_value \<rho> r))
   \<and> (cond_value \<rho> (int64_signed_add_overflows l r) \<longleftrightarrow> overflow64 (+) (bv_value \<rho> l) (bv_value \<rho> r))
   \<and> (cond_value \<rho> (int64_signed_subtract_overflows l r) \<longleftrightarrow> overflow64 (-) (bv_value \<rho> l) (bv_value \<rho> r))
   \<and> (cond_value \<rho> (int64_signed_multiply_overflows l r) \<longleftrightarrow> overflow64 (*) (bv_value \<rho> l) (bv_value \<rho> r))
   \<and> (cond_value \<rho> (int64_signed_divide_overflows l r) \<longleftrightarrow>
        low64 (bv_value \<rho> r) = 0 \<or> sint (low64 (bv_value \<rho> l)) = - (2 ^ 63) \<and> low64 (bv_value \<rho> r) = - 1)"
proof -
  have w: "wide_operands \<rho> l r" using assms(1-3) by (simp add: wide_operands_def)
  show ?thesis
    using int64_orders_mean [where \<rho> = \<rho> and l = l and r = r] uint64_less_than_means [OF w]
      uint64_orders_mean [OF w] int64_equal_means [OF w assms(4,5)] int64_overflows_mean [OF w]
    unfolding cond_means_def by blast
qed

theorem wide_conditions_exact_witness:
  "cond_value zero_valuation (int64_signed_less_than (Int64From32 (Variable (Variable_Of 0 Ordinary))) (Int64Constant (2 ^ 40)))
   \<and> int64_signed_less_than (Int64From32 (Variable (Variable_Of 0 Ordinary))) (Int64Constant (2 ^ 40)) =
     (Cond_Constant True :: nat cond)"
proof -
  let ?l = "Int64From32 (Variable (Variable_Of 0 Ordinary)) :: nat bv" and ?r = "Int64Constant (2 ^ 40) :: nat bv"
  have "carries Width64 ?l"
    by (simp add: carries_unary width_rules unary_width_def expect_width_def)
  moreover have "carries Width64 ?r" by simp
  ultimately have "cond_value zero_valuation (int64_signed_less_than ?l ?r)"
    using wide_conditions_exact [OF zero_valuation_null, of ?l ?r
        "\<lparr>reg_hidden_local = \<lambda>_. False, reg_load_variable = \<lambda>_. False,
          reg_variable_predates = \<lambda>_ _. False, reg_read_predates = \<lambda>_ _. False\<rparr>"]
    by (simp add: null_only_def zero_valuation_def unary_value_def)
  moreover have "int64_signed_less_than ?l ?r = Cond_Constant True"
    by (simp add: int64_signed_less_than_def by_width_def int64_signed_order_by_width_def
        int64_width_interval_def or_whole_def)
  ultimately show ?thesis by simp
qed

text \<open>
  A folded shift test that is wrong: two shifted left by 63 leaves the range of a signed
  64-bit integer, but every bit is shifted out and the folded test says it does not.
\<close>

lemma shift_left_overflow_lost:
  "int64_signed_shift_left_overflows (Int64Constant 2) (Int64Constant 63) = Cond_Constant False"
  "cond_value \<rho> (Compare Op_Bitvector64SignedShiftLeftOverflows (Int64Constant 2) (Int64Constant 63))"
  by (simp_all add: int64_signed_shift_left_overflows_def int64_shift_count_constant_def compare_value_def
      push_bit_eq_mult)

text \<open>C33: What the overflow test of a 64-bit left shift answers, on every
  well-formed input, with the null pointer at address zero. Left
  unfolded it holds exactly when the shift is undefined: a count of 64 or more, a negative
  operand or a product of two to the 63 or more. Folded, it takes the product modulo two to
  the 64, so it is the machine's test unless the product is at least two to the 64 with its
  low 64 bits below two to the 63: exactly there it misses an overflow.\<close>

theorem shift_overflow_exact:
  assumes "null_at_zero \<rho>" "consistent l"
    and "a = sint (low64 (bv_value \<rho> l))" "n = unat (low64 (bv_value \<rho> r))"
    and "folded \<longleftrightarrow> int64_constant l \<noteq> None \<and> int64_shift_count_constant r \<noteq> None"
  shows "(cond_value \<rho> (int64_signed_shift_left_overflows l r) \<longleftrightarrow>
        64 \<le> n \<or> a < 0 \<or> 2 ^ 63 \<le> (if folded then a * 2 ^ n mod 2 ^ 64 else a * 2 ^ n))
    \<and> (cond_value \<rho> (int64_signed_shift_left_overflows l r) \<longleftrightarrow>
        compare_value Op_Bitvector64SignedShiftLeftOverflows (bv_value \<rho> l) (bv_value \<rho> r)) =
      (\<not> (folded \<and> n < 64 \<and> 0 \<le> a \<and> 2 ^ 64 \<le> a * 2 ^ n \<and> a * 2 ^ n mod 2 ^ 64 < 2 ^ 63))"
proof -
  have folds: "shift_folds l r = folded" using assms(5) by (simp add: shift_folds_def)
  have tests: "cond_value \<rho> (int64_signed_shift_left_overflows l r) = shift_leaves folded a n"
    "compare_value Op_Bitvector64SignedShiftLeftOverflows (bv_value \<rho> l) (bv_value \<rho> r) = shift_leaves False a n"
    using shift_overflows_means [OF assms(1,2), of r] unfolding cond_means_def folds assms(3,4)
    by (simp_all add: compare_value_def shift_leaves_def)
  have "(shift_leaves folded a n = shift_leaves False a n) =
      (\<not> (folded \<and> n < 64 \<and> 0 \<le> a \<and> 2 ^ 64 \<le> a * 2 ^ n \<and> a * 2 ^ n mod 2 ^ 64 < 2 ^ 63))"
    by (cases folded) (simp_all only: shift_leaves_differs not_le [symmetric] simp_thms de_Morgan_conj)
  then show ?thesis unfolding tests by (simp only: shift_leaves_def simp_thms)
qed

theorem shift_overflow_exact_witness:
  "cond_value zero_valuation (int64_signed_shift_left_overflows (Int64Constant 1) (Int64Constant 63))
   \<and> (\<not> cond_value zero_valuation (int64_signed_shift_left_overflows (Int64Constant 2) (Int64Constant 63)))
   \<and> compare_value Op_Bitvector64SignedShiftLeftOverflows
        (bv_value zero_valuation (Int64Constant 2)) (bv_value zero_valuation (Int64Constant 63))"
proof -
  have c: "int64_shift_count_constant (Int64Constant 63 :: nat bv) = Some 63"
    by (simp add: int64_shift_count_constant_def)
  note exact = shift_overflow_exact [OF zero_valuation_null _ refl refl refl, of _ "Int64Constant 63"]
  have "compare_value Op_Bitvector64SignedShiftLeftOverflows 2 63" by (simp add: compare_value_def)
  then show ?thesis
    using exact [of "Int64Constant 1"] exact [of "Int64Constant 2"] by (simp add: c)
qed

text \<open>
  The relation of exact integers that an operator tests.
\<close>

definition integer_order :: "integer_comparison \<Rightarrow> int \<Rightarrow> int \<Rightarrow> bool" where
  "integer_order op a b =
     (case op of
        Op_IntegerLessThan \<Rightarrow> a < b | Op_IntegerLessEqual \<Rightarrow> a \<le> b | Op_IntegerGreaterThan \<Rightarrow> a > b
      | Op_IntegerGreaterEqual \<Rightarrow> a \<ge> b | Op_IntegerEqual \<Rightarrow> a = b | Op_IntegerNotEqual \<Rightarrow> a \<noteq> b)"

lemma integer_order_reflexive: "integer_order op a a \<longleftrightarrow> integer_reflexive op"
  by (cases op) (simp_all add: integer_order_def integer_reflexive_def)

text \<open>C34: The value a condition has because its operands are the same term is its value in
  every valuation, and a condition read in its flipped orientation has the same truth value.
  The comparisons of exact integers are read as the orders of the numbers their terms stand
  for, and one designation as the other's when both designate the same thing.\<close>

theorem reflexive_and_flipped_exact:
  assumes "\<And>op x y. val_cond \<rho> (Integer_Compare op x y) \<longleftrightarrow> integer_order op (number x) (number y)"
    and "\<And>x y. val_designation \<rho> x y \<longleftrightarrow> designated x = designated y"
  shows "(\<forall>v. reflexive_value c = Some v \<longrightarrow> cond_value \<rho> c = v) \<and> cond_value \<rho> (flipped c) = cond_value \<rho> c"
proof (cases c)
  case (Compare op l r)
  then show ?thesis
    by (auto simp: reflexive_value_def flipped_def compare_reflexive_def compare_value_def split: if_splits)
qed (use assms in \<open>auto simp: reflexive_value_def flipped_def integer_order_reflexive\<close>)

definition sample_numbers :: "nat valuation" where
  "sample_numbers = zero_valuation\<lparr>val_cond :=
     (\<lambda>c. case c of Integer_Compare op x y \<Rightarrow> integer_order op (int x) (int y) | _ \<Rightarrow> False)\<rparr>"

theorem reflexive_and_flipped_exact_witness:
  "(\<not> cond_value sample_numbers (Integer_Compare Op_IntegerLessThan 3 3))
   \<and> cond_value sample_numbers
        (Bitvector64Equal (Variable (Variable_Of 0 Ordinary)) (Variable (Variable_Of 0 Ordinary)))
   \<and> (\<not> cond_value sample_numbers (flipped (PointerOffsetEqual (Off_Constant 4) (Off_Constant 8))))"
proof -
  have readings: "val_cond sample_numbers (Integer_Compare op x y) \<longleftrightarrow> integer_order op (int x) (int y)"
    "val_designation sample_numbers x y \<longleftrightarrow> () = ()" for op x y
    by (simp_all add: sample_numbers_def zero_valuation_def)
  let ?x = "Variable (Variable_Of 0 Ordinary) :: nat bv"
  note exact = reflexive_and_flipped_exact [where \<rho> = sample_numbers, OF readings]
  have "reflexive_value (Integer_Compare Op_IntegerLessThan 3 3 :: nat cond) = Some False"
    "reflexive_value (Bitvector64Equal ?x ?x) = Some True"
    by (simp_all add: reflexive_value_def integer_reflexive_def compare_reflexive_def)
  then show ?thesis
    using exact [of "Integer_Compare Op_IntegerLessThan 3 3"] exact [of "Bitvector64Equal ?x ?x"]
      exact [of "PointerOffsetEqual (Off_Constant 4) (Off_Constant 8)"]
    by auto
qed

end
