(* ===== verification/PointerClasses.thy ===== *)
theory PointerClasses
  imports DifferenceTerms PersistentIter "HOL-Library.While_Combinator"
begin

text \<open>
  Pointer equality facts: \<^verbatim>\<open>PointerClasses\<close> of
  \<^verbatim>\<open>src/src/kernel/difference_graph.rs\<close>, a union-find with union by size
  and per-root disequalities. The maps keyed by terms and the maps only looked up are
  HOL maps; the sets that are walked are persistent sets, walked in key order.
\<close>

section \<open>State and operations\<close>

definition EDGE_LIMIT :: nat where
  "EDGE_LIMIT = 32"

record 'x pointer_classes =
  pc_ids :: "'x pointer \<Rightarrow> nat option"
  pc_terms :: "nat \<Rightarrow> 'x pointer option"
  pc_by_offset :: "'x offset \<Rightarrow> nat pset option"
  pc_parent :: "nat \<Rightarrow> nat option"
  pc_size :: "nat \<Rightarrow> nat option"
  pc_unequal :: "nat \<Rightarrow> nat pset option"
  pc_next :: nat

definition pc_empty :: "'x pointer_classes" where
  "pc_empty = \<lparr>pc_ids = Map.empty, pc_terms = Map.empty, pc_by_offset = Map.empty,
     pc_parent = Map.empty, pc_size = Map.empty, pc_unequal = Map.empty, pc_next = 0\<rparr>"

definition or_default :: "'a pset option \<Rightarrow> 'a pset" where
  "or_default s = (case s of None \<Rightarrow> map_empty | Some s \<Rightarrow> s)"

definition pc_id :: "'x pointer_classes \<Rightarrow> 'x pointer \<Rightarrow> nat \<times> 'x pointer_classes" where
  "pc_id g pointer =
     (case pc_ids g pointer of
        Some i \<Rightarrow> (i, g)
      | None \<Rightarrow>
          (let i = pc_next g;
               offset = pointer_offset pointer;
               same_offset = with_value (or_default (pc_by_offset g offset)) i
           in (i, g\<lparr>pc_next := i + 1,
                    pc_ids := (pc_ids g)(pointer \<mapsto> i),
                    pc_terms := (pc_terms g)(i \<mapsto> pointer),
                    pc_by_offset := (pc_by_offset g)(offset \<mapsto> same_offset)\<rparr>)))"

text \<open>
  The walk to a class root. It follows parents while there is one; that it ends on
  every reachable state is \<open>find_terminates\<close> below.
\<close>

definition find_loop :: "'x pointer_classes \<Rightarrow> nat \<Rightarrow> nat option" where
  "find_loop g i = while_option (\<lambda>i. pc_parent g i \<noteq> None) (\<lambda>i. the (pc_parent g i)) i"

definition find :: "'x pointer_classes \<Rightarrow> nat \<Rightarrow> nat" where
  "find g i = while (\<lambda>i. pc_parent g i \<noteq> None) (\<lambda>i. the (pc_parent g i)) i"

definition roots_unequal :: "'x pointer_classes \<Rightarrow> nat \<Rightarrow> nat \<Rightarrow> bool" where
  "roots_unequal g a b =
     (let a_set = or_default (pc_unequal g a);
          b_set = or_default (pc_unequal g b);
          (walked, other) = (if map_len a_set \<le> map_len b_set then (a_set, b) else (b_set, a))
      in list_ex (\<lambda>i. find g i = other) (take EDGE_LIMIT (set_values walked)))"

definition class_size :: "'x pointer_classes \<Rightarrow> nat \<Rightarrow> nat" where
  "class_size g i = (case pc_size g i of None \<Rightarrow> 1 | Some n \<Rightarrow> n)"

definition note_unequal :: "'x pointer_classes \<Rightarrow> nat \<Rightarrow> nat \<Rightarrow> 'x pointer_classes" where
  "note_unequal g root other =
     g\<lparr>pc_unequal := (pc_unequal g)(root \<mapsto> with_value (or_default (pc_unequal g root)) other)\<rparr>"

definition union_roots :: "'x pointer_classes \<Rightarrow> nat \<Rightarrow> nat \<Rightarrow> 'x pointer_classes" where
  "union_roots g root_a root_b =
     (let (small, large) =
            (if class_size g root_a \<le> class_size g root_b then (root_a, root_b)
             else (root_b, root_a));
          merged = class_size g small + class_size g large;
          g = g\<lparr>pc_parent := (pc_parent g)(small \<mapsto> large), pc_size := (pc_size g)(large \<mapsto> merged)\<rparr>
      in case pc_unequal g small of
           None \<Rightarrow> g
         | Some moved \<Rightarrow>
             (let kept = foldl with_value (or_default (pc_unequal g large)) (set_values moved)
              in g\<lparr>pc_unequal := (pc_unequal g)(large \<mapsto> kept, small := None)\<rparr>))"

text \<open>
  Recording a fact; the flag is \<open>False\<close> when it contradicts what is recorded.
\<close>

definition pc_assume ::
  "'x pointer_classes \<Rightarrow> 'x pointer \<Rightarrow> 'x pointer \<Rightarrow> bool \<Rightarrow> bool \<times> 'x pointer_classes" where
  "pc_assume g a b value =
     (let (a, g) = pc_id g a;
          (b, g) = pc_id g b;
          root_a = find g a;
          root_b = find g b
      in if \<not> value then
           (if root_a = root_b then (False, g)
            else (True, note_unequal (note_unequal g root_a b) root_b a))
         else if root_a = root_b then (True, g)
         else if roots_unequal g root_a root_b then (False, g)
         else (True, union_roots g root_a root_b))"

definition pc_decide :: "'x pointer_classes \<Rightarrow> 'x pointer \<Rightarrow> 'x pointer \<Rightarrow> bool option" where
  "pc_decide g a b =
     (case (pc_ids g a, pc_ids g b) of
        (Some a, Some b) \<Rightarrow>
          (let root_a = find g a; root_b = find g b
           in if root_a = root_b then Some True
              else if roots_unequal g root_a root_b then Some False
              else None)
      | _ \<Rightarrow> None)"

fun decide_pairs :: "'x pointer_classes \<Rightarrow> (nat \<times> nat) list \<Rightarrow> bool option" where
  "decide_pairs g [] = None"
| "decide_pairs g ((left, right) # pairs) =
     (case (pc_terms g left, pc_terms g right) of
        (Some left, Some right) \<Rightarrow>
          (if pointer_block left \<noteq> pointer_block right then decide_pairs g pairs
           else (case pc_decide g left right of
                   Some answer \<Rightarrow> Some answer
                 | None \<Rightarrow> decide_pairs g pairs))
      | _ \<Rightarrow> None)"

definition pc_decide_offsets ::
  "'x pointer_classes \<Rightarrow> 'x offset \<Rightarrow> 'x offset \<Rightarrow> bool option" where
  "pc_decide_offsets g a b =
     (case (pc_by_offset g a, pc_by_offset g b) of
        (Some with_a, Some with_b) \<Rightarrow>
          decide_pairs g
            (take EDGE_LIMIT
              (concat (map (\<lambda>left. map (\<lambda>right. (left, right)) (set_values with_b))
                 (set_values with_a))))
      | _ \<Rightarrow> None)"

section \<open>Invariant\<close>

definition roots :: "'x pointer_classes \<Rightarrow> nat set" where
  "roots g = {i. i < pc_next g \<and> pc_parent g i = None}"

definition members :: "'a pset \<Rightarrow> 'a set" where
  "members s = set (set_values s)"

definition wf_classes :: "'x pointer_classes \<Rightarrow> bool" where
  "wf_classes g \<longleftrightarrow>
     (\<forall>p i. pc_ids g p = Some i \<longleftrightarrow> pc_terms g i = Some p)
     \<and> (\<forall>i. pc_terms g i \<noteq> None \<longleftrightarrow> i < pc_next g)
     \<and> (\<forall>i j. pc_parent g i = Some j \<longrightarrow>
          i < pc_next g \<and> j < pc_next g \<and> 2 * class_size g i \<le> class_size g j)
     \<and> (\<forall>i. 0 < class_size g i)
     \<and> (\<forall>i. pc_size g i \<noteq> None \<longrightarrow> i < pc_next g)
     \<and> (\<forall>i < pc_next g. class_size g i \<le> pc_next g)
     \<and> (\<Sum>i \<in> roots g. class_size g i) = pc_next g
     \<and> (\<forall>r s. pc_unequal g r = Some s \<longrightarrow>
          r < pc_next g \<and> wf_map s \<and> (\<forall>j \<in> members s. j < pc_next g))
     \<and> (\<forall>off s. pc_by_offset g off = Some s \<longrightarrow>
          wf_map s \<and> (\<forall>j \<in> members s. \<exists>p. pc_terms g j = Some p \<and> pointer_offset p = off))"

lemma wf_classesD:
  assumes "wf_classes g"
  shows "pc_ids g p = Some i \<longleftrightarrow> pc_terms g i = Some p"
    and "pc_terms g i \<noteq> None \<longleftrightarrow> i < pc_next g"
    and "pc_parent g i = Some j \<Longrightarrow> i < pc_next g \<and> j < pc_next g \<and> 2 * class_size g i \<le> class_size g j"
    and "0 < class_size g i"
    and "pc_size g i \<noteq> None \<Longrightarrow> i < pc_next g"
    and "i < pc_next g \<Longrightarrow> class_size g i \<le> pc_next g"
    and "(\<Sum>i \<in> roots g. class_size g i) = pc_next g"
    and "pc_unequal g r = Some s \<Longrightarrow> r < pc_next g \<and> wf_map s \<and> (\<forall>j \<in> members s. j < pc_next g)"
    and "pc_by_offset g off = Some s \<Longrightarrow>
      wf_map s \<and> (\<forall>j \<in> members s. \<exists>p. pc_terms g j = Some p \<and> pointer_offset p = off)"
  using assms unfolding wf_classes_def by blast+

lemma members_with_value: "wf_map s \<Longrightarrow> members (with_value s x) = insert x (members s)"
  by (simp add: members_def set_values_def with_value_def entries_with_inserted wf_map_def
      ins_entry_keys)

lemma members_empty [simp]: "members map_empty = {}"
  by (simp add: members_def set_values_def entries_map_empty)

lemma wf_with_value: "wf_map s \<Longrightarrow> wf_map (with_value s x)"
  by (simp add: with_value_def wf_with_inserted)

lemma foldl_with_value:
  "wf_map s \<Longrightarrow> wf_map (foldl with_value s xs) \<and> members (foldl with_value s xs) = members s \<union> set xs"
  by (induction xs arbitrary: s) (auto simp: members_with_value wf_with_value)

lemma find_step: "find g i = (case pc_parent g i of None \<Rightarrow> i | Some j \<Rightarrow> find g j)"
  unfolding find_def by (subst while_unfold) (auto split: option.split)

lemma wf_pc_empty: "wf_classes pc_empty"
  by (simp add: wf_classes_def pc_empty_def class_size_def roots_def)

text \<open>The walk ends, at a root.\<close>

lemma find_terminates:
  assumes "wf_classes g"
  shows "find_loop g i = Some (find g i)"
proof -
  have "\<exists>r. find_loop g i = Some r"
    unfolding find_loop_def
  proof (rule measure_while_option_Some [where f = "\<lambda>i. pc_next g - class_size g i"
        and P = "\<lambda>_. True"])
    fix j
    assume "pc_parent g j \<noteq> None"
    then obtain k where k: "pc_parent g j = Some k" by auto
    with wf_classesD(3) [OF assms k] wf_classesD(4) [OF assms, of j] wf_classesD(6) [OF assms, of k]
    show "True \<and> pc_next g - class_size g (the (pc_parent g j)) < pc_next g - class_size g j"
      by auto
  qed simp
  then show ?thesis by (auto simp: find_loop_def find_def while_def)
qed

lemma parent_induct [consumes 1, case_names root child]:
  assumes "wf_classes g" and "\<And>i. pc_parent g i = None \<Longrightarrow> P i"
    and "\<And>i j. pc_parent g i = Some j \<Longrightarrow> P j \<Longrightarrow> P i"
  shows "P i"
proof (induction i rule: measure_induct_rule [where f = "\<lambda>i. pc_next g - class_size g i"])
  case (less i)
  show ?case
  proof (cases "pc_parent g i")
    case None
    then show ?thesis by (rule assms(2))
  next
    case (Some j)
    with wf_classesD(3) [OF assms(1) Some] wf_classesD(4) [OF assms(1), of i]
      wf_classesD(6) [OF assms(1), of j]
    have "pc_next g - class_size g j < pc_next g - class_size g i" by auto
    then show ?thesis using less assms(3) [OF Some] by blast
  qed
qed

lemma find_root [simp]: "pc_parent g i = None \<Longrightarrow> find g i = i"
  by (simp add: find_step)

lemma find_parent: "pc_parent g i = Some j \<Longrightarrow> find g i = find g j"
  by (subst find_step) simp

lemma parent_find: "wf_classes g \<Longrightarrow> pc_parent g (find g i) = None"
  by (induction i rule: parent_induct) (auto simp: find_parent)

lemma find_less:
  assumes "wf_classes g"
  shows "i < pc_next g \<Longrightarrow> find g i < pc_next g"
  using assms
proof (induction i rule: parent_induct)
  case (child i j)
  then show ?case using wf_classesD(3) [OF assms, of i j] by (simp add: find_parent)
qed simp

lemma find_find [simp]: "wf_classes g \<Longrightarrow> find g (find g i) = find g i"
  by (simp add: parent_find)

lemma roots_find: "wf_classes g \<Longrightarrow> i < pc_next g \<Longrightarrow> find g i \<in> roots g"
  by (simp add: roots_def parent_find find_less)

lemma finite_roots: "finite (roots g)"
  by (rule finite_subset [of _ "{..< pc_next g}"]) (auto simp: roots_def)

section \<open>Every operation keeps the invariant\<close>

lemma pc_id_known: "pc_ids g p = Some i \<Longrightarrow> pc_id g p = (i, g)"
  by (simp add: pc_id_def)

lemma class_size_pc_id [simp]: "class_size (snd (pc_id g p)) = class_size g"
  by (rule ext) (simp add: pc_id_def class_size_def Let_def split: option.split)

lemma parent_pc_id [simp]: "pc_parent (snd (pc_id g p)) = pc_parent g"
  by (simp add: pc_id_def Let_def split: option.split)

lemma unequal_pc_id [simp]: "pc_unequal (snd (pc_id g p)) = pc_unequal g"
  by (simp add: pc_id_def Let_def split: option.split)

lemma find_pc_id [simp]: "find (snd (pc_id g p)) = find g"
  by (rule ext) (simp add: find_def)

lemma next_pc_id: "pc_next g \<le> pc_next (snd (pc_id g p))"
  by (simp add: pc_id_def Let_def split: option.split)

lemma wf_pc_id:
  assumes "wf_classes g"
  shows "wf_classes (snd (pc_id g p))"
proof (cases "pc_ids g p")
  case (Some i)
  then show ?thesis using assms by (simp add: pc_id_known)
next
  case None
  let ?i = "pc_next g" and ?g = "snd (pc_id g p)"
  have g: "pc_next ?g = ?i + 1" "pc_ids ?g = (pc_ids g)(p \<mapsto> ?i)" "pc_terms ?g = (pc_terms g)(?i \<mapsto> p)"
    "pc_by_offset ?g = (pc_by_offset g)(pointer_offset p \<mapsto>
       with_value (or_default (pc_by_offset g (pointer_offset p))) ?i)" "pc_size ?g = pc_size g"
    using None by (simp_all add: pc_id_def Let_def)
  have fresh: "pc_terms g ?i = None" "pc_size g ?i = None" "pc_parent g ?i = None"
  proof -
    show "pc_terms g ?i = None" using wf_classesD(2) [OF assms, of ?i] by auto
    show "pc_size g ?i = None" using wf_classesD(5) [OF assms, of ?i] by (cases "pc_size g ?i") auto
    show "pc_parent g ?i = None"
      using wf_classesD(3) [OF assms, of ?i] by (cases "pc_parent g ?i") auto
  qed
  have "roots ?g = insert ?i (roots g)"
    using fresh by (auto simp: roots_def g less_Suc_eq)
  then have sum: "(\<Sum>i \<in> roots ?g. class_size g i) = pc_next ?g"
    using wf_classesD(7) [OF assms] fresh finite_roots [of g]
    by (simp add: g(1) roots_def class_size_def)
  have off: "wf_map s \<and> (\<forall>j \<in> members s. \<exists>q. pc_terms ?g j = Some q \<and> pointer_offset q = off)"
    if "pc_by_offset ?g off = Some s" for off s
  proof -
    have old: "wf_map t \<and> (\<forall>j \<in> members t. \<exists>q. pc_terms ?g j = Some q \<and> pointer_offset q = off)"
      if "pc_by_offset g off = Some t" for t
      using wf_classesD(9) [OF assms that] fresh by (fastforce simp: g(3))
    have "wf_map (or_default (pc_by_offset g off))
        \<and> (\<forall>j \<in> members (or_default (pc_by_offset g off)).
             \<exists>q. pc_terms ?g j = Some q \<and> pointer_offset q = off)"
      using old by (auto simp: or_default_def wf_map_empty split: option.split)
    then show ?thesis
      using that old by (auto simp: g(3,4) members_with_value wf_with_value split: if_splits)
  qed
  show ?thesis
    unfolding wf_classes_def
  proof (intro conjI)
    show "\<forall>q i. pc_ids ?g q = Some i \<longleftrightarrow> pc_terms ?g i = Some q"
    proof -
      have "pc_terms g i \<noteq> Some p" for i using wf_classesD(1) [OF assms, of p i] None by simp
      then show ?thesis using wf_classesD(1) [OF assms] None fresh by (auto simp: g)
    qed
    show "\<forall>i. pc_terms ?g i \<noteq> None \<longleftrightarrow> i < pc_next ?g"
      using wf_classesD(2) [OF assms] by (auto simp: g less_Suc_eq)
    show "\<forall>i j. pc_parent ?g i = Some j \<longrightarrow>
        i < pc_next ?g \<and> j < pc_next ?g \<and> 2 * class_size ?g i \<le> class_size ?g j"
      using wf_classesD(3) [OF assms] by (fastforce simp: g(1))
    show "\<forall>i. 0 < class_size ?g i" using wf_classesD(4) [OF assms] by simp
    show "\<forall>i. pc_size ?g i \<noteq> None \<longrightarrow> i < pc_next ?g"
      using wf_classesD(5) [OF assms] by (auto simp: g less_SucI)
    show "\<forall>i < pc_next ?g. class_size ?g i \<le> pc_next ?g"
      using wf_classesD(6) [OF assms] fresh by (auto simp: g(1) less_Suc_eq le_SucI class_size_def)
    show "(\<Sum>i \<in> roots ?g. class_size ?g i) = pc_next ?g" using sum by simp
    show "\<forall>r s. pc_unequal ?g r = Some s \<longrightarrow>
        r < pc_next ?g \<and> wf_map s \<and> (\<forall>j \<in> members s. j < pc_next ?g)"
      using wf_classesD(8) [OF assms] by (fastforce simp: g(1) less_SucI)
    show "\<forall>off s. pc_by_offset ?g off = Some s \<longrightarrow>
        wf_map s \<and> (\<forall>j \<in> members s. \<exists>q. pc_terms ?g j = Some q \<and> pointer_offset q = off)"
      using off by blast
  qed
qed

lemma wf_note_unequal:
  assumes "wf_classes g" "root < pc_next g" "other < pc_next g"
  shows "wf_classes (note_unequal g root other)"
proof -
  let ?s = "or_default (pc_unequal g root)"
  have s: "wf_map ?s \<and> (\<forall>j \<in> members ?s. j < pc_next g)"
    using wf_classesD(8) [OF assms(1), of root]
    by (auto simp: or_default_def wf_map_empty split: option.split)
  have size: "class_size (note_unequal g root other) = class_size g"
    by (rule ext) (simp add: class_size_def note_unequal_def)
  show ?thesis
    using assms s wf_classesD(8) [OF assms(1)]
    unfolding wf_classes_def size
    by (simp add: note_unequal_def roots_def members_with_value wf_with_value)
qed

lemma find_note_unequal [simp]: "find (note_unequal g root other) = find g"
  by (rule ext) (simp add: find_def note_unequal_def)

text \<open>Linking the smaller root under the larger.\<close>

definition link_roots :: "'x pointer_classes \<Rightarrow> nat \<Rightarrow> nat \<Rightarrow> 'x pointer_classes" where
  "link_roots g small large =
     g\<lparr>pc_parent := (pc_parent g)(small \<mapsto> large),
       pc_size := (pc_size g)(large \<mapsto> class_size g small + class_size g large)\<rparr>"

lemma find_link_roots:
  assumes "wf_classes g" "pc_parent g small = None" "pc_parent g large = None" "small \<noteq> large"
  shows "find (link_roots g small large) i = (if find g i = small then large else find g i)"
  using assms(1)
proof (induction i rule: parent_induct)
  case (root i)
  let ?g = "link_roots g small large"
  have "pc_parent ?g large = None" "pc_parent ?g small = Some large"
    using assms by (simp_all add: link_roots_def)
  then have "find ?g large = large" "find ?g small = large" by (simp_all add: find_parent)
  moreover have "pc_parent ?g i = None" if "i \<noteq> small" using root that by (simp add: link_roots_def)
  ultimately show ?case using root by auto
next
  case (child i j)
  then have "pc_parent (link_roots g small large) i = Some j"
    using assms by (auto simp: link_roots_def)
  with child show ?case by (simp add: find_parent)
qed

lemma wf_link_roots:
  assumes wf: "wf_classes g" and r: "small \<in> roots g" "large \<in> roots g" "small \<noteq> large"
    and le: "class_size g small \<le> class_size g large"
  shows "wf_classes (link_roots g small large)"
proof -
  let ?g = "link_roots g small large"
  have fields: "pc_ids ?g = pc_ids g" "pc_terms ?g = pc_terms g" "pc_by_offset ?g = pc_by_offset g"
    "pc_unequal ?g = pc_unequal g" "pc_next ?g = pc_next g"
    "pc_parent ?g = (pc_parent g)(small \<mapsto> large)"
    by (simp_all add: link_roots_def)
  have size: "class_size ?g i =
      (if i = large then class_size g small + class_size g large else class_size g i)" for i
    by (simp add: class_size_def link_roots_def)
  have lt: "small < pc_next g" "large < pc_next g" "pc_parent g small = None" "pc_parent g large = None"
    using r by (auto simp: roots_def)
  have split: "(\<Sum>i \<in> roots g. class_size g i)
      = class_size g small + (class_size g large + (\<Sum>i \<in> roots g - {small} - {large}. class_size g i))"
    using r finite_roots [of g] by (simp add: sum.remove)
  have "roots ?g = roots g - {small}" by (auto simp: roots_def fields)
  moreover have "(\<Sum>i \<in> roots g - {small}. class_size ?g i)
      = class_size ?g large + (\<Sum>i \<in> roots g - {small} - {large}. class_size ?g i)"
    using r finite_roots [of g] by (simp add: sum.remove)
  moreover have "(\<Sum>i \<in> roots g - {small} - {large}. class_size ?g i)
      = (\<Sum>i \<in> roots g - {small} - {large}. class_size g i)"
    by (rule sum.cong) (auto simp: size)
  ultimately have sum: "(\<Sum>i \<in> roots ?g. class_size ?g i) = pc_next ?g"
    using split wf_classesD(7) [OF wf] by (simp add: size fields)
  have merged: "class_size g small + class_size g large \<le> pc_next g"
    using split wf_classesD(7) [OF wf] by simp
  show ?thesis
    unfolding wf_classes_def fields
  proof (intro conjI)
    show "\<forall>i j. ((pc_parent g)(small \<mapsto> large)) i = Some j \<longrightarrow>
        i < pc_next g \<and> j < pc_next g \<and> 2 * class_size ?g i \<le> class_size ?g j"
    proof (intro allI impI)
      fix i j
      assume ij: "((pc_parent g)(small \<mapsto> large)) i = Some j"
      show "i < pc_next g \<and> j < pc_next g \<and> 2 * class_size ?g i \<le> class_size ?g j"
      proof (cases "i = small")
        case True
        then have "j = large" using ij by simp
        then show ?thesis using True lt r(3) le size [of small] size [of large] by simp
      next
        case False
        then have "pc_parent g i = Some j" "i \<noteq> large" using ij lt by auto
        then show ?thesis using wf_classesD(3) [OF wf, of i j] by (auto simp: size)
      qed
    qed
    show "\<forall>i. 0 < class_size ?g i" using wf_classesD(4) [OF wf] by (simp add: size)
    show "\<forall>i. pc_size ?g i \<noteq> None \<longrightarrow> i < pc_next g"
      using wf_classesD(5) [OF wf] lt by (simp add: link_roots_def)
    show "\<forall>i < pc_next g. class_size ?g i \<le> pc_next g"
      using wf_classesD(6) [OF wf] merged by (simp add: size)
    show "(\<Sum>i \<in> roots ?g. class_size ?g i) = pc_next g" using sum by (simp add: fields)
  qed (use wf in \<open>simp_all add: wf_classes_def\<close>)
qed

lemma wf_set_unequal:
  assumes "wf_classes g"
    and "\<And>r s. u r = Some s \<Longrightarrow> r < pc_next g \<and> wf_map s \<and> (\<forall>j \<in> members s. j < pc_next g)"
  shows "wf_classes (g\<lparr>pc_unequal := u\<rparr>)"
proof -
  have "class_size (g\<lparr>pc_unequal := u\<rparr>) = class_size g"
    by (rule ext) (simp add: class_size_def)
  then show ?thesis using assms by (simp add: wf_classes_def roots_def)
qed

lemma find_set_unequal [simp]: "find (g\<lparr>pc_unequal := u\<rparr>) = find g"
  by (rule ext) (simp add: find_def)

text \<open>The two roots of a union, in the order of their sizes.\<close>

lemma union_roots_cases:
  assumes "root_a \<noteq> root_b"
  obtains small large where "{small, large} = {root_a, root_b}" "small \<noteq> large"
    "class_size g small \<le> class_size g large"
    "union_roots g root_a root_b =
       (case pc_unequal g small of
          None \<Rightarrow> link_roots g small large
        | Some moved \<Rightarrow> (link_roots g small large)\<lparr>pc_unequal := (pc_unequal g)
            (large \<mapsto> foldl with_value (or_default (pc_unequal g large)) (set_values moved),
             small := None)\<rparr>)"
proof (cases "class_size g root_a \<le> class_size g root_b")
  case True
  show thesis
    by (rule that [of root_a root_b])
       (use True assms in \<open>simp_all add: union_roots_def link_roots_def Let_def split: option.split\<close>)
next
  case False
  show thesis
    by (rule that [of root_b root_a])
       (use False assms in \<open>simp_all add: union_roots_def link_roots_def Let_def insert_commute
          split: option.split\<close>)
qed

lemma wf_union_roots:
  assumes wf: "wf_classes g" and r: "root_a \<in> roots g" "root_b \<in> roots g" "root_a \<noteq> root_b"
  shows "wf_classes (union_roots g root_a root_b)"
  using r(3)
proof (cases rule: union_roots_cases [of root_a root_b g, consumes 1, case_names c])
  case (c small large)
  have sl: "small \<in> roots g" "large \<in> roots g" using c(1) r by (auto simp: doubleton_eq_iff)
  note wf' = wf_link_roots [OF wf sl c(2,3)]
  show ?thesis
  proof (cases "pc_unequal g small")
    case None
    then show ?thesis using c(4) wf' by simp
  next
    case (Some moved)
    let ?kept = "foldl with_value (or_default (pc_unequal g large)) (set_values moved)"
    have "wf_map (or_default (pc_unequal g large))
        \<and> (\<forall>j \<in> members (or_default (pc_unequal g large)). j < pc_next g)"
      using wf_classesD(8) [OF wf, of large]
      by (auto simp: or_default_def wf_map_empty split: option.split)
    moreover have "\<forall>j \<in> members moved. j < pc_next g" using wf_classesD(8) [OF wf Some] by blast
    ultimately have "wf_map ?kept \<and> (\<forall>j \<in> members ?kept. j < pc_next g)"
      using foldl_with_value [of "or_default (pc_unequal g large)" "set_values moved"]
      by (auto simp: members_def)
    then have "wf_classes ((link_roots g small large)\<lparr>pc_unequal := (pc_unequal g)
        (large \<mapsto> ?kept, small := None)\<rparr>)"
      using wf_classesD(8) [OF wf] sl
      by (intro wf_set_unequal [OF wf']) (auto simp: link_roots_def roots_def split: if_splits)
    then show ?thesis using c(4) Some by simp
  qed
qed

lemma pc_id_ids: "pc_ids (snd (pc_id g p)) p = Some (fst (pc_id g p))"
  by (simp add: pc_id_def Let_def split: option.split)

lemma pc_id_keeps: "pc_ids g q = Some i \<Longrightarrow> pc_ids (snd (pc_id g p)) q = Some i"
  by (auto simp: pc_id_def Let_def split: option.split)

lemma id_less: "wf_classes g \<Longrightarrow> pc_ids g p = Some i \<Longrightarrow> i < pc_next g"
  using wf_classesD(1) [of g p i] wf_classesD(2) [of g i] by simp

text \<open>
  A fact in one piece: the state with both pointers named, and their ids.
\<close>

definition named :: "'x pointer_classes \<Rightarrow> 'x pointer \<Rightarrow> 'x pointer \<Rightarrow> nat \<times> nat \<times> 'x pointer_classes"
where
  "named g a b =
     (let g1 = snd (pc_id g a); g2 = snd (pc_id g1 b) in (fst (pc_id g a), fst (pc_id g1 b), g2))"

lemma namedE:
  assumes "wf_classes g"
  obtains i j h where "named g a b = (i, j, h)" "wf_classes h" "find h = find g"
    "pc_unequal h = pc_unequal g"
    "pc_ids h a = Some i" "pc_ids h b = Some j" "\<And>q k. pc_ids g q = Some k \<Longrightarrow> pc_ids h q = Some k"
    "\<And>q k. pc_ids h q = Some k \<Longrightarrow> pc_ids g q = None \<Longrightarrow> q = a \<or> q = b"
proof -
  let ?g1 = "snd (pc_id g a)"
  have "\<And>q k. pc_ids (snd (pc_id ?g1 b)) q = Some k \<Longrightarrow> pc_ids g q = None \<Longrightarrow> q = a \<or> q = b"
    by (auto simp: pc_id_def Let_def split: option.splits if_splits)
  then show thesis
    using that [of "fst (pc_id g a)" "fst (pc_id ?g1 b)" "snd (pc_id ?g1 b)"] assms
    by (simp add: named_def wf_pc_id pc_id_ids pc_id_keeps)
qed

lemma pc_assume_named:
  "pc_assume g a b value =
     (let (i, j, h) = named g a b
      in if \<not> value then
           (if find h i = find h j then (False, h)
            else (True, note_unequal (note_unequal h (find h i) j) (find h j) i))
         else if find h i = find h j then (True, h)
         else if roots_unequal h (find h i) (find h j) then (False, h)
         else (True, union_roots h (find h i) (find h j)))"
  by (simp add: pc_assume_def named_def Let_def case_prod_beta)

lemma wf_pc_assume:
  assumes "wf_classes g"
  shows "wf_classes (snd (pc_assume g a b value))"
proof -
  obtain i j h where h: "named g a b = (i, j, h)" "wf_classes h"
    and ids: "pc_ids h a = Some i" "pc_ids h b = Some j"
    using namedE [OF assms, of a b] by metis
  have lt: "i < pc_next h" "j < pc_next h" using id_less [OF h(2)] ids by auto
  have n1: "wf_classes (note_unequal h (find h i) j)"
    by (rule wf_note_unequal [OF h(2) find_less [OF h(2) lt(1)] lt(2)])
  have "wf_classes (note_unequal (note_unequal h (find h i) j) (find h j) i)"
    using wf_note_unequal [OF n1, of "find h j" i] find_less [OF h(2) lt(2)] lt
    by (simp add: note_unequal_def)
  then show ?thesis
    using h(2) wf_union_roots [OF h(2) roots_find [OF h(2) lt(1)] roots_find [OF h(2) lt(2)]]
    by (simp add: pc_assume_named h(1) Let_def)
qed

section \<open>The partition of the pointers\<close>

text \<open>
  What the union-find stands for: the class of a pointer, itself alone when no fact
  names it.
\<close>

definition class_of :: "'x pointer_classes \<Rightarrow> 'x pointer \<Rightarrow> 'x pointer set" where
  "class_of g p =
     (case pc_ids g p of
        None \<Rightarrow> {p}
      | Some i \<Rightarrow> {q. \<exists>j. pc_ids g q = Some j \<and> find g j = find g i})"

lemma class_of_known:
  "pc_ids g p = Some i \<Longrightarrow> q \<in> class_of g p \<longleftrightarrow> (\<exists>j. pc_ids g q = Some j \<and> find g j = find g i)"
  by (simp add: class_of_def)

lemma class_of_unknown: "pc_ids g p = None \<Longrightarrow> class_of g p = {p}"
  by (simp add: class_of_def)

lemma find_fresh: "wf_classes g \<Longrightarrow> \<not> i < pc_next g \<Longrightarrow> find g i = i"
  using wf_classesD(3) [of g i] by (cases "pc_parent g i") auto

lemma class_of_pc_id:
  assumes "wf_classes g"
  shows "class_of (snd (pc_id g a)) p = class_of g p"
proof (cases "pc_ids g a")
  case (Some i)
  then show ?thesis by (simp add: pc_id_known)
next
  case None
  let ?h = "snd (pc_id g a)"
  have ids: "pc_ids ?h = (pc_ids g)(a \<mapsto> pc_next g)" using None by (simp add: pc_id_def Let_def)
  have old: "find g i \<noteq> pc_next g" if "pc_ids g q = Some i" for q i
    using find_less [OF assms id_less [OF assms that]] by simp
  have new: "find g (pc_next g) = pc_next g" by (rule find_fresh [OF assms]) simp
  show ?thesis
  proof (cases "pc_ids g p")
    case (Some i)
    then have "pc_ids ?h p = Some i" using None by (auto simp: ids)
    then show ?thesis
      using Some None old [OF Some] new by (auto simp: set_eq_iff class_of_known ids)
  next
    case p: None
    show ?thesis
    proof (cases "p = a")
      case True
      then have "pc_ids ?h p = Some (pc_next g)" by (simp add: ids)
      then show ?thesis
        using p old new True by (auto simp: set_eq_iff class_of_known class_of_unknown ids split: if_splits)
    next
      case False
      then show ?thesis using p by (simp add: class_of_unknown ids)
    qed
  qed
qed

lemma class_of_named:
  assumes "wf_classes g" "named g a b = (i, j, h)"
  shows "class_of h p = class_of g p"
proof -
  have "h = snd (pc_id (snd (pc_id g a)) b)" using assms(2) by (auto simp: named_def Let_def)
  then show ?thesis
    by (simp add: class_of_pc_id [OF assms(1)] class_of_pc_id [OF wf_pc_id [OF assms(1)]])
qed

lemma union_ids [simp]: "pc_ids (union_roots g x y) = pc_ids g"
  by (simp add: union_roots_def Let_def split: option.split)

lemma find_union_roots:
  assumes wf: "wf_classes g" and r: "x \<in> roots g" "y \<in> roots g" "x \<noteq> y"
  shows "find (union_roots g x y) m = find (union_roots g x y) n \<longleftrightarrow>
    find g m = find g n \<or> {find g m, find g n} = {x, y}"
  using r(3)
proof (cases rule: union_roots_cases [of x y g, consumes 1, case_names c])
  case (c small large)
  have sl: "pc_parent g small = None" "pc_parent g large = None"
    using c(1) r by (auto simp: doubleton_eq_iff roots_def)
  have f: "find (union_roots g x y) = find (link_roots g small large)"
    using c(4) by (simp split: option.split)
  have "{find g m, find g n} = {x, y} \<longleftrightarrow> {find g m, find g n} = {small, large}" using c(1) by simp
  then show ?thesis
    using c(2) by (auto simp: f find_link_roots [OF wf sl c(2)] doubleton_eq_iff)
qed

lemma class_of_union:
  assumes wf: "wf_classes g" and ab: "pc_ids g a = Some i" "pc_ids g b = Some j"
    and ne: "find g i \<noteq> find g j"
  shows "class_of (union_roots g (find g i) (find g j)) p =
    (if p \<in> class_of g a \<union> class_of g b then class_of g a \<union> class_of g b else class_of g p)"
proof -
  let ?h = "union_roots g (find g i) (find g j)"
  have r: "find g i \<in> roots g" "find g j \<in> roots g"
    using roots_find [OF wf] id_less [OF wf] ab by auto
  note f = find_union_roots [OF wf r ne]
  show ?thesis
  proof (cases "pc_ids g p")
    case None
    then have "p \<notin> class_of g a \<union> class_of g b" using ab by (auto simp: class_of_known)
    with None show ?thesis by (simp add: class_of_unknown)
  next
    case (Some k)
    have "class_of ?h p = {q. \<exists>l. pc_ids g q = Some l
        \<and> (find g l = find g k \<or> {find g l, find g k} = {find g i, find g j})}"
      using Some by (simp add: class_of_def f)
    moreover have "p \<in> class_of g a \<union> class_of g b \<longleftrightarrow> find g k = find g i \<or> find g k = find g j"
      using Some ab by (auto simp: class_of_known)
    ultimately show ?thesis
      using Some ab ne by (auto simp: class_of_def doubleton_eq_iff)
  qed
qed

lemma note_unequal_fields [simp]:
  "pc_ids (note_unequal g x y) = pc_ids g" "pc_terms (note_unequal g x y) = pc_terms g"
  "pc_next (note_unequal g x y) = pc_next g"
  by (simp_all add: note_unequal_def)

lemma class_of_note_unequal [simp]: "class_of (note_unequal g x y) = class_of g"
  by (rule ext) (auto simp: class_of_def split: option.split)

section \<open>Soundness\<close>

text \<open>
  A state is right about a valuation when the pointers of a class are one place and the
  pointers recorded unequal are two.
\<close>

definition pc_holds :: "'x valuation \<Rightarrow> 'x pointer_classes \<Rightarrow> bool" where
  "pc_holds \<rho> g \<longleftrightarrow>
     (\<forall>p q. q \<in> class_of g p \<longrightarrow> pointer_place \<rho> p = pointer_place \<rho> q)
     \<and> (\<forall>r s j p q. pc_unequal g r = Some s \<longrightarrow> j \<in> members s \<longrightarrow>
          pc_ids g p = Some r \<longrightarrow> pc_ids g q = Some j \<longrightarrow> pointer_place \<rho> p \<noteq> pointer_place \<rho> q)"

lemma pc_holds_class: "pc_holds \<rho> g \<Longrightarrow> q \<in> class_of g p \<Longrightarrow> pointer_place \<rho> p = pointer_place \<rho> q"
  by (simp add: pc_holds_def)

lemma pc_holds_unequal:
  "pc_holds \<rho> g \<Longrightarrow> pc_unequal g r = Some s \<Longrightarrow> j \<in> members s \<Longrightarrow> pc_ids g p = Some r \<Longrightarrow>
   pc_ids g q = Some j \<Longrightarrow> pointer_place \<rho> p \<noteq> pointer_place \<rho> q"
  unfolding pc_holds_def by blast

lemma pc_holds_find:
  assumes "pc_holds \<rho> g" "pc_ids g p = Some i" "pc_ids g q = Some j" "find g i = find g j"
  shows "pointer_place \<rho> p = pointer_place \<rho> q"
  using pc_holds_class [OF assms(1), of q p] assms(2-4) by (simp add: class_of_known)

lemma pc_ids_empty [simp]: "pc_ids pc_empty p = None"
  by (simp add: pc_empty_def)

lemma pc_holds_empty: "pc_holds \<rho> pc_empty"
  by (simp add: pc_holds_def class_of_def pc_empty_def)

lemma known_node:
  assumes "wf_classes g" "i < pc_next g"
  obtains p where "pc_ids g p = Some i"
  using wf_classesD(1,2) [OF assms(1)] assms(2) by (metis not_None_eq)

lemma pc_holds_named:
  assumes wf: "wf_classes g" and h: "pc_holds \<rho> g" and n: "named g a b = (i, j, k)"
  shows "pc_holds \<rho> k"
  unfolding pc_holds_def
proof (intro conjI allI impI)
  fix p q
  assume "q \<in> class_of k p"
  then show "pointer_place \<rho> p = pointer_place \<rho> q"
    using pc_holds_class [OF h] class_of_named [OF wf n] by blast
next
  fix r s m p q
  assume s: "pc_unequal k r = Some s" and m: "m \<in> members s"
    and p: "pc_ids k p = Some r" and q: "pc_ids k q = Some m"
  obtain wk: "wf_classes k" and u: "pc_unequal k = pc_unequal g"
    and keep: "\<And>x l. pc_ids g x = Some l \<Longrightarrow> pc_ids k x = Some l"
    using namedE [OF wf, of a b] n by (metis prod.inject)
  have lt: "r < pc_next g" "m < pc_next g" using wf_classesD(8) [OF wf] s m u by auto
  obtain p' q' where old: "pc_ids g p' = Some r" "pc_ids g q' = Some m"
    using known_node [OF wf] lt by metis
  moreover have "p' = p" "q' = q"
    using keep [OF old(1)] keep [OF old(2)] p q wf_classesD(1) [OF wk] by (metis option.inject)+
  ultimately show "pointer_place \<rho> p \<noteq> pointer_place \<rho> q"
    using pc_holds_unequal [OF h] s m u by metis
qed

lemma roots_unequal_sound:
  assumes wf: "wf_classes g" and h: "pc_holds \<rho> g" and u: "roots_unequal g (find g i) (find g j)"
    and p: "pc_ids g p = Some i" and q: "pc_ids g q = Some j"
  shows "pointer_place \<rho> p \<noteq> pointer_place \<rho> q"
proof -
  have walk: "pointer_place \<rho> p \<noteq> pointer_place \<rho> q"
    if s: "m \<in> members (or_default (pc_unequal g (find g i)))" and m: "find g m = find g j"
      and p: "pc_ids g p = Some i" and q: "pc_ids g q = Some j" for i j m p q
  proof -
    obtain s' where s': "pc_unequal g (find g i) = Some s'" "m \<in> members s'"
      using s by (cases "pc_unequal g (find g i)") (auto simp: or_default_def)
    have lt: "find g i < pc_next g" "m < pc_next g" using wf_classesD(8) [OF wf s'(1)] s'(2) by auto
    obtain r x where r: "pc_ids g r = Some (find g i)" and x: "pc_ids g x = Some m"
      using known_node [OF wf] lt by metis
    have "pointer_place \<rho> r \<noteq> pointer_place \<rho> x" by (rule pc_holds_unequal [OF h s' r x])
    moreover have "pointer_place \<rho> r = pointer_place \<rho> p"
      by (rule pc_holds_find [OF h r p]) (simp add: wf)
    moreover have "pointer_place \<rho> x = pointer_place \<rho> q" by (rule pc_holds_find [OF h x q m])
    ultimately show ?thesis by simp
  qed
  obtain m where "m \<in> members (or_default (pc_unequal g (find g i))) \<and> find g m = find g j
      \<or> m \<in> members (or_default (pc_unequal g (find g j))) \<and> find g m = find g i"
    using u by (auto simp: roots_unequal_def Let_def list_ex_iff members_def split: if_splits
        dest: in_set_takeD)
  then show ?thesis using walk [OF _ _ p q] walk [OF _ _ q p] by metis
qed

lemma pc_holds_note_unequal:
  assumes wf: "wf_classes g" and h: "pc_holds \<rho> g" and q: "pc_ids g q = Some j"
    and r: "pc_ids g p = Some r" and ne: "pointer_place \<rho> p \<noteq> pointer_place \<rho> q"
  shows "pc_holds \<rho> (note_unequal g r j)"
  unfolding pc_holds_def
proof (intro conjI allI impI)
  fix x y
  assume "y \<in> class_of (note_unequal g r j) x"
  then show "pointer_place \<rho> x = pointer_place \<rho> y" using pc_holds_class [OF h] by simp
next
  fix root s m x y
  assume s: "pc_unequal (note_unequal g r j) root = Some s" and m: "m \<in> members s"
    and x: "pc_ids (note_unequal g r j) x = Some root" and y: "pc_ids (note_unequal g r j) y = Some m"
  have unique: "z = w" if "pc_ids g z = Some n" "pc_ids g w = Some n" for z w n
    using that wf_classesD(1) [OF wf] by (metis option.inject)
  show "pointer_place \<rho> x \<noteq> pointer_place \<rho> y"
  proof (cases "root = r \<and> m = j")
    case True
    then show ?thesis using x y ne unique [of x r p] unique [of y j q] r q by auto
  next
    case False
    have "wf_map (or_default (pc_unequal g r))"
      using wf_classesD(8) [OF wf, of r] by (auto simp: or_default_def wf_map_empty split: option.split)
    then obtain s' where "pc_unequal g root = Some s'" "m \<in> members s'"
      using s m False
      by (auto simp: note_unequal_def members_with_value or_default_def split: if_splits option.splits)
    then show ?thesis using pc_holds_unequal [OF h] x y by simp
  qed
qed

lemma pc_holds_union:
  assumes wf: "wf_classes g" and h: "pc_holds \<rho> g"
    and ab: "pc_ids g a = Some i" "pc_ids g b = Some j" and ne: "find g i \<noteq> find g j"
    and eq: "pointer_place \<rho> a = pointer_place \<rho> b"
  shows "pc_holds \<rho> (union_roots g (find g i) (find g j))"
proof -
  let ?h = "union_roots g (find g i) (find g j)"
  have r: "find g i \<in> roots g" "find g j \<in> roots g"
    using roots_find [OF wf] id_less [OF wf] ab by auto
  have place: "pointer_place \<rho> p = pointer_place \<rho> a" if "pc_ids g p = Some m"
    "m \<in> {find g i, find g j}" for p m
    using that pc_holds_find [OF h that(1) ab(1)] pc_holds_find [OF h that(1) ab(2)] wf eq by auto
  have merged: "pointer_place \<rho> a = pointer_place \<rho> x" if "x \<in> class_of g a \<union> class_of g b" for x
    using that pc_holds_class [OF h, of x a] pc_holds_class [OF h, of x b] eq by auto
  show ?thesis
    unfolding pc_holds_def
  proof (intro conjI allI impI)
    fix p q
    assume "q \<in> class_of ?h p"
    then show "pointer_place \<rho> p = pointer_place \<rho> q"
      using pc_holds_class [OF h, of q p] merged [of p] merged [of q]
      by (auto simp: class_of_union [OF wf ab ne] split: if_splits)
  next
    fix root s m p q
    assume s: "pc_unequal ?h root = Some s" and m: "m \<in> members s"
      and p: "pc_ids ?h p = Some root" and q: "pc_ids ?h q = Some m"
    have "\<exists>root' s'. pc_unequal g root' = Some s' \<and> m \<in> members s'
        \<and> (root' = root \<or> {root', root} = {find g i, find g j})"
      using ne
    proof (cases rule: union_roots_cases [of "find g i" "find g j" g, consumes 1, case_names c])
      case (c small large)
      have "wf_map (or_default (pc_unequal g large))"
        using wf_classesD(8) [OF wf, of large]
        by (auto simp: or_default_def wf_map_empty split: option.split)
      note kept = foldl_with_value [OF this]
      show ?thesis
      proof (cases "pc_unequal g small")
        case None
        then show ?thesis using s m c(4) by (auto simp: link_roots_def)
      next
        case (Some moved)
        show ?thesis
        proof (cases "root = large")
          case True
          then have "m \<in> members (or_default (pc_unequal g large)) \<or> m \<in> members moved"
            using s m c(2,4) Some kept by (auto simp: link_roots_def members_def)
          then show ?thesis
            using Some True c(1)
            by (auto simp: or_default_def split: option.splits)
        next
          case False
          then show ?thesis using s m c(4) Some by (auto simp: link_roots_def split: if_splits)
        qed
      qed
    qed
    then obtain root' s' where r': "pc_unequal g root' = Some s'" "m \<in> members s'"
      "root' = root \<or> {root', root} = {find g i, find g j}" by blast
    obtain p' where p': "pc_ids g p' = Some root'"
      using known_node [OF wf, of root'] wf_classesD(8) [OF wf r'(1)] by blast
    have "pointer_place \<rho> p' \<noteq> pointer_place \<rho> q"
      using pc_holds_unequal [OF h r'(1,2) p'] q by simp
    moreover have "pointer_place \<rho> p' = pointer_place \<rho> p"
    proof (cases "root' = root")
      case True
      then show ?thesis using p p' wf_classesD(1) [OF wf] by (metis option.inject union_ids)
    next
      case False
      then have "root' \<in> {find g i, find g j}" "root \<in> {find g i, find g j}"
        using r'(3) by (auto simp: doubleton_eq_iff)
      then show ?thesis using place [OF p'] place [of p root] p by simp
    qed
    ultimately show "pointer_place \<rho> p \<noteq> pointer_place \<rho> q" by simp
  qed
qed

lemma pc_assume_sound:
  assumes wf: "wf_classes g" and h: "pc_holds \<rho> g"
    and fact: "(pointer_place \<rho> a = pointer_place \<rho> b) = value"
  shows "fst (pc_assume g a b value) \<and> pc_holds \<rho> (snd (pc_assume g a b value))"
proof -
  obtain i j k where n: "named g a b = (i, j, k)" and wk: "wf_classes k"
    and ids: "pc_ids k a = Some i" "pc_ids k b = Some j"
    using namedE [OF wf, of a b] by metis
  have hk: "pc_holds \<rho> k" by (rule pc_holds_named [OF wf h n])
  have lt: "i < pc_next k" "j < pc_next k" using id_less [OF wk] ids by auto
  have same: "pointer_place \<rho> a = pointer_place \<rho> b" if "find k i = find k j"
    using pc_holds_find [OF hk ids that] .
  have apart: "pointer_place \<rho> a \<noteq> pointer_place \<rho> b" if "roots_unequal k (find k i) (find k j)"
    by (rule roots_unequal_sound [OF wk hk that ids])
  show ?thesis
  proof (cases "value")
    case True
    then show ?thesis
      using same apart fact hk pc_holds_union [OF wk hk ids]
      by (auto simp: pc_assume_named n Let_def)
  next
    case False
    then have ne: "pointer_place \<rho> a \<noteq> pointer_place \<rho> b" using fact by simp
    then have diff: "find k i \<noteq> find k j" using same by blast
    obtain p where p: "pc_ids k p = Some (find k i)"
      using known_node [OF wk find_less [OF wk lt(1)]] .
    obtain q where q: "pc_ids k q = Some (find k j)"
      using known_node [OF wk find_less [OF wk lt(2)]] .
    have pa: "pointer_place \<rho> p = pointer_place \<rho> a"
      by (rule pc_holds_find [OF hk p ids(1)]) (simp add: wk)
    have qb: "pointer_place \<rho> q = pointer_place \<rho> b"
      by (rule pc_holds_find [OF hk q ids(2)]) (simp add: wk)
    have h1: "pc_holds \<rho> (note_unequal k (find k i) j)"
      by (rule pc_holds_note_unequal [OF wk hk ids(2) p]) (simp add: pa ne)
    have w1: "wf_classes (note_unequal k (find k i) j)"
      by (rule wf_note_unequal [OF wk find_less [OF wk lt(1)] lt(2)])
    have "pc_holds \<rho> (note_unequal (note_unequal k (find k i) j) (find k j) i)"
    proof (rule pc_holds_note_unequal [OF w1 h1, of a i q])
      show "pointer_place \<rho> q \<noteq> pointer_place \<rho> a" using qb ne by simp
    qed (use ids q in simp_all)
    then show ?thesis using False diff by (simp add: pc_assume_named n)
  qed
qed

lemma pc_decide_sound:
  assumes "wf_classes g" "pc_holds \<rho> g" "pc_decide g a b = Some v"
  shows "(pointer_place \<rho> a = pointer_place \<rho> b) = v"
proof -
  obtain i j where ids: "pc_ids g a = Some i" "pc_ids g b = Some j"
    using assms(3) by (auto simp: pc_decide_def split: option.splits)
  then show ?thesis
    using assms(3) pc_holds_find [OF assms(2) ids] roots_unequal_sound [OF assms(1,2) _ ids]
    by (auto simp: pc_decide_def Let_def split: if_splits)
qed

text \<open>Pointers of one block are one place exactly when their offsets agree.\<close>

lemma same_block_place:
  assumes "pointer_block p = pointer_block q"
  shows "pointer_place \<rho> p = pointer_place \<rho> q \<longleftrightarrow>
    offset_value \<rho> (pointer_offset p) = offset_value \<rho> (pointer_offset q)"
  using assms by (cases p; cases q) (auto simp: case_prod_beta)

lemma decide_pairs_sound:
  assumes "wf_classes g" "pc_holds \<rho> g" "decide_pairs g pairs = Some v"
    and "\<forall>(l, r) \<in> set pairs. \<forall>p q. pc_terms g l = Some p \<longrightarrow> pc_terms g r = Some q \<longrightarrow>
      pointer_offset p = a \<and> pointer_offset q = b"
  shows "(offset_value \<rho> a = offset_value \<rho> b) = v"
  using assms(3,4)
proof (induction pairs)
  case (Cons lr pairs)
  obtain l r where lr: "lr = (l, r)" by (cases lr)
  obtain p q where t: "pc_terms g l = Some p" "pc_terms g r = Some q"
    using Cons.prems(1) lr by (auto split: option.splits)
  have offsets: "pointer_offset p = a" "pointer_offset q = b" using Cons.prems(2) lr t by auto
  show ?case
  proof (cases "pointer_block p = pointer_block q \<and> pc_decide g p q \<noteq> None")
    case True
    then have "pc_decide g p q = Some v" using Cons.prems(1) lr t by auto
    from pc_decide_sound [OF assms(1,2) this] True show ?thesis
      using same_block_place [of p q \<rho>] offsets by simp
  next
    case False
    then have "decide_pairs g pairs = Some v" using Cons.prems(1) lr t by (auto split: if_splits)
    then show ?thesis using Cons by simp
  qed
qed simp

lemma pc_decide_offsets_sound:
  assumes "wf_classes g" "pc_holds \<rho> g" "pc_decide_offsets g a b = Some v"
  shows "(offset_value \<rho> a = offset_value \<rho> b) = v"
proof -
  obtain s t where st: "pc_by_offset g a = Some s" "pc_by_offset g b = Some t"
    using assms(3) by (auto simp: pc_decide_offsets_def split: option.splits)
  let ?pairs = "take EDGE_LIMIT
    (concat (map (\<lambda>left. map (\<lambda>right. (left, right)) (set_values t)) (set_values s)))"
  have pairs: "decide_pairs g ?pairs = Some v"
    using assms(3) st by (simp add: pc_decide_offsets_def)
  show ?thesis
  proof (rule decide_pairs_sound [OF assms(1,2) pairs], clarify)
    fix l r p q
    assume lr: "(l, r) \<in> set ?pairs" and t: "pc_terms g l = Some p" "pc_terms g r = Some q"
    then have "l \<in> members s" "r \<in> members t"
      by (auto simp: members_def dest: in_set_takeD)
    then show "pointer_offset p = a \<and> pointer_offset q = b"
      using wf_classesD(9) [OF assms(1) st(1)] wf_classesD(9) [OF assms(1) st(2)] t by auto
  qed
qed

section \<open>Runs of facts\<close>

text \<open>
  The states the facts of a path lead to. A refused fact leaves the flag \<open>False\<close>.
\<close>

fun pc_assume_all ::
  "'x pointer_classes \<Rightarrow> ('x pointer \<times> 'x pointer \<times> bool) list \<Rightarrow> bool \<times> 'x pointer_classes" where
  "pc_assume_all g [] = (True, g)"
| "pc_assume_all g ((a, b, value) # facts) =
     (let (ok, g) = pc_assume g a b value; (rest, g) = pc_assume_all g facts in (ok \<and> rest, g))"

definition pointer_fact :: "'x valuation \<Rightarrow> 'x pointer \<times> 'x pointer \<times> bool \<Rightarrow> bool" where
  "pointer_fact \<rho> f = (case f of (a, b, value) \<Rightarrow> cond_value \<rho> (PointerEqual a b) = value)"

lemma wf_pc_assume_all: "wf_classes g \<Longrightarrow> wf_classes (snd (pc_assume_all g facts))"
proof (induction g facts rule: pc_assume_all.induct)
  case (2 g a b v facts)
  obtain ok h where step: "pc_assume g a b v = (ok, h)" by (cases "pc_assume g a b v")
  then show ?case
    using "2.IH" [OF step [symmetric] refl] wf_pc_assume [OF "2.prems", of a b v]
    by (simp add: case_prod_beta)
qed simp

lemma pc_assume_all_sound:
  "wf_classes g \<Longrightarrow> pc_holds \<rho> g \<Longrightarrow> \<forall>f \<in> set facts. pointer_fact \<rho> f \<Longrightarrow>
   fst (pc_assume_all g facts) \<and> pc_holds \<rho> (snd (pc_assume_all g facts))"
proof (induction g facts rule: pc_assume_all.induct)
  case (2 g a b v facts)
  have "(pointer_place \<rho> a = pointer_place \<rho> b) = v" using "2.prems"(3) by (simp add: pointer_fact_def)
  note sound = pc_assume_sound [OF "2.prems"(1,2) this]
  obtain ok h where step: "pc_assume g a b v = (ok, h)" by (cases "pc_assume g a b v")
  show ?case
    using "2.IH" [OF step [symmetric] refl] wf_pc_assume [OF "2.prems"(1), of a b v] "2.prems"(3)
      sound step by (simp add: case_prod_beta)
qed simp

text \<open>C35: Whatever the facts recorded so far, a valuation under which they all hold is never
  refuted, and every answer the pointer classes give, for two pointers or for two offsets, is
  the truth under it. (A refusal therefore means that no valuation satisfies the facts.)\<close>

theorem pointer_answers_sound:
  assumes "\<forall>f \<in> set facts. pointer_fact \<rho> f" and "pc_assume_all pc_empty facts = (ok, g)"
  shows "ok \<and> (\<forall>v \<in> set_option (pc_decide g a b). cond_value \<rho> (PointerEqual a b) = v)
    \<and> (\<forall>v \<in> set_option (pc_decide_offsets g x y). cond_value \<rho> (PointerOffsetEqual x y) = v)"
proof -
  have wf: "wf_classes g" using wf_pc_assume_all [OF wf_pc_empty, of facts] assms(2) by simp
  have h: "ok \<and> pc_holds \<rho> g"
    using pc_assume_all_sound [OF wf_pc_empty pc_holds_empty assms(1)] assms(2) by simp
  then show ?thesis
    using pc_decide_sound [OF wf, of \<rho> a b] pc_decide_offsets_sound [OF wf, of \<rho> x y] by auto
qed

text \<open>C36: Recording a true equality merges exactly the two classes of the partition the
  union-find stands for; recording a disequality, or a fact it already has, leaves the
  partition as it is; and the representation invariant is kept.\<close>

theorem assume_refines_partition:
  assumes "wf_classes g" and "pc_assume g a b value = (True, h)"
  shows "wf_classes h \<and> class_of h p =
    (if value \<and> p \<in> class_of g a \<union> class_of g b then class_of g a \<union> class_of g b
     else class_of g p)"
proof -
  obtain i j k where n: "named g a b = (i, j, k)" and wk: "wf_classes k"
    and ids: "pc_ids k a = Some i" "pc_ids k b = Some j"
    using namedE [OF assms(1), of a b] by metis
  note old = class_of_named [OF assms(1) n]
  have "class_of h p =
    (if value \<and> p \<in> class_of k a \<union> class_of k b then class_of k a \<union> class_of k b
     else class_of k p)"
  proof (cases "find k i = find k j")
    case True
    then have "class_of k a = class_of k b" using ids by (simp add: class_of_def)
    moreover have "p \<in> class_of k a \<Longrightarrow> class_of k p = class_of k a"
      using ids by (auto simp: class_of_def)
    moreover have "h = k" "value"
      using assms(2) True by (auto simp: pc_assume_named n split: if_splits)
    ultimately show ?thesis by simp
  next
    case False
    show ?thesis
    proof (cases "value")
      case True
      then have "h = union_roots k (find k i) (find k j)"
        using assms(2) False by (auto simp: pc_assume_named n split: if_splits)
      then show ?thesis using class_of_union [OF wk ids False, of p] True by simp
    next
      case no: False
      then have "h = note_unequal (note_unequal k (find k i) j) (find k j) i"
        using assms(2) False by (simp add: pc_assume_named n)
      then show ?thesis using no by simp
    qed
  qed
  then show ?thesis
    using wf_pc_assume [OF assms(1), of a b "value"] assms(2) by (auto simp: old)
qed

text \<open>C37: The walk to a class root ends, at a root, and follows at most the binary
  logarithm of the number of pointers recorded.\<close>

theorem find_logarithmic:
  assumes "wf_classes g" and "i < pc_next g"
  shows "find_loop g i = Some (find g i) \<and> pc_parent g (find g i) = None
    \<and> (\<exists>n. find g i = ((\<lambda>i. the (pc_parent g i)) ^^ n) i \<and> 2 ^ n \<le> pc_next g)"
proof -
  have "\<exists>n. find g i = ((\<lambda>i. the (pc_parent g i)) ^^ n) i
      \<and> 2 ^ n * class_size g i \<le> class_size g (find g i)"
    using assms(1)
  proof (induction i rule: parent_induct)
    case (root i)
    then show ?case by (intro exI [of _ 0]) simp
  next
    case (child i j)
    then obtain n where n: "find g j = ((\<lambda>i. the (pc_parent g i)) ^^ n) j"
      "2 ^ n * class_size g j \<le> class_size g (find g j)" by blast
    have "2 * class_size g i \<le> class_size g j" using wf_classesD(3) [OF assms(1) child(1)] by simp
    then have "2 ^ n * (2 * class_size g i) \<le> 2 ^ n * class_size g j" by (rule mult_le_mono2)
    then have "2 ^ n * (2 * class_size g i) \<le> class_size g (find g i)"
      using n(2) child(1) by (simp only: find_parent)
    then have "2 ^ Suc n * class_size g i \<le> class_size g (find g i)" by simp
    moreover have "find g i = ((\<lambda>i. the (pc_parent g i)) ^^ Suc n) i"
      using n(1) child(1) by (simp add: find_parent funpow_Suc_right del: funpow.simps)
    ultimately show ?case by blast
  qed
  then obtain n where n: "find g i = ((\<lambda>i. the (pc_parent g i)) ^^ n) i"
    "2 ^ n * class_size g i \<le> class_size g (find g i)" by blast
  have "2 ^ n * 1 \<le> 2 ^ n * class_size g i"
    using wf_classesD(4) [OF assms(1), of i] by (intro mult_left_mono) auto
  then have "2 ^ n \<le> class_size g (find g i)" using n(2) by linarith
  also have "\<dots> \<le> pc_next g" by (rule wf_classesD(6) [OF assms(1) find_less [OF assms]])
  finally show ?thesis
    using n(1) find_terminates [OF assms(1)] parent_find [OF assms(1)] by blast
qed

section \<open>Witnesses\<close>

text \<open>Three pointers \<open>p = q\<close> and \<open>q \<noteq> r\<close>.\<close>

abbreviation sample_pointer :: "nat \<Rightarrow> nat pointer" where
  "sample_pointer n \<equiv> Pointer (Heap n) (Off_Constant 0)"

definition sample_facts :: "(nat pointer \<times> nat pointer \<times> bool) list" where
  "sample_facts = [(sample_pointer 0, sample_pointer 1, True), (sample_pointer 1, sample_pointer 2, False)]"

definition sample_valuation :: "nat valuation" where
  "sample_valuation = \<lparr>val_term = \<lambda>_. 0, val_cond = \<lambda>_. False,
     val_block = \<lambda>b. case b of Heap n \<Rightarrow> (n div 2, 0) | _ \<Rightarrow> (0, 0),
     val_object = \<lambda>_. 0, val_offset = \<lambda>_. 0, val_designation = \<lambda>_ _. True\<rparr>"

definition sample_classes :: "nat pointer_classes" where
  "sample_classes = snd (pc_assume_all pc_empty sample_facts)"

lemmas pc_compute = pc_assume_def pc_id_def pc_empty_def Let_def find_step find_root class_size_def
  union_roots_def note_unequal_def roots_unequal_def or_default_def with_value_def set_values_def
  pc_decide_def

lemma sample_run:
  "fst (pc_assume_all pc_empty sample_facts)"
  "pc_decide sample_classes (sample_pointer 0) (sample_pointer 2) = Some False"
  "pc_decide sample_classes (sample_pointer 0) (sample_pointer 1) = Some True"
  "pc_next sample_classes = 3"
  by (simp_all add: sample_classes_def sample_facts_def pc_compute with_inserted_def map_empty_def
      EDGE_LIMIT_def make_node_def balance_node_def)

theorem pointer_answers_sound_witness:
  "cond_value sample_valuation (PointerEqual (sample_pointer 0) (sample_pointer 2)) = False"
proof -
  have "\<forall>f \<in> set sample_facts. pointer_fact sample_valuation f"
    by (simp add: sample_facts_def pointer_fact_def sample_valuation_def)
  from pointer_answers_sound [OF this surjective_pairing, of "sample_pointer 0" "sample_pointer 2"]
  show ?thesis using sample_run(2) unfolding sample_classes_def by auto
qed

theorem assume_refines_partition_witness:
  "class_of (snd (pc_assume pc_empty (sample_pointer 0) (sample_pointer 1) True)) (sample_pointer 1)
   = {sample_pointer 0, sample_pointer 1}"
proof -
  let ?r = "pc_assume pc_empty (sample_pointer 0) (sample_pointer 1) True"
  have "?r = (True, snd ?r)"
    using sample_run(1) by (auto simp: sample_facts_def Let_def case_prod_beta prod_eq_iff)
  from assume_refines_partition [OF wf_pc_empty this, of "sample_pointer 1"] show ?thesis
    by (auto simp: class_of_unknown pc_ids_empty)
qed

theorem find_logarithmic_witness:
  "\<exists>n. find sample_classes 0 = ((\<lambda>i. the (pc_parent sample_classes i)) ^^ n) 0 \<and> (2::nat) ^ n \<le> 3"
proof -
  have "wf_classes sample_classes"
    unfolding sample_classes_def by (rule wf_pc_assume_all [OF wf_pc_empty])
  from find_logarithmic [OF this, of 0] show ?thesis by (simp add: sample_run(4))
qed

end
