(* ===== verification/Residues.thy ===== *)
theory Residues
  imports PointerClasses
begin

unbundle bit_operations_syntax

text \<open>
  Known low bits of 64-bit values: \<^verbatim>\<open>Residues\<close> of
  \<^verbatim>\<open>src/src/kernel/difference_graph.rs\<close>. A persistent set of terms is kept in
  the derived order of the terms, which the argument \<open>below\<close> stands for; the set is
  modelled as its list in that order.
\<close>

section \<open>Residues\<close>

record residue =
  res_bits :: nat
  res_value :: "64 word"

definition low_mask :: "nat \<Rightarrow> 64 word" where
  "low_mask bits = (if bits \<ge> 64 then - 1 else push_bit bits 1 - 1)"

definition residue_new :: "nat \<Rightarrow> 64 word \<Rightarrow> residue" where
  "residue_new bits v =
     (let bits = min bits 64 in \<lparr>res_bits = bits, res_value = v AND low_mask bits\<rparr>)"

definition residue_exact :: "64 word \<Rightarrow> residue" where
  "residue_exact v = residue_new 64 v"

definition residue_combine ::
  "residue \<Rightarrow> residue \<Rightarrow> (64 word \<Rightarrow> 64 word \<Rightarrow> 64 word) \<Rightarrow> residue" where
  "residue_combine a b f = residue_new (min (res_bits a) (res_bits b)) (f (res_value a) (res_value b))"

definition residue_better :: "residue option \<Rightarrow> residue option \<Rightarrow> residue option" where
  "residue_better a b =
     (case (a, b) of
        (Some a, Some b) \<Rightarrow> Some (if res_bits b > res_bits a then b else a)
      | (None, b) \<Rightarrow> b
      | (a, None) \<Rightarrow> a)"

definition constant64 :: "'x bv \<Rightarrow> 64 word option" where
  "constant64 t = (case t of UInt64Constant w \<Rightarrow> Some w | Int64Constant w \<Rightarrow> Some w | _ \<Rightarrow> None)"

text \<open>\<open>u64::leading_zeros\<close> and \<open>trailing_zeros\<close>.\<close>

definition leading_zeros :: "64 word \<Rightarrow> nat" where
  "leading_zeros w = 64 - nat_bits (unat w)"

fun nat_trailing_zeros :: "nat \<Rightarrow> nat" where
  "nat_trailing_zeros n =
     (if n = 0 \<or> odd n then 0 else Suc (nat_trailing_zeros (n div 2)))"

declare nat_trailing_zeros.simps [simp del]

definition trailing_zeros :: "64 word \<Rightarrow> nat" where
  "trailing_zeros w = (if w = 0 then 64 else nat_trailing_zeros (unat w))"

section \<open>State\<close>

record 'x residues =
  res_known :: "'x bv \<Rightarrow> residue option"
  res_equal_to :: "'x bv \<Rightarrow> 'x bv list option"

definition residues_empty :: "'x residues" where
  "residues_empty = \<lparr>res_known = Map.empty, res_equal_to = Map.empty\<rparr>"

definition RESIDUE_DEPTH :: nat where
  "RESIDUE_DEPTH = 6"

fun insert_ordered :: "('a \<Rightarrow> 'a \<Rightarrow> bool) \<Rightarrow> 'a \<Rightarrow> 'a list \<Rightarrow> 'a list" where
  "insert_ordered below x [] = [x]"
| "insert_ordered below x (y # ys) =
     (if x = y then y # ys
      else if below x y then x # y # ys
      else y # insert_ordered below x ys)"

definition mask_fact :: "'x bv \<Rightarrow> 'x bv \<Rightarrow> ('x bv \<times> residue) option" where
  "mask_fact side other =
     (case side of
        Binary op x m \<Rightarrow>
          if op = Op_UInt64BitwiseAnd \<or> op = Op_Int64BitwiseAnd then
            (case (constant64 m, constant64 other) of
               (Some bits, Some c) \<Rightarrow>
                 if bits \<noteq> 0 \<and> bits AND (bits + 1) = 0 \<and> c AND NOT bits = 0
                 then Some (x, residue_new (64 - leading_zeros bits) c)
                 else None
             | _ \<Rightarrow> None)
          else None
      | _ \<Rightarrow> None)"

definition assume_side ::
  "('x bv \<Rightarrow> 'x bv \<Rightarrow> bool) \<Rightarrow> 'x bv \<Rightarrow> 'x bv \<Rightarrow> 'x residues \<Rightarrow> 'x residues" where
  "assume_side below side other r =
     (let r = (case mask_fact side other of
                 None \<Rightarrow> r
               | Some (x, known) \<Rightarrow> r\<lparr>res_known := (res_known r)(x \<mapsto> known)\<rparr>)
      in if constant64 side = None then
           (let known = (case res_equal_to r side of None \<Rightarrow> [] | Some xs \<Rightarrow> xs)
            in if length known < EDGE_LIMIT then
                 r\<lparr>res_equal_to := (res_equal_to r)(side \<mapsto> insert_ordered below other known)\<rparr>
               else r)
         else r)"

definition residues_assume_equal ::
  "('x bv \<Rightarrow> 'x bv \<Rightarrow> bool) \<Rightarrow> 'x residues \<Rightarrow> 'x bv \<Rightarrow> 'x bv \<Rightarrow> 'x residues" where
  "residues_assume_equal below r a b = assume_side below b a (assume_side below a b r)"

section \<open>Queries\<close>

fun offset_residue :: "'x offset \<Rightarrow> residue option" where
  "offset_residue (Off_Constant bytes) = Some (residue_exact bytes)"
| "offset_residue (Int32Scaled t width) =
     (case t of
        Constant index \<Rightarrow> Some (residue_exact (scast index * width))
      | _ \<Rightarrow> if width \<noteq> 0 then Some (residue_new (trailing_zeros width) 0) else None)"
| "offset_residue (Int64Scaled t width u) =
     (if width \<noteq> 0 then Some (residue_new (trailing_zeros width) 0) else None)"
| "offset_residue (Off_Add a b) =
     (case (offset_residue a, offset_residue b) of
        (Some a, Some b) \<Rightarrow> Some (residue_combine a b (+))
      | _ \<Rightarrow> None)"
| "offset_residue (Off_Variable x) = None"

definition combine_both ::
  "residue option \<Rightarrow> residue option \<Rightarrow> (64 word \<Rightarrow> 64 word \<Rightarrow> 64 word) \<Rightarrow> residue option" where
  "combine_both a b f =
     (case (a, b) of (Some a, Some b) \<Rightarrow> Some (residue_combine a b f) | _ \<Rightarrow> None)"

text \<open>The address of a pointer whose offset is a sum, through the address of a summand's.\<close>

definition address_residue ::
  "('x bv \<Rightarrow> residue option) \<Rightarrow> 'x pointer \<Rightarrow> residue option" where
  "address_residue residue pointer =
     (case pointer_offset pointer of
        Off_Add left right \<Rightarrow>
          (let found = \<lambda>base offset.
                 combine_both (residue (PointerAddress (Pointer (pointer_block pointer) base)))
                   (offset_residue offset) (+)
           in residue_better (residue_better None (found left right)) (found right left))
      | _ \<Rightarrow> None)"

definition masked_residue :: "binary_operator \<Rightarrow> 64 word \<Rightarrow> residue option \<Rightarrow> residue option" where
  "masked_residue op c x =
     (if op = Op_UInt64BitwiseAnd \<or> op = Op_Int64BitwiseAnd then
        (let cleared = residue_new (trailing_zeros c) 0;
             known = map_option (\<lambda>x.
               if c AND NOT (low_mask (res_bits x)) = 0 then residue_exact (res_value x AND c)
               else residue_new (res_bits x) (res_value x AND c)) x
         in residue_better known (if res_bits cleared > 0 then Some cleared else None))
      else if op = Op_UInt64BitwiseOr \<or> op = Op_Int64BitwiseOr then
        map_option (\<lambda>x. residue_new (res_bits x) (res_value x OR c)) x
      else map_option (\<lambda>x. residue_new (res_bits x) (res_value x XOR c)) x)"

definition structural_residue :: "('x bv \<Rightarrow> residue option) \<Rightarrow> 'x bv \<Rightarrow> residue option" where
  "structural_residue residue t =
     (case t of
        Binary op a b \<Rightarrow>
          if op = Op_UInt64Add \<or> op = Op_Int64Add then combine_both (residue a) (residue b) (+)
          else if op = Op_UInt64Subtract \<or> op = Op_Int64Subtract then
            combine_both (residue a) (residue b) (-)
          else if op \<in> {Op_UInt64BitwiseAnd, Op_Int64BitwiseAnd, Op_UInt64BitwiseOr,
                        Op_Int64BitwiseOr, Op_UInt64BitwiseXor, Op_Int64BitwiseXor} then
            (case (constant64 a, constant64 b) of
               (_, Some c) \<Rightarrow> masked_residue op c (residue a)
             | (Some c, _) \<Rightarrow> masked_residue op c (residue b)
             | _ \<Rightarrow> None)
          else None
      | PointerAddress pointer \<Rightarrow> address_residue residue pointer
      | _ \<Rightarrow> None)"

fun term_residue :: "nat \<Rightarrow> 'x residues \<Rightarrow> 'x bv \<Rightarrow> residue option" where
  "term_residue 0 r t =
     (case constant64 t of Some v \<Rightarrow> Some (residue_exact v) | None \<Rightarrow> res_known r t)"
| "term_residue (Suc depth) r t =
     (case constant64 t of
        Some v \<Rightarrow> Some (residue_exact v)
      | None \<Rightarrow>
          (let equal = (case res_equal_to r t of None \<Rightarrow> [] | Some xs \<Rightarrow> take EDGE_LIMIT xs);
               best = foldl (\<lambda>best other. residue_better best (term_residue depth r other))
                        (res_known r t) equal
           in residue_better best (structural_residue (term_residue depth r) t)))"

definition residues_decide_equal :: "'x residues \<Rightarrow> 'x bv \<Rightarrow> 'x bv \<Rightarrow> bool option" where
  "residues_decide_equal r a b =
     (case (term_residue RESIDUE_DEPTH r a, term_residue RESIDUE_DEPTH r b) of
        (Some a, Some b) \<Rightarrow>
          (if (res_value a XOR res_value b) AND low_mask (min (res_bits a) (res_bits b)) \<noteq> 0
           then Some False
           else if res_bits a = 64 \<and> res_bits b = 64 then Some True
           else None)
      | _ \<Rightarrow> None)"

section \<open>Soundness\<close>

definition residue_of :: "64 word \<Rightarrow> residue \<Rightarrow> bool" where
  "residue_of w x \<longleftrightarrow> res_bits x \<le> 64 \<and> res_value x = take_bit (res_bits x) w"

lemma low_mask_eq: "low_mask n = mask n"
proof (cases "n \<ge> 64")
  case True
  then show ?thesis by (intro bit_word_eqI) (auto simp: low_mask_def bit_simps)
next
  case False
  then show ?thesis by (simp add: low_mask_def mask_eq_exp_minus_1 push_bit_eq_mult)
qed

lemma residue_new_of: "residue_of w (residue_new n v) \<longleftrightarrow> take_bit (min n 64) v = take_bit (min n 64) w"
  by (auto simp: residue_of_def residue_new_def Let_def low_mask_eq take_bit_eq_mask)

lemma residue_exact_of: "residue_of w (residue_exact v) \<longleftrightarrow> v = w"
  by (simp add: residue_exact_def residue_new_of take_bit_word_eq_self)

lemma take_bit_le: "m \<le> n \<Longrightarrow> take_bit n v = take_bit n w \<Longrightarrow> take_bit m v = take_bit m w"
  for v w :: "64 word"
proof -
  assume "m \<le> n" and eq: "take_bit n v = take_bit n w"
  then have "take_bit m x = take_bit m (take_bit n x)" for x :: "64 word" by (simp add: min_def)
  then show "take_bit m v = take_bit m w" using eq by metis
qed

lemma residue_ofD: "residue_of w x \<Longrightarrow> m \<le> res_bits x \<Longrightarrow> take_bit m (res_value x) = take_bit m w"
  by (simp add: residue_of_def min_def)

lemma residue_of_bits: "residue_of w x \<Longrightarrow> res_bits x \<le> 64"
  by (simp add: residue_of_def)

text \<open>An operation whose low bits depend on the low bits of its operands.\<close>

definition low_bits_op :: "(64 word \<Rightarrow> 64 word \<Rightarrow> 64 word) \<Rightarrow> bool" where
  "low_bits_op f \<longleftrightarrow> (\<forall>n a b a' b'. take_bit n a = take_bit n a' \<longrightarrow> take_bit n b = take_bit n b' \<longrightarrow>
     take_bit n (f a b) = take_bit n (f a' b'))"

lemma low_bits_opI:
  assumes "\<And>n a b. take_bit n (f (take_bit n a) (take_bit n b)) = take_bit n (f a b)"
  shows "low_bits_op f"
  unfolding low_bits_op_def
proof (intro allI impI)
  fix n and a b a' b' :: "64 word"
  assume eq: "take_bit n a = take_bit n a'" "take_bit n b = take_bit n b'"
  show "take_bit n (f a b) = take_bit n (f a' b')"
    using assms [of n a b] assms [of n a' b'] unfolding eq by (rule trans [OF sym])
qed

lemma low_bits_opD:
  "low_bits_op f \<Longrightarrow> take_bit n a = take_bit n a' \<Longrightarrow> take_bit n b = take_bit n b' \<Longrightarrow>
   take_bit n (f a b) = take_bit n (f a' b')"
  unfolding low_bits_op_def by blast

lemma uint_take_bit_64: "uint (take_bit n w) = take_bit (min n 64) (uint w)" for w :: "64 word"
  by (simp add: unsigned_take_bit_eq min_def bintr_uint)

lemma low_bits_add: "low_bits_op (+)"
proof (rule low_bits_opI)
  fix n and a b :: "64 word"
  have "uint (x + y) = take_bit 64 (uint x + uint y)" for x y :: "64 word"
    by (simp add: uint_word_ariths take_bit_eq_mod)
  then show "take_bit n (take_bit n a + take_bit n b) = take_bit n (a + b)"
    by (intro word_uint_eqI) (simp add: uint_take_bit_64 take_bit_add)
qed

lemma low_bits_times: "low_bits_op (*)"
proof (rule low_bits_opI)
  fix n and a b :: "64 word"
  have "uint (x * y) = take_bit 64 (uint x * uint y)" for x y :: "64 word"
    by (simp add: uint_word_ariths take_bit_eq_mod)
  then show "take_bit n (take_bit n a * take_bit n b) = take_bit n (a * b)"
    by (intro word_uint_eqI) (simp add: uint_take_bit_64 take_bit_mult)
qed

lemma low_bits_minus: "low_bits_op (-)"
  unfolding low_bits_op_def
proof (intro allI impI)
  fix n and a b a' b' :: "64 word"
  assume "take_bit n a = take_bit n a'" "take_bit n b = take_bit n b'"
  then have "take_bit n (a + b * (- 1)) = take_bit n (a' + b' * (- 1))"
    by (intro low_bits_opD [OF low_bits_add] low_bits_opD [OF low_bits_times] refl)
  then show "take_bit n (a - b) = take_bit n (a' - b')" by simp
qed

lemma low_bits_bitwise: "low_bits_op (AND)" "low_bits_op (OR)" "low_bits_op (XOR)"
proof -
  show "low_bits_op (AND)" by (rule low_bits_opI) simp
  show "low_bits_op (OR)" by (rule low_bits_opI) simp
  show "low_bits_op (XOR)" by (rule low_bits_opI) simp
qed

lemmas low_bits_ops = low_bits_add low_bits_minus low_bits_bitwise low_bits_times

lemma residue_combine_of:
  assumes "residue_of v a" "residue_of w b" "low_bits_op f"
  shows "residue_of (f v w) (residue_combine a b f)"
  using low_bits_opD [OF assms(3) residue_ofD [OF assms(1)] residue_ofD [OF assms(2)]]
  by (simp add: residue_combine_def residue_new_of)

definition residue_opt_of :: "64 word \<Rightarrow> residue option \<Rightarrow> bool" where
  "residue_opt_of w x \<longleftrightarrow> (\<forall>r. x = Some r \<longrightarrow> residue_of w r)"

lemma residue_opt_of_simps [simp]: "residue_opt_of w None" "residue_opt_of w (Some r) \<longleftrightarrow> residue_of w r"
  by (simp_all add: residue_opt_of_def)

lemma residue_better_of [sound_intros]:
  "residue_opt_of w a \<Longrightarrow> residue_opt_of w b \<Longrightarrow> residue_opt_of w (residue_better a b)"
  by (auto simp: residue_better_def split: option.split)

lemma combine_both_of [sound_intros]:
  "residue_opt_of v a \<Longrightarrow> residue_opt_of w b \<Longrightarrow> low_bits_op f \<Longrightarrow> residue_opt_of (f v w) (combine_both a b f)"
  by (auto simp: combine_both_def residue_combine_of split: option.split)

lemma foldl_better_of:
  "residue_opt_of w best \<Longrightarrow> \<forall>x \<in> set xs. residue_opt_of w (f x) \<Longrightarrow>
   residue_opt_of w (foldl (\<lambda>best x. residue_better best (f x)) best xs)"
  by (induction xs arbitrary: best) (auto intro: residue_better_of)

lemma constant64_sound: "constant64 t = Some w \<Longrightarrow> low64 (bv_value \<rho> t) = w"
  by (cases t) (auto simp: constant64_def)

lemma nat_trailing_zeros_dvd: "2 ^ nat_trailing_zeros n dvd n"
proof (induction n rule: nat_trailing_zeros.induct)
  case (1 n)
  show ?case
  proof (cases "n = 0 \<or> odd n")
    case True
    then show ?thesis by (simp add: nat_trailing_zeros.simps [of n])
  next
    case False
    then have "2 * 2 ^ nat_trailing_zeros (n div 2) dvd 2 * (n div 2)"
      using 1 by (intro mult_dvd_mono) auto
    also have "2 * (n div 2) = n" using False by simp
    finally show ?thesis using False by (simp add: nat_trailing_zeros.simps [of n])
  qed
qed

lemma take_bit_trailing_zeros: "take_bit (min (trailing_zeros w) 64) w = 0"
proof (cases "w = 0")
  case False
  then have "2 ^ trailing_zeros w dvd unat w"
    using nat_trailing_zeros_dvd by (simp add: trailing_zeros_def)
  then have "take_bit (trailing_zeros w) (unat w) = 0" by (simp add: take_bit_eq_mod)
  then have "unat (take_bit (trailing_zeros w) w) = 0"
    by (simp add: unsigned_take_bit_eq)
  then have "take_bit (trailing_zeros w) w = 0" by (simp only: unat_eq_zero)
  then show ?thesis by (metis min.cobounded1 take_bit_le take_bit_of_0)
qed simp

text \<open>A word whose successor shares no bit with it is a mask.\<close>

lemma top_bit: "2 ^ k \<le> n \<Longrightarrow> n < 2 ^ Suc k \<Longrightarrow> bit n k" for n :: nat
proof -
  assume "2 ^ k \<le> n" "n < 2 ^ Suc k"
  then have "n div 2 ^ k = 1" by (intro div_nat_eqI) simp_all
  then show ?thesis by (simp add: bit_iff_odd)
qed

lemma mask_word:
  fixes w :: "64 word"
  assumes "w \<noteq> 0" "w AND (w + 1) = 0"
  shows "w = mask (nat_bits (unat w))" "nat_bits (unat w) \<le> 64"
proof -
  have lt: "unat w < 2 ^ 64" using unsigned_less [of w] by simp
  let ?k = "nat_bits (unat w)"
  show k64: "?k \<le> 64" using lt nat_bits_le_iff [of "unat w" 64] by simp
  have "unat w \<noteq> 0" using assms(1) unat_eq_zero by blast
  then have "\<not> ?k \<le> ?k - 1" using nat_bits_le_iff [of "unat w" 0] by (cases "?k = 0") auto
  then have low: "2 ^ (?k - 1) \<le> unat w" and pos: "0 < ?k"
    using nat_bits_le_iff [of "unat w" "?k - 1"] by auto
  have high: "unat w < 2 ^ ?k" using nat_bits_le_iff [of "unat w" ?k] by simp
  have suc: "Suc (?k - 1) = ?k" using pos by simp
  have "unat w = 2 ^ ?k - 1"
  proof (rule ccontr)
    assume "unat w \<noteq> 2 ^ ?k - 1"
    then have less: "unat w + 1 < 2 ^ ?k" using high by linarith
    moreover have "(2::nat) ^ ?k \<le> 2 ^ 64" using k64 by (rule power_increasing) simp
    ultimately have "unat (w + 1) = unat w + 1" by (simp add: unat_word_ariths)
    then have "bit (unat (w + 1)) (?k - 1)"
      using less low suc by (intro top_bit) simp_all
    moreover have "bit (unat w) (?k - 1)" using low high suc by (intro top_bit) simp_all
    ultimately have "bit (w AND (w + 1)) (?k - 1)" by (simp add: bit_simps)
    then show False using assms(2) by simp
  qed
  moreover have "w = of_nat (unat w)" by simp
  ultimately have "w = of_nat (2 ^ ?k - 1)" by metis
  also have "\<dots> = mask ?k" by (simp add: mask_eq_exp_minus_1 of_nat_diff)
  finally show "w = mask ?k" .
qed

lemma mask_fact_sound:
  assumes "mask_fact side other = Some (x, known)" "low64 (bv_value \<rho> side) = low64 (bv_value \<rho> other)"
  shows "residue_of (low64 (bv_value \<rho> x)) known"
proof -
  obtain op m where side: "side = Binary op x m" and op: "op = Op_UInt64BitwiseAnd \<or> op = Op_Int64BitwiseAnd"
    using assms(1) by (cases side) (auto simp: mask_fact_def split: if_splits option.splits)
  obtain bits c where c: "constant64 m = Some bits" "constant64 other = Some c"
    and mask: "bits \<noteq> 0" "bits AND (bits + 1) = 0" "c AND NOT bits = 0"
    and known: "known = residue_new (64 - leading_zeros bits) c"
    using assms(1) op by (auto simp: mask_fact_def side split: option.splits if_splits)
  have k: "64 - leading_zeros bits = nat_bits (unat bits)" "nat_bits (unat bits) \<le> 64"
    using mask_word [OF mask(1,2)] by (simp_all add: leading_zeros_def)
  have "low64 (bv_value \<rho> side) = low64 (bv_value \<rho> x) AND bits"
    using op constant64_sound [OF c(1), of \<rho>] by (auto simp: side binary32_def binary64_def)
  then have "low64 (bv_value \<rho> x) AND bits = c"
    using assms(2) constant64_sound [OF c(2), of \<rho>] by simp
  then have "c = take_bit (nat_bits (unat bits)) (low64 (bv_value \<rho> x))"
    using mask_word(1) [OF mask(1,2)] by (metis take_bit_eq_mask)
  then show ?thesis using k by (simp add: known residue_new_of)
qed

text \<open>A state is right about a valuation.\<close>

definition residues_hold :: "'x valuation \<Rightarrow> 'x residues \<Rightarrow> bool" where
  "residues_hold \<rho> r \<longleftrightarrow>
     (\<forall>t x. res_known r t = Some x \<longrightarrow> residue_of (low64 (bv_value \<rho> t)) x)
     \<and> (\<forall>t xs u. res_equal_to r t = Some xs \<longrightarrow> u \<in> set xs \<longrightarrow>
          low64 (bv_value \<rho> t) = low64 (bv_value \<rho> u))"

lemma residues_hold_empty: "residues_hold \<rho> residues_empty"
  by (simp add: residues_hold_def residues_empty_def)

lemma set_insert_ordered: "set (insert_ordered below x xs) = insert x (set xs)"
  by (induction xs) auto

lemma assume_side_sound:
  assumes "residues_hold \<rho> r" "low64 (bv_value \<rho> side) = low64 (bv_value \<rho> other)"
  shows "residues_hold \<rho> (assume_side below side other r)"
proof -
  let ?r = "case mask_fact side other of
      None \<Rightarrow> r | Some (x, known) \<Rightarrow> r\<lparr>res_known := (res_known r)(x \<mapsto> known)\<rparr>"
  have h: "residues_hold \<rho> ?r"
    using assms(1) mask_fact_sound [OF _ assms(2)]
    by (auto simp: residues_hold_def split: option.split)
  then show ?thesis
    using assms(2)
    by (auto simp: assume_side_def Let_def residues_hold_def set_insert_ordered split: option.splits)
qed

lemma residues_assume_equal_sound:
  assumes "residues_hold \<rho> r" "cond_value \<rho> (Bitvector64Equal a b)"
  shows "residues_hold \<rho> (residues_assume_equal below r a b)"
  using assms by (simp add: residues_assume_equal_def assume_side_sound compare_value_def)

text \<open>Offsets and addresses.\<close>

lemma low_bits_zero:
  "take_bit (min (trailing_zeros c) 64) (w * c) = 0"
  "take_bit (min (trailing_zeros c) 64) (w AND c) = 0"
proof -
  let ?n = "min (trailing_zeros c) 64"
  have c: "take_bit ?n c = take_bit ?n 0" using take_bit_trailing_zeros [of c] by simp
  have "take_bit ?n (w * c) = take_bit ?n (w * 0)"
    by (rule low_bits_opD [OF low_bits_times refl c])
  then show "take_bit ?n (w * c) = 0" by simp
  have "take_bit ?n (w AND c) = take_bit ?n (w AND 0)"
    by (rule low_bits_opD [OF low_bits_bitwise(1) refl c])
  then show "take_bit ?n (w AND c) = 0" by simp
qed

lemma trailing_zeros_of: "residue_of (w * width) (residue_new (trailing_zeros width) 0)"
  using low_bits_zero(1) by (simp add: residue_new_of)

lemma word_of_scaled: "(word_of_int (sint x * sint w) :: 64 word) = scast x * w" for x :: "32 word"
proof -
  have "(word_of_int (sint x * sint w) :: 64 word) = word_of_int (sint x) * word_of_int (sint w)"
    by (rule of_int_mult)
  also have "\<dots> = scast x * w" by simp
  finally show ?thesis .
qed

lemma offset_residue_sound:
  "residue_opt_of (word_of_int (offset_value \<rho> off)) (offset_residue off)"
proof (induction off rule: offset_residue.induct)
  case (2 t width)
  have v: "word_of_int (offset_value \<rho> (Int32Scaled t width))
      = (scast (low32 (bv_value \<rho> t)) :: 64 word) * width"
    by (simp only: offset_value.simps word_of_scaled)
  show ?case
  proof (cases "\<exists>index. t = Constant index")
    case True
    then show ?thesis unfolding v by (auto simp: residue_exact_of)
  next
    case False
    then have "offset_residue (Int32Scaled t width)
        = (if width \<noteq> 0 then Some (residue_new (trailing_zeros width) 0) else None)"
      by (cases t) simp_all
    then show ?thesis unfolding v using trailing_zeros_of by simp
  qed
next
  case (3 t width u)
  obtain x where "word_of_int (offset_value \<rho> (Int64Scaled t width u)) = (word_of_int x :: 64 word) * width"
    using that [of "uint (low64 (bv_value \<rho> t))"] by (cases u) simp_all
  then show ?case using trailing_zeros_of by simp
next
  case (4 a b)
  then show ?case
    by (auto split: option.split intro: residue_combine_of low_bits_ops)
qed (simp_all add: residue_exact_of)

lemma address_sum:
  "low64 (bv_value \<rho> (PointerAddress (Pointer block (Off_Add l r))))
   = low64 (bv_value \<rho> (PointerAddress (Pointer block l))) + word_of_int (offset_value \<rho> r)"
  by (simp add: case_prod_beta Let_def algebra_simps)

lemma address_residue_sound:
  assumes "\<And>t. residue_opt_of (low64 (bv_value \<rho> t)) (f t)"
  shows "residue_opt_of (low64 (bv_value \<rho> (PointerAddress p))) (address_residue f p)"
proof -
  obtain block off where p: "p = Pointer block off" by (cases p)
  show ?thesis
  proof (cases off)
    case (Off_Add l r)
    have found: "residue_opt_of (low64 (bv_value \<rho> (PointerAddress (Pointer block (Off_Add x y)))))
        (combine_both (f (PointerAddress (Pointer block x))) (offset_residue y) (+))" for x y
      unfolding address_sum
      by (intro combine_both_of assms offset_residue_sound low_bits_ops)
    have swap: "bv_value \<rho> (PointerAddress (Pointer block (Off_Add r l)))
        = bv_value \<rho> (PointerAddress (Pointer block (Off_Add l r)))"
      by (simp add: add.commute)
    show ?thesis
      using found [of l r] found [of r l] unfolding swap p Off_Add address_residue_def
      by (simp add: Let_def residue_better_of del: bv_value.simps)
  qed (simp_all add: address_residue_def p)
qed

lemma masked_residue_sound:
  assumes op: "op \<in> {Op_UInt64BitwiseAnd, Op_Int64BitwiseAnd, Op_UInt64BitwiseOr,
      Op_Int64BitwiseOr, Op_UInt64BitwiseXor, Op_Int64BitwiseXor}"
    and x: "residue_opt_of w x" and f: "binary64 op = Some f"
  shows "residue_opt_of (f w c) (masked_residue op c x)"
proof -
  have low: "residue_opt_of (g w c) (map_option (\<lambda>x. residue_new (res_bits x) (g (res_value x) c)) x)"
    if "low_bits_op g" for g :: "64 word \<Rightarrow> 64 word \<Rightarrow> 64 word"
    using x residue_ofD residue_of_bits
    by (cases x) (auto simp: residue_new_of min.absorb1 intro: low_bits_opD [OF that])
  have cleared: "residue_of (w AND c) (residue_new (trailing_zeros c) 0)"
    using low_bits_zero(2) by (simp add: residue_new_of)
  have exact: "residue_of (w AND c) (residue_exact (res_value y AND c))"
    if y: "residue_of w y" and z: "c AND NOT (low_mask (res_bits y)) = 0" for y
  proof -
    have inside: "i < res_bits y" if "bit c i" for i :: nat
    proof -
      have "\<not> bit (c AND NOT (low_mask (res_bits y))) i" using z by simp
      then show ?thesis using bit_imp_le_length [OF that] that by (auto simp: low_mask_eq bit_simps)
    qed
    have "res_value y AND c = w AND c"
      using y inside by (intro bit_word_eqI) (auto simp: residue_of_def bit_simps)
    then show ?thesis by (simp add: residue_exact_of)
  qed
  have masked: "residue_opt_of (w AND c) (masked_residue op c x)"
    if "op = Op_UInt64BitwiseAnd \<or> op = Op_Int64BitwiseAnd"
  proof -
    have "residue_opt_of (w AND c) (map_option (\<lambda>x.
        if c AND NOT (low_mask (res_bits x)) = 0 then residue_exact (res_value x AND c)
        else residue_new (res_bits x) (res_value x AND c)) x)"
      using x exact low [OF low_bits_ops(3)] by (cases x) auto
    then show ?thesis
      using that cleared by (auto simp: masked_residue_def Let_def intro!: residue_better_of)
  qed
  from op consider "op = Op_UInt64BitwiseAnd \<or> op = Op_Int64BitwiseAnd"
    | "op = Op_UInt64BitwiseOr \<or> op = Op_Int64BitwiseOr"
    | "op = Op_UInt64BitwiseXor \<or> op = Op_Int64BitwiseXor" by blast
  then show ?thesis
  proof cases
    case 1
    then have "f = (AND)" using f by (auto simp: binary64_def)
    then show ?thesis using masked [OF 1] by simp
  next
    case 2
    then have "f = (OR)" using f by (auto simp: binary64_def)
    then show ?thesis using 2 low [OF low_bits_ops(4)] by (auto simp: masked_residue_def)
  next
    case 3
    then have "f = (XOR)" using f by (auto simp: binary64_def)
    then show ?thesis using 3 low [OF low_bits_ops(5)] by (auto simp: masked_residue_def)
  qed
qed

lemma low_bits_binary:
  assumes "op \<in> {Op_UInt64BitwiseAnd, Op_Int64BitwiseAnd, Op_UInt64BitwiseOr,
      Op_Int64BitwiseOr, Op_UInt64BitwiseXor, Op_Int64BitwiseXor}"
  shows "\<exists>f. binary64 op = Some f \<and> binary32 op = None \<and> (\<forall>a b. f a b = f b a)"
  using assms
  by (cases op) (simp_all add: binary64_def binary32_def and.commute or.commute xor.commute)

lemma structural_residue_sound:
  assumes "\<And>t. residue_opt_of (low64 (bv_value \<rho> t)) (f t)"
  shows "residue_opt_of (low64 (bv_value \<rho> t)) (structural_residue f t)"
proof (cases t)
  case (Binary op a b)
  let ?masks = "{Op_UInt64BitwiseAnd, Op_Int64BitwiseAnd, Op_UInt64BitwiseOr,
      Op_Int64BitwiseOr, Op_UInt64BitwiseXor, Op_Int64BitwiseXor}"
  note both = combine_both_of [OF assms assms]
  show ?thesis
  proof (cases "op \<in> ?masks")
    case True
    then obtain g where g: "binary64 op = Some g" "binary32 op = None" "\<forall>x y. g x y = g y x"
      using low_bits_binary by blast
    have commute: "g x y = g y x" for x y using g(3) by blast
    have v: "low64 (bv_value \<rho> t) = g (low64 (bv_value \<rho> a)) (low64 (bv_value \<rho> b))"
      using g by (simp add: Binary)
    have t: "structural_residue f t = (case (constant64 a, constant64 b) of
        (_, Some c) \<Rightarrow> masked_residue op c (f a)
      | (Some c, _) \<Rightarrow> masked_residue op c (f b)
      | _ \<Rightarrow> None)"
      using True by (auto simp: Binary structural_residue_def)
    show ?thesis
    proof (cases "constant64 b")
      case (Some c)
      then show ?thesis
        using masked_residue_sound [OF True assms g(1), of a c] constant64_sound [OF Some, of \<rho>]
        by (cases "constant64 a") (simp_all add: t v)
    next
      case None
      then show ?thesis
        using masked_residue_sound [OF True assms g(1), of b] constant64_sound [of a _ \<rho>]
        by (cases "constant64 a") (simp_all add: t v commute [of _ "low64 (bv_value \<rho> b)"])
    qed
  next
    case False
    then show ?thesis
      using both [of "(+)" a b] both [of "(-)" a b] low_bits_ops
      by (auto simp: Binary structural_residue_def binary32_def binary64_def)
  qed
next
  case (PointerAddress p)
  then show ?thesis
    using address_residue_sound [of \<rho> f p] assms by (simp add: structural_residue_def)
qed (simp_all add: structural_residue_def)

lemma term_residue_sound:
  assumes "residues_hold \<rho> r"
  shows "residue_opt_of (low64 (bv_value \<rho> t)) (term_residue d r t)"
proof (induction d arbitrary: t)
  case 0
  then show ?case
    using assms constant64_sound [of t _ \<rho>]
    by (auto simp: residue_exact_of residues_hold_def residue_opt_of_def split: option.splits)
next
  case (Suc d)
  show ?case
  proof (cases "constant64 t")
    case (Some v)
    then show ?thesis using constant64_sound [OF Some, of \<rho>] by (simp add: residue_exact_of)
  next
    case None
    let ?equal = "case res_equal_to r t of None \<Rightarrow> [] | Some xs \<Rightarrow> take EDGE_LIMIT xs"
    have known: "residue_opt_of (low64 (bv_value \<rho> t)) (res_known r t)"
      using assms by (auto simp: residues_hold_def residue_opt_of_def)
    have equal: "\<forall>u \<in> set ?equal. residue_opt_of (low64 (bv_value \<rho> t)) (term_residue d r u)"
    proof
      fix u
      assume "u \<in> set ?equal"
      then have "low64 (bv_value \<rho> t) = low64 (bv_value \<rho> u)"
        using assms in_set_takeD [of u EDGE_LIMIT] unfolding residues_hold_def
        by (cases "res_equal_to r t") auto
      then show "residue_opt_of (low64 (bv_value \<rho> t)) (term_residue d r u)" using Suc by simp
    qed
    show ?thesis
      using None residue_better_of [OF foldl_better_of [OF known equal] structural_residue_sound [OF Suc]]
      by (simp add: Let_def)
  qed
qed

lemma residues_decide_equal_sound:
  assumes "residues_hold \<rho> r" "residues_decide_equal r a b = Some v"
  shows "cond_value \<rho> (Bitvector64Equal a b) = v"
proof -
  obtain x y where x: "term_residue RESIDUE_DEPTH r a = Some x"
    and y: "term_residue RESIDUE_DEPTH r b = Some y"
    using assms(2) by (auto simp: residues_decide_equal_def split: option.splits)
  have of: "residue_of (low64 (bv_value \<rho> a)) x" "residue_of (low64 (bv_value \<rho> b)) y"
    using term_residue_sound [OF assms(1), of a RESIDUE_DEPTH]
      term_residue_sound [OF assms(1), of b RESIDUE_DEPTH] x y by simp_all
  let ?n = "min (res_bits x) (res_bits y)"
  have "low64 (bv_value \<rho> a) \<noteq> low64 (bv_value \<rho> b)"
    if "(res_value x XOR res_value y) AND low_mask ?n \<noteq> 0"
  proof
    assume "low64 (bv_value \<rho> a) = low64 (bv_value \<rho> b)"
    then have "take_bit ?n (res_value x) = take_bit ?n (res_value y)"
      using residue_ofD [OF of(1), of ?n] residue_ofD [OF of(2), of ?n] by simp
    then have "(res_value x XOR res_value y) AND low_mask ?n = 0"
      by (simp add: low_mask_eq flip: take_bit_eq_mask)
    then show False using that by simp
  qed
  moreover have "low64 (bv_value \<rho> a) = low64 (bv_value \<rho> b)"
    if "(res_value x XOR res_value y) AND low_mask ?n = 0" "res_bits x = 64" "res_bits y = 64"
  proof -
    have "res_value x XOR res_value y = 0"
      using that by (simp add: low_mask_eq take_bit_word_eq_self flip: take_bit_eq_mask)
    then have "(res_value x XOR res_value y) XOR res_value y = 0 XOR res_value y" by (rule arg_cong)
    then have "res_value x = res_value y" by (simp only: xor.assoc xor_self_eq xor.right_neutral xor.left_neutral)
    then show ?thesis using that of by (simp add: residue_of_def take_bit_word_eq_self)
  qed
  ultimately show ?thesis
    using assms(2) x y by (auto simp: residues_decide_equal_def compare_value_def split: if_splits)
qed

section \<open>Answers\<close>

definition residues_assume_all ::
  "('x bv \<Rightarrow> 'x bv \<Rightarrow> bool) \<Rightarrow> ('x bv \<times> 'x bv) list \<Rightarrow> 'x residues" where
  "residues_assume_all below facts =
     foldl (\<lambda>r (a, b). residues_assume_equal below r a b) residues_empty facts"

lemma residues_assume_all_sound:
  assumes "\<forall>(a, b) \<in> set facts. cond_value \<rho> (Bitvector64Equal a b)"
  shows "residues_hold \<rho> (residues_assume_all below facts)"
proof -
  have "residues_hold \<rho> r \<Longrightarrow> \<forall>(a, b) \<in> set facts. cond_value \<rho> (Bitvector64Equal a b) \<Longrightarrow>
      residues_hold \<rho> (foldl (\<lambda>r (a, b). residues_assume_equal below r a b) r facts)" for r
    by (induction facts arbitrary: r) (auto simp: residues_assume_equal_sound)
  then show ?thesis using assms residues_hold_empty unfolding residues_assume_all_def by blast
qed

text \<open>C38: Whatever 64-bit equalities were recorded, in whatever order the terms are kept,
  the answer the known low bits give for two terms is the truth in every valuation where the
  recorded equalities hold.\<close>

theorem residue_answers_sound:
  assumes "\<forall>(a, b) \<in> set facts. cond_value \<rho> (Bitvector64Equal a b)"
    and "residues_decide_equal (residues_assume_all below facts) a b = Some v"
  shows "cond_value \<rho> (Bitvector64Equal a b) = v"
  using residues_assume_all_sound [OF assms(1)] assms(2) by (rule residues_decide_equal_sound)

text \<open>From \<open>x AND 7 = 0\<close>: the sum \<open>x + 1\<close> is not \<open>12\<close>.\<close>

abbreviation sample_term :: "nat bv" where
  "sample_term \<equiv> Variable (Variable_Of 0 Ordinary)"

lemma sample_residue:
  "residues_decide_equal
     (residues_assume_all (\<lambda>_ _. True) [(UInt64BitwiseAnd sample_term (UInt64Constant 7), UInt64Constant 0)])
     (UInt64Add sample_term (UInt64Constant 1)) (UInt64Constant 12) = Some False"
  by code_simp

theorem residue_answers_sound_witness:
  "cond_value sample_valuation (Bitvector64Equal (UInt64Add sample_term (UInt64Constant 1)) (UInt64Constant 12))
   = False"
  by (rule residue_answers_sound [OF _ sample_residue])
    (simp add: compare_value_def sample_valuation_def binary32_def binary64_def)

end
