(* ===== verification/DifferenceState.thy ===== *)
theory DifferenceState
  imports Residues "HOL-Library.Monad_Syntax"
begin

text \<open>
  The state of the difference graph and the propagation over it:
  \<^verbatim>\<open>DifferenceGraph\<close> of \<^verbatim>\<open>src/src/kernel/difference_graph.rs\<close>, from
  \<^verbatim>\<open>tighten\<close> down. Maps the source only looks up are HOL maps; maps it iterates are
  persistent maps, walked in key order.

  The source's \<^verbatim>\<open>tighten\<close> and the three \<^verbatim>\<open>resolve\<close> functions call each other.
  Each is written here over the \<^verbatim>\<open>tighten\<close> it calls, and the knot is tied on a depth:
  \<open>tighten n\<close> allows \<open>n\<close> nested calls. \<open>settle\<close> is the call the
  rest of the graph makes; it always has depth to spare (\<open>tighten_settles\<close>).
\<close>

section \<open>State\<close>

record pending_link =
  link_offset :: int
  link_domain :: domain
  link_nonnegative :: bool

record cast_link =
  cast_base :: nat
  cast_source :: "int \<times> int"
  cast_modulus :: int

record 'x difference_graph =
  g_nodes :: "domain \<times> 'x bv \<Rightarrow> nat option"
  g_domains :: "nat \<Rightarrow> domain option"
  g_bounds :: "nat \<Rightarrow> (int \<times> int) option"
  g_out_edges :: "nat \<Rightarrow> (nat, int) pmap option"
  g_in_edges :: "nat \<Rightarrow> (nat, int) pmap option"
  g_pending :: "nat \<Rightarrow> (nat, pending_link) pmap option"
  g_excluded :: "nat \<Rightarrow> int set option"
  g_flips :: "nat \<Rightarrow> (nat \<times> nat) option"
  g_truncated :: "nat set"
  g_cast_links :: "nat \<Rightarrow> cast_link option"
  g_casts_of :: "nat \<Rightarrow> nat pset option"
  g_residues :: "'x residues"
  g_pointers :: "'x pointer_classes"
  g_no_overflow :: "overflow_key set"
  g_contradictory :: bool
  g_next :: nat

definition graph_new :: "'x difference_graph" where
  "graph_new =
     \<lparr>g_nodes = Map.empty, g_domains = Map.empty, g_bounds = Map.empty,
      g_out_edges = Map.empty, g_in_edges = Map.empty, g_pending = Map.empty,
      g_excluded = Map.empty, g_flips = Map.empty, g_truncated = {},
      g_cast_links = Map.empty, g_casts_of = Map.empty, g_residues = residues_empty,
      g_pointers = pc_empty, g_no_overflow = {}, g_contradictory = False, g_next = 0\<rparr>"

section \<open>Reads\<close>

definition domain_of :: "'x difference_graph \<Rightarrow> nat \<Rightarrow> domain" where
  "domain_of g node = the (g_domains g node)"

definition interval :: "'x difference_graph \<Rightarrow> nat \<Rightarrow> int \<times> int" where
  "interval g node =
     (case g_bounds g node of Some b \<Rightarrow> b | None \<Rightarrow> domain_range (domain_of g node))"

lemma interval_cong:
  "g_bounds g = g_bounds h \<Longrightarrow> g_domains g = g_domains h \<Longrightarrow> interval g = interval h"
  by (rule ext) (simp add: interval_def domain_of_def split: option.split)

lemma interval_updates [simp]:
  "interval (g\<lparr>g_nodes := a\<rparr>) = interval g"
  "interval (g\<lparr>g_out_edges := b\<rparr>) = interval g"
  "interval (g\<lparr>g_in_edges := c\<rparr>) = interval g"
  "interval (g\<lparr>g_pending := d\<rparr>) = interval g"
  "interval (g\<lparr>g_excluded := e\<rparr>) = interval g"
  "interval (g\<lparr>g_flips := f\<rparr>) = interval g"
  "interval (g\<lparr>g_truncated := h\<rparr>) = interval g"
  "interval (g\<lparr>g_cast_links := i\<rparr>) = interval g"
  "interval (g\<lparr>g_casts_of := j\<rparr>) = interval g"
  "interval (g\<lparr>g_residues := k\<rparr>) = interval g"
  "interval (g\<lparr>g_pointers := l\<rparr>) = interval g"
  "interval (g\<lparr>g_no_overflow := m\<rparr>) = interval g"
  "interval (g\<lparr>g_contradictory := n\<rparr>) = interval g"
  "interval (g\<lparr>g_next := q\<rparr>) = interval g"
  by (rule interval_cong; simp)+

definition read_interval :: "'x difference_graph \<Rightarrow> nat \<Rightarrow> int \<times> int" where
  "read_interval g node =
     (let (low, high) = interval g node
      in if g_truncated g = {} then (low, high)
         else
           (let high = (case g_in_edges g node of
                  None \<Rightarrow> high
                | Some edges \<Rightarrow>
                    foldl (\<lambda>high (previous, weight).
                      if previous \<in> g_truncated g
                      then min high (saturating_add (snd (interval g previous)) weight)
                      else high)
                    high (take EDGE_LIMIT (entries edges)));
                low = (case g_out_edges g node of
                  None \<Rightarrow> low
                | Some edges \<Rightarrow>
                    foldl (\<lambda>low (next, weight).
                      if next \<in> g_truncated g
                      then max low (saturating_sub (fst (interval g next)) weight)
                      else low)
                    low (take EDGE_LIMIT (entries edges)))
            in (low, high)))"

definition affine_interval :: "'x difference_graph \<Rightarrow> affine \<Rightarrow> int \<times> int" where
  "affine_interval g a =
     (case fst a of
        None \<Rightarrow> (snd a, snd a)
      | Some node \<Rightarrow> (let (low, high) = read_interval g node in (low + snd a, high + snd a)))"

definition excludes :: "'x difference_graph \<Rightarrow> nat \<Rightarrow> int \<Rightarrow> bool" where
  "excludes g node v = (case g_excluded g node of None \<Rightarrow> False | Some excluded \<Rightarrow> v \<in> excluded)"

text \<open>
  Shortest distances from a node. The walk over one node's edges returns the budget, the
  distances and the queue, and whether the budget ran out.
\<close>

fun relax_edges ::
  "int \<Rightarrow> (nat \<times> int) list \<Rightarrow> nat \<Rightarrow> (nat \<Rightarrow> int option) \<Rightarrow> nat list \<Rightarrow>
   nat \<times> (nat \<Rightarrow> int option) \<times> nat list \<times> bool" where
  "relax_edges base [] budget distance work = (budget, distance, work, False)"
| "relax_edges base ((next, weight) # edges) budget distance work =
     (if budget = 0 then (budget, distance, work, True)
      else
        (let candidate = base + weight
         in if (case distance next of None \<Rightarrow> True | Some known \<Rightarrow> candidate < known)
            then relax_edges base edges (budget - 1) (distance(next \<mapsto> candidate)) (work @ [next])
            else relax_edges base edges (budget - 1) distance work))"

lemma relax_edges_measure:
  "relax_edges base edges budget distance work = (budget', distance', work', stop) \<Longrightarrow>
   length work' + budget' \<le> length work + budget"
proof (induction base edges budget distance work rule: relax_edges.induct)
  case (2 base "next" weight edges budget distance work)
  then show ?case by (cases "budget = 0") (fastforce simp: Let_def split: if_splits)+
qed simp

function walk_edges ::
  "'x difference_graph \<Rightarrow> nat list \<Rightarrow> (nat \<Rightarrow> int option) \<Rightarrow> nat \<Rightarrow> (nat \<Rightarrow> int option)" where
  "walk_edges g [] distance budget = distance"
| "walk_edges g (node # work) distance budget =
     (case g_out_edges g node of
        None \<Rightarrow> walk_edges g work distance budget
      | Some edges \<Rightarrow>
          (case relax_edges (the (distance node)) (entries edges) budget distance work of
             (budget, distance, work, stop) \<Rightarrow>
               if stop then distance else walk_edges g work distance budget))"
  by pat_completeness auto
termination
proof (relation "measure (\<lambda>(g, work, distance, budget). length work + budget)", goal_cases)
  case (3 g node work distance budget edges budget' x distance' y work' stop)
  then show ?case by (auto dest!: relax_edges_measure [OF sym])
qed auto

definition shortest_from :: "'x difference_graph \<Rightarrow> nat \<Rightarrow> nat \<Rightarrow> int option" where
  "shortest_from g source = walk_edges g [source] [source \<mapsto> 0] EDGE_LIMIT"

section \<open>Propagation\<close>

text \<open>A call of \<^verbatim>\<open>tighten\<close>: the graph, the node and the two bounds.\<close>

type_synonym 'x tightening =
  "'x difference_graph \<Rightarrow> nat \<Rightarrow> int option \<Rightarrow> int option \<Rightarrow> 'x difference_graph option"

abbreviation contradict :: "'x difference_graph \<Rightarrow> 'x difference_graph" where
  "contradict g \<equiv> g\<lparr>g_contradictory := True\<rparr>"

definition record_edge ::
  "(nat \<Rightarrow> (nat, int) pmap option) \<Rightarrow> nat \<Rightarrow> nat \<Rightarrow> int \<Rightarrow> (nat \<Rightarrow> (nat, int) pmap option)" where
  "record_edge edges a b weight =
     edges(a \<mapsto> with_inserted (case edges a of None \<Rightarrow> map_empty | Some m \<Rightarrow> m) b weight)"

definition edge_known :: "'x difference_graph \<Rightarrow> nat \<Rightarrow> nat \<Rightarrow> int \<Rightarrow> bool" where
  "edge_known g from to weight =
     (case g_out_edges g from of
        None \<Rightarrow> False
      | Some edges \<Rightarrow> (case map_get edges to of None \<Rightarrow> False | Some existing \<Rightarrow> existing \<le> weight))"

definition closes_negative_cycle :: "'x difference_graph \<Rightarrow> nat \<Rightarrow> nat \<Rightarrow> int \<Rightarrow> bool" where
  "closes_negative_cycle g from to weight =
     (case shortest_from g to from of None \<Rightarrow> False | Some distance \<Rightarrow> distance + weight < 0)"

definition add_edge_with ::
  "'x tightening \<Rightarrow> 'x difference_graph \<Rightarrow> nat \<Rightarrow> nat \<Rightarrow> int \<Rightarrow> 'x difference_graph option" where
  "add_edge_with T g from to weight =
     (if edge_known g from to weight then Some g
      else if closes_negative_cycle g from to weight then Some (contradict g)
      else
        (let g = g\<lparr>g_out_edges := record_edge (g_out_edges g) from to weight\<rparr>;
             g = g\<lparr>g_in_edges := record_edge (g_in_edges g) to from weight\<rparr>;
             from_high = snd (interval g from);
             to_low = fst (interval g to)
         in do {
              g \<leftarrow> T g to None (Some (saturating_add from_high weight));
              T g from (Some (saturating_sub to_low weight)) None
            }))"

definition constrain_with ::
  "'x tightening \<Rightarrow> 'x difference_graph \<Rightarrow> affine \<Rightarrow> affine \<Rightarrow> int \<Rightarrow> 'x difference_graph option" where
  "constrain_with T g from to weight =
     (let weight = weight - snd to + snd from in
      case (fst from, fst to) of
        (None, None) \<Rightarrow> Some (if 0 > weight then contradict g else g)
      | (None, Some to) \<Rightarrow> T g to None (Some weight)
      | (Some from, None) \<Rightarrow> T g from (Some (- weight)) None
      | (Some from, Some to) \<Rightarrow>
          if from = to then Some (if weight < 0 then contradict g else g)
          else add_edge_with T g from to weight)"

text \<open>\<open>node = base + offset\<close>, as the two constraints the source adds for it.\<close>

definition link_with ::
  "'x tightening \<Rightarrow> 'x difference_graph \<Rightarrow> nat \<Rightarrow> nat \<Rightarrow> int \<Rightarrow> 'x difference_graph option" where
  "link_with T g base node offset =
     do {
       g \<leftarrow> constrain_with T g (Some base, 0) (Some node, 0) offset;
       constrain_with T g (Some node, 0) (Some base, 0) (- offset)
     }"

definition resolve_flip_with ::
  "'x tightening \<Rightarrow> 'x difference_graph \<Rightarrow> nat \<Rightarrow> 'x difference_graph option" where
  "resolve_flip_with T g node =
     (case g_flips g node of
        None \<Rightarrow> Some g
      | Some (base, flipped) \<Rightarrow>
          (let min = fst (domain_range (domain_of g flipped));
               (base_low, base_high) = interval g base;
               offset = (if base_low \<ge> 0 then Some min
                         else if base_high < 0 then Some (- min)
                         else None)
           in case offset of
                Some offset \<Rightarrow>
                  link_with T (g\<lparr>g_flips := (g_flips g)(base := None, flipped := None)\<rparr>)
                    base flipped offset
              | None \<Rightarrow>
                  (let (low, high) = interval g flipped
                   in if high < 0 then T g base (Some 0) None
                      else if low \<ge> 0 then T g base None (Some (- 1))
                      else Some g)))"

definition remove_waiting :: "(nat \<Rightarrow> nat pset option) \<Rightarrow> nat \<Rightarrow> nat \<Rightarrow> (nat \<Rightarrow> nat pset option)" where
  "remove_waiting casts_of base cast =
     (case casts_of base of
        None \<Rightarrow> casts_of
      | Some waiting \<Rightarrow>
          (let waiting = without_value waiting cast
           in casts_of(base := if map_is_empty waiting then None else Some waiting)))"

definition resolve_cast_with ::
  "'x tightening \<Rightarrow> 'x difference_graph \<Rightarrow> nat \<Rightarrow> 'x difference_graph option" where
  "resolve_cast_with T g cast =
     (case g_cast_links g cast of
        None \<Rightarrow> Some g
      | Some link \<Rightarrow>
          (let (v_low, v_high) = interval g (cast_base link);
               (t_low, t_high) = interval g cast;
               k_low = - ((t_high - v_low) div cast_modulus link);
               k_high = (v_high - t_low) div cast_modulus link
           in if v_low < fst (cast_source link) \<or> v_high > snd (cast_source link) then Some g
              else if k_low \<noteq> k_high then Some g
              else link_with T
                     (g\<lparr>g_cast_links := (g_cast_links g)(cast := None),
                        g_casts_of := remove_waiting (g_casts_of g) (cast_base link) cast\<rparr>)
                     (cast_base link) cast (- k_low * cast_modulus link)))"

fun resolve_each_with ::
  "'x tightening \<Rightarrow> 'x difference_graph \<Rightarrow> nat list \<Rightarrow> 'x difference_graph option" where
  "resolve_each_with T g [] = Some g"
| "resolve_each_with T g (cast # casts) =
     do { g \<leftarrow> resolve_cast_with T g cast; resolve_each_with T g casts }"

definition casts_at :: "'x difference_graph \<Rightarrow> nat \<Rightarrow> nat list" where
  "casts_at g node =
     (case g_casts_of g node of None \<Rightarrow> [] | Some casts \<Rightarrow> take EDGE_LIMIT (set_values casts))
     @ (if g_cast_links g node = None then [] else [node])"

definition resolve_casts_with ::
  "'x tightening \<Rightarrow> 'x difference_graph \<Rightarrow> nat \<Rightarrow> 'x difference_graph option" where
  "resolve_casts_with T g node = resolve_each_with T g (casts_at g node)"

fun link_each_with ::
  "'x tightening \<Rightarrow> 'x difference_graph \<Rightarrow> nat \<Rightarrow> (nat \<times> pending_link) list \<Rightarrow>
   'x difference_graph option" where
  "link_each_with T g base [] = Some g"
| "link_each_with T g base ((node, link) # links) =
     do { g \<leftarrow> link_with T g base node (link_offset link); link_each_with T g base links }"

definition ready_links ::
  "'x difference_graph \<Rightarrow> nat \<Rightarrow> (nat, pending_link) pmap \<Rightarrow> (nat \<times> pending_link) list" where
  "ready_links g base waiting =
     filter (\<lambda>(node, link).
         link_fits (interval g base) (link_offset link) (link_domain link) (link_nonnegative link))
       (take EDGE_LIMIT (entries waiting))"

definition resolve_pending_with ::
  "'x tightening \<Rightarrow> 'x difference_graph \<Rightarrow> nat \<Rightarrow> 'x difference_graph option" where
  "resolve_pending_with T g base =
     (case g_pending g base of
        None \<Rightarrow> Some g
      | Some waiting \<Rightarrow>
          (let linked = ready_links g base waiting;
               remaining = foldl (\<lambda>m (node, link). without_key m node) waiting linked;
               g = g\<lparr>g_pending := (g_pending g)
                       (base := if map_is_empty remaining then None else Some remaining)\<rparr>
           in link_each_with T g base linked))"

section \<open>Tightening\<close>

text \<open>The two steps past excluded ends.\<close>

function skip_low :: "(int \<Rightarrow> bool) \<Rightarrow> int \<Rightarrow> int \<Rightarrow> int" where
  "skip_low excluded low high =
     (if low \<le> high \<and> excluded low then skip_low excluded (low + 1) high else low)"
  by pat_completeness auto
termination by (relation "measure (\<lambda>(e, low, high). nat (high + 1 - low))") auto

function skip_high :: "(int \<Rightarrow> bool) \<Rightarrow> int \<Rightarrow> int \<Rightarrow> int" where
  "skip_high excluded low high =
     (if low \<le> high \<and> excluded high then skip_high excluded low (high - 1) else high)"
  by pat_completeness auto
termination by (relation "measure (\<lambda>(e, low, high). nat (high + 1 - low))") auto

declare skip_low.simps [simp del] skip_high.simps [simp del]

definition narrowed :: "'x difference_graph \<Rightarrow> nat \<Rightarrow> int option \<Rightarrow> int option \<Rightarrow> int \<times> int" where
  "narrowed g node low high =
     (let (old_low, old_high) = interval g node;
          new_low = (case low of None \<Rightarrow> old_low | Some low \<Rightarrow> max low old_low);
          new_high = (case high of None \<Rightarrow> old_high | Some high \<Rightarrow> min high old_high);
          new_low = skip_low (excludes g node) new_low new_high;
          new_high = skip_high (excludes g node) new_low new_high
      in (new_low, new_high))"

type_synonym work = "(nat \<times> int option \<times> int option) list"

text \<open>One node's edges go onto the work list, as far as the budget reaches.\<close>

definition push_edges ::
  "(nat, int) pmap option \<Rightarrow> (nat \<Rightarrow> int \<Rightarrow> nat \<times> int option \<times> int option) \<Rightarrow> nat \<Rightarrow>
   'x difference_graph \<Rightarrow> nat \<Rightarrow> work \<Rightarrow> 'x difference_graph \<times> nat \<times> work" where
  "push_edges edges bound node g budget work =
     (case edges of
        None \<Rightarrow> (g, budget, work)
      | Some edges \<Rightarrow>
          (let g = (if map_len edges > budget then g\<lparr>g_truncated := insert node (g_truncated g)\<rparr> else g);
               followed = take budget (entries edges)
           in (g, budget - length followed,
               foldl (\<lambda>work (other, weight). bound other weight # work) work followed)))"

definition spread ::
  "'x difference_graph \<Rightarrow> nat \<Rightarrow> int \<times> int \<Rightarrow> int \<times> int \<Rightarrow> nat \<Rightarrow> work \<Rightarrow>
   'x difference_graph \<times> nat \<times> work" where
  "spread g node old new budget work =
     (let (old_low, old_high) = old;
          (new_low, new_high) = new;
          (g, budget, work) =
            (if new_high < old_high
             then push_edges (g_out_edges g node)
                    (\<lambda>next weight. (next, None, Some (saturating_add new_high weight)))
                    node g budget work
             else (g, budget, work))
      in if new_low > old_low
         then push_edges (g_in_edges g node)
                (\<lambda>previous weight. (previous, Some (saturating_sub new_low weight), None))
                node g budget work
         else (g, budget, work))"

definition resolve_with ::
  "'x tightening \<Rightarrow> 'x difference_graph \<Rightarrow> nat \<Rightarrow> 'x difference_graph option" where
  "resolve_with T g node =
     do {
       g \<leftarrow> resolve_pending_with T g node;
       g \<leftarrow> resolve_flip_with T g node;
       resolve_casts_with T g node
     }"

lemma length_foldl_push: "length (foldl (\<lambda>work (a, b). f a b # work) work xs) = length xs + length work"
  by (induction xs arbitrary: work) auto

lemma push_edges_measure:
  "push_edges edges bound node g budget work = (g', budget', work') \<Longrightarrow>
   length work' + budget' = length work + budget"
  by (auto simp: push_edges_def Let_def length_foldl_push split: option.splits)

lemma spread_measure:
  "spread g node old new budget work = (g', budget', work') \<Longrightarrow>
   length work' + budget' = length work + budget"
  by (auto simp: spread_def split: prod.splits if_splits dest!: push_edges_measure)

function tighten_loop ::
  "'x tightening \<Rightarrow> 'x difference_graph \<Rightarrow> work \<Rightarrow> nat \<Rightarrow> 'x difference_graph option" where
  "tighten_loop T g [] budget = Some g"
| "tighten_loop T g ((node, low, high) # work) budget =
     (if g_contradictory g then Some g
      else
        (let old = interval g node;
             new = narrowed g node low high
         in if new = old then tighten_loop T g work budget
            else if fst new > snd new then Some (contradict g)
            else
              (case spread (g\<lparr>g_bounds := (g_bounds g)(node \<mapsto> new)\<rparr>) node old new budget work of
                 (g, budget, work) \<Rightarrow>
                   (case resolve_with T g node of
                      None \<Rightarrow> None
                    | Some g \<Rightarrow> tighten_loop T g work budget))))"
  by pat_completeness auto
termination
proof (relation "measure (\<lambda>(T, g, work, budget). length work + budget)", goal_cases)
  case (3 T g node low high work budget old new g' x budget' work' g'')
  then show ?case by (auto dest!: spread_measure [OF sym])
qed auto

declare tighten_loop.simps(2) [simp del]

fun tighten :: "nat \<Rightarrow> 'x tightening" where
  "tighten 0 g node low high = None"
| "tighten (Suc depth) g node low high =
     tighten_loop (tighten depth) g [(node, low, high)] EDGE_LIMIT"

text \<open>The links still to be resolved, and the sign cases still open: what a nested call uses up.\<close>

definition straddles :: "int \<times> int \<Rightarrow> bool" where
  "straddles i \<longleftrightarrow> fst i < 0 \<and> 0 \<le> snd i"

definition node_work :: "'x difference_graph \<Rightarrow> nat \<Rightarrow> nat" where
  "node_work g n =
     (case g_pending g n of None \<Rightarrow> 0 | Some m \<Rightarrow> length (entries m))
     + (if g_cast_links g n = None then 0 else 1)
     + (case g_flips g n of
          None \<Rightarrow> 0
        | Some (base, flipped) \<Rightarrow> if straddles (interval g base) then 2 else 1)"

definition work_left :: "'x difference_graph \<Rightarrow> nat" where
  "work_left g = sum_list (map (node_work g) [0..<g_next g])"

definition settle :: "'x difference_graph \<Rightarrow> nat \<Rightarrow> int option \<Rightarrow> int option \<Rightarrow> 'x difference_graph" where
  "settle g node low high = the (tighten (Suc (work_left g)) g node low high)"

abbreviation settled :: "'x tightening" where
  "settled \<equiv> \<lambda>g node low high. Some (settle g node low high)"

definition constrain :: "'x difference_graph \<Rightarrow> affine \<Rightarrow> affine \<Rightarrow> int \<Rightarrow> 'x difference_graph" where
  "constrain g from to weight = the (constrain_with settled g from to weight)"

definition resolve_flip :: "'x difference_graph \<Rightarrow> nat \<Rightarrow> 'x difference_graph" where
  "resolve_flip g node = the (resolve_flip_with settled g node)"

definition resolve_casts :: "'x difference_graph \<Rightarrow> nat \<Rightarrow> 'x difference_graph" where
  "resolve_casts g node = the (resolve_casts_with settled g node)"

definition resolve_pending :: "'x difference_graph \<Rightarrow> nat \<Rightarrow> 'x difference_graph" where
  "resolve_pending g node = the (resolve_pending_with settled g node)"

end
