(* ===== verification/DifferencePropagation.thy ===== *)
theory DifferencePropagation
  imports DifferenceState
begin

text \<open>
  Propagation over the difference graph keeps what its elementary updates keep. The
  contract \<open>propagation\<close> lists those updates (a narrowed interval, a recorded edge, a
  settled link, a found contradiction) and the bounds they justify; the lemmas inside it
  follow \<^verbatim>\<open>tighten\<close> and the \<^verbatim>\<open>resolve\<close> functions once. It is
  interpreted twice: here on the representation invariant together with the progress of
  the graph, from which every call returns, and later on the truth of the graph under a
  valuation.
\<close>

section \<open>The contract\<close>

abbreviation without_flip :: "'x difference_graph \<Rightarrow> nat \<Rightarrow> nat \<Rightarrow> 'x difference_graph" where
  "without_flip g b f \<equiv> g\<lparr>g_flips := (g_flips g)(b := None, f := None)\<rparr>"

abbreviation without_cast :: "'x difference_graph \<Rightarrow> nat \<Rightarrow> nat \<Rightarrow> 'x difference_graph" where
  "without_cast g b c \<equiv>
     g\<lparr>g_cast_links := (g_cast_links g)(c := None),
       g_casts_of := remove_waiting (g_casts_of g) b c\<rparr>"

abbreviation without_ready ::
  "'x difference_graph \<Rightarrow> nat \<Rightarrow> (nat, pending_link) pmap \<Rightarrow> 'x difference_graph" where
  "without_ready g b m \<equiv>
     (let remaining = foldl (\<lambda>m (node, link). without_key m node) m (ready_links g b m)
      in g\<lparr>g_pending := (g_pending g)(b := if map_is_empty remaining then None else Some remaining)\<rparr>)"

abbreviation with_edge ::
  "'x difference_graph \<Rightarrow> nat \<Rightarrow> nat \<Rightarrow> int \<Rightarrow> 'x difference_graph" where
  "with_edge g a b w \<equiv>
     g\<lparr>g_out_edges := record_edge (g_out_edges g) a b w,
       g_in_edges := record_edge (g_in_edges g) b a w\<rparr>"

abbreviation with_bounds :: "'x difference_graph \<Rightarrow> nat \<Rightarrow> int \<times> int \<Rightarrow> 'x difference_graph" where
  "with_bounds g n new \<equiv> g\<lparr>g_bounds := (g_bounds g)(n \<mapsto> new)\<rparr>"

locale propagation =
  fixes inv :: "'x difference_graph \<Rightarrow> bool"
    and bound :: "nat \<Rightarrow> int option \<Rightarrow> int option \<Rightarrow> bool"
    and diff :: "nat \<Rightarrow> nat \<Rightarrow> int \<Rightarrow> bool"
  assumes narrow: "inv g \<Longrightarrow> bound n low high \<Longrightarrow> narrowed g n low high = new \<Longrightarrow>
      fst new \<le> snd new \<Longrightarrow> inv (with_bounds g n new)"
    and no_value: "inv g \<Longrightarrow> bound n low high \<Longrightarrow> narrowed g n low high = new \<Longrightarrow>
      snd new < fst new \<Longrightarrow> inv (contradict g)"
    and truncate: "inv g \<Longrightarrow> inv (g\<lparr>g_truncated := s\<rparr>)"
    and out_bound: "inv g \<Longrightarrow> g_out_edges g n = Some m \<Longrightarrow> (k, w) \<in> set (entries m) \<Longrightarrow>
      bound k None (Some (saturating_add (snd (interval g n)) w))"
    and in_bound: "inv g \<Longrightarrow> g_in_edges g n = Some m \<Longrightarrow> (k, w) \<in> set (entries m) \<Longrightarrow>
      bound k (Some (saturating_sub (fst (interval g n)) w)) None"
    and edge: "inv g \<Longrightarrow> diff a b w \<Longrightarrow> inv (with_edge g a b w)"
    and edge_out: "inv g \<Longrightarrow> diff a b w \<Longrightarrow>
      bound b None (Some (saturating_add (snd (interval g a)) w))"
    and edge_in: "inv g \<Longrightarrow> diff a b w \<Longrightarrow>
      bound a (Some (saturating_sub (fst (interval g b)) w)) None"
    and self_loop: "inv g \<Longrightarrow> diff a a w \<Longrightarrow> w < 0 \<Longrightarrow> inv (contradict g)"
    and cycle: "inv g \<Longrightarrow> diff a b w \<Longrightarrow> closes_negative_cycle g a b w \<Longrightarrow> inv (contradict g)"
    and flip_removed: "inv g \<Longrightarrow> inv (without_flip g b f)"
    and flip_positive: "inv g \<Longrightarrow> g_flips g n = Some (b, f) \<Longrightarrow> 0 \<le> fst (interval g b) \<Longrightarrow>
      lowest = fst (domain_range (domain_of g f)) \<Longrightarrow> diff b f lowest \<and> diff f b (- lowest)"
    and flip_negative: "inv g \<Longrightarrow> g_flips g n = Some (b, f) \<Longrightarrow> snd (interval g b) < 0 \<Longrightarrow>
      lowest = fst (domain_range (domain_of g f)) \<Longrightarrow> diff b f (- lowest) \<and> diff f b lowest"
    and flip_low: "inv g \<Longrightarrow> g_flips g n = Some (b, f) \<Longrightarrow> snd (interval g f) < 0 \<Longrightarrow>
      bound b (Some 0) None"
    and flip_high: "inv g \<Longrightarrow> g_flips g n = Some (b, f) \<Longrightarrow> 0 \<le> fst (interval g f) \<Longrightarrow>
      bound b None (Some (- 1))"
    and cast_removed: "inv g \<Longrightarrow> inv (without_cast g b c)"
    and cast_settled: "inv g \<Longrightarrow> g_cast_links g c = Some l \<Longrightarrow>
      interval g (cast_base l) = (v_low, v_high) \<Longrightarrow> interval g c = (t_low, t_high) \<Longrightarrow>
      fst (cast_source l) \<le> v_low \<Longrightarrow> v_high \<le> snd (cast_source l) \<Longrightarrow>
      i = - ((t_high - v_low) div cast_modulus l) \<Longrightarrow> i = (v_high - t_low) div cast_modulus l \<Longrightarrow>
      diff (cast_base l) c (- i * cast_modulus l) \<and> diff c (cast_base l) (i * cast_modulus l)"
    and pending_removed: "inv g \<Longrightarrow> g_pending g b = Some waiting \<Longrightarrow> inv (without_ready g b waiting)"
    and pending_settled: "inv g \<Longrightarrow> g_pending g b = Some waiting \<Longrightarrow>
      (n, link) \<in> set (ready_links g b waiting) \<Longrightarrow>
      diff b n (link_offset link) \<and> diff n b (- link_offset link)"
begin

text \<open>
  \<open>T\<close> keeps the invariant, and whatever it returns \<open>T'\<close> returns too. The
  functions over a \<^verbatim>\<open>tighten\<close> inherit both.
\<close>

definition keeps :: "'x tightening \<Rightarrow> 'x tightening \<Rightarrow> bool" where
  "keeps T T' \<longleftrightarrow> (\<forall>g n low high g'. inv g \<longrightarrow> bound n low high \<longrightarrow> T g n low high = Some g' \<longrightarrow>
     inv g' \<and> T' g n low high = Some g')"

lemma keepsD:
  "keeps T T' \<Longrightarrow> inv g \<Longrightarrow> bound n low high \<Longrightarrow> T g n low high = Some g' \<Longrightarrow>
   inv g' \<and> T' g n low high = Some g'"
  unfolding keeps_def by blast

lemma keeps_add_edge:
  assumes T: "keeps T T'" and g: "inv g" and d: "diff a b w" and r: "add_edge_with T g a b w = Some g'"
  shows "inv g' \<and> add_edge_with T' g a b w = Some g'"
proof (cases "edge_known g a b w \<or> closes_negative_cycle g a b w")
  case True
  then have eq: "add_edge_with U g a b w = Some (if edge_known g a b w then g else contradict g)" for U
    by (auto simp: add_edge_with_def)
  show ?thesis
  proof (cases "edge_known g a b w")
    case known: True
    then show ?thesis using r g unfolding eq by simp
  next
    case new: False
    then have "inv (contradict g)" using True cycle [OF g d] by blast
    then show ?thesis using r new unfolding eq by simp
  qed
next
  case False
  let ?g = "with_edge g a b w"
  let ?out = "Some (saturating_add (snd (interval g a)) w)" and ?in = "Some (saturating_sub (fst (interval g b)) w)"
  have eq: "add_edge_with U g a b w = Option.bind (U ?g b None ?out) (\<lambda>g. U g a ?in None)" for U
    using False by (simp add: add_edge_with_def Let_def)
  obtain h where h: "T ?g b None ?out = Some h" and g': "T h a ?in None = Some g'"
    using r unfolding eq by (cases "T ?g b None ?out") simp_all
  have first: "inv h \<and> T' ?g b None ?out = Some h"
    by (rule keepsD [OF T edge [OF g d] edge_out [OF g d] h])
  have "inv g' \<and> T' h a ?in None = Some g'"
    by (rule keepsD [OF T conjunct1 [OF first] edge_in [OF g d] g'])
  then show ?thesis unfolding eq conjunct2 [OF first] by simp
qed

lemma keeps_constrain_nodes:
  assumes T: "keeps T T'" and g: "inv g" and d: "diff a b w"
    and r: "constrain_with T g (Some a, 0) (Some b, 0) w = Some g'"
  shows "inv g' \<and> constrain_with T' g (Some a, 0) (Some b, 0) w = Some g'"
proof (cases "a = b")
  case True
  then show ?thesis using r g self_loop [OF g] d by (auto simp: constrain_with_def Let_def split: if_splits)
next
  case False
  then show ?thesis using r keeps_add_edge [OF T g d] by (simp add: constrain_with_def)
qed

lemma keeps_link:
  assumes T: "keeps T T'" and g: "inv g" and d: "diff b n k \<and> diff n b (- k)"
    and r: "link_with T g b n k = Some g'"
  shows "inv g' \<and> link_with T' g b n k = Some g'"
proof -
  obtain h where h: "constrain_with T g (Some b, 0) (Some n, 0) k = Some h"
    and g': "constrain_with T h (Some n, 0) (Some b, 0) (- k) = Some g'"
    using r by (auto simp: link_with_def split: bind_splits)
  note first = keeps_constrain_nodes [OF T g conjunct1 [OF d] h]
  from first keeps_constrain_nodes [OF T conjunct1 [OF first] conjunct2 [OF d] g'] show ?thesis
    by (simp add: link_with_def)
qed

lemma keeps_link_each:
  assumes T: "keeps T T'"
  shows "inv g \<Longrightarrow> \<forall>(n, l) \<in> set links. diff b n (link_offset l) \<and> diff n b (- link_offset l) \<Longrightarrow>
    link_each_with T g b links = Some g' \<Longrightarrow> inv g' \<and> link_each_with T' g b links = Some g'"
proof (induction links arbitrary: g)
  case (Cons x links)
  obtain n l where x: "x = (n, l)" by (cases x)
  with Cons.prems(3) obtain h where h: "link_with T g b n (link_offset l) = Some h"
    and g': "link_each_with T h b links = Some g'" by (auto split: bind_splits)
  have d: "diff b n (link_offset l) \<and> diff n b (- link_offset l)" using Cons.prems(2) x by simp
  note first = keeps_link [OF T Cons.prems(1) d h]
  from first Cons.IH [OF conjunct1 [OF first] _ g'] Cons.prems(2) show ?case by (simp add: x)
qed simp

lemma keeps_resolve_pending:
  assumes T: "keeps T T'" and g: "inv g" and r: "resolve_pending_with T g b = Some g'"
  shows "inv g' \<and> resolve_pending_with T' g b = Some g'"
proof (cases "g_pending g b")
  case None
  then show ?thesis using r g by (simp add: resolve_pending_with_def)
next
  case (Some m)
  have "\<forall>(n, l) \<in> set (ready_links g b m). diff b n (link_offset l) \<and> diff n b (- link_offset l)"
    using pending_settled [OF g Some] by blast
  then show ?thesis
    using r keeps_link_each [OF T pending_removed [OF g Some]]
    by (simp add: resolve_pending_with_def Some Let_def)
qed

lemma keeps_resolve_flip:
  assumes T: "keeps T T'" and g: "inv g" and r: "resolve_flip_with T g n = Some g'"
  shows "inv g' \<and> resolve_flip_with T' g n = Some g'"
proof (cases "g_flips g n")
  case None
  then show ?thesis using r g by (simp add: resolve_flip_with_def)
next
  case (Some p)
  obtain b f where p: "p = (b, f)" by (cases p)
  note fl = Some [unfolded p]
  note link = keeps_link [OF T flip_removed [OF g]]
  let ?min = "fst (domain_range (domain_of g f))"
  consider (pos) "0 \<le> fst (interval g b)" | (neg) "fst (interval g b) < 0" "snd (interval g b) < 0"
    | (undecided) "fst (interval g b) < 0" "0 \<le> snd (interval g b)" by linarith
  then show ?thesis
  proof cases
    case pos
    then show ?thesis
      using r link [OF flip_positive [OF g fl pos refl]]
      by (simp add: resolve_flip_with_def fl Let_def case_prod_beta)
  next
    case neg
    then show ?thesis
      using r link [of b f "- ?min"] flip_negative [OF g fl neg(2) refl]
      by (simp add: resolve_flip_with_def fl Let_def case_prod_beta)
  next
    case undecided
    then show ?thesis
      using r g keepsD [OF T g flip_low [OF g fl]] keepsD [OF T g flip_high [OF g fl]]
      by (auto simp: resolve_flip_with_def fl Let_def case_prod_beta split: if_splits)
  qed
qed

lemma keeps_resolve_cast:
  assumes T: "keeps T T'" and g: "inv g" and r: "resolve_cast_with T g c = Some g'"
  shows "inv g' \<and> resolve_cast_with T' g c = Some g'"
proof (cases "g_cast_links g c")
  case None
  then show ?thesis using r g by (simp add: resolve_cast_with_def)
next
  case (Some l)
  obtain v_low v_high where v: "interval g (cast_base l) = (v_low, v_high)"
    by (rule prod.exhaust)
  obtain t_low t_high where t: "interval g c = (t_low, t_high)" by (rule prod.exhaust)
  note i = v t
  let ?k = "- ((t_high - v_low) div cast_modulus l)"
  show ?thesis
  proof (cases "v_low < fst (cast_source l) \<or> v_high > snd (cast_source l)
      \<or> ?k \<noteq> (v_high - t_low) div cast_modulus l")
    case True
    then show ?thesis using r g by (auto simp: resolve_cast_with_def Some i Let_def split: if_splits)
  next
    case False
    then have "diff (cast_base l) c (- ?k * cast_modulus l) \<and> diff c (cast_base l) (?k * cast_modulus l)"
      using cast_settled [OF g Some i] by auto
    moreover have "resolve_cast_with U g c
        = link_with U (without_cast g (cast_base l) c) (cast_base l) c (- ?k * cast_modulus l)" for U
      using False by (simp add: resolve_cast_with_def Some i Let_def)
    ultimately show ?thesis
      using r keeps_link [OF T cast_removed [OF g], of "cast_base l" c "- ?k * cast_modulus l"] by simp
  qed
qed

lemma keeps_resolve_each:
  assumes T: "keeps T T'"
  shows "inv g \<Longrightarrow> resolve_each_with T g casts = Some g' \<Longrightarrow>
    inv g' \<and> resolve_each_with T' g casts = Some g'"
proof (induction casts arbitrary: g)
  case (Cons c casts)
  then obtain h where h: "resolve_cast_with T g c = Some h" and g': "resolve_each_with T h casts = Some g'"
    by (auto split: bind_splits)
  note first = keeps_resolve_cast [OF T Cons.prems(1) h]
  from first Cons.IH [OF conjunct1 [OF first] g'] show ?case by simp
qed simp

lemma keeps_resolve_casts:
  assumes T: "keeps T T'" and g: "inv g" and r: "resolve_casts_with T g n = Some g'"
  shows "inv g' \<and> resolve_casts_with T' g n = Some g'"
  using keeps_resolve_each [OF T g] r by (simp add: resolve_casts_with_def)

lemma keeps_resolve:
  assumes T: "keeps T T'" and g: "inv g" and r: "resolve_with T g n = Some g'"
  shows "inv g' \<and> resolve_with T' g n = Some g'"
proof -
  obtain h where h: "resolve_pending_with T g n = Some h"
    and r': "Option.bind (resolve_flip_with T h n) (\<lambda>g. resolve_casts_with T g n) = Some g'"
    using r unfolding resolve_with_def by (cases "resolve_pending_with T g n") simp_all
  obtain k where k: "resolve_flip_with T h n = Some k" and g': "resolve_casts_with T k n = Some g'"
    using r' by (cases "resolve_flip_with T h n") simp_all
  note 1 = keeps_resolve_pending [OF T g h]
  note 2 = keeps_resolve_flip [OF T conjunct1 [OF 1] k]
  note 3 = keeps_resolve_casts [OF T conjunct1 [OF 2] g']
  from 1 2 3 show ?thesis by (simp add: resolve_with_def)
qed

lemma set_foldl_push:
  "set (foldl (\<lambda>work (k, w). f k w # work) work xs) = set work \<union> (\<lambda>(k, w). f k w) ` set xs"
  by (induction xs arbitrary: work) auto

lemma keeps_push:
  assumes "push_edges edges f n g budget work = (g', budget', work')" and "inv g"
    and "\<forall>(n, l, h) \<in> set work. bound n l h"
    and "\<And>m k w. edges = Some m \<Longrightarrow> (k, w) \<in> set (entries m) \<Longrightarrow>
      (case f k w of (n, l, h) \<Rightarrow> bound n l h)"
  shows "inv g' \<and> (g_in_edges g' = g_in_edges g \<and> interval g' = interval g)
    \<and> (\<forall>(n, l, h) \<in> set work'. bound n l h)"
proof (cases edges)
  case None
  then have "g' = g" "work' = work" using assms(1) by (simp_all add: push_edges_def)
  then show ?thesis using assms(2,3) by simp
next
  case (Some m)
  have work': "work' = foldl (\<lambda>work (k, w). f k w # work) work (take budget (entries m))"
    and g': "g' = (if map_len m > budget then g\<lparr>g_truncated := insert n (g_truncated g)\<rparr> else g)"
    using assms(1) by (simp_all add: push_edges_def Some Let_def)
  have "\<forall>(n, l, h) \<in> set work'. bound n l h"
  proof
    fix x
    assume "x \<in> set work'"
    then consider "x \<in> set work" | k w where "(k, w) \<in> set (entries m)" "x = f k w"
      unfolding work' set_foldl_push using in_set_takeD by fastforce
    then show "case x of (n, l, h) \<Rightarrow> bound n l h"
    proof cases
      case 1
      then show ?thesis using assms(3) by blast
    next
      case 2
      then show ?thesis using assms(4) [OF Some] by simp
    qed
  qed
  then show ?thesis using truncate [OF assms(2)] assms(2) by (simp add: g')
qed

abbreviation allowed :: "work \<Rightarrow> bool" where
  "allowed work \<equiv> \<forall>(n, l, h) \<in> set work. bound n l h"

lemma keeps_push_out:
  assumes g: "inv g" and w: "allowed work"
    and r: "push_edges (g_out_edges g n) (\<lambda>next weight. (next, None, Some (saturating_add high weight)))
      n g budget work = (g', budget', work')"
    and high: "high = snd (interval g n)"
  shows "inv g'" "allowed work'" "g_in_edges g' = g_in_edges g" "interval g' = interval g"
proof -
  have "inv g' \<and> (g_in_edges g' = g_in_edges g \<and> interval g' = interval g) \<and> allowed work'"
    by (rule keeps_push [OF r g w]) (simp add: out_bound [OF g] high)
  then show "inv g'" "allowed work'" "g_in_edges g' = g_in_edges g" "interval g' = interval g" by auto
qed

lemma keeps_push_in:
  assumes g: "inv g" and w: "allowed work"
    and r: "push_edges (g_in_edges g n) (\<lambda>previous weight. (previous, Some (saturating_sub low weight), None))
      n g budget work = (g', budget', work')"
    and low: "low = fst (interval g n)"
  shows "inv g'" "allowed work'"
proof -
  have "inv g' \<and> (g_in_edges g' = g_in_edges g \<and> interval g' = interval g) \<and> allowed work'"
    by (rule keeps_push [OF r g w]) (simp add: in_bound [OF g] low)
  then show "inv g'" "allowed work'" by auto
qed

lemma keeps_spread:
  assumes r: "spread g n (old_low, old_high) (low, high) budget work = (g', budget', work')" and g: "inv g"
    and w: "allowed work" and new: "interval g n = (low, high)"
  shows "inv g' \<and> allowed work'"
proof -
  let ?f = "\<lambda>next weight. (next, None, Some (saturating_add high weight))"
  let ?h = "\<lambda>previous weight. (previous, Some (saturating_sub low weight), None)"
  obtain g1 budget1 work1 where first: "(if high < old_high
      then push_edges (g_out_edges g n) ?f n g budget work else (g, budget, work)) = (g1, budget1, work1)"
    by (rule prod_cases3)
  have second: "(if old_low < low
      then push_edges (g_in_edges g1 n) ?h n g1 budget1 work1 else (g1, budget1, work1)) = (g', budget', work')"
    using r unfolding spread_def Let_def prod.case first by simp
  have "inv g1 \<and> allowed work1 \<and> g_in_edges g1 = g_in_edges g \<and> interval g1 = interval g"
  proof (cases "high < old_high")
    case True
    then have "push_edges (g_out_edges g n) ?f n g budget work = (g1, budget1, work1)" using first by simp
    from keeps_push_out [OF g w this] new show ?thesis by simp
  next
    case False
    then show ?thesis using first g w by simp
  qed
  then have g1: "inv g1" and w1: "allowed work1" and i: "low = fst (interval g1 n)" using new by simp_all
  show ?thesis
  proof (cases "old_low < low")
    case True
    then have "push_edges (g_in_edges g1 n) ?h n g1 budget1 work1 = (g', budget', work')" using second by simp
    from keeps_push_in [OF g1 w1 this i] show ?thesis by blast
  next
    case False
    then show ?thesis using second g1 w1 by simp
  qed
qed

lemma keeps_loop:
  assumes T: "keeps T T'"
  shows "inv g \<Longrightarrow> allowed work \<Longrightarrow> tighten_loop T g work budget = Some g' \<Longrightarrow>
    inv g' \<and> tighten_loop T' g work budget = Some g'"
proof (induction "length work + budget" arbitrary: g work budget rule: less_induct)
  case less
  show ?case
  proof (cases work)
    case Nil
    then show ?thesis using less.prems by simp
  next
    case (Cons x rest)
    obtain n low high where x: "x = (n, low, high)" by (rule prod_cases3)
    have b: "bound n low high" and w: "allowed rest"
      using less.prems(2) Cons x by auto
    let ?new = "narrowed g n low high"
    note step = Cons x tighten_loop.simps(2) Let_def
    show ?thesis
    proof (cases "g_contradictory g \<or> ?new = interval g n \<or> fst ?new > snd ?new")
      case True
      then show ?thesis
        using less.prems less.hyps [OF _ less.prems(1) w] no_value [OF less.prems(1) b refl]
        by (auto simp: step split: if_splits)
    next
      case False
      let ?g = "with_bounds g n ?new"
      obtain g1 budget1 work1 where s: "spread ?g n (interval g n) ?new budget rest = (g1, budget1, work1)"
        by (rule prod_cases3)
      have g: "inv ?g" using narrow [OF less.prems(1) b refl] False by simp
      have "interval ?g n = ?new" by (simp add: interval_def)
      with keeps_spread [of ?g n "fst (interval g n)" "snd (interval g n)" "fst ?new" "snd ?new"] s g w
      have g1: "inv g1" and w1: "allowed work1" by simp_all
      have eq: "tighten_loop U g work budget
          = (case resolve_with U g1 n of None \<Rightarrow> None | Some g \<Rightarrow> tighten_loop U g work1 budget1)" for U
        using False s by (simp add: step)
      then obtain g2 where g2: "resolve_with T g1 n = Some g2" and l: "tighten_loop T g2 work1 budget1 = Some g'"
        using less.prems(3) by (auto split: option.splits)
      have "length work1 + budget1 < length work + budget"
        using spread_measure [OF s] Cons by simp
      note rest = less.hyps [OF this conjunct1 [OF keeps_resolve [OF T g1 g2]] w1 l]
      show ?thesis using rest keeps_resolve [OF T g1 g2] by (simp add: eq)
    qed
  qed
qed

lemma keeps_tighten: "keeps (tighten depth) (tighten (Suc depth))"
proof (induction depth)
  case 0
  then show ?case by (simp add: keeps_def)
next
  case (Suc depth)
  show ?case
    unfolding keeps_def
  proof (intro allI impI)
    fix g n low high g'
    assume g: "inv g" and b: "bound n low high" and r: "tighten (Suc depth) g n low high = Some g'"
    have "allowed [(n, low, high)]" using b by simp
    from keeps_loop [OF Suc g this r [unfolded tighten.simps(2) [of depth g n low high]]]
    show "inv g' \<and> tighten (Suc (Suc depth)) g n low high = Some g'"
      unfolding tighten.simps(2) [of "Suc depth" g n low high] .
  qed
qed

lemma keeps_deeper: "depth \<le> depth' \<Longrightarrow> keeps (tighten depth) (tighten depth')"
proof (induction depth' rule: dec_induct)
  case base
  then show ?case using keeps_tighten [of depth] unfolding keeps_def by blast
next
  case (step depth')
  then show ?case using keeps_tighten [of depth'] unfolding keeps_def by blast
qed

lemma keeps_if_tighten:
  assumes "\<And>g n low high g'. inv g \<Longrightarrow> bound n low high \<Longrightarrow> T g n low high = Some g' \<Longrightarrow>
    (\<exists>depth. tighten depth g n low high = Some g') \<and> T' g n low high = Some g'"
  shows "keeps T T'"
  unfolding keeps_def
proof (intro allI impI)
  fix g n low high g'
  assume g: "inv g" and b: "bound n low high" and "T g n low high = Some g'"
  with assms obtain depth where t: "tighten depth g n low high = Some g'" and t': "T' g n low high = Some g'"
    by blast
  from keepsD [OF keeps_deeper [OF order_refl] g b t] t' show "inv g' \<and> T' g n low high = Some g'" by blast
qed

end

end
