(* ===== verification/DifferenceProgress.thy ===== *)
theory DifferenceProgress
  imports DifferencePropagation
begin

text \<open>
  The representation invariant of the difference graph, and that propagation ends: each
  nested call of \<^verbatim>\<open>tighten\<close> follows the removal of a pending link, a cast link
  or an open sign case, so the work left bounds the depth.
\<close>

section \<open>Narrowing\<close>

lemma skip_low_le: "low \<le> skip_low e low high"
proof (induction e low high rule: skip_low.induct)
  case (1 e low high)
  show ?case
  proof (cases "low \<le> high \<and> e low")
    case True
    then show ?thesis using 1 [OF True] by (subst skip_low.simps) simp
  next
    case False
    then show ?thesis by (subst skip_low.simps) auto
  qed
qed

lemma skip_high_le: "skip_high e low high \<le> high"
proof (induction e low high rule: skip_high.induct)
  case (1 e low high)
  show ?case
  proof (cases "low \<le> high \<and> e high")
    case True
    then show ?thesis using 1 [OF True] by (subst skip_high.simps) simp
  next
    case False
    then show ?thesis by (subst skip_high.simps) auto
  qed
qed

lemma narrowed_narrower:
  "fst (interval g n) \<le> fst (narrowed g n low high)"
  "snd (narrowed g n low high) \<le> snd (interval g n)"
proof -
  obtain l h where i: "interval g n = (l, h)" by (rule prod.exhaust)
  let ?l = "case low of None \<Rightarrow> l | Some x \<Rightarrow> max x l"
  let ?h = "case high of None \<Rightarrow> h | Some x \<Rightarrow> min x h"
  have "l \<le> ?l" "?h \<le> h" by (auto split: option.split)
  then show "fst (interval g n) \<le> fst (narrowed g n low high)"
    "snd (narrowed g n low high) \<le> snd (interval g n)"
    using skip_low_le [of ?l "excludes g n" ?h] skip_high_le [of "excludes g n" _ ?h]
    by (auto simp: narrowed_def i Let_def intro: order_trans)
qed

lemma narrowed_low: "x \<le> fst (narrowed g n (Some x) high)"
proof -
  obtain l h where i: "interval g n = (l, h)" by (rule prod.exhaust)
  show ?thesis
    using skip_low_le [of "max x l" "excludes g n" "case high of None \<Rightarrow> h | Some x \<Rightarrow> min x h"]
    by (simp add: narrowed_def i Let_def)
qed

lemma narrowed_high: "snd (narrowed g n low (Some x)) \<le> x"
proof -
  obtain l h where i: "interval g n = (l, h)" by (rule prod.exhaust)
  show ?thesis
    using skip_high_le [of "excludes g n" _ "min x h"]
    by (simp add: narrowed_def i Let_def)
qed

lemma interval_with_bounds: "interval (with_bounds g n new) = (interval g)(n := new)"
  by (simp add: interval_def domain_of_def fun_eq_iff split: option.split)

section \<open>The representation invariant\<close>

abbreviation in_range :: "'x difference_graph \<Rightarrow> affine \<Rightarrow> bool" where
  "in_range g a \<equiv> (\<forall>n. fst a = Some n \<longrightarrow> n < g_next g)"

abbreviation wf_edges :: "nat \<Rightarrow> (nat \<Rightarrow> (nat, 'w) pmap option) \<Rightarrow> bool" where
  "wf_edges bound edges \<equiv>
     \<forall>n m. edges n = Some m \<longrightarrow> n < bound \<and> store.holds (\<lambda>k w. k < bound) m"

definition wf_graph :: "'x difference_graph \<Rightarrow> bool" where
  "wf_graph g \<longleftrightarrow>
     (\<forall>k n. g_nodes g k = Some n \<longrightarrow> n < g_next g)
     \<and> (\<forall>n. g_domains g n \<noteq> None \<longleftrightarrow> n < g_next g)
     \<and> (\<forall>n. g_bounds g n \<noteq> None \<longrightarrow> n < g_next g)
     \<and> wf_edges (g_next g) (g_out_edges g)
     \<and> wf_edges (g_next g) (g_in_edges g)
     \<and> wf_edges (g_next g) (g_pending g)
     \<and> (\<forall>n m. g_pending g n = Some m \<longrightarrow> wf_map m)
     \<and> (\<forall>n. g_excluded g n \<noteq> None \<longrightarrow> n < g_next g)
     \<and> (\<forall>n b f. g_flips g n = Some (b, f) \<longrightarrow>
          n < g_next g \<and> b < g_next g \<and> f < g_next g \<and> (n = b \<or> n = f))
     \<and> (\<forall>n l. g_cast_links g n = Some l \<longrightarrow> n < g_next g \<and> cast_base l < g_next g)
     \<and> (\<forall>c a b. (c, a, b) \<in> g_no_overflow g \<longrightarrow> in_range g a \<and> in_range g b)
     \<and> wf_classes (g_pointers g)"

lemma wf_graphD:
  assumes "wf_graph g"
  shows "g_nodes g k = Some n \<Longrightarrow> n < g_next g"
    and "g_domains g n \<noteq> None \<longleftrightarrow> n < g_next g"
    and "g_bounds g n \<noteq> None \<Longrightarrow> n < g_next g"
    and "wf_edges (g_next g) (g_out_edges g)"
    and "wf_edges (g_next g) (g_in_edges g)"
    and "wf_edges (g_next g) (g_pending g)"
    and "g_pending g n = Some m \<Longrightarrow> wf_map m"
    and "g_excluded g n \<noteq> None \<Longrightarrow> n < g_next g"
    and "g_flips g n = Some (b, f) \<Longrightarrow>
      n < g_next g \<and> b < g_next g \<and> f < g_next g \<and> (n = b \<or> n = f)"
    and "g_cast_links g n = Some l \<Longrightarrow> n < g_next g \<and> cast_base l < g_next g"
    and "(c, a, b') \<in> g_no_overflow g \<Longrightarrow> in_range g a \<and> in_range g b'"
    and "wf_classes (g_pointers g)"
  using assms unfolding wf_graph_def by meson+

lemma wf_graph_new: "wf_graph graph_new"
  by (simp add: wf_graph_def graph_new_def wf_pc_empty)

text \<open>Progress: names and facts stay, intervals narrow, and no work appears.\<close>

definition advances :: "'x difference_graph \<Rightarrow> 'x difference_graph \<Rightarrow> bool" where
  "advances g h \<longleftrightarrow>
     g_nodes h = g_nodes g \<and> g_domains h = g_domains g \<and> g_next h = g_next g
     \<and> g_excluded h = g_excluded g \<and> g_residues h = g_residues g \<and> g_pointers h = g_pointers g
     \<and> g_no_overflow h = g_no_overflow g
     \<and> (\<forall>n. fst (interval g n) \<le> fst (interval h n) \<and> snd (interval h n) \<le> snd (interval g n))
     \<and> (\<forall>n. node_work h n \<le> node_work g n)"

lemma advances_refl [simp]: "advances g g"
  by (simp add: advances_def)

lemma advances_trans [trans]: "advances f g \<Longrightarrow> advances g h \<Longrightarrow> advances f h"
  unfolding advances_def by (metis order_trans)

lemma advances_same:
  assumes "g_nodes h = g_nodes g" "g_domains h = g_domains g" "g_next h = g_next g"
    and "g_excluded h = g_excluded g" "g_residues h = g_residues g" "g_pointers h = g_pointers g"
    and "g_no_overflow h = g_no_overflow g" "g_bounds h = g_bounds g"
    and "\<And>n. node_work h n \<le> node_work g n"
  shows "advances g h"
  using assms interval_cong [of g h] by (simp add: advances_def)

lemma node_work_cong:
  "g_pending g n = g_pending h n \<Longrightarrow> g_cast_links g n = g_cast_links h n \<Longrightarrow>
   g_flips g n = g_flips h n \<Longrightarrow> interval g = interval h \<Longrightarrow> node_work g n = node_work h n"
  by (simp add: node_work_def split: option.split)

lemma work_left_mono: "advances g h \<Longrightarrow> work_left h \<le> work_left g"
  by (auto simp: advances_def work_left_def intro: sum_list_mono)

lemma work_left_less:
  assumes "advances g h" "n < g_next g" "node_work h n < node_work g n"
  shows "work_left h < work_left g"
proof -
  have "sum (node_work h) {..<g_next g} < sum (node_work g) {..<g_next g}"
    using assms by (intro sum_strict_mono_ex1) (auto simp: advances_def)
  moreover have "sum_list (map f [0..<k]) = sum f {..<k}" for f :: "nat \<Rightarrow> nat" and k
    by (simp add: interv_sum_list_conv_sum_set_nat lessThan_atLeast0)
  ultimately show ?thesis using assms(1) by (simp add: work_left_def advances_def)
qed

section \<open>The elementary updates\<close>

lemma holds_record_edge:
  assumes "wf_edges bound edges" "a < bound" "b < bound"
  shows "wf_edges bound (record_edge edges a b w)"
  using assms by (auto simp: record_edge_def intro!: store.holds_insert split: option.split)

lemma without_ready_links:
  assumes "wf_map m" and "store.holds P m"
  shows "wf_map (foldl (\<lambda>m (node, link). without_key m node) m links)
    \<and> store.holds P (foldl (\<lambda>m (node, link). without_key m node) m links)"
  using assms
  by (induction links arbitrary: m) (auto simp: wf_without_key store.holds_remove)

lemma length_without_key:
  "wf_map m \<Longrightarrow> length (entries (without_key m k)) \<le> length (entries m)"
  "wf_map m \<Longrightarrow> (k, v) \<in> set (entries m) \<Longrightarrow> length (entries (without_key m k)) < length (entries m)"
proof -
  assume wf: "wf_map m"
  have l: "length (entries (without_key m k)) = length (entries m) - of_bool (map_of (entries m) k \<noteq> None)"
    using wf by (simp add: entries_without_key length_del_entry pmap.items_ascending)
  then show "length (entries (without_key m k)) \<le> length (entries m)" by simp
  assume "(k, v) \<in> set (entries m)"
  then have "map_of (entries m) k \<noteq> None" "0 < length (entries m)"
    using weak_map_of_SomeI [of k v "entries m"] by (auto simp: length_pos_if_in_set)
  then show "length (entries (without_key m k)) < length (entries m)" using l by simp
qed

lemma length_without_links:
  assumes "wf_map m"
  shows "length (entries (foldl (\<lambda>m (node, link). without_key m node) m links)) \<le> length (entries m)"
  using assms
proof (induction links arbitrary: m)
  case (Cons x links)
  obtain node link where x: "x = (node, link)" by (rule prod.exhaust)
  show ?case
    using Cons.IH [OF wf_without_key [OF Cons.prems, of node]] length_without_key(1) [OF Cons.prems, of node]
    by (simp add: x)
qed simp

lemma length_without_ready:
  assumes wf: "wf_map m" and ready: "ready_links g b m \<noteq> []"
  shows "length (entries (foldl (\<lambda>m (node, link). without_key m node) m (ready_links g b m)))
    < length (entries m)"
proof -
  obtain node link links where r: "ready_links g b m = (node, link) # links"
    using ready by (cases "ready_links g b m") auto
  have "set (ready_links g b m) \<subseteq> set (entries m)"
    using set_take_subset [of EDGE_LIMIT "entries m"] by (auto simp: ready_links_def)
  then have "(node, link) \<in> set (entries m)" by (simp add: r)
  from length_without_key(2) [OF wf this] length_without_links [OF wf_without_key [OF wf, of node], of links]
  show ?thesis by (simp add: r)
qed

lemma wf_with_bounds: "wf_graph g \<Longrightarrow> n < g_next g \<Longrightarrow> wf_graph (with_bounds g n new)"
  by (simp add: wf_graph_def)

lemma wf_with_edge:
  assumes "wf_graph g" "a < g_next g" "b < g_next g"
  shows "wf_graph (with_edge g a b w)"
  using assms(1) holds_record_edge [OF wf_graphD(4) [OF assms(1)] assms(2,3)]
    holds_record_edge [OF wf_graphD(5) [OF assms(1)] assms(3,2)]
  by (simp add: wf_graph_def)

lemma wf_contradict: "wf_graph g \<Longrightarrow> wf_graph (contradict g)"
  by (simp add: wf_graph_def)

lemma wf_truncate: "wf_graph g \<Longrightarrow> wf_graph (g\<lparr>g_truncated := s\<rparr>)"
  by (simp add: wf_graph_def)

lemma wf_without_flip: "wf_graph g \<Longrightarrow> wf_graph (without_flip g b f)"
  by (simp add: wf_graph_def)

lemma wf_without_cast: "wf_graph g \<Longrightarrow> wf_graph (without_cast g b c)"
  by (simp add: wf_graph_def)

lemma wf_without_ready:
  assumes wf: "wf_graph g" and m: "g_pending g b = Some m"
  shows "wf_graph (without_ready g b m)"
proof -
  let ?m = "foldl (\<lambda>m (node, link). without_key m node) m (ready_links g b m)"
  have "b < g_next g" "store.holds (\<lambda>k w. k < g_next g) m" using wf_graphD(6) [OF wf] m by auto
  with without_ready_links [OF wf_graphD(7) [OF wf m]]
  have "wf_map ?m" "store.holds (\<lambda>k w. k < g_next g) ?m" by blast+
  then show ?thesis using wf \<open>b < g_next g\<close> by (simp add: wf_graph_def Let_def)
qed

lemma advances_with_bounds:
  assumes "narrowed g n low high = new"
  shows "advances g (with_bounds g n new)"
proof -
  have i: "fst (interval g k) \<le> fst (interval (with_bounds g n new) k)
      \<and> snd (interval (with_bounds g n new) k) \<le> snd (interval g k)" for k
    using narrowed_narrower [of g n low high] assms by (auto simp: interval_with_bounds)
  then have "straddles (interval g k)" if "straddles (interval (with_bounds g n new) k)" for k
    using that by (meson order_less_le_trans order_trans order_le_less_trans straddles_def)
  then have "node_work (with_bounds g n new) k \<le> node_work g k" for k
    by (auto simp: node_work_def split: option.split)
  then show ?thesis using i by (simp add: advances_def)
qed

lemma advances_with_edge: "advances g (with_edge g a b w)"
  by (rule advances_same) (simp_all add: node_work_def split: option.split)

lemma advances_contradict: "advances g (contradict g)"
  by (rule advances_same) (simp_all add: node_work_def split: option.split)

lemma advances_truncate: "advances g (g\<lparr>g_truncated := s\<rparr>)"
  by (rule advances_same) (simp_all add: node_work_def split: option.split)

lemma advances_without_flip: "advances g (without_flip g b f)"
  by (rule advances_same) (auto simp: node_work_def split: option.split)

lemma advances_without_cast: "advances g (without_cast g b c)"
  by (rule advances_same) (auto simp: node_work_def split: option.split)

lemma advances_without_ready:
  assumes "wf_graph g" "g_pending g b = Some m"
  shows "advances g (without_ready g b m)"
proof -
  have "length (entries (foldl (\<lambda>m (node, link). without_key m node) m (ready_links g b m))) \<le> length (entries m)"
    using length_without_links wf_graphD(7) [OF assms] by blast
  then show ?thesis
    by (intro advances_same) (auto simp: node_work_def Let_def assms(2) split: option.split)
qed

section \<open>Propagation keeps the invariant and makes progress\<close>

interpretation progress: propagation "\<lambda>g. wf_graph g \<and> advances g0 g"
  "\<lambda>n low high. n < g_next g0" "\<lambda>a b w. a < g_next g0 \<and> b < g_next g0"
  for g0 :: "'x difference_graph"
proof -
  have next_eq: "advances g0 g \<Longrightarrow> g_next g0 = g_next g" for g :: "'x difference_graph"
    by (simp add: advances_def)
  have edges: "k < g_next g0"
    if "wf_graph g \<and> advances g0 g" "g_out_edges g n = Some m \<or> g_in_edges g n = Some m"
      "(k, w) \<in> set (entries m)" for g :: "'x difference_graph" and n m k w
  proof -
    have "wf_edges (g_next g) (g_out_edges g)" "wf_edges (g_next g) (g_in_edges g)"
      using wf_graphD(4,5) that(1) by blast+
    then have "store.holds (\<lambda>k w. k < g_next g) m" using that(2) by blast
    then show ?thesis using store.holds_item [OF _ that(3)] next_eq that(1) by fastforce
  qed
  have pending: "b < g_next g0 \<and> n < g_next g0"
    if "wf_graph g \<and> advances g0 g" "g_pending g b = Some m" "(n, l) \<in> set (ready_links g b m)"
    for g :: "'x difference_graph" and b m n l
  proof -
    have "b < g_next g" "store.holds (\<lambda>k w. k < g_next g) m"
      using wf_graphD(6) that(1,2) by blast+
    moreover have "(n, l) \<in> set (entries m)"
      using that(3) by (auto simp: ready_links_def dest: in_set_takeD)
    ultimately show ?thesis using store.holds_item next_eq that(1) by metis
  qed
  have step: "wf_graph h \<and> advances g0 h"
    if "wf_graph g \<and> advances g0 g" "wf_graph h" "advances g h" for g h :: "'x difference_graph"
    using that advances_trans by blast
  show "propagation (\<lambda>g. wf_graph g \<and> advances g0 g) (\<lambda>n low high. n < g_next g0)
      (\<lambda>a b w. a < g_next g0 \<and> b < g_next g0)"
  proof (unfold_locales, goal_cases)
    case (1 g n low high new)
    show ?case
      by (rule step [OF 1(1) wf_with_bounds advances_with_bounds]) (use 1 next_eq [of g] in auto)
  next
    case (2 g)
    then show ?case by (intro step [OF _ wf_contradict advances_contradict]) auto
  next
    case (3 g)
    then show ?case by (intro step [OF _ wf_truncate advances_truncate]) auto
  next
    case 4
    then show ?case using edges by blast
  next
    case 5
    then show ?case using edges by blast
  next
    case (6 g a b w)
    show ?case
      by (rule step [OF 6(1) wf_with_edge advances_with_edge]) (use 6 next_eq [of g] in auto)
  next
    case (9 g)
    then show ?case by (intro step [OF _ wf_contradict advances_contradict]) auto
  next
    case (10 g)
    then show ?case by (intro step [OF _ wf_contradict advances_contradict]) auto
  next
    case (11 g)
    then show ?case by (intro step [OF _ wf_without_flip advances_without_flip]) auto
  next
    case (12 g n b f)
    then show ?case using wf_graphD(9) [of g n b f] next_eq [of g] by simp
  next
    case (13 g n b f)
    then show ?case using wf_graphD(9) [of g n b f] next_eq [of g] by simp
  next
    case (14 g n b f)
    then show ?case using wf_graphD(9) [of g n b f] next_eq [of g] by simp
  next
    case (15 g n b f)
    then show ?case using wf_graphD(9) [of g n b f] next_eq [of g] by simp
  next
    case (16 g)
    then show ?case by (intro step [OF _ wf_without_cast advances_without_cast]) auto
  next
    case (17 g c l)
    then show ?case using wf_graphD(10) [of g c l] next_eq [of g] by simp
  next
    case (18 g b m)
    then show ?case by (intro step [OF _ wf_without_ready advances_without_ready]) auto
  next
    case 19
    then show ?case using pending by blast
  qed simp_all
qed

section \<open>Every call returns\<close>

lemma tighten_step:
  assumes "wf_graph g" "n < g_next g" "tighten depth g n low high = Some h"
  shows "wf_graph h \<and> advances g h"
  using progress.keepsD [OF progress.keeps_deeper [OF order_refl], of g g n depth low high h] assms by simp

lemma constrain_step:
  assumes "wf_graph g" "a < g_next g" "b < g_next g"
    and "constrain_with (tighten depth) g (Some a, 0) (Some b, 0) w = Some h"
  shows "wf_graph h \<and> advances g h"
  using progress.keeps_constrain_nodes [OF progress.keeps_deeper [OF order_refl], of g g a b depth w h] assms
  by simp

lemma link_step:
  assumes "wf_graph g" "a < g_next g" "b < g_next g" "link_with (tighten depth) g a b k = Some h"
  shows "wf_graph h \<and> advances g h"
  using progress.keeps_link [OF progress.keeps_deeper [OF order_refl], where ?g0.0 = g and g = g and b = a and n = b and k = k] assms
    advances_refl [of g]
  by blast

lemma resolve_cast_step:
  assumes "wf_graph g" "resolve_cast_with (tighten depth) g c = Some h"
  shows "wf_graph h \<and> advances g h"
  using progress.keeps_resolve_cast [OF progress.keeps_deeper [OF order_refl], of g g depth c h] assms by simp

lemma resolve_pending_step:
  assumes "wf_graph g" "resolve_pending_with (tighten depth) g b = Some h"
  shows "wf_graph h \<and> advances g h"
  using progress.keeps_resolve_pending [OF progress.keeps_deeper [OF order_refl], of g g depth b h] assms by simp

lemma resolve_flip_step:
  assumes "wf_graph g" "resolve_flip_with (tighten depth) g b = Some h"
  shows "wf_graph h \<and> advances g h"
  using progress.keeps_resolve_flip [OF progress.keeps_deeper [OF order_refl], of g g depth b h] assms by simp

lemma resolve_step:
  assumes "wf_graph g" "resolve_with (tighten depth) g b = Some h"
  shows "wf_graph h \<and> advances g h"
  using progress.keeps_resolve [OF progress.keeps_deeper [OF order_refl], of g g depth b h] assms by simp

text \<open>The depth left covers the work left once the call has narrowed its interval.\<close>

definition returns :: "'x tightening \<Rightarrow> nat \<Rightarrow> bool" where
  "returns T depth \<longleftrightarrow> (\<forall>g n low high. wf_graph g \<longrightarrow> n < g_next g \<longrightarrow>
     work_left (with_bounds g n (narrowed g n low high)) < depth \<longrightarrow> T g n low high \<noteq> None)"

lemma returnsD:
  "returns (tighten depth :: 'x tightening) depth \<Longrightarrow> wf_graph (g :: 'x difference_graph) \<Longrightarrow> n < g_next g \<Longrightarrow>
   work_left (with_bounds g n (narrowed g n low high)) < depth \<Longrightarrow> \<exists>h. tighten depth g n low high = Some h"
  unfolding returns_def not_None_eq by meson

lemma returns_call:
  assumes "returns (tighten depth :: 'x tightening) depth" "wf_graph (g :: 'x difference_graph)" "n < g_next g" "work_left g < depth"
  shows "\<exists>h. tighten depth g n low high = Some h"
  using returnsD [OF assms(1-3)] work_left_mono [OF advances_with_bounds [OF refl], of g n low high] assms(4)
  by (meson le_less_trans)

lemma returns_constrain:
  assumes R: "returns (tighten depth :: 'x tightening) depth" and wf: "wf_graph (g :: 'x difference_graph)" and n: "a < g_next g" "b < g_next g"
    and w: "work_left g < depth"
  shows "\<exists>h. constrain_with (tighten depth) g (Some a, 0) (Some b, 0) k = Some h"
proof (cases "a = b \<or> edge_known g a b k \<or> closes_negative_cycle g a b k")
  case True
  then show ?thesis by (auto simp: constrain_with_def add_edge_with_def)
next
  case False
  let ?g = "with_edge g a b k"
  let ?out = "Some (saturating_add (snd (interval g a)) k)" and ?in = "Some (saturating_sub (fst (interval g b)) k)"
  have wf1: "wf_graph ?g" by (rule wf_with_edge [OF wf n])
  have w1: "work_left ?g < depth"
    using work_left_mono [OF advances_with_edge [where g = g and a = a and b = b and w = k]] w by simp
  obtain h where h: "tighten depth ?g b None ?out = Some h"
    using returns_call [OF R wf1 _ w1, of b None ?out] n by auto
  have s: "wf_graph h \<and> advances ?g h" using tighten_step [OF wf1 _ h] n by simp
  have "work_left h < depth" using work_left_mono [OF conjunct2 [OF s]] w1 by simp
  moreover have "a < g_next h" using s n by (simp add: advances_def)
  ultimately obtain h' where "tighten depth h a ?in None = Some h'"
    using returns_call [OF R conjunct1 [OF s]] by blast
  then show ?thesis using False h by (simp add: constrain_with_def add_edge_with_def Let_def)
qed

lemma returns_link:
  assumes R: "returns (tighten depth :: 'x tightening) depth" and wf: "wf_graph (g :: 'x difference_graph)" and n: "a < g_next g" "b < g_next g"
    and w: "work_left g < depth"
  shows "\<exists>h. link_with (tighten depth) g a b k = Some h"
proof -
  obtain h where h: "constrain_with (tighten depth) g (Some a, 0) (Some b, 0) k = Some h"
    using returns_constrain [OF R wf n w] by blast
  note s = constrain_step [OF wf n h]
  have "work_left h < depth" using work_left_mono [OF conjunct2 [OF s]] w by simp
  moreover have "a < g_next h" "b < g_next h" using s n by (simp_all add: advances_def)
  ultimately obtain h' where "constrain_with (tighten depth) h (Some b, 0) (Some a, 0) (- k) = Some h'"
    using returns_constrain [OF R conjunct1 [OF s]] by blast
  then show ?thesis using h by (simp add: link_with_def)
qed

lemma returns_link_each:
  assumes R: "returns (tighten depth :: 'x tightening) depth"
  shows "wf_graph (g :: 'x difference_graph) \<Longrightarrow> b < g_next g \<Longrightarrow> \<forall>(n, l) \<in> set links. n < g_next g \<Longrightarrow> work_left g < depth \<Longrightarrow>
    \<exists>h. link_each_with (tighten depth) g b links = Some h"
proof (induction links arbitrary: g)
  case (Cons x links)
  obtain n l where x: "x = (n, l)" by (rule prod.exhaust)
  have n: "n < g_next g" using Cons.prems x by simp
  obtain h where h: "link_with (tighten depth) g b n (link_offset l) = Some h"
    using returns_link [OF R Cons.prems(1,2) n Cons.prems(4)] by blast
  note s = link_step [OF Cons.prems(1,2) n h]
  have "work_left h < depth" using work_left_mono [OF conjunct2 [OF s]] Cons.prems(4) by simp
  moreover have "g_next h = g_next g" using s by (simp add: advances_def)
  ultimately obtain h' where "link_each_with (tighten depth) h b links = Some h'"
    using Cons.IH [OF conjunct1 [OF s]] Cons.prems by auto
  then show ?case using h by (simp add: x)
qed simp

lemma node_work_with_flip:
  "g_flips g n = Some (b, f) \<Longrightarrow> n = b \<or> n = f \<Longrightarrow> node_work (without_flip g b f) n < node_work g n"
  by (auto simp: node_work_def)

lemma returns_resolve_pending:
  assumes R: "returns (tighten depth :: 'x tightening) depth" and wf: "wf_graph (g :: 'x difference_graph)" and w: "work_left g < Suc depth"
  shows "\<exists>h. resolve_pending_with (tighten depth) g b = Some h"
proof (cases "g_pending g b")
  case None
  then show ?thesis by (simp add: resolve_pending_with_def)
next
  case (Some m)
  let ?g = "without_ready g b m" and ?links = "ready_links g b m"
  have eq: "resolve_pending_with (tighten depth) g b = link_each_with (tighten depth) ?g b ?links"
    by (simp add: resolve_pending_with_def Some Let_def)
  show ?thesis
  proof (cases "?links = []")
    case True
    then show ?thesis unfolding eq by simp
  next
    case False
    have b: "b < g_next g" and m: "store.holds (\<lambda>k w. k < g_next g) m"
      using wf_graphD(6) [OF wf] Some by auto
    have links: "\<forall>(n, l) \<in> set ?links. n < g_next g"
    proof
      fix x assume "x \<in> set ?links"
      moreover obtain n l where x: "x = (n, l)" by (rule prod.exhaust)
      ultimately have "(n, l) \<in> set (entries m)" by (auto simp: ready_links_def dest: in_set_takeD)
      from store.holds_item [OF m this] show "case x of (n, l) \<Rightarrow> n < g_next g" by (simp add: x)
    qed
    have "node_work ?g b < node_work g b"
      using length_without_ready [OF wf_graphD(7) [OF wf Some] False]
      by (auto simp: node_work_def Some Let_def split: option.split)
    from work_left_less [OF advances_without_ready [OF wf Some] b this] w
    have "work_left ?g < depth" by simp
    moreover have "g_next ?g = g_next g" by (simp add: Let_def)
    ultimately show ?thesis
      unfolding eq using returns_link_each [OF R wf_without_ready [OF wf Some], of b ?links] b links by simp
  qed
qed

lemma returns_resolve_flip:
  assumes R: "returns (tighten depth :: 'x tightening) depth" and wf: "wf_graph (g :: 'x difference_graph)" and w: "work_left g < Suc depth"
  shows "\<exists>h. resolve_flip_with (tighten depth) g n = Some h"
proof (cases "g_flips g n")
  case None
  then show ?thesis by (simp add: resolve_flip_with_def)
next
  case (Some p)
  obtain b f where p: "p = (b, f)" by (rule prod.exhaust)
  note fl = Some [unfolded p]
  have r: "n < g_next g" "b < g_next g" "f < g_next g" "n = b \<or> n = f" using wf_graphD(9) [OF wf fl] by auto
  show ?thesis
  proof (cases "straddles (interval g b)")
    case True
    have less: "work_left (with_bounds g b (narrowed g b low high)) < depth"
      if "\<not> straddles (narrowed g b low high)" for low high
    proof -
      have "node_work (with_bounds g b (narrowed g b low high)) n < node_work g n"
        using fl True that by (simp add: node_work_def interval_with_bounds)
      from work_left_less [OF advances_with_bounds [OF refl] r(1) this] w show ?thesis by simp
    qed
    have "\<not> straddles (narrowed g b (Some 0) None)" "\<not> straddles (narrowed g b None (Some (- 1)))"
      using narrowed_low [of 0 g b None] narrowed_high [of g b None "- 1"] by (auto simp: straddles_def)
    then have "\<exists>h. tighten depth g b (Some 0) None = Some h" "\<exists>h. tighten depth g b None (Some (- 1)) = Some h"
      using returnsD [OF R wf r(2) less] by blast+
    then show ?thesis
      using True by (auto simp: resolve_flip_with_def fl Let_def case_prod_beta straddles_def)
  next
    case False
    have "work_left (without_flip g b f) < depth"
      using work_left_less [OF advances_without_flip r(1) node_work_with_flip [OF fl r(4)]] w by simp
    then have "\<exists>h. link_with (tighten depth) (without_flip g b f) b f k = Some h" for k
      using returns_link [OF R wf_without_flip [OF wf], where a = b and b = f] r by simp
    then show ?thesis
      using False by (auto simp: resolve_flip_with_def fl Let_def case_prod_beta straddles_def)
  qed
qed

lemma returns_resolve_cast:
  assumes R: "returns (tighten depth :: 'x tightening) depth" and wf: "wf_graph (g :: 'x difference_graph)" and w: "work_left g < Suc depth"
  shows "\<exists>h. resolve_cast_with (tighten depth) g c = Some h"
proof (cases "g_cast_links g c")
  case None
  then show ?thesis by (simp add: resolve_cast_with_def)
next
  case (Some l)
  have r: "c < g_next g" "cast_base l < g_next g" using wf_graphD(10) [OF wf Some] by auto
  have "node_work (without_cast g (cast_base l) c) c < node_work g c"
    by (simp add: node_work_def Some split: option.split)
  from work_left_less [OF advances_without_cast r(1) this] w
  have "work_left (without_cast g (cast_base l) c) < depth" by simp
  then have "\<exists>h. link_with (tighten depth) (without_cast g (cast_base l) c) (cast_base l) c k = Some h" for k
    using returns_link [OF R wf_without_cast [OF wf], where a = "cast_base l" and b = c] r by simp
  then show ?thesis by (auto simp: resolve_cast_with_def Some Let_def case_prod_beta)
qed

lemma returns_resolve_each:
  assumes R: "returns (tighten depth :: 'x tightening) depth"
  shows "wf_graph (g :: 'x difference_graph) \<Longrightarrow> work_left g < Suc depth \<Longrightarrow> \<exists>h. resolve_each_with (tighten depth) g casts = Some h"
proof (induction casts arbitrary: g)
  case (Cons c casts)
  obtain h where h: "resolve_cast_with (tighten depth) g c = Some h"
    using returns_resolve_cast [OF R Cons.prems] by blast
  note s = resolve_cast_step [OF Cons.prems(1) h]
  have "work_left h < Suc depth" using work_left_mono [OF conjunct2 [OF s]] Cons.prems(2) by simp
  then obtain h' where "resolve_each_with (tighten depth) h casts = Some h'"
    using Cons.IH [OF conjunct1 [OF s]] by blast
  then show ?case using h by simp
qed simp

lemma returns_resolve:
  assumes R: "returns (tighten depth :: 'x tightening) depth" and wf: "wf_graph (g :: 'x difference_graph)" and w: "work_left g < Suc depth"
  shows "\<exists>h. resolve_with (tighten depth) g n = Some h"
proof -
  obtain h where h: "resolve_pending_with (tighten depth) g n = Some h"
    using returns_resolve_pending [OF R wf w] by blast
  note s = resolve_pending_step [OF wf h]
  have wh: "work_left h < Suc depth" using work_left_mono [OF conjunct2 [OF s]] w by simp
  obtain i where i: "resolve_flip_with (tighten depth) h n = Some i"
    using returns_resolve_flip [OF R conjunct1 [OF s] wh] by blast
  note t = resolve_flip_step [OF conjunct1 [OF s] i]
  have wi: "work_left i < Suc depth" using work_left_mono [OF conjunct2 [OF t]] wh by simp
  obtain j where "resolve_casts_with (tighten depth) i n = Some j"
    unfolding resolve_casts_with_def using returns_resolve_each [OF R conjunct1 [OF t] wi] by blast
  then show ?thesis using h i by (simp add: resolve_with_def)
qed

lemma returns_loop:
  assumes R: "returns (tighten depth :: 'x tightening) depth"
  shows "wf_graph (g :: 'x difference_graph) \<Longrightarrow> \<forall>(n, l, h) \<in> set work. n < g_next g \<Longrightarrow>
    work_left g < Suc depth \<Longrightarrow> \<exists>h. tighten_loop (tighten depth) g work budget = Some h"
proof (induction "length work + budget" arbitrary: g work budget rule: less_induct)
  case less
  show ?case
  proof (cases work)
    case (Cons x rest)
    obtain n low high where x: "x = (n, low, high)" by (rule prod_cases3)
    have n: "n < g_next g" and rest: "\<forall>(n, l, h) \<in> set rest. n < g_next g"
      using less.prems(2) Cons x by auto
    let ?new = "narrowed g n low high"
    note step = Cons x tighten_loop.simps(2) Let_def
    show ?thesis
    proof (cases "g_contradictory g \<or> ?new = interval g n \<or> fst ?new > snd ?new")
      case True
      then show ?thesis
        using less.hyps [OF _ less.prems(1) rest less.prems(3), of budget] by (auto simp: step)
    next
      case False
      let ?g = "with_bounds g n ?new"
      obtain g1 budget1 work1 where s: "spread ?g n (interval g n) ?new budget rest = (g1, budget1, work1)"
        by (rule prod_cases3)
      have "wf_graph ?g" and a: "advances g ?g"
        using wf_with_bounds [OF less.prems(1) n] advances_with_bounds [OF refl] by blast+
      moreover have "interval ?g n = ?new" by (simp add: interval_def)
      moreover have "g_next ?g = g_next g" by simp
      ultimately have "(wf_graph g1 \<and> advances g g1) \<and> (\<forall>(n, l, h) \<in> set work1. n < g_next g)"
        using progress.keeps_spread [of ?g n "fst (interval g n)" "snd (interval g n)" "fst ?new" "snd ?new"
            budget rest g1 budget1 work1 g] s rest by simp
      then have wf1: "wf_graph g1" and a1: "advances g g1" and w1: "\<forall>(n, l, h) \<in> set work1. n < g_next g" by blast+
      have left: "work_left g1 < Suc depth" using work_left_mono [OF a1] less.prems(3) by simp
      obtain g2 where g2: "resolve_with (tighten depth) g1 n = Some g2"
        using returns_resolve [OF R wf1 left] by blast
      note t = resolve_step [OF wf1 g2]
      have left2: "work_left g2 < Suc depth" using work_left_mono [OF conjunct2 [OF t]] left by simp
      have "\<forall>(n, l, h) \<in> set work1. n < g_next g2"
        using w1 a1 t by (simp add: advances_def)
      moreover have "length work1 + budget1 < length work + budget"
        using spread_measure [OF s] Cons by simp
      ultimately obtain h where "tighten_loop (tighten depth) g2 work1 budget1 = Some h"
        using less.hyps [OF _ conjunct1 [OF t] _ left2] by blast
      then show ?thesis using False s g2 by (simp add: step)
    qed
  qed simp
qed

lemma returns_tighten: "returns (tighten depth :: 'x tightening) depth"
proof (induction depth)
  case 0
  then show ?case by (simp add: returns_def)
next
  case (Suc depth)
  show ?case
    unfolding returns_def
  proof (intro allI impI)
    fix g :: "'x difference_graph" and n low high
    assume wf: "wf_graph g" and n: "n < g_next g"
      and left: "work_left (with_bounds g n (narrowed g n low high)) < Suc depth"
    let ?new = "narrowed g n low high"
    let ?g = "with_bounds g n ?new"
    note step = tighten_loop.simps(2) Let_def
    have "\<exists>h. tighten_loop (tighten depth) g [(n, low, high)] EDGE_LIMIT = Some h"
    proof (cases "g_contradictory g \<or> ?new = interval g n \<or> fst ?new > snd ?new")
      case True
      then show ?thesis by (auto simp: step)
    next
      case False
      obtain g1 budget1 work1 where s: "spread ?g n (interval g n) ?new EDGE_LIMIT [] = (g1, budget1, work1)"
        by (rule prod_cases3)
      have wfg: "wf_graph ?g" by (rule wf_with_bounds [OF wf n])
      moreover have "interval ?g n = ?new" by (simp add: interval_def)
      moreover have "g_next ?g = g_next g" by simp
      ultimately have "(wf_graph g1 \<and> advances ?g g1) \<and> (\<forall>(n, l, h) \<in> set work1. n < g_next g)"
        using progress.keeps_spread [of ?g n "fst (interval g n)" "snd (interval g n)" "fst ?new" "snd ?new"
            EDGE_LIMIT "[]" g1 budget1 work1 ?g] s by simp
      then have wf1: "wf_graph g1" and a1: "advances ?g g1"
        and w1: "\<forall>(n, l, h) \<in> set work1. n < g_next g" by blast+
      have left1: "work_left g1 < Suc depth" using work_left_mono [OF a1] left by simp
      obtain g2 where g2: "resolve_with (tighten depth) g1 n = Some g2"
        using returns_resolve [OF Suc wf1 left1] by blast
      note t = resolve_step [OF wf1 g2]
      have left2: "work_left g2 < Suc depth" using work_left_mono [OF conjunct2 [OF t]] left1 by simp
      have "\<forall>(n, l, h) \<in> set work1. n < g_next g2"
        using w1 a1 t by (simp add: advances_def)
      from returns_loop [OF Suc conjunct1 [OF t] this left2] False s g2 show ?thesis by (simp add: step)
    qed
    then show "tighten (Suc depth) g n low high \<noteq> None"
      unfolding tighten.simps(2) [of depth g n low high] by auto
  qed
qed

lemma tighten_returns:
  assumes "wf_graph g" "n < g_next g" "work_left g < depth"
  shows "\<exists>h. tighten depth g n low high = Some h"
  using returns_call [OF returns_tighten assms] .

section \<open>The calls the rest of the graph makes\<close>

lemma tighten_settle:
  assumes wf: "wf_graph g" and n: "n < g_next g" and t: "tighten depth g n low high = Some h"
  shows "settle g n low high = h"
proof -
  let ?d = "Suc (work_left g)"
  obtain i where i: "tighten ?d g n low high = Some i"
    using tighten_returns [OF wf n, of ?d low high] by auto
  have deeper: "tighten (max depth ?d) g n low high = Some k"
    if "tighten e g n low high = Some k" "e \<le> max depth ?d" for e k
    using progress.keepsD [OF progress.keeps_deeper [OF that(2)], where ?g0.0 = g and g = g and n = n
        and low = low and high = high] wf n that(1) advances_refl [of g] by blast
  have "Some i = Some h" using deeper [OF t] deeper [OF i] by simp
  moreover have "settle g n low high = i" unfolding settle_def i by simp
  ultimately show ?thesis by simp
qed

lemma settle_tighten:
  assumes "wf_graph g" "n < g_next g"
  shows "tighten (Suc (work_left g)) g n low high = Some (settle g n low high)"
  using tighten_returns [OF assms, of "Suc (work_left g)" low high] by (auto simp: settle_def)

lemma settle_step: "wf_graph g \<Longrightarrow> n < g_next g \<Longrightarrow> wf_graph (settle g n low high) \<and> advances g (settle g n low high)"
  using tighten_step settle_tighten by blast

lemma settled_tighten:
  assumes "wf_graph g" "n < g_next g" "settled g n low high = Some h"
  shows "\<exists>depth. tighten depth g n low high = Some h"
  using settle_tighten [OF assms(1,2), of low high] assms(3) by blast

lemma progress_tighten_settled:
  "propagation.keeps (\<lambda>g. wf_graph g \<and> advances g0 g) (\<lambda>n low high. n < g_next g0) (tighten depth) settled"
proof (rule progress.keeps_if_tighten)
  fix g n low high g'
  assume "wf_graph g \<and> advances g0 g" "n < g_next g0" "tighten depth g n low high = Some g'"
  moreover from this have "n < g_next g" by (simp add: advances_def)
  ultimately show "(\<exists>depth. tighten depth g n low high = Some g') \<and> settled g n low high = Some g'"
    using tighten_settle by blast
qed

lemma progress_settled:
  "propagation.keeps (\<lambda>g. wf_graph g \<and> advances g0 g) (\<lambda>n low high. n < g_next g0) settled settled"
proof (rule progress.keeps_if_tighten)
  fix g n low high g'
  assume "wf_graph g \<and> advances g0 g" "n < g_next g0" "settled g n low high = Some g'"
  moreover from this have "n < g_next g" by (simp add: advances_def)
  ultimately show "(\<exists>depth. tighten depth g n low high = Some g') \<and> settled g n low high = Some g'"
    using settled_tighten by blast
qed

text \<open>Over calls that return, the functions return.\<close>

lemma constrain_with_settled: "constrain_with settled g a b w = Some (constrain g a b w)"
  unfolding constrain_def
  by (auto simp: constrain_with_def add_edge_with_def Let_def split: option.split)

lemma link_with_settled: "\<exists>h. link_with settled g b n k = Some h"
  by (simp add: link_with_def constrain_with_settled)

lemma resolve_flip_settled: "resolve_flip_with settled g n = Some (resolve_flip g n)"
proof -
  have "\<exists>h. resolve_flip_with settled g n = Some h"
    using link_with_settled by (auto simp: resolve_flip_with_def Let_def case_prod_beta split: option.split)
  then show ?thesis by (auto simp: resolve_flip_def)
qed

lemma resolve_casts_settled: "resolve_casts_with settled g n = Some (resolve_casts g n)"
  for g :: "'x difference_graph"
proof -
  have cast: "\<exists>h. resolve_cast_with settled g c = Some h" for g :: "'x difference_graph" and c
    using link_with_settled by (auto simp: resolve_cast_with_def Let_def case_prod_beta split: option.split)
  have "\<exists>h. resolve_each_with settled g casts = Some h" for g :: "'x difference_graph" and casts
  proof (induction casts arbitrary: g)
    case (Cons c casts)
    obtain h where "resolve_cast_with settled g c = Some h" using cast by blast
    then show ?case using Cons.IH by simp
  qed simp
  then show ?thesis by (auto simp: resolve_casts_def resolve_casts_with_def)
qed

lemma resolve_pending_settled: "resolve_pending_with settled g n = Some (resolve_pending g n)"
  for g :: "'x difference_graph"
proof -
  have "\<exists>h. link_each_with settled g b links = Some h" for g :: "'x difference_graph" and b links
  proof (induction links arbitrary: g)
    case (Cons x links)
    obtain n l where x: "x = (n, l)" by (rule prod.exhaust)
    obtain h where "link_with settled g b n (link_offset l) = Some h" using link_with_settled by blast
    then show ?case using Cons by (simp add: x)
  qed simp
  then have "\<exists>h. resolve_pending_with settled g n = Some h"
    by (cases "g_pending g n") (simp_all add: resolve_pending_with_def Let_def)
  then show ?thesis by (auto simp: resolve_pending_def)
qed

lemma constrain_wf:
  assumes "wf_graph g" "in_range g a" "in_range g b"
  shows "wf_graph (constrain g a b w) \<and> advances g (constrain g a b w)"
proof (cases "fst a")
  case None
  show ?thesis
    using assms settle_step [of g] wf_contradict [of g] advances_contradict [of g]
    by (cases "fst b") (auto simp: constrain_def constrain_with_def Let_def None)
next
  case a: (Some m)
  show ?thesis
  proof (cases "fst b")
    case None
    then show ?thesis
      using assms settle_step [of g] by (auto simp: constrain_def constrain_with_def Let_def a)
  next
    case b: (Some n)
    have "constrain_with settled g a b w = constrain_with settled g (Some m, 0) (Some n, 0) (w - snd b + snd a)"
      by (simp add: constrain_with_def a b)
    then show ?thesis
      using progress.keeps_constrain_nodes [OF progress_settled, where ?g0.0 = g and g = g and a = m and b = n
          and w = "w - snd b + snd a"] constrain_with_settled [of g a b w] assms advances_refl [of g]
      by (auto simp: a b)
  qed
qed

lemma resolve_flip_wf: "wf_graph g \<Longrightarrow> wf_graph (resolve_flip g n) \<and> advances g (resolve_flip g n)"
  using progress.keeps_resolve_flip [OF progress_settled _ resolve_flip_settled, of g g n] by simp

lemma resolve_casts_wf: "wf_graph g \<Longrightarrow> wf_graph (resolve_casts g n) \<and> advances g (resolve_casts g n)"
  using progress.keeps_resolve_casts [OF progress_settled _ resolve_casts_settled, of g g n] by simp

lemma resolve_pending_wf: "wf_graph g \<Longrightarrow> wf_graph (resolve_pending g n) \<and> advances g (resolve_pending g n)"
  using progress.keeps_resolve_pending [OF progress_settled _ resolve_pending_settled, of g g n] by simp

section \<open>Termination\<close>

text \<open>C8: On every well-formed graph, a call of tighten returns however deep the calls below it
  may nest, as soon as the depth exceeds the number of links and sign cases still open: the
  result is the one every greater depth gives, it satisfies the source's recursion with no
  bound on the depth, the representation invariant is kept, the recorded facts and names
  stay, and every interval only narrows.\<close>

theorem tighten_settles:
  assumes "wf_graph g" and "node < g_next g" and "work_left g < depth"
  shows "tighten depth g node low high = Some (settle g node low high)
    \<and> tighten_loop settled g [(node, low, high)] EDGE_LIMIT = Some (settle g node low high)
    \<and> wf_graph (settle g node low high) \<and> advances g (settle g node low high)"
proof -
  obtain h where h: "tighten depth g node low high = Some h"
    using tighten_returns [OF assms] by blast
  have s: "settle g node low high = h" by (rule tighten_settle [OF assms(1,2) h])
  have "tighten_loop (tighten (work_left g)) g [(node, low, high)] EDGE_LIMIT = Some h"
    using settle_tighten [OF assms(1,2), of low high] unfolding s by simp
  from progress.keeps_loop [OF progress_tighten_settled _ _ this, of g] assms(1,2)
  have "tighten_loop settled g [(node, low, high)] EDGE_LIMIT = Some h" by simp
  then show ?thesis using h settle_step [OF assms(1,2), of low high] by (simp add: s)
qed

text \<open>A node of the 32-bit domain, bounded below by 5.\<close>

definition one_node :: "nat difference_graph" where
  "one_node = graph_new\<lparr>g_domains := [0 \<mapsto> Int32], g_next := 1\<rparr>"

theorem tighten_settles_witness:
  "interval (settle one_node 0 (Some 5) None) 0 = (5, 2 ^ 31 - 1)"
proof -
  have wf: "wf_graph one_node"
    by (simp add: wf_graph_def one_node_def graph_new_def wf_pc_empty)
  have left: "work_left one_node < 1" "0 < g_next one_node"
    by (simp_all add: work_left_def node_work_def one_node_def graph_new_def)
  have "tighten_loop settled one_node [(0, Some 5, None)] EDGE_LIMIT
      = Some (settle one_node 0 (Some 5) None)"
    using tighten_settles [OF wf left(2,1), of "Some 5" None] by blast
  moreover have i: "interval one_node 0 = (- (2 ^ 31), 2 ^ 31 - 1)"
    by (simp add: interval_def domain_of_def one_node_def graph_new_def)
  moreover have n: "narrowed one_node 0 (Some 5) None = (5, 2 ^ 31 - 1)"
    unfolding narrowed_def i prod.case Let_def excludes_def
    by (simp add: one_node_def graph_new_def skip_low.simps skip_high.simps)
  moreover have "g_contradictory one_node = False" by (simp add: one_node_def graph_new_def)
  ultimately have "settle one_node 0 (Some 5) None = with_bounds one_node 0 (5, 2 ^ 31 - 1)"
    by (simp add: tighten_loop.simps(2) Let_def spread_def push_edges_def resolve_with_def
        resolve_pending_with_def resolve_flip_with_def resolve_casts_with_def casts_at_def
        one_node_def graph_new_def)
  then show ?thesis by (simp add: interval_with_bounds)
qed

end
