(* ===== verification/DifferenceTruth.thy ===== *)
theory DifferenceTruth
  imports DifferenceProgress
begin

text \<open>
  What a difference graph says of a valuation, and that propagation says nothing more:
  a graph that is true of a valuation stays true, and in particular never becomes
  contradictory. This is the second interpretation of the contract of propagation.
\<close>

section \<open>A graph that is true of a valuation\<close>

text \<open>A valuation gives every node a value; a link waits for the condition it needs.\<close>

definition link_true :: "int \<Rightarrow> int \<Rightarrow> pending_link \<Rightarrow> bool" where
  "link_true x y l \<longleftrightarrow>
     (if link_nonnegative l then 0 \<le> x else in_domain (link_domain l) (x + link_offset l)) \<longrightarrow>
     y = x + link_offset l"

definition flip_true :: "domain \<Rightarrow> int \<Rightarrow> int \<Rightarrow> bool" where
  "flip_true d x y \<longleftrightarrow> d \<noteq> UInt64 \<and> in_domain d x \<and> y = flip_sign d x"

definition cast_true :: "int \<Rightarrow> int \<Rightarrow> cast_link \<Rightarrow> bool" where
  "cast_true v t l \<longleftrightarrow> 0 < cast_modulus l
     \<and> (within v (cast_source l) \<longrightarrow> t mod cast_modulus l = v mod cast_modulus l)"

definition affine_value :: "(nat \<Rightarrow> int) \<Rightarrow> affine \<Rightarrow> int" where
  "affine_value \<nu> a = (case fst a of None \<Rightarrow> snd a | Some n \<Rightarrow> \<nu> n + snd a)"

definition code_domain :: "nat \<Rightarrow> domain" where
  "code_domain code = (if code \<le> 4 then Int32 else Int64)"

definition same_word :: "domain \<Rightarrow> int \<Rightarrow> int \<Rightarrow> bool" where
  "same_word d x y \<longleftrightarrow> x mod domain_modulus d = y mod domain_modulus d"

definition overflow_absent :: "nat \<Rightarrow> int \<Rightarrow> int \<Rightarrow> bool" where
  "overflow_absent code a b \<longleftrightarrow>
     (\<forall>x y. in_domain (code_domain code) x \<longrightarrow> in_domain (code_domain code) y \<longrightarrow>
        same_word (code_domain code) x a \<longrightarrow> same_word (code_domain code) y b \<longrightarrow>
        \<not> overflow_value code x y)"

definition graph_true :: "'x valuation \<Rightarrow> (nat \<Rightarrow> int) \<Rightarrow> 'x difference_graph \<Rightarrow> bool" where
  "graph_true \<rho> \<nu> g \<longleftrightarrow>
     \<not> g_contradictory g
     \<and> (\<forall>d t n. g_nodes g (d, t) = Some n \<longrightarrow> reading \<rho> d t = \<nu> n)
     \<and> (\<forall>n < g_next g. in_domain (domain_of g n) (\<nu> n) \<and> within (\<nu> n) (interval g n))
     \<and> (\<forall>n m. g_out_edges g n = Some m \<longrightarrow> store.holds (\<lambda>k w. \<nu> k - \<nu> n \<le> w) m)
     \<and> (\<forall>n m. g_in_edges g n = Some m \<longrightarrow> store.holds (\<lambda>k w. \<nu> n - \<nu> k \<le> w) m)
     \<and> (\<forall>n m. g_pending g n = Some m \<longrightarrow> store.holds (\<lambda>k l. link_true (\<nu> n) (\<nu> k) l) m)
     \<and> (\<forall>n. \<not> excludes g n (\<nu> n))
     \<and> (\<forall>n b f. g_flips g n = Some (b, f) \<longrightarrow> flip_true (domain_of g f) (\<nu> b) (\<nu> f))
     \<and> (\<forall>n l. g_cast_links g n = Some l \<longrightarrow> cast_true (\<nu> (cast_base l)) (\<nu> n) l)
     \<and> residues_hold \<rho> (g_residues g)
     \<and> pc_holds \<rho> (g_pointers g)
     \<and> (\<forall>c a b. (c, a, b) \<in> g_no_overflow g \<longrightarrow> overflow_absent c (affine_value \<nu> a) (affine_value \<nu> b))"

lemma graph_trueD:
  assumes "graph_true \<rho> \<nu> g"
  shows "\<not> g_contradictory g"
    and "g_nodes g (d, t) = Some n \<Longrightarrow> reading \<rho> d t = \<nu> n"
    and "n < g_next g \<Longrightarrow> in_domain (domain_of g n) (\<nu> n)"
    and "n < g_next g \<Longrightarrow> within (\<nu> n) (interval g n)"
    and "g_out_edges g n = Some m \<Longrightarrow> store.holds (\<lambda>k w. \<nu> k - \<nu> n \<le> w) m"
    and "g_in_edges g n = Some m \<Longrightarrow> store.holds (\<lambda>k w. \<nu> n - \<nu> k \<le> w) m"
    and "g_pending g n = Some waiting \<Longrightarrow> store.holds (\<lambda>k l. link_true (\<nu> n) (\<nu> k) l) waiting"
    and "\<not> excludes g n (\<nu> n)"
    and "g_flips g n = Some (b, f) \<Longrightarrow> flip_true (domain_of g f) (\<nu> b) (\<nu> f)"
    and "g_cast_links g n = Some l \<Longrightarrow> cast_true (\<nu> (cast_base l)) (\<nu> n) l"
    and "residues_hold \<rho> (g_residues g)"
    and "pc_holds \<rho> (g_pointers g)"
    and "(c, x, y) \<in> g_no_overflow g \<Longrightarrow> overflow_absent c (affine_value \<nu> x) (affine_value \<nu> y)"
  using assms unfolding graph_true_def by meson+

section \<open>Shortest paths\<close>

definition distances_true :: "(nat \<Rightarrow> int) \<Rightarrow> nat \<Rightarrow> (nat \<Rightarrow> int option) \<Rightarrow> bool" where
  "distances_true \<nu> s distance \<longleftrightarrow> (\<forall>k d. distance k = Some d \<longrightarrow> \<nu> k - \<nu> s \<le> d)"

lemma relax_edges_true:
  assumes "relax_edges base edges budget distance work = (budget', distance', work', stop)"
    and "distances_true \<nu> s distance" "\<nu> n - \<nu> s \<le> base" "\<forall>(k, w) \<in> set edges. \<nu> k - \<nu> n \<le> w"
    and "\<forall>k \<in> set work. distance k \<noteq> None"
  shows "distances_true \<nu> s distance' \<and> (\<forall>k \<in> set work'. distance' k \<noteq> None)"
  using assms
proof (induction base edges budget distance work rule: relax_edges.induct)
  case (2 base "next" weight edges budget distance work)
  show ?case
  proof (cases "budget = 0")
    case True
    then show ?thesis using 2 by simp
  next
    case False
    have "\<nu> next - \<nu> s \<le> base + weight" using "2.prems" by simp
    then have closer: "distances_true \<nu> s (distance(next \<mapsto> base + weight))"
      using "2.prems"(2) by (simp add: distances_true_def)
    have work: "\<forall>k \<in> set (work @ [next]). (distance(next \<mapsto> base + weight)) k \<noteq> None"
      using "2.prems"(5) by auto
    have edges: "\<forall>(k, w) \<in> set edges. \<nu> k - \<nu> n \<le> w" using "2.prems"(4) by simp
    show ?thesis
    proof (cases "case distance next of None \<Rightarrow> True | Some known \<Rightarrow> base + weight < known")
      case True
      then have "relax_edges base edges (budget - 1) (distance(next \<mapsto> base + weight)) (work @ [next])
          = (budget', distance', work', stop)"
        using "2.prems"(1) False by (simp add: Let_def)
      from "2.IH"(1) [OF False refl True this closer "2.prems"(3) edges work] show ?thesis .
    next
      case far: False
      then have "relax_edges base edges (budget - 1) distance work = (budget', distance', work', stop)"
        using "2.prems"(1) False by (simp add: Let_def)
      from "2.IH"(2) [OF False refl far this "2.prems"(2,3) edges "2.prems"(5)] show ?thesis .
    qed
  qed
qed simp

lemma walk_edges_true:
  assumes "graph_true \<rho> \<nu> g" "distances_true \<nu> s distance" "\<forall>k \<in> set work. distance k \<noteq> None"
  shows "distances_true \<nu> s (walk_edges g work distance budget)"
  using assms
proof (induction g work distance budget rule: walk_edges.induct)
  case (2 g node work distance budget)
  show ?case
  proof (cases "g_out_edges g node")
    case None
    then show ?thesis using 2 by simp
  next
    case (Some m)
    obtain b d w stop where r: "relax_edges (the (distance node)) (entries m) budget distance work = (b, d, w, stop)"
      by (rule prod_cases4)
    have "\<nu> node - \<nu> s \<le> the (distance node)" using 2 by (auto simp: distances_true_def)
    moreover have "\<forall>(k, w) \<in> set (entries m). \<nu> k - \<nu> node \<le> w"
      using graph_trueD(5) [OF "2.prems"(1) Some] by (auto simp: store.holds_def)
    ultimately have "distances_true \<nu> s d \<and> (\<forall>k \<in> set w. d k \<noteq> None)"
      using relax_edges_true [OF r "2.prems"(2)] "2.prems"(3) by auto
    then show ?thesis using "2.IH"(2) [OF Some r [symmetric] refl refl] "2.prems"(1) Some r by auto
  qed
qed simp

lemma shortest_from_true:
  assumes "graph_true \<rho> \<nu> g" "shortest_from g s k = Some d"
  shows "\<nu> k - \<nu> s \<le> d"
proof -
  have "distances_true \<nu> s [s \<mapsto> 0]" by (simp add: distances_true_def)
  from walk_edges_true [OF assms(1) this, of "[s]" EDGE_LIMIT]
  have "distances_true \<nu> s (shortest_from g s)" by (simp add: shortest_from_def)
  then show ?thesis using assms(2) unfolding distances_true_def by blast
qed

lemma no_negative_cycle:
  assumes "graph_true \<rho> \<nu> g" "\<nu> b - \<nu> a \<le> w"
  shows "\<not> closes_negative_cycle g a b w"
  using shortest_from_true [OF assms(1), of b a] assms(2)
  by (auto simp: closes_negative_cycle_def split: option.split)

section \<open>Intervals\<close>

lemma domain_i128: "in_domain d x \<Longrightarrow> i128_min \<le> x \<and> x \<le> i128_max"
  by (cases d) (auto simp: in_domain_def i128_min_def i128_max_def)

lemma skip_low_true: "low \<le> x \<Longrightarrow> x \<le> high \<Longrightarrow> \<not> e x \<Longrightarrow> skip_low e low high \<le> x"
proof (induction e low high rule: skip_low.induct)
  case (1 e low high)
  show ?case
  proof (cases "low \<le> high \<and> e low")
    case True
    then have "low \<noteq> x" using 1 by auto
    then show ?thesis using 1 True by (subst skip_low.simps) simp
  next
    case False
    then show ?thesis using 1 by (subst skip_low.simps) auto
  qed
qed

lemma skip_high_true: "low \<le> x \<Longrightarrow> x \<le> high \<Longrightarrow> \<not> e x \<Longrightarrow> x \<le> skip_high e low high"
proof (induction e low high rule: skip_high.induct)
  case (1 e low high)
  show ?case
  proof (cases "low \<le> high \<and> e high")
    case True
    then have "high \<noteq> x" using 1 by auto
    then show ?thesis using 1 True by (subst skip_high.simps) simp
  next
    case False
    then show ?thesis using 1 by (subst skip_high.simps) auto
  qed
qed

definition bound_true :: "int \<Rightarrow> int option \<Rightarrow> int option \<Rightarrow> bool" where
  "bound_true x low high \<longleftrightarrow> (\<forall>l. low = Some l \<longrightarrow> l \<le> x) \<and> (\<forall>h. high = Some h \<longrightarrow> x \<le> h)"

lemma narrowed_true:
  assumes "within x (interval g n)" "\<not> excludes g n x" "bound_true x low high"
  shows "within x (narrowed g n low high)"
proof -
  obtain l h where i: "interval g n = (l, h)" by (rule prod.exhaust)
  let ?l = "case low of None \<Rightarrow> l | Some x \<Rightarrow> max x l"
  let ?h = "case high of None \<Rightarrow> h | Some x \<Rightarrow> min x h"
  have x: "?l \<le> x" "x \<le> ?h" using assms(1,3) by (auto simp: i bound_true_def split: option.split)
  have "skip_low (excludes g n) ?l ?h \<le> x" using skip_low_true [OF x] assms(2) by blast
  then show ?thesis
    using skip_high_true [of _ x ?h "excludes g n"] x(2) assms(2) by (simp add: narrowed_def i Let_def)
qed

section \<open>The elementary updates\<close>

lemma true_with_bounds:
  assumes "graph_true \<rho> \<nu> g" "within (\<nu> n) new"
  shows "graph_true \<rho> \<nu> (with_bounds g n new)"
  using assms by (simp add: graph_true_def interval_with_bounds domain_of_def excludes_def)

lemma true_truncate: "graph_true \<rho> \<nu> g \<Longrightarrow> graph_true \<rho> \<nu> (g\<lparr>g_truncated := s\<rparr>)"
  by (simp add: graph_true_def domain_of_def excludes_def)

lemma record_edge_true:
  assumes "\<forall>n m. edges n = Some m \<longrightarrow> store.holds (P n) m" "P a b w"
  shows "\<forall>n m. record_edge edges a b w n = Some m \<longrightarrow> store.holds (P n) m"
  using assms by (auto simp: record_edge_def intro!: store.holds_insert split: option.split)

lemma true_with_edge:
  assumes t: "graph_true \<rho> \<nu> g" and d: "\<nu> b - \<nu> a \<le> w"
  shows "graph_true \<rho> \<nu> (with_edge g a b w)"
proof -
  have "\<forall>n m. record_edge (g_out_edges g) a b w n = Some m \<longrightarrow> store.holds (\<lambda>k w. \<nu> k - \<nu> n \<le> w) m"
    by (rule record_edge_true [where P = "\<lambda>n k w. \<nu> k - \<nu> n \<le> w"]) (use graph_trueD(5) [OF t] d in auto)
  moreover have "\<forall>n m. record_edge (g_in_edges g) b a w n = Some m \<longrightarrow> store.holds (\<lambda>k w. \<nu> n - \<nu> k \<le> w) m"
    by (rule record_edge_true [where P = "\<lambda>n k w. \<nu> n - \<nu> k \<le> w"]) (use graph_trueD(6) [OF t] d in auto)
  ultimately show ?thesis
    using t by (simp add: graph_true_def domain_of_def excludes_def)
qed

lemma true_without_flip:
  assumes "graph_true \<rho> \<nu> g"
  shows "graph_true \<rho> \<nu> (without_flip g b f)"
  using assms by (simp add: graph_true_def domain_of_def excludes_def)

lemma true_without_cast: "graph_true \<rho> \<nu> g \<Longrightarrow> graph_true \<rho> \<nu> (without_cast g b c)"
  by (simp add: graph_true_def domain_of_def excludes_def)

lemma true_without_ready:
  assumes t: "graph_true \<rho> \<nu> g" and wf: "wf_graph g" and m: "g_pending g b = Some m"
  shows "graph_true \<rho> \<nu> (without_ready g b m)"
proof -
  let ?m = "foldl (\<lambda>m (node, link). without_key m node) m (ready_links g b m)"
  have "store.holds (\<lambda>k l. link_true (\<nu> b) (\<nu> k) l) ?m"
    using without_ready_links [OF wf_graphD(7) [OF wf m] graph_trueD(7) [OF t m]] by blast
  then show ?thesis using t by (simp add: graph_true_def domain_of_def excludes_def Let_def)
qed

lemma flip_cases:
  assumes "flip_true d x y" "lowest = fst (domain_range d)"
  shows "0 \<le> x \<Longrightarrow> y = x + lowest" "x < 0 \<Longrightarrow> y = x - lowest" "y < 0 \<Longrightarrow> 0 \<le> x" "0 \<le> y \<Longrightarrow> x < 0"
  using assms by (cases d; auto simp: flip_true_def flip_sign_cases in_domain_def split: if_splits)+

lemma floor_div_le: "0 < m \<Longrightarrow> k * m \<le> x \<Longrightarrow> k \<le> x div m" for k m x :: int
  by (metis mult.commute nonzero_mult_div_cancel_left order_less_irrefl zdiv_mono1)

lemma cast_settled_true:
  fixes v t :: int
  assumes c: "cast_true v t l" and v: "v_low \<le> v" "v \<le> v_high" and t: "t_low \<le> t" "t \<le> t_high"
    and source: "fst (cast_source l) \<le> v_low" "v_high \<le> snd (cast_source l)"
    and k: "k = - ((t_high - v_low) div cast_modulus l)" "k = (v_high - t_low) div cast_modulus l"
  shows "v - t = k * cast_modulus l"
proof -
  let ?m = "cast_modulus l"
  have "within v (cast_source l)" using v source by (simp add: within_def)
  then have "t mod ?m = v mod ?m" and m: "0 < ?m" using c by (auto simp: cast_true_def)
  then have "?m dvd v - t" by (metis mod_eq_dvd_iff)
  then obtain j where j: "v - t = j * ?m" by (metis dvd_div_mult_self)
  have "j \<le> k" unfolding k(2) by (rule floor_div_le [OF m]) (use j v t in linarith)
  moreover have "- j \<le> (t_high - v_low) div ?m" by (rule floor_div_le [OF m]) (use j v t in simp)
  ultimately have "j = k" using k(1) by linarith
  then show ?thesis using j by simp
qed

lemma ready_link_true:
  assumes t: "graph_true \<rho> \<nu> g" and wf: "wf_graph g" and m: "g_pending g b = Some m"
    and r: "(n, l) \<in> set (ready_links g b m)"
  shows "\<nu> n = \<nu> b + link_offset l"
proof -
  have "b < g_next g" using wf_graphD(6) [OF wf] m by blast
  then have i: "within (\<nu> b) (interval g b)" by (rule graph_trueD(4) [OF t])
  have "(n, l) \<in> set (entries m)" using r by (auto simp: ready_links_def dest: in_set_takeD)
  then have "link_true (\<nu> b) (\<nu> n) l" by (rule store.holds_item [OF graph_trueD(7) [OF t m]])
  moreover have "link_fits (interval g b) (link_offset l) (link_domain l) (link_nonnegative l)"
    using r by (simp add: ready_links_def)
  ultimately show ?thesis
    using i by (auto simp: link_true_def link_fits_def in_domain_def within_def Let_def case_prod_beta split: if_splits)
qed

section \<open>Propagation keeps the truth\<close>

interpretation truth: propagation "\<lambda>g. wf_graph g \<and> g_next g = N \<and> graph_true \<rho> \<nu> g"
  "\<lambda>n low high. n < N \<and> bound_true (\<nu> n) low high" "\<lambda>a b w. a < N \<and> b < N \<and> \<nu> b - \<nu> a \<le> w"
  for \<rho> :: "'x valuation" and \<nu> N
proof -
  let ?inv = "\<lambda>g. wf_graph g \<and> g_next g = N \<and> graph_true \<rho> \<nu> g"
  have small: "i128_min \<le> \<nu> n" "\<nu> n \<le> i128_max" if "?inv g" "n < N" for g n
    using domain_i128 [OF graph_trueD(3) [of \<rho> \<nu> g n]] that by auto
  have ivl: "fst (interval g n) \<le> \<nu> n" "\<nu> n \<le> snd (interval g n)" if "?inv g" "n < N" for g n
    using graph_trueD(4) [of \<rho> \<nu> g n] that by (auto simp: within_def)
  have out: "n < N \<and> k < N \<and> \<nu> k - \<nu> n \<le> w"
    if "?inv g" "g_out_edges g n = Some m" "(k, w) \<in> set (entries m)" for g n m k w
  proof -
    have "n < g_next g" "store.holds (\<lambda>k w. k < g_next g) m" using wf_graphD(4) that(1,2) by blast+
    with store.holds_item [OF _ that(3)] graph_trueD(5) [of \<rho> \<nu> g n m] that show ?thesis by blast
  qed
  have inn: "n < N \<and> k < N \<and> \<nu> n - \<nu> k \<le> w"
    if "?inv g" "g_in_edges g n = Some m" "(k, w) \<in> set (entries m)" for g n m k w
  proof -
    have "n < g_next g" "store.holds (\<lambda>k w. k < g_next g) m" using wf_graphD(5) that(1,2) by blast+
    with store.holds_item [OF _ that(3)] graph_trueD(6) [of \<rho> \<nu> g n m] that show ?thesis by blast
  qed
  have upper: "bound_true (\<nu> b) None (Some (saturating_add (snd (interval g a)) w))"
    if "?inv g" "a < N" "b < N" "\<nu> b - \<nu> a \<le> w" for g a b w
    using saturating_add_upper [of "\<nu> b" "snd (interval g a)" w] small [OF that(1,3)] ivl [OF that(1,2)] that(4)
    by (simp add: bound_true_def)
  have lower: "bound_true (\<nu> a) (Some (saturating_sub (fst (interval g b)) w)) None"
    if "?inv g" "a < N" "b < N" "\<nu> b - \<nu> a \<le> w" for g a b w
    using saturating_sub_lower [of "fst (interval g b)" w "\<nu> a"] small [OF that(1,2)] ivl [OF that(1,3)] that(4)
    by (simp add: bound_true_def)
  have flip: "n < N \<and> b < N \<and> f < N \<and> flip_true (domain_of g f) (\<nu> b) (\<nu> f)"
    if "?inv g" "g_flips g n = Some (b, f)" for g n b f
    using wf_graphD(9) [of g n b f] graph_trueD(9) [of \<rho> \<nu> g n b f] that by auto
  have narrow: "within (\<nu> n) (narrowed g n low high)"
    if "?inv g" "n < N \<and> bound_true (\<nu> n) low high" for g n low high
    by (rule narrowed_true) (use that graph_trueD(4,8) [of \<rho> \<nu> g] in auto)
  show "propagation ?inv (\<lambda>n low high. n < N \<and> bound_true (\<nu> n) low high)
      (\<lambda>a b w. a < N \<and> b < N \<and> \<nu> b - \<nu> a \<le> w)"
  proof (unfold_locales, goal_cases)
    case (1 g n low high new)
    then show ?case using narrow [OF 1(1,2)] wf_with_bounds [of g n new] true_with_bounds [of \<rho> \<nu> g n new] by auto
  next
    case (2 g n low high new)
    then show ?case using narrow [OF 2(1,2)] by (simp add: within_def)
  next
    case (3 g s)
    then show ?case using wf_truncate true_truncate by auto
  next
    case (4 g n m k w)
    show ?case using out [OF 4] upper [OF 4(1), of n k w] by blast
  next
    case (5 g n m k w)
    show ?case using inn [OF 5] lower [OF 5(1), of k n w] by blast
  next
    case (6 g a b w)
    then show ?case using wf_with_edge [of g a b w] true_with_edge [of \<rho> \<nu> g b a w] by simp
  next
    case (7 g a b w)
    then show ?case using upper [OF 7(1)] by blast
  next
    case (8 g a b w)
    then show ?case using lower [OF 8(1)] by blast
  next
    case (9 g a w)
    then show ?case by simp
  next
    case (10 g a b w)
    then show ?case using no_negative_cycle [of \<rho> \<nu> g b a w] by blast
  next
    case (11 g b f)
    then show ?case using wf_without_flip true_without_flip by auto
  next
    case (12 g n b f lowest)
    then show ?case using flip [OF 12(1,2)] flip_cases(1) [of "domain_of g f" "\<nu> b" "\<nu> f" lowest] ivl [OF 12(1), of b]
      by auto
  next
    case (13 g n b f lowest)
    then show ?case using flip [OF 13(1,2)] flip_cases(2) [of "domain_of g f" "\<nu> b" "\<nu> f" lowest] ivl [OF 13(1), of b]
      by auto
  next
    case (14 g n b f)
    then show ?case using flip [OF 14(1,2)] flip_cases(3) [OF _ refl, of "domain_of g f" "\<nu> b" "\<nu> f"] ivl [OF 14(1), of f]
      by (auto simp: bound_true_def)
  next
    case (15 g n b f)
    then show ?case using flip [OF 15(1,2)] flip_cases(4) [OF _ refl, of "domain_of g f" "\<nu> b" "\<nu> f"] ivl [OF 15(1), of f]
      by (auto simp: bound_true_def)
  next
    case (16 g b c)
    then show ?case using wf_without_cast true_without_cast by auto
  next
    case (17 g c l v_low v_high t_low t_high k)
    have r: "c < N" "cast_base l < N" using wf_graphD(10) [of g c l] 17 by auto
    have "\<nu> (cast_base l) - \<nu> c = k * cast_modulus l"
      using cast_settled_true [OF graph_trueD(10) [of \<rho> \<nu> g c l], of v_low v_high t_low t_high k]
        ivl [OF 17(1) r(1)] ivl [OF 17(1) r(2)] 17 by simp
    then show ?case using r by simp
  next
    case (18 g b m)
    then show ?case using wf_without_ready [of g b m] true_without_ready [of \<rho> \<nu> g b m] by (simp add: Let_def)
  next
    case (19 g b m n l)
    have "b < g_next g" "store.holds (\<lambda>k w. k < g_next g) m" using wf_graphD(6) 19 by blast+
    moreover have "(n, l) \<in> set (entries m)" using 19(3) by (auto simp: ready_links_def dest: in_set_takeD)
    ultimately have "b < N" "n < N" using store.holds_item [of _ m] 19(1) by auto
    then show ?case using ready_link_true [of \<rho> \<nu> g b m n l] 19 by simp
  qed
qed

section \<open>The calls the rest of the graph makes\<close>

lemma truth_settled:
  "propagation.keeps (\<lambda>g. wf_graph g \<and> g_next g = N \<and> graph_true \<rho> \<nu> g)
     (\<lambda>n low high. n < N \<and> bound_true (\<nu> n) low high) settled settled"
proof (rule truth.keeps_if_tighten)
  fix g n low high g'
  assume "wf_graph g \<and> g_next g = N \<and> graph_true \<rho> \<nu> g" "n < N \<and> bound_true (\<nu> n) low high"
    and "settled g n low high = Some g'"
  then show "(\<exists>depth. tighten depth g n low high = Some g') \<and> settled g n low high = Some g'"
    using settled_tighten by blast
qed

text \<open>A graph that may be built on: well formed and true.\<close>

definition sound :: "'x valuation \<Rightarrow> (nat \<Rightarrow> int) \<Rightarrow> 'x difference_graph \<Rightarrow> bool" where
  "sound \<rho> \<nu> g \<longleftrightarrow> wf_graph g \<and> graph_true \<rho> \<nu> g"

lemma soundD: "sound \<rho> \<nu> g \<Longrightarrow> wf_graph g" "sound \<rho> \<nu> g \<Longrightarrow> graph_true \<rho> \<nu> g"
  by (simp_all add: sound_def)

lemma sound_settle:
  assumes "sound \<rho> \<nu> g" "n < g_next g" "bound_true (\<nu> n) low high"
  shows "sound \<rho> \<nu> (settle g n low high)"
  using truth.keepsD [OF truth_settled, of g "g_next g" \<rho> \<nu> n low high "settle g n low high"] assms
  by (simp add: sound_def)

lemma sound_resolve_flip: "sound \<rho> \<nu> g \<Longrightarrow> sound \<rho> \<nu> (resolve_flip g n)"
  using truth.keeps_resolve_flip [OF truth_settled _ resolve_flip_settled, of g "g_next g" \<rho> \<nu> n]
  by (simp add: sound_def)

lemma sound_resolve_casts: "sound \<rho> \<nu> g \<Longrightarrow> sound \<rho> \<nu> (resolve_casts g n)"
  using truth.keeps_resolve_casts [OF truth_settled _ resolve_casts_settled, of g "g_next g" \<rho> \<nu> n]
  by (simp add: sound_def)

lemma sound_resolve_pending: "sound \<rho> \<nu> g \<Longrightarrow> sound \<rho> \<nu> (resolve_pending g n)"
  using truth.keeps_resolve_pending [OF truth_settled _ resolve_pending_settled, of g "g_next g" \<rho> \<nu> n]
  by (simp add: sound_def)

lemma sound_constrain:
  assumes s: "sound \<rho> \<nu> g" and r: "in_range g a" "in_range g b"
    and d: "affine_value \<nu> b - affine_value \<nu> a \<le> w"
  shows "sound \<rho> \<nu> (constrain g a b w)"
proof -
  let ?w = "w - snd b + snd a"
  consider (none) "fst a = None" "fst b = None" | (upper) n where "fst a = None" "fst b = Some n"
    | (lower) m where "fst a = Some m" "fst b = None" | (nodes) m n where "fst a = Some m" "fst b = Some n"
    by (cases "fst a"; cases "fst b") auto
  then show ?thesis
  proof cases
    case none
    then have "constrain g a b w = g"
      using d by (simp add: constrain_def constrain_with_def affine_value_def Let_def)
    then show ?thesis using s by simp
  next
    case upper
    then have "constrain g a b w = settle g n None (Some ?w)"
      by (simp add: constrain_def constrain_with_def Let_def)
    then show ?thesis
      using sound_settle [OF s, of n None "Some ?w"] r d upper by (simp add: bound_true_def affine_value_def)
  next
    case lower
    then have "constrain g a b w = settle g m (Some (- ?w)) None"
      by (simp add: constrain_def constrain_with_def Let_def)
    then show ?thesis
      using sound_settle [OF s, of m "Some (- ?w)" None] r d lower by (simp add: bound_true_def affine_value_def)
  next
    case nodes
    have "constrain_with settled g a b w = constrain_with settled g (Some m, 0) (Some n, 0) ?w"
      by (simp add: constrain_with_def nodes)
    then have c: "constrain_with settled g (Some m, 0) (Some n, 0) ?w = Some (constrain g a b w)"
      using constrain_with_settled [of g a b w] by simp
    have "\<nu> n - \<nu> m \<le> ?w" using d by (simp add: affine_value_def nodes)
    then show ?thesis
      using truth.keeps_constrain_nodes [OF truth_settled _ _ c, of "g_next g" \<rho> \<nu>] s r nodes
      by (simp add: sound_def)
  qed
qed

lemma sound_new: "sound \<rho> \<nu> graph_new"
proof -
  have "graph_true \<rho> \<nu> graph_new"
    by (simp add: graph_true_def graph_new_def excludes_def residues_hold_empty pc_holds_empty)
  then show ?thesis by (simp add: sound_def wf_graph_new)
qed

end
