(* ===== verification/DifferenceNodes.thy ===== *)
theory DifferenceNodes
  imports DifferenceTruth
begin

text \<open>
  Names for terms: \<^verbatim>\<open>node\<close>, \<^verbatim>\<open>affine\<close>, \<^verbatim>\<open>resolve\<close> and
  their modular variants of \<^verbatim>\<open>src/src/kernel/difference_graph.rs\<close>, and the facts
  they record about a new term: a cast's range and congruence, a flipped sign, a link to a
  base. The functions that extend the graph return it beside their result.
\<close>

section \<open>Reading the graph\<close>

definition known_flip :: "'x difference_graph \<Rightarrow> domain \<Rightarrow> affine \<Rightarrow> affine option" where
  "known_flip g d base =
     (let lowest = fst (domain_range d) in
      case fst base of
        None \<Rightarrow> Some (None, flip_sign d (snd base))
      | Some _ \<Rightarrow>
          (let (low, high) = affine_interval g base
           in if low \<ge> 0 then Some (fst base, snd base + lowest)
              else if high < 0 then Some (fst base, snd base - lowest)
              else None))"

function resolve :: "'x difference_graph \<Rightarrow> domain \<Rightarrow> 'x bv \<Rightarrow> affine option" where
  "resolve g d t =
     (case domain_constant d t of
        Some v \<Rightarrow> Some (None, v)
      | None \<Rightarrow>
     (case g_nodes g (d, t) of
        Some node \<Rightarrow> Some (Some node, 0)
      | None \<Rightarrow>
     (case sign_flip_base d t of
        Some base \<Rightarrow>
          (case resolve g d base of None \<Rightarrow> None | Some base \<Rightarrow> known_flip g d base)
      | None \<Rightarrow>
     (case link_parts d t of
        None \<Rightarrow> None
      | Some (base_domain, base, offset, nonnegative) \<Rightarrow>
          (case resolve g base_domain base of
             None \<Rightarrow> None
           | Some base \<Rightarrow>
               if link_fits (affine_interval g base) offset d nonnegative
               then Some (fst base, snd base + offset)
               else None)))))"
  by pat_completeness auto
termination
  by (relation "measure (\<lambda>(g, d, t). size t)") (auto dest: sign_flip_base_size link_parts_size)

declare resolve.simps [simp del]

function modular_resolve :: "'x difference_graph \<Rightarrow> domain \<Rightarrow> 'x bv \<Rightarrow> affine option" where
  "modular_resolve g d t =
     (case modular_parts d t of
        Some (base, k) \<Rightarrow>
          map_option (\<lambda>(node, offset). (node, wrap d (offset + k))) (modular_resolve g d base)
      | None \<Rightarrow> map_option (\<lambda>(node, offset). (node, wrap d offset)) (resolve g d t))"
  by pat_completeness auto
termination
  by (relation "measure (\<lambda>(g, d, t). size t)") (auto dest: modular_parts_size)

declare modular_resolve.simps [simp del]

section \<open>Naming a term\<close>

definition attach_cast ::
  "'x difference_graph \<Rightarrow> nat \<Rightarrow> affine \<Rightarrow> int \<times> int \<Rightarrow> int \<Rightarrow> 'x difference_graph" where
  "attach_cast g node a source modulus =
     (case fst a of
        None \<Rightarrow> g
      | Some base \<Rightarrow>
          if snd a \<noteq> 0 then g
          else
            (let g = g\<lparr>g_cast_links := (g_cast_links g)
                         (node \<mapsto> \<lparr>cast_base = base, cast_source = source, cast_modulus = modulus\<rparr>)\<rparr>;
                 waiting = or_default (g_casts_of g base);
                 g = g\<lparr>g_casts_of := (g_casts_of g)(base \<mapsto> with_value waiting node)\<rparr>
             in resolve_casts g node))"

definition attach_flip :: "'x difference_graph \<Rightarrow> domain \<Rightarrow> nat \<Rightarrow> affine \<Rightarrow> 'x difference_graph" where
  "attach_flip g d node a =
     (case fst a of
        None \<Rightarrow> (let v = flip_sign d (snd a) in settle g node (Some v) (Some v))
      | Some base \<Rightarrow>
          if snd a = 0 then
            resolve_flip (g\<lparr>g_flips := (g_flips g)(base \<mapsto> (base, node), node \<mapsto> (base, node))\<rparr>) node
          else g)"

definition attach_link ::
  "'x difference_graph \<Rightarrow> domain \<Rightarrow> nat \<Rightarrow> affine \<Rightarrow> int \<Rightarrow> bool \<Rightarrow> 'x difference_graph" where
  "attach_link g d node a offset nonnegative =
     (case fst a of
        None \<Rightarrow>
          (let (lowest, highest) = domain_range d;
               v = snd a + offset
           in if v \<ge> lowest \<and> v \<le> highest \<and> (\<not> nonnegative \<or> snd a \<ge> 0)
              then settle g node (Some v) (Some v)
              else g)
      | Some base \<Rightarrow>
          (let waiting = (case g_pending g base of None \<Rightarrow> map_empty | Some m \<Rightarrow> m);
               link = \<lparr>link_offset = offset + snd a, link_domain = d, link_nonnegative = nonnegative\<rparr>
           in resolve_pending
                (g\<lparr>g_pending := (g_pending g)(base \<mapsto> with_inserted waiting node link)\<rparr>) base))"

definition fresh_node :: "'x difference_graph \<Rightarrow> domain \<Rightarrow> 'x bv \<Rightarrow> 'x difference_graph" where
  "fresh_node g d t =
     g\<lparr>g_next := g_next g + 1, g_nodes := (g_nodes g)((d, t) \<mapsto> g_next g),
       g_domains := (g_domains g)(g_next g \<mapsto> d)\<rparr>"

text \<open>
  \<^verbatim>\<open>node\<close> and \<^verbatim>\<open>affine\<close> call each other on the bases of a term.
  Both are written over the \<^verbatim>\<open>affine\<close> they call there; \<open>affine_unfold\<close>
  and \<open>node_unfold\<close> are the source's recursion.
\<close>

type_synonym 'x naming = "'x difference_graph \<Rightarrow> domain \<Rightarrow> 'x bv \<Rightarrow> affine \<times> 'x difference_graph"

definition name_cast :: "'x naming \<Rightarrow> 'x difference_graph \<Rightarrow> domain \<Rightarrow> nat \<Rightarrow> 'x bv \<Rightarrow> 'x difference_graph" where
  "name_cast A g d n t =
     (case narrow_cast_parts d t of
        None \<Rightarrow> g
      | Some (v, source, destination, modulus) \<Rightarrow>
          (let (a, g) = A (settle g n (Some (fst destination)) (Some (snd destination))) Int32 v
           in attach_cast g n a source modulus))"

definition name_flip :: "'x naming \<Rightarrow> 'x difference_graph \<Rightarrow> domain \<Rightarrow> nat \<Rightarrow> 'x bv \<Rightarrow> 'x difference_graph" where
  "name_flip A g d n t =
     (case sign_flip_base d t of
        None \<Rightarrow> g
      | Some base \<Rightarrow> (let (a, g) = A g d base in attach_flip g d n a))"

definition name_link :: "'x naming \<Rightarrow> 'x difference_graph \<Rightarrow> domain \<Rightarrow> nat \<Rightarrow> 'x bv \<Rightarrow> 'x difference_graph" where
  "name_link A g d n t =
     (case link_parts d t of
        None \<Rightarrow> g
      | Some (base_domain, base, offset, nonnegative) \<Rightarrow>
          (let (a, g) = A g base_domain base in attach_link g d n a offset nonnegative))"

definition node_with :: "'x naming \<Rightarrow> 'x difference_graph \<Rightarrow> domain \<Rightarrow> 'x bv \<Rightarrow> nat \<times> 'x difference_graph" where
  "node_with A g d t =
     (case g_nodes g (d, t) of
        Some n \<Rightarrow> (n, g)
      | None \<Rightarrow>
          (let n = g_next g;
               g = fresh_node g d t;
               g = name_cast A g d n t;
               g = name_flip A g d n t;
               g = name_link A g d n t
           in (n, g)))"

definition linked_base ::
  "'x naming \<Rightarrow> 'x difference_graph \<Rightarrow> domain \<Rightarrow> 'x bv \<Rightarrow> affine option \<times> 'x difference_graph" where
  "linked_base A g d t =
     (case link_parts d t of
        None \<Rightarrow> (None, g)
      | Some (base_domain, base, offset, nonnegative) \<Rightarrow>
          (let (a, g) = A g base_domain base
           in (if fst a \<noteq> None \<and> link_fits (affine_interval g a) offset d nonnegative
               then Some (fst a, snd a + offset) else None, g)))"

definition flipped_base ::
  "'x naming \<Rightarrow> 'x difference_graph \<Rightarrow> domain \<Rightarrow> 'x bv \<Rightarrow> affine option \<times> 'x difference_graph" where
  "flipped_base A g d t =
     (case sign_flip_base d t of
        None \<Rightarrow> (None, g)
      | Some base \<Rightarrow> (let (a, g) = A g d base in (known_flip g d a, g)))"

definition affine_with :: "'x naming \<Rightarrow> 'x naming" where
  "affine_with A g d t =
     (case domain_constant d t of
        Some v \<Rightarrow> ((None, v), g)
      | None \<Rightarrow>
     (case g_nodes g (d, t) of
        Some n \<Rightarrow> ((Some n, 0), g)
      | None \<Rightarrow>
     (case linked_base A g d t of
        (Some a, g) \<Rightarrow> (a, g)
      | (None, g) \<Rightarrow>
     (case flipped_base A g d t of
        (Some a, g) \<Rightarrow> (a, g)
      | (None, g) \<Rightarrow> (let (n, g) = node_with A g d t in ((Some n, 0), g))))))"

fun affine_at :: "nat \<Rightarrow> 'x naming" where
  "affine_at 0 g d t = ((None, 0), g)"
| "affine_at (Suc k) g d t = affine_with (affine_at k) g d t"

definition affine :: "'x naming" where
  "affine g d t = affine_at (Suc (size t)) g d t"

definition node :: "'x difference_graph \<Rightarrow> domain \<Rightarrow> 'x bv \<Rightarrow> nat \<times> 'x difference_graph" where
  "node g d t = node_with affine g d t"

lemma naming_cong:
  assumes "\<And>g d b. size b < size t \<Longrightarrow> A g d b = B g d b"
  shows "name_cast A g d n t = name_cast B g d n t" "name_flip A g d n t = name_flip B g d n t"
    "name_link A g d n t = name_link B g d n t" "linked_base A g d t = linked_base B g d t"
    "flipped_base A g d t = flipped_base B g d t"
  using assms
  by (auto simp: name_cast_def name_flip_def name_link_def linked_base_def flipped_base_def
      dest!: narrow_cast_parts_size sign_flip_base_size link_parts_size split: option.split)

lemma affine_with_cong:
  assumes "\<And>g d b. size b < size t \<Longrightarrow> A g d b = B g d b"
  shows "affine_with A g d t = affine_with B g d t"
proof -
  note cong = naming_cong [of t A B, OF assms]
  have "node_with A g d t = node_with B g d t" for g
    by (simp add: node_with_def Let_def cong split: option.split)
  then show ?thesis by (simp add: affine_with_def cong split: option.split prod.split)
qed

lemma affine_at_deeper: "size t < k \<Longrightarrow> affine_at k g d t = affine g d t"
proof (induction "size t" arbitrary: t g d k rule: less_induct)
  case less
  then obtain j where k: "k = Suc j" "size t \<le> j" by (cases k) auto
  have "affine_with (affine_at j) g d t = affine_with (affine_at (size t)) g d t"
    by (rule affine_with_cong) (use less.hyps k in auto)
  then show ?case by (simp add: affine_def k)
qed

lemma affine_unfold: "affine g d t = affine_with affine g d t"
proof -
  have "affine_with (affine_at (size t)) g d t = affine_with affine g d t"
    by (rule affine_with_cong) (rule affine_at_deeper)
  then show ?thesis by (simp add: affine_def [of g d t])
qed

function modular_affine :: "'x difference_graph \<Rightarrow> domain \<Rightarrow> 'x bv \<Rightarrow> affine \<times> 'x difference_graph" where
  "modular_affine g d t =
     (case modular_parts d t of
        Some (base, k) \<Rightarrow>
          (case modular_affine g d base of
             ((n, offset), g) \<Rightarrow> ((n, wrap d (offset + k)), g))
      | None \<Rightarrow> (case affine g d t of ((n, offset), g) \<Rightarrow> ((n, wrap d offset), g)))"
  by pat_completeness auto
termination
  by (relation "measure (\<lambda>(g, d, t). size t)") (auto dest: modular_parts_size)

declare modular_affine.simps [simp del]

end
