(* ===== verification/DifferenceNaming.thy ===== *)
theory DifferenceNaming
  imports DifferenceNodes
begin

text \<open>
  Naming a term keeps the graph well formed and true, and the name has the term's value.
  One family of terms is left out: a conversion that keeps only non-negative vals, of an
  operand that carries a negative offset (\<open>safe_term\<close>).
\<close>

section \<open>The representation invariant\<close>

definition named_wf :: "'x difference_graph \<Rightarrow> affine \<times> 'x difference_graph \<Rightarrow> bool" where
  "named_wf g r \<longleftrightarrow> wf_graph (snd r) \<and> g_next g \<le> g_next (snd r) \<and> in_range (snd r) (fst r)"

lemma advances_next: "advances g h \<Longrightarrow> g_next h = g_next g"
  by (simp add: advances_def)

lemma advances_domain: "advances g h \<Longrightarrow> domain_of h = domain_of g"
  by (simp add: advances_def domain_of_def fun_eq_iff)

lemma after_step:
  "wf_graph h \<and> advances g h \<Longrightarrow> g_next g = g_next g0 \<Longrightarrow> g_domains g = g_domains g0 \<Longrightarrow>
   wf_graph h \<and> g_next h = g_next g0 \<and> domain_of h = domain_of g0"
  by (simp add: advances_def domain_of_def fun_eq_iff)

lemma wf_edges_mono:
  assumes "wf_edges b edges" "b \<le> c"
  shows "wf_edges c edges"
proof (intro allI impI)
  fix n m
  assume "edges n = Some m"
  then have n: "n < b" and m: "store.holds (\<lambda>k w. k < b) m" using assms(1) by blast+
  have "store.holds (\<lambda>k w. k < c) m" by (rule store.holds_mono [OF m]) (use assms(2) in simp)
  then show "n < c \<and> store.holds (\<lambda>k w. k < c) m" using n assms(2) by simp
qed

lemma fresh_node_wf:
  assumes wf: "wf_graph g"
  shows "wf_graph (fresh_node g d t)"
proof -
  have "wf_edges (Suc (g_next g)) (g_out_edges g)" "wf_edges (Suc (g_next g)) (g_in_edges g)"
    "wf_edges (Suc (g_next g)) (g_pending g)"
    using wf_edges_mono [OF wf_graphD(4) [OF wf]] wf_edges_mono [OF wf_graphD(5) [OF wf]]
      wf_edges_mono [OF wf_graphD(6) [OF wf]] by simp_all
  then show ?thesis
    using wf unfolding wf_graph_def fresh_node_def
    by (auto simp: less_Suc_eq)
qed

lemma attach_cast_wf:
  assumes "wf_graph g" "n < g_next g" "in_range g a"
  shows "wf_graph (attach_cast g n a source modulus)
    \<and> g_next (attach_cast g n a source modulus) = g_next g
    \<and> domain_of (attach_cast g n a source modulus) = domain_of g"
proof (cases "\<exists>base. fst a = Some base \<and> snd a = 0")
  case True
  then obtain base where a: "a = (Some base, 0)" by (cases a) auto
  let ?g = "g\<lparr>g_cast_links := (g_cast_links g)
      (n \<mapsto> \<lparr>cast_base = base, cast_source = source, cast_modulus = modulus\<rparr>),
      g_casts_of := (g_casts_of g)(base \<mapsto> with_value (or_default (g_casts_of g base)) n)\<rparr>"
  have "wf_graph ?g" using assms by (simp add: wf_graph_def a)
  from after_step [OF resolve_casts_wf [OF this, of n], of g] show ?thesis
    by (simp add: attach_cast_def a Let_def)
next
  case False
  then show ?thesis using assms by (auto simp: attach_cast_def split: option.split)
qed

lemma attach_flip_wf:
  assumes "wf_graph g" "n < g_next g" "in_range g a"
  shows "wf_graph (attach_flip g d n a) \<and> g_next (attach_flip g d n a) = g_next g
    \<and> domain_of (attach_flip g d n a) = domain_of g"
proof (cases "fst a")
  case None
  then show ?thesis
    using after_step [OF settle_step [OF assms(1,2)] refl refl] by (simp add: attach_flip_def Let_def)
next
  case (Some base)
  let ?g = "g\<lparr>g_flips := (g_flips g)(base \<mapsto> (base, n), n \<mapsto> (base, n))\<rparr>"
  have "wf_graph ?g" using assms by (simp add: wf_graph_def Some)
  from after_step [OF resolve_flip_wf [OF this, of n], of g] show ?thesis
    using assms(1) by (simp add: attach_flip_def Some)
qed

lemma attach_link_wf:
  assumes "wf_graph g" "n < g_next g" "in_range g a"
  shows "wf_graph (attach_link g d n a k nn) \<and> g_next (attach_link g d n a k nn) = g_next g
    \<and> domain_of (attach_link g d n a k nn) = domain_of g"
proof (cases "fst a")
  case None
  then show ?thesis
    using after_step [OF settle_step [OF assms(1,2)] refl refl] assms(1)
    by (simp add: attach_link_def Let_def case_prod_beta)
next
  case (Some base)
  let ?waiting = "case g_pending g base of None \<Rightarrow> map_empty | Some m \<Rightarrow> m"
  let ?m = "with_inserted ?waiting n \<lparr>link_offset = k + snd a, link_domain = d, link_nonnegative = nn\<rparr>"
  let ?g = "g\<lparr>g_pending := (g_pending g)(base \<mapsto> ?m)\<rparr>"
  have "wf_map ?waiting \<and> store.holds (\<lambda>j w. j < g_next g) ?waiting"
    using wf_graphD(6,7) [OF assms(1)] by (auto simp: wf_map_empty split: option.split)
  then have "wf_map ?m" "store.holds (\<lambda>j w. j < g_next g) ?m"
    using assms(2) by (simp_all add: wf_with_inserted store.holds_insert)
  then have "wf_graph ?g" using assms by (simp add: wf_graph_def Some)
  from after_step [OF resolve_pending_wf [OF this, of base], of g] show ?thesis
    by (simp add: attach_link_def Some Let_def)
qed

text \<open>A naming of the bases of a term that keeps the invariant gives one of the term.\<close>

definition keeps_wf :: "'x naming \<Rightarrow> 'x bv \<Rightarrow> bool" where
  "keeps_wf A b \<longleftrightarrow> (\<forall>g d. wf_graph g \<longrightarrow> named_wf g (A g d b))"

lemma keeps_wfD:
  assumes "keeps_wf A b" "wf_graph g" "A g d b = (a, h)"
  shows "wf_graph h" "g_next g \<le> g_next h" "in_range h a"
proof -
  have "named_wf g (a, h)" using assms unfolding keeps_wf_def by metis
  then show "wf_graph h" "g_next g \<le> g_next h" "in_range h a" by (simp_all add: named_wf_def)
qed

lemma name_cast_wf:
  assumes A: "\<And>b. size b < size t \<Longrightarrow> keeps_wf A b" and wf: "wf_graph g" and n: "n < g_next g"
  shows "wf_graph (name_cast A g d n t) \<and> g_next g \<le> g_next (name_cast A g d n t)"
proof (cases "narrow_cast_parts d t")
  case (Some p)
  obtain v source destination modulus where p: "p = (v, source, destination, modulus)" by (rule prod_cases4)
  let ?g = "settle g n (Some (fst destination)) (Some (snd destination))"
  obtain a h where h: "A ?g Int32 v = (a, h)" by (rule prod.exhaust)
  have s: "wf_graph ?g" "g_next ?g = g_next g" using after_step [OF settle_step [OF wf n] refl refl] by simp_all
  have "keeps_wf A v" using A narrow_cast_parts_size Some p by blast
  note r = keeps_wfD [OF this s(1) h]
  have "n < g_next h" using n r(2) s(2) by simp
  from attach_cast_wf [OF r(1) this r(3), of source modulus] r(2) s(2)
  show ?thesis by (simp add: name_cast_def Some p h)
qed (simp add: name_cast_def wf)

lemma name_flip_wf:
  assumes A: "\<And>b. size b < size t \<Longrightarrow> keeps_wf A b" and wf: "wf_graph g" and n: "n < g_next g"
  shows "wf_graph (name_flip A g d n t) \<and> g_next g \<le> g_next (name_flip A g d n t)"
proof (cases "sign_flip_base d t")
  case (Some b)
  obtain a h where h: "A g d b = (a, h)" by (rule prod.exhaust)
  note r = keeps_wfD [OF A [OF sign_flip_base_size [OF Some]] wf h]
  from attach_flip_wf [OF r(1) _ r(3), of n d] n r(2) show ?thesis by (simp add: name_flip_def Some h)
qed (simp add: name_flip_def wf)

lemma name_link_wf:
  assumes A: "\<And>b. size b < size t \<Longrightarrow> keeps_wf A b" and wf: "wf_graph g" and n: "n < g_next g"
  shows "wf_graph (name_link A g d n t) \<and> g_next g \<le> g_next (name_link A g d n t)"
proof (cases "link_parts d t")
  case (Some p)
  obtain d' b k nn where p: "p = (d', b, k, nn)" by (rule prod_cases4)
  obtain a h where h: "A g d' b = (a, h)" by (rule prod.exhaust)
  have "keeps_wf A b" using A link_parts_size Some p by blast
  note r = keeps_wfD [OF this wf h]
  from attach_link_wf [OF r(1) _ r(3), of n d k nn] n r(2) show ?thesis by (simp add: name_link_def Some p h)
qed (simp add: name_link_def wf)

lemma node_with_wf:
  assumes A: "\<And>b. size b < size t \<Longrightarrow> keeps_wf A b" and wf: "wf_graph g" and r: "node_with A g d t = (n, h)"
  shows "wf_graph h \<and> g_next g \<le> g_next h \<and> n < g_next h"
proof (cases "g_nodes g (d, t)")
  case (Some m)
  then show ?thesis using r wf wf_graphD(1) [OF wf Some] by (auto simp: node_with_def)
next
  case None
  let ?n = "g_next g"
  let ?g1 = "fresh_node g d t"
  let ?g2 = "name_cast A ?g1 d ?n t"
  let ?g3 = "name_flip A ?g2 d ?n t"
  have next1: "g_next ?g1 = Suc ?n" by (simp add: fresh_node_def)
  have 2: "wf_graph ?g2 \<and> g_next ?g1 \<le> g_next ?g2"
    by (rule name_cast_wf [OF A fresh_node_wf [OF wf]]) (use next1 in simp_all)
  have 3: "wf_graph ?g3 \<and> g_next ?g2 \<le> g_next ?g3"
    by (rule name_flip_wf [OF A conjunct1 [OF 2]]) (use next1 2 in simp_all)
  have 4: "wf_graph (name_link A ?g3 d ?n t) \<and> g_next ?g3 \<le> g_next (name_link A ?g3 d ?n t)"
    by (rule name_link_wf [OF A conjunct1 [OF 3]]) (use next1 2 3 in simp_all)
  show ?thesis using r 2 3 4 next1 by (auto simp: node_with_def None Let_def)
qed

lemma in_range_shift: "in_range g a \<Longrightarrow> in_range g (fst a, k)"
  by simp

lemma known_flip_node: "known_flip g d a = Some b \<Longrightarrow> fst b = fst a"
  by (auto simp: known_flip_def Let_def case_prod_beta split: option.splits if_splits)

lemma linked_base_wf:
  assumes A: "\<And>b. size b < size t \<Longrightarrow> keeps_wf A b" and wf: "wf_graph g" and r: "linked_base A g d t = (x, h)"
  shows "wf_graph h \<and> g_next g \<le> g_next h \<and> (\<forall>a. x = Some a \<longrightarrow> in_range h a)"
proof (cases "link_parts d t")
  case (Some p)
  obtain d' b k nn where p: "p = (d', b, k, nn)" by (rule prod_cases4)
  obtain a i where i: "A g d' b = (a, i)" by (rule prod.exhaust)
  have "keeps_wf A b" using A link_parts_size Some p by blast
  note w = keeps_wfD [OF this wf i]
  show ?thesis using w r by (auto simp: linked_base_def Some p i split: if_splits)
qed (use r wf in \<open>simp add: linked_base_def\<close>)

lemma flipped_base_wf:
  assumes A: "\<And>b. size b < size t \<Longrightarrow> keeps_wf A b" and wf: "wf_graph g" and r: "flipped_base A g d t = (x, h)"
  shows "wf_graph h \<and> g_next g \<le> g_next h \<and> (\<forall>a. x = Some a \<longrightarrow> in_range h a)"
proof (cases "sign_flip_base d t")
  case (Some b)
  obtain a i where i: "A g d b = (a, i)" by (rule prod.exhaust)
  note w = keeps_wfD [OF A [OF sign_flip_base_size [OF Some]] wf i]
  show ?thesis using w r known_flip_node [of i d a] by (auto simp: flipped_base_def Some i)
qed (use r wf in \<open>simp add: flipped_base_def\<close>)

lemma affine_with_wf:
  assumes A: "\<And>b. size b < size t \<Longrightarrow> keeps_wf A b"
  shows "keeps_wf (affine_with A) t"
  unfolding keeps_wf_def
proof (intro allI impI)
  fix g :: "'a difference_graph" and d
  assume wf: "wf_graph g"
  obtain x h where x: "linked_base A g d t = (x, h)" by (rule prod.exhaust)
  obtain y i where y: "flipped_base A h d t = (y, i)" by (rule prod.exhaust)
  obtain n j where n: "node_with A i d t = (n, j)" by (rule prod.exhaust)
  note 1 = linked_base_wf [OF A wf x]
  note 2 = flipped_base_wf [OF A conjunct1 [OF 1] y]
  note 3 = node_with_wf [OF A conjunct1 [OF 2] n]
  show "named_wf g (affine_with A g d t)"
    using wf 1 2 3 wf_graphD(1) [OF wf, of "(d, t)"]
    by (auto simp: named_wf_def affine_with_def x y n split: option.split)
qed

lemma affine_keeps_wf: "keeps_wf affine t"
proof (induction "size t" arbitrary: t rule: less_induct)
  case less
  have "keeps_wf (affine_with affine) t" by (rule affine_with_wf) (rule less)
  then show ?case by (simp add: keeps_wf_def affine_unfold [symmetric])
qed

lemma affine_wf:
  assumes "wf_graph g" "affine g d t = (a, h)"
  shows "wf_graph h" "g_next g \<le> g_next h" "in_range h a"
  using keeps_wfD [OF affine_keeps_wf assms] .

lemma modular_affine_wf:
  "wf_graph g \<Longrightarrow> modular_affine g d t = (a, h) \<Longrightarrow>
   wf_graph h \<and> g_next g \<le> g_next h \<and> in_range h a"
proof (induction g d t arbitrary: a h rule: modular_affine.induct)
  case (1 g d t)
  show ?case
  proof (cases "modular_parts d t")
    case None
    obtain b i where b: "affine g d t = (b, i)" by (rule prod.exhaust)
    show ?thesis
      using "1.prems" affine_wf [OF "1.prems"(1) b] by (cases b) (auto simp: modular_affine.simps [of g d t] None b)
  next
    case (Some p)
    obtain base k where p: "p = (base, k)" by (rule prod.exhaust)
    obtain b i where b: "modular_affine g d base = (b, i)" by (rule prod.exhaust)
    show ?thesis
      using "1.prems" "1.IH" [OF Some p [symmetric] "1.prems"(1) b]
      by (cases b) (auto simp: modular_affine.simps [of g d t] Some p b)
  qed
qed

section \<open>Reads are true\<close>

lemma foldl_min_true:
  "x \<le> high \<Longrightarrow> \<forall>(k, w) \<in> set edges. x \<le> f k w \<Longrightarrow>
   x \<le> foldl (\<lambda>high (k, w). if P k then min high (f k w) else high) high edges"
  for x :: int
  by (induction edges arbitrary: high) auto

lemma foldl_max_true:
  "low \<le> x \<Longrightarrow> \<forall>(k, w) \<in> set edges. f k w \<le> x \<Longrightarrow>
   foldl (\<lambda>low (k, w). if P k then max low (f k w) else low) low edges \<le> x"
  for x :: int
  by (induction edges arbitrary: low) auto

lemma node_value:
  assumes "sound \<rho> \<nu> g" "n < g_next g"
  shows "fst (interval g n) \<le> \<nu> n" "\<nu> n \<le> snd (interval g n)" "i128_min \<le> \<nu> n" "\<nu> n \<le> i128_max"
    "in_domain (domain_of g n) (\<nu> n)"
  using graph_trueD(3,4) [OF soundD(2) [OF assms(1)] assms(2)] domain_i128 [of "domain_of g n" "\<nu> n"]
  by (auto simp: within_def)

lemma read_interval_true:
  assumes s: "sound \<rho> \<nu> g" and n: "n < g_next g"
  shows "within (\<nu> n) (read_interval g n)"
proof -
  obtain low high where i: "interval g n = (low, high)" by (rule prod.exhaust)
  have "\<forall>(k, w) \<in> set (take EDGE_LIMIT (entries m)). \<nu> n \<le> saturating_add (snd (interval g k)) w"
    if m: "g_in_edges g n = Some m" for m
  proof
    fix x
    assume "x \<in> set (take EDGE_LIMIT (entries m))"
    moreover obtain k w where x: "x = (k, w)" by (rule prod.exhaust)
    ultimately have e: "(k, w) \<in> set (entries m)" by (auto dest: in_set_takeD)
    have "store.holds (\<lambda>k w. k < g_next g) m" using wf_graphD(5) [OF soundD(1) [OF s]] m by blast
    from store.holds_item [OF this e] have k: "k < g_next g" .
    have "\<nu> n - \<nu> k \<le> w" by (rule store.holds_item [OF graph_trueD(6) [OF soundD(2) [OF s] m] e])
    then have "\<nu> n \<le> saturating_add (snd (interval g k)) w"
      using node_value [OF s k] node_value [OF s n] by (intro saturating_add_upper) auto
    then show "case x of (k, w) \<Rightarrow> \<nu> n \<le> saturating_add (snd (interval g k)) w" by (simp add: x)
  qed
  moreover have "\<forall>(k, w) \<in> set (take EDGE_LIMIT (entries m)). saturating_sub (fst (interval g k)) w \<le> \<nu> n"
    if m: "g_out_edges g n = Some m" for m
  proof
    fix x
    assume "x \<in> set (take EDGE_LIMIT (entries m))"
    moreover obtain k w where x: "x = (k, w)" by (rule prod.exhaust)
    ultimately have e: "(k, w) \<in> set (entries m)" by (auto dest: in_set_takeD)
    have "store.holds (\<lambda>k w. k < g_next g) m" using wf_graphD(4) [OF soundD(1) [OF s]] m by blast
    from store.holds_item [OF this e] have k: "k < g_next g" .
    have "\<nu> k - \<nu> n \<le> w" by (rule store.holds_item [OF graph_trueD(5) [OF soundD(2) [OF s] m] e])
    then have "saturating_sub (fst (interval g k)) w \<le> \<nu> n"
      using node_value [OF s k] node_value [OF s n] by (intro saturating_sub_lower) auto
    then show "case x of (k, w) \<Rightarrow> saturating_sub (fst (interval g k)) w \<le> \<nu> n" by (simp add: x)
  qed
  ultimately show ?thesis
    using node_value [OF s n]
    by (auto simp: read_interval_def i Let_def split: option.split intro!: foldl_min_true foldl_max_true)
qed

lemma affine_interval_true:
  assumes "sound \<rho> \<nu> g" "in_range g a"
  shows "within (affine_value \<nu> a) (affine_interval g a)"
  using read_interval_true [OF assms(1)] assms(2)
  by (cases "fst a") (auto simp: affine_interval_def affine_value_def within_def Let_def case_prod_beta)

lemma known_flip_true:
  assumes s: "sound \<rho> \<nu> g" "in_range g a" and k: "known_flip g d a = Some b"
  shows "affine_value \<nu> b = flip_sign d (affine_value \<nu> a) \<and> fst b = fst a"
proof (cases "fst a")
  case None
  then show ?thesis using k by (auto simp: known_flip_def affine_value_def)
next
  case (Some n)
  obtain low high where i: "affine_interval g a = (low, high)" by (rule prod.exhaust)
  have "low \<le> affine_value \<nu> a" "affine_value \<nu> a \<le> high"
    using affine_interval_true [OF s] by (simp_all add: i)
  then show ?thesis
    using k by (auto simp: known_flip_def Some i affine_value_def flip_sign_cases Let_def split: if_splits)
qed

lemma link_fits_true:
  assumes l: "link_parts d t = Some (d', b, k, nn)" and x: "within (reading \<rho> d' b) i" and f: "link_fits i k d nn"
  shows "reading \<rho> d t = reading \<rho> d' b + k"
  using x f by (intro link_parts_sound [OF l])
    (auto simp: link_fits_def within_def in_domain_def Let_def case_prod_beta split: if_splits)

section \<open>Terms the graph names faithfully\<close>

text \<open>A term whose name carries no negative offset, whatever the graph knows.\<close>

function rising :: "domain \<Rightarrow> 'x bv \<Rightarrow> bool" where
  "rising d t =
     (case link_parts d t of
        Some (base_domain, base, offset, _) \<Rightarrow> 0 \<le> offset \<and> rising base_domain base
      | None \<Rightarrow> sign_flip_base d t = None)"
  by pat_completeness auto
termination by (relation "measure (\<lambda>(d, t). size t)") (auto dest: link_parts_size)

declare rising.simps [simp del]

text \<open>Every conversion that keeps only non-negative values has a rising operand.\<close>

function safe_term :: "domain \<Rightarrow> 'x bv \<Rightarrow> bool" where
  "safe_term d t =
     ((case link_parts d t of
         None \<Rightarrow> True
       | Some (base_domain, base, _, nonnegative) \<Rightarrow>
           (nonnegative \<longrightarrow> rising base_domain base) \<and> safe_term base_domain base)
      \<and> (case sign_flip_base d t of None \<Rightarrow> True | Some base \<Rightarrow> safe_term d base)
      \<and> (case narrow_cast_parts d t of None \<Rightarrow> True | Some (v, _) \<Rightarrow> safe_term Int32 v))"
  by pat_completeness auto
termination
  by (relation "measure (\<lambda>(d, t). size t)")
    (auto dest: link_parts_size sign_flip_base_size narrow_cast_parts_size)

declare safe_term.simps [simp del]

lemma safe_termD:
  assumes "safe_term d t"
  shows "link_parts d t = Some (d', b, k, nn) \<Longrightarrow> safe_term d' b"
    and "link_parts d t = Some (d', b, k, True) \<Longrightarrow> rising d' b"
    and "sign_flip_base d t = Some b \<Longrightarrow> safe_term d b"
    and "narrow_cast_parts d t = Some (v, r) \<Longrightarrow> safe_term Int32 v"
  using assms by (auto simp: safe_term.simps [of d t])

lemma affine_rising:
  assumes "rising d t" "fst (fst (affine g d t)) \<noteq> None"
  shows "0 \<le> snd (fst (affine g d t))"
  using assms
proof (induction "size t" arbitrary: d t g rule: less_induct)
  case less
  obtain x h where x: "linked_base affine g d t = (x, h)" by (rule prod.exhaust)
  have linked: "0 \<le> snd a" if a: "x = Some a" for a
  proof -
    obtain d' b k nn where l: "link_parts d t = Some (d', b, k, nn)"
      using x a by (auto simp: linked_base_def split: option.splits)
    obtain c i where c: "affine g d' b = (c, i)" by (rule prod.exhaust)
    have "0 \<le> k" "rising d' b" using less.prems(1) by (simp_all add: rising.simps [of d t] l)
    moreover have "a = (fst c, snd c + k)" "fst c \<noteq> None"
      using x a by (auto simp: linked_base_def l c split: if_splits)
    ultimately show ?thesis using less.hyps [OF link_parts_size [OF l], of d' g] c by simp
  qed
  have flipped: "flipped_base affine h d t = (None, h)" if "x = None"
  proof (cases "link_parts d t")
    case None
    then show ?thesis using less.prems(1) by (simp add: rising.simps [of d t] flipped_base_def)
  next
    case (Some p)
    obtain d' b k nn where l: "link_parts d t = Some (d', b, k, nn)" using Some by (cases p) auto
    have "sign_flip_base d t = None"
      using l by (elim link_parts_cases)
        (auto simp: sign_flip_base_def is_sum_def is_difference_def)
    then show ?thesis by (simp add: flipped_base_def)
  qed
  show ?case
    using less.prems(2) linked flipped
    by (auto simp: affine_unfold [of g d t] affine_with_def x Let_def case_prod_beta split: option.splits)
qed

section \<open>Naming is true\<close>

text \<open>A larger graph, under a valuation of its new nodes too.\<close>

definition extends :: "(nat \<Rightarrow> int) \<Rightarrow> 'x difference_graph \<Rightarrow> (nat \<Rightarrow> int) \<Rightarrow> 'x difference_graph \<Rightarrow> bool" where
  "extends \<nu> g \<nu>' h \<longleftrightarrow> g_next g \<le> g_next h
     \<and> (\<forall>n < g_next g. \<nu>' n = \<nu> n \<and> domain_of h n = domain_of g n)"

lemma extends_refl [simp]: "extends \<nu> g \<nu> g"
  by (simp add: extends_def)

lemma extends_trans: "extends \<nu> g \<nu>' h \<Longrightarrow> extends \<nu>' h \<nu>'' i \<Longrightarrow> extends \<nu> g \<nu>'' i"
  by (auto simp: extends_def)

lemma extends_same: "g_next h = g_next g \<Longrightarrow> domain_of h = domain_of g \<Longrightarrow> extends \<nu> g \<nu> h"
  by (simp add: extends_def)

lemma extends_affine:
  "extends \<nu> g \<nu>' h \<Longrightarrow> in_range g a \<Longrightarrow> in_range h a \<and> affine_value \<nu>' a = affine_value \<nu> a"
  by (cases "fst a") (auto simp: extends_def affine_value_def)

definition named_true ::
  "'x valuation \<Rightarrow> (nat \<Rightarrow> int) \<Rightarrow> 'x difference_graph \<Rightarrow> int \<Rightarrow> affine \<times> 'x difference_graph \<Rightarrow> bool" where
  "named_true \<rho> \<nu> g x r \<longleftrightarrow>
     (\<exists>\<nu>'. sound \<rho> \<nu>' (snd r) \<and> extends \<nu> g \<nu>' (snd r) \<and> in_range (snd r) (fst r)
       \<and> affine_value \<nu>' (fst r) = x)"

lemma true_fresh_node:
  assumes s: "sound \<rho> \<nu> g" and new: "g_nodes g (d, t) = None"
  defines "\<nu>' \<equiv> \<nu>(g_next g := reading \<rho> d t)"
  shows "sound \<rho> \<nu>' (fresh_node g d t) \<and> extends \<nu> g \<nu>' (fresh_node g d t)
    \<and> domain_of (fresh_node g d t) (g_next g) = d"
proof -
  let ?n = "g_next g" and ?h = "fresh_node g d t"
  note wf = soundD(1) [OF s] and tr = soundD(2) [OF s]
  have old: "\<nu>' n = \<nu> n" if "n < ?n" for n using that by (simp add: \<nu>'_def)
  have dom: "domain_of ?h n = (if n = ?n then d else domain_of g n)" for n
    by (simp add: fresh_node_def domain_of_def)
  have none: "g_bounds g ?n = None" "g_excluded g ?n = None" "g_flips g ?n = None"
    "g_cast_links g ?n = None" "g_out_edges g ?n = None" "g_in_edges g ?n = None" "g_pending g ?n = None"
    using wf unfolding wf_graph_def by (metis less_irrefl not_None_eq surj_pair)+
  have ivl: "interval ?h n = (if n = ?n then domain_range d else interval g n)" for n
    using none(1) dom by (simp add: interval_def fresh_node_def domain_of_def split: option.split)
  have edges: "store.holds S m"
    if h: "store.holds R m" and k: "store.holds (\<lambda>k w. k < ?n) m" and imp: "\<And>k w. k < ?n \<Longrightarrow> R k w \<Longrightarrow> S k w"
    for R S :: "nat \<Rightarrow> 'w \<Rightarrow> bool" and m
    unfolding store.holds_def
  proof
    fix x
    assume x: "x \<in> set (entries m)"
    obtain j w where j: "x = (j, w)" by (rule prod.exhaust)
    have "R j w" "j < ?n" using store.holds_item [OF h] store.holds_item [OF k] x j by blast+
    then show "case x of (j, w) \<Rightarrow> S j w" using imp by (simp add: j)
  qed
  have aff: "affine_value \<nu>' a = affine_value \<nu> a" if "in_range g a" for a
    using that old by (cases "fst a") (auto simp: affine_value_def)
  have "graph_true \<rho> \<nu>' ?h"
    unfolding graph_true_def
  proof (intro conjI allI impI)
    fix d' t' n
    assume n: "g_nodes ?h (d', t') = Some n"
    show "reading \<rho> d' t' = \<nu>' n"
    proof (cases "(d', t') = (d, t)")
      case True
      then show ?thesis using n by (simp add: fresh_node_def \<nu>'_def)
    next
      case False
      then have "g_nodes g (d', t') = Some n" using n by (auto simp: fresh_node_def split: if_splits)
      then show ?thesis using graph_trueD(2) [OF tr] wf_graphD(1) [OF wf] old by metis
    qed
  next
    fix n
    assume "n < g_next ?h"
    then have "n < ?n \<or> n = ?n" by (auto simp: fresh_node_def)
    then show "in_domain (domain_of ?h n) (\<nu>' n)" "within (\<nu>' n) (interval ?h n)"
      using graph_trueD(3,4) [OF tr] old reading_in_domain [of d \<rho> t]
      by (auto simp: dom ivl within_domain) (auto simp: \<nu>'_def)
  next
    fix n m
    assume "g_out_edges ?h n = Some m"
    then have e: "g_out_edges g n = Some m" by (simp add: fresh_node_def)
    show "store.holds (\<lambda>k w. \<nu>' k - \<nu>' n \<le> w) m"
      using graph_trueD(5) [OF tr e] wf_graphD(4) [OF wf] e
      by (elim edges) (auto simp: old)
  next
    fix n m
    assume "g_in_edges ?h n = Some m"
    then have e: "g_in_edges g n = Some m" by (simp add: fresh_node_def)
    show "store.holds (\<lambda>k w. \<nu>' n - \<nu>' k \<le> w) m"
      using graph_trueD(6) [OF tr e] wf_graphD(5) [OF wf] e
      by (elim edges) (auto simp: old)
  next
    fix n m
    assume "g_pending ?h n = Some m"
    then have e: "g_pending g n = Some m" by (simp add: fresh_node_def)
    show "store.holds (\<lambda>k l. link_true (\<nu>' n) (\<nu>' k) l) m"
      using graph_trueD(7) [OF tr e] wf_graphD(6) [OF wf] e
      by (elim edges) (auto simp: old)
  next
    fix n
    show "\<not> excludes ?h n (\<nu>' n)"
    proof (cases "g_excluded g n")
      case (Some e)
      then have "n < ?n" using wf_graphD(8) [OF wf] by blast
      then show ?thesis using graph_trueD(8) [OF tr, of n] old by (simp add: excludes_def fresh_node_def)
    qed (simp add: excludes_def fresh_node_def)
  next
    fix n b f
    assume "g_flips ?h n = Some (b, f)"
    then have e: "g_flips g n = Some (b, f)" by (simp add: fresh_node_def)
    then have "b < ?n" "f < ?n" using wf_graphD(9) [OF wf] by blast+
    then show "flip_true (domain_of ?h f) (\<nu>' b) (\<nu>' f)" using graph_trueD(9) [OF tr e] old by (simp add: dom)
  next
    fix n l
    assume "g_cast_links ?h n = Some l"
    then have e: "g_cast_links g n = Some l" by (simp add: fresh_node_def)
    then have "n < ?n" "cast_base l < ?n" using wf_graphD(10) [OF wf] by blast+
    then show "cast_true (\<nu>' (cast_base l)) (\<nu>' n) l" using graph_trueD(10) [OF tr e] old by simp
  next
    fix c a b
    assume "(c, a, b) \<in> g_no_overflow ?h"
    then have e: "(c, a, b) \<in> g_no_overflow g" by (simp add: fresh_node_def)
    then show "overflow_absent c (affine_value \<nu>' a) (affine_value \<nu>' b)"
      using graph_trueD(13) [OF tr e] aff wf_graphD(11) [OF wf e] by simp
  qed (use tr in \<open>simp_all add: fresh_node_def graph_true_def\<close>)
  moreover have "extends \<nu> g \<nu>' ?h" using old dom by (simp add: extends_def fresh_node_def)
  ultimately show ?thesis using fresh_node_wf [OF wf] dom by (simp add: sound_def)
qed

lemma attach_cast_true:
  assumes s: "sound \<rho> \<nu> g" and n: "n < g_next g" and r: "in_range g a"
    and parts: "narrow_cast_parts d t = Some (v, source, destination, modulus)"
    and vals: "\<nu> n = reading \<rho> d t" "affine_value \<nu> a = reading \<rho> Int32 v"
  shows "sound \<rho> \<nu> (attach_cast g n a source modulus)"
proof (cases "\<exists>base. fst a = Some base \<and> snd a = 0")
  case True
  then obtain base where a: "a = (Some base, 0)" by (cases a) auto
  let ?l = "\<lparr>cast_base = base, cast_source = source, cast_modulus = modulus\<rparr>"
  let ?g = "g\<lparr>g_cast_links := (g_cast_links g)(n \<mapsto> ?l),
      g_casts_of := (g_casts_of g)(base \<mapsto> with_value (or_default (g_casts_of g base)) n)\<rparr>"
  have "cast_true (\<nu> base) (\<nu> n) ?l"
    using narrow_cast_sound(1,2,4) [OF parts] vals by (simp add: cast_true_def a affine_value_def)
  then have "graph_true \<rho> \<nu> ?g"
    using soundD(2) [OF s] by (simp add: graph_true_def domain_of_def excludes_def)
  moreover have "wf_graph ?g" using soundD(1) [OF s] n r by (simp add: wf_graph_def a)
  ultimately have "sound \<rho> \<nu> ?g" by (simp add: sound_def)
  from sound_resolve_casts [OF this, of n] show ?thesis by (simp add: attach_cast_def a Let_def)
next
  case False
  then show ?thesis using s by (auto simp: attach_cast_def split: option.split)
qed

lemma attach_flip_true:
  assumes s: "sound \<rho> \<nu> g" and n: "n < g_next g" and r: "in_range g a"
    and base: "sign_flip_base d t = Some b" and dom: "domain_of g n = d"
    and vals: "\<nu> n = reading \<rho> d t" "affine_value \<nu> a = reading \<rho> d b"
  shows "sound \<rho> \<nu> (attach_flip g d n a)"
proof -
  have flip: "\<nu> n = flip_sign d (affine_value \<nu> a)" using sign_flip_sound [OF base, of \<rho>] vals by simp
  show ?thesis
  proof (cases "fst a")
    case None
    then have "\<nu> n = flip_sign d (snd a)" using flip by (simp add: affine_value_def)
    then show ?thesis
      using sound_settle [OF s n, of "Some (flip_sign d (snd a))" "Some (flip_sign d (snd a))"]
      by (simp add: attach_flip_def None Let_def bound_true_def)
  next
    case (Some m)
    show ?thesis
    proof (cases "snd a = 0")
      case True
      let ?g = "g\<lparr>g_flips := (g_flips g)(m \<mapsto> (m, n), n \<mapsto> (m, n))\<rparr>"
      have m: "\<nu> m = reading \<rho> d b" using vals(2) True by (simp add: affine_value_def Some)
      have "flip_true d (\<nu> m) (\<nu> n)"
        using flip sign_flip_base_domain [OF base] reading_in_domain [of d \<rho> b] True
        by (simp add: flip_true_def affine_value_def Some m)
      then have "graph_true \<rho> \<nu> ?g"
        using soundD(2) [OF s] dom by (auto simp: graph_true_def domain_of_def excludes_def)
      moreover have "wf_graph ?g" using soundD(1) [OF s] n r by (simp add: wf_graph_def Some)
      ultimately have "sound \<rho> \<nu> ?g" by (simp add: sound_def)
      from sound_resolve_flip [OF this, of n] show ?thesis by (simp add: attach_flip_def Some True)
    qed (simp add: attach_flip_def Some s)
  qed
qed

lemma attach_link_true:
  assumes s: "sound \<rho> \<nu> g" and n: "n < g_next g" and r: "in_range g a"
    and parts: "link_parts d t = Some (d', b, k, nn)"
    and rise: "nn \<Longrightarrow> fst a \<noteq> None \<Longrightarrow> 0 \<le> snd a"
    and vals: "\<nu> n = reading \<rho> d t" "affine_value \<nu> a = reading \<rho> d' b"
  shows "sound \<rho> \<nu> (attach_link g d n a k nn)"
proof (cases "fst a")
  case None
  then have c: "snd a = reading \<rho> d' b" using vals(2) by (simp add: affine_value_def)
  let ?v = "snd a + k"
  show ?thesis
  proof (cases "in_domain d ?v \<and> (\<not> nn \<or> 0 \<le> snd a)")
    case True
    then have "\<nu> n = ?v" using link_parts_sound [OF parts, of \<rho>] vals(1) c by auto
    then show ?thesis
      using sound_settle [OF s n, of "Some ?v" "Some ?v"] s
      by (simp add: attach_link_def None Let_def case_prod_beta bound_true_def)
  next
    case False
    then show ?thesis using s by (auto simp: attach_link_def None Let_def case_prod_beta in_domain_def)
  qed
next
  case (Some m)
  let ?waiting = "case g_pending g m of None \<Rightarrow> map_empty | Some m \<Rightarrow> m"
  let ?l = "\<lparr>link_offset = k + snd a, link_domain = d, link_nonnegative = nn\<rparr>"
  let ?m = "with_inserted ?waiting n ?l"
  let ?g = "g\<lparr>g_pending := (g_pending g)(m \<mapsto> ?m)\<rparr>"
  have b: "reading \<rho> d' b = \<nu> m + snd a" using vals(2) by (simp add: affine_value_def Some)
  have "link_true (\<nu> m) (\<nu> n) ?l"
    unfolding link_true_def
  proof
    assume c: "if link_nonnegative ?l then 0 \<le> \<nu> m else in_domain (link_domain ?l) (\<nu> m + link_offset ?l)"
    have "reading \<rho> d t = reading \<rho> d' b + k"
    proof (rule link_parts_sound [OF parts])
      show "nn \<Longrightarrow> 0 \<le> reading \<rho> d' b" using c rise by (simp add: b Some)
      show "\<not> nn \<Longrightarrow> in_domain d (reading \<rho> d' b + k)" using c by (simp add: b algebra_simps)
    qed
    then show "\<nu> n = \<nu> m + link_offset ?l" using vals(1) by (simp add: b)
  qed
  moreover have "store.holds (\<lambda>k l. link_true (\<nu> m) (\<nu> k) l) ?waiting"
    using graph_trueD(7) [OF soundD(2) [OF s]] by (simp split: option.split)
  ultimately have "store.holds (\<lambda>k l. link_true (\<nu> m) (\<nu> k) l) ?m" by (rule store.holds_insert [rotated])
  then have "graph_true \<rho> \<nu> ?g"
    using soundD(2) [OF s] by (simp add: graph_true_def domain_of_def excludes_def)
  moreover have "wf_graph ?g"
  proof -
    have "wf_map ?waiting \<and> store.holds (\<lambda>j w. j < g_next g) ?waiting"
      using wf_graphD(6,7) [OF soundD(1) [OF s]] by (auto simp: wf_map_empty split: option.split)
    then have "wf_map ?m" "store.holds (\<lambda>j w. j < g_next g) ?m"
      using n by (simp_all add: wf_with_inserted store.holds_insert)
    then show ?thesis using soundD(1) [OF s] r by (simp add: wf_graph_def Some)
  qed
  ultimately have "sound \<rho> \<nu> ?g" by (simp add: sound_def)
  from sound_resolve_pending [OF this, of m] show ?thesis by (simp add: attach_link_def Some Let_def)
qed

definition keeps_true :: "'x valuation \<Rightarrow> 'x naming \<Rightarrow> 'x bv \<Rightarrow> bool" where
  "keeps_true \<rho> A b \<longleftrightarrow>
     (\<forall>\<nu> g d. sound \<rho> \<nu> g \<longrightarrow> safe_term d b \<longrightarrow> named_true \<rho> \<nu> g (reading \<rho> d b) (A g d b))
     \<and> (\<forall>g d. rising d b \<longrightarrow> fst (fst (A g d b)) \<noteq> None \<longrightarrow> 0 \<le> snd (fst (A g d b)))"

lemma keeps_trueE:
  assumes "keeps_true \<rho> A b" "sound \<rho> \<nu> g" "safe_term d b" "A g d b = (a, h)"
  obtains \<nu>' where "sound \<rho> \<nu>' h" "extends \<nu> g \<nu>' h" "in_range h a" "affine_value \<nu>' a = reading \<rho> d b"
    "rising d b \<Longrightarrow> fst a \<noteq> None \<Longrightarrow> 0 \<le> snd a"
  using assms unfolding keeps_true_def named_true_def by (metis fst_conv snd_conv)

text \<open>A stage of naming, given a naming of the bases.\<close>

definition stage_true ::
  "'x valuation \<Rightarrow> (nat \<Rightarrow> int) \<Rightarrow> 'x difference_graph \<Rightarrow> 'x difference_graph \<Rightarrow> bool" where
  "stage_true \<rho> \<nu> g h \<longleftrightarrow> (\<exists>\<nu>'. sound \<rho> \<nu>' h \<and> extends \<nu> g \<nu>' h)"

lemma stage_true_refl: "sound \<rho> \<nu> g \<Longrightarrow> stage_true \<rho> \<nu> g g"
  unfolding stage_true_def using extends_refl by blast

lemma extended_node:
  assumes "extends \<nu> g \<nu>' h" "n < g_next g" "\<nu> n = x" "domain_of g n = d"
  shows "n < g_next h" "\<nu>' n = x" "domain_of h n = d"
  using assms by (auto simp: extends_def)

lemma attached_true:
  assumes "extends \<nu> g \<nu>' h" "sound \<rho> \<nu>' h'" "wf_graph h' \<and> g_next h' = g_next h \<and> domain_of h' = domain_of h"
  shows "stage_true \<rho> \<nu> g h'"
  unfolding stage_true_def using assms extends_trans [OF assms(1) extends_same [of h' h \<nu>']] by blast

lemma name_cast_true:
  assumes A: "\<And>b. size b < size t \<Longrightarrow> keeps_true \<rho> A b" and s: "sound \<rho> \<nu> g"
    and n: "n < g_next g" "\<nu> n = reading \<rho> d t" and safe: "safe_term d t"
  shows "stage_true \<rho> \<nu> g (name_cast A g d n t)"
proof (cases "narrow_cast_parts d t")
  case None
  then show ?thesis using stage_true_refl [OF s] by (simp add: name_cast_def)
next
  case (Some p)
  obtain v source destination modulus where p: "p = (v, source, destination, modulus)" by (rule prod_cases4)
  note parts = Some [unfolded p]
  let ?g = "settle g n (Some (fst destination)) (Some (snd destination))"
  have "within (\<nu> n) destination" using narrow_cast_sound(3) [OF parts] n(2) by simp
  then have s1: "sound \<rho> \<nu> ?g"
    using sound_settle [OF s n(1)] by (simp add: bound_true_def within_def)
  have e1: "extends \<nu> g \<nu> ?g"
    using after_step [OF settle_step [OF soundD(1) [OF s] n(1)] refl refl] by (intro extends_same) blast+
  obtain a h where h: "A ?g Int32 v = (a, h)" by (rule prod.exhaust)
  obtain \<nu>' where r: "sound \<rho> \<nu>' h" "extends \<nu> ?g \<nu>' h" "in_range h a" "affine_value \<nu>' a = reading \<rho> Int32 v"
    using keeps_trueE [OF A [OF narrow_cast_parts_size [OF parts]] s1 safe_termD(4) [OF safe parts] h] by metis
  note e = extends_trans [OF e1 r(2)]
  note node = extended_node [OF e n(1) n(2) refl]
  have "stage_true \<rho> \<nu> g (attach_cast h n a source modulus)"
    by (rule attached_true [OF e attach_cast_true [OF r(1) node(1) r(3) parts node(2) r(4)]])
      (rule attach_cast_wf [OF soundD(1) [OF r(1)] node(1) r(3)])
  then show ?thesis by (simp add: name_cast_def parts h)
qed

lemma name_flip_true:
  assumes A: "\<And>b. size b < size t \<Longrightarrow> keeps_true \<rho> A b" and s: "sound \<rho> \<nu> g"
    and n: "n < g_next g" "\<nu> n = reading \<rho> d t" "domain_of g n = d" and safe: "safe_term d t"
  shows "stage_true \<rho> \<nu> g (name_flip A g d n t)"
proof (cases "sign_flip_base d t")
  case None
  then show ?thesis using stage_true_refl [OF s] by (simp add: name_flip_def)
next
  case (Some b)
  obtain a h where h: "A g d b = (a, h)" by (rule prod.exhaust)
  obtain \<nu>' where r: "sound \<rho> \<nu>' h" "extends \<nu> g \<nu>' h" "in_range h a" "affine_value \<nu>' a = reading \<rho> d b"
    using keeps_trueE [OF A [OF sign_flip_base_size [OF Some]] s safe_termD(3) [OF safe Some] h] by metis
  note node = extended_node [OF r(2) n]
  have "stage_true \<rho> \<nu> g (attach_flip h d n a)"
    by (rule attached_true [OF r(2) attach_flip_true [OF r(1) node(1) r(3) Some node(3,2) r(4)]])
      (rule attach_flip_wf [OF soundD(1) [OF r(1)] node(1) r(3)])
  then show ?thesis by (simp add: name_flip_def Some h)
qed

lemma name_link_true:
  assumes A: "\<And>b. size b < size t \<Longrightarrow> keeps_true \<rho> A b" and s: "sound \<rho> \<nu> g"
    and n: "n < g_next g" "\<nu> n = reading \<rho> d t" and safe: "safe_term d t"
  shows "stage_true \<rho> \<nu> g (name_link A g d n t)"
proof (cases "link_parts d t")
  case None
  then show ?thesis using stage_true_refl [OF s] by (simp add: name_link_def)
next
  case (Some p)
  obtain d' b k nn where p: "p = (d', b, k, nn)" by (rule prod_cases4)
  note parts = Some [unfolded p]
  obtain a h where h: "A g d' b = (a, h)" by (rule prod.exhaust)
  obtain \<nu>' where r: "sound \<rho> \<nu>' h" "extends \<nu> g \<nu>' h" "in_range h a" "affine_value \<nu>' a = reading \<rho> d' b"
    and rise: "rising d' b \<Longrightarrow> fst a \<noteq> None \<Longrightarrow> 0 \<le> snd a"
    using keeps_trueE [OF A [OF link_parts_size [OF parts]] s safe_termD(1) [OF safe parts] h] by metis
  have rise': "nn \<Longrightarrow> fst a \<noteq> None \<Longrightarrow> 0 \<le> snd a"
    using rise safe_termD(2) [OF safe] parts by auto
  note node = extended_node [OF r(2) n refl]
  have "sound \<rho> \<nu>' (attach_link h d n a k nn)"
    using attach_link_true [OF r(1) node(1) r(3) parts _ node(2) r(4)] rise' by blast
  then have "stage_true \<rho> \<nu> g (attach_link h d n a k nn)"
    by (rule attached_true [OF r(2) _ attach_link_wf [OF soundD(1) [OF r(1)] node(1) r(3)]])
  then show ?thesis by (simp add: name_link_def parts h)
qed

lemma node_with_true:
  assumes A: "\<And>b. size b < size t \<Longrightarrow> keeps_true \<rho> A b" and s: "sound \<rho> \<nu> g" and safe: "safe_term d t"
    and r: "node_with A g d t = (n, h)"
  shows "named_true \<rho> \<nu> g (reading \<rho> d t) ((Some n, 0), h)"
proof (cases "g_nodes g (d, t)")
  case (Some m)
  then have "n = m" "h = g" using r by (simp_all add: node_with_def)
  moreover have "reading \<rho> d t = \<nu> m" by (rule graph_trueD(2) [OF soundD(2) [OF s] Some])
  moreover have "m < g_next g" by (rule wf_graphD(1) [OF soundD(1) [OF s] Some])
  ultimately show ?thesis
    using s unfolding named_true_def by (intro exI [of _ \<nu>]) (simp add: affine_value_def)
next
  case None
  let ?n = "g_next g"
  let ?g1 = "fresh_node g d t"
  let ?g2 = "name_cast A ?g1 d ?n t"
  let ?g3 = "name_flip A ?g2 d ?n t"
  let ?\<nu>1 = "\<nu>(?n := reading \<rho> d t)"
  have 1: "sound \<rho> ?\<nu>1 ?g1" "extends \<nu> g ?\<nu>1 ?g1" "domain_of ?g1 ?n = d"
    using true_fresh_node [OF s None] by blast+
  have n1: "?n < g_next ?g1" "?\<nu>1 ?n = reading \<rho> d t" by (simp_all add: fresh_node_def)
  obtain \<nu>2 where 2: "sound \<rho> \<nu>2 ?g2" "extends ?\<nu>1 ?g1 \<nu>2 ?g2"
    using name_cast_true [OF A 1(1) n1 safe] unfolding stage_true_def by blast
  note n2 = extended_node [OF 2(2) n1 1(3)]
  obtain \<nu>3 where 3: "sound \<rho> \<nu>3 ?g3" "extends \<nu>2 ?g2 \<nu>3 ?g3"
    using name_flip_true [OF A 2(1) n2 safe] unfolding stage_true_def by blast
  note n3 = extended_node [OF 3(2) n2]
  obtain \<nu>4 where 4: "sound \<rho> \<nu>4 (name_link A ?g3 d ?n t)" "extends \<nu>3 ?g3 \<nu>4 (name_link A ?g3 d ?n t)"
    using name_link_true [OF A 3(1) n3(1,2) safe] unfolding stage_true_def by blast
  note n4 = extended_node [OF 4(2) n3]
  have e: "extends \<nu> g \<nu>4 (name_link A ?g3 d ?n t)"
    using extends_trans [OF extends_trans [OF extends_trans [OF 1(2) 2(2)] 3(2)] 4(2)] .
  have "n = ?n" "h = name_link A ?g3 d ?n t" using r by (auto simp: node_with_def None Let_def)
  then show ?thesis
    unfolding named_true_def using 4(1) e n4 by (intro exI [of _ \<nu>4]) (simp add: affine_value_def)
qed

lemma linked_base_true:
  assumes A: "\<And>b. size b < size t \<Longrightarrow> keeps_true \<rho> A b" and s: "sound \<rho> \<nu> g" and safe: "safe_term d t"
    and r: "linked_base A g d t = (x, h)"
  shows "\<exists>\<nu>'. sound \<rho> \<nu>' h \<and> extends \<nu> g \<nu>' h
    \<and> (\<forall>a. x = Some a \<longrightarrow> in_range h a \<and> affine_value \<nu>' a = reading \<rho> d t)"
proof (cases "link_parts d t")
  case None
  then have "x = None" "h = g" using r by (simp_all add: linked_base_def)
  then show ?thesis using s extends_refl by blast
next
  case (Some p)
  obtain d' b k nn where p: "p = (d', b, k, nn)" by (rule prod_cases4)
  note parts = Some [unfolded p]
  obtain a i where i: "A g d' b = (a, i)" by (rule prod.exhaust)
  obtain \<nu>' where v: "sound \<rho> \<nu>' i" "extends \<nu> g \<nu>' i" "in_range i a" "affine_value \<nu>' a = reading \<rho> d' b"
    using keeps_trueE [OF A [OF link_parts_size [OF parts]] s safe_termD(1) [OF safe parts] i] by metis
  have h: "h = i" using r by (simp add: linked_base_def parts i)
  have "in_range h c \<and> affine_value \<nu>' c = reading \<rho> d t" if c: "x = Some c" for c
  proof -
    have fits: "fst a \<noteq> None" "link_fits (affine_interval i a) k d nn" "c = (fst a, snd a + k)"
      using r c by (auto simp: linked_base_def parts i split: if_splits)
    have "within (reading \<rho> d' b) (affine_interval i a)" using affine_interval_true [OF v(1,3)] v(4) by simp
    from link_fits_true [OF parts this fits(2)] fits v(3,4) show ?thesis
      by (auto simp: affine_value_def h)
  qed
  then show ?thesis using v(1,2) h by blast
qed

lemma flipped_base_true:
  assumes A: "\<And>b. size b < size t \<Longrightarrow> keeps_true \<rho> A b" and s: "sound \<rho> \<nu> g" and safe: "safe_term d t"
    and r: "flipped_base A g d t = (x, h)"
  shows "\<exists>\<nu>'. sound \<rho> \<nu>' h \<and> extends \<nu> g \<nu>' h
    \<and> (\<forall>a. x = Some a \<longrightarrow> in_range h a \<and> affine_value \<nu>' a = reading \<rho> d t)"
proof (cases "sign_flip_base d t")
  case None
  then have "x = None" "h = g" using r by (simp_all add: flipped_base_def)
  then show ?thesis using s extends_refl by blast
next
  case (Some b)
  obtain a i where i: "A g d b = (a, i)" by (rule prod.exhaust)
  obtain \<nu>' where v: "sound \<rho> \<nu>' i" "extends \<nu> g \<nu>' i" "in_range i a" "affine_value \<nu>' a = reading \<rho> d b"
    using keeps_trueE [OF A [OF sign_flip_base_size [OF Some]] s safe_termD(3) [OF safe Some] i] by metis
  have h: "h = i" and x: "x = known_flip i d a" using r by (auto simp: flipped_base_def Some i)
  have "in_range h c \<and> affine_value \<nu>' c = reading \<rho> d t" if c: "x = Some c" for c
    using known_flip_true [OF v(1,3), of d c] c x v(3,4) sign_flip_sound [OF Some, of \<rho>] h by auto
  then show ?thesis using v(1,2) h by blast
qed

lemma named_true_later:
  assumes "extends \<nu> g \<nu>' h" "named_true \<rho> \<nu>' h x r"
  shows "named_true \<rho> \<nu> g x r"
  using assms extends_trans [OF assms(1)] unfolding named_true_def by blast

lemma affine_with_true:
  assumes A: "\<And>b. size b < size t \<Longrightarrow> keeps_true \<rho> A b" and s: "sound \<rho> \<nu> g" and safe: "safe_term d t"
  shows "named_true \<rho> \<nu> g (reading \<rho> d t) (affine_with A g d t)"
proof (cases "domain_constant d t")
  case (Some c)
  have "reading \<rho> d t = c" by (rule domain_constant_sound [OF Some])
  then show ?thesis
    using s unfolding named_true_def by (intro exI [of _ \<nu>]) (simp add: affine_with_def Some affine_value_def)
next
  case const: None
  show ?thesis
  proof (cases "g_nodes g (d, t)")
    case (Some n)
    then show ?thesis
      using node_with_true [OF A s safe, of n g] by (simp add: affine_with_def const node_with_def)
  next
    case new: None
    obtain x h where x: "linked_base A g d t = (x, h)" by (rule prod.exhaust)
    obtain y i where y: "flipped_base A h d t = (y, i)" by (rule prod.exhaust)
    obtain n j where n: "node_with A i d t = (n, j)" by (rule prod.exhaust)
    have eq: "affine_with A g d t = (case x of Some a \<Rightarrow> (a, h) | None \<Rightarrow>
        (case y of Some a \<Rightarrow> (a, i) | None \<Rightarrow> ((Some n, 0), j)))"
      by (simp add: affine_with_def const new x y n split: option.split)
    obtain \<nu>' where 1: "sound \<rho> \<nu>' h" "extends \<nu> g \<nu>' h"
      and xs: "\<And>a. x = Some a \<Longrightarrow> in_range h a \<and> affine_value \<nu>' a = reading \<rho> d t"
      using linked_base_true [OF A s safe x] by blast
    obtain \<nu>'' where 2: "sound \<rho> \<nu>'' i" "extends \<nu>' h \<nu>'' i"
      and ys: "\<And>a. y = Some a \<Longrightarrow> in_range i a \<and> affine_value \<nu>'' a = reading \<rho> d t"
      using flipped_base_true [OF A 1(1) safe y] by blast
    have named: "named_true \<rho> \<nu>'' i (reading \<rho> d t) ((Some n, 0), j)"
      by (rule node_with_true [OF A 2(1) safe n])
    note later = extends_trans [OF 1(2) 2(2)]
    note first = 1 and second = 2(1)
    consider a where "x = Some a" | a where "x = None" "y = Some a" | "x = None" "y = None"
      by (cases x; cases y) auto
    then show ?thesis
    proof cases
      case (1 a)
      then show ?thesis
        unfolding eq named_true_def
        using xs first by (intro exI [of _ \<nu>']) simp
    next
      case (2 a)
      then show ?thesis
        unfolding eq named_true_def
        using ys second later
        by (intro exI [of _ \<nu>'']) simp
    next
      case 3
      then show ?thesis
        unfolding eq using named_true_later [OF later named] by simp
    qed
  qed
qed

lemma affine_keeps_true: "keeps_true \<rho> affine t"
proof (induction "size t" arbitrary: t rule: less_induct)
  case less
  have "named_true \<rho> \<nu> g (reading \<rho> d t) (affine g d t)" if "sound \<rho> \<nu> g" "safe_term d t" for \<nu> g d
    unfolding affine_unfold [of g d t] by (rule affine_with_true [OF less that])
  then show ?case using affine_rising [where t = t] unfolding keeps_true_def by blast
qed

lemma affine_true:
  assumes "sound \<rho> \<nu> g" "safe_term d t" "affine g d t = (a, h)"
  obtains \<nu>' where "sound \<rho> \<nu>' h" "extends \<nu> g \<nu>' h" "in_range h a" "affine_value \<nu>' a = reading \<rho> d t"
  using keeps_trueE [OF affine_keeps_true assms] by metis

section \<open>Reading terms is true\<close>

lemma resolve_true:
  assumes "sound \<rho> \<nu> g" "resolve g d t = Some a"
  shows "in_range g a \<and> affine_value \<nu> a = reading \<rho> d t"
  using assms(2)
proof (induction "size t" arbitrary: d t a rule: less_induct)
  case less
  note s = assms(1)
  note eq = less.prems [unfolded resolve.simps [of g d t]]
  show ?case
  proof (cases "domain_constant d t")
    case (Some c)
    then show ?thesis using eq domain_constant_sound [OF Some, of \<rho>] by (auto simp: affine_value_def)
  next
    case const: None
    show ?thesis
    proof (cases "g_nodes g (d, t)")
      case (Some n)
      then show ?thesis
        using eq const graph_trueD(2) [OF soundD(2) [OF s] Some] wf_graphD(1) [OF soundD(1) [OF s] Some]
        by (auto simp: affine_value_def)
    next
      case new: None
      show ?thesis
      proof (cases "sign_flip_base d t")
        case (Some b)
        then obtain c where c: "resolve g d b = Some c" "known_flip g d c = Some a"
          using eq const new by (auto split: option.splits)
        have b: "in_range g c \<and> affine_value \<nu> c = reading \<rho> d b"
          by (rule less.hyps [OF sign_flip_base_size [OF Some] c(1)])
        then have "affine_value \<nu> a = flip_sign d (affine_value \<nu> c) \<and> fst a = fst c"
          using known_flip_true [OF s _ c(2)] by blast
        then show ?thesis using b sign_flip_sound [OF Some, of \<rho>] by auto
      next
        case noflip: None
        obtain d' b k nn c where l: "link_parts d t = Some (d', b, k, nn)" and c: "resolve g d' b = Some c"
          and f: "link_fits (affine_interval g c) k d nn" "a = (fst c, snd c + k)"
          using eq const new noflip by (auto split: option.splits if_splits)
        have b: "in_range g c \<and> affine_value \<nu> c = reading \<rho> d' b"
          by (rule less.hyps [OF link_parts_size [OF l] c])
        then have "within (reading \<rho> d' b) (affine_interval g c)"
          using affine_interval_true [OF s, of c] by simp
        from link_fits_true [OF l this f(1)] b f(2) show ?thesis by (simp add: affine_value_def split: option.splits)
      qed
    qed
  qed
qed

text \<open>A modular name's value, modulo the domain's size.\<close>

lemma wrap_mod [simp]: "wrap d x mod domain_modulus d = x mod domain_modulus d"
  by (simp add: wrap_def)

lemma affine_value_wrap:
  "affine_value \<nu> (n, wrap d k) mod domain_modulus d = affine_value \<nu> (n, k) mod domain_modulus d"
  by (cases n) (simp_all add: affine_value_def wrap_def mod_simps)

lemma affine_value_add: "affine_value \<nu> (n, k + j) = affine_value \<nu> (n, k) + j"
  by (simp add: affine_value_def split: option.split)

lemma modular_step:
  assumes "modular_parts d t = Some (b, k)"
    and "affine_value \<nu> (n, j) mod domain_modulus d = reading \<rho> d b mod domain_modulus d"
  shows "affine_value \<nu> (n, wrap d (j + k)) mod domain_modulus d = reading \<rho> d t mod domain_modulus d"
  using modular_parts_sound [OF assms(1), of \<rho>] assms(2)
  by (simp add: affine_value_wrap affine_value_add) (metis mod_add_left_eq)

lemma modular_resolve_true:
  assumes "sound \<rho> \<nu> g" "modular_resolve g d t = Some a"
  shows "in_range g a \<and> affine_value \<nu> a mod domain_modulus d = reading \<rho> d t mod domain_modulus d"
  using assms(2)
proof (induction "size t" arbitrary: t a rule: less_induct)
  case less
  show ?case
  proof (cases "modular_parts d t")
    case None
    then obtain n k where "resolve g d t = Some (n, k)" "a = (n, wrap d k)"
      using less.prems by (auto simp: modular_resolve.simps [of g d t])
    then show ?thesis using resolve_true [OF assms(1), of d t "(n, k)"] by (simp add: affine_value_wrap)
  next
    case (Some p)
    then obtain b k n j where p: "modular_parts d t = Some (b, k)"
      and b: "modular_resolve g d b = Some (n, j)" "a = (n, wrap d (j + k))"
      using less.prems by (cases p) (auto simp: modular_resolve.simps [of g d t])
    from less.hyps [OF modular_parts_size [OF p] b(1)] show ?thesis
      using modular_step [OF p] b(2) by simp
  qed
qed

text \<open>A modular name is taken of the term below every sum of a constant.\<close>

function modular_base :: "domain \<Rightarrow> 'x bv \<Rightarrow> 'x bv" where
  "modular_base d t = (case modular_parts d t of Some (base, _) \<Rightarrow> modular_base d base | None \<Rightarrow> t)"
  by pat_completeness auto
termination by (relation "measure (\<lambda>(d, t). size t)") (auto dest: modular_parts_size)

declare modular_base.simps [simp del]

lemma modular_affine_true:
  assumes "sound \<rho> \<nu> g" "safe_term d (modular_base d t)" "modular_affine g d t = (a, h)"
  shows "\<exists>\<nu>'. sound \<rho> \<nu>' h \<and> extends \<nu> g \<nu>' h \<and> in_range h a
    \<and> affine_value \<nu>' a mod domain_modulus d = reading \<rho> d t mod domain_modulus d"
  using assms(2,3)
proof (induction "size t" arbitrary: t a rule: less_induct)
  case less
  show ?case
  proof (cases "modular_parts d t")
    case None
    obtain n k i where i: "affine g d t = ((n, k), i)" by (metis surj_pair)
    then have a: "a = (n, wrap d k)" "h = i"
      using less.prems(2) by (simp_all add: modular_affine.simps [of g d t] None)
    have "safe_term d t" using less.prems(1) None by (simp add: modular_base.simps [of d t])
    then obtain \<nu>' where "sound \<rho> \<nu>' i" "extends \<nu> g \<nu>' i" "in_range i (n, k)"
      "affine_value \<nu>' (n, k) = reading \<rho> d t"
      using affine_true [OF assms(1) _ i] by metis
    then show ?thesis by (intro exI [of _ \<nu>']) (simp add: a affine_value_wrap)
  next
    case (Some p)
    obtain b k where p: "modular_parts d t = Some (b, k)" using Some by (cases p) auto
    obtain n j i where b: "modular_affine g d b = ((n, j), i)" by (metis surj_pair)
    have a: "a = (n, wrap d (j + k))" "h = i"
      using less.prems(2) by (simp_all add: modular_affine.simps [of g d t] p b)
    have "safe_term d (modular_base d b)" using less.prems(1) by (simp add: modular_base.simps [of d t] p)
    from less.hyps [OF modular_parts_size [OF p] this b [folded a(2)]]
    obtain \<nu>' where "sound \<rho> \<nu>' h" "extends \<nu> g \<nu>' h" "in_range h (n, j)"
      "affine_value \<nu>' (n, j) mod domain_modulus d = reading \<rho> d b mod domain_modulus d" by blast
    then show ?thesis
      using modular_step [OF p, of \<nu>' n j \<rho>] by (intro exI [of _ \<nu>']) (simp add: a)
  qed
qed

end
