(* ===== verification/DifferenceAssume.thy ===== *)
theory DifferenceAssume
  imports DifferenceNaming OffsetTerms
begin

text \<open>
  Recording facts: \<^verbatim>\<open>assume_condition\<close>, \<^verbatim>\<open>exclude\<close> and
  \<^verbatim>\<open>alias_equality\<close> of \<^verbatim>\<open>src/src/kernel/difference_graph.rs\<close>. A fact
  that is true of a valuation leaves the graph true of it, and every fact leaves the
  representation invariant. The order of terms the residues sort by and the block registry
  are parameters.
\<close>

section \<open>Excluded values\<close>

definition with_exclusion :: "'x difference_graph \<Rightarrow> nat \<Rightarrow> int \<Rightarrow> 'x difference_graph" where
  "with_exclusion g n v =
     g\<lparr>g_excluded := (g_excluded g)
         (n \<mapsto> insert v (case g_excluded g n of Some excluded \<Rightarrow> excluded | None \<Rightarrow> {}))\<rparr>"

definition exclude_value :: "'x difference_graph \<Rightarrow> domain \<Rightarrow> 'x bv \<Rightarrow> int \<Rightarrow> 'x difference_graph" where
  "exclude_value g d t v =
     (case affine g d t of
        ((Some n, offset), h) \<Rightarrow> settle (with_exclusion h n (v - offset)) n None None
      | ((None, _), h) \<Rightarrow> h)"

fun exclude :: "'x difference_graph \<Rightarrow> domain list \<Rightarrow> 'x bv \<Rightarrow> 'x bv \<Rightarrow> 'x difference_graph" where
  "exclude g [] a b = g"
| "exclude g (d # domains) a b =
     (let g' = (case (domain_constant d a, domain_constant d b) of
                 (None, Some v) \<Rightarrow> exclude_value g d a v
               | (Some v, None) \<Rightarrow> exclude_value g d b v
               | _ \<Rightarrow> g)
      in exclude g' domains a b)"

section \<open>Names for equal terms\<close>

definition unnamed :: "'x difference_graph \<Rightarrow> domain list \<Rightarrow> 'x bv \<Rightarrow> bool" where
  "unnamed g domains t =
     list_all (\<lambda>d. domain_constant d t = None \<and> link_parts d t = None \<and> g_nodes g (d, t) = None) domains"

fun affine_targets ::
  "'x difference_graph \<Rightarrow> domain list \<Rightarrow> 'x bv \<Rightarrow> (domain \<times> affine) list \<times> 'x difference_graph" where
  "affine_targets g [] t = ([], g)"
| "affine_targets g (d # domains) t =
     (let (a, g) = affine g d t; (targets, g) = affine_targets g domains t
      in ((d, a) # targets, g))"

fun name_targets ::
  "'x difference_graph \<Rightarrow> (domain \<times> affine) list \<Rightarrow> 'x bv \<Rightarrow> 'x difference_graph" where
  "name_targets g [] t = g"
| "name_targets g ((d, a) # targets) t =
     name_targets (g\<lparr>g_nodes := (g_nodes g)((d, t) := fst a)\<rparr>) targets t"

definition alias_targets ::
  "'x difference_graph \<Rightarrow> domain list \<Rightarrow> 'x bv \<Rightarrow> 'x bv \<Rightarrow> bool \<times> 'x difference_graph" where
  "alias_targets g domains new existing =
     (let (targets, g) = affine_targets g domains existing
      in if list_ex (\<lambda>(_, node, offset). node = None \<or> offset \<noteq> 0) targets then (False, g)
         else (True, name_targets g targets new))"

definition alias_equality ::
  "'x difference_graph \<Rightarrow> domain list \<Rightarrow> 'x bv \<Rightarrow> 'x bv \<Rightarrow> bool \<times> 'x difference_graph" where
  "alias_equality g domains a b =
     (if unnamed g domains a then alias_targets g domains a b
      else if unnamed g domains b then alias_targets g domains b a
      else (False, g))"

section \<open>Facts\<close>

fun assume_orders ::
  "'x difference_graph \<Rightarrow> (domain \<times> 'x bv \<times> 'x bv \<times> bool) list \<Rightarrow> 'x difference_graph" where
  "assume_orders g [] = g"
| "assume_orders g ((d, lower, upper, strict) # orders) =
     (if g_contradictory g then g
      else
        (let (l, g) = affine g d lower; (u, g) = affine g d upper
         in assume_orders (constrain g u l (- of_bool strict)) orders))"

definition equality_sides :: "'x cond \<Rightarrow> (domain list \<times> 'x bv \<times> 'x bv) option" where
  "equality_sides c = (case c of
     Compare op a b \<Rightarrow> map_option (\<lambda>domains. (domains, a, b)) (equality_domains op)
   | _ \<Rightarrow> None)"

definition record_no_overflow ::
  "'x difference_graph \<Rightarrow> nat \<Rightarrow> domain \<Rightarrow> 'x bv \<Rightarrow> 'x bv \<Rightarrow> bool \<Rightarrow> 'x difference_graph" where
  "record_no_overflow g operation d a b commutative =
     (let (a, g) = modular_affine g d a; (b, g) = modular_affine g d b
      in g\<lparr>g_no_overflow := insert (overflow_key operation a b commutative) (g_no_overflow g)\<rparr>)"

definition assume_residues ::
  "('x bv \<Rightarrow> 'x bv \<Rightarrow> bool) \<Rightarrow> 'x difference_graph \<Rightarrow> 'x cond \<Rightarrow> bool \<Rightarrow> 'x difference_graph" where
  "assume_residues below g c value = (case c of
     Compare op a b \<Rightarrow>
       if value \<and> op = Op_Bitvector64Equal
       then g\<lparr>g_residues := residues_assume_equal below (g_residues g) a b\<rparr>
       else g
   | _ \<Rightarrow> g)"

text \<open>A fact about integers, once pointers and residues have been served.\<close>

definition assume_stated :: "'x difference_graph \<Rightarrow> 'x cond \<Rightarrow> bool \<Rightarrow> 'x difference_graph" where
  "assume_stated g c value =
     (let (aliased, g) =
            (case equality_sides c of
               Some (domains, a, b) \<Rightarrow> if value then alias_equality g domains a b else (False, g)
             | None \<Rightarrow> (False, g))
      in if aliased then g
         else
           (case overflow_parts c of
              Some (operation, d, a, b, commutative) \<Rightarrow>
                if value then g else record_no_overflow g operation d a b commutative
            | None \<Rightarrow>
                (case (value, equality_sides c) of
                   (False, Some (domains, a, b)) \<Rightarrow> exclude g domains a b
                 | _ \<Rightarrow> assume_orders g (condition_orders c value))))"

definition assume_pointers ::
  "'x difference_graph \<Rightarrow> 'x pointer \<Rightarrow> 'x pointer \<Rightarrow> bool \<Rightarrow> 'x difference_graph" where
  "assume_pointers g a b value =
     (let (consistent, classes) = pc_assume (g_pointers g) a b value
      in g\<lparr>g_pointers := classes, g_contradictory := g_contradictory g \<or> \<not> consistent\<rparr>)"

text \<open>A value equality and an offset equality are recorded as what they say.\<close>

definition fact_rank :: "'x cond \<Rightarrow> nat" where
  "fact_rank c = (case c of PointerValueEqual _ _ \<Rightarrow> 2 | PointerOffsetEqual _ _ \<Rightarrow> 1 | _ \<Rightarrow> 0)"

lemma pointer_equal_rank: "fact_rank (pointer_equal reg p q) = 0"
  by (simp add: pointer_equal_def fact_rank_def split: cond.split)

lemma offset_equality_sides_compare:
  "offset_equality_sides a b = Some e \<Longrightarrow> \<exists>v w. e = Compare Op_Bitvector32Equal v w"
proof (induction a b rule: offset_equality_sides.induct)
  case (1 a b)
  then show ?case
    by (auto simp: offset_equality_sides.simps [of a b] scaled_equality_def
        split: option.splits prod.splits scaled_offset.splits if_splits)
qed

lemma offset_equality_compare:
  "offset_equality c = Some e \<Longrightarrow> \<exists>a b v w. c = PointerOffsetEqual a b \<and> e = Compare Op_Bitvector32Equal v w"
  by (cases c) (auto simp: offset_equality_def dest: offset_equality_sides_compare)

lemma offset_equality_rank: "offset_equality c = Some e \<Longrightarrow> fact_rank e < fact_rank c"
  by (auto simp: fact_rank_def dest: offset_equality_compare)

function assume_condition ::
  "'x block_registry \<Rightarrow> ('x bv \<Rightarrow> 'x bv \<Rightarrow> bool) \<Rightarrow> 'x difference_graph \<Rightarrow> 'x cond \<Rightarrow> bool \<Rightarrow> 'x difference_graph"
where
  "assume_condition reg below g c value =
     (case c of
        PointerValueEqual a b \<Rightarrow>
          if value
          then assume_condition reg below g (pointer_equal reg (value_pointer a) (value_pointer b)) True
          else g
      | PointerEqual a b \<Rightarrow> assume_pointers g a b value
      | _ \<Rightarrow>
          (case offset_equality c of
             Some equality \<Rightarrow> assume_condition reg below (assume_residues below g c value) equality value
           | None \<Rightarrow> assume_stated (assume_residues below g c value) c value))"
  by pat_completeness auto
termination
  by (relation "measure (\<lambda>(reg, below, g, c, value). fact_rank c)")
    (auto simp: pointer_equal_rank offset_equality_rank, simp_all add: fact_rank_def pointer_equal_rank [unfolded fact_rank_def])

declare assume_condition.simps [simp del]

section \<open>The representation invariant\<close>

definition grows :: "'x difference_graph \<Rightarrow> 'x difference_graph \<Rightarrow> bool" where
  "grows g h \<longleftrightarrow> wf_graph h \<and> g_next g \<le> g_next h"

lemma grows_refl: "wf_graph g \<Longrightarrow> grows g g"
  by (simp add: grows_def)

lemma grows_trans: "grows g h \<Longrightarrow> grows h i \<Longrightarrow> grows g i"
  by (simp add: grows_def)

lemma grows_wf: "grows g h \<Longrightarrow> wf_graph h"
  by (simp add: grows_def)

lemma grows_in_range: "grows g h \<Longrightarrow> in_range g a \<Longrightarrow> in_range h a"
  by (cases "fst a") (auto simp: grows_def)

lemma affine_grows:
  assumes "wf_graph g" "affine g d t = (a, h)"
  shows "grows g h \<and> in_range h a"
  unfolding grows_def using affine_wf [OF assms] by blast

lemma settle_grows: "wf_graph g \<Longrightarrow> n < g_next g \<Longrightarrow> grows g (settle g n low high)"
  using settle_step [of g n low high] by (simp add: grows_def advances_def)

lemma with_exclusion_wf: "wf_graph g \<Longrightarrow> n < g_next g \<Longrightarrow> grows g (with_exclusion g n v)"
  unfolding grows_def wf_graph_def by (auto simp: with_exclusion_def)

lemma exclude_value_grows:
  assumes "wf_graph g"
  shows "grows g (exclude_value g d t v)"
proof -
  obtain n k h where h: "affine g d t = ((n, k), h)" by (metis surj_pair)
  note gr = affine_grows [OF assms h]
  show ?thesis
  proof (cases n)
    case None
    then show ?thesis using gr by (simp add: exclude_value_def h)
  next
    case (Some m)
    then have m: "m < g_next h" using gr by simp
    let ?e = "with_exclusion h m (v - k)"
    have e: "grows h ?e" by (rule with_exclusion_wf [OF grows_wf m]) (use gr in blast)
    have "grows ?e (settle ?e m None None)"
      by (rule settle_grows [OF grows_wf [OF e]]) (simp add: with_exclusion_def m)
    then show ?thesis using gr grows_trans e unfolding exclude_value_def h by (simp add: Some) blast
  qed
qed

lemma exclude_grows: "wf_graph g \<Longrightarrow> grows g (exclude g domains a b)"
proof (induction domains arbitrary: g)
  case (Cons d domains)
  let ?g = "case (domain_constant d a, domain_constant d b) of
      (None, Some v) \<Rightarrow> exclude_value g d a v
    | (Some v, None) \<Rightarrow> exclude_value g d b v
    | _ \<Rightarrow> g"
  have "grows g ?g"
    using Cons.prems by (auto simp: exclude_value_grows grows_refl split: option.split)
  then show ?case using Cons.IH [OF grows_wf] grows_trans by (simp add: Let_def) blast
qed (simp add: grows_refl)

lemma affine_targets_grows:
  "wf_graph g \<Longrightarrow> affine_targets g domains t = (targets, h) \<Longrightarrow>
   grows g h \<and> (\<forall>(d, a) \<in> set targets. in_range h a)"
proof (induction domains arbitrary: g targets h)
  case (Cons d domains)
  obtain a i where a: "affine g d t = (a, i)" by (rule prod.exhaust)
  obtain ts j where ts: "affine_targets i domains t = (ts, j)" by (rule prod.exhaust)
  note gr = affine_grows [OF Cons.prems(1) a]
  note rest = Cons.IH [OF grows_wf [OF conjunct1 [OF gr]] ts]
  have "targets = (d, a) # ts" "h = j" using Cons.prems(2) by (simp_all add: a ts)
  moreover have "in_range j a" using grows_in_range conjunct1 [OF rest] conjunct2 [OF gr] by blast
  ultimately show ?case using gr rest grows_trans by auto
qed (simp add: grows_refl)

lemma name_targets_wf:
  "wf_graph g \<Longrightarrow> \<forall>(d, a) \<in> set targets. in_range g a \<Longrightarrow>
   wf_graph (name_targets g targets t) \<and> g_next (name_targets g targets t) = g_next g"
proof (induction g targets t rule: name_targets.induct)
  case (2 g d a targets t)
  let ?g = "g\<lparr>g_nodes := (g_nodes g)((d, t) := fst a)\<rparr>"
  have "wf_graph ?g"
    using 2(2,3) unfolding wf_graph_def by (auto split: option.splits)
  then show ?case using 2 by simp
qed simp

lemma alias_targets_grows:
  assumes "wf_graph g" "alias_targets g domains new existing = (done, h)"
  shows "grows g h"
proof -
  obtain ts i where ts: "affine_targets g domains existing = (ts, i)" by (rule prod.exhaust)
  note gr = affine_targets_grows [OF assms(1) ts]
  have "grows i (name_targets i ts new)"
    using name_targets_wf [of i ts new] gr by (simp add: grows_def)
  then show ?thesis
    using assms(2) gr grows_trans by (auto simp: alias_targets_def ts split: if_splits)
qed

lemma alias_equality_grows:
  "wf_graph g \<Longrightarrow> alias_equality g domains a b = (done, h) \<Longrightarrow> grows g h"
  by (auto simp: alias_equality_def grows_refl dest: alias_targets_grows split: if_splits)

lemma assume_orders_grows: "wf_graph g \<Longrightarrow> grows g (assume_orders g orders)"
proof (induction orders arbitrary: g)
  case (Cons order orders)
  obtain d lower upper strict where order: "order = (d, lower, upper, strict)" by (rule prod_cases4)
  obtain l h where l: "affine g d lower = (l, h)" by (rule prod.exhaust)
  obtain u i where u: "affine h d upper = (u, i)" by (rule prod.exhaust)
  note 1 = affine_grows [OF Cons.prems l]
  note 2 = affine_grows [OF grows_wf [OF conjunct1 [OF 1]] u]
  let ?c = "constrain i u l (- of_bool strict)"
  have "in_range i l" by (rule grows_in_range [OF conjunct1 [OF 2] conjunct2 [OF 1]])
  from constrain_wf [OF grows_wf [OF conjunct1 [OF 2]] conjunct2 [OF 2] this]
  have "grows i ?c" by (simp add: grows_def advances_def)
  then have "grows g ?c" by (rule grows_trans [OF grows_trans [OF conjunct1 [OF 1] conjunct1 [OF 2]]])
  from grows_trans [OF this Cons.IH [OF grows_wf [OF this]]]
  show ?case using Cons.prems by (simp add: order l u grows_refl)
qed (simp add: grows_refl)

lemma with_no_overflow_wf:
  assumes "wf_graph g" "in_range g a" "in_range g b"
  shows "wf_graph (g\<lparr>g_no_overflow := insert (c, a, b) (g_no_overflow g)\<rparr>)"
  using assms unfolding wf_graph_def by simp

lemma overflow_key_cases: "overflow_key c a b commutative = (c, a, b) \<or> commutative \<and> overflow_key c a b commutative = (c, b, a)"
  by (simp add: overflow_key_def)

lemma record_no_overflow_grows:
  assumes "wf_graph g"
  shows "grows g (record_no_overflow g operation d a b commutative)"
proof -
  obtain x h where x: "modular_affine g d a = (x, h)" by (rule prod.exhaust)
  obtain y i where y: "modular_affine h d b = (y, i)" by (rule prod.exhaust)
  note 1 = modular_affine_wf [OF assms x]
  note 2 = modular_affine_wf [OF conjunct1 [OF 1] y]
  have "in_range i x" using 1 2 by (cases "fst x") auto
  then have "wf_graph (i\<lparr>g_no_overflow := insert (overflow_key operation x y commutative) (g_no_overflow i)\<rparr>)"
    using overflow_key_cases [of operation x y commutative] with_no_overflow_wf [of i] 2 by metis
  then show ?thesis using 1 2 by (simp add: record_no_overflow_def x y grows_def)
qed

lemma assume_stated_grows:
  assumes "wf_graph g"
  shows "grows g (assume_stated g c value)"
proof -
  obtain aliased h where a: "(case equality_sides c of
        Some (domains, a, b) \<Rightarrow> if value then alias_equality g domains a b else (False, g)
      | None \<Rightarrow> (False, g)) = (aliased, h)" by (rule prod.exhaust)
  have h: "grows g h"
    using a assms by (auto simp: grows_refl split: option.splits prod.splits if_splits dest: alias_equality_grows)
  note later = grows_trans [OF h]
  note orders = later [OF assume_orders_grows [OF grows_wf [OF h]]]
    and excluded = later [OF exclude_grows [OF grows_wf [OF h]]]
    and overflow = later [OF record_no_overflow_grows [OF grows_wf [OF h]]]
  have step: "assume_stated g c value =
    (if aliased then h
     else
       (case overflow_parts c of
          Some (operation, d, a, b, commutative) \<Rightarrow>
            if value then h else record_no_overflow h operation d a b commutative
        | None \<Rightarrow>
            (case (value, equality_sides c) of
               (False, Some (domains, a, b)) \<Rightarrow> exclude h domains a b
             | _ \<Rightarrow> assume_orders h (condition_orders c value))))"
    by (simp only: assume_stated_def a Let_def prod.case)
  show ?thesis
    unfolding step using h orders excluded overflow
    by (cases "overflow_parts c"; cases "equality_sides c"; cases "value") (simp_all add: case_prod_beta)
qed

lemma assume_residues_grows: "wf_graph g \<Longrightarrow> grows g (assume_residues below g c value)"
  by (auto simp: assume_residues_def grows_def wf_graph_def split: cond.split)

lemma assume_pointers_grows: "wf_graph g \<Longrightarrow> grows g (assume_pointers g a b value)"
  using wf_pc_assume [OF wf_graphD(12), of g a b "value"]
  by (auto simp: assume_pointers_def grows_def wf_graph_def case_prod_beta Let_def)

lemma assume_condition_other:
  assumes "\<nexists>a b. c = PointerValueEqual a b" "\<nexists>a b. c = PointerEqual a b"
  shows "assume_condition reg below g c value =
    (case offset_equality c of
       Some equality \<Rightarrow> assume_condition reg below (assume_residues below g c value) equality value
     | None \<Rightarrow> assume_stated (assume_residues below g c value) c value)"
  using assms by (subst assume_condition.simps) (cases c; simp)

lemma assume_condition_pointers:
  "assume_condition reg below g (PointerEqual a b) value = assume_pointers g a b value"
  "assume_condition reg below g (PointerValueEqual x y) value =
     (if value then assume_condition reg below g (pointer_equal reg (value_pointer x) (value_pointer y)) True else g)"
  by (simp_all add: assume_condition.simps [of reg below g "PointerEqual a b"]
      assume_condition.simps [of reg below g "PointerValueEqual x y"])

lemma assume_condition_grows: "wf_graph g \<Longrightarrow> grows g (assume_condition reg below g c value)"
proof (induction "fact_rank c" arbitrary: g c "value" rule: less_induct)
  case less
  have r: "grows g (assume_residues below g c value)" by (rule assume_residues_grows [OF less.prems])
  show ?case
  proof (cases "\<exists>a b. c = PointerValueEqual a b")
    case True
    then obtain x y where c: "c = PointerValueEqual x y" by blast
    have "fact_rank (pointer_equal reg (value_pointer x) (value_pointer y)) < fact_rank c"
      unfolding c pointer_equal_rank by (simp add: fact_rank_def)
    from less.hyps [OF this less.prems] show ?thesis
      using less.prems by (simp add: c assume_condition_pointers grows_refl)
  next
    case not_value: False
    show ?thesis
    proof (cases "\<exists>a b. c = PointerEqual a b")
      case True
      then show ?thesis using assume_pointers_grows [OF less.prems] by (auto simp: assume_condition_pointers)
    next
      case False
      note step = assume_condition_other [OF not_value False, of reg below g "value"]
      show ?thesis
      proof (cases "offset_equality c")
        case None
        then show ?thesis
          unfolding step using grows_trans [OF r assume_stated_grows [OF grows_wf [OF r]]] by simp
      next
        case (Some e)
        from less.hyps [OF offset_equality_rank [OF Some] grows_wf [OF r]]
        show ?thesis unfolding step using Some grows_trans [OF r] by simp
      qed
    qed
  qed
qed

section \<open>True facts\<close>

lemma stage_true_step:
  assumes "stage_true \<rho> \<nu> g h" "\<And>\<nu>'. sound \<rho> \<nu>' h \<Longrightarrow> stage_true \<rho> \<nu>' h i"
  shows "stage_true \<rho> \<nu> g i"
  using assms extends_trans unfolding stage_true_def by blast

lemma stage_true_same:
  "sound \<rho> \<nu> h \<Longrightarrow> g_next h = g_next g \<Longrightarrow> domain_of h = domain_of g \<Longrightarrow> stage_true \<rho> \<nu> g h"
  unfolding stage_true_def using extends_same by blast

lemma settle_stage:
  assumes "sound \<rho> \<nu> g" "n < g_next g" "bound_true (\<nu> n) low high"
  shows "stage_true \<rho> \<nu> g (settle g n low high)"
  using sound_settle [OF assms] settle_step [OF soundD(1) [OF assms(1)] assms(2), of low high]
  by (intro stage_true_same) (simp_all add: advances_next advances_domain)

lemma with_exclusion_true:
  assumes s: "sound \<rho> \<nu> g" and n: "n < g_next g" "\<nu> n \<noteq> v"
  shows "sound \<rho> \<nu> (with_exclusion g n v)"
proof -
  let ?h = "with_exclusion g n v"
  note tr = soundD(2) [OF s]
  have "excludes ?h m x \<longleftrightarrow> excludes g m x \<or> m = n \<and> x = v" for m x
    by (auto simp: excludes_def with_exclusion_def split: option.split)
  moreover have "\<not> excludes g m (\<nu> m)" for m by (rule graph_trueD(8) [OF tr])
  ultimately have "\<not> excludes ?h m (\<nu> m)" for m using n(2) by auto
  moreover have "interval ?h = interval g" "domain_of ?h = domain_of g"
    by (simp_all add: fun_eq_iff interval_def domain_of_def with_exclusion_def)
  ultimately have "graph_true \<rho> \<nu> ?h"
    using tr unfolding graph_true_def by (simp add: with_exclusion_def)
  then show ?thesis
    using with_exclusion_wf [OF soundD(1) [OF s] n(1)] by (simp add: sound_def grows_def)
qed

lemma exclude_value_true:
  assumes s: "sound \<rho> \<nu> g" and safe: "safe_term d t" and v: "reading \<rho> d t \<noteq> v"
  shows "stage_true \<rho> \<nu> g (exclude_value g d t v)"
proof -
  obtain n k h where h: "affine g d t = ((n, k), h)" by (metis surj_pair)
  obtain \<nu>' where \<nu>': "sound \<rho> \<nu>' h" "extends \<nu> g \<nu>' h" "in_range h (n, k)" "affine_value \<nu>' (n, k) = reading \<rho> d t"
    by (rule affine_true [OF s safe h])
  then have stage: "stage_true \<rho> \<nu> g h" unfolding stage_true_def by blast
  show ?thesis
  proof (cases n)
    case None
    then show ?thesis using stage by (simp add: exclude_value_def h)
  next
    case (Some m)
    have m: "m < g_next h" "\<nu>' m \<noteq> v - k" using \<nu>' v by (auto simp: Some affine_value_def)
    let ?e = "with_exclusion h m (v - k)"
    have e: "sound \<rho> \<nu>' ?e" by (rule with_exclusion_true [OF \<nu>'(1) m])
    have "stage_true \<rho> \<nu>' ?e (settle ?e m None None)"
      by (rule settle_stage [OF e]) (simp_all add: with_exclusion_def m bound_true_def)
    then have "stage_true \<rho> \<nu>' h (settle ?e m None None)"
      unfolding stage_true_def extends_def by (simp add: with_exclusion_def domain_of_def)
    then have "stage_true \<rho> \<nu> g (settle ?e m None None)"
      using \<nu>'(2) extends_trans unfolding stage_true_def by blast
    then show ?thesis by (simp add: exclude_value_def h Some)
  qed
qed

lemma exclude_true:
  assumes "sound \<rho> \<nu> g" "\<forall>d \<in> set domains. safe_term d a \<and> safe_term d b \<and> reading \<rho> d a \<noteq> reading \<rho> d b"
  shows "stage_true \<rho> \<nu> g (exclude g domains a b)"
  using assms
proof (induction domains arbitrary: \<nu> g)
  case (Cons d domains)
  let ?g = "case (domain_constant d a, domain_constant d b) of
      (None, Some v) \<Rightarrow> exclude_value g d a v
    | (Some v, None) \<Rightarrow> exclude_value g d b v
    | _ \<Rightarrow> g"
  have d: "safe_term d a" "safe_term d b" "reading \<rho> d a \<noteq> reading \<rho> d b" using Cons.prems(2) by auto
  have "stage_true \<rho> \<nu> g (exclude_value g d a v)" if "domain_constant d b = Some v" for v
    using domain_constant_sound [OF that, of \<rho>] d by (intro exclude_value_true [OF Cons.prems(1)]) auto
  moreover have "stage_true \<rho> \<nu> g (exclude_value g d b v)" if "domain_constant d a = Some v" for v
    using domain_constant_sound [OF that, of \<rho>] d by (intro exclude_value_true [OF Cons.prems(1)]) auto
  ultimately have "stage_true \<rho> \<nu> g ?g"
    using stage_true_refl [OF Cons.prems(1)] by (auto split: option.split)
  then have "stage_true \<rho> \<nu> g (exclude ?g domains a b)"
    by (rule stage_true_step) (rule Cons.IH, use Cons.prems(2) in simp_all)
  then show ?case by (simp add: Let_def)
qed (simp add: stage_true_refl)

subsection \<open>Aliases\<close>

definition targets_true ::
  "'x valuation \<Rightarrow> (nat \<Rightarrow> int) \<Rightarrow> 'x difference_graph \<Rightarrow> (domain \<times> affine) list \<Rightarrow> 'x bv \<Rightarrow> bool" where
  "targets_true \<rho> \<nu> g targets t \<longleftrightarrow>
     list_all (\<lambda>(d, a). in_range g a \<and> affine_value \<nu> a = reading \<rho> d t) targets"

lemma affine_targets_true:
  assumes "sound \<rho> \<nu> g" "list_all (\<lambda>d. safe_term d t) domains" "affine_targets g domains t = (targets, h)"
  shows "\<exists>\<nu>'. sound \<rho> \<nu>' h \<and> extends \<nu> g \<nu>' h \<and> targets_true \<rho> \<nu>' h targets t"
  using assms
proof (induction domains arbitrary: \<nu> g targets h)
  case (Cons d domains)
  obtain a i where a: "affine g d t = (a, i)" by (rule prod.exhaust)
  obtain ts j where ts: "affine_targets i domains t = (ts, j)" by (rule prod.exhaust)
  have r: "targets = (d, a) # ts" "h = j" using Cons.prems(3) by (simp_all add: a ts)
  obtain \<nu>' where 1: "sound \<rho> \<nu>' i" "extends \<nu> g \<nu>' i" "in_range i a" "affine_value \<nu>' a = reading \<rho> d t"
    using affine_true [OF Cons.prems(1) _ a] Cons.prems(2) by auto
  obtain \<nu>'' where 2: "sound \<rho> \<nu>'' j" "extends \<nu>' i \<nu>'' j" "targets_true \<rho> \<nu>'' j ts t"
    using Cons.IH [OF 1(1) _ ts] Cons.prems(2) by auto
  have "in_range j a \<and> affine_value \<nu>'' a = reading \<rho> d t"
    using extends_affine [OF 2(2) 1(3)] 1(4) by simp
  then show ?case
    using 2 extends_trans [OF 1(2) 2(2)] r by (intro exI [of _ \<nu>'']) (simp add: targets_true_def)
qed (auto simp: targets_true_def intro: extends_refl)

lemma name_targets_true:
  assumes "sound \<rho> \<nu> g" "targets_true \<rho> \<nu> g targets t" "list_all (\<lambda>(_, a). \<exists>n. a = (Some n, 0)) targets"
  shows "sound \<rho> \<nu> (name_targets g targets t) \<and> g_next (name_targets g targets t) = g_next g
    \<and> domain_of (name_targets g targets t) = domain_of g"
  using assms
proof (induction g targets t rule: name_targets.induct)
  case (2 g d a targets t)
  obtain n where a: "a = (Some n, 0)" using 2(4) by auto
  have n: "n < g_next g" "\<nu> n = reading \<rho> d t"
    using 2(3) by (auto simp: a targets_true_def affine_value_def)
  let ?g = "g\<lparr>g_nodes := (g_nodes g)((d, t) \<mapsto> n)\<rparr>"
  have "wf_graph ?g" using soundD(1) [OF 2(2)] n(1) unfolding wf_graph_def by simp
  moreover have "domain_of ?g = domain_of g" "interval ?g = interval g" "excludes ?g = excludes g"
    by (simp_all add: fun_eq_iff interval_def domain_of_def excludes_def)
  moreover from this have "graph_true \<rho> \<nu> ?g"
    using soundD(2) [OF 2(2)] n(2) unfolding graph_true_def by simp
  moreover have "targets_true \<rho> \<nu> ?g targets t" using 2(3) by (simp add: targets_true_def)
  ultimately show ?case using "2.IH" 2(4) by (simp add: a sound_def)
qed simp

lemma alias_targets_true:
  assumes s: "sound \<rho> \<nu> g" and safe: "list_all (\<lambda>d. safe_term d b) domains"
    and eq: "\<forall>d \<in> set domains. reading \<rho> d a = reading \<rho> d b"
    and r: "alias_targets g domains a b = (aliased, h)"
  shows "stage_true \<rho> \<nu> g h"
proof -
  obtain ts i where ts: "affine_targets g domains b = (ts, i)" by (rule prod.exhaust)
  have domains: "map fst ts = domains"
    using ts by (induction domains arbitrary: g ts i) (auto split: prod.splits)
  obtain \<nu>' where 1: "sound \<rho> \<nu>' i" "extends \<nu> g \<nu>' i" "targets_true \<rho> \<nu>' i ts b"
    using affine_targets_true [OF s safe ts] by blast
  have stage: "stage_true \<rho> \<nu> g i" using 1 unfolding stage_true_def by blast
  show ?thesis
  proof (cases "list_ex (\<lambda>(_, node, offset). node = None \<or> offset \<noteq> 0) ts")
    case True
    then show ?thesis using r stage by (simp add: alias_targets_def ts)
  next
    case False
    have "targets_true \<rho> \<nu>' i ts a"
      using 1(3) eq domains by (fastforce simp: targets_true_def list_all_iff)
    moreover have "list_all (\<lambda>(_, a). \<exists>n. a = (Some n, 0)) ts"
      using False by (auto simp: list_all_iff list_ex_iff)
    ultimately have "sound \<rho> \<nu>' (name_targets i ts a) \<and> g_next (name_targets i ts a) = g_next i
        \<and> domain_of (name_targets i ts a) = domain_of i"
      by (rule name_targets_true [OF 1(1)])
    moreover have "h = name_targets i ts a" using r False by (simp add: alias_targets_def ts)
    ultimately show ?thesis
      using stage_true_same [of \<rho> \<nu>' h i] 1(2) extends_trans unfolding stage_true_def by blast
  qed
qed

lemma alias_equality_true:
  assumes "sound \<rho> \<nu> g" "\<forall>d \<in> set domains. safe_term d a \<and> safe_term d b \<and> reading \<rho> d a = reading \<rho> d b"
    and "alias_equality g domains a b = (aliased, h)"
  shows "stage_true \<rho> \<nu> g h"
  using assms(3) alias_targets_true [OF assms(1), of b domains a aliased h]
    alias_targets_true [OF assms(1), of a domains b aliased h] assms(2) stage_true_refl [OF assms(1)]
  by (auto simp: alias_equality_def list_all_iff split: if_splits)

subsection \<open>Orders, overflows, residues and pointers\<close>

lemma assume_orders_true:
  assumes "sound \<rho> \<nu> g"
    and "list_all (\<lambda>(d, lower, upper, strict). safe_term d lower \<and> safe_term d upper
           \<and> reading \<rho> d lower + of_bool strict \<le> reading \<rho> d upper) orders"
  shows "stage_true \<rho> \<nu> g (assume_orders g orders)"
  using assms
proof (induction orders arbitrary: \<nu> g)
  case (Cons order orders)
  obtain d lower upper strict where order: "order = (d, lower, upper, strict)" by (rule prod_cases4)
  have safe: "safe_term d lower" "safe_term d upper"
    and le: "reading \<rho> d lower + of_bool strict \<le> reading \<rho> d upper"
    using Cons.prems(2) by (simp_all add: order)
  obtain l h where l: "affine g d lower = (l, h)" by (rule prod.exhaust)
  obtain u i where u: "affine h d upper = (u, i)" by (rule prod.exhaust)
  obtain \<nu>' where 1: "sound \<rho> \<nu>' h" "extends \<nu> g \<nu>' h" "in_range h l" "affine_value \<nu>' l = reading \<rho> d lower"
    by (rule affine_true [OF Cons.prems(1) safe(1) l])
  obtain \<nu>'' where 2: "sound \<rho> \<nu>'' i" "extends \<nu>' h \<nu>'' i" "in_range i u" "affine_value \<nu>'' u = reading \<rho> d upper"
    by (rule affine_true [OF 1(1) safe(2) u])
  have lr: "in_range i l" "affine_value \<nu>'' l = reading \<rho> d lower"
    using extends_affine [OF 2(2) 1(3)] 1(4) by simp_all
  let ?c = "constrain i u l (- of_bool strict)"
  have c: "sound \<rho> \<nu>'' ?c"
    using le by (intro sound_constrain [OF 2(1,3) lr(1)]) (simp add: lr(2) 2(4))
  have "stage_true \<rho> \<nu>'' i ?c"
    using constrain_wf [OF soundD(1) [OF 2(1)] 2(3) lr(1), of "- of_bool strict"]
    by (intro stage_true_same [OF c]) (simp_all add: advances_next advances_domain)
  then have "stage_true \<rho> \<nu> g ?c"
    using extends_trans [OF 1(2) 2(2)] extends_trans unfolding stage_true_def by blast
  then have "stage_true \<rho> \<nu> g (assume_orders ?c orders)"
    by (rule stage_true_step) (rule Cons.IH, use Cons.prems(2) in simp_all)
  then show ?case using stage_true_refl [OF Cons.prems(1)] by (simp add: order l u)
qed (simp add: stage_true_refl)

lemma overflow_absentI:
  assumes parts: "overflow_parts c = Some (code, d, a, b, commutative)" and no: "\<not> cond_value \<rho> c"
    and x: "x mod domain_modulus d = reading \<rho> d a mod domain_modulus d"
    and y: "y mod domain_modulus d = reading \<rho> d b mod domain_modulus d"
  shows "overflow_absent code x y"
proof -
  have d: "code_domain code = d"
    using parts
    by (cases c) (auto simp: overflow_parts_def overflow_op_def code_domain_def split: comparison.splits)
  show ?thesis
    unfolding overflow_absent_def d same_word_def
  proof (intro allI impI)
    fix v w
    assume "in_domain d v" "in_domain d w"
      and "v mod domain_modulus d = x mod domain_modulus d" "w mod domain_modulus d = y mod domain_modulus d"
    then have "v = reading \<rho> d a" "w = reading \<rho> d b"
      using domain_unique [OF _ reading_in_domain] x y by metis+
    then show "\<not> overflow_value code v w" using overflow_parts_sound [OF parts, of \<rho>] no by simp
  qed
qed

lemma overflow_absent_commute:
  assumes "overflow_parts c = Some (code, d, a, b, True)" "overflow_absent code x y"
  shows "overflow_absent code y x"
  using assms(2) overflow_parts_commutative [OF assms(1)] unfolding overflow_absent_def by metis

lemma with_no_overflow_true:
  assumes s: "sound \<rho> \<nu> g" and r: "in_range g a" "in_range g b"
    and no: "overflow_absent c (affine_value \<nu> a) (affine_value \<nu> b)"
  shows "sound \<rho> \<nu> (g\<lparr>g_no_overflow := insert (c, a, b) (g_no_overflow g)\<rparr>)"
proof -
  let ?h = "g\<lparr>g_no_overflow := insert (c, a, b) (g_no_overflow g)\<rparr>"
  have "domain_of ?h = domain_of g" "interval ?h = interval g" "excludes ?h = excludes g"
    by (simp_all add: fun_eq_iff interval_def domain_of_def excludes_def)
  then have "graph_true \<rho> \<nu> ?h" using soundD(2) [OF s] no unfolding graph_true_def by simp
  then show ?thesis using with_no_overflow_wf [OF soundD(1) [OF s] r] by (simp add: sound_def)
qed

lemma record_no_overflow_true:
  assumes s: "sound \<rho> \<nu> g" and parts: "overflow_parts c = Some (code, d, a, b, commutative)"
    and no: "\<not> cond_value \<rho> c" and safe: "safe_term d (modular_base d a)" "safe_term d (modular_base d b)"
  shows "stage_true \<rho> \<nu> g (record_no_overflow g code d a b commutative)"
proof -
  obtain x h where x: "modular_affine g d a = (x, h)" by (rule prod.exhaust)
  obtain y i where y: "modular_affine h d b = (y, i)" by (rule prod.exhaust)
  obtain \<nu>' where 1: "sound \<rho> \<nu>' h" "extends \<nu> g \<nu>' h" "in_range h x"
    "affine_value \<nu>' x mod domain_modulus d = reading \<rho> d a mod domain_modulus d"
    using modular_affine_true [OF s safe(1) x] by blast
  obtain \<nu>'' where 2: "sound \<rho> \<nu>'' i" "extends \<nu>' h \<nu>'' i" "in_range i y"
    "affine_value \<nu>'' y mod domain_modulus d = reading \<rho> d b mod domain_modulus d"
    using modular_affine_true [OF 1(1) safe(2) y] by blast
  have xr: "in_range i x" "affine_value \<nu>'' x mod domain_modulus d = reading \<rho> d a mod domain_modulus d"
    using extends_affine [OF 2(2) 1(3)] 1(4) by simp_all
  have absent: "overflow_absent code (affine_value \<nu>'' x) (affine_value \<nu>'' y)"
    by (rule overflow_absentI [OF parts no xr(2) 2(4)])
  let ?k = "overflow_key code x y commutative"
  have "sound \<rho> \<nu>'' (i\<lparr>g_no_overflow := insert ?k (g_no_overflow i)\<rparr>)"
  proof (cases "commutative \<and> ?k = (code, y, x)")
    case True
    then have "overflow_parts c = Some (code, d, a, b, True)" using parts by simp
    note commuted = overflow_absent_commute [OF this absent]
    then show ?thesis using with_no_overflow_true [OF 2(1,3) xr(1) commuted] conjunct2 [OF True] by (simp only:)
  next
    case False
    then have "?k = (code, x, y)" using overflow_key_cases by blast
    then show ?thesis using with_no_overflow_true [OF 2(1) xr(1) 2(3) absent] by simp
  qed
  then have "stage_true \<rho> \<nu>'' i (record_no_overflow g code d a b commutative)"
    by (simp add: record_no_overflow_def x y stage_true_same domain_of_def fun_eq_iff)
  then show ?thesis
    using extends_trans [OF 1(2) 2(2)] extends_trans unfolding stage_true_def by blast
qed

lemma assume_residues_true:
  assumes "sound \<rho> \<nu> g" "cond_value \<rho> c = value"
  shows "sound \<rho> \<nu> (assume_residues below g c value) \<and> stage_true \<rho> \<nu> g (assume_residues below g c value)"
proof (cases "\<exists>a b. c = Bitvector64Equal a b \<and> value")
  case True
  then obtain a b where c: "c = Bitvector64Equal a b" "value" by blast
  let ?h = "g\<lparr>g_residues := residues_assume_equal below (g_residues g) a b\<rparr>"
  have same: "domain_of ?h = domain_of g" "interval ?h = interval g" "excludes ?h = excludes g"
    by (simp_all add: fun_eq_iff interval_def domain_of_def excludes_def)
  have "cond_value \<rho> (Bitvector64Equal a b)" using assms(2) c by simp
  from residues_assume_equal_sound [OF graph_trueD(11) [OF soundD(2) [OF assms(1)]] this]
  have "graph_true \<rho> \<nu> ?h"
    using soundD(2) [OF assms(1)] same unfolding graph_true_def by simp
  then have "sound \<rho> \<nu> ?h" using soundD(1) [OF assms(1)] unfolding sound_def wf_graph_def by simp
  moreover from this have "stage_true \<rho> \<nu> g ?h" by (rule stage_true_same) (simp_all add: same)
  ultimately show ?thesis by (simp add: assume_residues_def c)
next
  case False
  then have "assume_residues below g c value = g" by (auto simp: assume_residues_def split: cond.split)
  then show ?thesis using assms(1) stage_true_refl by simp
qed

lemma assume_pointers_true:
  assumes s: "sound \<rho> \<nu> g" and fact: "(pointer_place \<rho> a = pointer_place \<rho> b) = value"
  shows "stage_true \<rho> \<nu> g (assume_pointers g a b value)"
proof -
  let ?r = "pc_assume (g_pointers g) a b value"
  have r: "fst ?r" "pc_holds \<rho> (snd ?r)"
    using pc_assume_sound [OF wf_graphD(12) [OF soundD(1) [OF s]] graph_trueD(12) [OF soundD(2) [OF s]] fact]
    by simp_all
  let ?h = "g\<lparr>g_pointers := snd ?r\<rparr>"
  have h: "assume_pointers g a b value = ?h"
    using r(1) by (simp add: assume_pointers_def case_prod_beta)
  have same: "domain_of ?h = domain_of g" "interval ?h = interval g" "excludes ?h = excludes g"
    by (simp_all add: fun_eq_iff interval_def domain_of_def excludes_def)
  have "graph_true \<rho> \<nu> ?h" using soundD(2) [OF s] same r(2) unfolding graph_true_def by simp
  moreover have "wf_graph ?h"
    using assume_pointers_grows [OF soundD(1) [OF s], of a b "value"] h by (simp add: grows_def)
  ultimately show ?thesis
    unfolding h by (intro stage_true_same) (simp_all add: sound_def same)
qed

subsection \<open>A fact as a whole\<close>

text \<open>The terms a fact names, and facts whose terms the graph names faithfully.\<close>

definition fact_domains :: "comparison \<Rightarrow> domain list" where
  "fact_domains op =
     (case order_parts op of
        Some (d, _) \<Rightarrow> [d]
      | None \<Rightarrow> (case equality_domains op of Some domains \<Rightarrow> domains | None \<Rightarrow> []))"

definition fact_terms :: "'x cond \<Rightarrow> (domain \<times> 'x bv) list" where
  "fact_terms c =
     (case overflow_parts c of
        Some (_, d, a, b, _) \<Rightarrow> [(d, modular_base d a), (d, modular_base d b)]
      | None \<Rightarrow>
          (case c of
             Compare op a b \<Rightarrow> concat (map (\<lambda>d. [(d, a), (d, b)]) (fact_domains op))
           | _ \<Rightarrow> []))"

definition safe_fact :: "'x cond \<Rightarrow> bool" where
  "safe_fact c =
     list_all (\<lambda>(d, t). safe_term d t)
       (fact_terms (case offset_equality c of Some equality \<Rightarrow> equality | None \<Rightarrow> c))"

lemma overflow_op_no_order: "overflow_op op = Some p \<Longrightarrow> order_parts op = None \<and> equality_domains op = None"
  by (cases op) (simp_all add: overflow_op_def order_parts_def equality_domains_def)

lemma equality_no_order: "equality_domains op = Some p \<Longrightarrow> order_parts op = None \<and> overflow_op op = None"
  by (cases op) (simp_all add: overflow_op_def order_parts_def equality_domains_def)

lemma condition_orders_domain:
  "(d, lower, upper, strict) \<in> set (condition_orders (Compare op a b) value) \<Longrightarrow>
   d \<in> set (fact_domains op) \<and> {lower, upper} = {a, b}"
  by (auto simp: condition_orders_def fact_domains_def Let_def split: option.splits if_splits)

lemma assume_stated_true:
  assumes s: "sound \<rho> \<nu> g" and fact: "cond_value \<rho> c = value"
    and safe: "list_all (\<lambda>(d, t). safe_term d t) (fact_terms c)"
  shows "stage_true \<rho> \<nu> g (assume_stated g c value)"
proof (cases "\<exists>op a b. c = Compare op a b")
  case False
  then have "assume_stated g c value = g"
    by (cases c; cases "value")
      (simp_all add: assume_stated_def equality_sides_def overflow_parts_def condition_orders_def)
  then show ?thesis using stage_true_refl [OF s] by simp
next
  case True
  then obtain op a b where c: "c = Compare op a b" by blast
  have orders: "stage_true \<rho> \<nu>' h (assume_orders h (condition_orders c value))"
    if "overflow_op op = None" "sound \<rho> \<nu>' h" for \<nu>' h
  proof (rule assume_orders_true [OF that(2)])
    have "safe_term d lower \<and> safe_term d upper \<and> reading \<rho> d lower + of_bool strict \<le> reading \<rho> d upper"
      if "(d, lower, upper, strict) \<in> set (condition_orders c value)" for d lower upper strict
    proof -
      have "d \<in> set (fact_domains op)" "{lower, upper} = {a, b}"
        using condition_orders_domain that unfolding c by blast+
      then have "safe_term d lower \<and> safe_term d upper"
        using safe \<open>overflow_op op = None\<close>
        by (auto simp: fact_terms_def overflow_parts_def c list_all_iff doubleton_eq_iff)
      then show ?thesis using condition_orders_sound [OF that fact] by simp
    qed
    then show "list_all (\<lambda>(d, lower, upper, strict). safe_term d lower \<and> safe_term d upper
        \<and> reading \<rho> d lower + of_bool strict \<le> reading \<rho> d upper) (condition_orders c value)"
      unfolding list_all_iff by (clarsimp split del: split_of_bool)
  qed
  show ?thesis
  proof (cases "equality_domains op")
    case None
    then have e: "equality_sides c = None" by (simp add: equality_sides_def c)
    show ?thesis
    proof (cases "overflow_op op")
      case None
      then have "overflow_parts c = None" by (simp add: overflow_parts_def c)
      then show ?thesis using orders [OF None s] by (cases "value") (simp_all add: assume_stated_def e)
    next
      case (Some p)
      then obtain code d commutative where p: "overflow_parts c = Some (code, d, a, b, commutative)"
        by (cases p) (simp add: overflow_parts_def c)
      have "stage_true \<rho> \<nu> g (record_no_overflow g code d a b commutative)" if "\<not> value"
        using safe that fact by (intro record_no_overflow_true [OF s p]) (simp_all add: fact_terms_def p)
      then show ?thesis using stage_true_refl [OF s] by (simp add: assume_stated_def e p)
    qed
  next
    case (Some domains)
    have e: "equality_sides c = Some (domains, a, b)" by (simp add: equality_sides_def c Some)
    note no = equality_no_order [OF Some]
    have terms: "safe_term d a \<and> safe_term d b" if "d \<in> set domains" for d
      using safe that no by (auto simp: fact_terms_def overflow_parts_def c fact_domains_def Some list_all_iff)
    have readings: "(reading \<rho> d a = reading \<rho> d b) = value" if "d \<in> set domains" for d
      using equality_domains_sound [OF Some that, of \<rho> a b] fact by (simp add: c)
    have op: "overflow_parts c = None" using no by (simp add: overflow_parts_def c)
    show ?thesis
    proof (cases "value")
      case True
      obtain aliased h where r: "alias_equality g domains a b = (aliased, h)" by (rule prod.exhaust)
      have h: "stage_true \<rho> \<nu> g h"
        using terms readings True by (intro alias_equality_true [OF s _ r]) auto
      have "stage_true \<rho> \<nu> g (assume_orders h (condition_orders c True))"
        by (rule stage_true_step [OF h]) (use orders no True in simp)
      then show ?thesis using h by (simp add: assume_stated_def e r op True)
    next
      case False
      have "stage_true \<rho> \<nu> g (exclude g domains a b)"
        using terms readings False by (intro exclude_true [OF s]) auto
      then show ?thesis by (simp add: assume_stated_def e op False)
    qed
  qed
qed

lemma assume_condition_true:
  assumes "sound \<rho> \<nu> g" "cond_value \<rho> c = value" "safe_fact c"
  shows "stage_true \<rho> \<nu> g (assume_condition reg below g c value)"
  using assms
proof (induction "fact_rank c" arbitrary: \<nu> g c "value" rule: less_induct)
  case less
  note res = assume_residues_true [OF less.prems(1,2), of below]
  show ?case
  proof (cases "\<exists>a b. c = PointerValueEqual a b")
    case True
    then obtain x y where c: "c = PointerValueEqual x y" by blast
    show ?thesis
    proof (cases "value \<and> pointer_equal reg (value_pointer x) (value_pointer y) = PointerEqual (value_pointer x) (value_pointer y)")
      case True
      have "value_place \<rho> v = pointer_place \<rho> (value_pointer v)" for v by (cases v) simp
      then have "pointer_place \<rho> (value_pointer x) = pointer_place \<rho> (value_pointer y)"
        using less.prems(2) True by (simp add: c)
      then have "stage_true \<rho> \<nu> g (assume_pointers g (value_pointer x) (value_pointer y) True)"
        by (intro assume_pointers_true [OF less.prems(1)]) simp
      then show ?thesis using True by (simp add: c assume_condition_pointers)
    next
      case False
      then consider "\<not> value" | v where "pointer_equal reg (value_pointer x) (value_pointer y) = Cond_Constant v"
        by (auto simp: pointer_equal_def split: if_splits cond.splits)
      then show ?thesis
      proof cases
        case 1
        then show ?thesis using stage_true_refl [OF less.prems(1)] by (simp add: c assume_condition_pointers)
      next
        case (2 v)
        have "assume_condition reg below g (Cond_Constant v) True = g"
          by (subst assume_condition_other)
            (simp_all add: offset_equality_def assume_residues_def assume_stated_def equality_sides_def
              overflow_parts_def condition_orders_def)
        then show ?thesis using stage_true_refl [OF less.prems(1)] 2 by (simp add: c assume_condition_pointers)
      qed
    qed
  next
    case not_value: False
    show ?thesis
    proof (cases "\<exists>a b. c = PointerEqual a b")
      case True
      then obtain a b where c: "c = PointerEqual a b" by blast
      then have "(pointer_place \<rho> a = pointer_place \<rho> b) = value" using less.prems(2) by simp
      from assume_pointers_true [OF less.prems(1) this] show ?thesis
        by (simp add: c assume_condition_pointers)
    next
      case False
      note step = assume_condition_other [OF not_value False, of reg below g "value"]
      show ?thesis
      proof (cases "offset_equality c")
        case None
        have "stage_true \<rho> \<nu>' (assume_residues below g c value) (assume_stated (assume_residues below g c value) c value)"
          if "sound \<rho> \<nu>' (assume_residues below g c value)" for \<nu>'
          using less.prems(3) None by (intro assume_stated_true [OF that less.prems(2)]) (simp add: safe_fact_def)
        from stage_true_step [OF conjunct2 [OF res] this] show ?thesis using None by (simp add: step)
      next
        case (Some e)
        then obtain a b v w where c: "c = PointerOffsetEqual a b" and e: "e = Compare Op_Bitvector32Equal v w"
          using offset_equality_compare by blast
        have "assume_residues below g c value = g" by (simp add: assume_residues_def c)
        moreover have "cond_value \<rho> e = value" using offset_equality_sound [OF Some, of \<rho>] less.prems(2) by simp
        moreover have "safe_fact e" using less.prems(3) Some by (simp add: safe_fact_def offset_equality_def e)
        ultimately show ?thesis
          using less.hyps [OF offset_equality_rank [OF Some] less.prems(1)] by (simp add: step Some)
      qed
    qed
  qed
qed

section \<open>Properties\<close>

text \<open>
  C6: Recording a fact, whatever the fact and whether or not it is consistent with what
  is known, keeps the representation invariant of the graph: every node named, bounded,
  linked or keyed exists, the edges of both directions agree in range, the pending links
  are balanced maps and the pointer classes stay well formed. Nodes are never removed.
\<close>

theorem assume_keeps_invariant:
  assumes "wf_graph g"
  shows "wf_graph (assume_condition reg below g c value)
    \<and> g_next g \<le> g_next (assume_condition reg below g c value)"
  using assume_condition_grows [OF assms] by (simp add: grows_def)

theorem assume_keeps_invariant_witness:
  "wf_graph (assume_condition bare_registry (\<lambda>_ _. False) graph_new
      (Compare Op_Bitvector32SignedLessThan (Variable (Variable_Of 0 Ordinary)) (Constant 7)) True
      :: nat difference_graph)"
  by (rule conjunct1 [OF assume_keeps_invariant [OF wf_graph_new]])

text \<open>
  C7: A fact that is true of a valuation never makes a graph that is true of it false or
  contradictory: there are values of the nodes, extending the old ones, under which
  everything the graph recorded holds. Facts are excepted whose terms pass
  through a conversion that keeps only non-negative values, of an operand with a negative
  constant offset or a flipped sign bit (\<open>safe_fact\<close>).
\<close>

theorem true_fact_keeps_graph_true:
  assumes "sound \<rho> \<nu> g" and "cond_value \<rho> c = value" and "safe_fact c"
  shows "\<exists>\<nu>'. sound \<rho> \<nu>' (assume_condition reg below g c value)
    \<and> (\<forall>n < g_next g. \<nu>' n = \<nu> n) \<and> \<not> g_contradictory (assume_condition reg below g c value)"
proof -
  obtain \<nu>' where "sound \<rho> \<nu>' (assume_condition reg below g c value)"
    "extends \<nu> g \<nu>' (assume_condition reg below g c value)"
    using assume_condition_true [OF assms, of reg below] unfolding stage_true_def by blast
  then show ?thesis
    using graph_trueD(1) [OF soundD(2)] by (intro exI [of _ \<nu>']) (simp add: extends_def)
qed

theorem true_fact_keeps_graph_true_witness:
  "\<not> g_contradictory (assume_condition bare_registry (\<lambda>_ _. False) graph_new
      (Compare Op_Bitvector32SignedLessThan (Variable (Variable_Of 0 Ordinary)) (Constant 7)) True
      :: nat difference_graph)"
proof -
  let ?c = "Compare Op_Bitvector32SignedLessThan (Variable (Variable_Of 0 Ordinary)) (Constant 7) :: nat cond"
  have "cond_value zero_valuation ?c = True" by (simp add: compare_value_def zero_valuation_def)
  moreover have "safe_fact ?c"
    by (simp add: safe_fact_def fact_terms_def fact_domains_def offset_equality_def overflow_parts_def
        overflow_op_def order_parts_def safe_term.simps link_parts_def sign_flip_base_def narrow_cast_parts_def)
  ultimately show ?thesis using true_fact_keeps_graph_true [OF sound_new] by blast
qed

end
