(* ===== verification/IntervalOps.thy ===== *)
theory IntervalOps
  imports DifferenceTerms
begin

unbundle bit_operations_syntax

text \<open>
  Interval arithmetic of \<^verbatim>\<open>structural_interval\<close>
  (\<^verbatim>\<open>src/src/kernel/difference_graph.rs\<close>): what the intervals of two
  operands say of the mathematical result, arm by arm. Rust's \<open>/\<close> and
  \<open>%\<close> truncate towards zero, as \<open>sdiv\<close> and \<open>smod\<close> do.
\<close>

section \<open>Operations\<close>

text \<open>
  The interval of each operation, from its operands' intervals; \<open>None\<close> where the source
  returns the whole domain.
\<close>

definition sum_interval :: "int \<times> int \<Rightarrow> int \<times> int \<Rightarrow> int \<times> int" where
  "sum_interval a b = (fst a + fst b, snd a + snd b)"

definition corner_interval :: "(int \<Rightarrow> int \<Rightarrow> int) \<Rightarrow> int \<times> int \<Rightarrow> int \<times> int \<Rightarrow> int \<times> int" where
  "corner_interval f a b =
     (let (a_low, a_high) = a; (b_low, b_high) = b;
          corners = [f a_low b_low, f a_low b_high, f a_high b_low, f a_high b_high]
      in (Min (set corners), Max (set corners)))"

definition remainder_interval :: "int \<times> int \<Rightarrow> int \<times> int \<Rightarrow> (int \<times> int) option" where
  "remainder_interval a b =
     (let (a_low, a_high) = a; (b_low, b_high) = b in
      if b_low \<le> 0 \<and> b_high \<ge> 0 then None
      else
        (let bound = max \<bar>b_low\<bar> \<bar>b_high\<bar> - 1 in
         if a_low = a_high \<and> b_low = b_high then Some (a_low smod b_low, a_low smod b_low)
         else if a_low \<ge> 0 then Some (0, min a_high bound)
         else if a_high \<le> 0 then Some (max a_low (- bound), 0)
         else Some (- bound, bound)))"

definition quotient_interval :: "int \<times> int \<Rightarrow> int \<times> int \<Rightarrow> (int \<times> int) option" where
  "quotient_interval a b =
     (if fst b \<le> 0 \<and> snd b \<ge> 0 then None else Some (corner_interval (sdiv) a b))"

definition unsigned_remainder_interval :: "int \<times> int \<Rightarrow> int \<times> int \<Rightarrow> (int \<times> int) option" where
  "unsigned_remainder_interval a b =
     (let (a_low, a_high) = a; (b_low, b_high) = b in
      if b_low < 1 then None
      else if a_low = a_high \<and> b_low = b_high then Some (a_low smod b_low, a_low smod b_low)
      else Some (0, min a_high (b_high - 1)))"

definition unsigned_quotient_interval :: "int \<times> int \<Rightarrow> int \<times> int \<Rightarrow> (int \<times> int) option" where
  "unsigned_quotient_interval a b =
     (if fst b < 1 then None else Some (fst a sdiv snd b, snd a sdiv fst b))"

text \<open>\<open>x - x % k\<close>, for an unsigned \<open>x\<close>.\<close>

definition round_down_interval :: "int \<times> int \<Rightarrow> int \<times> int \<Rightarrow> (int \<times> int) option" where
  "round_down_interval a k =
     (let (a_low, a_high) = a; (k_low, k_high) = k in
      if k_low < 1 then None
      else if k_low = k_high then Some (a_low sdiv k_low * k_low, a_high sdiv k_low * k_low)
      else Some (max (a_low - (k_high - 1)) 0, a_high))"

definition flip_interval :: "domain \<Rightarrow> int \<times> int \<Rightarrow> (int \<times> int) option" where
  "flip_interval d b =
     (let (low, high) = b in
      if low \<ge> 0 \<or> high < 0 then
        (let a = flip_sign d low; b = flip_sign d high in Some (min a b, max a b))
      else None)"

definition zero_extended_interval :: "int \<times> int \<Rightarrow> int \<times> int" where
  "zero_extended_interval b =
     (let (low, high) = b in
      if low \<ge> 0 then (low, high)
      else if high < 0 then (low + 2 ^ 32, high + 2 ^ 32)
      else (0, 2 ^ 32 - 1))"

definition masked_interval :: "int \<times> int \<Rightarrow> int \<Rightarrow> int \<times> int" where
  "masked_interval b known =
     (let (low, high) = b in if low = high then (low AND known, low AND known) else (0, min high known))"

definition hull :: "int \<times> int \<Rightarrow> int \<times> int \<Rightarrow> int \<times> int" where
  "hull a b = (min (fst a) (fst b), max (snd a) (snd b))"

definition meet :: "int \<times> int \<Rightarrow> int \<times> int \<Rightarrow> int \<times> int" where
  "meet a b = (max (fst a) (fst b), min (snd a) (snd b))"

section \<open>The operations hold the results\<close>

lemma sum_interval_within: "within x a \<Longrightarrow> within y b \<Longrightarrow> within (x + y) (sum_interval a b)"
  by (simp add: within_def sum_interval_def)

lemma hull_within: "within x a \<or> within x b \<Longrightarrow> within x (hull a b)"
  by (auto simp: within_def hull_def)

lemma meet_within: "within x (meet a b) \<longleftrightarrow> within x a \<and> within x b"
  by (auto simp: within_def meet_def)

definition between :: "int \<Rightarrow> int \<Rightarrow> int \<Rightarrow> bool" where
  "between x a b \<longleftrightarrow> a \<le> x \<and> x \<le> b \<or> b \<le> x \<and> x \<le> a"

lemma between_ends: "a \<le> x \<Longrightarrow> x \<le> b \<Longrightarrow> between x a b" "b \<le> x \<Longrightarrow> x \<le> a \<Longrightarrow> between x a b"
  by (simp_all add: between_def)

lemma between_join:
  "between x a b \<Longrightarrow> between a p q \<Longrightarrow> between b r s \<Longrightarrow>
   min (min p q) (min r s) \<le> x \<and> x \<le> max (max p q) (max r s)"
  by (auto simp: between_def min_le_iff_disj le_max_iff_disj)

lemma corner_within:
  assumes "between (f x y) (f (fst a) y) (f (snd a) y)"
    and "between (f (fst a) y) (f (fst a) (fst b)) (f (fst a) (snd b))"
    and "between (f (snd a) y) (f (snd a) (fst b)) (f (snd a) (snd b))"
  shows "within (f x y) (corner_interval f a b)"
  using between_join [OF assms]
  by (cases a; cases b) (simp add: corner_interval_def within_def Let_def min.assoc max.assoc)

lemma between_mult: "l \<le> x \<Longrightarrow> x \<le> h \<Longrightarrow> between (x * y) (l * y) (h * y)" for x y :: int
  by (cases "0 \<le> y")
    (auto simp: between_def intro: mult_right_mono mult_right_mono_neg)

lemma product_within: "within x a \<Longrightarrow> within y b \<Longrightarrow> within (x * y) (corner_interval (*) a b)"
  using between_mult [of "fst a" x "snd a" y] between_mult [of "fst b" y "snd b" "fst a"]
    between_mult [of "fst b" y "snd b" "snd a"]
  by (intro corner_within) (simp_all add: within_def mult.commute)

text \<open>Truncating division by a divisor of one sign is monotone in each operand.\<close>

lemma sdiv_as_div: "0 \<le> x \<Longrightarrow> 0 < y \<Longrightarrow> x sdiv y = x div y" for x y :: int
  by (cases "x = 0") (simp_all add: signed_divide_int_def)

lemma sdiv_minus_left: "(- x) sdiv y = - (x sdiv y)" for x y :: int
  by (simp add: signed_divide_int_def)

lemma sdiv_minus_right: "x sdiv (- y) = - (x sdiv y)" for x y :: int
  by (simp add: signed_divide_int_def)

lemma sdiv_neg: "x \<le> 0 \<Longrightarrow> 0 < y \<Longrightarrow> x sdiv y = - ((- x) div y)" for x y :: int
  using sdiv_minus_left [of "- x" y] sdiv_as_div [of "- x" y] by simp

lemma sdiv_mono: "x \<le> x' \<Longrightarrow> 0 < y \<Longrightarrow> x sdiv y \<le> x' sdiv y" for x x' y :: int
proof (cases "0 \<le> x"; cases "0 \<le> x'")
  assume *: "x \<le> x'" "0 < y" "0 \<le> x" "0 \<le> x'"
  then show ?thesis by (simp add: sdiv_as_div zdiv_mono1)
next
  assume *: "x \<le> x'" "0 < y" "\<not> 0 \<le> x" "0 \<le> x'"
  then have "0 \<le> (- x) div y" "0 \<le> x' div y" by (simp_all add: pos_imp_zdiv_nonneg_iff)
  then show ?thesis using * by (simp add: sdiv_as_div sdiv_neg)
next
  assume *: "x \<le> x'" "0 < y" "\<not> 0 \<le> x" "\<not> 0 \<le> x'"
  then have "(- x') div y \<le> (- x) div y" by (intro zdiv_mono1) simp_all
  then show ?thesis using * by (simp add: sdiv_neg)
qed simp

lemma sdiv_between_left: "l \<le> x \<Longrightarrow> x \<le> h \<Longrightarrow> y \<noteq> 0 \<Longrightarrow> between (x sdiv y) (l sdiv y) (h sdiv y)"
  for x y :: int
proof (cases "0 < y")
  case False
  moreover assume "l \<le> x" "x \<le> h" "y \<noteq> 0"
  ultimately show ?thesis
    using sdiv_mono [of l x "- y"] sdiv_mono [of x h "- y"]
    by (intro between_ends(2)) (simp_all add: sdiv_minus_right)
qed (intro between_ends(1) sdiv_mono)

lemma sdiv_between_pos: "0 < l \<Longrightarrow> l \<le> y \<Longrightarrow> y \<le> h \<Longrightarrow> between (x sdiv y) (x sdiv l) (x sdiv h)"
  for x y :: int
proof (cases "0 \<le> x")
  case True
  moreover assume "0 < l" "l \<le> y" "y \<le> h"
  ultimately show ?thesis
    by (intro between_ends(2)) (simp_all add: sdiv_as_div zdiv_mono2)
next
  case False
  moreover assume "0 < l" "l \<le> y" "y \<le> h"
  ultimately show ?thesis
    by (intro between_ends(1)) (simp_all add: sdiv_neg zdiv_mono2)
qed

lemma sdiv_between_right:
  fixes x y :: int
  assumes "l \<le> y" "y \<le> h" "\<not> (l \<le> 0 \<and> 0 \<le> h)"
  shows "between (x sdiv y) (x sdiv l) (x sdiv h)"
proof (cases "0 < l")
  case True
  then show ?thesis using assms by (intro sdiv_between_pos)
next
  case False
  then have "between (x sdiv (- y)) (x sdiv (- h)) (x sdiv (- l))"
    using assms by (intro sdiv_between_pos) auto
  then show ?thesis by (auto simp: sdiv_minus_right between_def)
qed

lemma quotient_within:
  assumes "within x a" "within y b" "quotient_interval a b = Some r"
  shows "y \<noteq> 0 \<and> within (x sdiv y) r"
proof -
  have b: "\<not> (fst b \<le> 0 \<and> 0 \<le> snd b)" and r: "r = corner_interval (sdiv) a b"
    using assms(3) by (auto simp: quotient_interval_def split: if_splits)
  then have "y \<noteq> 0" using assms(2) by (auto simp: within_def)
  then show ?thesis
    unfolding r using assms(1,2) b
    by (intro conjI corner_within sdiv_between_left sdiv_between_right) (auto simp: within_def)
qed

text \<open>The truncating remainder has the sign of the dividend and is below the divisor.\<close>

lemma smod_bounds:
  fixes x y :: int
  assumes "y \<noteq> 0"
  shows "\<bar>x smod y\<bar> \<le> \<bar>y\<bar> - 1" "\<bar>x smod y\<bar> \<le> \<bar>x\<bar>" "0 \<le> x \<Longrightarrow> 0 \<le> x smod y" "x \<le> 0 \<Longrightarrow> x smod y \<le> 0"
proof -
  have e: "x smod y = sgn x * (\<bar>x\<bar> mod \<bar>y\<bar>)" for x y :: int
    by (simp add: smod_int_alt_def)
  obtain m where "m = \<bar>x\<bar> mod \<bar>y\<bar>" by simp
  then have m: "x smod y = sgn x * m" "0 \<le> m" "m < \<bar>y\<bar>" "m \<le> \<bar>x\<bar>"
    using assms by (simp_all add: e zmod_le_nonneg_dividend)
  then show "\<bar>x smod y\<bar> \<le> \<bar>y\<bar> - 1" "\<bar>x smod y\<bar> \<le> \<bar>x\<bar>"
    "0 \<le> x \<Longrightarrow> 0 \<le> x smod y" "x \<le> 0 \<Longrightarrow> x smod y \<le> 0"
    by (auto simp: sgn_if)
qed

lemma remainder_within:
  assumes "within x a" "within y b" "remainder_interval a b = Some r"
  shows "y \<noteq> 0 \<and> within (x smod y) r"
proof -
  obtain al ah bl bh where ab: "a = (al, ah)" "b = (bl, bh)" by (cases a; cases b)
  have x: "al \<le> x" "x \<le> ah" "bl \<le> y" "y \<le> bh" using assms(1,2) ab by simp_all
  have b: "\<not> (bl \<le> 0 \<and> 0 \<le> bh)" using assms(3) by (auto simp: remainder_interval_def ab split: if_splits)
  then have y: "y \<noteq> 0" "\<bar>y\<bar> \<le> max \<bar>bl\<bar> \<bar>bh\<bar>" using x by auto
  note m = smod_bounds [OF y(1), of x]
  have "\<bar>x smod y\<bar> \<le> max \<bar>bl\<bar> \<bar>bh\<bar> - 1" using m(1) y(2) by linarith
  then show ?thesis
    using assms(3) b x y(1) m by (auto simp: remainder_interval_def ab Let_def split: if_splits)
qed

lemma unsigned_remainder_within:
  assumes "within x a" "within y b" "unsigned_remainder_interval a b = Some r" "0 \<le> x"
  shows "0 < y \<and> within (x mod y) r"
proof -
  obtain al ah bl bh where ab: "a = (al, ah)" "b = (bl, bh)" by (cases a; cases b)
  have x: "al \<le> x" "x \<le> ah" "bl \<le> y" "y \<le> bh" using assms(1,2) ab by simp_all
  have b: "1 \<le> bl" using assms(3) by (auto simp: unsigned_remainder_interval_def ab split: if_splits)
  then have y: "0 < y" using x by simp
  have m: "0 \<le> x mod y" "x mod y < y" "x mod y \<le> x" using y assms(4) by (simp_all add: zmod_le_nonneg_dividend)
  have s: "x smod y = x mod y" using y assms(4) by (simp add: smod_int_alt_def sgn_if)
  have "x mod y \<le> bh - 1" "x mod y \<le> ah" using m x by linarith+
  then show ?thesis
    unfolding s [symmetric] using assms(3) b x y m(1) [folded s]
    by (auto simp: unsigned_remainder_interval_def ab Let_def split: if_splits)
qed

lemma unsigned_quotient_within:
  assumes "within x a" "within y b" "unsigned_quotient_interval a b = Some r" "0 \<le> x"
  shows "0 < y \<and> within (x div y) r"
proof -
  have b: "1 \<le> fst b" and r: "r = (fst a sdiv snd b, snd a sdiv fst b)"
    using assms(3) by (auto simp: unsigned_quotient_interval_def split: if_splits)
  have x: "fst a \<le> x" "x \<le> snd a" "fst b \<le> y" "y \<le> snd b" using assms(1,2) by (simp_all add: within_def)
  have "fst a sdiv snd b \<le> x sdiv snd b" "x sdiv snd b \<le> x sdiv y"
    "x sdiv y \<le> x sdiv fst b" "x sdiv fst b \<le> snd a sdiv fst b"
    using b x assms(4) by (auto intro: sdiv_mono) (auto simp: sdiv_as_div zdiv_mono2)
  then show ?thesis using b x assms(4) sdiv_as_div [of x y] by (simp add: r)
qed

lemma round_down_within:
  assumes "within x a" "within k b" "round_down_interval a b = Some r" "0 \<le> x"
  shows "0 < k \<and> within (x - x mod k) r"
proof -
  obtain al ah bl bh where ab: "a = (al, ah)" "b = (bl, bh)" by (cases a; cases b)
  have x: "al \<le> x" "x \<le> ah" "bl \<le> k" "k \<le> bh" using assms(1,2) ab by simp_all
  have b: "1 \<le> bl" using assms(3) by (auto simp: round_down_interval_def ab split: if_splits)
  then have k: "0 < k" using x by simp
  have m: "0 \<le> x mod k" "x mod k < k" "x mod k \<le> x" using k assms(4) by (simp_all add: zmod_le_nonneg_dividend)
  have e: "x - x mod k = x sdiv k * k" using k assms(4) by (simp add: sdiv_as_div minus_mod_eq_div_mult)
  have "al sdiv k * k \<le> x - x mod k" "x - x mod k \<le> ah sdiv k * k"
    unfolding e using k x by (auto intro!: mult_right_mono sdiv_mono)
  moreover have "al - (bh - 1) \<le> x - x mod k" "x - x mod k \<le> ah" "0 \<le> x - x mod k" using m x by linarith+
  moreover have "\<exists>z. z = x - x mod k" by blast
  ultimately obtain z where "z = x - x mod k" "al - (bh - 1) \<le> z" "z \<le> ah" "0 \<le> z"
    "al sdiv k * k \<le> z" "z \<le> ah sdiv k * k" by blast
  then show ?thesis
    using assms(3) b x k by (auto simp: round_down_interval_def ab Let_def split: if_splits)
qed

lemma flip_sign_within:
  assumes "within x b" "flip_interval d b = Some r"
  shows "within (flip_sign d x) r"
  using assms by (cases b) (auto simp: flip_interval_def Let_def flip_sign_cases split: if_splits)

lemma zero_extended_within:
  assumes "within x b" "in_domain Int32 x"
  shows "within (x mod 2 ^ 32) (zero_extended_interval b)"
proof -
  have r: "0 \<le> x mod 2 ^ 32" "x mod 2 ^ 32 \<le> 2 ^ 32 - 1" by simp_all
  have p: "0 \<le> x \<Longrightarrow> x mod 2 ^ 32 = x" using in_domain_mod(1) [OF assms(2)] .
  have n: "x mod 2 ^ 32 = x + 2 ^ 32" if "x < 0"
  proof -
    have "(x + 2 ^ 32) mod 2 ^ 32 = x + 2 ^ 32" using that assms(2) by (intro mod_pos_pos_trivial) (auto simp: in_domain_def)
    then show ?thesis by simp
  qed
  show ?thesis
    using assms(1) r p n by (cases b) (auto simp: zero_extended_interval_def)
qed

lemma masked_within:
  assumes "within x b" "0 \<le> x" "0 \<le> known"
  shows "within (x AND known) (masked_interval b known)"
proof -
  obtain low high where b: "b = (low, high)" by (cases b)
  have "0 \<le> x AND known" "x AND known \<le> x" "x AND known \<le> known"
    using assms(2,3) by (simp_all add: AND_upper1 AND_upper2)
  then show ?thesis using assms(1) by (auto simp: masked_interval_def b)
qed

end
