(* ===== verification/DifferenceQueries.thy ===== *)
theory DifferenceQueries
  imports DifferenceAssume IntervalOps
begin

unbundle bit_operations_syntax

text \<open>
  What the difference graph answers: \<^verbatim>\<open>decide\<close>,
  \<^verbatim>\<open>term_interval\<close> and the bounds they read, of
  \<^verbatim>\<open>src/src/kernel/difference_graph.rs\<close>, and that every answer of a graph
  that is true of a valuation is true of it too.

  A conditional term's interval asks for a decision of its condition, and a decision reads
  intervals, so the two recursions are one. Each operation is written over the readers it
  calls; \<open>term_interval_unfold\<close> and \<open>decide_unfold\<close> say that the
  operations call themselves. Work counters have no counterpart.
\<close>

section \<open>Bounds on differences\<close>

definition direct_difference_bound :: "'x difference_graph \<Rightarrow> affine \<Rightarrow> affine \<Rightarrow> int option" where
  "direct_difference_bound g source target =
     (case (fst source, fst target) of
        (Some source_node, Some target_node) \<Rightarrow>
          map_option (\<lambda>weight. weight + snd target - snd source)
            (if source_node = target_node then Some 0
             else Option.bind (g_out_edges g source_node) (\<lambda>edges. map_get edges target_node))
      | _ \<Rightarrow> None)"

definition difference_bound :: "'x difference_graph \<Rightarrow> affine \<Rightarrow> affine \<Rightarrow> int" where
  "difference_bound g source target =
     (let by_intervals = snd (affine_interval g target) - fst (affine_interval g source);
          by_path =
            (case (fst source, fst target) of
               (Some source_node, Some target_node) \<Rightarrow>
                 map_option (\<lambda>distance. distance + snd target - snd source)
                   (shortest_from g source_node target_node)
             | _ \<Rightarrow> None)
      in case by_path of None \<Rightarrow> by_intervals | Some path \<Rightarrow> min path by_intervals)"

section \<open>Intervals of terms\<close>

type_synonym 'x reader = "'x difference_graph \<Rightarrow> domain \<Rightarrow> 'x bv \<Rightarrow> int \<times> int"
type_synonym 'x decider = "'x difference_graph \<Rightarrow> 'x cond \<Rightarrow> bool option"

definition difference_interval_with ::
  "'x reader \<Rightarrow> 'x difference_graph \<Rightarrow> domain \<Rightarrow> 'x bv \<Rightarrow> 'x bv \<Rightarrow> int \<times> int" where
  "difference_interval_with I g d a b =
     (if a = b then (0, 0)
      else
        (let (a_low, a_high) = I g d a; (b_low, b_high) = I g d b;
             high = a_high - b_low;
             low = a_low - b_high
         in case (resolve g d a, resolve g d b) of
              (Some a, Some b) \<Rightarrow>
                (max low (- difference_bound g a b), min high (difference_bound g b a))
            | _ \<Rightarrow> (low, high)))"

definition rounded_down :: "domain \<Rightarrow> binary_operator \<Rightarrow> 'x bv \<Rightarrow> 'x bv \<Rightarrow> 'x bv option" where
  "rounded_down d op a b =
     (if d = UInt64 \<and> op = Op_UInt64Subtract then
        (case b of
           Binary inner x k \<Rightarrow> if inner = Op_UInt64Remainder \<and> x = a then Some k else None
         | _ \<Rightarrow> None)
      else None)"

definition binary_interval_with ::
  "'x reader \<Rightarrow> 'x difference_graph \<Rightarrow> domain \<Rightarrow> binary_operator \<Rightarrow> 'x bv \<Rightarrow> 'x bv \<Rightarrow> (int \<times> int) option"
where
  "binary_interval_with I g d op a b =
     (if is_sum d op then Some (sum_interval (I g d a) (I g d b))
      else case rounded_down d op a b of Some k \<Rightarrow> round_down_interval (I g d a) (I g d k)
      | None \<Rightarrow>
      if is_difference d op then Some (difference_interval_with I g d a b)
      else if (d, op) \<in> {(Int32, Op_Multiply), (Int64, Op_Int64Multiply)} then
        Some (corner_interval (*) (I g d a) (I g d b))
      else if (d, op) \<in> {(Int32, Op_Remainder), (Int64, Op_Int64Remainder)} then
        remainder_interval (I g d a) (I g d b)
      else if (d, op) \<in> {(Int32, Op_Divide), (Int64, Op_Int64Divide)} then
        quotient_interval (I g d a) (I g d b)
      else if (d, op) = (UInt64, Op_UInt64Remainder) then
        unsigned_remainder_interval (I g d a) (I g d b)
      else if (d, op) \<in> {(Int32, Op_UnsignedDivide), (Int32, Op_UnsignedRemainder)} then
        (let unsigned = (\<lambda>t. case I g d t of (low, high) \<Rightarrow> wrap_range (0, 2 ^ 32 - 1) low high);
             known = (if op = Op_UnsignedDivide then unsigned_quotient_interval (unsigned a) (unsigned b)
                      else unsigned_remainder_interval (unsigned a) (unsigned b))
         in map_option (\<lambda>(low, high). wrap_interval d low high) known)
      else if (d, op) \<in> {(Int32, Op_BitwiseXor), (Int64, Op_Int64BitwiseXor)} then
        Option.bind (sign_flip_base d (Binary op a b)) (\<lambda>base. flip_interval d (I g d base))
      else if (d, op) = (UInt64, Op_UInt64Divide) then
        unsigned_quotient_interval (I g d a) (I g d b)
      else if (d, op) = (UInt64, Op_UInt64BitwiseAnd) then
        (case domain_constant d b of
           Some known \<Rightarrow> Some (masked_interval (I g d a) known)
         | None \<Rightarrow> map_option (masked_interval (I g d b)) (domain_constant d a))
      else None)"

definition unary_interval_with ::
  "'x reader \<Rightarrow> 'x difference_graph \<Rightarrow> domain \<Rightarrow> unary_operator \<Rightarrow> 'x bv \<Rightarrow> (int \<times> int) option" where
  "unary_interval_with I g d op inner =
     (if (d, op) = (Int32, Op_UInt32From64) then
        (case I g (word_domain inner) inner of (low, high) \<Rightarrow> Some (wrap_interval Int32 low high))
      else if (d, op) = (Int64, Op_Int64From32) then Some (I g Int32 inner)
      else if (d, op) = (UInt64, Op_UInt64FromInt64) then
        (case I g Int64 inner of (low, high) \<Rightarrow> Some (wrap_interval d low high))
      else if (d, op) = (Int64, Op_Int64FromUInt32) then
        Some (zero_extended_interval (I g Int32 inner))
      else None)"

definition cast_interval_with ::
  "'x reader \<Rightarrow> 'x difference_graph \<Rightarrow> domain \<Rightarrow> 'x bv \<Rightarrow> machine_integer_type \<Rightarrow> machine_integer_type
   \<Rightarrow> (int \<times> int) option" where
  "cast_interval_with I g d v source destination =
     (if d \<noteq> Int32 \<and> source \<in> {MInt64, MUInt64} \<and> destination \<in> {MInt64, MUInt64} then
        (case I g (if source = MInt64 then Int64 else UInt64) v of
           (low, high) \<Rightarrow> Some (wrap_interval d low high))
      else None)"

definition branch_interval_with ::
  "'x reader \<Rightarrow> 'x decider \<Rightarrow> 'x difference_graph \<Rightarrow> domain \<Rightarrow> 'x cond \<Rightarrow> 'x bv \<Rightarrow> 'x bv \<Rightarrow> int \<times> int" where
  "branch_interval_with I D g d condition then_term else_term =
     (case D g condition of
        Some True \<Rightarrow> I g d then_term
      | Some False \<Rightarrow> I g d else_term
      | None \<Rightarrow> hull (I g d then_term) (I g d else_term))"

definition structural_interval_with :: "'x reader \<Rightarrow> 'x decider \<Rightarrow> 'x reader" where
  "structural_interval_with I D g d t =
     (let known =
        (case t of
           Binary op a b \<Rightarrow> binary_interval_with I g d op a b
         | Unary op inner \<Rightarrow> unary_interval_with I g d op inner
         | If_Term condition then_term else_term \<Rightarrow>
             Some (branch_interval_with I D g d condition then_term else_term)
         | MachineIntegerCast v source destination \<Rightarrow> cast_interval_with I g d v source destination
         | _ \<Rightarrow> None)
      in case known of
           None \<Rightarrow> domain_range d
         | Some (low, high) \<Rightarrow>
             (let (least, greatest) = domain_range d in
              if low \<ge> least \<and> high \<le> greatest then (low, high) else (least, greatest)))"

definition other_reading :: "domain \<Rightarrow> domain option" where
  "other_reading d = (case d of Int64 \<Rightarrow> Some UInt64 | UInt64 \<Rightarrow> Some Int64 | Int32 \<Rightarrow> None)"

definition node_interval :: "'x difference_graph \<Rightarrow> domain \<Rightarrow> 'x bv \<Rightarrow> int \<times> int" where
  "node_interval g d t =
     (case resolve g d t of None \<Rightarrow> domain_range d | Some a \<Rightarrow> affine_interval g a)"

definition other_interval :: "'x difference_graph \<Rightarrow> domain \<Rightarrow> 'x bv \<Rightarrow> int \<times> int" where
  "other_interval g d t =
     (case Option.bind (other_reading d) (\<lambda>other. resolve g other t) of
        None \<Rightarrow> domain_range d
      | Some a \<Rightarrow> (case affine_interval g a of (low, high) \<Rightarrow> wrap_interval d low high))"

definition term_interval_with :: "'x reader \<Rightarrow> 'x decider \<Rightarrow> 'x reader" where
  "term_interval_with I D g d t =
     meet (meet (node_interval g d t) (structural_interval_with I D g d t)) (other_interval g d t)"

section \<open>Decisions\<close>

datatype operation = Operation_Add | Operation_Subtract | Operation_Multiply

definition decide_overflow_with ::
  "'x reader \<Rightarrow> 'x difference_graph \<Rightarrow> domain \<Rightarrow> 'x bv \<Rightarrow> 'x bv \<Rightarrow> operation \<Rightarrow> bool option" where
  "decide_overflow_with I g d a b operation =
     (let (low, high) =
        (case operation of
           Operation_Add \<Rightarrow> sum_interval (I g d a) (I g d b)
         | Operation_Subtract \<Rightarrow> difference_interval_with I g d a b
         | Operation_Multiply \<Rightarrow> corner_interval (*) (I g d a) (I g d b));
          (least, greatest) = domain_range d
      in if low \<ge> least \<and> high \<le> greatest then Some False else None)"

definition overflow_operation :: "comparison \<Rightarrow> (domain \<times> operation) option" where
  "overflow_operation op = (case op of
     Op_Bitvector32SignedAddOverflows \<Rightarrow> Some (Int32, Operation_Add)
   | Op_Bitvector32SignedSubtractOverflows \<Rightarrow> Some (Int32, Operation_Subtract)
   | Op_Bitvector32SignedMultiplyOverflows \<Rightarrow> Some (Int32, Operation_Multiply)
   | Op_Bitvector64SignedAddOverflows \<Rightarrow> Some (Int64, Operation_Add)
   | Op_Bitvector64SignedSubtractOverflows \<Rightarrow> Some (Int64, Operation_Subtract)
   | Op_Bitvector64SignedMultiplyOverflows \<Rightarrow> Some (Int64, Operation_Multiply)
   | _ \<Rightarrow> None)"

text \<open>What a contradictory graph answers.\<close>

definition dead_answer :: "'x cond \<Rightarrow> bool option" where
  "dead_answer c = (case c of
     Compare op _ _ \<Rightarrow>
       if overflow_operation op \<noteq> None
          \<or> op \<in> {Op_Bitvector32SignedDivideOverflows, Op_Bitvector64SignedDivideOverflows}
       then Some False else None
   | _ \<Rightarrow> None)"

definition recorded_no_overflow :: "'x difference_graph \<Rightarrow> 'x cond \<Rightarrow> bool" where
  "recorded_no_overflow g c =
     (case overflow_parts c of
        None \<Rightarrow> False
      | Some (operation, d, a, b, commutative) \<Rightarrow>
          (case (modular_resolve g d a, modular_resolve g d b) of
             (Some a, Some b) \<Rightarrow> overflow_key operation a b commutative \<in> g_no_overflow g
           | _ \<Rightarrow> False))"

definition decide_shift_with :: "'x reader \<Rightarrow> 'x difference_graph \<Rightarrow> 'x bv \<Rightarrow> 'x bv \<Rightarrow> bool option" where
  "decide_shift_with I g a count =
     (case domain_constant Int32 count of
        None \<Rightarrow> None
      | Some count \<Rightarrow>
          if \<not> (0 \<le> count \<and> count < 32) then None
          else (case I g Int32 a of
                  (low, high) \<Rightarrow>
                    if low \<ge> 0 \<and> high \<le> drop_bit (nat count) (2 ^ 31 - 1) then Some False else None))"

definition term_excludes :: "'x difference_graph \<Rightarrow> domain \<Rightarrow> 'x bv \<Rightarrow> int \<Rightarrow> bool" where
  "term_excludes g d t v =
     (case resolve g d t of Some (Some n, offset) \<Rightarrow> excludes g n (v - offset) | _ \<Rightarrow> False)"

definition decide_divide_with ::
  "'x reader \<Rightarrow> 'x difference_graph \<Rightarrow> bool \<Rightarrow> 'x bv \<Rightarrow> 'x bv \<Rightarrow> bool option" where
  "decide_divide_with I g int64 a b =
     (let d = (if int64 then Int64 else Int32);
          (a_low, _) = I g d a;
          (b_low, b_high) = I g d b;
          no_pair = (a_low > fst (domain_range d) \<or> b_low > - 1 \<or> b_high < - 1 \<or> term_excludes g d b (- 1));
          nonzero = (b_low > 0 \<or> b_high < 0 \<or> term_excludes g d b 0)
      in if no_pair \<and> (\<not> int64 \<or> nonzero) then Some False else None)"

definition affine_differ :: "'x difference_graph \<Rightarrow> affine \<Rightarrow> affine \<Rightarrow> bool" where
  "affine_differ g a b =
     (case (fst a, fst b) of
        (Some n, None) \<Rightarrow> excludes g n (snd b - snd a)
      | (None, Some n) \<Rightarrow> excludes g n (snd a - snd b)
      | _ \<Rightarrow> False)"

definition equal_by_nodes :: "'x difference_graph \<Rightarrow> domain \<Rightarrow> 'x bv \<Rightarrow> 'x bv \<Rightarrow> bool option" where
  "equal_by_nodes g d a b =
     (case (resolve g d a, resolve g d b) of
        (Some a, Some b) \<Rightarrow>
          if affine_differ g a b then Some False
          else
            (let ab = difference_bound g a b; ba = difference_bound g b a in
             if ab \<le> 0 \<and> ba \<le> 0 then Some True
             else if ab < 0 \<or> ba < 0 then Some False
             else None)
      | _ \<Rightarrow> None)"

definition equal_by_intervals :: "int \<times> int \<Rightarrow> int \<times> int \<Rightarrow> bool option" where
  "equal_by_intervals a b =
     (if fst a = snd a \<and> a = b then Some True
      else if snd a < fst b \<or> snd b < fst a then Some False
      else None)"

fun decide_equality_with ::
  "'x reader \<Rightarrow> 'x difference_graph \<Rightarrow> domain list \<Rightarrow> 'x bv \<Rightarrow> 'x bv \<Rightarrow> bool option" where
  "decide_equality_with I g [] a b = None"
| "decide_equality_with I g (d # domains) a b =
     (case equal_by_nodes g d a b of
        Some answer \<Rightarrow> Some answer
      | None \<Rightarrow>
          (case equal_by_intervals (I g d a) (I g d b) of
             Some answer \<Rightarrow> Some answer
           | None \<Rightarrow> decide_equality_with I g domains a b))"

text \<open>An unsigned difference that does not wrap, and a remainder, against their left operand.\<close>

definition below_operand :: "'x difference_graph \<Rightarrow> domain \<Rightarrow> 'x bv \<Rightarrow> 'x bv \<Rightarrow> bool \<Rightarrow> bool" where
  "below_operand g d lower upper strict =
     (case lower of
        Binary op a b \<Rightarrow>
          d = UInt64 \<and> a = upper
          \<and> (if op = Op_UInt64Subtract then
               (case (resolve g d a, resolve g d b) of
                  (Some a, Some b) \<Rightarrow>
                    difference_bound g a b \<le> 0 \<and> (\<not> strict \<or> fst (affine_interval g b) \<ge> 1)
                | _ \<Rightarrow> False)
             else op = Op_UInt64Remainder \<and> \<not> strict)
      | _ \<Rightarrow> False)"

definition decide_by_bounds :: "int \<Rightarrow> int \<Rightarrow> bool \<Rightarrow> bool option" where
  "decide_by_bounds holds fails strict =
     (if holds \<le> - of_bool strict then Some True
      else if fails \<le> - of_bool (\<not> strict) then Some False
      else None)"

definition decide_direct :: "'x difference_graph \<Rightarrow> affine \<Rightarrow> affine \<Rightarrow> bool \<Rightarrow> bool option" where
  "decide_direct g lower upper strict =
     (if fst lower \<noteq> None \<and> fst upper \<noteq> None then
        (if case direct_difference_bound g upper lower of
              None \<Rightarrow> False | Some bound \<Rightarrow> bound \<le> - of_bool strict
         then Some True
         else if case direct_difference_bound g lower upper of
                   None \<Rightarrow> False | Some bound \<Rightarrow> bound \<le> - of_bool (\<not> strict)
         then Some False
         else None)
      else None)"

definition decide_order_with ::
  "'x reader \<Rightarrow> 'x difference_graph \<Rightarrow> domain \<Rightarrow> 'x bv \<Rightarrow> 'x bv \<Rightarrow> bool \<Rightarrow> bool option" where
  "decide_order_with I g d lower upper strict =
     (if below_operand g d lower upper strict then Some True
      else
        (case (resolve g d lower, resolve g d upper) of
           (Some lower, Some upper) \<Rightarrow>
             (case decide_direct g lower upper strict of
                Some answer \<Rightarrow> Some answer
              | None \<Rightarrow>
                  decide_by_bounds (difference_bound g upper lower) (difference_bound g lower upper) strict)
         | _ \<Rightarrow>
             (let (lower_low, lower_high) = I g d lower; (upper_low, upper_high) = I g d upper
              in decide_by_bounds (lower_high - upper_low) (upper_high - lower_low) strict)))"

text \<open>A comparison of two terms, past the pointer questions.\<close>

definition decide_comparison_with ::
  "'x reader \<Rightarrow> 'x difference_graph \<Rightarrow> comparison \<Rightarrow> 'x bv \<Rightarrow> 'x bv \<Rightarrow> bool option" where
  "decide_comparison_with I g op a b =
     (case overflow_operation op of
        Some (d, operation) \<Rightarrow> decide_overflow_with I g d a b operation
      | None \<Rightarrow>
      if op = Op_Bitvector32SignedShiftLeftOverflows then decide_shift_with I g a b
      else if op \<in> {Op_Bitvector32SignedDivideOverflows, Op_Bitvector64SignedDivideOverflows} then
        decide_divide_with I g (op = Op_Bitvector64SignedDivideOverflows) a b
      else
        (case equality_domains op of
           Some domains \<Rightarrow>
             (case decide_equality_with I g domains a b of
                Some answer \<Rightarrow> Some answer
              | None \<Rightarrow>
                  if op = Op_Bitvector64Equal then residues_decide_equal (g_residues g) a b else None)
         | None \<Rightarrow>
             (case condition_orders (Compare op a b) True of
                [(d, lower, upper, strict)] \<Rightarrow> decide_order_with I g d lower upper strict
              | _ \<Rightarrow> None)))"

definition decide_stated_with :: "'x reader \<Rightarrow> 'x decider" where
  "decide_stated_with I g c =
     (if g_contradictory g then dead_answer c
      else if recorded_no_overflow g c then Some False
      else (case c of Compare op a b \<Rightarrow> decide_comparison_with I g op a b | _ \<Rightarrow> None))"

definition decide_offsets_with ::
  "'x reader \<Rightarrow> 'x decider \<Rightarrow> 'x difference_graph \<Rightarrow> 'x offset \<Rightarrow> 'x offset \<Rightarrow> bool option" where
  "decide_offsets_with I D g a b =
     (case offset_mismatch a b of
        Some answer \<Rightarrow> Some answer
      | None \<Rightarrow>
     (case pc_decide_offsets (g_pointers g) a b of
        Some answer \<Rightarrow> Some answer
      | None \<Rightarrow>
     (case same_field_bases a b of
        Some (a, b) \<Rightarrow> D g (PointerOffsetEqual a b)
      | None \<Rightarrow>
     (case offset_equality (PointerOffsetEqual a b) of
        Some equality \<Rightarrow> D g equality
      | None \<Rightarrow> decide_stated_with I g (PointerOffsetEqual a b)))))"

definition decide_with :: "'x reader \<Rightarrow> 'x decider \<Rightarrow> 'x decider" where
  "decide_with I D g c =
     (case c of
        Cond_Constant answer \<Rightarrow> Some answer
      | PointerOffsetEqual a b \<Rightarrow> decide_offsets_with I D g a b
      | PointerEqual a b \<Rightarrow> pc_decide (g_pointers g) a b
      | _ \<Rightarrow> decide_stated_with I g c)"

text \<open>
  The operations themselves. Every call goes to a smaller term or condition, so a fuel above
  the size is always enough.
\<close>

fun interval_at :: "nat \<Rightarrow> 'x reader" and decide_at :: "nat \<Rightarrow> 'x decider" where
  "interval_at 0 g d t = domain_range d"
| "interval_at (Suc k) g d t = term_interval_with (interval_at k) (decide_at k) g d t"
| "decide_at 0 g c = None"
| "decide_at (Suc k) g c = decide_with (interval_at k) (decide_at k) g c"

definition term_interval :: "'x reader" where
  "term_interval g d t = interval_at (Suc (size t)) g d t"

definition decide :: "'x decider" where
  "decide g c = decide_at (Suc (size c)) g c"

section \<open>The fuel is enough\<close>












section \<open>Bounds are true\<close>

lemma resolve_interval:
  assumes "sound \<rho> \<nu> g" "resolve g d t = Some a"
  shows "within (reading \<rho> d t) (affine_interval g a)"
  using resolve_true [OF assms] affine_interval_true [OF assms(1), of a] by simp

lemma difference_bound_true:
  assumes s: "sound \<rho> \<nu> g" and a: "resolve g d a = Some x" and b: "resolve g d' b = Some y"
  shows "reading \<rho> d' b - reading \<rho> d a \<le> difference_bound g x y"
proof -
  have i: "reading \<rho> d' b - reading \<rho> d a \<le> snd (affine_interval g y) - fst (affine_interval g x)"
    using resolve_interval [OF s a] resolve_interval [OF s b] by (simp add: within_def)
  have r: "affine_value \<nu> x = reading \<rho> d a" "affine_value \<nu> y = reading \<rho> d' b"
    using resolve_true [OF s a] resolve_true [OF s b] by simp_all
  have "reading \<rho> d' b - reading \<rho> d a \<le> w + snd y - snd x"
    if "fst x = Some m" "fst y = Some n" "shortest_from g m n = Some w" for m n w
    using shortest_from_true [OF soundD(2) [OF s] that(3)] r that(1,2) by (simp add: affine_value_def)
  then show ?thesis using i by (auto simp: difference_bound_def Let_def split: option.split)
qed

lemma direct_difference_bound_true:
  assumes s: "sound \<rho> \<nu> g" and a: "resolve g d a = Some x" and b: "resolve g d' b = Some y"
    and w: "direct_difference_bound g x y = Some w"
  shows "reading \<rho> d' b - reading \<rho> d a \<le> w"
proof -
  have r: "affine_value \<nu> x = reading \<rho> d a" "affine_value \<nu> y = reading \<rho> d' b"
    using resolve_true [OF s a] resolve_true [OF s b] by simp_all
  obtain m n where mn: "fst x = Some m" "fst y = Some n"
    using w by (auto simp: direct_difference_bound_def split: option.splits)
  have "\<nu> n - \<nu> m \<le> w - snd y + snd x"
  proof (cases "m = n")
    case True
    then show ?thesis using w mn by (simp add: direct_difference_bound_def)
  next
    case False
    then obtain edges v where e: "g_out_edges g m = Some edges" "map_get edges n = Some v" "w = v + snd y - snd x"
      using w mn by (auto simp: direct_difference_bound_def split: option.splits bind_splits)
    from store.holds_lookup [OF graph_trueD(5) [OF soundD(2) [OF s] e(1)] e(2)] e(3) show ?thesis by simp
  qed
  then show ?thesis using r mn by (simp add: affine_value_def)
qed

lemma term_excludes_true:
  assumes "sound \<rho> \<nu> g" "term_excludes g d t v"
  shows "reading \<rho> d t \<noteq> v"
proof -
  obtain n k where r: "resolve g d t = Some (Some n, k)" "excludes g n (v - k)"
    using assms(2) by (auto simp: term_excludes_def split: option.splits)
  have "\<nu> n + k = reading \<rho> d t" using resolve_true [OF assms(1) r(1)] by (simp add: affine_value_def)
  moreover have "\<nu> n \<noteq> v - k" using r(2) graph_trueD(8) [OF soundD(2) [OF assms(1)], of n] by auto
  ultimately show ?thesis by simp
qed

lemma affine_differ_true:
  assumes "sound \<rho> \<nu> g" "affine_differ g a b"
  shows "affine_value \<nu> a \<noteq> affine_value \<nu> b"
  using assms(2) graph_trueD(8) [OF soundD(2) [OF assms(1)]]
  by (auto simp: affine_differ_def affine_value_def split: option.splits) (smt (verit) diff_add_cancel)+

section \<open>Readings of operations\<close>

lemma reading_operation_mod:
  "reading \<rho> Int32 (Multiply a b) mod 2 ^ 32 = (reading \<rho> Int32 a * reading \<rho> Int32 b) mod 2 ^ 32"
  "reading \<rho> Int32 (Remainder a b) mod 2 ^ 32 = (reading \<rho> Int32 a smod reading \<rho> Int32 b) mod 2 ^ 32"
  "reading \<rho> Int32 (Divide a b) mod 2 ^ 32 = (reading \<rho> Int32 a sdiv reading \<rho> Int32 b) mod 2 ^ 32"
  "reading \<rho> Int64 (Int64Multiply a b) mod 2 ^ 64 = (reading \<rho> Int64 a * reading \<rho> Int64 b) mod 2 ^ 64"
  "reading \<rho> Int64 (Int64Remainder a b) mod 2 ^ 64 = (reading \<rho> Int64 a smod reading \<rho> Int64 b) mod 2 ^ 64"
  "reading \<rho> Int64 (Int64Divide a b) mod 2 ^ 64 = (reading \<rho> Int64 a sdiv reading \<rho> Int64 b) mod 2 ^ 64"
proof -
  have 32: "reading \<rho> Int32 (Binary op a b) mod 2 ^ 32 = x mod 2 ^ 32"
    if "binary32 op = Some f" "f (low32 (bv_value \<rho> a)) (low32 (bv_value \<rho> b)) = word_of_int x" for op f x
    using congruent_readingI [of Int32 \<rho> "Binary op a b" x] that by (simp add: congruent_def)
  have 64: "reading \<rho> Int64 (Binary op a b) mod 2 ^ 64 = x mod 2 ^ 64"
    if "binary32 op = None" "binary64 op = Some f"
      "f (low64 (bv_value \<rho> a)) (low64 (bv_value \<rho> b)) = word_of_int x" for op f x
    using congruent_readingI [of Int64 \<rho> "Binary op a b" x] that by (simp add: congruent_def)
  have d: "reading \<rho> Int32 t = sint (low32 (bv_value \<rho> t))" "reading \<rho> Int64 t = sint (low64 (bv_value \<rho> t))" for t
    by (simp_all add: reading_def)
  show "reading \<rho> Int32 (Multiply a b) mod 2 ^ 32 = (reading \<rho> Int32 a * reading \<rho> Int32 b) mod 2 ^ 32"
    by (rule 32) (simp_all add: binary32_def d)
  show "reading \<rho> Int32 (Remainder a b) mod 2 ^ 32 = (reading \<rho> Int32 a smod reading \<rho> Int32 b) mod 2 ^ 32"
    by (rule 32 [where f = signed_rem]) (simp_all add: binary32_def d signed_rem_def)
  show "reading \<rho> Int32 (Divide a b) mod 2 ^ 32 = (reading \<rho> Int32 a sdiv reading \<rho> Int32 b) mod 2 ^ 32"
    by (rule 32 [where f = signed_div]) (simp_all add: binary32_def d signed_div_def)
  show "reading \<rho> Int64 (Int64Multiply a b) mod 2 ^ 64 = (reading \<rho> Int64 a * reading \<rho> Int64 b) mod 2 ^ 64"
    by (rule 64) (simp_all add: binary32_def binary64_def d)
  show "reading \<rho> Int64 (Int64Remainder a b) mod 2 ^ 64 = (reading \<rho> Int64 a smod reading \<rho> Int64 b) mod 2 ^ 64"
    by (rule 64 [where f = signed_rem]) (simp_all add: binary32_def binary64_def d signed_rem_def)
  show "reading \<rho> Int64 (Int64Divide a b) mod 2 ^ 64 = (reading \<rho> Int64 a sdiv reading \<rho> Int64 b) mod 2 ^ 64"
    by (rule 64 [where f = signed_div]) (simp_all add: binary32_def binary64_def d signed_div_def)
qed

lemma reading_operation:
  "(d, op) \<in> {(Int32, Op_Multiply), (Int64, Op_Int64Multiply)} \<Longrightarrow>
   reading \<rho> d (Binary op a b) mod domain_modulus d = (reading \<rho> d a * reading \<rho> d b) mod domain_modulus d"
  "(d, op) \<in> {(Int32, Op_Remainder), (Int64, Op_Int64Remainder)} \<Longrightarrow>
   reading \<rho> d (Binary op a b) mod domain_modulus d = (reading \<rho> d a smod reading \<rho> d b) mod domain_modulus d"
  "(d, op) \<in> {(Int32, Op_Divide), (Int64, Op_Int64Divide)} \<Longrightarrow>
   reading \<rho> d (Binary op a b) mod domain_modulus d = (reading \<rho> d a sdiv reading \<rho> d b) mod domain_modulus d"
  using reading_operation_mod [of \<rho> a b] by (elim insertE emptyE; simp only: prod.inject domain_modulus_eq)+

lemma reading_unsigned64:
  "reading \<rho> UInt64 (UInt64Remainder a b) = reading \<rho> UInt64 a mod reading \<rho> UInt64 b"
  "reading \<rho> UInt64 (UInt64Divide a b) = reading \<rho> UInt64 a div reading \<rho> UInt64 b"
  "reading \<rho> UInt64 (UInt64BitwiseAnd a b) = reading \<rho> UInt64 a AND reading \<rho> UInt64 b"
  by (simp_all add: reading_def binary32_def binary64_def uint_mod uint_div unsigned_and_eq)

lemma reading_unsigned32:
  "reading \<rho> Int32 (UnsignedDivide a b) mod 2 ^ 32
   = reading \<rho> Int32 a mod 2 ^ 32 div (reading \<rho> Int32 b mod 2 ^ 32)"
  "reading \<rho> Int32 (UnsignedRemainder a b) mod 2 ^ 32
   = reading \<rho> Int32 a mod 2 ^ 32 mod (reading \<rho> Int32 b mod 2 ^ 32)"
proof -
  have d: "reading \<rho> Int32 t mod 2 ^ 32 = uint (low32 (bv_value \<rho> t))" for t
    using word_reading_mod(1) by (simp add: reading_def)
  show "reading \<rho> Int32 (UnsignedDivide a b) mod 2 ^ 32
   = reading \<rho> Int32 a mod 2 ^ 32 div (reading \<rho> Int32 b mod 2 ^ 32)"
    unfolding d by (simp add: binary32_def uint_div)
  show "reading \<rho> Int32 (UnsignedRemainder a b) mod 2 ^ 32
   = reading \<rho> Int32 a mod 2 ^ 32 mod (reading \<rho> Int32 b mod 2 ^ 32)"
    unfolding d by (simp add: binary32_def uint_mod)
qed

lemma ucast_word_of_int: "LENGTH('b) \<le> LENGTH('a) \<Longrightarrow> ucast (word_of_int x :: 'a::len word) = (word_of_int x :: 'b::len word)"
  by (rule bit_word_eqI) (simp add: bit_simps)

lemma reading_narrowed:
  assumes "d \<noteq> Int32"
  shows "reading \<rho> Int32 (UInt32From64 t) mod 2 ^ 32 = reading \<rho> d t mod 2 ^ 32"
proof -
  have "low32 (bv_value \<rho> (UInt32From64 t)) = ucast (low64 (bv_value \<rho> t))"
    by (simp add: unary_value_def low32_low64 [symmetric])
  also have "\<dots> = word_of_int (reading \<rho> d t)"
    unfolding low64_reading [OF assms] by (rule ucast_word_of_int) simp
  finally show ?thesis
    using congruent_readingI [of Int32 \<rho> "UInt32From64 t" "reading \<rho> d t"] by (simp add: congruent_def)
qed

lemma to_integer_mod: "to_integer (constant_of f x) mod 2 ^ format_bits f = x mod 2 ^ format_bits f"
  using constant_of_eq_iff [of f x "constant_of f x"] by simp

lemma reading_wide_cast:
  assumes "d \<noteq> Int32" "source \<in> {MInt64, MUInt64}" "destination \<in> {MInt64, MUInt64}"
  shows "reading \<rho> d (MachineIntegerCast v source destination) mod 2 ^ 64
    = reading \<rho> (if source = MInt64 then Int64 else UInt64) v mod 2 ^ 64"
proof -
  let ?w = "bv_value \<rho> v" let ?x = "carrier_reading source ?w"
  let ?c = "constant_of (type_format destination) ?x"
  let ?s = "if source = MInt64 then Int64 else UInt64"
  have 64: "format_bits (type_format ty) = 64" if "ty \<in> {MInt64, MUInt64}" for ty
    using that by (auto simp: type_format_def format_new_def format_bits_def)
  have "to_integer ?c mod 2 ^ 64 = ?x mod 2 ^ 64"
    using to_integer_mod [of "type_format destination" ?x] 64 [OF assms(3)] by simp
  also have "\<dots> = uint ?w mod 2 ^ 64"
    using to_integer_mod [of "type_format source" "uint ?w"] 64 [OF assms(2)] by (simp add: carrier_reading_def)
  also have "\<dots> = uint (low64 ?w)" by (simp add: unsigned_ucast_eq take_bit_eq_mod)
  also have "\<dots> = reading \<rho> ?s v mod 2 ^ 64"
    unfolding reading_def by (simp only: word_reading_mod split: if_split) simp
  finally have "to_integer ?c mod 2 ^ 64 = reading \<rho> ?s v mod 2 ^ 64" .
  moreover have "low64 (bv_value \<rho> (MachineIntegerCast v source destination)) = word_of_int (to_integer ?c)"
    using 64 [OF assms(3)] by (simp add: cast_value_def carrier_of_def)
  then have "reading \<rho> d (MachineIntegerCast v source destination) mod 2 ^ 64 = to_integer ?c mod 2 ^ 64"
    using assms(1) congruent_readingI [of d \<rho> "MachineIntegerCast v source destination" "to_integer ?c"]
    by (cases d) (simp_all add: congruent_def)
  ultimately show ?thesis by simp
qed

section \<open>Recorded absences of overflow\<close>

lemma recorded_no_overflow_true:
  assumes s: "sound \<rho> \<nu> g" and r: "recorded_no_overflow g c"
  shows "\<not> cond_value \<rho> c"
proof -
  obtain code d a b commutative where p: "overflow_parts c = Some (code, d, a, b, commutative)"
    using r by (auto simp: recorded_no_overflow_def split: option.splits)
  then obtain x y where xy: "modular_resolve g d a = Some x" "modular_resolve g d b = Some y"
    and k: "overflow_key code x y commutative \<in> g_no_overflow g"
    using r by (cases "modular_resolve g d a"; cases "modular_resolve g d b") (auto simp: recorded_no_overflow_def)
  have d: "code_domain code = d"
    using p by (cases c) (auto simp: overflow_parts_def overflow_op_def code_domain_def split: comparison.splits)
  note absent = graph_trueD(13) [OF soundD(2) [OF s]]
  have "overflow_absent code (affine_value \<nu> x) (affine_value \<nu> y)"
  proof (cases "commutative \<and> overflow_key code x y commutative = (code, y, x)")
    case True
    then have "overflow_parts c = Some (code, d, a, b, True)" using p by simp
    moreover have "overflow_absent code (affine_value \<nu> y) (affine_value \<nu> x)" using k True absent by metis
    ultimately show ?thesis by (rule overflow_absent_commute)
  next
    case False
    then have "(code, x, y) \<in> g_no_overflow g" using k overflow_key_cases by metis
    then show ?thesis by (rule absent)
  qed
  moreover have "same_word d (reading \<rho> d a) (affine_value \<nu> x)" "same_word d (reading \<rho> d b) (affine_value \<nu> y)"
    using modular_resolve_true [OF s xy(1)] modular_resolve_true [OF s xy(2)] by (simp_all add: same_word_def)
  ultimately have "\<not> overflow_value code (reading \<rho> d a) (reading \<rho> d b)"
    unfolding overflow_absent_def d using reading_in_domain by blast
  then show ?thesis using overflow_parts_sound [OF p, of \<rho>] by simp
qed

section \<open>What a reader and a decider promise\<close>

text \<open>
  The contract between the two recursions: an interval holds the value, and a decision is
  the condition's value, in every graph that is true of the valuation.
\<close>

locale answers =
  fixes I :: "'x reader" and D :: "'x decider"
  assumes interval_true: "sound \<rho> \<nu> g \<Longrightarrow> within (reading \<rho> d t) (I g d t)"
    and decision_true: "sound \<rho> \<nu> g \<Longrightarrow> D g c = Some v \<Longrightarrow> cond_value \<rho> c = v"
begin

lemma difference_interval_true:
  assumes s: "sound \<rho> \<nu> g"
  shows "within (reading \<rho> d a - reading \<rho> d b) (difference_interval_with I g d a b)"
proof (cases "a = b")
  case True
  then show ?thesis by (simp add: difference_interval_with_def)
next
  case False
  have "within (reading \<rho> d a) (I g d a)" "within (reading \<rho> d b) (I g d b)"
    by (rule interval_true [OF s])+
  moreover have "reading \<rho> d b - reading \<rho> d a \<le> difference_bound g x y"
    "reading \<rho> d a - reading \<rho> d b \<le> difference_bound g y x"
    if "resolve g d a = Some x" "resolve g d b = Some y" for x y
    using difference_bound_true [OF s that] difference_bound_true [OF s that(2,1)] by simp_all
  ultimately show ?thesis
    using False
    by (cases "resolve g d a"; cases "resolve g d b")
      (simp_all add: difference_interval_with_def within_def case_prod_beta Let_def, smt (verit))
qed

lemma unsigned_interval_true:
  assumes s: "sound \<rho> \<nu> g"
  shows "within (reading \<rho> Int32 t mod 2 ^ 32)
    (case I g Int32 t of (low, high) \<Rightarrow> wrap_range (0, 2 ^ 32 - 1) low high)"
proof -
  obtain low high where i: "I g Int32 t = (low, high)" by (rule prod.exhaust)
  then have "within (reading \<rho> Int32 t) (low, high)" using interval_true [OF s, of Int32 t] by simp
  then have "within (reading \<rho> Int32 t mod 2 ^ 32) (wrap_range (0, 2 ^ 32 - 1) low high)"
    by (rule wrap_range_sound) simp_all
  then show ?thesis by (simp add: i)
qed

lemma rounded_down_parts:
  "rounded_down d op a b = Some k \<Longrightarrow> d = UInt64 \<and> op = Op_UInt64Subtract \<and> b = UInt64Remainder a k"
  by (auto simp: rounded_down_def split: if_splits bv.splits)

lemma binary_interval_true:
  assumes s: "sound \<rho> \<nu> g" and r: "binary_interval_with I g d op a b = Some r"
  shows "\<exists>x. within x r \<and> reading \<rho> d (Binary op a b) mod domain_modulus d = x mod domain_modulus d"
proof -
  let ?r = "reading \<rho> d (Binary op a b)" let ?a = "reading \<rho> d a" let ?b = "reading \<rho> d b"
  have a: "within (reading \<rho> d' a) (I g d' a)" and b: "within (reading \<rho> d' b) (I g d' b)" for d'
    by (rule interval_true [OF s])+
  have u: "0 \<le> reading \<rho> UInt64 t" for t using reading_in_domain [of UInt64 \<rho> t] by (simp add: in_domain_def)
  note eq = r [unfolded binary_interval_with_def]
  show ?thesis
  proof (cases "is_sum d op")
    case True
    then have "r = sum_interval (I g d a) (I g d b)" using eq by simp
    then show ?thesis
      using reading_sum_mod [OF True, of \<rho> a b] sum_interval_within [OF a b] by blast
  next
    case no_sum: False
    note eq = eq [unfolded if_not_P [OF no_sum]]
    show ?thesis
    proof (cases "rounded_down d op a b")
      case (Some k)
      note p = rounded_down_parts [OF Some]
      have "round_down_interval (I g d a) (I g d k) = Some r" using eq Some by simp
      from round_down_within [OF a interval_true [OF s] this]
      have w: "within (reading \<rho> UInt64 a - reading \<rho> UInt64 a mod reading \<rho> UInt64 k) r"
        using u p by simp
      have "?r mod 2 ^ 64 = (reading \<rho> UInt64 a - reading \<rho> UInt64 b) mod 2 ^ 64"
        using reading_difference_mod [of UInt64 op \<rho> a b] p by (simp add: is_difference_def)
      then show ?thesis using w p by (intro exI conjI) (simp_all add: reading_unsigned64)
    next
      case not_rounded: None
      note eq = eq [unfolded not_rounded option.case]
      show ?thesis
      proof (cases "is_difference d op")
        case True
        then have "r = difference_interval_with I g d a b" using eq by simp
        then show ?thesis
          using reading_difference_mod [OF True, of \<rho> a b] difference_interval_true [OF s] by blast
      next
        case no_difference: False
        note eq = eq [unfolded if_not_P [OF no_difference]]
        consider (product) "(d, op) \<in> {(Int32, Op_Multiply), (Int64, Op_Int64Multiply)}"
          | (remainder) "(d, op) \<in> {(Int32, Op_Remainder), (Int64, Op_Int64Remainder)}"
          | (quotient) "(d, op) \<in> {(Int32, Op_Divide), (Int64, Op_Int64Divide)}"
          | (unsigned_remainder) "(d, op) = (UInt64, Op_UInt64Remainder)"
          | (unsigned_narrow) "(d, op) \<in> {(Int32, Op_UnsignedDivide), (Int32, Op_UnsignedRemainder)}"
          | (flip) "(d, op) \<in> {(Int32, Op_BitwiseXor), (Int64, Op_Int64BitwiseXor)}"
          | (unsigned_quotient) "(d, op) = (UInt64, Op_UInt64Divide)"
          | (masked) "(d, op) = (UInt64, Op_UInt64BitwiseAnd)"
          using eq by (auto split: if_splits)
        then show ?thesis
        proof cases
          case product
          then have "r = corner_interval (*) (I g d a) (I g d b)" using eq by auto
          then show ?thesis
            using product_within [OF a b, of d d] reading_operation(1) [OF product] by blast
        next
          case remainder
          then have "remainder_interval (I g d a) (I g d b) = Some r" using eq by auto
          then show ?thesis
            using remainder_within [OF a b] reading_operation(2) [OF remainder] by blast
        next
          case quotient
          then have "quotient_interval (I g d a) (I g d b) = Some r" using eq by auto
          then show ?thesis
            using quotient_within [OF a b] reading_operation(3) [OF quotient] by blast
        next
          case unsigned_remainder
          then have "unsigned_remainder_interval (I g d a) (I g d b) = Some r" using eq by auto
          then show ?thesis
            using unsigned_remainder_within [OF a b] unsigned_remainder u
            by (intro exI [of _ ?r]) (auto simp: reading_unsigned64)
        next
          case unsigned_quotient
          then have "unsigned_quotient_interval (I g d a) (I g d b) = Some r" using eq by auto
          then show ?thesis
            using unsigned_quotient_within [OF a b] unsigned_quotient u
            by (intro exI [of _ ?r]) (auto simp: reading_unsigned64)
        next
          case flip
          then obtain base where k: "sign_flip_base d (Binary op a b) = Some base" "flip_interval d (I g d base) = Some r"
            using eq by (auto split: bind_splits)
          from flip_sign_within [OF interval_true [OF s] k(2)]
          show ?thesis using sign_flip_sound [OF k(1), of \<rho>] by (intro exI [of _ ?r]) simp
        next
          case masked
          have m: "0 \<le> known" if "domain_constant UInt64 t = Some known" for t :: "'x bv" and known
            using domain_constant_sound [OF that, of \<rho>] u [of t] by simp
          from masked have "within ?r r"
            using eq masked_within [OF a u m] masked_within [OF b u m] domain_constant_sound [of UInt64 _ _ \<rho>]
            by (auto simp: reading_unsigned64 and.commute split: option.splits)
          then show ?thesis by blast
        next
          case unsigned_narrow
          let ?u = "\<lambda>t. case I g d t of (low, high) \<Rightarrow> wrap_range (0, 2 ^ 32 - 1) low high"
          have d: "d = Int32" using unsigned_narrow by auto
          obtain low high where k: "r = wrap_interval d low high"
            "(if op = Op_UnsignedDivide then unsigned_quotient_interval (?u a) (?u b)
              else unsigned_remainder_interval (?u a) (?u b)) = Some (low, high)"
            using eq unsigned_narrow by (auto simp: Let_def)
          have w: "within (reading \<rho> Int32 t mod 2 ^ 32) (?u t)" for t
            using unsigned_interval_true [OF s, of t] d by simp
          have "within (?r mod 2 ^ 32) (low, high)"
          proof (cases "op = Op_UnsignedDivide")
            case True
            then have "unsigned_quotient_interval (?u a) (?u b) = Some (low, high)" using k(2) by simp
            from unsigned_quotient_within [OF w w this] show ?thesis
              unfolding True d reading_unsigned32 by simp
          next
            case False
            then have op: "op = Op_UnsignedRemainder" using unsigned_narrow by auto
            then have "unsigned_remainder_interval (?u a) (?u b) = Some (low, high)" using k(2) by simp
            from unsigned_remainder_within [OF w w this] show ?thesis
              unfolding op d reading_unsigned32 by simp
          qed
          then have "within ?r (wrap_interval d low high)"
            by (rule wrap_interval_sound) (simp_all add: reading_in_domain d)
          then show ?thesis using k(1) by blast
        qed
      qed
    qed
  qed
qed

lemma unary_interval_true:
  assumes s: "sound \<rho> \<nu> g" and r: "unary_interval_with I g d op inner = Some r"
  shows "within (reading \<rho> d (Unary op inner)) r"
proof -
  have i: "within (reading \<rho> d' inner) (I g d' inner)" for d' by (rule interval_true [OF s])
  have wrapped: "within (reading \<rho> d (Unary op inner)) (case I g d' inner of (low, high) \<Rightarrow> wrap_interval d low high)"
    if "reading \<rho> d (Unary op inner) mod domain_modulus d = reading \<rho> d' inner mod domain_modulus d" for d'
    using wrap_interval_sound [OF _ reading_in_domain that] i [of d'] by (cases "I g d' inner") simp
  consider "(d, op) = (Int32, Op_UInt32From64)" | "(d, op) = (Int64, Op_Int64From32)"
    | "(d, op) = (UInt64, Op_UInt64FromInt64)" | "(d, op) = (Int64, Op_Int64FromUInt32)"
    using r by (auto simp: unary_interval_with_def split: if_splits)
  then show ?thesis
  proof cases
    case 1
    have "word_domain inner \<noteq> Int32" by (simp add: word_domain_def split: bv.split)
    from reading_narrowed [OF this, of \<rho> inner] show ?thesis
      using wrapped [of "word_domain inner"] 1 r
      by (auto simp: unary_interval_with_def case_prod_beta)
  next
    case 2
    then show ?thesis using r i [of Int32] by (auto simp: unary_interval_with_def reading_widening)
  next
    case 3
    then show ?thesis
      using wrapped [of Int64] r by (auto simp: unary_interval_with_def case_prod_beta reading_widening)
  next
    case 4
    then have "r = zero_extended_interval (I g Int32 inner)" using r by (simp add: unary_interval_with_def)
    then show ?thesis
      using zero_extended_within [OF i reading_in_domain, folded reading_widening(3)] 4 by simp
  qed
qed

lemma cast_interval_true:
  assumes s: "sound \<rho> \<nu> g" and r: "cast_interval_with I g d v source destination = Some r"
  shows "within (reading \<rho> d (MachineIntegerCast v source destination)) r"
proof -
  let ?s = "if source = MInt64 then Int64 else UInt64"
  have c: "d \<noteq> Int32" "source \<in> {MInt64, MUInt64}" "destination \<in> {MInt64, MUInt64}"
    and r': "r = (case I g ?s v of (low, high) \<Rightarrow> wrap_interval d low high)"
    using r by (auto simp: cast_interval_with_def case_prod_beta split: if_splits)
  obtain low high where i: "I g ?s v = (low, high)" by (rule prod.exhaust)
  have "within (reading \<rho> ?s v) (low, high)" using interval_true [OF s, of ?s v] unfolding i .
  moreover have "domain_modulus d = 2 ^ 64" using c(1) by (cases d) simp_all
  then have "reading \<rho> d (MachineIntegerCast v source destination) mod domain_modulus d
    = reading \<rho> ?s v mod domain_modulus d" using reading_wide_cast [OF c, of \<rho> v] by (simp only:)
  ultimately show ?thesis unfolding r' i prod.case by (intro wrap_interval_sound reading_in_domain)
qed

lemma branch_interval_true:
  assumes s: "sound \<rho> \<nu> g"
  shows "within (reading \<rho> d (If_Term c a b)) (branch_interval_with I D g d c a b)"
proof -
  have i: "within (reading \<rho> d a) (I g d a)" "within (reading \<rho> d b) (I g d b)" by (rule interval_true [OF s])+
  show ?thesis
  proof (cases "D g c")
    case None
    have "within (reading \<rho> d a) (hull (I g d a) (I g d b)) \<and> within (reading \<rho> d b) (hull (I g d a) (I g d b))"
      using i hull_within by blast
    then show ?thesis by (simp add: branch_interval_with_def None reading_def)
  next
    case (Some v)
    with decision_true [OF s Some] i show ?thesis
      by (cases v) (simp_all add: branch_interval_with_def reading_def)
  qed
qed

lemma structural_interval_true:
  assumes s: "sound \<rho> \<nu> g"
  shows "within (reading \<rho> d t) (structural_interval_with I D g d t)"
proof -
  let ?known = "case t of
           Binary op a b \<Rightarrow> binary_interval_with I g d op a b
         | Unary op inner \<Rightarrow> unary_interval_with I g d op inner
         | If_Term condition then_term else_term \<Rightarrow>
             Some (branch_interval_with I D g d condition then_term else_term)
         | MachineIntegerCast v source destination \<Rightarrow> cast_interval_with I g d v source destination
         | _ \<Rightarrow> None"
  have d: "within (reading \<rho> d t) (domain_range d)" by (simp add: within_domain reading_in_domain)
  have k: "\<exists>x. within x r \<and> reading \<rho> d t mod domain_modulus d = x mod domain_modulus d"
    if "?known = Some r" for r
  proof (cases t)
    case (Binary op a b)
    then show ?thesis using that binary_interval_true [OF s] by simp
  next
    case (Unary op a)
    then show ?thesis using that unary_interval_true [OF s, of d op a r]
      by (intro exI [of _ "reading \<rho> d t"]) simp
  next
    case (If_Term c a b)
    then show ?thesis
      using that branch_interval_true [OF s, of d c a b] by (intro exI [of _ "reading \<rho> d t"]) simp
  next
    case (MachineIntegerCast v source destination)
    then show ?thesis
      using that cast_interval_true [OF s, of d v source destination r]
      by (intro exI [of _ "reading \<rho> d t"]) simp
  qed (use that in simp_all)
  show ?thesis
  proof (cases ?known)
    case None
    then show ?thesis using d unfolding structural_interval_with_def Let_def None by simp
  next
    case (Some r)
    obtain low high where r: "r = (low, high)" by (rule prod.exhaust)
    obtain x where x: "low \<le> x" "x \<le> high" "reading \<rho> d t mod domain_modulus d = x mod domain_modulus d"
      using k [OF Some] r by auto
    obtain least greatest where m: "domain_range d = (least, greatest)" by (rule prod.exhaust)
    have "reading \<rho> d t = x" if "least \<le> low" "high \<le> greatest"
      using that x m by (intro reading_eqI) (simp_all add: in_domain_def)
    then show ?thesis using x d unfolding structural_interval_with_def Let_def Some r m by auto
  qed
qed

lemma term_interval_with_true:
  assumes s: "sound \<rho> \<nu> g"
  shows "within (reading \<rho> d t) (term_interval_with I D g d t)"
proof -
  have d: "within (reading \<rho> d t) (domain_range d)" by (simp add: within_domain reading_in_domain)
  have "within (reading \<rho> d t) (node_interval g d t)"
    using d resolve_interval [OF s] by (simp add: node_interval_def split: option.split)
  moreover have "within (reading \<rho> d t) (other_interval g d t)"
  proof (cases "Option.bind (other_reading d) (\<lambda>other. resolve g other t)")
    case None
    then show ?thesis using d by (simp add: other_interval_def)
  next
    case (Some a)
    then obtain e where e: "other_reading d = Some e" "resolve g e t = Some a" by (auto split: bind_splits)
    obtain low high where i: "affine_interval g a = (low, high)" by (rule prod.exhaust)
    have "within (reading \<rho> e t) (low, high)" using resolve_interval [OF s e(2)] i by simp
    moreover have "reading \<rho> d t mod domain_modulus d = reading \<rho> e t mod domain_modulus d"
      using e(1) word_reading_mod(2,3)
      by (cases d) (auto simp: other_reading_def reading_def simp del: take_bit_eq_mod)
    ultimately have "within (reading \<rho> d t) (wrap_interval d low high)"
      by (intro wrap_interval_sound reading_in_domain)
    then show ?thesis by (simp add: other_interval_def Some i)
  qed
  ultimately show ?thesis
    using structural_interval_true [OF s] by (simp add: term_interval_with_def meet_within)
qed

lemma decide_overflow_true:
  assumes s: "sound \<rho> \<nu> g" and op: "overflow_operation op = Some (d, operation)"
    and v: "decide_overflow_with I g d a b operation = Some v"
  shows "cond_value \<rho> (Compare op a b) = v"
proof -
  let ?x = "reading \<rho> d a" let ?y = "reading \<rho> d b"
  let ?f = "case operation of Operation_Add \<Rightarrow> (+) | Operation_Subtract \<Rightarrow> (-) | Operation_Multiply \<Rightarrow> (*)"
  have i: "within ?x (I g d a)" "within ?y (I g d b)" by (rule interval_true [OF s])+
  obtain low high where r: "(case operation of
           Operation_Add \<Rightarrow> sum_interval (I g d a) (I g d b)
         | Operation_Subtract \<Rightarrow> difference_interval_with I g d a b
         | Operation_Multiply \<Rightarrow> corner_interval (*) (I g d a) (I g d b)) = (low, high)"
    by (rule prod.exhaust)
  have "within (?f ?x ?y) (low, high)"
    unfolding r [symmetric]
    using sum_interval_within [OF i] product_within [OF i] difference_interval_true [OF s, of d a b]
    by (simp split: operation.split)
  moreover have "fst (domain_range d) \<le> low" "high \<le> snd (domain_range d)" "\<not> v"
    using v unfolding decide_overflow_with_def Let_def r by (auto simp: case_prod_beta split: if_splits)
  ultimately have "in_domain d (?f ?x ?y)" "\<not> v" by (simp_all add: in_domain_def)
  then show ?thesis
    using op by (cases op) (auto simp: overflow_operation_def compare_value_def overflow32_def overflow64_def
        reading_def in_domain_def)
qed

lemma decide_shift_true:
  assumes s: "sound \<rho> \<nu> g" and v: "decide_shift_with I g a b = Some v"
  shows "cond_value \<rho> (Compare Op_Bitvector32SignedShiftLeftOverflows a b) = v"
proof -
  obtain count low high where c: "domain_constant Int32 b = Some count" "0 \<le> count" "count < 32"
    "I g Int32 a = (low, high)" "0 \<le> low" "high \<le> drop_bit (nat count) (2 ^ 31 - 1)" "\<not> v"
    using v by (cases "I g Int32 a") (auto simp: decide_shift_with_def split: option.splits if_splits)
  let ?x = "reading \<rho> Int32 a"
  have x: "0 \<le> ?x" "?x \<le> (2 ^ 31 - 1) div 2 ^ nat count"
    using interval_true [OF s, of Int32 a] c(4-6) by (auto simp: drop_bit_eq_div)
  have "?x * 2 ^ nat count \<le> (2 ^ 31 - 1) div 2 ^ nat count * 2 ^ nat count"
    using x by (intro mult_right_mono) simp_all
  also have "\<dots> \<le> 2 ^ 31 - 1" by (simp only: minus_mod_eq_div_mult [symmetric]) simp
  finally have le: "?x * 2 ^ nat count < 2 ^ 31" by simp
  have "reading \<rho> Int32 b = count" by (rule domain_constant_sound [OF c(1)])
  then have "sint (low32 (bv_value \<rho> b)) = count" by (simp add: reading_def)
  then have "unat (low32 (bv_value \<rho> b)) = nat count"
    using sint_uint_nonneg [of "low32 (bv_value \<rho> b)"] c(2) by (metis nat_uint_eq)
  then show ?thesis using le c(7) by (simp add: compare_value_def reading_def)
qed

lemma decide_divide_true:
  assumes s: "sound \<rho> \<nu> g"
    and v: "decide_divide_with I g int64 a b = Some v"
    and op: "op = (if int64 then Op_Bitvector64SignedDivideOverflows else Op_Bitvector32SignedDivideOverflows)"
  shows "cond_value \<rho> (Compare op a b) = v"
proof -
  let ?d = "if int64 then Int64 else Int32"
  let ?x = "reading \<rho> ?d a" let ?y = "reading \<rho> ?d b"
  obtain al ah bl bh where i: "I g ?d a = (al, ah)" "I g ?d b = (bl, bh)" by (metis prod.exhaust)
  have w: "al \<le> ?x" "bl \<le> ?y" "?y \<le> bh"
    using interval_true [OF s, of ?d a] interval_true [OF s, of ?d b] unfolding i by simp_all
  have e: "?y \<noteq> n" if "term_excludes g ?d b n" for n by (rule term_excludes_true [OF s that])
  have "al > fst (domain_range ?d) \<or> bl > - 1 \<or> bh < - 1 \<or> term_excludes g ?d b (- 1)"
    "int64 \<longrightarrow> bl > 0 \<or> bh < 0 \<or> term_excludes g ?d b 0" "\<not> v"
    using v unfolding decide_divide_with_def Let_def i prod.case by (auto split: if_splits)
  then have "?x \<noteq> fst (domain_range ?d) \<or> ?y \<noteq> - 1" "int64 \<longrightarrow> ?y \<noteq> 0" "\<not> v"
    using w e by force+
  then show ?thesis unfolding op by (cases int64) (auto simp: compare_value_def reading_def)
qed

lemma decide_equality_true:
  assumes s: "sound \<rho> \<nu> g" and v: "decide_equality_with I g domains a b = Some v"
  shows "\<exists>d \<in> set domains. (reading \<rho> d a = reading \<rho> d b) = v"
  using v
proof (induction domains)
  case (Cons d domains)
  have nodes: "(reading \<rho> d a = reading \<rho> d b) = w" if w: "equal_by_nodes g d a b = Some w" for w
  proof -
    obtain x y where r: "resolve g d a = Some x" "resolve g d b = Some y"
      using w by (auto simp: equal_by_nodes_def split: option.splits)
    have v: "affine_value \<nu> x = reading \<rho> d a" "affine_value \<nu> y = reading \<rho> d b"
      using resolve_true [OF s r(1)] resolve_true [OF s r(2)] by simp_all
    show ?thesis
      using w r v affine_differ_true [OF s, of x y] difference_bound_true [OF s r]
        difference_bound_true [OF s r(2,1)]
      by (auto simp: equal_by_nodes_def Let_def split: if_splits)
  qed
  have intervals: "(reading \<rho> d a = reading \<rho> d b) = w"
    if "equal_by_intervals (I g d a) (I g d b) = Some w" for w
    using that interval_true [OF s, of d a] interval_true [OF s, of d b]
    by (auto simp: equal_by_intervals_def within_def split: if_splits)
  show ?case
  proof (cases "equal_by_nodes g d a b")
    case (Some w)
    then show ?thesis using nodes Cons.prems by simp
  next
    case no_nodes: None
    show ?thesis
    proof (cases "equal_by_intervals (I g d a) (I g d b)")
      case (Some w)
      then show ?thesis using intervals no_nodes Cons.prems by simp
    next
      case None
      then show ?thesis using no_nodes Cons by simp
    qed
  qed
qed simp

lemma decide_by_bounds_true:
  assumes "x - y \<le> holds" "y - x \<le> fails" "decide_by_bounds holds fails strict = Some v"
  shows "(x + of_bool strict \<le> y) = v"
  using assms by (cases strict) (auto simp: decide_by_bounds_def split: if_splits)

lemma below_operand_true:
  assumes s: "sound \<rho> \<nu> g" and b: "below_operand g d lower upper strict"
  shows "reading \<rho> d lower + of_bool strict \<le> reading \<rho> d upper"
proof -
  have u: "0 \<le> reading \<rho> UInt64 t" for t
    using reading_in_domain [of UInt64 \<rho> t] by (simp add: in_domain_def)
  obtain op b' where l: "lower = Binary op upper b'" "d = UInt64"
    using b by (auto simp: below_operand_def split: bv.splits)
  show ?thesis
  proof (cases "op = Op_UInt64Subtract")
    case False
    then have "op = Op_UInt64Remainder" "\<not> strict" using b l by (auto simp: below_operand_def)
    moreover have "reading \<rho> UInt64 upper mod reading \<rho> UInt64 b' \<le> reading \<rho> UInt64 upper"
      using u by (intro zmod_le_nonneg_dividend)
    ultimately show ?thesis by (simp add: l reading_unsigned64)
  next
    case True
    then obtain x y where r: "resolve g d upper = Some x" "resolve g d b' = Some y"
      and le: "difference_bound g x y \<le> 0" "\<not> strict \<or> 1 \<le> fst (affine_interval g y)"
      using b l by (auto simp: below_operand_def split: option.splits)
    have le': "reading \<rho> UInt64 b' \<le> reading \<rho> UInt64 upper"
      using difference_bound_true [OF s r] le(1) l(2) by simp
    have "1 \<le> reading \<rho> UInt64 b'" if strict
      using resolve_interval [OF s r(2)] le(2) l(2) that by (simp add: within_def)
    moreover have "reading \<rho> UInt64 lower = reading \<rho> UInt64 upper - reading \<rho> UInt64 b'"
      using le' u [of b'] reading_in_domain [of UInt64 \<rho> upper] reading_difference_mod [of UInt64 op \<rho> upper b'] True l(1)
      by (intro reading_eqI) (auto simp: in_domain_def is_difference_def)
    ultimately show ?thesis using u [of b'] l(2) by (cases strict) simp_all
  qed
qed

lemma decide_order_true:
  assumes s: "sound \<rho> \<nu> g" and v: "decide_order_with I g d lower upper strict = Some v"
  shows "(reading \<rho> d lower + of_bool strict \<le> reading \<rho> d upper) = v"
proof (cases "below_operand g d lower upper strict")
  case True
  then show ?thesis using below_operand_true [OF s True] v by (simp add: decide_order_with_def)
next
  case False
  show ?thesis
  proof (cases "\<exists>x y. resolve g d lower = Some x \<and> resolve g d upper = Some y")
    case True
    then obtain x y where r: "resolve g d lower = Some x" "resolve g d upper = Some y" by blast
    have direct: "(reading \<rho> d lower + of_bool strict \<le> reading \<rho> d upper) = w"
      if w: "decide_direct g x y strict = Some w" for w
    proof -
      have "reading \<rho> d lower - reading \<rho> d upper \<le> n" if "direct_difference_bound g y x = Some n" for n
        by (rule direct_difference_bound_true [OF s r(2,1) that])
      moreover have "reading \<rho> d upper - reading \<rho> d lower \<le> n" if "direct_difference_bound g x y = Some n" for n
        by (rule direct_difference_bound_true [OF s r that])
      ultimately show ?thesis
        using w by (cases strict; force simp: decide_direct_def split: if_splits option.splits)
    qed
    show ?thesis
    proof (cases "decide_direct g x y strict")
      case (Some w)
      then show ?thesis using direct v False r by (simp add: decide_order_with_def)
    next
      case None
      then have "decide_by_bounds (difference_bound g y x) (difference_bound g x y) strict = Some v"
        using v False r by (simp add: decide_order_with_def)
      from decide_by_bounds_true [OF _ _ this] show ?thesis
        using difference_bound_true [OF s r(2,1)] difference_bound_true [OF s r] by blast
    qed
  next
    case unresolved: False
    obtain ll lh ul uh where i: "I g d lower = (ll, lh)" "I g d upper = (ul, uh)" by (metis prod.exhaust)
    then have "decide_by_bounds (lh - ul) (uh - ll) strict = Some v"
      using v False unresolved by (auto simp: decide_order_with_def split: option.splits)
    from decide_by_bounds_true [OF _ _ this] show ?thesis
      using interval_true [OF s, of d lower] interval_true [OF s, of d upper] i by simp
  qed
qed

lemma decide_comparison_true:
  assumes s: "sound \<rho> \<nu> g" and v: "decide_comparison_with I g op a b = Some v"
  shows "cond_value \<rho> (Compare op a b) = v"
proof (cases "overflow_operation op")
  case (Some p)
  then obtain d operation where "overflow_operation op = Some (d, operation)" by (cases p) simp
  then show ?thesis using decide_overflow_true [OF s] v by (simp add: decide_comparison_with_def)
next
  case no_overflow: None
  note eq = v [unfolded decide_comparison_with_def no_overflow option.case]
  show ?thesis
  proof (cases "equality_domains op")
    case (Some domains)
    then have no: "op \<noteq> Op_Bitvector32SignedShiftLeftOverflows"
      "op \<notin> {Op_Bitvector32SignedDivideOverflows, Op_Bitvector64SignedDivideOverflows}"
      by (auto simp: equality_domains_def)
    show ?thesis
    proof (cases "decide_equality_with I g domains a b")
      case (Some w)
      then obtain d where "d \<in> set domains" "(reading \<rho> d a = reading \<rho> d b) = w"
        using decide_equality_true [OF s] by blast
      then show ?thesis
        using equality_domains_sound [OF \<open>equality_domains op = Some domains\<close>, of d \<rho> a b] eq no Some
          \<open>equality_domains op = Some domains\<close> by simp
    next
      case None
      then have "op = Op_Bitvector64Equal" "residues_decide_equal (g_residues g) a b = Some v"
        using eq no Some by (auto split: if_splits)
      then show ?thesis
        using residues_decide_equal_sound [OF graph_trueD(11) [OF soundD(2) [OF s]], of a b v] by simp
    qed
  next
    case no_equality: None
    note eq = eq [unfolded no_equality option.case]
    show ?thesis
    proof (cases "op \<in> {Op_Bitvector32SignedShiftLeftOverflows, Op_Bitvector32SignedDivideOverflows,
        Op_Bitvector64SignedDivideOverflows}")
      case True
      then show ?thesis
        using eq decide_shift_true [OF s, of a b v] decide_divide_true [OF s, of False a b v, OF _ refl]
          decide_divide_true [OF s, of True a b v, OF _ refl] by auto
    next
      case False
      then obtain d lower upper strict where o: "condition_orders (Compare op a b) True = [(d, lower, upper, strict)]"
        and w: "decide_order_with I g d lower upper strict = Some v"
        using eq by (auto split: list.splits prod.splits)
      have order: "(reading \<rho> d lower + of_bool strict \<le> reading \<rho> d upper) = v"
        by (rule decide_order_true [OF s w])
      obtain swapped where "order_parts op = Some (d, swapped, strict)" "(lower, upper) = (if swapped then (b, a) else (a, b))"
        using o no_equality by (auto simp: condition_orders_def split: option.splits if_splits)
      from order_parts_sound [OF this(1), of \<rho> a b] this(2) order show ?thesis
        by (cases strict; cases swapped) auto
    qed
  qed
qed

lemma decide_stated_true:
  assumes s: "sound \<rho> \<nu> g" and v: "decide_stated_with I g c = Some v"
  shows "cond_value \<rho> c = v"
proof -
  have "\<not> g_contradictory g" using graph_trueD(1) [OF soundD(2) [OF s]] .
  note eq = v [unfolded decide_stated_with_def if_not_P [OF this]]
  show ?thesis
  proof (cases "recorded_no_overflow g c")
    case True
    then show ?thesis using recorded_no_overflow_true [OF s True] eq by simp
  next
    case False
    then obtain op a b where "c = Compare op a b" "decide_comparison_with I g op a b = Some v"
      using eq by (cases c) simp_all
    then show ?thesis using decide_comparison_true [OF s] by simp
  qed
qed

lemma decide_with_true:
  assumes s: "sound \<rho> \<nu> g" and v: "decide_with I D g c = Some v"
  shows "cond_value \<rho> c = v"
proof -
  note pointers = wf_graphD(12) [OF soundD(1) [OF s]] graph_trueD(12) [OF soundD(2) [OF s]]
  show ?thesis
  proof (cases c)
    case (PointerEqual a b)
    then show ?thesis using pc_decide_sound [OF pointers, of a b v] v by (simp add: decide_with_def)
  next
    case (PointerOffsetEqual a b)
    then have eq: "decide_offsets_with I D g a b = Some v" using v by (simp add: decide_with_def)
    show ?thesis
    proof (cases "offset_mismatch a b")
      case (Some w)
      then show ?thesis
        using offset_mismatch_sound [OF Some, of \<rho>] eq PointerOffsetEqual by (simp add: decide_offsets_with_def)
    next
      case no_mismatch: None
      show ?thesis
      proof (cases "pc_decide_offsets (g_pointers g) a b")
        case (Some w)
        then show ?thesis
          using pc_decide_offsets_sound [OF pointers Some] eq no_mismatch PointerOffsetEqual
          by (simp add: decide_offsets_with_def)
      next
        case no_pointers: None
        show ?thesis
        proof (cases "same_field_bases a b")
          case (Some p)
          then obtain x y where p: "same_field_bases a b = Some (x, y)" by (cases p) simp
          then have "D g (PointerOffsetEqual x y) = Some v"
            using eq no_mismatch no_pointers by (simp add: decide_offsets_with_def)
          from decision_true [OF s this] show ?thesis
            using same_field_bases_sound [OF p, of \<rho>] PointerOffsetEqual by simp
        next
          case no_field: None
          show ?thesis
          proof (cases "offset_equality (PointerOffsetEqual a b)")
            case (Some e)
            then have "D g e = Some v"
              using eq no_mismatch no_pointers no_field by (simp add: decide_offsets_with_def)
            from decision_true [OF s this] show ?thesis
              using offset_equality_sound [OF Some, of \<rho>] PointerOffsetEqual by simp
          next
            case None
            then have "decide_stated_with I g c = Some v"
              using eq no_mismatch no_pointers no_field PointerOffsetEqual by (simp add: decide_offsets_with_def)
            then show ?thesis by (rule decide_stated_true [OF s])
          qed
        qed
      qed
    qed
  qed (use v decide_stated_true [OF s, of c v] in \<open>simp_all add: decide_with_def\<close>)
qed

lemma answers_again: "answers (term_interval_with I D) (decide_with I D)"
  by unfold_locales (fact term_interval_with_true decide_with_true)+

end

lemma answers_at: "answers (interval_at k :: 'x reader) (decide_at k)"
proof (induction k)
  case 0
  have "(interval_at 0 :: 'x reader) = (\<lambda>g d t. domain_range d)" "(decide_at 0 :: 'x decider) = (\<lambda>g c. None)" by (simp_all add: fun_eq_iff)
  then show ?case by unfold_locales (simp_all add: within_domain reading_in_domain)
next
  case (Suc k)
  have "(interval_at (Suc k) :: 'x reader) = term_interval_with (interval_at k) (decide_at k)"
    "(decide_at (Suc k) :: 'x decider) = decide_with (interval_at k) (decide_at k)" by (simp_all add: fun_eq_iff)
  then show ?case using answers.answers_again [OF Suc.IH] by (simp only:)
qed

interpretation query: answers term_interval decide
proof
  show "within (reading \<rho> d t) (term_interval g d t)" if "sound \<rho> \<nu> g"
    for \<rho> \<nu> d and g :: "'a difference_graph" and t
    unfolding term_interval_def by (rule answers.interval_true [OF answers_at that])
  show "cond_value \<rho> c = v" if "sound \<rho> \<nu> g" "decide g c = Some v"
    for \<rho> \<nu> c v and g :: "'a difference_graph"
    using answers.decision_true [OF answers_at that(1)] that(2) unfolding decide_def by blast
qed

section \<open>Properties\<close>


text \<open>
  C10: The interval of a term holds the term's value, in every domain and whether or not
  the graph has ever seen the term, for every valuation the graph is true of. The interval
  never leaves the domain.
\<close>

theorem term_interval_holds:
  assumes "sound \<rho> \<nu> g"
  shows "fst (term_interval g d t) \<le> reading \<rho> d t \<and> reading \<rho> d t \<le> snd (term_interval g d t)"
  using query.interval_true [OF assms, of d t] by (simp add: within_def)

theorem term_interval_holds_witness:
  "reading zero_valuation Int32
     (Remainder (Variable (Variable_Of 0 Ordinary)) (Constant 10) :: nat bv) \<le> 9"
proof -
  let ?t = "Remainder (Variable (Variable_Of 0 Ordinary)) (Constant 10) :: nat bv"
  have "term_interval graph_new Int32 ?t = (- 9, 9)" by code_simp
  then show ?thesis using term_interval_holds [OF sound_new, where d = Int32 and t = ?t and \<rho> = zero_valuation] by simp
qed

text \<open>
  C4: Every decision is right: what a graph that is true of a valuation decides about a
  condition is the condition's value. This covers orders, equalities, the absence of each
  overflow, pointer and offset equalities, and conditions over terms that no fact mentioned.
\<close>

theorem decisions_are_true:
  assumes "sound \<rho> \<nu> g" and "decide g c = Some answer"
  shows "cond_value \<rho> c = answer"
  using query.decision_true [OF assms] .

theorem decisions_are_true_witness:
  "cond_value zero_valuation
     (Compare Op_Bitvector32SignedLessThan
        (Remainder (Variable (Variable_Of 0 Ordinary)) (Constant 10)) (Constant 11) :: nat cond)"
proof -
  let ?c = "Compare Op_Bitvector32SignedLessThan
    (Remainder (Variable (Variable_Of 0 Ordinary)) (Constant 10)) (Constant 11) :: nat cond"
  have "decide graph_new ?c = Some True" by code_simp
  then show ?thesis using decisions_are_true [OF sound_new, where c = ?c and \<rho> = zero_valuation] by simp
qed

end
