(* ===== verification/ContextGraph.thy ===== *)
theory ContextGraph
  imports DifferenceQueries
begin

text \<open>
  The difference graph of a fact context: \<^verbatim>\<open>ContextDifferenceGraph\<close> of
  \<^verbatim>\<open>src/src/kernel/difference_graph.rs\<close> and the two calls of
  \<^verbatim>\<open>src/src/kernel/assumptions.rs\<close> that keep it along with the context's
  facts. The graph is a shared cell that is written once
  (\<^verbatim>\<open>Arc<OnceLock<DifferenceGraph>>\<close>), and a copied context shares the
  cell, so the cells are an explicit store and a context holds the name of one.
\<close>

section \<open>Building a graph from facts\<close>

fun assume_all ::
  "'x block_registry \<Rightarrow> ('x bv \<Rightarrow> 'x bv \<Rightarrow> bool) \<Rightarrow> 'x difference_graph \<Rightarrow> ('x cond \<times> bool) list
   \<Rightarrow> 'x difference_graph" where
  "assume_all reg below g [] = g"
| "assume_all reg below g ((c, v) # facts) = assume_all reg below (assume_condition reg below g c v) facts"

definition build_graph ::
  "'x block_registry \<Rightarrow> ('x bv \<Rightarrow> 'x bv \<Rightarrow> bool) \<Rightarrow> ('x cond \<times> bool) list \<Rightarrow> 'x difference_graph" where
  "build_graph reg below facts = assume_all reg below graph_new facts"

section \<open>Shared cells\<close>

text \<open>
  \<open>cell_graph\<close> is what a cell holds: nothing before the first write, and a fresh cell is
  one that was never allocated.
\<close>

record 'x cells =
  cell_next :: nat
  cell_graph :: "nat \<Rightarrow> 'x difference_graph option"

definition new_cell :: "'x cells \<Rightarrow> 'x difference_graph option \<Rightarrow> nat \<times> 'x cells" where
  "new_cell s content =
     (cell_next s, s\<lparr>cell_next := Suc (cell_next s), cell_graph := (cell_graph s)(cell_next s := content)\<rparr>)"

definition context_default :: "'x cells \<Rightarrow> nat \<times> 'x cells" where
  "context_default s = new_cell s (Some graph_new)"

definition context_assume ::
  "'x block_registry \<Rightarrow> ('x bv \<Rightarrow> 'x bv \<Rightarrow> bool) \<Rightarrow> 'x cells \<Rightarrow> nat \<Rightarrow> 'x cond \<Rightarrow> bool \<Rightarrow> nat \<times> 'x cells" where
  "context_assume reg below s cell c value =
     (if \<not> expresses c then (cell, s)
      else
        (case cell_graph s cell of
           Some g \<Rightarrow> new_cell s (Some (assume_condition reg below g c value))
         | None \<Rightarrow> (cell, s)))"

definition context_withdraw :: "'x cells \<Rightarrow> nat \<Rightarrow> 'x cond \<Rightarrow> nat \<times> 'x cells" where
  "context_withdraw s cell c = (if expresses c then new_cell s None else (cell, s))"

definition context_reset :: "'x cells \<Rightarrow> nat \<times> 'x cells" where
  "context_reset s = context_default s"

definition context_built :: "'x cells \<Rightarrow> nat \<Rightarrow> 'x difference_graph option" where
  "context_built s cell = cell_graph s cell"

definition context_graph ::
  "'x block_registry \<Rightarrow> ('x bv \<Rightarrow> 'x bv \<Rightarrow> bool) \<Rightarrow> 'x cells \<Rightarrow> nat \<Rightarrow> ('x cond \<times> bool) list
   \<Rightarrow> 'x difference_graph \<times> 'x cells" where
  "context_graph reg below s cell facts =
     (case cell_graph s cell of
        Some g \<Rightarrow> (g, s)
      | None \<Rightarrow>
          (let g = build_graph reg below facts
           in (g, s\<lparr>cell_graph := (cell_graph s)(cell := Some g)\<rparr>)))"

section \<open>Contexts\<close>

text \<open>
  A context's condition facts and its cell. Contexts are copied, extended, weakened, asked
  and emptied. A fact that changes its value is withdrawn first, so an assumed condition is
  never one the context already has; the order in which a query lists the facts is left open.
\<close>

record 'x fact_context =
  facts :: "('x cond \<times> bool) list"
  cell :: nat

definition without_fact :: "('x cond \<times> bool) list \<Rightarrow> 'x cond \<Rightarrow> ('x cond \<times> bool) list" where
  "without_fact fs c = [f \<leftarrow> fs. fst f \<noteq> c]"

type_synonym 'x world = "(nat \<Rightarrow> 'x fact_context option) \<times> 'x cells"

definition moved :: "'x fact_context \<Rightarrow> ('x cond \<times> bool) list \<Rightarrow> nat \<times> 'x cells \<Rightarrow> 'x fact_context \<times> 'x cells" where
  "moved k fs r = (k\<lparr>facts := fs, cell := fst r\<rparr>, snd r)"

datatype 'x action =
    Fork nat nat
  | Assume nat "'x cond" bool
  | Withdraw nat "'x cond"
  | Ask nat
  | Restart nat

inductive act ::
  "'x block_registry \<Rightarrow> ('x bv \<Rightarrow> 'x bv \<Rightarrow> bool) \<Rightarrow> 'x world \<Rightarrow> 'x action \<Rightarrow> 'x world \<Rightarrow> bool"
  for reg below where
  forked: "contexts i = Some k \<Longrightarrow> act reg below (contexts, s) (Fork i j) (contexts(j \<mapsto> k), s)"
| assumed: "contexts i = Some k \<Longrightarrow> c \<notin> fst ` set (facts k) \<Longrightarrow>
    moved k ((c, value) # facts k) (context_assume reg below s (cell k) c value) = (k', s') \<Longrightarrow>
    act reg below (contexts, s) (Assume i c value) (contexts(i \<mapsto> k'), s')"
| withdrawn: "contexts i = Some k \<Longrightarrow>
    moved k (without_fact (facts k) c) (context_withdraw s (cell k) c) = (k', s') \<Longrightarrow>
    act reg below (contexts, s) (Withdraw i c) (contexts(i \<mapsto> k'), s')"
| asked: "contexts i = Some k \<Longrightarrow> set listed = set (facts k) \<Longrightarrow>
    context_graph reg below s (cell k) listed = (g, s') \<Longrightarrow>
    act reg below (contexts, s) (Ask i) (contexts, s')"
| restarted: "contexts i = Some k \<Longrightarrow> moved k [] (context_reset s) = (k', s') \<Longrightarrow>
    act reg below (contexts, s) (Restart i) (contexts(i \<mapsto> k'), s')"

inductive_cases act_cases: "act reg below (contexts, s) a w"

text \<open>One context, with no facts.\<close>

definition first_world :: "'x world" where
  "first_world = (let (n, s) = context_default \<lparr>cell_next = 0, cell_graph = Map.empty\<rparr>
                  in ([0 \<mapsto> \<lparr>facts = [], cell = n\<rparr>], s))"

text \<open>
  An action is \<open>exclusive\<close> when it does not assume a fact in a context whose empty cell
  another context holds too. The source does not ask this.
\<close>

definition exclusive :: "'x world \<Rightarrow> 'x action \<Rightarrow> bool" where
  "exclusive w a \<longleftrightarrow>
     (case a of
        Assume i c _ \<Rightarrow>
          expresses c \<longrightarrow>
          (case fst w i of
             None \<Rightarrow> True
           | Some k \<Rightarrow>
               cell_graph (snd w) (cell k) = None \<longrightarrow>
               (\<forall>j k'. j \<noteq> i \<longrightarrow> fst w j = Some k' \<longrightarrow> cell k' \<noteq> cell k))
      | _ \<Rightarrow> True)"

inductive reached ::
  "'x block_registry \<Rightarrow> ('x bv \<Rightarrow> 'x bv \<Rightarrow> bool) \<Rightarrow> ('x world \<Rightarrow> 'x action \<Rightarrow> bool) \<Rightarrow> 'x world \<Rightarrow> bool"
  for reg below allowed where
  start: "reached reg below allowed first_world"
| step: "reached reg below allowed w \<Longrightarrow> allowed w a \<Longrightarrow> act reg below w a w' \<Longrightarrow> reached reg below allowed w'"

section \<open>What a context's graph knows\<close>

text \<open>A condition the graph reads nothing from leaves it as it is.\<close>

lemma unexpressed_records_nothing:
  assumes "\<not> expresses c"
  shows "assume_condition reg below g c value = g"
proof -
  have no: "overflow_parts c = None" "offset_equality c = None" using assms unfolding expresses_def by blast+
  have "\<not> (\<exists>a b. c = PointerValueEqual a b)" "\<not> (\<exists>a b. c = PointerEqual a b)"
    using assms by (auto simp: expresses_def)
  note step = assume_condition_other [OF this, of reg below g "value"]
  have orders: "equality_sides c = None \<and> condition_orders c value = [] \<and> (\<forall>a b. c \<noteq> Bitvector64Equal a b)"
  proof (cases "\<exists>op a b. c = Compare op a b")
    case True
    then obtain op a b where c: "c = Compare op a b" by blast
    then have "order_parts op = None \<and> equality_domains op = None"
      using assms by (cases "order_parts op"; cases "equality_domains op") (simp_all add: expresses_def)
    then show ?thesis by (auto simp: c equality_sides_def condition_orders_def equality_domains_def)
  next
    case False
    then show ?thesis by (cases c) (simp_all add: equality_sides_def condition_orders_def)
  qed
  then have "assume_residues below g c value = g"
    by (auto simp: assume_residues_def split: cond.split comparison.split)
  then show ?thesis
    unfolding step using orders no by (cases "value") (simp_all add: assume_stated_def)
qed

definition stated :: "('x cond \<times> bool) list \<Rightarrow> ('x cond \<times> bool) set" where
  "stated fs = {f \<in> set fs. expresses (fst f)}"

definition stated_true :: "'x valuation \<Rightarrow> ('x cond \<times> bool) list \<Rightarrow> bool" where
  "stated_true \<rho> fs \<longleftrightarrow> (\<forall>(c, value) \<in> stated fs. cond_value \<rho> c = value \<and> safe_fact c)"

definition graph_of :: "('x cond \<times> bool) list \<Rightarrow> 'x difference_graph \<Rightarrow> bool" where
  "graph_of fs g \<longleftrightarrow> (\<forall>\<rho>. stated_true \<rho> fs \<longrightarrow> (\<exists>\<nu>. sound \<rho> \<nu> g))"

lemma stated_Cons: "stated ((c, value) # fs) = (if expresses c then insert (c, value) (stated fs) else stated fs)"
  by (auto simp: stated_def)

lemma stated_true_mono: "stated fs \<subseteq> stated fs' \<Longrightarrow> stated_true \<rho> fs' \<Longrightarrow> stated_true \<rho> fs"
  by (auto simp: stated_true_def)

lemma graph_of_mono: "stated fs \<subseteq> stated fs' \<Longrightarrow> graph_of fs g \<Longrightarrow> graph_of fs' g"
  using stated_true_mono unfolding graph_of_def by blast

lemma graph_of_new: "graph_of fs graph_new"
  unfolding graph_of_def using sound_new by blast

lemma graph_of_assume:
  assumes "graph_of fs g" "expresses c"
  shows "graph_of ((c, value) # fs) (assume_condition reg below g c value)"
  unfolding graph_of_def
proof (intro allI impI)
  fix \<rho> assume t: "stated_true \<rho> ((c, value) # fs)"
  then have "stated_true \<rho> fs" by (rule stated_true_mono [rotated]) (auto simp: stated_Cons)
  then obtain \<nu> where "sound \<rho> \<nu> g" using assms(1) unfolding graph_of_def by blast
  moreover have "cond_value \<rho> c = value" "safe_fact c"
    using t assms(2) by (simp_all add: stated_true_def stated_Cons)
  ultimately show "\<exists>\<nu>. sound \<rho> \<nu> (assume_condition reg below g c value)"
    using assume_condition_true unfolding stage_true_def by blast
qed

lemma assume_all_true:
  assumes "stated_true \<rho> fs" "sound \<rho> \<nu> g"
  shows "\<exists>\<nu>'. sound \<rho> \<nu>' (assume_all reg below g fs)"
  using assms
proof (induction fs arbitrary: g \<nu>)
  case (Cons f fs)
  obtain c v where f: "f = (c, v)" by (rule prod.exhaust)
  have fs: "stated_true \<rho> fs"
    using Cons.prems(1) by (rule stated_true_mono [rotated]) (auto simp: f stated_Cons)
  show ?case
  proof (cases "expresses c")
    case True
    then have "cond_value \<rho> c = v" "safe_fact c"
      using Cons.prems(1) by (simp_all add: f stated_true_def stated_Cons)
    then obtain \<nu>' where "sound \<rho> \<nu>' (assume_condition reg below g c v)"
      using assume_condition_true [OF Cons.prems(2)] unfolding stage_true_def by blast
    from Cons.IH [OF fs this] show ?thesis by (simp add: f)
  next
    case False
    then show ?thesis using Cons.IH [OF fs Cons.prems(2)] by (simp add: f unexpressed_records_nothing)
  qed
qed auto

lemma graph_of_build:
  assumes "stated listed = stated fs"
  shows "graph_of fs (build_graph reg below listed)"
  unfolding graph_of_def build_graph_def
proof (intro allI impI)
  fix \<rho> assume "stated_true \<rho> fs"
  then have "stated_true \<rho> listed" using assms by (simp add: stated_true_def)
  then show "\<exists>\<nu>. sound \<rho> \<nu> (assume_all reg below graph_new listed)"
    using sound_new by (rule assume_all_true)
qed

section \<open>The invariant of a disciplined run\<close>

text \<open>
  Every built graph knows no more than the facts of each context that holds its cell, and
  contexts that share an empty cell state the same facts.
\<close>

definition world_ok :: "'x world \<Rightarrow> bool" where
  "world_ok w \<longleftrightarrow>
     (\<forall>i k. fst w i = Some k \<longrightarrow> cell k < cell_next (snd w)
        \<and> (\<forall>g. cell_graph (snd w) (cell k) = Some g \<longrightarrow> graph_of (facts k) g))
     \<and> (\<forall>i j k k'. fst w i = Some k \<longrightarrow> fst w j = Some k' \<longrightarrow> cell k = cell k' \<longrightarrow>
          cell_graph (snd w) (cell k) = None \<longrightarrow> stated (facts k) = stated (facts k'))"

lemma world_okD:
  assumes "world_ok w" "fst w i = Some k"
  shows "cell k < cell_next (snd w)" "cell_graph (snd w) (cell k) = Some g \<Longrightarrow> graph_of (facts k) g"
    and "fst w j = Some k' \<Longrightarrow> cell k = cell k' \<Longrightarrow> cell_graph (snd w) (cell k) = None \<Longrightarrow>
      stated (facts k) = stated (facts k')"
  using assms unfolding world_ok_def by blast+

lemma world_okI:
  assumes "\<And>i k. fst w i = Some k \<Longrightarrow> cell k < cell_next (snd w)"
    and "\<And>i k g. fst w i = Some k \<Longrightarrow> cell_graph (snd w) (cell k) = Some g \<Longrightarrow> graph_of (facts k) g"
    and "\<And>i j k k'. fst w i = Some k \<Longrightarrow> fst w j = Some k' \<Longrightarrow> cell k = cell k' \<Longrightarrow>
      cell_graph (snd w) (cell k) = None \<Longrightarrow> stated (facts k) = stated (facts k')"
  shows "world_ok w"
  using assms unfolding world_ok_def by blast

text \<open>Moving one context to a new cell.\<close>

lemma world_ok_new_cell:
  assumes ok: "world_ok (contexts, s)" and n: "new_cell s content = (n, s')"
    and g: "\<And>g. content = Some g \<Longrightarrow> graph_of fs g"
  shows "world_ok (contexts(i \<mapsto> \<lparr>facts = fs, cell = n\<rparr>), s')"
proof (rule world_okI)
  have s': "n = cell_next s" "cell_next s' = Suc n" "cell_graph s' = (cell_graph s)(n := content)"
    using n by (auto simp: new_cell_def)
  have old: "cell k < n \<and> contexts j = Some k" if "(contexts(i \<mapsto> \<lparr>facts = fs, cell = n\<rparr>)) j = Some k" "j \<noteq> i" for j k
    using that world_okD(1) [OF ok, of j k] by (simp add: s'(1))
  have new: "k = \<lparr>facts = fs, cell = n\<rparr>" if "(contexts(i \<mapsto> \<lparr>facts = fs, cell = n\<rparr>)) i = Some k" for k
    using that by simp
  let ?w = "(contexts(i \<mapsto> \<lparr>facts = fs, cell = n\<rparr>), s')"
  show "cell k < cell_next (snd ?w)" if "fst ?w j = Some k" for j k
    using that old [of j k] new [of k] s'(2) by (cases "j = i") auto
  show "graph_of (facts k) h" if "fst ?w j = Some k" "cell_graph (snd ?w) (cell k) = Some h" for j k h
  proof (cases "j = i")
    case True
    then have k: "k = \<lparr>facts = fs, cell = n\<rparr>" using that(1) new [of k] by simp
    show ?thesis using that(2) s'(3) g unfolding k by simp
  next
    case False
    then have "cell k < n" "contexts j = Some k" using that(1) old [of j k] by simp_all
    then show ?thesis using that(2) s'(3) world_okD(2) [OF ok, of j k h] by simp
  qed
  show "stated (facts k) = stated (facts k')"
    if "fst ?w j = Some k" "fst ?w j' = Some k'" "cell k = cell k'" "cell_graph (snd ?w) (cell k) = None" for j j' k k'
  proof (cases "j = i"; cases "j' = i")
    assume "j \<noteq> i" "j' \<noteq> i"
    then have "cell k < n" "contexts j = Some k" "contexts j' = Some k'"
      using that(1,2) old [of j k] old [of j' k'] by simp_all
    then show ?thesis using that(3,4) s'(3) world_okD(3) [OF ok, of j k j' k'] by simp
  qed (use that old [of j k] old [of j' k'] new [of k] new [of k'] in auto)
qed

text \<open>Changing one context's facts in place.\<close>

lemma world_ok_facts:
  assumes ok: "world_ok (contexts, s)" and k: "contexts i = Some k"
    and g: "\<And>g. cell_graph s (cell k) = Some g \<Longrightarrow> graph_of fs g"
    and same: "cell_graph s (cell k) = None \<Longrightarrow> stated fs \<noteq> stated (facts k) \<Longrightarrow>
      \<forall>j k'. j \<noteq> i \<longrightarrow> contexts j = Some k' \<longrightarrow> cell k' \<noteq> cell k"
  shows "world_ok (contexts(i \<mapsto> \<lparr>facts = fs, cell = cell k\<rparr>), s)"
proof (rule world_okI)
  let ?n = "\<lparr>facts = fs, cell = cell k\<rparr>" let ?w = "(contexts(i \<mapsto> ?n), s)"
  show "cell l < cell_next (snd ?w)" if "fst ?w j = Some l" for j l
    using that world_okD(1) [OF ok, of i k] world_okD(1) [OF ok, of j l] k by (auto split: if_splits)
  show "graph_of (facts l) h" if "fst ?w j = Some l" "cell_graph (snd ?w) (cell l) = Some h" for j l h
    using that world_okD(2) [OF ok, of j l h] g by (auto split: if_splits)
  show "stated (facts l) = stated (facts l')"
    if "fst ?w j = Some l" "fst ?w j' = Some l'" "cell l = cell l'" "cell_graph (snd ?w) (cell l) = None" for j j' l l'
  proof (cases "j = i"; cases "j' = i")
    assume *: "j = i" "j' \<noteq> i"
    then have l: "l = ?n" "contexts j' = Some l'" using that(1,2) by auto
    then have "stated fs = stated (facts k)" using same that(3,4) * by fastforce
    then show ?thesis using world_okD(3) [OF ok, of i k j' l'] k l that(3,4) by simp
  next
    assume *: "j \<noteq> i" "j' = i"
    then have l: "l' = ?n" "contexts j = Some l" using that(1,2) by auto
    then have "stated fs = stated (facts k)" using same that(3,4) * by fastforce
    then show ?thesis using world_okD(3) [OF ok, of j l i k] k l that(3,4) by simp
  next
    assume "j \<noteq> i" "j' \<noteq> i"
    then show ?thesis using that world_okD(3) [OF ok, of j l j' l'] by simp
  qed (use that in auto)
qed

text \<open>Each action keeps the invariant.\<close>

lemma moved_eq: "moved k fs r = (k', s') \<longleftrightarrow> k' = k\<lparr>facts := fs, cell := fst r\<rparr> \<and> s' = snd r"
  by (auto simp: moved_def)

lemma context_shape: "k\<lparr>facts := fs, cell := n\<rparr> = \<lparr>facts = fs, cell = n\<rparr>" for k :: "'x fact_context"
  by (cases k) simp

lemma world_ok_fork:
  assumes ok: "world_ok (contexts, s)" and k: "contexts i = Some k"
  shows "world_ok (contexts(j \<mapsto> k), s)"
proof -
  have old: "\<exists>i'. fst (contexts, s) i' = Some l" if "fst (contexts(j \<mapsto> k), s) m = Some l" for m l
    using that k by (auto split: if_splits)
  show ?thesis
  proof (rule world_okI)
    fix m l assume l: "fst (contexts(j \<mapsto> k), s) m = Some l"
    then obtain i' where i': "fst (contexts, s) i' = Some l" using old by blast
    show "cell l < cell_next (snd (contexts(j \<mapsto> k), s))" using world_okD(1) [OF ok i'] by simp
    show "graph_of (facts l) h" if "cell_graph (snd (contexts(j \<mapsto> k), s)) (cell l) = Some h" for h
      using world_okD(2) [OF ok i'] that by simp
    show "stated (facts l) = stated (facts l')"
      if l': "fst (contexts(j \<mapsto> k), s) m' = Some l'" and same: "cell l = cell l'"
        and e: "cell_graph (snd (contexts(j \<mapsto> k), s)) (cell l) = None" for m' l'
    proof -
      obtain j' where "fst (contexts, s) j' = Some l'" using old l' by blast
      then show ?thesis using world_okD(3) [OF ok i' _ same] e by simp
    qed
  qed
qed

lemma world_ok_assume:
  assumes ok: "world_ok (contexts, s)" and k: "contexts i = Some k" and ex: "exclusive (contexts, s) (Assume i c value)"
    and m: "moved k ((c, value) # facts k) (context_assume reg below s (cell k) c value) = (k', s')"
  shows "world_ok (contexts(i \<mapsto> k'), s')"
proof -
  let ?fs = "(c, value) # facts k"
  have more: "stated (facts k) \<subseteq> stated ?fs" by (auto simp: stated_Cons)
  consider (unread) "\<not> expresses c" | (empty) "expresses c" "cell_graph s (cell k) = None"
    | (built) g where "expresses c" "cell_graph s (cell k) = Some g" by fastforce
  then show ?thesis
  proof cases
    case unread
    then have e: "k' = \<lparr>facts = ?fs, cell = cell k\<rparr>" "s' = s"
      using m by (simp_all add: moved_eq context_assume_def context_shape)
    show ?thesis
      unfolding e
      by (rule world_ok_facts [OF ok k]) (use unread graph_of_mono [OF more] world_okD(2) [OF ok, of i k] k in \<open>auto simp: stated_Cons\<close>)
  next
    case empty
    then have e: "k' = \<lparr>facts = ?fs, cell = cell k\<rparr>" "s' = s"
      using m by (simp_all add: moved_eq context_assume_def context_shape)
    show ?thesis
      unfolding e by (rule world_ok_facts [OF ok k]) (use ex empty k in \<open>auto simp: exclusive_def\<close>)
  next
    case (built g)
    let ?content = "Some (assume_condition reg below g c value)"
    obtain n s'' where n: "new_cell s ?content = (n, s'')" by (rule prod.exhaust)
    have "graph_of (facts k) g" using world_okD(2) [OF ok, of i k g] k built(2) by simp
    then have "graph_of ?fs (assume_condition reg below g c value)" by (rule graph_of_assume) (rule built(1))
    then show ?thesis
      using world_ok_new_cell [OF ok n, of ?fs i] m built n
      by (simp add: moved_eq context_assume_def context_shape)
  qed
qed

lemma world_ok_withdraw:
  assumes ok: "world_ok (contexts, s)" and k: "contexts i = Some k"
    and m: "moved k (without_fact (facts k) c) (context_withdraw s (cell k) c) = (k', s')"
  shows "world_ok (contexts(i \<mapsto> k'), s')"
proof (cases "expresses c")
  case True
  obtain n s'' where n: "new_cell s None = (n, s'')" by (rule prod.exhaust)
  show ?thesis
    using world_ok_new_cell [OF ok n, of "without_fact (facts k) c" i] m True n
    by (simp add: moved_eq context_withdraw_def context_shape)
next
  case False
  then have same: "stated (without_fact (facts k) c) = stated (facts k)"
    by (auto simp: stated_def without_fact_def)
  have e: "k' = \<lparr>facts = without_fact (facts k) c, cell = cell k\<rparr>" "s' = s"
    using m False by (simp_all add: moved_eq context_withdraw_def context_shape)
  show ?thesis
    unfolding e
  proof (rule world_ok_facts [OF ok k])
    show "graph_of (without_fact (facts k) c) g" if "cell_graph s (cell k) = Some g" for g
      using graph_of_mono [OF equalityD2 [OF same]] world_okD(2) [OF ok, of i k g] k that by simp
  qed (use same in simp)
qed

lemma world_ok_ask:
  assumes ok: "world_ok (contexts, s)" and k: "contexts i = Some k" and fs: "set listed = set (facts k)"
    and a: "context_graph reg below s (cell k) listed = (g, s')"
  shows "world_ok (contexts, s')"
proof (cases "cell_graph s (cell k)")
  case (Some h)
  then show ?thesis using a ok by (simp add: context_graph_def)
next
  case None
  let ?g = "build_graph reg below listed"
  have s': "cell_next s' = cell_next s" "cell_graph s' = (cell_graph s)(cell k := Some ?g)"
    using a None by (auto simp: context_graph_def Let_def)
  have listed: "stated listed = stated (facts k)" using fs by (simp add: stated_def)
  show ?thesis
  proof (rule world_okI)
    show "cell l < cell_next (snd (contexts, s'))" if "fst (contexts, s') j = Some l" for j l
      using that world_okD(1) [OF ok, of j l] s' by simp
    show "graph_of (facts l) h" if l: "fst (contexts, s') j = Some l" and h: "cell_graph (snd (contexts, s')) (cell l) = Some h" for j l h
    proof (cases "cell l = cell k")
      case True
      then have "stated (facts l) = stated (facts k)"
        using world_okD(3) [OF ok, of i k j l] k l None by simp
      then show ?thesis using graph_of_build [of listed "facts l"] listed h True s'(2) by auto
    next
      case False
      then show ?thesis using world_okD(2) [OF ok, of j l h] l h s'(2) by simp
    qed
    show "stated (facts l) = stated (facts l')"
      if "fst (contexts, s') j = Some l" "fst (contexts, s') j' = Some l'" "cell l = cell l'"
        "cell_graph (snd (contexts, s')) (cell l) = None" for j j' l l'
      using that world_okD(3) [OF ok, of j l j' l'] s'(2) by (auto split: if_splits)
  qed
qed

lemma world_ok_act:
  assumes "world_ok w" "exclusive w a" "act reg below w a w'"
  shows "world_ok w'"
  using assms(3,1,2)
proof (cases rule: act.cases)
  case (forked contexts i k s j)
  then show ?thesis using assms(1) world_ok_fork by simp
next
  case (assumed contexts i k c v s k' s')
  then show ?thesis using assms(1,2) world_ok_assume [of contexts s i k c v reg below k' s'] by simp
next
  case (withdrawn contexts i k c s k' s')
  then show ?thesis using assms(1) world_ok_withdraw [of contexts s i k c k' s'] by simp
next
  case (asked contexts i k listed s g s')
  then show ?thesis using assms(1) world_ok_ask [of contexts s i k listed reg below g s'] by simp
next
  case (restarted contexts i k s k' s')
  obtain n s'' where n: "new_cell s (Some graph_new) = (n, s'')" by (rule prod.exhaust)
  show ?thesis
    using world_ok_new_cell [OF _ n, of contexts "[]" i] restarted assms(1) n graph_of_new [of "[]"]
    by (simp add: moved_eq context_reset_def context_default_def context_shape)
qed

lemma world_ok_first: "world_ok first_world"
  by (rule world_okI) (auto simp: first_world_def context_default_def new_cell_def graph_of_new split: if_splits)

lemma world_ok_reached: "reached reg below exclusive w \<Longrightarrow> world_ok w"
  by (induction rule: reached.induct) (simp_all add: world_ok_first world_ok_act)

section \<open>Properties\<close>

text \<open>
  C11: While no fact is assumed in a context whose cleared graph another context still
  shares, whatever was copied, assumed, withdrawn, rebuilt or emptied before, the graph
  that a context finds built answers only what follows from that context's own facts, as
  long as each of these is \<open>safe_fact\<close>: no term of it passes through a conversion that
  keeps only non-negative values, of an operand with a negative constant offset or a flipped
  sign bit (\<open>conversion_of_difference_lost\<close> shows the offset wrong).
\<close>

theorem built_graph_knows_its_context:
  assumes "reached reg below exclusive (contexts, s)" and "contexts i = Some k"
    and "context_built s (cell k) = Some g" and "decide g c = Some answer"
    and "\<forall>(f, value) \<in> set (facts k). cond_value \<rho> f = value \<and> safe_fact f"
  shows "cond_value \<rho> c = answer"
proof -
  have "graph_of (facts k) g"
    using world_okD(2) [OF world_ok_reached [OF assms(1)], of i k g] assms(2,3) by (simp add: context_built_def)
  moreover have "stated_true \<rho> (facts k)" using assms(5) by (auto simp: stated_true_def stated_def)
  ultimately obtain \<nu> where "sound \<rho> \<nu> g" unfolding graph_of_def by blast
  then show ?thesis using query.decision_true assms(4) by blast
qed

text \<open>
  What the other contexts do: every action that does not replace context \<open>i\<close>, change its
  facts or empty it. Asking is among them, context \<open>i\<close> itself included.
\<close>

definition spares :: "nat \<Rightarrow> 'x action \<Rightarrow> bool" where
  "spares i a \<longleftrightarrow>
     (case a of Fork _ j \<Rightarrow> j \<noteq> i | Assume j _ _ \<Rightarrow> j \<noteq> i | Withdraw j _ \<Rightarrow> j \<noteq> i | Restart j \<Rightarrow> j \<noteq> i
      | Ask _ \<Rightarrow> True)"

inductive undisturbed ::
  "'x block_registry \<Rightarrow> ('x bv \<Rightarrow> 'x bv \<Rightarrow> bool) \<Rightarrow> nat \<Rightarrow> 'x world \<Rightarrow> 'x world \<Rightarrow> bool"
  for reg below i where
  quiet: "undisturbed reg below i w w"
| elsewhere: "undisturbed reg below i w w' \<Longrightarrow> spares i a \<Longrightarrow> act reg below w' a w'' \<Longrightarrow>
    undisturbed reg below i w w''"

text \<open>
  A cell is written where it is empty or where it was never allocated, and every context's
  cell is allocated, whatever order the actions come in.
\<close>

definition cells_allocated :: "'x world \<Rightarrow> bool" where
  "cells_allocated w \<longleftrightarrow> (\<forall>i k. fst w i = Some k \<longrightarrow> cell k < cell_next (snd w))"

lemma cell_steps:
  "new_cell s content = (n, s') \<Longrightarrow> n = cell_next s \<and> cell_next s' = Suc n \<and> cell_graph s' = (cell_graph s)(n := content)"
  "context_graph reg below s n fs = (g, s') \<Longrightarrow> cell_next s' = cell_next s
    \<and> cell_graph s' = (case cell_graph s n of Some _ \<Rightarrow> cell_graph s | None \<Rightarrow> (cell_graph s)(n \<mapsto> build_graph reg below fs))"
  by (auto simp: new_cell_def context_graph_def Let_def split: option.splits)

text \<open>What an action does to the store: nothing, a new cell, or the first write of a cell.\<close>

lemma act_store:
  assumes "act reg below w a w'"
  shows "snd w' = snd w
    \<or> (\<exists>n content. new_cell (snd w) content = (n, snd w'))
    \<or> (\<exists>n fs g. context_graph reg below (snd w) n fs = (g, snd w'))"
  using assms
proof (cases rule: act.cases)
  case (assumed contexts i k c v s k' s')
  then show ?thesis by (auto simp: moved_eq context_assume_def split: option.splits if_splits) (metis prod.collapse)
next
  case (withdrawn contexts i k c s k' s')
  then show ?thesis by (auto simp: moved_eq context_withdraw_def split: if_splits) (metis prod.collapse)
next
  case (restarted contexts i k s k' s')
  then show ?thesis by (auto simp: moved_eq context_reset_def context_default_def) (metis prod.collapse)
qed auto

lemma act_keeps_graph:
  assumes "act reg below w a w'" "n < cell_next (snd w)" "cell_graph (snd w) n = Some g"
  shows "n < cell_next (snd w')" "cell_graph (snd w') n = Some g"
  using act_store [OF assms(1)] assms(2,3) by (auto dest!: cell_steps split: option.splits)

lemma act_grows: "act reg below w a w' \<Longrightarrow> cell_next (snd w) \<le> cell_next (snd w')"
  using act_store [of reg below w a w'] by (auto dest!: cell_steps)

lemma undisturbed_context:
  assumes "undisturbed reg below i w w'" "fst w i = Some k" "cell k < cell_next (snd w)"
    "cell_graph (snd w) (cell k) = Some g"
  shows "fst w' i = Some k \<and> cell k < cell_next (snd w') \<and> cell_graph (snd w') (cell k) = Some g"
  using assms
proof (induction rule: undisturbed.induct)
  case (elsewhere w w' a w'')
  then have now: "fst w' i = Some k" "cell k < cell_next (snd w')" "cell_graph (snd w') (cell k) = Some g"
    by simp_all
  have "fst w'' i = Some k"
    using elsewhere.hyps(3,2) now(1) by (cases rule: act.cases) (auto simp: spares_def)
  then show ?case using act_keeps_graph [OF elsewhere.hyps(3) now(2,3)] by simp
qed simp

lemma cells_allocated_act:
  assumes "cells_allocated w" "act reg below w a w'"
  shows "cells_allocated w'"
proof -
  have old: "cell k < cell_next (snd w')" if "fst w j = Some k" for j k
    using assms(1) act_grows [OF assms(2)] that by (auto simp: cells_allocated_def intro: less_le_trans)
  have new: "fst w j = Some k \<or> (\<exists>j' l. fst w j' = Some l \<and> cell k = cell l) \<or> cell k < cell_next (snd w')"
    if "fst w' j = Some k" for j k
    using assms(2) that
    by (cases rule: act.cases)
      (auto simp: moved_eq context_assume_def context_withdraw_def context_reset_def context_default_def new_cell_def
        split: if_splits option.splits, blast+)
  show ?thesis unfolding cells_allocated_def using old new by metis
qed

lemma cells_allocated_reached: "reached reg below allowed w \<Longrightarrow> cells_allocated w"
proof (induction rule: reached.induct)
  case start
  show ?case
    by (auto simp: cells_allocated_def first_world_def context_default_def new_cell_def split: if_splits)
qed (rule cells_allocated_act)

lemma assume_all_foldl:
  "assume_all reg below g fs = foldl (\<lambda>g (c, v). assume_condition reg below g c v) g fs"
  by (induction fs arbitrary: g) auto

text \<open>
  C39: In every world the actions reach, in any order and with any sharing of cells, a
  context can be asked, and the graph it then has is its graph for good: whatever the other
  contexts assume, withdraw, copy, ask or empty afterwards, and however often it is asked
  again, as long as its own facts stay. That graph is the one that was built before, or, where
  the cell was empty, the new graph to which exactly the context's own facts were assumed one
  after the other, as the question listed them.
\<close>

theorem asked_graph_stays:
  assumes "reached reg below allowed (contexts, s)" and "contexts i = Some k"
  shows "(\<exists>w. act reg below (contexts, s) (Ask i) w)
    \<and> (\<forall>w w'. act reg below (contexts, s) (Ask i) w \<longrightarrow> undisturbed reg below i w w' \<longrightarrow>
         fst w' i = Some k
         \<and> (\<exists>g. context_built (snd w) (cell k) = Some g \<and> context_built (snd w') (cell k) = Some g
              \<and> (case context_built s (cell k) of
                    Some h \<Rightarrow> g = h
                  | None \<Rightarrow> \<exists>listed. set listed = set (facts k)
                      \<and> g = foldl (\<lambda>g (c, v). assume_condition reg below g c v) graph_new listed)))"
proof (intro conjI allI impI)
  show "\<exists>w. act reg below (contexts, s) (Ask i) w"
    using act.asked [of contexts i k "facts k" reg below s] assms(2) by (metis prod.collapse)
next
  fix w w' assume ask: "act reg below (contexts, s) (Ask i) w" and rest: "undisturbed reg below i w w'"
  from ask assms(2) obtain listed g s' where listed: "set listed = set (facts k)"
    and w: "context_graph reg below s (cell k) listed = (g, s')" "w = (contexts, s')"
    by (auto elim: act_cases)
  have g: "cell_graph s' (cell k) = Some g" "cell_next s' = cell_next s"
    using w(1) by (auto simp: context_graph_def Let_def split: option.splits)
  have "cell k < cell_next s"
    using cells_allocated_reached [OF assms(1)] assms(2) by (auto simp: cells_allocated_def)
  then have kept: "fst w' i = Some k" "cell_graph (snd w') (cell k) = Some g"
    using undisturbed_context [OF rest, of k g] g assms(2) by (simp_all add: w(2))
  have "case context_built s (cell k) of Some h \<Rightarrow> g = h
      | None \<Rightarrow> \<exists>listed. set listed = set (facts k)
          \<and> g = foldl (\<lambda>g (c, v). assume_condition reg below g c v) graph_new listed"
    using w(1) listed
    by (auto simp: context_graph_def context_built_def build_graph_def assume_all_foldl Let_def split: option.splits)
  then show "fst w' i = Some k"
    "\<exists>g. context_built (snd w) (cell k) = Some g \<and> context_built (snd w') (cell k) = Some g
       \<and> (case context_built s (cell k) of Some h \<Rightarrow> g = h
          | None \<Rightarrow> \<exists>listed. set listed = set (facts k)
              \<and> g = foldl (\<lambda>g (c, v). assume_condition reg below g c v) graph_new listed)"
    using kept g(1) by (auto simp: w(2) context_built_def)
qed



lemma build_graph_true:
  assumes "\<forall>(f, value) \<in> set fs. cond_value \<rho> f = value \<and> safe_fact f" "set listed = set fs"
    and "decide (build_graph reg below listed) c = Some answer"
  shows "cond_value \<rho> c = answer"
proof -
  have "stated_true \<rho> listed" using assms(1,2) by (auto simp: stated_true_def stated_def)
  then obtain \<nu> where "sound \<rho> \<nu> (build_graph reg below listed)"
    using graph_of_build [OF refl] unfolding graph_of_def by blast
  then show ?thesis using query.decision_true assms(3) by blast
qed


text \<open>
  C5: A graph built from facts that are true of a valuation decides only true conditions
  of it, when each fact is \<open>safe_fact\<close>: no term of it passes through a conversion that
  keeps only non-negative values, of an operand with a negative constant offset or a flipped
  sign bit (\<open>conversion_of_difference_lost\<close> shows the offset wrong).
\<close>

theorem built_graph_decides_truth:
  assumes "\<forall>(f, value) \<in> set fs. cond_value \<rho> f = value \<and> safe_fact f"
    and "decide (build_graph reg below fs) c = Some answer"
  shows "cond_value \<rho> c = answer"
  by (rule build_graph_true [OF assms(1) refl assms(2)])

definition sample_variable :: "nat bv" where
  "sample_variable = Variable (Variable_Of 0 Ordinary)"

definition at_least :: "32 word \<Rightarrow> nat cond" where
  "at_least n = Compare Op_Bitvector32SignedGreaterEqual sample_variable (Constant n)"

definition at_most :: "32 word \<Rightarrow> nat cond" where
  "at_most n = Compare Op_Bitvector32SignedLessEqual sample_variable (Constant n)"

abbreviation no_order :: "nat bv \<Rightarrow> nat bv \<Rightarrow> bool" where
  "no_order \<equiv> \<lambda>_ _. False"

lemma sample_safe: "safe_fact (at_least n)" "safe_fact (at_most n)"
  by (simp_all add: at_least_def at_most_def sample_variable_def safe_fact_def fact_terms_def fact_domains_def
      offset_equality_def overflow_parts_def overflow_op_def order_parts_def safe_term.simps link_parts_def
      sign_flip_base_def narrow_cast_parts_def)

lemma sample_true: "cond_value zero_valuation (at_most 10)" "cond_value zero_valuation (at_least 0)"
  by (simp_all add: at_least_def at_most_def sample_variable_def zero_valuation_def compare_value_def)

theorem built_graph_decides_truth_witness: "cond_value zero_valuation (at_most 12)"
proof -
  have "decide (build_graph bare_registry no_order [(at_most 10, True)]) (at_most 12) = Some True" by code_simp
  then show ?thesis
    using built_graph_decides_truth [where fs = "[(at_most 10, True)]" and c = "at_most 12" and \<rho> = zero_valuation]
    by (simp add: sample_true sample_safe)
qed

definition sample_context :: "nat fact_context" where
  "sample_context = \<lparr>facts = [(at_most 10, True)], cell = 1\<rparr>"

definition sample_world :: "nat world" where
  "sample_world =
     ([0 \<mapsto> sample_context],
      \<lparr>cell_next = 2, cell_graph = [0 \<mapsto> graph_new, 1 \<mapsto> build_graph bare_registry no_order [(at_most 10, True)]]\<rparr>)"

lemma at_most_expressed: "expresses (at_most n)" "expresses (at_least n)"
  by (simp_all add: at_most_def at_least_def expresses_def order_parts_def)

lemma sample_world_reached: "reached bare_registry no_order exclusive sample_world"
proof -
  let ?s = "\<lparr>cell_next = 1, cell_graph = [0 \<mapsto> graph_new]\<rparr> :: nat cells"
  let ?k = "\<lparr>facts = [], cell = 0\<rparr> :: nat fact_context"
  have first: "(first_world :: nat world) = ([0 \<mapsto> ?k], ?s)"
    by (simp add: first_world_def context_default_def new_cell_def)
  have "act bare_registry no_order ([0 \<mapsto> ?k], ?s) (Assume 0 (at_most 10) True)
    ([0 \<mapsto> ?k, 0 \<mapsto> sample_context], snd sample_world)"
    by (rule act.assumed [where k = ?k])
      (simp_all add: moved_def context_assume_def at_most_expressed new_cell_def sample_context_def
        sample_world_def build_graph_def numeral_2_eq_2)
  moreover have "exclusive ([0 \<mapsto> ?k], ?s) (Assume 0 (at_most 10) True)" by (simp add: exclusive_def)
  ultimately have "reached bare_registry no_order exclusive ([0 \<mapsto> ?k, 0 \<mapsto> sample_context], snd sample_world)"
    using reached.step [OF reached.start [of bare_registry no_order exclusive]] unfolding first by blast
  then show ?thesis by (simp add: sample_world_def)
qed

theorem built_graph_knows_its_context_witness: "cond_value zero_valuation (at_most 12)"
proof -
  let ?g = "build_graph bare_registry no_order [(at_most 10, True)]"
  have "reached bare_registry no_order exclusive (fst sample_world, snd sample_world)"
    using sample_world_reached by simp
  moreover have "fst sample_world 0 = Some sample_context" by (simp add: sample_world_def)
  moreover have "context_built (snd sample_world) (cell sample_context) = Some ?g"
    by (simp add: sample_world_def sample_context_def context_built_def)
  moreover have "decide ?g (at_most 12) = Some True" by code_simp
  moreover have "\<forall>(f, value) \<in> set (facts sample_context). cond_value zero_valuation f = value \<and> safe_fact f"
    by (simp add: sample_context_def sample_true sample_safe)
  ultimately show ?thesis using built_graph_knows_its_context [where answer = True] by blast
qed


text \<open>A context whose graph a withdrawal cleared: one fact left, the cell empty.\<close>

definition emptied_context :: "nat fact_context" where
  "emptied_context = \<lparr>facts = [(at_most 10, True)], cell = 3\<rparr>"

definition emptied_cells :: "nat cells" where
  "emptied_cells = (let g = build_graph bare_registry no_order [(at_most 10, True)] in
     \<lparr>cell_next = 4, cell_graph = [0 \<mapsto> graph_new, 1 \<mapsto> g,
        2 \<mapsto> assume_condition bare_registry no_order g (at_least 0) True]\<rparr>)"

lemma emptied_world_reached: "reached bare_registry no_order exclusive ([0 \<mapsto> emptied_context], emptied_cells)"
proof -
  let ?g = "build_graph bare_registry no_order [(at_most 10, True)]"
  let ?h = "assume_condition bare_registry no_order ?g (at_least 0) True"
  let ?k = "\<lparr>facts = [(at_least 0, True), (at_most 10, True)], cell = 2\<rparr> :: nat fact_context"
  let ?s = "\<lparr>cell_next = 3, cell_graph = [0 \<mapsto> graph_new, 1 \<mapsto> ?g, 2 \<mapsto> ?h]\<rparr>"
  have other: "at_least 0 \<noteq> at_most 10" by (simp add: at_least_def at_most_def)
  have "act bare_registry no_order sample_world (Assume 0 (at_least 0) True) ([0 \<mapsto> sample_context, 0 \<mapsto> ?k], ?s)"
    unfolding sample_world_def
    by (rule act.assumed [where k = sample_context])
      (simp_all add: moved_def context_assume_def at_most_expressed new_cell_def sample_context_def other
        numeral_2_eq_2 numeral_3_eq_3)
  moreover have "exclusive sample_world (Assume 0 (at_least 0) True)"
    by (simp add: exclusive_def sample_world_def sample_context_def)
  ultimately have two: "reached bare_registry no_order exclusive ([0 \<mapsto> ?k], ?s)"
    using reached.step [OF sample_world_reached] by simp
  have "act bare_registry no_order ([0 \<mapsto> ?k], ?s) (Withdraw 0 (at_least 0)) ([0 \<mapsto> ?k, 0 \<mapsto> emptied_context], emptied_cells)"
    by (rule act.withdrawn [where k = ?k])
      (simp_all add: moved_def context_withdraw_def at_most_expressed new_cell_def without_fact_def other [symmetric]
        emptied_context_def emptied_cells_def Let_def fun_eq_iff)
  moreover have "exclusive ([0 \<mapsto> ?k], ?s) (Withdraw 0 (at_least 0))" by (simp add: exclusive_def)
  ultimately show ?thesis using reached.step [OF two] by simp
qed

theorem asked_graph_stays_witness:
  "\<exists>w w' g listed. act bare_registry no_order ([0 \<mapsto> emptied_context], emptied_cells) (Ask 0) w
     \<and> act bare_registry no_order w (Fork 0 1) w'
     \<and> fst w' 1 = Some emptied_context \<and> context_built (snd w') 3 = Some g
     \<and> set listed = {(at_most 10, True)}
     \<and> g = foldl (\<lambda>g (c, v). assume_condition bare_registry no_order g c v) graph_new listed"
proof -
  let ?w = "([0 \<mapsto> emptied_context], emptied_cells)"
  have here: "[0 :: nat \<mapsto> emptied_context] 0 = Some emptied_context" by simp
  note stays = asked_graph_stays [OF emptied_world_reached here]
  obtain w where ask: "act bare_registry no_order ?w (Ask 0) w" using stays by blast
  then obtain s' where w: "w = ([0 \<mapsto> emptied_context], s')" by (auto elim: act_cases)
  let ?w' = "([0 \<mapsto> emptied_context, 1 \<mapsto> emptied_context], s')"
  have fork: "act bare_registry no_order w (Fork 0 1) ?w'" unfolding w by (rule act.forked) simp
  have "undisturbed bare_registry no_order 0 w ?w'"
    by (rule undisturbed.elsewhere [OF undisturbed.quiet _ fork]) (simp add: spares_def)
  note graph = stays [THEN conjunct2, rule_format, OF ask this, THEN conjunct2]
  have e: "context_built emptied_cells 3 = None" "cell emptied_context = 3"
    "set (facts emptied_context) = {(at_most 10, True)}"
    by (simp_all add: context_built_def emptied_cells_def emptied_context_def Let_def)
  have "fst ?w' 1 = Some emptied_context" by simp
  with graph [unfolded e option.case] ask fork show ?thesis by (elim exE conjE) (intro exI conjI; assumption)
qed

section \<open>A cleared cell that is shared\<close>

text \<open>
  \<^verbatim>\<open>assume\<close> leaves a cleared cell where it is, so a copy of the context
  still holds it. When the context that assumed the fact is asked, the rebuilt graph, with
  that fact, is written to the cell of both: the copy, which has no facts at all, then
  decides the condition. The discipline of the invariant is needed.
\<close>

lemma shared_cell_leaks:
  "\<exists>contexts s k g. reached bare_registry no_order (\<lambda>_ _. True) (contexts, s)
     \<and> contexts 1 = Some k \<and> facts k = [] \<and> context_built s (cell k) = Some g
     \<and> decide g (at_least 5) = Some True \<and> \<not> cond_value zero_valuation (at_least 5)"
proof -
  let ?c = "at_least 5"
  let ?A = "assume_condition bare_registry no_order graph_new ?c True"
  let ?k0 = "\<lparr>facts = [], cell = 0\<rparr> :: nat fact_context"
  let ?k1 = "\<lparr>facts = [(?c, True)], cell = 1\<rparr> :: nat fact_context"
  let ?k2 = "\<lparr>facts = [], cell = 2\<rparr> :: nat fact_context"
  let ?k3 = "\<lparr>facts = [(?c, True)], cell = 2\<rparr> :: nat fact_context"
  let ?s0 = "\<lparr>cell_next = 1, cell_graph = [0 \<mapsto> graph_new]\<rparr> :: nat cells"
  let ?s1 = "\<lparr>cell_next = 2, cell_graph = [0 \<mapsto> graph_new, 1 \<mapsto> ?A]\<rparr>"
  let ?s2 = "\<lparr>cell_next = 3, cell_graph = [0 \<mapsto> graph_new, 1 \<mapsto> ?A]\<rparr>"
  let ?s3 = "\<lparr>cell_next = 3, cell_graph = [0 \<mapsto> graph_new, 1 \<mapsto> ?A, 2 \<mapsto> ?A]\<rparr>"
  let ?R = "reached bare_registry no_order (\<lambda>_ _. True)"
  note next_world = reached.step [OF _ TrueI, of bare_registry no_order]
  have 0: "?R ([0 \<mapsto> ?k0], ?s0)"
    using reached.start [of bare_registry no_order "\<lambda>_ _. True"]
    by (simp add: first_world_def context_default_def new_cell_def)
  have "act bare_registry no_order ([0 \<mapsto> ?k0], ?s0) (Assume 0 ?c True) ([0 \<mapsto> ?k0, 0 \<mapsto> ?k1], ?s1)"
    by (rule act.assumed [where k = ?k0])
      (simp_all add: moved_def context_assume_def at_most_expressed new_cell_def numeral_2_eq_2)
  from next_world [OF 0 this] have 1: "?R ([0 \<mapsto> ?k1], ?s1)" by simp
  have "act bare_registry no_order ([0 \<mapsto> ?k1], ?s1) (Withdraw 0 ?c) ([0 \<mapsto> ?k1, 0 \<mapsto> ?k2], ?s2)"
    by (rule act.withdrawn [where k = ?k1])
      (simp_all add: moved_def context_withdraw_def at_most_expressed new_cell_def without_fact_def
        numeral_2_eq_2 numeral_3_eq_3 fun_eq_iff)
  from next_world [OF 1 this] have 2: "?R ([0 \<mapsto> ?k2], ?s2)" by simp
  have "act bare_registry no_order ([0 \<mapsto> ?k2], ?s2) (Fork 0 1) ([0 \<mapsto> ?k2, 1 \<mapsto> ?k2], ?s2)"
    by (rule act.forked) simp
  from next_world [OF 2 this] have 3: "?R ([0 \<mapsto> ?k2, 1 \<mapsto> ?k2], ?s2)" .
  have "act bare_registry no_order ([0 \<mapsto> ?k2, 1 \<mapsto> ?k2], ?s2) (Assume 0 ?c True)
    ([0 \<mapsto> ?k2, 1 \<mapsto> ?k2, 0 \<mapsto> ?k3], ?s2)"
    by (rule act.assumed [where k = ?k2]) (simp_all add: moved_def context_assume_def)
  from next_world [OF 3 this] have 4: "?R ([1 \<mapsto> ?k2, 0 \<mapsto> ?k3], ?s2)" by (simp add: fun_upd_twist)
  have "act bare_registry no_order ([1 \<mapsto> ?k2, 0 \<mapsto> ?k3], ?s2) (Ask 0) ([1 \<mapsto> ?k2, 0 \<mapsto> ?k3], ?s3)"
    by (rule act.asked [where k = ?k3 and listed = "[(?c, True)]" and g = ?A])
      (simp_all add: context_graph_def build_graph_def Let_def)
  from next_world [OF 4 this] have 5: "?R ([1 \<mapsto> ?k2, 0 \<mapsto> ?k3], ?s3)" .
  have "decide ?A ?c = Some True" by code_simp
  moreover have "\<not> cond_value zero_valuation ?c"
    by (simp add: at_least_def sample_variable_def zero_valuation_def compare_value_def)
  ultimately show ?thesis
    using 5
    by (intro exI [of _ "[1 \<mapsto> ?k2, 0 \<mapsto> ?k3]"] exI [of _ ?s3] exI [of _ ?k2] exI [of _ ?A])
      (simp add: context_built_def)
qed

section \<open>A conversion of a difference\<close>

text \<open>
  A zero-extending conversion of \<open>x - 1\<close> is linked to \<open>x\<close> as soon as \<open>x\<close>
  is known non-negative, though \<open>x - 1\<close> need not be: from \<open>0 <= x\<close>,
  \<open>x <= 10\<close> and a bound on \<open>(uint64) (x - 1)\<close> that every value meets, the graph
  decides \<open>x >= 1\<close>. The three facts are true of \<open>x = 0\<close>. This is the case
  that \<open>safe_fact\<close> excepts.
\<close>

lemma conversion_of_difference_lost:
  "let conversion = UInt64From32 (Subtract sample_variable (Constant 1));
       fs = [(at_least 0, True), (at_most 10, True),
             (Compare Op_Bitvector64UnsignedLessEqual conversion (UInt64Constant 4294967295), True)]
   in (\<forall>(f, value) \<in> set fs. cond_value zero_valuation f = value)
      \<and> decide (build_graph bare_registry no_order fs) (at_least 1) = Some True
      \<and> \<not> cond_value zero_valuation (at_least 1)"
proof -
  let ?f = "Compare Op_Bitvector64UnsignedLessEqual (UInt64From32 (Subtract sample_variable (Constant 1)))
    (UInt64Constant 4294967295)"
  have "decide (build_graph bare_registry no_order [(at_least 0, True), (at_most 10, True), (?f, True)]) (at_least 1)
    = Some True" by code_simp
  moreover have "cond_value zero_valuation ?f" by code_simp
  moreover have "\<not> cond_value zero_valuation (at_least 1)"
    by (simp add: at_least_def sample_variable_def zero_valuation_def compare_value_def)
  ultimately show ?thesis using sample_true by simp
qed

end
