(* ===== verification/MachineCasts.thy ===== *)
theory MachineCasts
  imports Denotation
begin

text \<open>
  Machine integer types over the term arena: the constants a term spells, the terms a
  cast or a 128-bit observation accepts, and the typed conversion constructor of
  \<^verbatim>\<open>src/src/kernel/primitives/machine_integer.rs\<close>. The lemmas reduce each to
  \<open>carrier_reading\<close>, the integer that a carrier holds for a type.
\<close>

section \<open>Constants of a type\<close>

definition type_bits :: "machine_integer_type \<Rightarrow> nat" where
  "type_bits ty = format_bits (type_format ty)"

definition constant_from_term :: "machine_integer_type \<Rightarrow> 'x bv \<Rightarrow> machine_integer_constant option" where
  "constant_from_term ty t =
     (case t of
        MachineIntegerConstant c \<Rightarrow>
          if ty \<in> {MInt128, MUInt128} \<and> const_format c = type_format ty then Some c else None
      | Constant w \<Rightarrow>
          if ty \<in> {MInt8, MInt16, MInt32} then from_signed (type_format ty) (scast w)
          else if ty \<in> {MUInt8, MUInt16, MUInt32} then from_unsigned (type_format ty) (ucast w)
          else None
      | Int64Constant w \<Rightarrow> if ty = MInt64 then from_signed (type_format ty) (scast w) else None
      | UInt64Constant w \<Rightarrow> if ty = MUInt64 then from_unsigned (type_format ty) (ucast w) else None
      | _ \<Rightarrow> None)"

definition constant_term :: "machine_integer_type \<Rightarrow> machine_integer_constant \<Rightarrow> 'x bv option" where
  "constant_term ty c =
     (if const_format c \<noteq> type_format ty then None
      else if ty \<in> {MInt8, MInt16, MInt32} then map_option (\<lambda>v. Constant (ucast v)) (to_i128 c)
      else if ty \<in> {MUInt8, MUInt16, MUInt32} then map_option (\<lambda>v. Constant (ucast v)) (to_u128 c)
      else if ty = MInt64 then map_option (\<lambda>v. Int64Constant (ucast v)) (to_i128 c)
      else if ty = MUInt64 then map_option (\<lambda>v. UInt64Constant (ucast v)) (to_u128 c)
      else Some (MachineIntegerConstant c))"

section \<open>Accepted operands\<close>

definition load_kind_of :: "machine_integer_type \<Rightarrow> load_kind" where
  "load_kind_of ty = (if ty = MInt128 then Load_Int128 else Load_UInt128)"

text \<open>
  \<^verbatim>\<open>accepts_cast_operand\<close> follows a chain of widening conversions; a load is looked
  at only under a 128-bit type, the one case \<open>load_kind_of\<close> is used for.
\<close>

fun accepts_cast_operand :: "machine_integer_type \<Rightarrow> 'x bv \<Rightarrow> bool" where
  "accepts_cast_operand ty (MachineIntegerCast operand source destination) =
     (destination = ty
      \<and> (if type_bits ty > type_bits source \<and> format_contains (type_format ty) (type_format source)
         then accepts_cast_operand source operand else True))"
| "accepts_cast_operand ty (Constant w) = (constant_from_term ty (Constant w :: 'x bv) \<noteq> None)"
| "accepts_cast_operand ty (Int64Constant w) = (constant_from_term ty (Int64Constant w :: 'x bv) \<noteq> None)"
| "accepts_cast_operand ty (UInt64Constant w) = (constant_from_term ty (UInt64Constant w :: 'x bv) \<noteq> None)"
| "accepts_cast_operand ty (MachineIntegerConstant c) =
     (constant_from_term ty (MachineIntegerConstant c :: 'x bv) \<noteq> None)"
| "accepts_cast_operand ty (Variable x) = True"
| "accepts_cast_operand ty (IntegerToMachine x destination) = (destination = ty)"
| "accepts_cast_operand ty (MemoryLoad m p kind) = (if type_bits ty = 128 then kind = load_kind_of ty else True)"
| "accepts_cast_operand ty _ = (type_bits ty \<noteq> 128)"

definition accepts_wide_term :: "machine_integer_type \<Rightarrow> 'x bv \<Rightarrow> bool" where
  "accepts_wide_term ty t =
     (type_bits ty = 128
      \<and> (case t of
           MachineIntegerConstant c \<Rightarrow> const_format c = type_format ty
         | Variable _ \<Rightarrow> True
         | MemoryLoad _ _ kind \<Rightarrow> kind = load_kind_of ty
         | IntegerToMachine _ destination \<Rightarrow> destination = ty
         | MachineIntegerCast operand source destination \<Rightarrow>
             destination = ty \<and> accepts_cast_operand source operand
         | _ \<Rightarrow> False))"

section \<open>Conversion\<close>

text \<open>
  The fallible step of the source is an \<^verbatim>\<open>expect\<close>; here the cast node stands for
  its panic, and \<open>machine_integer_cast_folds\<close> shows that it is never taken.
\<close>

fun machine_integer_cast :: "machine_integer_type \<Rightarrow> machine_integer_type \<Rightarrow> 'x bv \<Rightarrow> 'x bv" where
  "machine_integer_cast source destination t =
     (if source = destination then t
      else
        (case constant_from_term source t of
           Some c \<Rightarrow>
             (case constant_term destination (convert_modulo c (type_format destination)) of
                Some folded \<Rightarrow> folded
              | None \<Rightarrow> MachineIntegerCast t source destination)
         | None \<Rightarrow>
             (case t of
                MachineIntegerCast operand original intermediate \<Rightarrow>
                  if intermediate = source \<and> type_bits destination \<le> type_bits intermediate
                  then machine_integer_cast original destination operand
                  else MachineIntegerCast t source destination
              | _ \<Rightarrow> MachineIntegerCast t source destination)))"

declare machine_integer_cast.simps [simp del]

section \<open>Readings\<close>

text \<open>The integer of a format that is congruent to an integer modulo the format's width.\<close>

definition wrapped :: "machine_integer_format \<Rightarrow> int \<Rightarrow> int" where
  "wrapped f v = to_integer (constant_of f v)"

lemma carrier_reading_wrapped: "carrier_reading ty w = wrapped (type_format ty) (uint w)"
  by (simp add: carrier_reading_def wrapped_def)

lemma wrapped_representable: "representable f (wrapped f v)"
  using to_integer_representable [OF wf_constant_of [of f v]] by (simp add: wrapped_def)

lemma wrapped_id: "representable f v \<Longrightarrow> wrapped f v = v"
  by (simp add: wrapped_def to_integer_constant_of_representable)

lemma take_bit_wrapped: "take_bit (format_bits f) (wrapped f v) = take_bit (format_bits f) v"
  using format_bits_bounds [of f]
  by (simp add: wrapped_def to_integer_constant_of take_bit_signed_take_bit)

lemma wrapped_constant_cong:
  "take_bit (format_bits f) v = take_bit (format_bits f) u \<Longrightarrow> constant_of f v = constant_of f u"
  by (simp add: constant_of_def)

lemma wrapped_take_bit: "format_bits f \<le> n \<Longrightarrow> wrapped f (take_bit n v) = wrapped f v"
  by (simp add: wrapped_def constant_of_def)

lemma wrapped_signed: "format_bits f \<le> Suc n \<Longrightarrow> wrapped f (signed_take_bit n v) = wrapped f v"
  unfolding wrapped_def
  by (intro arg_cong [where f = to_integer] wrapped_constant_cong take_bit_signed_take_bit) simp

lemma wrapped_wrapped: "format_bits f \<le> format_bits g \<Longrightarrow> wrapped f (wrapped g v) = wrapped f v"
  by (metis take_bit_wrapped wrapped_take_bit)

lemma wrapped_uint_word:
  "format_bits f \<le> LENGTH('a) \<Longrightarrow> wrapped f (uint (word_of_int v :: 'a::len word)) = wrapped f v"
  by (simp add: unsigned_of_int wrapped_take_bit)

lemma wrapped_sint: "format_bits f \<le> LENGTH('a) \<Longrightarrow> wrapped f (sint (w :: 'a::len word)) = wrapped f (uint w)"
  by (simp add: sint_uint wrapped_signed)

lemma reading_bounds:
  "format_low (type_format ty) \<le> carrier_reading ty w" "carrier_reading ty w \<le> format_high (type_format ty)"
  using wrapped_representable [of "type_format ty" "uint w"]
  by (simp_all add: carrier_reading_wrapped representable_def)

lemma type_bits_simps [simp]:
  "type_bits MInt8 = 8" "type_bits MUInt8 = 8" "type_bits MInt16 = 16" "type_bits MUInt16 = 16"
  "type_bits MInt32 = 32" "type_bits MUInt32 = 32" "type_bits MInt64 = 64" "type_bits MUInt64 = 64"
  "type_bits MInt128 = 128" "type_bits MUInt128 = 128"
  by (simp_all add: type_bits_def type_format_def format_new_def format_bits_def)

lemma type_signed_simps [simp]:
  "fmt_signed (type_format MInt8)" "\<not> fmt_signed (type_format MUInt8)" "fmt_signed (type_format MInt16)"
  "\<not> fmt_signed (type_format MUInt16)" "fmt_signed (type_format MInt32)" "\<not> fmt_signed (type_format MUInt32)"
  "fmt_signed (type_format MInt64)" "\<not> fmt_signed (type_format MUInt64)" "fmt_signed (type_format MInt128)"
  "\<not> fmt_signed (type_format MUInt128)"
  by (simp_all add: type_format_def format_new_def)

lemma format_bits_type [simp]: "format_bits (type_format ty) = type_bits ty"
  by (simp add: type_bits_def)

lemma type_bits_le: "type_bits ty \<le> 128" "type_bits ty \<le> 64 \<or> type_bits ty = 128"
    "type_bits ty \<le> 32 \<or> type_bits ty = 64 \<or> type_bits ty = 128"
  by (cases ty; simp)+

lemma type_format_eq_iff [simp]: "type_format s = type_format d \<longleftrightarrow> s = d"
  by (cases s; cases d) (auto simp: type_format_def format_new_def)

lemma reading_low32: "type_bits ty \<le> 32 \<Longrightarrow> carrier_reading ty w = wrapped (type_format ty) (uint (low32 w))"
  by (simp add: carrier_reading_wrapped unsigned_ucast_eq wrapped_take_bit)

lemma reading_low64: "type_bits ty \<le> 64 \<Longrightarrow> carrier_reading ty w = wrapped (type_format ty) (uint (low64 w))"
  by (simp add: carrier_reading_wrapped unsigned_ucast_eq wrapped_take_bit)

lemma wrapped_type:
  "wrapped (type_format ty) v =
     (if fmt_signed (type_format ty) then signed_take_bit (type_bits ty - 1) v else take_bit (type_bits ty) v)"
  by (simp add: wrapped_def to_integer_constant_of)

lemma native_readings:
  "carrier_reading MInt32 w = sint (low32 w)" "carrier_reading MUInt32 w = uint (low32 w)"
  "carrier_reading MInt64 w = sint (low64 w)" "carrier_reading MUInt64 w = uint (low64 w)"
  by (simp_all add: reading_low32 reading_low64 wrapped_type sint_uint bintr_uint)

section \<open>The operations read what they should\<close>

lemma sint_scast_wider [simp]:
  "sint (scast (w :: 32 word) :: u128) = sint w" "sint (scast (x :: 64 word) :: u128) = sint x"
  by (simp_all add: sint_up_scast is_up)

lemma uint_ucast_wider [simp]:
  "uint (ucast (w :: 32 word) :: u128) = uint w" "uint (ucast (x :: 64 word) :: u128) = uint x"
  by (simp_all add: unsigned_ucast_eq bintr_uint)

lemma constant_from_term_reading:
  assumes "constant_from_term ty t = Some c"
  shows "carrier_reading ty (bv_value \<rho> t) = to_integer c \<and> c = constant_of (type_format ty) (to_integer c)
    \<and> representable (type_format ty) (to_integer c)"
proof -
  have spelled: "c = constant_of (type_format ty) v \<Longrightarrow> representable (type_format ty) v \<Longrightarrow>
      carrier_reading ty (bv_value \<rho> t) = wrapped (type_format ty) v \<Longrightarrow> ?thesis" for v
    by (simp add: to_integer_constant_of_representable wrapped_id)
  consider (wide) "t = MachineIntegerConstant c" "type_bits ty = 128" "const_format c = type_format ty"
    | (word) w where "t = Constant w" "type_bits ty \<le> 32" "from_signed (type_format ty) (scast w) = Some c"
    | (uword) w where "t = Constant w" "type_bits ty \<le> 32" "from_unsigned (type_format ty) (ucast w) = Some c"
    | (int64) w where "t = Int64Constant w" "type_bits ty \<le> 64" "from_signed (type_format ty) (scast w) = Some c"
    | (uint64) w where "t = UInt64Constant w" "type_bits ty \<le> 64" "from_unsigned (type_format ty) (ucast w) = Some c"
    using assms by (auto simp: constant_from_term_def split: bv.splits if_splits)
  then show ?thesis
  proof cases
    case wide
    have wf: "wf_const c"
      unfolding wf_const_def le_format_mask_iff using wide uint_lt2p [of "const_bits c"] by simp
    have "constant_of (type_format ty) (uint (const_bits c)) = c"
      using wide by (cases c) (simp add: constant_of_def bintr_uint)
    then show ?thesis
      using wf wide constant_of_to_integer [OF wf] to_integer_representable [OF wf] by (simp add: carrier_reading_def)
  next
    case word
    then show ?thesis
      by (intro spelled [of "sint w"])
        (auto simp: from_signed_spec reading_low32 wrapped_sint split: if_splits)
  next
    case uword
    then show ?thesis
      by (intro spelled [of "uint w"])
        (auto simp: from_unsigned_spec reading_low32 split: if_splits)
  next
    case int64
    then show ?thesis
      by (intro spelled [of "sint w"])
        (auto simp: from_signed_spec reading_low64 wrapped_sint split: if_splits)
  next
    case uint64
    then show ?thesis
      by (intro spelled [of "uint w"])
        (auto simp: from_unsigned_spec reading_low64 split: if_splits)
  qed
qed

lemma constant_term_reading:
  assumes "representable (type_format ty) v"
  obtains t where "constant_term ty (constant_of (type_format ty) v) = Some t"
    and "carrier_reading ty (bv_value \<rho> t) = v"
proof -
  let ?c = "constant_of (type_format ty) v"
  have v: "to_integer ?c = v" by (rule to_integer_constant_of_representable [OF assms])
  have signed: "sint (signed_value ?c) = v" if "fmt_signed (type_format ty)"
    using v that by (simp add: to_integer_def)
  have unsigned: "uint (const_bits ?c) = v" if "\<not> fmt_signed (type_format ty)"
    using v that by (simp add: to_integer_def)
  have id: "wrapped (type_format ty) v = v" by (rule wrapped_id [OF assms])
  have s: "wrapped (type_format ty) (uint (signed_value ?c)) = v" if "fmt_signed (type_format ty)"
    using wrapped_sint [of "type_format ty" "signed_value ?c"] signed [OF that] id type_bits_le(1) [of ty] by simp
  have u: "wrapped (type_format ty) (uint (const_bits ?c)) = v" if "\<not> fmt_signed (type_format ty)"
    using unsigned [OF that] id by simp
  have wide: "carrier_reading ty (const_bits ?c) = v"
    using v by (simp add: carrier_reading_wrapped uint_constant_of wrapped_take_bit id)
  have "\<exists>t. constant_term ty ?c = Some t \<and> carrier_reading ty (bv_value \<rho> t) = v"
    using s u wide
    by (cases ty; simp add: constant_term_def to_i128_def to_u128_def reading_low32 reading_low64
        unsigned_ucast_eq unsigned_take_bit_eq wrapped_take_bit)
  then show ?thesis using that by blast
qed

text \<open>What a conversion's carrier reads as in its destination type.\<close>

lemma reading_cast:
  "carrier_reading destination (cast_value source destination w) =
   wrapped (type_format destination) (carrier_reading source w)"
proof -
  let ?f = "type_format destination" and ?v = "carrier_reading source w"
  have "carrier_reading destination (carrier_of destination (constant_of ?f ?v)) = wrapped ?f ?v"
    using type_bits_le [of destination] type_bits_le(1)
    by (auto simp: carrier_of_def reading_low32 reading_low64 wrapped_uint_word wrapped_wrapped
        simp flip: wrapped_def type_bits_def)
       (simp_all add: carrier_reading_wrapped uint_constant_of wrapped_take_bit)
  then show ?thesis by (simp add: cast_value_def)
qed

lemma machine_integer_cast_folds:
  "constant_term destination (convert_modulo c (type_format destination)) \<noteq> (None :: 'x bv option)"
proof -
  let ?f = "type_format destination"
  obtain t :: "'x bv" where "constant_term destination (constant_of ?f (wrapped ?f (to_integer c))) = Some t"
    using constant_term_reading [OF wrapped_representable] by metis
  moreover have "constant_of ?f (wrapped ?f (to_integer c)) = constant_of ?f (to_integer c)"
    using constant_of_to_integer [OF wf_constant_of [of ?f "to_integer c"]] by (simp add: wrapped_def)
  ultimately show ?thesis by (simp add: convert_modulo_spec)
qed

lemma machine_integer_cast_reading:
  "carrier_reading destination (bv_value \<rho> (machine_integer_cast source destination t)) =
   wrapped (type_format destination) (carrier_reading source (bv_value \<rho> t))"
proof (induction source destination t rule: machine_integer_cast.induct)
  case (1 source destination t)
  have plain: "carrier_reading destination (bv_value \<rho> (MachineIntegerCast t source destination)) =
      wrapped (type_format destination) (carrier_reading source (bv_value \<rho> t))"
    by (simp add: reading_cast)
  note unfolded = machine_integer_cast.simps [of source destination t]
  consider (same) "source = destination"
    | (spelled) c where "source \<noteq> destination" "constant_from_term source t = Some c"
    | (nested) operand original where "source \<noteq> destination" "constant_from_term source t = None"
        "t = MachineIntegerCast operand original source" "type_bits destination \<le> type_bits source"
    | (plain) "machine_integer_cast source destination t = MachineIntegerCast t source destination"
    using unfolded by (cases "source = destination"; cases "constant_from_term source t"; cases t)
      (auto split: if_splits)
  then show ?case
  proof cases
    case same
    then show ?thesis unfolding unfolded by (simp add: wrapped_id carrier_reading_wrapped wrapped_representable)
  next
    case spelled
    let ?f = "type_format destination"
    obtain folded :: "'a bv" where
        folded: "constant_term destination (constant_of ?f (wrapped ?f (to_integer c))) = Some folded"
          "carrier_reading destination (bv_value \<rho> folded) = wrapped ?f (to_integer c)"
      using constant_term_reading [OF wrapped_representable] by metis
    have "constant_of ?f (wrapped ?f (to_integer c)) = convert_modulo c ?f"
      using constant_of_to_integer [OF wf_constant_of [of ?f "to_integer c"]]
      by (simp add: wrapped_def convert_modulo_spec)
    with folded spelled constant_from_term_reading [OF spelled(2), of \<rho>] show ?thesis
      by (simp add: unfolded)
  next
    case nested
    then have "carrier_reading destination (bv_value \<rho> (machine_integer_cast source destination t)) =
        wrapped (type_format destination) (carrier_reading original (bv_value \<rho> operand))"
      unfolding unfolded using nested 1 by simp
    also have "\<dots> = wrapped (type_format destination) (carrier_reading source (bv_value \<rho> t))"
      using nested by (simp add: reading_cast wrapped_wrapped)
    finally show ?thesis .
  next
    case plain
    then show ?thesis using \<open>carrier_reading destination (bv_value \<rho> (MachineIntegerCast t source destination)) = _\<close>
      by simp
  qed
qed

end
