(* ===== verification/IntegerTerms.thy ===== *)
theory IntegerTerms
  imports MachineCasts TermWidth TermFolds
begin

text \<open>
  Exact integer terms, \<^verbatim>\<open>src/src/kernel/primitives/integer.rs\<close>, the conditions
  and propositions over them, and the observation of a machine value as an integer. A
  term's shared node identity is the term itself: the interner gives equal terms one node.
  Terms that arithmetic never opens (applications, matches, folds) take their value from a
  \<open>meaning\<close>.
\<close>

section \<open>Terms\<close>

datatype 'x integer =
    Int_Constant int
  | Int_Variable variable
  | Machine machine_integer_type "'x bv"
  | Int_Negate "'x integer"
  | Int_Add "'x integer" "'x integer"
  | Int_Subtract "'x integer" "'x integer"
  | Int_Multiply "'x integer" "'x integer"
  | TruncatingQuotient "'x integer" "'x integer"
  | TruncatingRemainder "'x integer" "'x integer"
  | Int_Application 'x
  | Int_Match 'x "(string \<times> 'x list \<times> 'x integer) list"
  | Int_Fold "'x fold_index" "'x integer" variable variable "'x integer"
and 'x fold_index =
    Fold_Int32 "'x bv" "'x bv"
  | Fold_UInt64 "'x bv" "'x bv"
  | Fold_Integer "'x integer" "'x integer"

datatype 'x condition =
    Integer_Relation integer_comparison "'x integer" "'x integer"
  | Native "'x cond"

text \<open>The propositions the arithmetic reads; the others are one constructor.\<close>

datatype 'x prop_term =
    ConditionIs "'x condition" bool
  | Not_Proposition "'x prop_term"
  | Implies "'x prop_term" "'x prop_term"
  | Algebraic_Equality 'x 'x
  | Other_Proposition 'x

section \<open>Meaning\<close>

record 'x meaning =
  machine_values :: "'x valuation"
  integer_values :: "'x integer \<Rightarrow> int"
  proposition_values :: "'x \<Rightarrow> bool"

text \<open>A quotient or remainder by zero stays opaque.\<close>

fun integer_value :: "'x meaning \<Rightarrow> 'x integer \<Rightarrow> int" where
  "integer_value M (Int_Constant v) = v"
| "integer_value M (Machine ty t) = carrier_reading ty (bv_value (machine_values M) t)"
| "integer_value M (Int_Negate a) = - integer_value M a"
| "integer_value M (Int_Add a b) = integer_value M a + integer_value M b"
| "integer_value M (Int_Subtract a b) = integer_value M a - integer_value M b"
| "integer_value M (Int_Multiply a b) = integer_value M a * integer_value M b"
| "integer_value M (TruncatingQuotient a b) =
     (if integer_value M b = 0 then integer_values M (TruncatingQuotient a b)
      else integer_value M a sdiv integer_value M b)"
| "integer_value M (TruncatingRemainder a b) =
     (if integer_value M b = 0 then integer_values M (TruncatingRemainder a b)
      else integer_value M a smod integer_value M b)"
| "integer_value M t = integer_values M t"

definition integer_compare :: "integer_comparison \<Rightarrow> int \<Rightarrow> int \<Rightarrow> bool" where
  "integer_compare op a b = (case op of
     Op_IntegerLessThan \<Rightarrow> a < b
   | Op_IntegerLessEqual \<Rightarrow> a \<le> b
   | Op_IntegerGreaterThan \<Rightarrow> a > b
   | Op_IntegerGreaterEqual \<Rightarrow> a \<ge> b
   | Op_IntegerEqual \<Rightarrow> a = b
   | Op_IntegerNotEqual \<Rightarrow> a \<noteq> b)"

fun condition_value :: "'x meaning \<Rightarrow> 'x condition \<Rightarrow> bool" where
  "condition_value M (Integer_Relation op a b) = integer_compare op (integer_value M a) (integer_value M b)"
| "condition_value M (Native c) = cond_value (machine_values M) c"

primrec holds :: "'x meaning \<Rightarrow> 'x prop_term \<Rightarrow> bool" where
  "holds M (ConditionIs c b) = (condition_value M c = b)"
| "holds M (Not_Proposition p) = (\<not> holds M p)"
| "holds M (Implies p q) = (holds M p \<longrightarrow> holds M q)"
| "holds M (Algebraic_Equality x y) = cond_value (machine_values M) (AlgebraicEqual x y)"
| "holds M (Other_Proposition x) = proposition_values M x"

section \<open>Constructors\<close>

definition integer_const :: "'x integer \<Rightarrow> int option" where
  "integer_const t = (case t of Int_Constant v \<Rightarrow> Some v | _ \<Rightarrow> None)"

definition integer_negate :: "'x integer \<Rightarrow> 'x integer" where
  "integer_negate t = (case t of
     Int_Constant v \<Rightarrow> Int_Constant (- v)
   | Int_Negate inner \<Rightarrow> inner
   | _ \<Rightarrow> Int_Negate t)"

definition integer_add :: "'x integer \<Rightarrow> 'x integer \<Rightarrow> 'x integer" where
  "integer_add l r = (case (integer_const l, integer_const r) of
     (Some a, Some b) \<Rightarrow> Int_Constant (a + b)
   | (a, b) \<Rightarrow> if a = Some 0 then r else if b = Some 0 then l else Int_Add l r)"

definition integer_subtract :: "'x integer \<Rightarrow> 'x integer \<Rightarrow> 'x integer" where
  "integer_subtract l r = (case (integer_const l, integer_const r) of
     (Some a, Some b) \<Rightarrow> Int_Constant (a - b)
   | (a, b) \<Rightarrow> if b = Some 0 then l else Int_Subtract l r)"

definition truncating_division :: "'x integer \<Rightarrow> 'x integer \<Rightarrow> bool \<Rightarrow> 'x integer" where
  "truncating_division l r remainder =
     (let opaque = (if remainder then TruncatingRemainder l r else TruncatingQuotient l r) in
      case (integer_const l, integer_const r) of
        (Some a, Some b) \<Rightarrow>
          if b \<noteq> 0 then Int_Constant (if remainder then a smod b else a sdiv b) else opaque
      | _ \<Rightarrow> opaque)"

definition truncating_quotient :: "'x integer \<Rightarrow> 'x integer \<Rightarrow> 'x integer" where
  "truncating_quotient l r = truncating_division l r False"

definition truncating_remainder :: "'x integer \<Rightarrow> 'x integer \<Rightarrow> 'x integer" where
  "truncating_remainder l r = truncating_division l r True"

definition integer_multiply :: "'x integer \<Rightarrow> 'x integer \<Rightarrow> 'x integer" where
  "integer_multiply l r = (case (integer_const l, integer_const r) of
     (Some a, Some b) \<Rightarrow> Int_Constant (a * b)
   | (a, b) \<Rightarrow>
       if a = Some 0 \<or> b = Some 0 then Int_Constant 0
       else if a = Some 1 then r
       else if b = Some 1 then l
       else Int_Multiply l r)"

text \<open>A comparison of two constants is folded.\<close>

definition integer_comparison_term ::
  "integer_comparison \<Rightarrow> 'x integer \<Rightarrow> 'x integer \<Rightarrow> 'x condition" where
  "integer_comparison_term op l r = (case (integer_const l, integer_const r) of
     (Some a, Some b) \<Rightarrow> Native (Cond_Constant (integer_compare op a b))
   | _ \<Rightarrow> Integer_Relation op l r)"

definition integer_less_than :: "'x integer \<Rightarrow> 'x integer \<Rightarrow> 'x condition" where
  "integer_less_than = integer_comparison_term Op_IntegerLessThan"

definition integer_less_equal :: "'x integer \<Rightarrow> 'x integer \<Rightarrow> 'x condition" where
  "integer_less_equal = integer_comparison_term Op_IntegerLessEqual"

definition integer_greater_than :: "'x integer \<Rightarrow> 'x integer \<Rightarrow> 'x condition" where
  "integer_greater_than = integer_comparison_term Op_IntegerGreaterThan"

definition integer_greater_equal :: "'x integer \<Rightarrow> 'x integer \<Rightarrow> 'x condition" where
  "integer_greater_equal = integer_comparison_term Op_IntegerGreaterEqual"

definition integer_equal :: "'x integer \<Rightarrow> 'x integer \<Rightarrow> 'x condition" where
  "integer_equal = integer_comparison_term Op_IntegerEqual"

definition integer_not_equal :: "'x integer \<Rightarrow> 'x integer \<Rightarrow> 'x condition" where
  "integer_not_equal = integer_comparison_term Op_IntegerNotEqual"

section \<open>Observation of machine values\<close>

text \<open>
  \<^verbatim>\<open>IntegerTerm::from_machine\<close>: a converted value is observed at the narrowest
  type of its chain of widening conversions, and a constant is its integer.
\<close>

definition observed_leaf :: "machine_integer_type \<Rightarrow> 'x bv \<Rightarrow> 'x integer option" where
  "observed_leaf ty t =
     (if (case t of Constant _ \<Rightarrow> True | Int64Constant _ \<Rightarrow> True | UInt64Constant _ \<Rightarrow> True
          | MachineIntegerConstant _ \<Rightarrow> True | _ \<Rightarrow> False)
      then map_option (\<lambda>c. Int_Constant (to_integer c)) (constant_from_term ty t)
      else Some (Machine ty t))"

function from_machine :: "machine_integer_type \<Rightarrow> 'x bv \<Rightarrow> 'x integer option" where
  "from_machine ty t =
     (if type_bits ty = 128 \<and> \<not> accepts_wide_term ty t then None
      else
        (case t of
           MachineIntegerCast operand source destination \<Rightarrow>
             if destination \<noteq> ty then
               (if type_bits ty \<le> 32 \<and> format_contains (type_format ty) (type_format destination)
                then from_machine destination t else None)
             else if type_bits ty > type_bits source
                     \<and> format_contains (type_format ty) (type_format source)
             then from_machine source operand
             else observed_leaf ty t
         | _ \<Rightarrow> observed_leaf ty t))"
  by pat_completeness auto
termination
  by (relation "measure (\<lambda>(ty, t). 2 * size t
        + (case t of MachineIntegerCast _ _ destination \<Rightarrow> of_bool (destination \<noteq> ty) | _ \<Rightarrow> 0))")
    (auto split: bv.splits)

declare from_machine.simps [simp del]

section \<open>They mean what they say\<close>

lemma integer_const_Some [simp]: "integer_const t = Some v \<longleftrightarrow> t = Int_Constant v"
  by (cases t) (auto simp: integer_const_def)

lemma integer_const_Constant [simp]: "integer_const (Int_Constant v) = Some v"
  by simp

lemma integer_constructors:
  "integer_value M (integer_negate a) = - integer_value M a"
  "integer_value M (integer_add a b) = integer_value M a + integer_value M b"
  "integer_value M (integer_subtract a b) = integer_value M a - integer_value M b"
  "integer_value M (integer_multiply a b) = integer_value M a * integer_value M b"
  by (auto simp: integer_negate_def integer_add_def integer_subtract_def integer_multiply_def
      split: integer.split option.split)

lemma truncating_constructors:
  assumes "integer_value M b \<noteq> 0"
  shows "integer_value M (truncating_quotient a b) = integer_value M a sdiv integer_value M b"
    "integer_value M (truncating_remainder a b) = integer_value M a smod integer_value M b"
  using assms
  by (auto simp: truncating_quotient_def truncating_remainder_def truncating_division_def Let_def
      split: option.split)

lemma integer_comparison_term_value:
  "condition_value M (integer_comparison_term op l r) =
   integer_compare op (integer_value M l) (integer_value M r)"
  by (auto simp: integer_comparison_term_def split: option.split)

lemmas integer_comparisons = integer_less_than_def integer_less_equal_def integer_greater_than_def
  integer_greater_equal_def integer_equal_def integer_not_equal_def

lemma observed_leaf_value:
  "observed_leaf ty t = Some i \<Longrightarrow> integer_value M i = carrier_reading ty (bv_value (machine_values M) t)"
  using constant_from_term_reading [of ty t] by (auto simp: observed_leaf_def split: if_splits)

text \<open>A type that contains the destination of a conversion reads the same integer.\<close>

lemma reading_cast_wider:
  assumes "type_bits ty \<le> 32" and "format_contains (type_format ty) (type_format destination)"
  shows "carrier_reading ty (cast_value source destination w) =
    carrier_reading destination (cast_value source destination w)"
proof -
  let ?f = "type_format destination" and ?v = "wrapped (type_format destination) (carrier_reading source w)"
  have bits: "type_bits destination \<le> type_bits ty"
    using assms(2) by (auto simp: format_contains_def split: if_splits)
  have v: "representable (type_format ty) ?v"
    using assms(2) wrapped_representable format_contains_iff by blast
  have "cast_value source destination w = ucast (word_of_int ?v :: 32 word)"
    using assms(1) bits by (simp add: cast_value_def carrier_of_def wrapped_def)
  then have "carrier_reading ty (cast_value source destination w) = wrapped (type_format ty) ?v"
    using assms(1) by (simp add: reading_low32 wrapped_uint_word)
  also have "\<dots> = ?v" by (rule wrapped_id [OF v])
  finally show ?thesis by (simp add: reading_cast)
qed

lemma from_machine_cast:
  "from_machine ty (MachineIntegerCast operand source destination) = Some i \<longleftrightarrow>
   (type_bits ty = 128 \<longrightarrow> accepts_wide_term ty (MachineIntegerCast operand source destination))
   \<and> (if destination \<noteq> ty
      then type_bits ty \<le> 32 \<and> format_contains (type_format ty) (type_format destination)
        \<and> from_machine destination (MachineIntegerCast operand source destination) = Some i
      else if type_bits ty > type_bits source \<and> format_contains (type_format ty) (type_format source)
      then from_machine source operand = Some i
      else observed_leaf ty (MachineIntegerCast operand source destination) = Some i)"
  by (subst from_machine.simps) auto

lemma from_machine_leaf:
  "(\<And>operand source destination. t \<noteq> MachineIntegerCast operand source destination) \<Longrightarrow>
   from_machine ty t = Some i \<longleftrightarrow> (type_bits ty = 128 \<longrightarrow> accepts_wide_term ty t) \<and> observed_leaf ty t = Some i"
  by (subst from_machine.simps) (auto split: bv.split)

lemma from_machine_value:
  "from_machine ty t = Some i \<Longrightarrow>
   integer_value M i = carrier_reading ty (bv_value (machine_values M) t)"
proof (induction ty t rule: from_machine.induct)
  case (1 ty t)
  show ?case
  proof (cases "\<exists>operand source destination. t = MachineIntegerCast operand source destination")
    case False
    then have "observed_leaf ty t = Some i" using "1.prems" from_machine_leaf [of t ty i] by blast
    then show ?thesis by (rule observed_leaf_value)
  next
    case True
    then obtain operand source destination where cast: "t = MachineIntegerCast operand source destination"
      by blast
    note step = from_machine_cast [THEN iffD1, OF "1.prems" [unfolded cast]]
    show ?thesis
    proof (cases "destination = ty")
      case False
      then have "integer_value M i = carrier_reading destination (bv_value (machine_values M) t)"
        using step by (intro "1.IH"(1) [OF _ cast]) (auto simp: cast)
      then show ?thesis
        using False step by (simp add: cast reading_cast_wider)
    next
      case same: True
      show ?thesis
      proof (cases "type_bits ty > type_bits source \<and> format_contains (type_format ty) (type_format source)")
        case True
        then have operand: "integer_value M i = carrier_reading source (bv_value (machine_values M) operand)"
          using step same by (intro "1.IH"(2) [OF _ cast]) (auto simp: cast)
        have "representable (type_format ty) (carrier_reading source (bv_value (machine_values M) operand))"
          using True wrapped_representable format_contains_iff by (metis carrier_reading_wrapped)
        then show ?thesis using operand same by (simp add: cast reading_cast wrapped_id)
      next
        case False
        then show ?thesis using step same by (intro observed_leaf_value) (auto simp: cast)
      qed
    qed
  qed
qed

text \<open>A 64-bit observation is of the term itself.\<close>

lemma observed_leaf_Machine: "observed_leaf ty t = Some (Machine ty' t') \<Longrightarrow> ty' = ty \<and> t' = t"
  by (auto simp: observed_leaf_def split: if_splits)

lemma format_contains_strict:
  "format_contains (type_format ty) (type_format d) \<Longrightarrow> d \<noteq> ty \<Longrightarrow> type_bits d < type_bits ty"
  by (cases ty; cases d; simp add: format_contains_def)

lemma from_machine_narrows:
  "from_machine ty t = Some (Machine ty' t') \<Longrightarrow> type_bits ty' < type_bits ty \<or> ty' = ty \<and> t' = t"
proof (induction ty t rule: from_machine.induct)
  case (1 ty t)
  show ?case
  proof (cases "\<exists>operand source destination. t = MachineIntegerCast operand source destination")
    case False
    then have "observed_leaf ty t = Some (Machine ty' t')" using "1.prems" from_machine_leaf [of t ty] by blast
    then show ?thesis using observed_leaf_Machine by blast
  next
    case True
    then obtain operand source destination where cast: "t = MachineIntegerCast operand source destination"
      by blast
    note step = from_machine_cast [THEN iffD1, OF "1.prems" [unfolded cast]]
    show ?thesis
    proof (cases "destination = ty")
      case False
      then have "type_bits ty' < type_bits destination \<or> ty' = destination \<and> t' = t"
        using step by (intro "1.IH"(1) [OF _ cast]) (auto simp: cast)
      then show ?thesis using False step format_contains_strict [of ty destination] by auto
    next
      case same: True
      show ?thesis
      proof (cases "type_bits ty > type_bits source \<and> format_contains (type_format ty) (type_format source)")
        case True
        then have "type_bits ty' < type_bits source \<or> ty' = source \<and> t' = operand"
          using step same by (intro "1.IH"(2) [OF _ cast]) (auto simp: cast)
        then show ?thesis using True by auto
      next
        case False
        then show ?thesis using step same by (auto simp: cast dest: observed_leaf_Machine)
      qed
    qed
  qed
qed

section \<open>Properties\<close>

text \<open>C40: The constructors of exact integer terms mean their operation whatever they fold,
  the truncating ones wherever the divisor is not zero; an observed machine value reads as
  the integer of its type, at the narrowest type of its chain of conversions; and a
  conversion reads as the value it converts, modulo the destination.\<close>

theorem integer_terms_exact:
  "integer_value M (integer_negate a) = - integer_value M a
   \<and> integer_value M (integer_add a b) = integer_value M a + integer_value M b
   \<and> integer_value M (integer_subtract a b) = integer_value M a - integer_value M b
   \<and> integer_value M (integer_multiply a b) = integer_value M a * integer_value M b
   \<and> (integer_value M b \<noteq> 0 \<longrightarrow>
        integer_value M (truncating_quotient a b) = integer_value M a sdiv integer_value M b
        \<and> integer_value M (truncating_remainder a b) = integer_value M a smod integer_value M b)
   \<and> (condition_value M (integer_less_than a b) \<longleftrightarrow> integer_value M a < integer_value M b)
   \<and> (condition_value M (integer_less_equal a b) \<longleftrightarrow> integer_value M a \<le> integer_value M b)
   \<and> (condition_value M (integer_greater_than a b) \<longleftrightarrow> integer_value M a > integer_value M b)
   \<and> (condition_value M (integer_greater_equal a b) \<longleftrightarrow> integer_value M a \<ge> integer_value M b)
   \<and> (condition_value M (integer_equal a b) \<longleftrightarrow> integer_value M a = integer_value M b)
   \<and> (condition_value M (integer_not_equal a b) \<longleftrightarrow> integer_value M a \<noteq> integer_value M b)
   \<and> (from_machine ty t = Some i \<longrightarrow> integer_value M i = carrier_reading ty (bv_value (machine_values M) t))
   \<and> (from_machine ty t = Some (Machine ty' t') \<longrightarrow> type_bits ty' < type_bits ty \<or> ty' = ty \<and> t' = t)
   \<and> carrier_reading ty (bv_value (machine_values M) (machine_integer_cast ty' ty t)) =
       wrapped (type_format ty) (carrier_reading ty' (bv_value (machine_values M) t))"
  using from_machine_narrows [of ty t] machine_integer_cast_reading [of ty "machine_values M" ty' t]
  by (simp add: integer_constructors truncating_constructors from_machine_value integer_comparisons
      integer_comparison_term_value integer_compare_def)

text \<open>An unsigned byte widened to 64 bits is observed as a byte; at zero.\<close>

definition sample_meaning :: "nat meaning" where
  "sample_meaning =
     \<lparr>machine_values = zero_valuation, integer_values = \<lambda>_. 0, proposition_values = \<lambda>_. False\<rparr>"

definition sample_word :: "nat bv" where
  "sample_word = Variable (Variable_Of 0 Ordinary)"

theorem integer_terms_exact_witness:
  "from_machine MUInt64 (MachineIntegerCast sample_word MUInt8 MUInt64) = Some (Machine MUInt8 sample_word)
   \<and> integer_value sample_meaning (Machine MUInt8 sample_word) =
       carrier_reading MUInt64 (bv_value zero_valuation (MachineIntegerCast sample_word MUInt8 MUInt64))
   \<and> integer_value sample_meaning (truncating_quotient (Int_Constant (- 7)) (Int_Constant 2)) = - 3"
proof -
  have "from_machine MUInt64 (MachineIntegerCast sample_word MUInt8 MUInt64) = Some (Machine MUInt8 sample_word)"
    by code_simp
  moreover have "(- 7 :: int) sdiv 2 = - 3" by (simp add: signed_divide_int_def)
  moreover have "machine_values sample_meaning = zero_valuation" by (simp add: sample_meaning_def)
  ultimately show ?thesis
    using integer_terms_exact [of sample_meaning "Int_Constant (- 7)" "Int_Constant 2" MUInt64
        "MachineIntegerCast sample_word MUInt8 MUInt64" "Machine MUInt8 sample_word" MUInt8 sample_word]
    by simp
qed

end
