(* ===== verification/IntegerReadings.thy ===== *)
theory IntegerReadings
  imports IntegerTerms ConditionOps
begin

text \<open>
  Comparisons of machine values read as comparisons of exact integers and back:
  \<^verbatim>\<open>native_comparison_of_integer_observation\<close>,
  \<^verbatim>\<open>integer_observations_of_native_comparison\<close> and the bounds of a definedness
  fact (\<^verbatim>\<open>src/src/kernel/assumptions.rs\<close>), with the order spellings they compare
  (\<^verbatim>\<open>src/src/kernel/proof/fact_reasoning.rs\<close>).
\<close>

section \<open>Spellings of an order\<close>

datatype order_operator = Order_LessThan | Order_LessEqual | Order_GreaterThan | Order_GreaterEqual

datatype 'x order_operands =
    Bitvector32Signed "'x bv" "'x bv"
  | Bitvector64Signed "'x bv" "'x bv"
  | Bitvector64Unsigned "'x bv" "'x bv"
  | Integer_Order "'x integer" "'x integer"

primrec mirrored :: "'x order_operands \<Rightarrow> 'x order_operands" where
  "mirrored (Bitvector32Signed l r) = Bitvector32Signed r l"
| "mirrored (Bitvector64Signed l r) = Bitvector64Signed r l"
| "mirrored (Bitvector64Unsigned l r) = Bitvector64Unsigned r l"
| "mirrored (Integer_Order l r) = Integer_Order r l"

fun order_condition :: "'x order_operands \<Rightarrow> order_operator \<Rightarrow> 'x condition" where
  "order_condition (Bitvector32Signed l r) op = Native (Compare (case op of
     Order_LessThan \<Rightarrow> Op_Bitvector32SignedLessThan | Order_LessEqual \<Rightarrow> Op_Bitvector32SignedLessEqual
   | Order_GreaterThan \<Rightarrow> Op_Bitvector32SignedGreaterThan
   | Order_GreaterEqual \<Rightarrow> Op_Bitvector32SignedGreaterEqual) l r)"
| "order_condition (Bitvector64Signed l r) op = Native (Compare (case op of
     Order_LessThan \<Rightarrow> Op_Bitvector64SignedLessThan | Order_LessEqual \<Rightarrow> Op_Bitvector64SignedLessEqual
   | Order_GreaterThan \<Rightarrow> Op_Bitvector64SignedGreaterThan
   | Order_GreaterEqual \<Rightarrow> Op_Bitvector64SignedGreaterEqual) l r)"
| "order_condition (Bitvector64Unsigned l r) op = Native (Compare (case op of
     Order_LessThan \<Rightarrow> Op_Bitvector64UnsignedLessThan | Order_LessEqual \<Rightarrow> Op_Bitvector64UnsignedLessEqual
   | Order_GreaterThan \<Rightarrow> Op_Bitvector64UnsignedGreaterThan
   | Order_GreaterEqual \<Rightarrow> Op_Bitvector64UnsignedGreaterEqual) l r)"
| "order_condition (Integer_Order l r) op = Integer_Relation (case op of
     Order_LessThan \<Rightarrow> Op_IntegerLessThan | Order_LessEqual \<Rightarrow> Op_IntegerLessEqual
   | Order_GreaterThan \<Rightarrow> Op_IntegerGreaterThan | Order_GreaterEqual \<Rightarrow> Op_IntegerGreaterEqual) l r"

definition order_condition_parts :: "'x condition \<Rightarrow> (order_operator \<times> 'x order_operands) option" where
  "order_condition_parts c = (case c of
     Native (Compare op l r) \<Rightarrow>
       (case op of
          Op_Bitvector32SignedLessThan \<Rightarrow> Some (Order_LessThan, Bitvector32Signed l r)
        | Op_Bitvector32SignedLessEqual \<Rightarrow> Some (Order_LessEqual, Bitvector32Signed l r)
        | Op_Bitvector32SignedGreaterThan \<Rightarrow> Some (Order_GreaterThan, Bitvector32Signed l r)
        | Op_Bitvector32SignedGreaterEqual \<Rightarrow> Some (Order_GreaterEqual, Bitvector32Signed l r)
        | Op_Bitvector64SignedLessThan \<Rightarrow> Some (Order_LessThan, Bitvector64Signed l r)
        | Op_Bitvector64SignedLessEqual \<Rightarrow> Some (Order_LessEqual, Bitvector64Signed l r)
        | Op_Bitvector64SignedGreaterThan \<Rightarrow> Some (Order_GreaterThan, Bitvector64Signed l r)
        | Op_Bitvector64SignedGreaterEqual \<Rightarrow> Some (Order_GreaterEqual, Bitvector64Signed l r)
        | Op_Bitvector64UnsignedLessThan \<Rightarrow> Some (Order_LessThan, Bitvector64Unsigned l r)
        | Op_Bitvector64UnsignedLessEqual \<Rightarrow> Some (Order_LessEqual, Bitvector64Unsigned l r)
        | Op_Bitvector64UnsignedGreaterThan \<Rightarrow> Some (Order_GreaterThan, Bitvector64Unsigned l r)
        | Op_Bitvector64UnsignedGreaterEqual \<Rightarrow> Some (Order_GreaterEqual, Bitvector64Unsigned l r)
        | _ \<Rightarrow> None)
   | Integer_Relation op l r \<Rightarrow>
       (case op of
          Op_IntegerLessThan \<Rightarrow> Some (Order_LessThan, Integer_Order l r)
        | Op_IntegerLessEqual \<Rightarrow> Some (Order_LessEqual, Integer_Order l r)
        | Op_IntegerGreaterThan \<Rightarrow> Some (Order_GreaterThan, Integer_Order l r)
        | Op_IntegerGreaterEqual \<Rightarrow> Some (Order_GreaterEqual, Integer_Order l r)
        | _ \<Rightarrow> None)
   | _ \<Rightarrow> None)"

text \<open>The sides in canonical direction, and whether the order is strict.\<close>

definition canonical_order_claim :: "'x condition \<Rightarrow> bool \<Rightarrow> ('x order_operands \<times> bool) option" where
  "canonical_order_claim c value =
     map_option (\<lambda>(op, sides).
       case (op, value) of
         (Order_LessThan, True) \<Rightarrow> (sides, True)
       | (Order_GreaterEqual, False) \<Rightarrow> (sides, True)
       | (Order_LessThan, False) \<Rightarrow> (mirrored sides, False)
       | (Order_GreaterEqual, True) \<Rightarrow> (mirrored sides, False)
       | (Order_LessEqual, True) \<Rightarrow> (sides, False)
       | (Order_GreaterThan, False) \<Rightarrow> (sides, False)
       | (Order_LessEqual, False) \<Rightarrow> (mirrored sides, True)
       | (Order_GreaterThan, True) \<Rightarrow> (mirrored sides, True))
     (order_condition_parts c)"

definition mirrored_equality :: "'x condition \<times> bool \<Rightarrow> ('x condition \<times> bool) option" where
  "mirrored_equality claim =
     (case fst claim of
        Integer_Relation op l r \<Rightarrow>
          if op = Op_IntegerEqual \<or> op = Op_IntegerNotEqual then Some (Integer_Relation op r l, snd claim)
          else None
      | Native (AlgebraicEqual l r) \<Rightarrow> Some (Native (AlgebraicEqual r l), snd claim)
      | Native (Compare op l r) \<Rightarrow>
          if op = Op_Bitvector32Equal \<or> op = Op_Bitvector64Equal
          then Some (Native (Compare op r l), snd claim) else None
      | Native (PointerOffsetEqual l r) \<Rightarrow> Some (Native (PointerOffsetEqual r l), snd claim)
      | Native (PointerEqual l r) \<Rightarrow> Some (Native (PointerEqual r l), snd claim)
      | Native (PointerValueEqual l r) \<Rightarrow> Some (Native (PointerValueEqual r l), snd claim)
      | _ \<Rightarrow> None)"

fun proposition_as_single_condition :: "'x prop_term \<Rightarrow> ('x condition \<times> bool) option" where
  "proposition_as_single_condition (ConditionIs c value) = Some (c, value)"
| "proposition_as_single_condition (Algebraic_Equality l r) = Some (Native (AlgebraicEqual l r), True)"
| "proposition_as_single_condition (Not_Proposition p) =
     map_option (\<lambda>(c, value). (c, \<not> value)) (proposition_as_single_condition p)"
| "proposition_as_single_condition _ = None"

text \<open>The four spellings of one order claim.\<close>

definition order_spellings :: "'x order_operands \<times> bool \<Rightarrow> ('x condition \<times> bool) list" where
  "order_spellings = (\<lambda>(sides, strict).
     if strict then
       [(order_condition sides Order_LessThan, True),
        (order_condition sides Order_GreaterEqual, False),
        (order_condition (mirrored sides) Order_LessEqual, False),
        (order_condition (mirrored sides) Order_GreaterThan, True)]
     else
       [(order_condition sides Order_LessEqual, True),
        (order_condition sides Order_GreaterThan, False),
        (order_condition (mirrored sides) Order_LessThan, False),
        (order_condition (mirrored sides) Order_GreaterEqual, True)])"

definition push_new :: "'a \<Rightarrow> 'a list \<Rightarrow> 'a list" where
  "push_new x xs = (if x \<in> set xs then xs else xs @ [x])"

definition condition_forms :: "'x condition \<times> bool \<Rightarrow> 'x prop_term list \<Rightarrow> 'x prop_term list" where
  "condition_forms = (\<lambda>(c, value) forms.
     (let forms = (case c of
            Native (AlgebraicEqual l r) \<Rightarrow>
              forms @ [if value then Algebraic_Equality l r else Not_Proposition (Algebraic_Equality l r)]
          | _ \<Rightarrow> forms)
      in push_new (Not_Proposition (ConditionIs c (\<not> value))) (push_new (ConditionIs c value) forms)))"

definition order_claim_forms :: "'x prop_term \<Rightarrow> 'x prop_term list" where
  "order_claim_forms p =
     (case proposition_as_single_condition p of
        None \<Rightarrow> []
      | Some (c, value) \<Rightarrow>
          (let conditions = (c, value)
                 # (case canonical_order_claim c value of None \<Rightarrow> [] | Some claim \<Rightarrow> order_spellings claim);
               conditions = conditions @ List.map_filter mirrored_equality conditions
           in fold condition_forms conditions []))"

section \<open>From integers to machine values\<close>

datatype observed_relation = Rel_Less | Rel_LessEqual | Rel_Equal | Rel_NotEqual

text \<open>A comparison as one of four relations, negated when it is filed false.\<close>

definition observed_relation ::
  "integer_comparison \<Rightarrow> bool \<Rightarrow> 'x integer \<Rightarrow> 'x integer \<Rightarrow> observed_relation \<times> 'x integer \<times> 'x integer"
where
  "observed_relation op value left right =
     (let (relation, left, right) =
        (case op of
           Op_IntegerLessThan \<Rightarrow> (Rel_Less, left, right)
         | Op_IntegerLessEqual \<Rightarrow> (Rel_LessEqual, left, right)
         | Op_IntegerGreaterThan \<Rightarrow> (Rel_Less, right, left)
         | Op_IntegerGreaterEqual \<Rightarrow> (Rel_LessEqual, right, left)
         | Op_IntegerEqual \<Rightarrow> (Rel_Equal, left, right)
         | Op_IntegerNotEqual \<Rightarrow> (Rel_NotEqual, left, right))
      in if value then (relation, left, right)
         else
           (case relation of
              Rel_Less \<Rightarrow> (Rel_LessEqual, right, left)
            | Rel_LessEqual \<Rightarrow> (Rel_Less, right, left)
            | Rel_Equal \<Rightarrow> (Rel_NotEqual, left, right)
            | Rel_NotEqual \<Rightarrow> (Rel_Equal, left, right)))"

definition observed_type :: "'x integer \<Rightarrow> 'x integer \<Rightarrow> machine_integer_type option" where
  "observed_type left right =
     (case (left, right) of
        (Machine l _, Machine r _) \<Rightarrow> if l = r then Some l else None
      | (Machine ty _, Int_Constant _) \<Rightarrow> Some ty
      | (Int_Constant _, Machine ty _) \<Rightarrow> Some ty
      | _ \<Rightarrow> None)"

definition native_carrier :: "machine_integer_type \<Rightarrow> 'x integer \<Rightarrow> 'x bv option" where
  "native_carrier ty side =
     (case side of
        Machine _ t \<Rightarrow> Some t
      | Int_Constant v \<Rightarrow> Option.bind (from_integer (type_format ty) v) (constant_term ty)
      | _ \<Rightarrow> None)"

definition native_relation ::
  "'x block_registry \<Rightarrow> ('x bv \<Rightarrow> 'x bv \<Rightarrow> bool) \<Rightarrow> observed_relation \<Rightarrow> machine_integer_type \<Rightarrow> 'x bv \<Rightarrow> 'x bv \<Rightarrow> 'x cond"
where
  "native_relation reg below relation ty left right =
     (if relation = Rel_Less then
        (if ty = MInt32 then signed_less_than left right
         else if ty = MUInt32 then unsigned_less_than below left right
         else if ty = MInt64 then int64_signed_less_than left right
         else uint64_less_than left right)
      else if relation = Rel_LessEqual then
        (if ty = MInt32 then signed_less_equal left right
         else if ty = MUInt32 then unsigned_less_equal below left right
         else if ty = MInt64 then int64_signed_less_equal left right
         else uint64_less_equal left right)
      else if ty = MInt32 \<or> ty = MUInt32 then equal_terms left right
      else if ty = MInt64 then int64_equal reg left right
      else uint64_equal reg left right)"

definition native_comparison_of_integer_observation ::
  "'x block_registry \<Rightarrow> ('x bv \<Rightarrow> 'x bv \<Rightarrow> bool) \<Rightarrow> 'x condition \<Rightarrow> bool \<Rightarrow> ('x cond \<times> bool) option"
where
  "native_comparison_of_integer_observation reg below c value =
     (case c of
        Native _ \<Rightarrow> None
      | Integer_Relation op left right \<Rightarrow>
          (let (relation, left, right) = observed_relation op value left right in
           case observed_type left right of
             None \<Rightarrow> None
           | Some ty \<Rightarrow>
               if ty \<notin> {MInt32, MUInt32, MInt64, MUInt64} then None
               else
                 (case (native_carrier ty left, native_carrier ty right) of
                    (Some l, Some r) \<Rightarrow>
                      Some (native_relation reg below relation ty l r, relation \<noteq> Rel_NotEqual)
                  | _ \<Rightarrow> None)))"

section \<open>From machine values to integers\<close>

text \<open>The carrier an unsigned 32-bit order compares, before its sign-bit encoding.\<close>

definition unsigned_carrier :: "'x bv \<Rightarrow> 'x bv option" where
  "unsigned_carrier side =
     (case side of
        Constant w \<Rightarrow> Some (Constant (w XOR 0x80000000))
      | Binary op a b \<Rightarrow>
          if op = Op_BitwiseXor then
            (if a = Constant 0x80000000 then Some b
             else if b = Constant 0x80000000 then Some a else None)
          else None
      | _ \<Rightarrow> None)"

definition observation_types :: "comparison \<Rightarrow> machine_integer_type list" where
  "observation_types op =
     (if op \<in> {Op_Bitvector32SignedLessThan, Op_Bitvector32SignedLessEqual,
               Op_Bitvector32SignedGreaterThan, Op_Bitvector32SignedGreaterEqual} then [MUInt32, MInt32]
      else if op = Op_Bitvector32Equal then [MInt32, MUInt32]
      else if op \<in> {Op_Bitvector64SignedLessThan, Op_Bitvector64SignedLessEqual,
               Op_Bitvector64SignedGreaterThan, Op_Bitvector64SignedGreaterEqual} then [MInt64]
      else if op = Op_Bitvector64Equal then [MInt64, MUInt64]
      else if op \<in> {Op_Bitvector64UnsignedLessThan, Op_Bitvector64UnsignedLessEqual,
               Op_Bitvector64UnsignedGreaterThan, Op_Bitvector64UnsignedGreaterEqual} then [MUInt64]
      else [])"

definition observation_candidates :: "'x integer \<Rightarrow> 'x integer \<Rightarrow> bool \<Rightarrow> ('x condition \<times> bool) list" where
  "observation_candidates left right value =
     [(Integer_Relation Op_IntegerLessEqual left right, True),
      (Integer_Relation Op_IntegerLessThan left right, True),
      (Integer_Relation Op_IntegerLessEqual right left, True),
      (Integer_Relation Op_IntegerLessThan right left, True),
      (Integer_Relation Op_IntegerEqual left right, value)]"

definition native_matches ::
  "'x block_registry \<Rightarrow> ('x bv \<Rightarrow> 'x bv \<Rightarrow> bool) \<Rightarrow> 'x prop_term \<Rightarrow> 'x condition \<times> bool \<Rightarrow> bool"
where
  "native_matches reg below p = (\<lambda>(candidate, truth).
     case native_comparison_of_integer_observation reg below candidate truth of
       None \<Rightarrow> False
     | Some (native, native_truth) \<Rightarrow>
         ConditionIs (Native native) native_truth = p
         \<or> ConditionIs (Native native) native_truth \<in> set (order_claim_forms p))"

definition observation_of_type ::
  "'x block_registry \<Rightarrow> ('x bv \<Rightarrow> 'x bv \<Rightarrow> bool) \<Rightarrow> comparison \<Rightarrow> 'x bv \<Rightarrow> 'x bv \<Rightarrow> bool
   \<Rightarrow> machine_integer_type \<Rightarrow> 'x prop_term option"
where
  "observation_of_type reg below op left right value ty =
     (case (if ty = MUInt32 \<and> op \<noteq> Op_Bitvector32Equal
            then (unsigned_carrier left, unsigned_carrier right) else (Some left, Some right)) of
        (Some l, Some r) \<Rightarrow>
          (case (from_machine ty l, from_machine ty r) of
             (Some l, Some r) \<Rightarrow>
               map_option (\<lambda>(candidate, truth). ConditionIs candidate truth)
                 (find (native_matches reg below (ConditionIs (Native (Compare op left right)) value))
                   (observation_candidates l r value))
           | _ \<Rightarrow> None)
      | _ \<Rightarrow> None)"

definition integer_observations_of_native_comparison ::
  "'x block_registry \<Rightarrow> ('x bv \<Rightarrow> 'x bv \<Rightarrow> bool) \<Rightarrow> 'x prop_term \<Rightarrow> 'x prop_term list"
where
  "integer_observations_of_native_comparison reg below p =
     (case p of
        ConditionIs (Native (Compare op left right)) value \<Rightarrow>
          List.map_filter (observation_of_type reg below op left right value) (observation_types op)
      | _ \<Rightarrow> [])"

section \<open>Definedness\<close>

definition definedness_operation ::
  "comparison \<Rightarrow> (machine_integer_type \<times> ('x integer \<Rightarrow> 'x integer \<Rightarrow> 'x integer)) option"
where
  "definedness_operation op = (case op of
     Op_Bitvector32SignedAddOverflows \<Rightarrow> Some (MInt32, integer_add)
   | Op_Bitvector32SignedSubtractOverflows \<Rightarrow> Some (MInt32, integer_subtract)
   | Op_Bitvector32SignedMultiplyOverflows \<Rightarrow> Some (MInt32, integer_multiply)
   | Op_Bitvector64SignedAddOverflows \<Rightarrow> Some (MInt64, integer_add)
   | Op_Bitvector64SignedSubtractOverflows \<Rightarrow> Some (MInt64, integer_subtract)
   | Op_Bitvector64SignedMultiplyOverflows \<Rightarrow> Some (MInt64, integer_multiply)
   | _ \<Rightarrow> None)"

definition definedness_limits :: "machine_integer_type \<Rightarrow> int \<times> int" where
  "definedness_limits ty = (if ty = MInt32 then (- (2 ^ 31), 2 ^ 31 - 1) else (- (2 ^ 63), 2 ^ 63 - 1))"

definition integer_bounds_of_definedness :: "'x prop_term \<Rightarrow> 'x prop_term list" where
  "integer_bounds_of_definedness p =
     (case p of
        ConditionIs (Native (Compare op left right)) False \<Rightarrow>
          (case definedness_operation op of
             None \<Rightarrow> []
           | Some (ty, operation) \<Rightarrow>
               (case (from_machine ty left, from_machine ty right) of
                  (Some l, Some r) \<Rightarrow>
                    (let (minimum, maximum) = definedness_limits ty; exact = operation l r in
                     [ConditionIs (integer_less_equal exact (Int_Constant maximum)) True,
                      ConditionIs (integer_greater_equal exact (Int_Constant minimum)) True])
                | _ \<Rightarrow> []))
      | _ \<Rightarrow> [])"

definition operation_operands :: "'x integer \<Rightarrow> ('x integer \<times> 'x integer) option" where
  "operation_operands t = (case t of
     Int_Add l r \<Rightarrow> Some (l, r) | Int_Subtract l r \<Rightarrow> Some (l, r) | Int_Multiply l r \<Rightarrow> Some (l, r)
   | _ \<Rightarrow> None)"

definition bound_carrier :: "machine_integer_type \<Rightarrow> 'x integer \<Rightarrow> 'x bv option" where
  "bound_carrier ty side =
     (case side of
        Machine ty' t \<Rightarrow> if ty' = ty then Some t else None
      | Int_Constant v \<Rightarrow>
          if - (2 ^ 63) \<le> v \<and> v < 2 ^ 63 then
            (if ty = MInt32 then
               (if - (2 ^ 31) \<le> v \<and> v < 2 ^ 31 then Some (Constant (word_of_int v)) else None)
             else if ty = MInt64 then Some (Int64Constant (word_of_int v)) else None)
          else None
      | _ \<Rightarrow> None)"

definition definedness_candidates :: "machine_integer_type \<Rightarrow> comparison list" where
  "definedness_candidates ty =
     (if ty = MInt32 then [Op_Bitvector32SignedAddOverflows, Op_Bitvector32SignedSubtractOverflows,
                           Op_Bitvector32SignedMultiplyOverflows]
      else if ty = MInt64 then [Op_Bitvector64SignedAddOverflows, Op_Bitvector64SignedSubtractOverflows,
                                Op_Bitvector64SignedMultiplyOverflows]
      else [])"

definition machine_type_of :: "'x integer \<Rightarrow> 'x integer \<Rightarrow> machine_integer_type option" where
  "machine_type_of left right =
     (case (left, right) of
        (Machine ty _, _) \<Rightarrow> Some ty
      | (_, Machine ty _) \<Rightarrow> Some ty
      | _ \<Rightarrow> None)"

definition definedness_of_integer_bound :: "'x prop_term \<Rightarrow> 'x prop_term option" where
  "definedness_of_integer_bound bound =
     (case bound of
        ConditionIs (Integer_Relation op first second) True \<Rightarrow>
          if op \<noteq> Op_IntegerLessEqual \<and> op \<noteq> Op_IntegerGreaterEqual then None
          else
            (case operation_operands (if operation_operands first \<noteq> None then first else second) of
               None \<Rightarrow> None
             | Some (left, right) \<Rightarrow>
                 Option.bind (machine_type_of left right) (\<lambda>ty.
                 Option.bind (bound_carrier ty left) (\<lambda>a.
                 Option.bind (bound_carrier ty right) (\<lambda>b.
                   find (\<lambda>fact. bound \<in> set (integer_bounds_of_definedness fact))
                     (map (\<lambda>op. ConditionIs (Native (Compare op a b)) False) (definedness_candidates ty))))))
      | _ \<Rightarrow> None)"

section \<open>Spellings mean the same\<close>

fun operand_values :: "'x meaning \<Rightarrow> 'x order_operands \<Rightarrow> int \<times> int" where
  "operand_values M (Bitvector32Signed l r) =
     (sint (low32 (bv_value (machine_values M) l)), sint (low32 (bv_value (machine_values M) r)))"
| "operand_values M (Bitvector64Signed l r) =
     (sint (low64 (bv_value (machine_values M) l)), sint (low64 (bv_value (machine_values M) r)))"
| "operand_values M (Bitvector64Unsigned l r) =
     (uint (low64 (bv_value (machine_values M) l)), uint (low64 (bv_value (machine_values M) r)))"
| "operand_values M (Integer_Order l r) = (integer_value M l, integer_value M r)"

definition ordered :: "order_operator \<Rightarrow> int \<times> int \<Rightarrow> bool" where
  "ordered op = (\<lambda>(a, b). case op of
     Order_LessThan \<Rightarrow> a < b | Order_LessEqual \<Rightarrow> a \<le> b
   | Order_GreaterThan \<Rightarrow> b < a | Order_GreaterEqual \<Rightarrow> b \<le> a)"

lemma order_condition_value: "condition_value M (order_condition sides op) = ordered op (operand_values M sides)"
  by (cases sides; cases op; simp add: ordered_def compare_value_def integer_compare_def word_less_def word_le_def)

lemma order_condition_parts_condition:
  "order_condition_parts c = Some (op, sides) \<Longrightarrow> c = order_condition sides op"
  by (auto simp: order_condition_parts_def split: condition.splits cond.splits comparison.splits integer_comparison.splits)

lemma operand_values_mirrored: "operand_values M (mirrored sides) = prod.swap (operand_values M sides)"
  by (cases sides) simp_all

lemma order_spellings_mean:
  assumes "canonical_order_claim c value = Some claim" and "(c', value') \<in> set (order_spellings claim)"
  shows "(condition_value M c' = value') = (condition_value M c = value)"
proof -
  obtain op sides where parts: "order_condition_parts c = Some (op, sides)"
    using assms(1) by (auto simp: canonical_order_claim_def)
  have c: "condition_value M c = ordered op (operand_values M sides)"
    using order_condition_parts_condition [OF parts] by (simp add: order_condition_value)
  show ?thesis
    using assms parts
    by (cases op; cases "value"; cases "operand_values M sides")
      (auto simp: c canonical_order_claim_def order_spellings_def order_condition_value operand_values_mirrored ordered_def)
qed

text \<open>Order spellings and swapped equalities of comparisons; the other equalities are opaque.\<close>

definition compares :: "'x condition \<Rightarrow> bool" where
  "compares c \<longleftrightarrow> (case c of Native (Compare _ _ _) \<Rightarrow> True | Integer_Relation _ _ _ \<Rightarrow> True | _ \<Rightarrow> False)"

lemma compares_order_condition [simp]: "compares (order_condition sides op)"
  by (cases sides; simp add: compares_def)

lemma spellings_compare: "(c, value) \<in> set (order_spellings claim) \<Longrightarrow> compares c"
  by (cases claim) (auto simp: order_spellings_def split: if_splits)

lemma mirrored_equality_means:
  "mirrored_equality (c, value) = Some (c', value') \<Longrightarrow> compares c \<Longrightarrow>
   compares c' \<and> (condition_value M c' = value') = (condition_value M c = value)"
  by (cases c) (auto simp: mirrored_equality_def compares_def compare_value_def integer_compare_def
      split: cond.splits if_splits)

lemma order_claim_forms_mean:
  assumes "compares c" and "q \<in> set (order_claim_forms (ConditionIs c value))"
  shows "holds M q \<longleftrightarrow> condition_value M c = value"
proof -
  define same where "same x \<longleftrightarrow> (case x of (c', value') \<Rightarrow>
    compares c' \<and> (condition_value M c' = value') = (condition_value M c = value))" for x
  define conditions where "conditions = (c, value)
    # (case canonical_order_claim c value of None \<Rightarrow> [] | Some claim \<Rightarrow> order_spellings claim)"
  have spelled: "same x" if "canonical_order_claim c value = Some claim" "x \<in> set (order_spellings claim)"
    for claim x
    using order_spellings_mean [of c "value" claim "fst x" "snd x" M] spellings_compare [of "fst x" "snd x" claim] that
    by (cases x) (simp add: same_def)
  moreover have "same (c, value)" using assms(1) by (simp add: same_def)
  ultimately have first: "\<forall>x \<in> set conditions. same x"
    by (cases "canonical_order_claim c value") (auto simp: conditions_def)
  then have "\<forall>x \<in> set (List.map_filter mirrored_equality conditions). same x"
    using first mirrored_equality_means by (fastforce simp: same_def map_filter_def)
  with first have all: "\<forall>x \<in> set (conditions @ List.map_filter mirrored_equality conditions). same x" by auto
  have step: "\<forall>q \<in> set forms. holds M q = (condition_value M c = value) \<Longrightarrow> same x \<Longrightarrow>
      \<forall>q \<in> set (condition_forms x forms). holds M q = (condition_value M c = value)" for x forms
    by (cases x) (auto simp: condition_forms_def push_new_def same_def compares_def Let_def
        split: condition.splits cond.splits if_splits)
  have "\<forall>q \<in> set (fold condition_forms xs forms). holds M q = (condition_value M c = value)"
    if "\<forall>x \<in> set xs. same x" "\<forall>q \<in> set forms. holds M q = (condition_value M c = value)" for xs forms
    using that
  proof (induction xs arbitrary: forms)
    case (Cons x xs)
    have "\<forall>q \<in> set (condition_forms x forms). holds M q = (condition_value M c = value)"
      using Cons.prems by (intro step) simp_all
    moreover have "\<forall>x \<in> set xs. same x" using Cons.prems(1) by simp
    ultimately have "\<forall>q \<in> set (fold condition_forms xs (condition_forms x forms)).
        holds M q = (condition_value M c = value)"
      by (intro Cons.IH)
    then show ?case by (simp only: fold.simps comp_def)
  qed simp
  from this [OF all, of "[]"]
  have forms: "\<forall>q \<in> set (fold condition_forms (conditions @ List.map_filter mirrored_equality conditions) []).
      holds M q = (condition_value M c = value)" by simp
  have "order_claim_forms (ConditionIs c value) =
      fold condition_forms (conditions @ List.map_filter mirrored_equality conditions) []"
    by (simp add: order_claim_forms_def conditions_def)
  with forms assms(2) show ?thesis by metis
qed

section \<open>Readings are exact\<close>

lemma found: "find P xs = Some x \<Longrightarrow> x \<in> set xs \<and> P x"
  by (metis find_Some_iff nth_mem)

text \<open>What a 64-bit observation asks of its term for the native constructors to be exact.\<close>

definition native_operand :: "'x block_registry \<Rightarrow> 'x valuation \<Rightarrow> 'x bv \<Rightarrow> bool" where
  "native_operand reg \<rho> t \<longleftrightarrow> carries Width64 t \<and> null_only reg \<rho> t"

definition observation_ok :: "'x block_registry \<Rightarrow> 'x valuation \<Rightarrow> 'x integer \<Rightarrow> bool" where
  "observation_ok reg \<rho> i \<longleftrightarrow>
     (\<forall>ty t. i = Machine ty t \<longrightarrow> type_bits ty = 64 \<longrightarrow> native_operand reg \<rho> t)"

definition relates :: "observed_relation \<Rightarrow> int \<Rightarrow> int \<Rightarrow> bool" where
  "relates relation a b = (case relation of
     Rel_Less \<Rightarrow> a < b | Rel_LessEqual \<Rightarrow> a \<le> b | Rel_Equal \<Rightarrow> a = b | Rel_NotEqual \<Rightarrow> a \<noteq> b)"

lemma observed_relation_means:
  assumes "observed_relation op value l r = (relation, l', r')"
  shows "relates relation (integer_value M l') (integer_value M r') \<longleftrightarrow>
    integer_compare op (integer_value M l) (integer_value M r) = value"
    and "l' = l \<and> r' = r \<or> l' = r \<and> r' = l"
  using assms
  by (cases op; cases "value"; auto simp: observed_relation_def relates_def integer_compare_def)+

lemma constant_term_operand:
  "constant_term ty c = Some t \<Longrightarrow> type_bits ty = 64 \<Longrightarrow> native_operand reg \<rho> t"
  by (cases ty) (auto simp: constant_term_def native_operand_def carries_def null_only_def split: if_splits)

lemma native_carrier_reading:
  assumes "native_carrier ty side = Some t" and "observed_type l r = Some ty" and "side = l \<or> side = r"
    and "observation_ok reg \<rho> side" and "machine_values M = \<rho>"
  shows "carrier_reading ty (bv_value \<rho> t) = integer_value M side"
    and "type_bits ty = 64 \<longrightarrow> native_operand reg \<rho> t"
proof -
  consider "side = Machine ty t"
    | v where "side = Int_Constant v" "Option.bind (from_integer (type_format ty) v) (constant_term ty) = Some t"
    using assms(1-3) by (cases side) (auto simp: native_carrier_def observed_type_def split: integer.splits if_splits)
  then have "carrier_reading ty (bv_value \<rho> t) = integer_value M side
      \<and> (type_bits ty = 64 \<longrightarrow> native_operand reg \<rho> t)"
  proof cases
    case 1
    then show ?thesis using assms(4,5) by (simp add: observation_ok_def)
  next
    case 2
    then have v: "representable (type_format ty) v" "constant_term ty (constant_of (type_format ty) v) = Some t"
      by (auto simp: from_integer_spec split: if_splits)
    obtain u :: "'a bv" where "constant_term ty (constant_of (type_format ty) v) = Some u"
        "carrier_reading ty (bv_value \<rho> u) = v"
      using constant_term_reading [OF v(1)] by metis
    with v 2 constant_term_operand [OF v(2)] show ?thesis by simp
  qed
  then show "carrier_reading ty (bv_value \<rho> t) = integer_value M side"
    and "type_bits ty = 64 \<longrightarrow> native_operand reg \<rho> t" by auto
qed

lemma uint_inject: "uint a = uint b \<longleftrightarrow> a = (b :: 'a::len word)"
  by (simp flip: word_uint_eq_iff)

lemma native_relation_means:
  assumes ty: "ty \<in> {MInt32, MUInt32, MInt64, MUInt64}" and null: "null_at_zero \<rho>"
    and ok: "type_bits ty = 64 \<longrightarrow> native_operand reg \<rho> l" "type_bits ty = 64 \<longrightarrow> native_operand reg \<rho> r"
  shows "(cond_value \<rho> (native_relation reg below relation ty l r) = (relation \<noteq> Rel_NotEqual)) \<longleftrightarrow>
    relates relation (carrier_reading ty (bv_value \<rho> l)) (carrier_reading ty (bv_value \<rho> r))"
proof -
  note words = word_less_def [symmetric] word_le_def [symmetric] sint_inject uint_inject
  note readings = native_relation_def relates_def native_readings words
  consider "ty = MInt32" | "ty = MUInt32" | (wide) "ty = MInt64 \<or> ty = MUInt64" using ty by auto
  then show ?thesis
  proof cases
    case 1
    then show ?thesis
      using signed_orders_mean [of \<rho> l r, unfolded cond_means_def] by (cases relation; simp add: readings)
  next
    case 2
    then show ?thesis
      using signed_orders_mean(5) [of \<rho> l r, unfolded cond_means_def]
        unsigned_orders_mean [of \<rho> l r below, unfolded cond_means_def] by (cases relation; simp add: readings)
  next
    case wide
    then have w: "wide_operands \<rho> l r" "null_only reg \<rho> l" "null_only reg \<rho> r"
      using ok null by (auto simp: native_operand_def wide_operands_def)
    from wide show ?thesis
      using int64_orders_mean [of \<rho> l r, unfolded cond_means_def]
        uint64_orders_mean [OF w(1), unfolded cond_means_def]
        uint64_less_than_means [OF w(1), unfolded cond_means_def] int64_equal_means [OF w, unfolded cond_means_def]
      by (elim disjE; cases relation; simp add: readings uint64_equal_def)
  qed
qed

lemma native_comparison_means:
  assumes "native_comparison_of_integer_observation reg below c value = Some (native, truth)"
    and null: "null_at_zero (machine_values M)"
    and ok: "\<And>op l r. c = Integer_Relation op l r \<Longrightarrow>
      observation_ok reg (machine_values M) l \<and> observation_ok reg (machine_values M) r"
  shows "(cond_value (machine_values M) native = truth) \<longleftrightarrow> (condition_value M c = value)"
proof -
  obtain op left right where c: "c = Integer_Relation op left right"
    using assms(1) by (auto simp: native_comparison_of_integer_observation_def split: condition.splits)
  obtain relation l r where rel: "observed_relation op value left right = (relation, l, r)"
    by (rule prod_cases3)
  obtain ty l' r' where ty: "observed_type l r = Some ty" "ty \<in> {MInt32, MUInt32, MInt64, MUInt64}"
      "native_carrier ty l = Some l'" "native_carrier ty r = Some r'"
    and native: "native = native_relation reg below relation ty l' r'" "truth = (relation \<noteq> Rel_NotEqual)"
    using assms(1) by (auto simp: native_comparison_of_integer_observation_def c rel split: option.splits if_splits)
  have sides: "observation_ok reg (machine_values M) l" "observation_ok reg (machine_values M) r"
    using ok [OF c] observed_relation_means(2) [OF rel] by auto
  note left = native_carrier_reading [OF ty(3,1) _ sides(1) refl]
  note right = native_carrier_reading [OF ty(4,1) _ sides(2) refl]
  have "(cond_value (machine_values M) native = truth) \<longleftrightarrow>
      relates relation (integer_value M l) (integer_value M r)"
    using native_relation_means [OF ty(2) null left(2) right(2)] left(1) right(1) by (simp add: native)
  then show ?thesis using observed_relation_means(1) [OF rel, of M] by (simp add: c)
qed

text \<open>
  What the native comparisons of a proposition ask for: the operands of a 64-bit one are
  64-bit terms whose addresses are null only at the null pointer.
\<close>

definition condition_ok :: "'x block_registry \<Rightarrow> 'x valuation \<Rightarrow> 'x condition \<Rightarrow> bool" where
  "condition_ok reg \<rho> c =
     (case c of
        Native (Compare op l r) \<Rightarrow>
          (\<exists>ty \<in> set (observation_types op). type_bits ty = 64) \<longrightarrow> native_operand reg \<rho> l \<and> native_operand reg \<rho> r
      | Integer_Relation op l r \<Rightarrow> observation_ok reg \<rho> l \<and> observation_ok reg \<rho> r
      | _ \<Rightarrow> True)"

lemma from_machine_ok:
  assumes "from_machine ty t = Some i" and "type_bits ty \<le> 64" and "type_bits ty = 64 \<Longrightarrow> native_operand reg \<rho> t"
  shows "observation_ok reg \<rho> i"
  using assms from_machine_narrows [of ty t] by (fastforce simp: observation_ok_def)

lemma observation_types_narrow: "ty \<in> set (observation_types op) \<Longrightarrow> type_bits ty \<le> 64"
  by (auto simp: observation_types_def split: if_splits)

lemma native_matches_means:
  assumes "native_matches reg below (ConditionIs (Native (Compare op l r)) value) (c, truth)"
    and "null_at_zero (machine_values M)" and "condition_ok reg (machine_values M) c"
  shows "(condition_value M c = truth) \<longleftrightarrow> (cond_value (machine_values M) (Compare op l r) = value)"
proof -
  let ?p = "ConditionIs (Native (Compare op l r)) value"
  obtain native native_truth where
      native: "native_comparison_of_integer_observation reg below c truth = Some (native, native_truth)"
    and same: "ConditionIs (Native native) native_truth = ?p
      \<or> ConditionIs (Native native) native_truth \<in> set (order_claim_forms ?p)"
    using assms(1) by (auto simp: native_matches_def split: option.splits)
  have "compares (Native (Compare op l r) :: 'a condition)" by (simp add: compares_def)
  then have "holds M (ConditionIs (Native native) native_truth) = (condition_value M (Native (Compare op l r)) = value)"
    using same by (elim disjE) (auto dest: order_claim_forms_mean)
  moreover have "(cond_value (machine_values M) native = native_truth) \<longleftrightarrow> (condition_value M c = truth)"
    using native assms(2) by (rule native_comparison_means) (use assms(3) in \<open>simp add: condition_ok_def\<close>)
  ultimately show ?thesis by simp
qed

lemma integer_observations_exact:
  assumes "q \<in> set (integer_observations_of_native_comparison reg below (ConditionIs c value))"
    and "null_at_zero (machine_values M)" and "condition_ok reg (machine_values M) c"
  shows "holds M q \<longleftrightarrow> condition_value M c = value"
proof -
  obtain op left right ty where c: "c = Native (Compare op left right)" and ty: "ty \<in> set (observation_types op)"
    and q: "observation_of_type reg below op left right value ty = Some q"
    using assms(1)
    by (auto simp: integer_observations_of_native_comparison_def map_filter_def
        split: condition.splits cond.splits)
  obtain l r l' r' candidate truth where "from_machine ty l = Some l'" "from_machine ty r = Some r'"
      and lr: "type_bits ty = 64 \<Longrightarrow> l = left \<and> r = right"
      and find: "find (native_matches reg below (ConditionIs (Native (Compare op left right)) value))
        (observation_candidates l' r' value) = Some (candidate, truth)" and q': "q = ConditionIs candidate truth"
    using q by (auto simp: observation_of_type_def split: option.splits if_splits)
  moreover have "type_bits ty = 64 \<Longrightarrow> native_operand reg (machine_values M) left \<and> native_operand reg (machine_values M) right"
    using assms(3) ty by (auto simp: c condition_ok_def)
  ultimately have ok: "observation_ok reg (machine_values M) l'" "observation_ok reg (machine_values M) r'"
    using observation_types_narrow [OF ty] from_machine_ok by metis+
  have "(candidate, truth) \<in> set (observation_candidates l' r' value)"
    "native_matches reg below (ConditionIs (Native (Compare op left right)) value) (candidate, truth)"
    using find by (auto dest: found)
  with ok have "condition_ok reg (machine_values M) candidate"
    by (auto simp: observation_candidates_def condition_ok_def)
  with native_matches_means [OF _ assms(2) this] show ?thesis
    using \<open>native_matches reg below _ _\<close> by (simp add: q' c)
qed

lemma definedness_exact:
  fixes p :: "'x prop_term"
  assumes "integer_bounds_of_definedness p \<noteq> []"
  shows "holds M p \<longleftrightarrow> (\<forall>q \<in> set (integer_bounds_of_definedness p). holds M q)"
proof -
  obtain op left right ty l r and operation :: "'x integer \<Rightarrow> 'x integer \<Rightarrow> 'x integer"
    where p: "p = ConditionIs (Native (Compare op left right)) False"
    and op: "definedness_operation op = Some (ty, operation)"
    and lr: "from_machine ty left = Some l" "from_machine ty right = Some r"
    using assms by (auto simp: integer_bounds_of_definedness_def split: prop_term.splits condition.splits
        cond.splits bool.splits option.splits)
  obtain minimum maximum where limits: "definedness_limits ty = (minimum, maximum)" by (rule prod.exhaust)
  have bounds: "integer_bounds_of_definedness p =
      [ConditionIs (integer_less_equal (operation l r) (Int_Constant maximum)) True,
       ConditionIs (integer_greater_equal (operation l r) (Int_Constant minimum)) True]"
    using op lr limits by (simp add: p integer_bounds_of_definedness_def Let_def)
  have within: "(\<forall>q \<in> set (integer_bounds_of_definedness p). holds M q) \<longleftrightarrow>
      minimum \<le> integer_value M (operation l r) \<and> integer_value M (operation l r) \<le> maximum"
    unfolding bounds
    by (auto simp: integer_less_equal_def integer_greater_equal_def integer_comparison_term_value integer_compare_def)
  note readings = from_machine_value [OF lr(1), of M] from_machine_value [OF lr(2), of M]
  have "holds M p \<longleftrightarrow> minimum \<le> integer_value M (operation l r) \<and> integer_value M (operation l r) \<le> maximum"
    using op limits readings
    by (cases op; simp add: p definedness_operation_def definedness_limits_def;
        fastforce simp: compare_value_def overflow32_def overflow64_def native_readings integer_constructors)
  then show ?thesis using within by simp
qed

section \<open>Properties\<close>

text \<open>C13: Every integer condition the kernel reads off a native comparison, every native
  comparison it reads off an integer condition, and the two bounds it reads off a
  definedness fact hold exactly when the fact they were read from holds, for 32-bit facts
  always and for 64-bit facts over 64-bit operands whose addresses are null only at the
  null pointer.\<close>

theorem readings_exact:
  assumes "null_at_zero (machine_values M)" and "condition_ok reg (machine_values M) c"
  shows "(\<forall>q \<in> set (integer_observations_of_native_comparison reg below (ConditionIs c value)).
      holds M q \<longleftrightarrow> holds M (ConditionIs c value))
    \<and> (\<forall>native truth. native_comparison_of_integer_observation reg below c value = Some (native, truth) \<longrightarrow>
        (holds M (ConditionIs (Native native) truth) \<longleftrightarrow> holds M (ConditionIs c value)))
    \<and> (integer_bounds_of_definedness (ConditionIs c value) \<noteq> [] \<longrightarrow>
        (holds M (ConditionIs c value) \<longleftrightarrow>
         (\<forall>q \<in> set (integer_bounds_of_definedness (ConditionIs c value)). holds M q)))"
proof (intro conjI allI ballI impI)
  have relation: "observation_ok reg (machine_values M) l \<and> observation_ok reg (machine_values M) r"
    if "c = Integer_Relation op l r" for op l r
    using assms(2) that by (simp add: condition_ok_def)
  show "holds M q \<longleftrightarrow> holds M (ConditionIs c value)"
    if "q \<in> set (integer_observations_of_native_comparison reg below (ConditionIs c value))" for q
    using integer_observations_exact [OF that assms] by simp
  show "holds M (ConditionIs (Native native) truth) \<longleftrightarrow> holds M (ConditionIs c value)"
    if "native_comparison_of_integer_observation reg below c value = Some (native, truth)" for native truth
    using native_comparison_means [OF that assms(1) relation] by simp
  show "holds M (ConditionIs c value) \<longleftrightarrow>
      (\<forall>q \<in> set (integer_bounds_of_definedness (ConditionIs c value)). holds M q)"
    if "integer_bounds_of_definedness (ConditionIs c value) \<noteq> []"
    using that by (rule definedness_exact)
qed

text \<open>
  At zero: that a 64-bit variable is at most five, read as an integer comparison, holds of
  the observation of the variable.
\<close>

lemma sample_word_operand: "native_operand reg \<rho> sample_word"
  by (simp add: native_operand_def sample_word_def carries_def null_only_def)

lemma sample_meaning_null: "null_at_zero (machine_values sample_meaning)"
  by (simp add: sample_meaning_def zero_valuation_null)

theorem readings_exact_witness:
  "integer_observations_of_native_comparison bare_registry (\<lambda>_ _. False)
      (ConditionIs (Native (Bitvector64UnsignedLessEqual sample_word (UInt64Constant 5))) True)
    = [ConditionIs (Integer_Relation Op_IntegerLessEqual (Machine MUInt64 sample_word) (Int_Constant 5)) True]
   \<and> holds sample_meaning
      (ConditionIs (Integer_Relation Op_IntegerLessEqual (Machine MUInt64 sample_word) (Int_Constant 5)) True)"
proof -
  let ?c = "Native (Bitvector64UnsignedLessEqual sample_word (UInt64Constant 5))"
  have read: "integer_observations_of_native_comparison bare_registry (\<lambda>_ _. False) (ConditionIs ?c True)
    = [ConditionIs (Integer_Relation Op_IntegerLessEqual (Machine MUInt64 sample_word) (Int_Constant 5)) True]"
    by code_simp
  have "condition_ok bare_registry (machine_values sample_meaning) ?c"
    by (simp add: condition_ok_def sample_word_operand native_operand_def [of _ _ "UInt64Constant 5"] null_only_def)
  moreover have "holds sample_meaning (ConditionIs ?c True)"
    by (simp add: sample_meaning_def compare_value_def sample_word_def zero_valuation_def)
  ultimately show ?thesis
    using readings_exact [OF sample_meaning_null, of bare_registry ?c "\<lambda>_ _. False" True] read by simp
qed

end
