(* ===== verification/LinearForms.thy ===== *)
theory LinearForms
  imports Prelude "HOL-Library.Finite_Map"
begin

text \<open>
  Linear combinations: the maps from atoms to integer coefficients that
  \<^verbatim>\<open>src/src/kernel/proof/integer_arithmetic.rs\<close> keeps as a \<^verbatim>\<open>BTreeMap\<close> or a
  \<^verbatim>\<open>HashMap\<close>, and what one is worth when its atoms have values. The order of a
  map's keys is the order of interned identities and shows in no result, so a map is a
  finite map.
\<close>

section \<open>Operations\<close>

type_synonym 'a linear = "('a, int) fmap"

definition coefficient :: "'a linear \<Rightarrow> 'a \<Rightarrow> int" where
  "coefficient m a = (case fmlookup m a of None \<Rightarrow> 0 | Some c \<Rightarrow> c)"

text \<open>\<^verbatim>\<open>add_weight\<close> and \<^verbatim>\<open>add_atom_weight\<close>: a zero sum leaves the map.\<close>

definition add_coefficient :: "'a \<Rightarrow> int \<Rightarrow> 'a linear \<Rightarrow> 'a linear" where
  "add_coefficient a w m =
     (let merged = coefficient m a + w in if merged = 0 then fmdrop a m else fmupd a merged m)"

definition nonzero :: "'a linear \<Rightarrow> 'a linear" where
  "nonzero m = fmfilter (\<lambda>a. fmlookup m a \<noteq> Some 0) m"

definition scale_terms :: "int \<Rightarrow> 'a linear \<Rightarrow> 'a linear" where
  "scale_terms k m = nonzero (fmmap (\<lambda>c. c * k) m)"

definition negate_terms :: "'a linear \<Rightarrow> 'a linear" where
  "negate_terms m = nonzero (fmmap uminus m)"

text \<open>Only a sum of two coefficients that is zero leaves the map.\<close>

definition add_terms :: "'a linear \<Rightarrow> 'a linear \<Rightarrow> 'a linear" where
  "add_terms l r =
     (let sums = fmmap_keys (\<lambda>a c. coefficient l a + c) r in
      fmfilter (\<lambda>a. fmlookup sums a \<noteq> Some 0) (l ++\<^sub>f sums))"

definition divisible_terms :: "int \<Rightarrow> 'a linear \<Rightarrow> bool" where
  "divisible_terms d m \<longleftrightarrow> fmpred (\<lambda>_ c. c smod d = 0) m"

definition divide_terms :: "int \<Rightarrow> 'a linear \<Rightarrow> 'a linear" where
  "divide_terms d m = fmmap (\<lambda>c. c sdiv d) m"

section \<open>Worth\<close>

definition worth :: "('a \<Rightarrow> int) \<Rightarrow> 'a linear \<Rightarrow> int" where
  "worth v m = (\<Sum>a \<in> fmdom' m. coefficient m a * v a)"

lemma coefficient_outside: "a \<notin> fmdom' m \<Longrightarrow> coefficient m a = 0"
  by (simp add: coefficient_def fmdom'_notD)

lemma worth_over:
  assumes "finite S" and "fmdom' m \<subseteq> S"
  shows "worth v m = (\<Sum>a \<in> S. coefficient m a * v a)"
  unfolding worth_def using assms by (intro sum.mono_neutral_left) (auto simp: coefficient_outside)

text \<open>Maps with pointwise related coefficients are worth the related amounts.\<close>

lemma worth_linear:
  assumes "\<And>a. coefficient m a = p * coefficient l a + q * coefficient r a"
  shows "worth v m = p * worth v l + q * worth v r"
proof -
  let ?S = "fmdom' m \<union> fmdom' l \<union> fmdom' r"
  have "worth v m = (\<Sum>a \<in> ?S. (p * coefficient l a + q * coefficient r a) * v a)"
    by (subst worth_over [of ?S m v]) (auto simp: assms)
  also have "\<dots> = p * (\<Sum>a \<in> ?S. coefficient l a * v a) + q * (\<Sum>a \<in> ?S. coefficient r a * v a)"
    by (simp add: sum_distrib_left sum.distrib algebra_simps)
  also have "\<dots> = p * worth v l + q * worth v r"
    by (subst (1 2) worth_over [of ?S, symmetric]) auto
  finally show ?thesis .
qed

lemma coefficient_simps [simp]:
  "coefficient fmempty a = 0"
  "coefficient (fmupd k c m) a = (if a = k then c else coefficient m a)"
  "coefficient (fmdrop k m) a = (if a = k then 0 else coefficient m a)"
  by (simp_all add: coefficient_def)

lemma coefficient_nonzero [simp]: "coefficient (nonzero m) a = coefficient m a"
  by (auto simp: coefficient_def nonzero_def split: option.split)

lemma coefficient_fmmap [simp]: "f 0 = 0 \<Longrightarrow> coefficient (fmmap f m) a = f (coefficient m a)"
  by (simp add: coefficient_def split: option.split)

lemma coefficient_add_terms [simp]: "coefficient (add_terms l r) a = coefficient l a + coefficient r a"
  by (auto simp: add_terms_def coefficient_def Let_def fmdom_notI split: option.split intro: fmdomI)

lemma worth_fmempty [simp]: "worth v fmempty = 0"
  by (simp add: worth_def)

lemma worth_singleton: "worth v (fmupd a c fmempty) = c * v a"
  by (simp add: worth_def)

lemma worth_add_coefficient: "worth v (add_coefficient a w m) = worth v m + w * v a"
  using worth_linear [of "add_coefficient a w m" 1 m 1 "fmupd a w fmempty" v]
  by (simp add: add_coefficient_def Let_def worth_singleton)

lemma worth_fmdrop: "worth v (fmdrop a m) = worth v m - coefficient m a * v a"
  using worth_linear [of "fmdrop a m" 1 m "- 1" "fmupd a (coefficient m a) fmempty" v]
  by (simp add: worth_singleton)

lemma worth_scale_terms: "worth v (scale_terms k m) = k * worth v m"
  using worth_linear [of "scale_terms k m" k m 0 fmempty v] by (simp add: scale_terms_def)

lemma worth_negate_terms: "worth v (negate_terms m) = - worth v m"
  using worth_linear [of "negate_terms m" "- 1" m 0 fmempty v] by (simp add: negate_terms_def)

lemma worth_add_terms: "worth v (add_terms l r) = worth v l + worth v r"
  using worth_linear [of "add_terms l r" 1 l 1 r v] by simp

lemma worth_uminus: "worth v (fmmap uminus m) = - worth v m"
  using worth_linear [of "fmmap uminus m" "- 1" m 0 fmempty v] by simp

lemma worth_divide_terms:
  assumes "divisible_terms d m"
  shows "d * worth v (divide_terms d m) = worth v m"
proof -
  have "coefficient m a = d * coefficient (divide_terms d m) a" for a
  proof (cases "fmlookup m a")
    case (Some c)
    then have "c smod d = 0" using assms by (auto simp: divisible_terms_def fmpred_iff)
    then have "c = d * (c sdiv d)" using sdiv_mult_smod_eq [of c d] by (simp add: mult.commute)
    then show ?thesis using Some by (simp add: coefficient_def divide_terms_def)
  qed (simp add: coefficient_def divide_terms_def)
  then show ?thesis using worth_linear [of m d "divide_terms d m" 0 fmempty v] by simp
qed

lemma fmdom'_add_coefficient: "fmdom' (add_coefficient a w m) \<subseteq> insert a (fmdom' m)"
  by (auto simp: add_coefficient_def Let_def)

end
