(* ===== verification/IntegerAffine.thy ===== *)
theory IntegerAffine
  imports IntegerReadings LinearForms
begin

text \<open>
  Propositions as affine claims over exact integers: the claims of
  \<^verbatim>\<open>src/src/kernel/proof/integer_arithmetic.rs\<close>, their arithmetic, and the
  normalisation of a proposition into them. The canonical key of a range fold
  (\<^verbatim>\<open>fact_keys.rs\<close>) is a parameter: a partial map from fold terms to the term that
  stands for their alpha class. The work budget, which only ends a check early, is left out.
\<close>

section \<open>Claims\<close>

datatype affine_relation = Affine_LessEqual | Affine_Equal

datatype 'x affine_atom =
    Atom_Variable variable
  | Atom_Machine machine_integer_type "'x bv"
  | Atom_Application 'x
  | Atom_Fold "'x integer"
  | Atom_Nonlinear "'x integer"

record 'x affine_claim =
  claim_relation :: affine_relation
  claim_terms :: "'x affine_atom linear"
  claim_constant :: int

definition claim_of :: "affine_relation \<Rightarrow> 'x affine_atom linear \<Rightarrow> int \<Rightarrow> 'x affine_claim" where
  "claim_of relation terms k = \<lparr>claim_relation = relation, claim_terms = terms, claim_constant = k\<rparr>"

definition scale_claim :: "'x affine_claim \<Rightarrow> int \<Rightarrow> 'x affine_claim" where
  "scale_claim claim k =
     claim_of (claim_relation claim) (scale_terms k (claim_terms claim)) (claim_constant claim * k)"

definition add_claim :: "'x affine_claim \<Rightarrow> 'x affine_claim \<Rightarrow> 'x affine_claim" where
  "add_claim left right =
     claim_of (claim_relation left) (add_terms (claim_terms left) (claim_terms right))
       (claim_constant left + claim_constant right)"

definition negate_claim :: "'x affine_claim \<Rightarrow> affine_relation \<Rightarrow> 'x affine_claim" where
  "negate_claim claim relation =
     claim_of relation (negate_terms (claim_terms claim)) (- claim_constant claim)"

definition divide_claim :: "'x affine_claim \<Rightarrow> int \<Rightarrow> 'x affine_claim option" where
  "divide_claim claim divisor =
     (if divisor \<le> 0 then None
      else if \<not> divisible_terms divisor (claim_terms claim) then None
      else
        (let negated = - claim_constant claim;
             quotient = negated sdiv divisor;
             floor = (if quotient * divisor > negated then quotient - 1 else quotient)
         in Some (claim_of Affine_LessEqual (divide_terms divisor (claim_terms claim)) (- floor))))"

definition claim_is_contradiction :: "'x affine_claim \<Rightarrow> bool" where
  "claim_is_contradiction claim \<longleftrightarrow>
     claim_terms claim = fmempty
     \<and> (case claim_relation claim of
          Affine_LessEqual \<Rightarrow> claim_constant claim > 0
        | Affine_Equal \<Rightarrow> claim_constant claim \<noteq> 0)"

definition claim_is_trivial :: "'x affine_claim \<Rightarrow> bool" where
  "claim_is_trivial claim \<longleftrightarrow>
     claim_terms claim = fmempty
     \<and> (case claim_relation claim of
          Affine_LessEqual \<Rightarrow> claim_constant claim \<le> 0
        | Affine_Equal \<Rightarrow> claim_constant claim = 0)"

definition claims_are_opposites :: "'x affine_claim \<Rightarrow> 'x affine_claim \<Rightarrow> bool" where
  "claims_are_opposites lower upper \<longleftrightarrow>
     fmmap uminus (claim_terms lower) = claim_terms upper \<and> - claim_constant lower = claim_constant upper"

section \<open>Collection of the terms of an integer\<close>

text \<open>
  The source first lists the reachable nodes in postorder with an explicit stack, each
  node once, then hands every node's weight down to its children from the root on.
\<close>

definition affine_children :: "'x integer \<Rightarrow> 'x integer list" where
  "affine_children t = (case t of
     Int_Negate a \<Rightarrow> [a]
   | Int_Add l r \<Rightarrow> [l, r]
   | Int_Subtract l r \<Rightarrow> [l, r]
   | Int_Multiply l r \<Rightarrow>
       if integer_const l \<noteq> None then [r] else if integer_const r \<noteq> None then [l] else []
   | _ \<Rightarrow> [])"

lemma affine_children_size: "sum_list (map (\<lambda>c. 4 * size c + 2) (affine_children t)) + 1 < 4 * size t + 2"
  by (cases t) (auto simp: affine_children_def)

function postorder :: "'x integer list \<Rightarrow> ('x integer \<times> bool) list \<Rightarrow> 'x integer list \<Rightarrow> 'x integer list" where
  "postorder scheduled [] order = order"
| "postorder scheduled ((node, True) # stack) order = postorder scheduled stack (order @ [node])"
| "postorder scheduled ((node, False) # stack) order =
     (if node \<in> set scheduled then postorder scheduled stack order
      else postorder (node # scheduled)
             (map (\<lambda>child. (child, False)) (affine_children node) @ (node, True) # stack) order)"
  by pat_completeness auto
termination
proof (relation "measure (\<lambda>(_, stack, _). sum_list (map (\<lambda>(node, expanded). if expanded then 1 else 4 * size node + 2) stack))",
    goal_cases)
  case (4 scheduled node stack order)
  then show ?case using affine_children_size [of node] by (simp add: comp_def)
qed auto

definition atom_of :: "('x integer \<Rightarrow> 'x integer option) \<Rightarrow> 'x integer \<Rightarrow> 'x affine_atom option" where
  "atom_of fold_key t = (case t of
     Int_Variable v \<Rightarrow> Some (Atom_Variable v)
   | Machine ty v \<Rightarrow> Some (Atom_Machine ty v)
   | Int_Application application \<Rightarrow> Some (Atom_Application application)
   | TruncatingQuotient _ _ \<Rightarrow> Some (Atom_Nonlinear t)
   | TruncatingRemainder _ _ \<Rightarrow> Some (Atom_Nonlinear t)
   | Int_Multiply _ _ \<Rightarrow> Some (Atom_Nonlinear t)
   | Int_Fold _ _ _ _ _ \<Rightarrow> map_option Atom_Fold (fold_key t)
   | _ \<Rightarrow> None)"

type_synonym 'x collected = "'x integer linear \<times> 'x affine_atom linear \<times> int"

definition spread_weight ::
  "('x integer \<Rightarrow> 'x integer option) \<Rightarrow> 'x integer \<Rightarrow> int \<Rightarrow> 'x collected \<Rightarrow> 'x collected option"
where
  "spread_weight fold_key node weight = (\<lambda>(weights, terms, k).
     let leaf = map_option (\<lambda>atom. (weights, add_coefficient atom weight terms, k)) (atom_of fold_key node) in
     case node of
       Int_Constant v \<Rightarrow> Some (weights, terms, k + weight * v)
     | Int_Negate child \<Rightarrow> Some (add_coefficient child (- weight) weights, terms, k)
     | Int_Add l r \<Rightarrow> Some (add_coefficient r weight (add_coefficient l weight weights), terms, k)
     | Int_Subtract l r \<Rightarrow> Some (add_coefficient r (- weight) (add_coefficient l weight weights), terms, k)
     | Int_Multiply l r \<Rightarrow>
         (case (integer_const l, integer_const r) of
            (Some factor, _) \<Rightarrow> Some (add_coefficient r (weight * factor) weights, terms, k)
          | (None, Some factor) \<Rightarrow> Some (add_coefficient l (weight * factor) weights, terms, k)
          | (None, None) \<Rightarrow> leaf)
     | _ \<Rightarrow> leaf)"

fun propagate_weights ::
  "('x integer \<Rightarrow> 'x integer option) \<Rightarrow> 'x integer list \<Rightarrow> 'x collected \<Rightarrow> ('x affine_atom linear \<times> int) option"
where
  "propagate_weights fold_key [] (weights, terms, k) = Some (terms, k)"
| "propagate_weights fold_key (node # nodes) (weights, terms, k) =
     (case fmlookup weights node of
        None \<Rightarrow> propagate_weights fold_key nodes (weights, terms, k)
      | Some weight \<Rightarrow>
          if weight = 0 then propagate_weights fold_key nodes (fmdrop node weights, terms, k)
          else
            (case spread_weight fold_key node weight (fmdrop node weights, terms, k) of
               None \<Rightarrow> None
             | Some state \<Rightarrow> propagate_weights fold_key nodes state))"

definition collect_integer_affine_terms ::
  "('x integer \<Rightarrow> 'x integer option) \<Rightarrow> 'x integer \<Rightarrow> int \<Rightarrow> 'x affine_atom linear \<times> int
   \<Rightarrow> ('x affine_atom linear \<times> int) option"
where
  "collect_integer_affine_terms fold_key t weight = (\<lambda>(terms, k).
     propagate_weights fold_key (rev (postorder [] [(t, False)] []))
       (fmupd t weight fmempty, terms, k))"

section \<open>Normalisation of a proposition\<close>

definition affine_difference ::
  "('x integer \<Rightarrow> 'x integer option) \<Rightarrow> 'x integer \<Rightarrow> 'x integer \<Rightarrow> ('x affine_atom linear \<times> int) option"
where
  "affine_difference fold_key left right =
     Option.bind (collect_integer_affine_terms fold_key left 1 (fmempty, 0))
       (collect_integer_affine_terms fold_key right (- 1))"

definition ordered_claim ::
  "('x integer \<Rightarrow> 'x integer option) \<Rightarrow> 'x integer \<Rightarrow> 'x integer \<Rightarrow> bool \<Rightarrow> 'x affine_claim option"
where
  "ordered_claim fold_key left right strict =
     map_option (\<lambda>(terms, k). claim_of Affine_LessEqual terms (if strict then k + 1 else k))
       (affine_difference fold_key left right)"

text \<open>A disequality is a claim only between constants.\<close>

definition constants_claim ::
  "('x integer \<Rightarrow> 'x integer option) \<Rightarrow> 'x integer \<Rightarrow> 'x integer \<Rightarrow> bool \<Rightarrow> 'x affine_claim option"
where
  "constants_claim fold_key left right equal =
     Option.bind (affine_difference fold_key left right) (\<lambda>(terms, k).
       if terms \<noteq> fmempty then None
       else if equal then (if k = 0 then Some (claim_of Affine_Equal terms k) else None)
       else (if k \<noteq> 0 then Some (claim_of Affine_LessEqual terms (- 1)) else None))"

definition relation_claim ::
  "('x integer \<Rightarrow> 'x integer option) \<Rightarrow> integer_comparison \<Rightarrow> 'x integer \<Rightarrow> 'x integer \<Rightarrow> bool
   \<Rightarrow> 'x affine_claim option"
where
  "relation_claim fold_key op left right value =
     (case op of
        Op_IntegerLessThan \<Rightarrow>
          if value then ordered_claim fold_key left right True else ordered_claim fold_key right left False
      | Op_IntegerLessEqual \<Rightarrow>
          if value then ordered_claim fold_key left right False else ordered_claim fold_key right left True
      | Op_IntegerGreaterThan \<Rightarrow>
          if value then ordered_claim fold_key right left True else ordered_claim fold_key left right False
      | Op_IntegerGreaterEqual \<Rightarrow>
          if value then ordered_claim fold_key right left False else ordered_claim fold_key left right True
      | Op_IntegerEqual \<Rightarrow>
          if value then map_option (\<lambda>(terms, k). claim_of Affine_Equal terms k) (affine_difference fold_key left right)
          else constants_claim fold_key left right False
      | Op_IntegerNotEqual \<Rightarrow> constants_claim fold_key left right (\<not> value))"

definition stated_condition :: "'x prop_term \<Rightarrow> ('x condition \<times> bool) option" where
  "stated_condition p = (case p of
     ConditionIs c value \<Rightarrow> Some (c, value)
   | Not_Proposition (ConditionIs c value) \<Rightarrow> Some (c, \<not> value)
   | _ \<Rightarrow> None)"

text \<open>
  A reading of a native comparison is an integer relation, so the recursive call of the
  source on it is \<open>relation_claim\<close>.
\<close>

definition reading_claim :: "('x integer \<Rightarrow> 'x integer option) \<Rightarrow> 'x prop_term \<Rightarrow> 'x affine_claim option" where
  "reading_claim fold_key p = (case p of
     ConditionIs (Integer_Relation op left right) value \<Rightarrow> relation_claim fold_key op left right value
   | _ \<Rightarrow> None)"

definition integer_affine_claim ::
  "'x block_registry \<Rightarrow> ('x bv \<Rightarrow> 'x bv \<Rightarrow> bool) \<Rightarrow> ('x integer \<Rightarrow> 'x integer option) \<Rightarrow> 'x prop_term
   \<Rightarrow> 'x affine_claim option"
where
  "integer_affine_claim reg below fold_key p =
     (case stated_condition p of
        None \<Rightarrow> None
      | Some (Integer_Relation op left right, value) \<Rightarrow> relation_claim fold_key op left right value
      | Some (Native (Cond_Constant actual), value) \<Rightarrow>
          Some (claim_of Affine_Equal fmempty (if actual = value then 0 else 1))
      | Some (Native c, value) \<Rightarrow>
          (case integer_observations_of_native_comparison reg below (ConditionIs (Native c) value) of
             [] \<Rightarrow> None
           | stated # _ \<Rightarrow> reading_claim fold_key stated))"

definition integer_affine_claims ::
  "'x block_registry \<Rightarrow> ('x bv \<Rightarrow> 'x bv \<Rightarrow> bool) \<Rightarrow> ('x integer \<Rightarrow> 'x integer option) \<Rightarrow> 'x prop_term
   \<Rightarrow> 'x affine_claim list"
where
  "integer_affine_claims reg below fold_key p =
     (let readings = (case p of
            ConditionIs (Native c) value \<Rightarrow> integer_observations_of_native_comparison reg below p
          | _ \<Rightarrow> [])
      in if readings = [] then
           (case integer_affine_claim reg below fold_key p of None \<Rightarrow> [] | Some claim \<Rightarrow> [claim])
         else
           fold (\<lambda>stated claims.
             case integer_affine_claim reg below fold_key stated of
               None \<Rightarrow> claims
             | Some claim \<Rightarrow> push_new claim claims) readings [])"

section \<open>What a claim says\<close>

fun atom_value :: "'x meaning \<Rightarrow> 'x affine_atom \<Rightarrow> int" where
  "atom_value M (Atom_Variable v) = integer_value M (Int_Variable v)"
| "atom_value M (Atom_Machine ty t) = integer_value M (Machine ty t)"
| "atom_value M (Atom_Application x) = integer_value M (Int_Application x)"
| "atom_value M (Atom_Fold t) = integer_value M t"
| "atom_value M (Atom_Nonlinear t) = integer_value M t"

definition claim_value :: "'x meaning \<Rightarrow> 'x affine_claim \<Rightarrow> int" where
  "claim_value M claim = worth (atom_value M) (claim_terms claim) + claim_constant claim"

definition claim_holds :: "'x meaning \<Rightarrow> 'x affine_claim \<Rightarrow> bool" where
  "claim_holds M claim = (case claim_relation claim of
     Affine_LessEqual \<Rightarrow> claim_value M claim \<le> 0
   | Affine_Equal \<Rightarrow> claim_value M claim = 0)"

text \<open>The key of a fold stands for the fold.\<close>

definition fold_keys_ok :: "('x integer \<Rightarrow> 'x integer option) \<Rightarrow> 'x meaning \<Rightarrow> bool" where
  "fold_keys_ok fold_key M \<longleftrightarrow> (\<forall>t u. fold_key t = Some u \<longrightarrow> integer_value M u = integer_value M t)"

section \<open>The arithmetic of claims\<close>

lemma claim_of_simps [simp]:
  "claim_relation (claim_of r t k) = r" "claim_terms (claim_of r t k) = t" "claim_constant (claim_of r t k) = k"
  by (simp_all add: claim_of_def)

lemma claim_values:
  "claim_value M (scale_claim a n) = n * claim_value M a"
  "claim_value M (add_claim a b) = claim_value M a + claim_value M b"
  "claim_value M (negate_claim a r) = - claim_value M a"
  by (simp_all add: claim_value_def scale_claim_def add_claim_def negate_claim_def worth_scale_terms
      worth_add_terms worth_negate_terms algebra_simps)

lemma claim_relations [simp]:
  "claim_relation (scale_claim a n) = claim_relation a"
  "claim_relation (add_claim a b) = claim_relation a"
  "claim_relation (negate_claim a r) = r"
  by (simp_all add: scale_claim_def add_claim_def negate_claim_def)

lemma divide_claim_holds:
  assumes "divide_claim claim d = Some result" and "claim_value M claim \<le> 0"
  shows "claim_holds M result"
proof -
  let ?t = "worth (atom_value M) (divide_terms d (claim_terms claim))" and ?n = "- claim_constant claim"
  let ?q = "?n sdiv d"
  define f where "f = (if ?q * d > ?n then ?q - 1 else ?q)"
  have d: "0 < d" and exact: "d * ?t = worth (atom_value M) (claim_terms claim)"
    and result: "result = claim_of Affine_LessEqual (divide_terms d (claim_terms claim)) (- f)"
    using assms(1) worth_divide_terms by (auto simp: divide_claim_def Let_def f_def split: if_splits)
  have below: "d * ?t \<le> ?n" using assms(2) exact by (simp add: claim_value_def)
  have n: "?n = ?q * d + ?n smod d" "\<bar>?n smod d\<bar> < d"
    using smod_int_range [of d ?n] d sdiv_mult_smod_eq [of ?n d] by auto
  have "?n < (f + 1) * d" unfolding f_def using n d by (auto simp: algebra_simps)
  with below have "d * ?t < d * (f + 1)" by (simp add: mult.commute)
  then have "?t \<le> f" using d by simp
  then show ?thesis by (simp add: claim_holds_def claim_value_def result)
qed

lemma opposite_values: "claims_are_opposites a b \<Longrightarrow> claim_value M b = - claim_value M a"
  by (auto simp: claims_are_opposites_def claim_value_def worth_uminus
      dest!: arg_cong [where f = "worth (atom_value M)"])

lemma contradiction_fails: "claim_is_contradiction a \<Longrightarrow> \<not> claim_holds M a"
  by (auto simp: claim_is_contradiction_def claim_holds_def claim_value_def split: affine_relation.splits)

lemma trivial_holds: "claim_is_trivial a \<Longrightarrow> claim_holds M a"
  by (auto simp: claim_is_trivial_def claim_holds_def claim_value_def split: affine_relation.splits)

section \<open>Collection is exact\<close>

text \<open>A list in which every node's children come after it.\<close>

primrec settled :: "'x integer list \<Rightarrow> bool" where
  "settled [] = True"
| "settled (node # nodes) = (set (affine_children node) \<subseteq> set nodes \<and> settled nodes)"

text \<open>
  What the stack still owes: when an expanded node is popped, its children are in the
  order, and whatever lies above an expanded node is one of its descendants.
\<close>

fun due :: "'x integer set \<Rightarrow> ('x integer \<times> bool) list \<Rightarrow> bool" where
  "due done [] = True"
| "due done ((node, expanded) # stack) =
     ((expanded \<longrightarrow> set (affine_children node) \<subseteq> done) \<and> due (insert node done) stack)"

definition below_expanded :: "('x integer \<times> bool) list \<Rightarrow> bool" where
  "below_expanded = sorted_wrt (\<lambda>above entry. snd entry \<longrightarrow> size (fst above) < size (fst entry))"

lemma due_mono: "due A stack \<Longrightarrow> A \<subseteq> B \<Longrightarrow> due B stack"
  by (induction A stack arbitrary: B rule: due.induct) auto

lemma due_children: "due (set children \<union> done) stack \<Longrightarrow> due done (map (\<lambda>c. (c, False)) children @ stack)"
proof (induction children arbitrary: "done")
  case (Cons c children)
  then have "due (insert c done) (map (\<lambda>c. (c, False)) children @ stack)"
    by (intro Cons.IH) (simp add: insert_commute)
  then show ?case by simp
qed simp

lemma affine_child_smaller: "c \<in> set (affine_children t) \<Longrightarrow> size c < size t"
  by (cases t) (auto simp: affine_children_def split: if_splits)

lemma postorder_invariant:
  assumes "settled (rev order)" and "due (set order) stack" and "below_expanded stack"
    and "set scheduled = set order \<union> {node. (node, True) \<in> set stack}"
  shows "settled (rev (postorder scheduled stack order))
    \<and> set order \<union> fst ` set stack \<subseteq> set (postorder scheduled stack order)"
  using assms
proof (induction scheduled stack order rule: postorder.induct)
  case (1 scheduled order)
  then show ?case by simp
next
  case (2 scheduled node stack order)
  have "settled (rev (order @ [node]))" "due (set (order @ [node])) stack" "below_expanded stack"
    using "2.prems" by (auto simp: below_expanded_def)
  moreover have "set scheduled = set (order @ [node]) \<union> {node. (node, True) \<in> set stack}"
    using "2.prems" by auto
  ultimately show ?case using "2.IH" by auto
next
  case (3 scheduled node stack order)
  show ?case
  proof (cases "node \<in> set scheduled")
    case True
    have "(node, True) \<notin> set stack"
      using "3.prems"(3) by (auto simp: below_expanded_def)
    then have "node \<in> set order" using True "3.prems"(4) by auto
    then have "due (set order) stack" using "3.prems"(2) by (simp add: insert_absorb)
    moreover have "below_expanded stack" using "3.prems"(3) by (simp add: below_expanded_def)
    moreover have "set scheduled = set order \<union> {node. (node, True) \<in> set stack}" using "3.prems"(4) by auto
    ultimately show ?thesis using "3.IH"(1) True "3.prems"(1) \<open>node \<in> set order\<close> by auto
  next
    case False
    let ?children = "map (\<lambda>child. (child, False)) (affine_children node)"
    have "due (insert node (set (affine_children node) \<union> set order)) stack"
      using "3.prems"(2) by (auto intro: due_mono)
    then have "due (set order) (?children @ (node, True) # stack)"
      by (intro due_children) simp
    moreover have "below_expanded (?children @ (node, True) # stack)"
      using "3.prems"(3) by (auto simp: below_expanded_def sorted_wrt_append sorted_wrt_map
          dest!: affine_child_smaller intro: less_trans)
    moreover have "set (node # scheduled) = set order \<union> {n. (n, True) \<in> set (?children @ (node, True) # stack)}"
      using "3.prems"(4) by auto
    ultimately show ?thesis using "3.IH"(2) [OF False "3.prems"(1)] False by auto
  qed
qed

lemma postorder_settled:
  "settled (rev (postorder [] [(t, False)] []))" "t \<in> set (postorder [] [(t, False)] [])"
  using postorder_invariant [of "[]" "[(t, False)]" "[]"] by (auto simp: below_expanded_def)

lemma postorder_distinct:
  assumes "distinct (order @ map fst (filter snd stack))"
    and "set scheduled = set order \<union> {node. (node, True) \<in> set stack}"
  shows "distinct (postorder scheduled stack order)"
  using assms
proof (induction scheduled stack order rule: postorder.induct)
  case (2 scheduled node stack order)
  have "distinct ((order @ [node]) @ map fst (filter snd stack))" using "2.prems"(1) by simp
  moreover have "set scheduled = set (order @ [node]) \<union> {node. (node, True) \<in> set stack}" using "2.prems"(2) by auto
  ultimately show ?case using "2.IH" by simp
next
  case (3 scheduled node stack order)
  have none: "filter snd (map (\<lambda>child. (child, False)) (affine_children node)) = []"
    by (simp add: filter_empty_conv)
  show ?case
  proof (cases "node \<in> set scheduled")
    case True
    have "set scheduled = set order \<union> {n. (n, True) \<in> set stack}" using "3.prems"(2) by simp
    then show ?thesis using "3.IH"(1) [OF True] "3.prems"(1) True by simp
  next
    case False
    let ?stack = "map (\<lambda>child. (child, False)) (affine_children node) @ (node, True) # stack"
    have "distinct (order @ map fst (filter snd ?stack))"
      using "3.prems" False by (auto simp: none)
    moreover have "set (node # scheduled) = set order \<union> {n. (n, True) \<in> set ?stack}" using "3.prems"(2) by auto
    ultimately show ?thesis using "3.IH"(2) [OF False] False by simp
  qed
qed simp

lemma atom_of_value:
  "fold_keys_ok fold_key M \<Longrightarrow> atom_of fold_key t = Some atom \<Longrightarrow> atom_value M atom = integer_value M t"
  by (cases t) (auto simp: atom_of_def fold_keys_ok_def)

definition collected_value :: "'x meaning \<Rightarrow> 'x collected \<Rightarrow> int" where
  "collected_value M = (\<lambda>(weights, terms, k).
     worth (integer_value M) weights + worth (atom_value M) terms + k)"

lemma leaf_value:
  assumes "fold_keys_ok fold_key M" and "atom_of fold_key node = Some atom"
  shows "collected_value M (weights, add_coefficient atom weight terms, k) =
    collected_value M (weights, terms, k) + weight * integer_value M node"
  using atom_of_value [OF assms] by (simp add: collected_value_def worth_add_coefficient)

lemma spread_weight_value:
  assumes "fold_keys_ok fold_key M"
    and "spread_weight fold_key node weight (weights, terms, k) = Some (weights', terms', k')"
  shows "collected_value M (weights', terms', k') =
      collected_value M (weights, terms, k) + weight * integer_value M node
    \<and> fmdom' weights' \<subseteq> fmdom' weights \<union> set (affine_children node)"
  using assms leaf_value [OF assms(1), of node]
  by (cases node)
    (auto simp: spread_weight_def collected_value_def worth_add_coefficient affine_children_def algebra_simps
      split: option.splits dest!: fmdom'_add_coefficient [THEN subsetD])

lemma propagate_weights_value:
  assumes "fold_keys_ok fold_key M"
  shows "propagate_weights fold_key nodes (weights, terms, k) = Some (terms', k') \<Longrightarrow>
    settled nodes \<Longrightarrow> fmdom' weights \<subseteq> set nodes \<Longrightarrow>
    worth (atom_value M) terms' + k' = collected_value M (weights, terms, k)"
proof (induction nodes arbitrary: weights terms k)
  case Nil
  then have "fmdom' weights = {}" by simp
  then have "worth (integer_value M) weights = 0" by (simp add: worth_def)
  then show ?case using Nil by (simp add: collected_value_def)
next
  case (Cons node nodes)
  show ?case
  proof (cases "fmlookup weights node")
    case None
    then have "node \<notin> fmdom' weights" by (simp add: fmdom'_notI)
    then have "fmdom' weights \<subseteq> set nodes" using Cons.prems(3) by auto
    then show ?thesis using Cons None by simp
  next
    case (Some weight)
    let ?rest = "fmdrop node weights"
    have rest: "fmdom' ?rest \<subseteq> set nodes" using Cons.prems(3) by auto
    have split: "collected_value M (weights, terms, k) =
        collected_value M (?rest, terms, k) + weight * integer_value M node"
      using Some by (simp add: collected_value_def worth_fmdrop coefficient_def)
    show ?thesis
    proof (cases "weight = 0")
      case True
      then show ?thesis using Cons.IH [OF _ _ rest] Cons.prems Some split by simp
    next
      case False
      then obtain weights' terms'' k'' where
          step: "spread_weight fold_key node weight (?rest, terms, k) = Some (weights', terms'', k'')"
        and go: "propagate_weights fold_key nodes (weights', terms'', k'') = Some (terms', k')"
        using Cons.prems(1) Some by (auto split: option.splits)
      have "fmdom' weights' \<subseteq> set nodes"
        using spread_weight_value [OF assms step] rest Cons.prems(2) by auto
      then show ?thesis
        using Cons.IH [OF go] Cons.prems(2) spread_weight_value [OF assms step] split by simp
    qed
  qed
qed

lemma collect_value:
  assumes "fold_keys_ok fold_key M" and "collect_integer_affine_terms fold_key t w (terms, k) = Some (terms', k')"
  shows "worth (atom_value M) terms' + k' = worth (atom_value M) terms + k + w * integer_value M t"
proof -
  have go: "propagate_weights fold_key (rev (postorder [] [(t, False)] [])) (fmupd t w fmempty, terms, k) =
      Some (terms', k')"
    using assms(2) unfolding collect_integer_affine_terms_def by simp
  have "fmdom' (fmupd t w fmempty) \<subseteq> set (rev (postorder [] [(t, False)] []))"
    using postorder_settled(2) [of t] by simp
  with propagate_weights_value [OF assms(1) go postorder_settled(1)]
  have "worth (atom_value M) terms' + k' = collected_value M (fmupd t w fmempty, terms, k)" .
  then show ?thesis by (simp add: collected_value_def worth_singleton)
qed

lemma affine_difference_value:
  assumes "fold_keys_ok fold_key M" and "affine_difference fold_key l r = Some (terms, k)"
  shows "worth (atom_value M) terms + k = integer_value M l - integer_value M r"
proof -
  obtain terms' k' where
      left: "collect_integer_affine_terms fold_key l 1 (fmempty, 0) = Some (terms', k')"
    and right: "collect_integer_affine_terms fold_key r (- 1) (terms', k') = Some (terms, k)"
    using assms(2) by (auto simp: affine_difference_def bind_eq_Some_conv)
  show ?thesis using collect_value [OF assms(1) left] collect_value [OF assms(1) right] by simp
qed

lemma ordered_claim_holds:
  assumes "fold_keys_ok fold_key M" and "ordered_claim fold_key l r strict = Some claim"
  shows "claim_holds M claim \<longleftrightarrow>
    (if strict then integer_value M l < integer_value M r else integer_value M l \<le> integer_value M r)"
  using assms(2) affine_difference_value [OF assms(1), of l r]
  by (fastforce simp: ordered_claim_def claim_holds_def claim_value_def)

lemma constants_claim_holds:
  assumes "fold_keys_ok fold_key M" and "constants_claim fold_key l r equal = Some claim"
  shows "claim_holds M claim \<longleftrightarrow> (integer_value M l = integer_value M r) = equal"
  using assms(2) affine_difference_value [OF assms(1), of l r]
  by (fastforce simp: constants_claim_def claim_holds_def claim_value_def bind_eq_Some_conv split: if_splits)

lemma relation_claim_holds:
  assumes "fold_keys_ok fold_key M" and "relation_claim fold_key op l r value = Some claim"
  shows "claim_holds M claim \<longleftrightarrow> integer_compare op (integer_value M l) (integer_value M r) = value"
proof (cases "op = Op_IntegerEqual \<and> value")
  case True
  then show ?thesis
    using assms(2) affine_difference_value [OF assms(1), of l r]
    by (fastforce simp: relation_claim_def integer_compare_def claim_holds_def claim_value_def)
next
  case False
  then show ?thesis
    using assms(2) ordered_claim_holds [OF assms(1)] constants_claim_holds [OF assms(1)]
    by (cases op; cases "value"; fastforce simp: relation_claim_def integer_compare_def)
qed

section \<open>Claims are exact\<close>

definition proposition_ok :: "'x block_registry \<Rightarrow> 'x valuation \<Rightarrow> 'x prop_term \<Rightarrow> bool" where
  "proposition_ok reg \<rho> p \<longleftrightarrow>
     (\<forall>c value. stated_condition p = Some (Native c, value) \<longrightarrow> condition_ok reg \<rho> (Native c))"

lemma stated_condition_holds: "stated_condition p = Some (c, value) \<Longrightarrow> holds M p \<longleftrightarrow> condition_value M c = value"
  by (auto simp: stated_condition_def split: prop_term.splits)

lemma observation_is_relation:
  assumes "q \<in> set (integer_observations_of_native_comparison reg below p)"
  obtains op l r truth where "q = ConditionIs (Integer_Relation op l r) truth"
proof -
  obtain op left right v ty where "observation_of_type reg below op left right v ty = Some q"
    using assms
    by (auto simp: integer_observations_of_native_comparison_def List.map_filter_def
        split: prop_term.splits condition.splits cond.splits)
  then obtain l r candidate truth where q: "q = ConditionIs candidate truth"
      and "(candidate, truth) \<in> set (observation_candidates l r v)"
    by (auto simp: observation_of_type_def split: option.splits if_splits dest!: found)
  then obtain op' l' r' where "candidate = Integer_Relation op' l' r'"
    by (auto simp: observation_candidates_def)
  with q that show ?thesis by blast
qed

lemma reading_claim_holds:
  assumes "fold_keys_ok fold_key M" and "reading_claim fold_key q = Some claim"
  shows "claim_holds M claim \<longleftrightarrow> holds M q"
  using assms(2) relation_claim_holds [OF assms(1)]
  by (auto simp: reading_claim_def split: prop_term.splits condition.splits)

lemma integer_affine_claim_holds:
  assumes "null_at_zero (machine_values M)" and "proposition_ok reg (machine_values M) p"
    and "fold_keys_ok fold_key M" and "integer_affine_claim reg below fold_key p = Some claim"
  shows "claim_holds M claim \<longleftrightarrow> holds M p"
proof -
  obtain c "value" where c: "stated_condition p = Some (c, value)"
    using assms(4) by (auto simp: integer_affine_claim_def split: option.splits)
  have ok: "condition_ok reg (machine_values M) c" if "\<And>op l r. c \<noteq> Integer_Relation op l r"
    using assms(2) c that by (cases c) (auto simp: proposition_ok_def)
  consider (relation) op l r where "c = Integer_Relation op l r" "relation_claim fold_key op l r value = Some claim"
    | (decided) b where "c = Native (Cond_Constant b)" "claim = claim_of Affine_Equal fmempty (if b = value then 0 else 1)"
    | (reading) q where "q \<in> set (integer_observations_of_native_comparison reg below (ConditionIs c value))"
        "reading_claim fold_key q = Some claim"
    using assms(4) by (auto simp: integer_affine_claim_def c split: condition.splits cond.splits list.splits)
  then have "claim_holds M claim \<longleftrightarrow> condition_value M c = value"
  proof cases
    case relation
    then show ?thesis using relation_claim_holds [OF assms(3)] by simp
  next
    case decided
    then show ?thesis by (simp add: claim_holds_def claim_value_def)
  next
    case reading
    then have "condition_ok reg (machine_values M) c"
      by (intro ok) (auto simp: integer_observations_of_native_comparison_def)
    then show ?thesis
      using integer_observations_exact [OF _ assms(1)] reading_claim_holds [OF assms(3)] reading by blast
  qed
  then show ?thesis using stated_condition_holds [OF c] by simp
qed

lemma observations_cong:
  "integer_affine_claim reg below fold_key (ConditionIs (Integer_Relation op l r) value) =
   relation_claim fold_key op l r value"
  by (simp add: integer_affine_claim_def stated_condition_def)

lemma set_push_new: "set (push_new x xs) = insert x (set xs)"
  by (auto simp: push_new_def)

lemma pushed_claims:
  "claim \<in> set (fold (\<lambda>q claims. case f q of None \<Rightarrow> claims | Some claim \<Rightarrow> push_new claim claims) qs claims) \<Longrightarrow>
   claim \<in> set claims \<or> (\<exists>q \<in> set qs. f q = Some claim)"
  by (induction qs arbitrary: claims) (fastforce simp: set_push_new split: option.splits)+

lemma integer_affine_claims_hold:
  assumes "null_at_zero (machine_values M)" and "proposition_ok reg (machine_values M) p"
    and "fold_keys_ok fold_key M" and "claim \<in> set (integer_affine_claims reg below fold_key p)"
  shows "claim_holds M claim \<longleftrightarrow> holds M p"
proof -
  consider (direct) "integer_affine_claim reg below fold_key p = Some claim"
    | (reading) c "value" q where "p = ConditionIs c value"
        "q \<in> set (integer_observations_of_native_comparison reg below p)"
        "integer_affine_claim reg below fold_key q = Some claim"
    using assms(4)
    by (auto simp: integer_affine_claims_def Let_def split: prop_term.splits condition.splits if_splits option.splits
        dest!: pushed_claims)
  then show ?thesis
  proof cases
    case direct
    then show ?thesis by (rule integer_affine_claim_holds [OF assms(1-3)])
  next
    case reading
    have "condition_ok reg (machine_values M) c"
      using assms(2) reading(1,2)
      by (cases c) (auto simp: proposition_ok_def stated_condition_def integer_observations_of_native_comparison_def)
    then have "holds M q \<longleftrightarrow> holds M p"
      using integer_observations_exact [of q reg below c "value" M] reading(1,2) assms(1) by simp
    moreover obtain op l r v where "q = ConditionIs (Integer_Relation op l r) v"
      using observation_is_relation [OF reading(2)] by metis
    ultimately show ?thesis
      using reading(3) relation_claim_holds [OF assms(3)] by (simp add: observations_cong)
  qed
qed

section \<open>Properties\<close>

text \<open>C14: Every affine claim the kernel reads off a proposition holds in a meaning exactly
  when the proposition does, for conditions filed true or false, their negations and the
  native comparisons of machine values alike; and the collection behind it lists each
  shared node once, children before parents, so that it ends and hands every weight on.\<close>

theorem affine_claims_exact:
  assumes "null_at_zero (machine_values M)" and "proposition_ok reg (machine_values M) p"
    and "fold_keys_ok fold_key M"
  shows "(\<forall>claim \<in> set (integer_affine_claims reg below fold_key p). claim_holds M claim \<longleftrightarrow> holds M p)
    \<and> (\<forall>claim. integer_affine_claim reg below fold_key p = Some claim \<longrightarrow> (claim_holds M claim \<longleftrightarrow> holds M p))
    \<and> distinct (postorder [] [(t, False)] []) \<and> settled (rev (postorder [] [(t, False)] []))"
  using integer_affine_claims_hold [OF assms] integer_affine_claim_holds [OF assms]
    postorder_settled(1) [of t] postorder_distinct [of "[]" "[(t, False)]" "[]"]
  by simp

text \<open>The claim of \<open>x <= 5\<close> for an unsigned 64-bit \<open>x\<close>, at zero.\<close>

definition sample_bound :: "nat prop_term" where
  "sample_bound = ConditionIs (Native (Bitvector64UnsignedLessEqual sample_word (UInt64Constant 5))) True"

lemma sample_bound_ok: "proposition_ok reg \<rho> sample_bound"
  by (simp add: proposition_ok_def sample_bound_def stated_condition_def condition_ok_def sample_word_operand
      native_operand_def [of _ _ "UInt64Constant 5"] null_only_def)

theorem affine_claims_exact_witness:
  "integer_affine_claims bare_registry (\<lambda>_ _. False) Some sample_bound =
     [claim_of Affine_LessEqual (fmap_of_list [(Atom_Machine MUInt64 sample_word, 1)]) (- 5)]
   \<and> claim_holds sample_meaning (claim_of Affine_LessEqual (fmap_of_list [(Atom_Machine MUInt64 sample_word, 1)]) (- 5))"
proof -
  have claims: "integer_affine_claims bare_registry (\<lambda>_ _. False) Some sample_bound =
     [claim_of Affine_LessEqual (fmap_of_list [(Atom_Machine MUInt64 sample_word, 1)]) (- 5)]"
    by code_simp
  have "holds sample_meaning sample_bound"
    by (simp add: sample_bound_def sample_meaning_def compare_value_def sample_word_def zero_valuation_def)
  moreover have "fold_keys_ok Some sample_meaning" by (simp add: fold_keys_ok_def)
  ultimately have "\<forall>claim \<in> set (integer_affine_claims bare_registry (\<lambda>_ _. False) Some sample_bound).
      claim_holds sample_meaning claim"
    using affine_claims_exact [OF sample_meaning_null sample_bound_ok, THEN conjunct1] by blast
  then show ?thesis unfolding claims by simp
qed

end
