(* ===== verification/IntegerCertificate.thy ===== *)
theory IntegerCertificate
  imports IntegerAffine
begin

text \<open>
  Certificates for linear arithmetic over exact integers:
  \<^verbatim>\<open>IntegerArithmeticCertificate::check\<close> of
  \<^verbatim>\<open>src/src/kernel/proof/integer_arithmetic.rs\<close>. The source normalises a premise
  once per check and remembers the claims; here a premise is normalised where it is cited.
\<close>

section \<open>Bounds a machine value brings with it\<close>

definition machine_type_range :: "machine_integer_type \<Rightarrow> 'x bv \<Rightarrow> bool \<Rightarrow> 'x prop_term" where
  "machine_type_range ty t upper =
     (let (minimum, maximum) = format_bounds (type_format ty) in
      ConditionIs
        (if upper then integer_less_equal (Machine ty t) (Int_Constant maximum)
         else integer_less_equal (Int_Constant minimum) (Machine ty t)) True)"

definition machine_constant :: "'x bv \<Rightarrow> int option" where
  "machine_constant t = (case t of
     Constant w \<Rightarrow> Some (uint w)
   | Int64Constant w \<Rightarrow> Some (sint w)
   | UInt64Constant w \<Rightarrow> Some (uint w)
   | _ \<Rightarrow> None)"

datatype 'x machine_operation = Quotient_By "'x bv" int | Remainder_By int

definition positive_constant :: "'x bv \<Rightarrow> int option" where
  "positive_constant t = Option.bind (machine_constant t) (\<lambda>c. if c > 0 then Some c else None)"

definition shift_constant :: "nat \<Rightarrow> 'x bv \<Rightarrow> int option" where
  "shift_constant width t =
     Option.bind (machine_constant t) (\<lambda>c. if 0 \<le> c \<and> c < int width then Some (2 ^ nat c) else None)"

definition machine_operation :: "machine_integer_type \<Rightarrow> 'x bv \<Rightarrow> 'x machine_operation option" where
  "machine_operation ty t =
     (case t of
        Binary op a b \<Rightarrow>
          if (ty, op) \<in> {(MUInt64, Op_UInt64Divide), (MUInt32, Op_UnsignedDivide)}
          then map_option (Quotient_By a) (positive_constant b)
          else if (ty, op) \<in> {(MUInt64, Op_UInt64LogicalShiftRight), (MUInt32, Op_LogicalShiftRight)}
          then map_option (Quotient_By a) (shift_constant (type_bits ty) b)
          else if (ty, op) \<in> {(MUInt64, Op_UInt64Remainder), (MUInt32, Op_UnsignedRemainder)}
          then map_option Remainder_By (positive_constant b)
          else None
      | _ \<Rightarrow> None)"

definition operation_bound :: "machine_integer_type \<Rightarrow> 'x bv \<Rightarrow> bool \<Rightarrow> 'x prop_term option" where
  "operation_bound ty t upper =
     (case machine_operation ty t of
        None \<Rightarrow> None
      | Some (Quotient_By operand divisor) \<Rightarrow>
          (case from_machine ty operand of
             None \<Rightarrow> None
           | Some operand \<Rightarrow>
               (let scaled = Int_Multiply (Int_Constant divisor) (Machine ty t) in
                Some (ConditionIs
                  (if upper then integer_less_equal operand (Int_Add scaled (Int_Constant (divisor - 1)))
                   else integer_less_equal scaled operand) True)))
      | Some (Remainder_By divisor) \<Rightarrow>
          if upper then Some (ConditionIs (integer_less_equal (Machine ty t) (Int_Constant (divisor - 1))) True)
          else None)"

definition observed_constant :: "'x integer \<Rightarrow> 'x integer \<Rightarrow> ((machine_integer_type \<times> 'x bv) \<times> int) option" where
  "observed_constant left right = (case (left, right) of
     (Machine ty t, Int_Constant c) \<Rightarrow> Some ((ty, t), c)
   | (Int_Constant c, Machine ty t) \<Rightarrow> Some ((ty, t), c)
   | _ \<Rightarrow> None)"

definition stated_disequality :: "'x prop_term \<Rightarrow> ('x integer \<times> 'x integer) option" where
  "stated_disequality p = (case p of
     ConditionIs (Integer_Relation op l r) value \<Rightarrow>
       if op = Op_IntegerEqual \<and> \<not> value \<or> op = Op_IntegerNotEqual \<and> value then Some (l, r) else None
   | Not_Proposition (ConditionIs (Integer_Relation op l r) value) \<Rightarrow>
       if op = Op_IntegerEqual \<and> value then Some (l, r) else None
   | _ \<Rightarrow> None)"

definition integer_disequality ::
  "'x block_registry \<Rightarrow> ('x bv \<Rightarrow> 'x bv \<Rightarrow> bool) \<Rightarrow> 'x prop_term \<Rightarrow> ((machine_integer_type \<times> 'x bv) \<times> int) option"
where
  "integer_disequality reg below p =
     (let stated = (case integer_observations_of_native_comparison reg below p of [] \<Rightarrow> p | q # _ \<Rightarrow> q) in
      Option.bind (stated_disequality stated) (\<lambda>(l, r). observed_constant l r))"

definition excluded_type_bound ::
  "'x block_registry \<Rightarrow> ('x bv \<Rightarrow> 'x bv \<Rightarrow> bool) \<Rightarrow> 'x prop_term \<Rightarrow> 'x prop_term option"
where
  "excluded_type_bound reg below p =
     Option.bind (integer_disequality reg below p) (\<lambda>((ty, t), c).
       let (minimum, maximum) = format_bounds (type_format ty) in
       if c = minimum then Some (ConditionIs (integer_less_equal (Int_Constant (minimum + 1)) (Machine ty t)) True)
       else if c = maximum then Some (ConditionIs (integer_less_equal (Machine ty t) (Int_Constant (maximum - 1))) True)
       else None)"

section \<open>Certificates\<close>

datatype 'x arithmetic_node =
    Premise nat "'x affine_claim"
  | Scale nat int "'x affine_claim"
  | Add_Claims nat nat "'x affine_claim"
  | EqualityToLessEqual nat bool "'x affine_claim"
  | EqualityFromBounds nat nat "'x affine_claim"
  | Trivial "'x affine_claim"
  | NegatedGoal "'x affine_claim"
  | Divide_Claim nat int "'x affine_claim"
  | TypeRange "'x integer" bool "'x affine_claim"
  | OperationBound "'x integer" bool "'x affine_claim"
  | ExcludedTypeBound nat "'x affine_claim"

record 'x arithmetic_certificate =
  certificate_nodes :: "'x arithmetic_node list"
  certificate_conclusion :: nat

datatype arithmetic_error =
    InvalidPremise nat
  | InvalidNodeReference nat
  | UnsupportedPremise nat
  | UnsupportedGoal
  | NodeResultMismatch nat
  | InvalidCoefficient nat
  | InvalidRelation nat
  | InvalidDivisor nat
  | NegatedGoalUnsupported nat
  | WorkLimitExceeded
  | DoesNotFollow

definition element :: "'a list \<Rightarrow> nat \<Rightarrow> 'e \<Rightarrow> 'e + 'a" where
  "element xs i e = (if i < length xs then Inr (xs ! i) else Inl e)"

definition or_error :: "'a option \<Rightarrow> 'e \<Rightarrow> 'e + 'a" where
  "or_error x e = (case x of None \<Rightarrow> Inl e | Some y \<Rightarrow> Inr y)"

text \<open>Every node recomputes its claim and refuses a different result.\<close>

definition recomputed :: "nat \<Rightarrow> 'x affine_claim \<Rightarrow> 'x affine_claim \<Rightarrow> arithmetic_error + 'x affine_claim" where
  "recomputed node expected result = (if expected = result then Inr expected else Inl (NodeResultMismatch node))"

fun check_node ::
  "('x prop_term \<Rightarrow> 'x affine_claim list) \<Rightarrow> ('x prop_term \<Rightarrow> 'x affine_claim option)
   \<Rightarrow> ('x prop_term \<Rightarrow> 'x prop_term option) \<Rightarrow> 'x affine_claim \<Rightarrow> 'x prop_term list \<Rightarrow> 'x affine_claim list
   \<Rightarrow> nat \<Rightarrow> 'x arithmetic_node \<Rightarrow> arithmetic_error + 'x affine_claim"
where
  "check_node claims claim excluded goal premises checked node (Premise index result) =
     attempt (element premises index (InvalidPremise index)) (\<lambda>premise.
       if claims premise = [] then Inl (UnsupportedPremise index)
       else if result \<in> set (claims premise) then Inr result
       else Inl (NodeResultMismatch node))"
| "check_node claims claim excluded goal premises checked node (Scale source k result) =
     attempt (element checked source (InvalidNodeReference source)) (\<lambda>source.
       if claim_relation source = Affine_LessEqual \<and> k < 0 then Inl (InvalidCoefficient node)
       else recomputed node (scale_claim source k) result)"
| "check_node claims claim excluded goal premises checked node (Add_Claims left right result) =
     attempt (element checked left (InvalidNodeReference left)) (\<lambda>left.
     attempt (element checked right (InvalidNodeReference right)) (\<lambda>right.
       if claim_relation left \<noteq> claim_relation right then Inl (InvalidRelation node)
       else recomputed node (add_claim left right) result))"
| "check_node claims claim excluded goal premises checked node (EqualityToLessEqual source reverse result) =
     attempt (element checked source (InvalidNodeReference source)) (\<lambda>source.
       if claim_relation source \<noteq> Affine_Equal then Inl (InvalidRelation node)
       else recomputed node
         (if reverse then negate_claim source Affine_LessEqual
          else claim_of Affine_LessEqual (claim_terms source) (claim_constant source)) result)"
| "check_node claims claim excluded goal premises checked node (EqualityFromBounds lower upper result) =
     attempt (element checked lower (InvalidNodeReference lower)) (\<lambda>lower.
     attempt (element checked upper (InvalidNodeReference upper)) (\<lambda>upper.
       if claim_relation lower \<noteq> Affine_LessEqual \<or> claim_relation upper \<noteq> Affine_LessEqual
       then Inl (InvalidRelation node)
       else
         (let expected = claim_of Affine_Equal (claim_terms lower) (claim_constant lower) in
          if \<not> claims_are_opposites lower upper \<or> expected \<noteq> result then Inl (NodeResultMismatch node)
          else Inr expected)))"
| "check_node claims claim excluded goal premises checked node (Trivial result) =
     (if claim_is_trivial result then Inr result else Inl (NodeResultMismatch node))"
| "check_node claims claim excluded goal premises checked node (NegatedGoal result) =
     (if claim_relation goal \<noteq> Affine_LessEqual then Inl (NegatedGoalUnsupported node)
      else
        (let negated = negate_claim goal Affine_LessEqual in
         recomputed node (negated\<lparr>claim_constant := claim_constant negated + 1\<rparr>) result))"
| "check_node claims claim excluded goal premises checked node (TypeRange v upper result) =
     (case v of
        Machine ty t \<Rightarrow>
          attempt (or_error (claim (machine_type_range ty t upper)) WorkLimitExceeded) (\<lambda>expected.
            recomputed node expected result)
      | _ \<Rightarrow> Inl (NodeResultMismatch node))"
| "check_node claims claim excluded goal premises checked node (OperationBound v upper result) =
     (case v of
        Machine ty t \<Rightarrow>
          attempt (or_error (Option.bind (operation_bound ty t upper) claim) (NodeResultMismatch node)) (\<lambda>expected.
            recomputed node expected result)
      | _ \<Rightarrow> Inl (NodeResultMismatch node))"
| "check_node claims claim excluded goal premises checked node (ExcludedTypeBound index result) =
     attempt (element premises index (InvalidPremise index)) (\<lambda>premise.
     attempt (or_error (Option.bind (excluded premise) claim) (UnsupportedPremise index)) (\<lambda>expected.
       recomputed node expected result))"
| "check_node claims claim excluded goal premises checked node (Divide_Claim source divisor result) =
     attempt (element checked source (InvalidNodeReference source)) (\<lambda>source.
       if claim_relation source \<noteq> Affine_LessEqual then Inl (InvalidRelation node)
       else
         attempt (or_error (divide_claim source divisor) (InvalidDivisor node)) (\<lambda>expected.
           recomputed node expected result))"

fun check_nodes ::
  "(nat \<Rightarrow> 'x affine_claim list \<Rightarrow> 'x arithmetic_node \<Rightarrow> arithmetic_error + 'x affine_claim)
   \<Rightarrow> 'x affine_claim list \<Rightarrow> 'x arithmetic_node list \<Rightarrow> arithmetic_error + 'x affine_claim list"
where
  "check_nodes step checked [] = Inr checked"
| "check_nodes step checked (node # nodes) =
     attempt (step (length checked) checked node) (\<lambda>result. check_nodes step (checked @ [result]) nodes)"

definition check_arithmetic ::
  "'x block_registry \<Rightarrow> ('x bv \<Rightarrow> 'x bv \<Rightarrow> bool) \<Rightarrow> ('x integer \<Rightarrow> 'x integer option)
   \<Rightarrow> 'x arithmetic_certificate \<Rightarrow> 'x prop_term \<Rightarrow> 'x prop_term list \<Rightarrow> arithmetic_error + unit"
where
  "check_arithmetic reg below fold_key certificate goal premises =
     (let claims = integer_affine_claims reg below fold_key;
          claim = integer_affine_claim reg below fold_key;
          excluded = excluded_type_bound reg below
      in case claims goal of
           [] \<Rightarrow> Inl UnsupportedGoal
         | expected # _ \<Rightarrow>
             attempt (check_nodes (\<lambda>node checked. check_node claims claim excluded expected premises checked node)
                        [] (certificate_nodes certificate)) (\<lambda>checked.
             attempt (element checked (certificate_conclusion certificate)
                        (InvalidNodeReference (certificate_conclusion certificate))) (\<lambda>actual.
               if actual \<in> set (claims goal) \<or> claim_is_contradiction actual then Inr ()
               else Inl DoesNotFollow)))"

section \<open>The bounds hold\<close>

lemma less_equal_value [simp]:
  "condition_value M (integer_less_equal a b) \<longleftrightarrow> integer_value M a \<le> integer_value M b"
  by (simp add: integer_less_equal_def integer_comparison_term_value integer_compare_def)

lemma machine_type_range_holds: "holds M (machine_type_range ty t upper)"
  using reading_bounds [of ty] by (simp add: machine_type_range_def format_bounds_spec)

lemma sint_nonneg_uint: "0 \<le> sint w \<Longrightarrow> sint w = uint (w :: 'a::len word)"
proof -
  assume "0 \<le> sint w"
  then have "take_bit LENGTH('a) (sint w) = sint w"
    using sint_lt [of w] by (intro take_bit_int_eq_self)
      (auto intro: less_le_trans [OF _ power_increasing [of "LENGTH('a) - 1" "LENGTH('a)" "2::int"]])
  moreover have "take_bit LENGTH('a) (sint w) = uint w"
    by (simp add: sint_uint take_bit_signed_take_bit bintr_uint)
  ultimately show ?thesis by simp
qed

lemma machine_constant_32:
  "machine_constant t = Some c \<Longrightarrow> carries Width32 t \<Longrightarrow> c = uint (low32 (bv_value \<rho> t))"
  by (auto simp: machine_constant_def carries_def split: bv.splits)

lemma machine_constant_64:
  "machine_constant t = Some c \<Longrightarrow> carries Width64 t \<Longrightarrow> 0 \<le> c \<Longrightarrow> c = uint (low64 (bv_value \<rho> t))"
  by (auto simp: machine_constant_def carries_def sint_nonneg_uint split: bv.splits)

text \<open>A shift amount below 64 is the same at every width.\<close>

lemma machine_constant_small:
  assumes "machine_constant t = Some c" and "0 \<le> c" and "c < 64"
  shows "unat (low32 (bv_value \<rho> t)) = nat c" "unat (low64 (bv_value \<rho> t)) = nat c"
proof -
  have "\<exists>w. bv_value \<rho> t = ucast (w :: 64 word) \<and> uint w = c"
  proof -
    consider w where "t = Constant w" "uint w = c" | w where "t = UInt64Constant w" "uint w = c"
      | w where "t = Int64Constant w" "sint w = c"
      using assms(1) by (auto simp: machine_constant_def split: bv.splits)
    then show ?thesis
    proof cases
      case (1 w)
      have "(ucast w :: 128 word) = ucast (ucast w :: 64 word)"
        by (rule bit_word_eqI) (auto simp: bit_simps dest: bit_imp_le_length)
      moreover have "uint (ucast w :: 64 word) = uint w" by (simp add: unsigned_ucast_eq bintr_uint)
      ultimately show ?thesis using 1 by auto
    next
      case (3 w)
      then show ?thesis using assms(2) sint_nonneg_uint [of w] by auto
    qed auto
  qed
  then obtain w :: "64 word" where w: "bv_value \<rho> t = ucast w" "uint w = c" by blast
  have "uint (ucast w :: 32 word) = c"
    using w assms(2,3) by (simp add: unsigned_ucast_eq take_bit_int_eq_self)
  then show "unat (low32 (bv_value \<rho> t)) = nat c" "unat (low64 (bv_value \<rho> t)) = nat c"
    using w by (simp_all add: unat_eq_nat_uint)
qed

lemma divisor_widths:
  assumes "consistent (Binary op a b)"
  shows "op \<in> {Op_UInt64Divide, Op_UInt64Remainder} \<Longrightarrow> carries Width64 b"
    and "op \<in> {Op_UnsignedDivide, Op_UnsignedRemainder} \<Longrightarrow> carries Width32 b"
  using assms by (auto simp: consistent_def width_rules binary_width_def word_operators_def wide_shifts_def)

text \<open>What the quotient or remainder of an unsigned operation is.\<close>

lemma machine_operation_value:
  assumes "machine_operation ty t = Some operation" and "consistent t"
  shows "case operation of
      Quotient_By a d \<Rightarrow> d > 0
        \<and> carrier_reading ty (bv_value \<rho> t) = carrier_reading ty (bv_value \<rho> a) div d
    | Remainder_By d \<Rightarrow> d > 0 \<and> carrier_reading ty (bv_value \<rho> t) < d"
proof -
  obtain op a b where t: "t = Binary op a b"
    using assms(1) by (auto simp: machine_operation_def split: bv.splits)
  note widths = divisor_widths [OF assms(2) [unfolded t]]
  have c64: "positive_constant b = Some d \<Longrightarrow> carries Width64 b \<Longrightarrow> d > 0 \<and> d = uint (low64 (bv_value \<rho> b))" for d
    using machine_constant_64 [of b] by (auto simp: positive_constant_def bind_eq_Some_conv split: if_splits)
  have c32: "positive_constant b = Some d \<Longrightarrow> carries Width32 b \<Longrightarrow> d > 0 \<and> d = uint (low32 (bv_value \<rho> b))" for d
    using machine_constant_32 [of b] by (auto simp: positive_constant_def bind_eq_Some_conv split: if_splits)
  have s32: "d = 2 ^ unat (low32 (bv_value \<rho> b))" and s64: "d = 2 ^ unat (low64 (bv_value \<rho> b))"
    if "shift_constant (type_bits ty) b = Some d" "type_bits ty \<le> 64" for d
    using that machine_constant_small [of b _ \<rho>]
    by (auto simp: shift_constant_def bind_eq_Some_conv split: if_splits)
  consider d where "ty = MUInt64" "op = Op_UInt64Divide" "operation = Quotient_By a d" "positive_constant b = Some d"
    | d where "ty = MUInt32" "op = Op_UnsignedDivide" "operation = Quotient_By a d" "positive_constant b = Some d"
    | d where "ty = MUInt64" "op = Op_UInt64LogicalShiftRight" "operation = Quotient_By a d" "shift_constant (type_bits ty) b = Some d"
    | d where "ty = MUInt32" "op = Op_LogicalShiftRight" "operation = Quotient_By a d" "shift_constant (type_bits ty) b = Some d"
    | d where "ty = MUInt64" "op = Op_UInt64Remainder" "operation = Remainder_By d" "positive_constant b = Some d"
    | d where "ty = MUInt32" "op = Op_UnsignedRemainder" "operation = Remainder_By d" "positive_constant b = Some d"
    using assms(1) by (auto simp: machine_operation_def t split: if_splits)
  then show ?thesis
  proof cases
    case (1 d)
    then show ?thesis using c64 [OF 1(4)] widths by (simp add: t native_readings binary32_def binary64_def uint_div)
  next
    case (2 d)
    then show ?thesis using c32 [OF 2(4)] widths by (simp add: t native_readings binary32_def uint_div)
  next
    case (3 d)
    then show ?thesis using s64 [OF 3(4)]
      by (simp add: t native_readings binary32_def binary64_def unsigned_drop_bit_eq bintr_uint flip: drop_bit_eq_div)
  next
    case (4 d)
    then show ?thesis using s32 [OF 4(4)]
      by (simp add: t native_readings binary32_def unsigned_drop_bit_eq bintr_uint flip: drop_bit_eq_div)
  next
    case (5 d)
    then show ?thesis using c64 [OF 5(4)] widths by (simp add: t native_readings binary32_def binary64_def uint_mod)
  next
    case (6 d)
    then show ?thesis using c32 [OF 6(4)] widths by (simp add: t native_readings binary32_def uint_mod)
  qed
qed

lemma div_bounds:
  assumes "0 < (d :: int)"
  shows "d * (a div d) \<le> a" "a \<le> d * (a div d) + (d - 1)"
  using assms pos_mod_bound [of d a] mult_div_mod_eq [of d a] pos_mod_sign [of d a] by linarith+

lemma operation_bound_holds:
  assumes "operation_bound ty t upper = Some p" and "consistent t"
  shows "holds M p"
proof -
  obtain operation where found: "machine_operation ty t = Some operation"
    using assms(1) by (auto simp: operation_bound_def split: option.splits)
  note facts = machine_operation_value [OF found assms(2), of "machine_values M"]
  show ?thesis
  proof (cases operation)
    case (Quotient_By operand d)
    then obtain i where "from_machine ty operand = Some i"
        and p: "p = ConditionIs (if upper
          then integer_less_equal i (Int_Add (Int_Multiply (Int_Constant d) (Machine ty t)) (Int_Constant (d - 1)))
          else integer_less_equal (Int_Multiply (Int_Constant d) (Machine ty t)) i) True"
      using assms(1) found by (auto simp: operation_bound_def Let_def split: option.splits)
    then have "integer_value M i = carrier_reading ty (bv_value (machine_values M) operand)"
      using from_machine_value by blast
    then show ?thesis using Quotient_By facts div_bounds [of d] by (simp add: p)
  next
    case (Remainder_By d)
    then show ?thesis using assms(1) found facts by (auto simp: operation_bound_def split: if_splits)
  qed
qed

lemma stated_disequality_holds:
  "stated_disequality p = Some (l, r) \<Longrightarrow> holds M p \<longleftrightarrow> integer_value M l \<noteq> integer_value M r"
  by (auto simp: stated_disequality_def integer_compare_def split: prop_term.splits condition.splits if_splits)

lemma observed_constant_value:
  "observed_constant l r = Some ((ty, t), c) \<Longrightarrow>
   integer_value M l \<noteq> integer_value M r \<longleftrightarrow> carrier_reading ty (bv_value (machine_values M) t) \<noteq> c"
  by (auto simp: observed_constant_def split: integer.splits)

lemma integer_disequality_holds:
  assumes "integer_disequality reg below p = Some ((ty, t), c)" and "holds M p"
    and "null_at_zero (machine_values M)" and "proposition_ok reg (machine_values M) p"
  shows "carrier_reading ty (bv_value (machine_values M) t) \<noteq> c"
proof -
  let ?stated = "case integer_observations_of_native_comparison reg below p of [] \<Rightarrow> p | q # _ \<Rightarrow> q"
  obtain l r where "stated_disequality ?stated = Some (l, r)" "observed_constant l r = Some ((ty, t), c)"
    using assms(1) by (auto simp: integer_disequality_def Let_def bind_eq_Some_conv)
  moreover have "holds M ?stated"
  proof (cases "integer_observations_of_native_comparison reg below p")
    case Nil
    then show ?thesis using assms(2) by simp
  next
    case (Cons q qs)
    then obtain condition "value" where p: "p = ConditionIs condition value"
      by (auto simp: integer_observations_of_native_comparison_def split: prop_term.splits)
    have "condition_ok reg (machine_values M) condition"
      using assms(4) Cons by (cases condition)
        (auto simp: p proposition_ok_def stated_condition_def integer_observations_of_native_comparison_def)
    then show ?thesis
      using integer_observations_exact [of q reg below condition "value" M] assms(2,3) Cons by (simp add: p)
  qed
  ultimately show ?thesis using stated_disequality_holds observed_constant_value by blast
qed

lemma excluded_type_bound_holds:
  assumes "excluded_type_bound reg below p = Some q" and "holds M p"
    and "null_at_zero (machine_values M)" and "proposition_ok reg (machine_values M) p"
  shows "holds M q"
proof -
  obtain ty t c where found: "integer_disequality reg below p = Some ((ty, t), c)"
    using assms(1) by (auto simp: excluded_type_bound_def bind_eq_Some_conv)
  have "carrier_reading ty (bv_value (machine_values M) t) \<noteq> c"
    by (rule integer_disequality_holds [OF found assms(2-4)])
  then show ?thesis
    using assms(1) found reading_bounds [of ty "bv_value (machine_values M) t"]
    by (auto simp: excluded_type_bound_def format_bounds_spec split: if_splits)
qed

section \<open>Claims closed under the steps of a certificate\<close>

text \<open>
  A step is sound when what it reads is: the premises' claims, the bounds it normalises,
  the goal it may assume to fail.
\<close>

definition bound_terms_ok :: "'x arithmetic_node list \<Rightarrow> bool" where
  "bound_terms_ok nodes = list_all (\<lambda>node. case node of
     OperationBound (Machine ty t) upper result \<Rightarrow> consistent t
   | _ \<Rightarrow> True) nodes"

lemma element_Inr: "element xs i e = Inr x \<longleftrightarrow> i < length xs \<and> x = xs ! i"
  by (auto simp: element_def)

lemma or_error_Inr: "or_error x e = Inr y \<longleftrightarrow> x = Some y"
  by (simp add: or_error_def split: option.split)

lemma recomputed_Inr: "recomputed node expected r = Inr c \<longleftrightarrow> c = expected \<and> r = expected"
  by (auto simp: recomputed_def)

lemmas step_Inr = attempt_Inr element_Inr or_error_Inr recomputed_Inr

lemma negated_goal_holds:
  assumes "\<not> claim_holds M goal" and "claim_relation goal = Affine_LessEqual"
  shows "claim_holds M (negate_claim goal Affine_LessEqual\<lparr>claim_constant :=
    claim_constant (negate_claim goal Affine_LessEqual) + 1\<rparr>)"
  using assms by (simp add: claim_holds_def claim_value_def negate_claim_def claim_of_def worth_negate_terms)

text \<open>The bounds a step normalises are orders of integers.\<close>

definition is_order :: "'x prop_term \<Rightarrow> bool" where
  "is_order p \<longleftrightarrow> (\<exists>a b. p = ConditionIs (integer_less_equal a b) True)"

lemma bounds_are_orders:
  "is_order (machine_type_range ty t upper)"
  "operation_bound ty t upper = Some p \<Longrightarrow> is_order p"
  "excluded_type_bound reg below p = Some q \<Longrightarrow> is_order q"
  by (auto simp: is_order_def machine_type_range_def operation_bound_def excluded_type_bound_def format_bounds_spec
      Let_def bind_eq_Some_conv split: option.splits machine_operation.splits if_splits)

lemma order_ok: "is_order p \<Longrightarrow> proposition_ok reg \<rho> p"
  by (auto simp: is_order_def proposition_ok_def stated_condition_def integer_less_equal_def
      integer_comparison_term_def condition_ok_def split: option.splits)

lemma check_node_sound:
  assumes step: "check_node claims claim excluded goal premises checked node step = Inr result"
    and checked: "\<forall>c \<in> set checked. claim_holds M c"
    and stated: "\<forall>p \<in> set premises. \<forall>c \<in> set (claims p). claim_holds M c"
    and excluded: "\<And>p q. p \<in> set premises \<Longrightarrow> excluded p = Some q \<Longrightarrow> is_order q \<and> holds M q"
    and goal: "\<not> claim_holds M goal"
    and bounds: "\<And>p c. claim p = Some c \<Longrightarrow> is_order p \<Longrightarrow> holds M p \<Longrightarrow> claim_holds M c"
    and terms: "bound_terms_ok [step]"
  shows "claim_holds M result"
proof (cases step)
  case (Scale source k expected)
  then show ?thesis using step checked
    by (auto simp: step_Inr claim_holds_def claim_values mult_nonneg_nonpos split: if_splits affine_relation.splits)
next
  case (Add_Claims left right expected)
  then have "claim_holds M (checked ! left)" "claim_holds M (checked ! right)"
      "claim_relation (checked ! left) = claim_relation (checked ! right)"
      "result = add_claim (checked ! left) (checked ! right)"
    using step checked by (auto simp: step_Inr split: if_splits)
  then show ?thesis by (auto simp: claim_holds_def claim_values split: affine_relation.splits)
next
  case (EqualityToLessEqual source reversed expected)
  then have "claim_holds M (checked ! source)" "claim_relation (checked ! source) = Affine_Equal"
      "result = (if reversed then negate_claim (checked ! source) Affine_LessEqual
        else claim_of Affine_LessEqual (claim_terms (checked ! source)) (claim_constant (checked ! source)))"
    using step checked by (auto simp: step_Inr split: if_splits)
  then show ?thesis by (simp add: claim_holds_def claim_value_def negate_claim_def worth_negate_terms)
next
  case (EqualityFromBounds lower upper expected)
  then have "claim_holds M (checked ! lower)" "claim_holds M (checked ! upper)"
      "claim_relation (checked ! lower) = Affine_LessEqual" "claim_relation (checked ! upper) = Affine_LessEqual"
      "claims_are_opposites (checked ! lower) (checked ! upper)"
      "result = claim_of Affine_Equal (claim_terms (checked ! lower)) (claim_constant (checked ! lower))"
    using step checked by (auto simp: step_Inr Let_def split: if_splits)
  then show ?thesis using opposite_values [of "checked ! lower" "checked ! upper" M]
    by (simp add: claim_holds_def) (simp add: claim_value_def)
next
  case (Trivial expected)
  then show ?thesis using step trivial_holds by (auto split: if_splits)
next
  case (NegatedGoal expected)
  then show ?thesis using step negated_goal_holds [OF goal] by (auto simp: step_Inr Let_def split: if_splits)
next
  case (Divide_Claim source divisor expected)
  then have "claim_holds M (checked ! source)" "claim_relation (checked ! source) = Affine_LessEqual"
      "divide_claim (checked ! source) divisor = Some result"
    using step checked by (auto simp: step_Inr split: if_splits)
  then show ?thesis by (intro divide_claim_holds) (auto simp: claim_holds_def)
next
  case (Premise index expected)
  then show ?thesis using step stated by (auto simp: step_Inr split: if_splits)
next
  case (TypeRange v upper expected)
  then obtain ty t where "claim (machine_type_range ty t upper) = Some result"
    using step by (auto simp: step_Inr split: integer.splits)
  then show ?thesis using bounds bounds_are_orders(1) machine_type_range_holds by blast
next
  case (OperationBound v upper expected)
  then obtain ty t p where "operation_bound ty t upper = Some p" "claim p = Some result" "consistent t"
    using step terms by (auto simp: step_Inr bound_terms_ok_def bind_eq_Some_conv split: integer.splits)
  then show ?thesis using bounds bounds_are_orders(2) operation_bound_holds by blast
next
  case (ExcludedTypeBound index expected)
  then obtain p q where "p \<in> set premises" "excluded p = Some q" "claim q = Some result"
    using step by (auto simp: step_Inr bind_eq_Some_conv intro: that [OF nth_mem])
  then show ?thesis using bounds excluded by blast
qed

lemma check_nodes_sound:
  assumes "check_nodes step checked nodes = Inr results" and "\<forall>c \<in> set checked. claim_holds M c"
    and "\<And>n checked node result. node \<in> set nodes \<Longrightarrow> step n checked node = Inr result \<Longrightarrow>
      \<forall>c \<in> set checked. claim_holds M c \<Longrightarrow> claim_holds M result"
  shows "\<forall>c \<in> set results. claim_holds M c"
  using assms
proof (induction nodes arbitrary: checked)
  case (Cons node nodes)
  then obtain result where result: "step (length checked) checked node = Inr result"
    and rest: "check_nodes step (checked @ [result]) nodes = Inr results"
    by (auto simp: attempt_Inr)
  have "claim_holds M result" by (rule Cons.prems(3) [OF _ result Cons.prems(2)]) simp
  then have "\<forall>c \<in> set (checked @ [result]). claim_holds M c" using Cons.prems(2) by auto
  then show ?case using Cons.IH [OF rest] Cons.prems(3) by (meson list.set_intros(2))
qed simp

lemma check_nodes_length:
  "check_nodes step checked nodes = Inr results \<Longrightarrow> length results = length checked + length nodes"
  by (induction nodes arbitrary: checked) (auto simp: attempt_Inr)

section \<open>Properties\<close>

text \<open>C1: A certificate that the kernel accepts proves its goal: in every meaning in which
  the premises hold, the goal holds. A certificate that steps outside its premises or its
  nodes is refused.\<close>

theorem certificate_sound:
  assumes "null_at_zero (machine_values M)" and "fold_keys_ok fold_key M"
    and "list_all (proposition_ok reg (machine_values M)) (goal # premises)"
    and "bound_terms_ok (certificate_nodes certificate)"
    and "list_all (holds M) premises"
    and "check_arithmetic reg below fold_key certificate goal premises = Inr ()"
  shows "holds M goal \<and> certificate_conclusion certificate < length (certificate_nodes certificate)"
proof -
  let ?claims = "integer_affine_claims reg below fold_key" and ?claim = "integer_affine_claim reg below fold_key"
  obtain expected others checked where claims: "?claims goal = expected # others"
    and nodes: "check_nodes (\<lambda>node checked. check_node ?claims ?claim (excluded_type_bound reg below) expected
        premises checked node) [] (certificate_nodes certificate) = Inr checked"
    and conclusion: "certificate_conclusion certificate < length checked"
    and decided: "checked ! certificate_conclusion certificate \<in> set (?claims goal)
      \<or> claim_is_contradiction (checked ! certificate_conclusion certificate)"
    using assms(6) by (auto simp: check_arithmetic_def Let_def step_Inr split: list.splits if_splits)
  have "holds M goal"
  proof (rule ccontr)
    assume fails: "\<not> holds M goal"
    have exact: "claim_holds M c \<longleftrightarrow> holds M p" if "p \<in> set (goal # premises)" "c \<in> set (?claims p)" for p c
      using integer_affine_claims_hold [OF assms(1) _ assms(2) that(2)] assms(3) that(1) by (auto simp: list_all_iff)
    have "claim_holds M result" if "node \<in> set (certificate_nodes certificate)"
      "check_node ?claims ?claim (excluded_type_bound reg below) expected premises checked n node = Inr result"
      "\<forall>c \<in> set checked. claim_holds M c" for n checked node result
    proof (rule check_node_sound [OF that(2,3)])
      show "\<forall>p \<in> set premises. \<forall>c \<in> set (?claims p). claim_holds M c"
        using exact assms(5) by (auto simp: list_all_iff)
      show "is_order q \<and> holds M q" if "p \<in> set premises" "excluded_type_bound reg below p = Some q" for p q
        using that excluded_type_bound_holds [OF that(2)] bounds_are_orders(3) assms(1,3,5)
        by (auto simp: list_all_iff)
      show "\<not> claim_holds M expected" using exact [of goal expected] claims fails by simp
      show "claim_holds M c" if "?claim p = Some c" "is_order p" "holds M p" for p c
        using integer_affine_claim_holds [OF assms(1) order_ok [OF that(2)] assms(2) that(1)] that(3) by simp
      show "bound_terms_ok [node]" using assms(4) that(1) by (auto simp: bound_terms_ok_def list_all_iff)
    qed
    then have "\<forall>c \<in> set checked. claim_holds M c"
      by (intro check_nodes_sound [OF nodes]) auto
    then have "claim_holds M (checked ! certificate_conclusion certificate)" using conclusion by simp
    then show False using decided exact [of goal] fails contradiction_fails by auto
  qed
  then show ?thesis using conclusion check_nodes_length [OF nodes] by simp
qed

text \<open>From \<open>x <= 5\<close> the kernel accepts that \<open>x <= 7\<close>: the premise and the goal's
  negation add up to a contradiction.\<close>

definition sample_goal :: "nat prop_term" where
  "sample_goal = ConditionIs (Native (Bitvector64UnsignedLessEqual sample_word (UInt64Constant 7))) True"

definition sample_certificate :: "nat arithmetic_certificate" where
  "sample_certificate = \<lparr>certificate_nodes =
     [Premise 0 (claim_of Affine_LessEqual (fmap_of_list [(Atom_Machine MUInt64 sample_word, 1)]) (- 5)),
      NegatedGoal (claim_of Affine_LessEqual (fmap_of_list [(Atom_Machine MUInt64 sample_word, - 1)]) 8),
      Add_Claims 0 1 (claim_of Affine_LessEqual fmempty 3)],
     certificate_conclusion = 2\<rparr>"

theorem certificate_sound_witness:
  "check_arithmetic bare_registry (\<lambda>_ _. False) Some sample_certificate sample_goal [sample_bound] = Inr ()
   \<and> holds sample_meaning sample_goal"
proof -
  have accepted: "check_arithmetic bare_registry (\<lambda>_ _. False) Some sample_certificate sample_goal
      [sample_bound] = Inr ()"
    by code_simp
  have "holds sample_meaning sample_bound"
    by (simp add: sample_bound_def sample_meaning_def compare_value_def sample_word_def zero_valuation_def)
  moreover have "proposition_ok reg \<rho> sample_goal" for reg \<rho>
    by (simp add: proposition_ok_def sample_goal_def stated_condition_def condition_ok_def sample_word_operand
        native_operand_def [of _ _ "UInt64Constant 7"] null_only_def)
  moreover have "fold_keys_ok Some sample_meaning" by (simp add: fold_keys_ok_def)
  moreover have "bound_terms_ok (certificate_nodes sample_certificate)"
    by (simp add: bound_terms_ok_def sample_certificate_def)
  ultimately have "holds sample_meaning sample_goal"
    using certificate_sound [OF sample_meaning_null _ _ _ _ accepted] sample_bound_ok by simp
  with accepted show ?thesis by simp
qed

end
