(* ===== verification/IntegerRules.thy ===== *)
theory IntegerRules
  imports IntegerReadings IntervalOps
begin

text \<open>
  Rules of exact integer arithmetic that cite their premises by index, one per file
  \<^verbatim>\<open>src/src/kernel/proof/integer_*.rs\<close>. Each is a local check of premises and
  result; the work counters, which only end a check early, are left out. A rule is sound
  when it accepts only results that hold wherever the premises do.
\<close>

datatype rule_error =
    InvalidIntegerProductBounds nat
  | InvalidIntegerDivisionBounds nat
  | InvalidIntegerMultiplyOrder nat
  | InvalidIntegerQuotientBound nat
  | InvalidIntegerBoundExclusion nat
  | InvalidIntegerRelationTransport nat
  | InvalidIntegerPolynomialIdentity nat
  | IntegerPolynomialLimitExceeded
  | InvalidIntegerQuotientShift nat
  | InvalidIntegerCastIdentity nat
  | InvalidIntegerOperationIdentity nat
  | Rule_InvalidPremise nat
  | Rule_InvalidNodeReference nat
  | Rule_InvalidOperator nat
  | Rule_NodeResultMismatch nat
  | Rule_DoesNotFollow

type_synonym 'x rule_check = "nat \<Rightarrow> nat list \<Rightarrow> 'x prop_term list \<Rightarrow> 'x prop_term \<Rightarrow> rule_error + unit"

definition sound_rule :: "'x meaning \<Rightarrow> 'x rule_check \<Rightarrow> bool" where
  "sound_rule M check \<longleftrightarrow>
     (\<forall>node bounds premises result.
        list_all (holds M) premises \<longrightarrow> check node bounds premises result = Inr () \<longrightarrow> holds M result)"

section \<open>Shared readers\<close>

definition cited :: "'x prop_term list \<Rightarrow> nat \<Rightarrow> rule_error + 'x prop_term" where
  "cited premises i = (if i < length premises then Inr (premises ! i) else Inl (Rule_InvalidPremise i))"

definition required :: "'e \<Rightarrow> 'a option \<Rightarrow> 'e + 'a" where
  "required e x = (case x of None \<Rightarrow> Inl e | Some y \<Rightarrow> Inr y)"

definition follows :: "'e \<Rightarrow> bool \<Rightarrow> 'e + unit" where
  "follows e b = (if b then Inr () else Inl e)"

definition integer_order :: "'x prop_term \<Rightarrow> ('x integer \<times> 'x integer) option" where
  "integer_order p = (case p of
     ConditionIs (Integer_Relation op a b) value \<Rightarrow> if op = Op_IntegerLessEqual \<and> value then Some (a, b) else None
   | _ \<Rightarrow> None)"

definition stated_equality :: "'x prop_term \<Rightarrow> ('x integer \<times> 'x integer) option" where
  "stated_equality p = (case p of
     ConditionIs (Integer_Relation op a b) value \<Rightarrow> if op = Op_IntegerEqual \<and> value then Some (a, b) else None
   | _ \<Rightarrow> None)"

text \<open>The constant end of an order and the term it bounds: a lower bound when the constant is left.\<close>

definition constant_bound :: "'x prop_term \<Rightarrow> ('x integer \<times> int \<times> bool) option" where
  "constant_bound p = Option.bind (integer_order p) (\<lambda>(a, b).
     case (integer_const a, integer_const b) of
       (Some c, _) \<Rightarrow> Some (b, c, True)
     | (None, Some c) \<Rightarrow> Some (a, c, False)
     | (None, None) \<Rightarrow> None)"

lemma integer_order_holds:
  "integer_order p = Some (a, b) \<Longrightarrow> holds M p \<longleftrightarrow> integer_value M a \<le> integer_value M b"
  by (auto simp: integer_order_def integer_compare_def split: prop_term.splits condition.splits if_splits)

lemma stated_equality_holds:
  "stated_equality p = Some (a, b) \<Longrightarrow> holds M p \<longleftrightarrow> integer_value M a = integer_value M b"
  by (auto simp: stated_equality_def integer_compare_def split: prop_term.splits condition.splits if_splits)

lemma constant_bound_holds:
  "constant_bound p = Some (t, c, lower) \<Longrightarrow>
   holds M p \<longleftrightarrow> (if lower then c \<le> integer_value M t else integer_value M t \<le> c)"
  using integer_order_holds [of p _ _ M]
  by (auto simp: constant_bound_def bind_eq_Some_conv split: option.splits)

lemma reader_Inr:
  "cited premises i = Inr p \<longleftrightarrow> i < length premises \<and> p = premises ! i"
  "required e x = Inr y \<longleftrightarrow> x = Some y"
  "follows e b = Inr u \<longleftrightarrow> b"
  "(if b then Inl e else r) = Inr u \<longleftrightarrow> \<not> b \<and> r = Inr u"
  by (auto simp: cited_def required_def follows_def split: option.splits)

lemmas rule_Inr = attempt_Inr reader_Inr

section \<open>Endpoint rules\<close>

text \<open>
  Four premises bound the operands: lower and upper bound of the left one, then of the
  right one. The source reads them in one loop; here the loop is over the positions.
\<close>

definition endpoint_at ::
  "rule_error \<Rightarrow> 'x prop_term list \<Rightarrow> 'x integer \<Rightarrow> 'x integer \<Rightarrow> nat \<Rightarrow> nat \<Rightarrow> rule_error + int"
where
  "endpoint_at invalid premises left right position index =
     attempt (cited premises index) (\<lambda>premise.
     attempt (required invalid (integer_order premise)) (\<lambda>(first, second).
       let operand = (if position < 2 then left else right) in
       required invalid
         (if position mod 2 = 0 \<and> second = operand then integer_const first
          else if position mod 2 = 1 \<and> first = operand then integer_const second
          else None)))"

fun endpoints_from ::
  "rule_error \<Rightarrow> 'x prop_term list \<Rightarrow> 'x integer \<Rightarrow> 'x integer \<Rightarrow> nat \<Rightarrow> nat list \<Rightarrow> rule_error + int list"
where
  "endpoints_from invalid premises left right position [] = Inr []"
| "endpoints_from invalid premises left right position (index # indices) =
     attempt (endpoint_at invalid premises left right position index) (\<lambda>endpoint.
     attempt (endpoints_from invalid premises left right (Suc position) indices) (\<lambda>endpoints.
       Inr (endpoint # endpoints)))"

definition product_operands :: "'x integer \<Rightarrow> ('x integer \<times> 'x integer) option" where
  "product_operands t = (case t of Int_Multiply a b \<Rightarrow> Some (a, b) | _ \<Rightarrow> None)"

definition check_product_bounds :: "'x rule_check" where
  "check_product_bounds node bounds premises result =
     (let invalid = InvalidIntegerProductBounds node in
      if length bounds \<noteq> 4 then Inl invalid
      else
        attempt (required (Rule_InvalidOperator node) (constant_bound result)) (\<lambda>(product, target, lower).
        attempt (required (Rule_InvalidOperator node) (product_operands product)) (\<lambda>(left, right).
        attempt (endpoints_from invalid premises left right 0 bounds) (\<lambda>ends.
          if ends ! 0 > ends ! 1 \<or> ends ! 2 > ends ! 3 then Inl invalid
          else
            (let products = [ends ! 0 * ends ! 2, ends ! 0 * ends ! 3, ends ! 1 * ends ! 2, ends ! 1 * ends ! 3] in
             follows (Rule_NodeResultMismatch node)
               (if lower then list_all (\<lambda>p. target \<le> p) products else list_all (\<lambda>p. p \<le> target) products))))))"

definition remainder_extremes :: "int \<Rightarrow> int \<Rightarrow> int \<Rightarrow> int \<Rightarrow> int \<times> int" where
  "remainder_extremes a_low a_high b_low b_high =
     (let modulus = max \<bar>b_low\<bar> \<bar>b_high\<bar> - 1;
          numerator_magnitude = max \<bar>a_low\<bar> \<bar>a_high\<bar>;
          minimum_divisor = min \<bar>b_low\<bar> \<bar>b_high\<bar>
      in if numerator_magnitude < minimum_divisor then (a_low, a_high)
         else (if a_low < 0 then - min \<bar>a_low\<bar> modulus else 0, if a_high > 0 then min a_high modulus else 0))"

definition quotient_extremes :: "int \<Rightarrow> int \<Rightarrow> int \<Rightarrow> int \<Rightarrow> int \<times> int" where
  "quotient_extremes a_low a_high b_low b_high =
     (let quotients = [a_low sdiv b_low, a_low sdiv b_high, a_high sdiv b_low, a_high sdiv b_high] in
      (Min (set quotients), Max (set quotients)))"

definition division_extremes :: "bool \<Rightarrow> int list \<Rightarrow> int \<times> int" where
  "division_extremes modular ends =
     (if modular then remainder_extremes (ends ! 0) (ends ! 1) (ends ! 2) (ends ! 3)
      else quotient_extremes (ends ! 0) (ends ! 1) (ends ! 2) (ends ! 3))"

definition division_operands :: "'x integer \<Rightarrow> ('x integer \<times> 'x integer \<times> bool) option" where
  "division_operands t = (case t of
     TruncatingQuotient a b \<Rightarrow> Some (a, b, False)
   | TruncatingRemainder a b \<Rightarrow> Some (a, b, True)
   | _ \<Rightarrow> None)"

definition straddles_zero :: "int \<Rightarrow> int \<Rightarrow> bool" where
  "straddles_zero low high \<longleftrightarrow> low \<le> 0 \<and> high \<ge> 0"

definition check_division_bounds :: "'x rule_check" where
  "check_division_bounds node bounds premises result =
     (let invalid = InvalidIntegerDivisionBounds node in
      if length bounds \<noteq> 4 then Inl invalid
      else
        attempt (required (Rule_InvalidOperator node) (constant_bound result)) (\<lambda>(expression, target, lower).
        attempt (required (Rule_InvalidOperator node) (division_operands expression)) (\<lambda>(left, right, modular).
        attempt (endpoints_from invalid premises left right 0 bounds) (\<lambda>ends.
          if ends ! 0 > ends ! 1 \<or> ends ! 2 > ends ! 3 then Inl invalid
          else if straddles_zero (ends ! 2) (ends ! 3) then Inl invalid
          else
            (let extremes = division_extremes modular ends in
             follows (Rule_NodeResultMismatch node) (if lower then target \<le> fst extremes else snd extremes \<le> target))))))"

section \<open>Product and quotient rules\<close>

text \<open>The product that the constructor would build, recognised without building it.\<close>

definition is_product :: "'x integer \<Rightarrow> 'x integer \<Rightarrow> 'x integer \<Rightarrow> bool" where
  "is_product p a b =
     (case (integer_const a, integer_const b) of
        (Some x, Some y) \<Rightarrow> integer_const p = Some (x * y)
      | (x, y) \<Rightarrow>
          if x = Some 0 \<or> y = Some 0 then integer_const p = Some 0
          else if x = Some 1 then p = b
          else if y = Some 1 then p = a
          else p = Int_Multiply a b \<or> p = Int_Multiply b a)"

definition check_multiply_order :: "'x rule_check" where
  "check_multiply_order node bounds premises result =
     (let invalid = InvalidIntegerMultiplyOrder node in
      case bounds of
        [first, second] \<Rightarrow>
          attempt (cited premises first) (\<lambda>ordered.
          attempt (required invalid (integer_order ordered)) (\<lambda>(a, b).
          attempt (cited premises second) (\<lambda>signed.
          attempt (required invalid (integer_order signed)) (\<lambda>(s, t).
          attempt (required (Rule_InvalidOperator node) (integer_order result)) (\<lambda>(left, right).
            if integer_const s = Some 0
            then follows (Rule_NodeResultMismatch node) (is_product left a t \<and> is_product right b t)
            else if integer_const t = Some 0
            then follows (Rule_NodeResultMismatch node) (is_product left b s \<and> is_product right a s)
            else Inl invalid)))))
      | _ \<Rightarrow> Inl invalid)"

definition is_scaled :: "'x integer \<Rightarrow> 'x integer \<Rightarrow> 'x integer \<Rightarrow> bool" where
  "is_scaled product bound d =
     (case (integer_const bound, integer_const d) of
        (Some b, Some divisor) \<Rightarrow> integer_const product = Some (b * divisor)
      | (b, divisor) \<Rightarrow>
          if b = Some 0 \<or> divisor = Some 0 then integer_const product = Some 0
          else if b = Some 1 then product = d
          else if divisor = Some 1 then product = bound
          else product = Int_Multiply bound d)"

text \<open>Which side of the goal is the quotient, by the named numerator and divisor.\<close>

definition quotient_side ::
  "'x integer \<Rightarrow> 'x integer \<Rightarrow> 'x integer \<Rightarrow> 'x integer \<Rightarrow> 'x integer
   \<Rightarrow> ('x integer \<times> 'x integer \<times> 'x integer) option"
where
  "quotient_side left right divisor scaled_left scaled_right =
     first_match
       [case left of
          TruncatingQuotient n d \<Rightarrow>
            if divisor = d \<and> scaled_left = n then Some (Some (d, right, scaled_right)) else None
        | _ \<Rightarrow> None,
        case right of
          TruncatingQuotient n d \<Rightarrow>
            if divisor = d \<and> scaled_right = n then Some (Some (d, left, scaled_left)) else None
        | _ \<Rightarrow> None]
       None"

definition check_quotient_bound :: "'x rule_check" where
  "check_quotient_bound node bounds premises result =
     (let invalid = InvalidIntegerQuotientBound node in
      case bounds of
        [scaling, sign] \<Rightarrow>
          attempt (required (Rule_InvalidOperator node) (integer_order result)) (\<lambda>(left, right).
          attempt (cited premises sign) (\<lambda>signed.
          attempt (required invalid (integer_order signed)) (\<lambda>(positive, divisor).
            if integer_const positive \<noteq> Some 1 then Inl invalid
            else
              attempt (cited premises scaling) (\<lambda>scaled.
              attempt (required invalid (integer_order scaled)) (\<lambda>(scaled_left, scaled_right).
              attempt (required invalid (quotient_side left right divisor scaled_left scaled_right))
                (\<lambda>(d, bound, product).
                  follows (Rule_NodeResultMismatch node) (is_scaled product bound d)))))))
      | _ \<Rightarrow> Inl invalid)"

definition nonnegative_premise :: "'x prop_term \<Rightarrow> 'x integer \<Rightarrow> bool" where
  "nonnegative_premise p v = (case integer_order p of
     Some (zero, x) \<Rightarrow> integer_const zero = Some 0 \<and> x = v
   | None \<Rightarrow> False)"

text \<open>The numerator's summand and the shift, when the equation has the form of the rule.\<close>

definition shifted_quotient :: "'x prop_term \<Rightarrow> ('x integer \<times> 'x integer) option" where
  "shifted_quotient result =
     (case stated_equality result of
        Some (TruncatingQuotient (Int_Add x (Int_Multiply factor k)) d,
              Int_Add (TruncatingQuotient numerator denominator) increment) \<Rightarrow>
          (case integer_const d of
             Some divisor \<Rightarrow>
               if divisor > 0 \<and> factor = d \<and> numerator = x \<and> denominator = d \<and> increment = k
               then Some (x, k) else None
           | None \<Rightarrow> None)
      | _ \<Rightarrow> None)"

definition check_quotient_shift :: "'x rule_check" where
  "check_quotient_shift node bounds premises result =
     (let invalid = InvalidIntegerQuotientShift node in
      case bounds of
        [first, second] \<Rightarrow>
          attempt (required invalid (shifted_quotient result)) (\<lambda>(x, k).
          attempt (cited premises first) (\<lambda>p.
            if \<not> nonnegative_premise p x then Inl invalid
            else attempt (cited premises second) (\<lambda>q. follows invalid (nonnegative_premise q k))))
      | _ \<Rightarrow> Inl invalid)"

section \<open>Rules on one or two premises\<close>

definition excluded_constant :: "'x prop_term \<Rightarrow> ('x integer \<times> int) option" where
  "excluded_constant result =
     (case result of
        ConditionIs (Integer_Relation op a b) value \<Rightarrow>
          if op = Op_IntegerNotEqual \<and> value \<or> op = Op_IntegerEqual \<and> \<not> value
          then (case (integer_const a, integer_const b) of
                  (Some c, _) \<Rightarrow> Some (b, c)
                | (None, Some c) \<Rightarrow> Some (a, c)
                | (None, None) \<Rightarrow> None)
          else None
      | _ \<Rightarrow> None)"

definition check_bound_exclusion :: "'x rule_check" where
  "check_bound_exclusion node bounds premises result =
     (let invalid = InvalidIntegerBoundExclusion node in
      case bounds of
        [bound] \<Rightarrow>
          attempt (required invalid (excluded_constant result)) (\<lambda>(t, excluded).
          attempt (cited premises bound) (\<lambda>premise.
          attempt (required invalid (integer_order premise)) (\<lambda>(lo, hi).
            if hi = t
            then attempt (required invalid (integer_const lo)) (\<lambda>endpoint. follows invalid (excluded < endpoint))
            else if lo = t
            then attempt (required invalid (integer_const hi)) (\<lambda>endpoint. follows invalid (excluded > endpoint))
            else Inl invalid)))
      | _ \<Rightarrow> Inl invalid)"

definition transported_relation :: "'x prop_term \<Rightarrow> ('x integer \<times> 'x integer \<times> bool) option" where
  "transported_relation p =
     (case integer_order p of
        Some (a, b) \<Rightarrow> Some (a, b, False)
      | None \<Rightarrow> map_option (\<lambda>(a, b). (a, b, True)) (stated_equality p))"

definition check_relation_transport :: "'x rule_check" where
  "check_relation_transport node bounds premises result =
     (let invalid = InvalidIntegerRelationTransport node in
      case bounds of
        [equality, related] \<Rightarrow>
          attempt (cited premises equality) (\<lambda>p.
          attempt (required invalid (stated_equality p)) (\<lambda>(a, b).
          attempt (cited premises related) (\<lambda>q.
          attempt (required invalid (transported_relation q)) (\<lambda>(lo, hi, equal).
          attempt (required invalid (transported_relation result)) (\<lambda>(new_lo, new_hi, new_equal).
            if equal \<noteq> new_equal then Inl invalid
            else
              (let same = (\<lambda>x y. x = a \<and> y = b \<or> x = b \<and> y = a) in
               follows invalid (new_lo = lo \<and> same hi new_hi \<or> new_hi = hi \<and> same lo new_lo)))))))
      | _ \<Rightarrow> Inl invalid)"

text \<open>The mathematical value of an observed machine addition or subtraction.\<close>

definition machine_sum :: "machine_integer_type \<Rightarrow> 'x bv \<Rightarrow> ('x bv \<times> 'x bv \<times> bool) option" where
  "machine_sum ty t = (case t of
     Binary op l r \<Rightarrow>
       if (ty, op) \<in> {(MInt32, Op_Add), (MUInt32, Op_Add), (MInt64, Op_Int64Add), (MUInt64, Op_UInt64Add)}
       then Some (l, r, False)
       else if (ty, op) \<in> {(MInt32, Op_Subtract), (MUInt32, Op_Subtract), (MInt64, Op_Int64Subtract),
           (MUInt64, Op_UInt64Subtract)}
       then Some (l, r, True)
       else None
   | _ \<Rightarrow> None)"

definition mathematical :: "'x integer \<Rightarrow> (machine_integer_type \<times> 'x integer) option" where
  "mathematical observed =
     (case observed of
        Machine ty t \<Rightarrow>
          Option.bind (machine_sum ty t) (\<lambda>(l, r, negative).
          Option.bind (from_machine ty l) (\<lambda>left.
          Option.bind (from_machine ty r) (\<lambda>right.
            Some (ty, if negative then integer_subtract left right else integer_add left right))))
      | _ \<Rightarrow> None)"

text \<open>Two premises bound a term by constants, inside a range.\<close>

definition bounded_inside ::
  "rule_error \<Rightarrow> 'x prop_term list \<Rightarrow> nat list \<Rightarrow> 'x integer \<Rightarrow> machine_integer_format \<Rightarrow> rule_error + unit"
where
  "bounded_inside invalid premises bounds t format =
     attempt (cited premises (bounds ! 0)) (\<lambda>lower.
     attempt (cited premises (bounds ! 1)) (\<lambda>upper.
     attempt (required invalid (integer_order lower)) (\<lambda>(lo, operand).
     attempt (required invalid (integer_order upper)) (\<lambda>(other_operand, hi).
       if operand \<noteq> t \<or> other_operand \<noteq> t then Inl invalid
       else
         (case (integer_const lo, integer_const hi) of
            (Some lo, Some hi) \<Rightarrow>
              (let (minimum, maximum) = format_bounds format in
               if lo > hi \<or> lo < minimum \<or> hi > maximum then Inl invalid else Inr ())
          | _ \<Rightarrow> Inl invalid)))))"

definition check_operation_identity :: "'x rule_check" where
  "check_operation_identity node bounds premises result =
     (let invalid = InvalidIntegerOperationIdentity node in
      if length bounds \<noteq> 2 then Inl invalid
      else
        attempt (required invalid (stated_equality result)) (\<lambda>(a, b).
        attempt (required invalid
          (case mathematical a of
             Some (ty, v) \<Rightarrow> Some (ty, v, b)
           | None \<Rightarrow> map_option (\<lambda>(ty, v). (ty, v, a)) (mathematical b))) (\<lambda>(ty, v, stated).
          if stated \<noteq> v then Inl invalid
          else bounded_inside invalid premises bounds stated (type_format ty))))"

section \<open>Every rule is sound\<close>

lemma sound_ruleI:
  "(\<And>node bounds premises result. list_all (holds M) premises \<Longrightarrow>
      check node bounds premises result = Inr () \<Longrightarrow> holds M result) \<Longrightarrow> sound_rule M check"
  by (auto simp: sound_rule_def)

lemma cited_holds: "list_all (holds M) premises \<Longrightarrow> i < length premises \<Longrightarrow> holds M (premises ! i)"
  by (simp add: list_all_length)

lemma endpoint_at_value:
  assumes "list_all (holds M) premises" and "endpoint_at invalid premises left right position index = Inr c"
  shows "(let v = integer_value M (if position < 2 then left else right) in
    if position mod 2 = 0 then c \<le> v else v \<le> c)"
proof -
  obtain first second where order: "integer_order (premises ! index) = Some (first, second)" "index < length premises"
    and reads: "(if position mod 2 = 0 \<and> second = (if position < 2 then left else right) then integer_const first
      else if position mod 2 = 1 \<and> first = (if position < 2 then left else right) then integer_const second
      else None) = Some c"
    using assms(2) by (auto simp: endpoint_at_def rule_Inr Let_def)
  have "integer_value M first \<le> integer_value M second"
    using integer_order_holds [OF order(1)] cited_holds [OF assms(1) order(2)] by blast
  then show ?thesis using reads by (auto simp: Let_def split: if_splits)
qed

lemma endpoints_value:
  assumes "list_all (holds M) premises" and "length bounds = 4"
    and "endpoints_from invalid premises left right 0 bounds = Inr ends"
  shows "ends ! 0 \<le> integer_value M left \<and> integer_value M left \<le> ends ! 1
    \<and> ends ! 2 \<le> integer_value M right \<and> integer_value M right \<le> ends ! 3"
proof -
  obtain i j k l where bounds: "bounds = [i, j, k, l]"
    using assms(2) by (auto simp: length_Suc_conv eval_nat_numeral)
  obtain a b c d where ends: "ends = [a, b, c, d]"
    and reads: "endpoint_at invalid premises left right 0 i = Inr a" "endpoint_at invalid premises left right 1 j = Inr b"
      "endpoint_at invalid premises left right 2 k = Inr c" "endpoint_at invalid premises left right 3 l = Inr d"
    using assms(3) by (auto simp: bounds attempt_Inr numeral_2_eq_2 numeral_3_eq_3)
  show ?thesis
    using reads [THEN endpoint_at_value [OF assms(1)]] by (simp add: ends Let_def)
qed

lemma product_bounds_sound: "sound_rule M check_product_bounds"
proof (rule sound_ruleI)
  fix node bounds facts result
  assume true: "list_all (holds M) facts" and accepted: "check_product_bounds node bounds facts result = Inr ()"
  obtain t left right target lower ends where
      bound: "constant_bound result = Some (t, target, lower)"
    and t: "product_operands t = Some (left, right)"
    and ends: "length bounds = 4" "endpoints_from (InvalidIntegerProductBounds node) facts left right 0 bounds = Inr ends"
    and inside: "list_all (\<lambda>p. if lower then target \<le> p else p \<le> target)
      [ends ! 0 * ends ! 2, ends ! 0 * ends ! 3, ends ! 1 * ends ! 2, ends ! 1 * ends ! 3]"
    using accepted by (auto simp: check_product_bounds_def Let_def rule_Inr split: if_splits)
  note v = endpoints_value [OF true ends]
  have "within (integer_value M left * integer_value M right)
      (corner_interval (*) (ends ! 0, ends ! 1) (ends ! 2, ends ! 3))"
    using v by (intro product_within) simp_all
  then have "within (integer_value M t) (corner_interval (*) (ends ! 0, ends ! 1) (ends ! 2, ends ! 3))"
    using t by (auto simp: product_operands_def split: integer.splits)
  then show "holds M result"
    using constant_bound_holds [OF bound, of M] inside
    by (cases lower; simp add: corner_interval_def within_def Let_def min_le_iff_disj le_max_iff_disj; linarith)
qed

lemma remainder_extremes_within:
  assumes "a_low \<le> x" "x \<le> a_high" "b_low \<le> y" "y \<le> b_high" and "\<not> (b_low \<le> 0 \<and> b_high \<ge> 0)"
  shows "within (x smod y) (remainder_extremes a_low a_high b_low b_high)"
proof (cases "max \<bar>a_low\<bar> \<bar>a_high\<bar> < min \<bar>b_low\<bar> \<bar>b_high\<bar>")
  case True
  then have "\<bar>x\<bar> < \<bar>y\<bar>" using assms by linarith
  then have "x smod y = x" by (simp add: smod_int_alt_def sgn_mult_abs)
  then show ?thesis using True assms by (simp add: remainder_extremes_def within_def)
next
  case False
  let ?m = "max \<bar>b_low\<bar> \<bar>b_high\<bar> - 1"
  have "y \<noteq> 0" "\<bar>y\<bar> - 1 \<le> ?m" using assms by auto
  note m = smod_bounds [OF this(1), of x] this(2)
  have "(if a_low < 0 then - min \<bar>a_low\<bar> ?m else 0) \<le> x smod y"
  proof (cases "0 \<le> x")
    case True
    then show ?thesis using m by (auto simp: min_def max_def)
  next
    case False
    then show ?thesis using m assms(1) by (auto simp: min_def max_def)
  qed
  moreover have "x smod y \<le> (if a_high > 0 then min a_high ?m else 0)"
  proof (cases "0 \<le> x")
    case True
    then show ?thesis using m assms(2) by (auto simp: min_def max_def)
  next
    case False
    then show ?thesis using m by (auto simp: min_def max_def)
  qed
  ultimately show ?thesis
    unfolding remainder_extremes_def Let_def if_not_P [OF False] within_def by simp
qed

lemma division_operands_value:
  "division_operands t = Some (l, r, modular) \<Longrightarrow> integer_value M r \<noteq> 0 \<Longrightarrow>
   integer_value M t = (if modular then integer_value M l smod integer_value M r
     else integer_value M l sdiv integer_value M r)"
  by (cases t) (auto simp: division_operands_def)

lemma division_extremes_within:
  assumes "ends ! 0 \<le> x" "x \<le> ends ! 1" "ends ! 2 \<le> y" "y \<le> ends ! 3"
    and "\<not> straddles_zero (ends ! 2) (ends ! 3)"
  shows "y \<noteq> 0 \<and> within (if modular then x smod y else x sdiv y) (division_extremes modular ends)"
proof -
  have nonzero: "y \<noteq> 0" using assms(3-5) by (auto simp: straddles_zero_def)
  show ?thesis
  proof (cases modular)
    case True
    then show ?thesis
      using nonzero remainder_extremes_within [OF assms(1-4)] assms(5)
      by (simp add: division_extremes_def straddles_zero_def)
  next
    case False
    have "within (x sdiv y) (corner_interval (sdiv) (ends ! 0, ends ! 1) (ends ! 2, ends ! 3))"
      using quotient_within [of x "(ends ! 0, ends ! 1)" y "(ends ! 2, ends ! 3)"] assms
      by (simp add: quotient_interval_def straddles_zero_def within_def)
    then show ?thesis
      using False nonzero by (simp add: division_extremes_def quotient_extremes_def corner_interval_def Let_def)
  qed
qed

lemma division_bounds_sound: "sound_rule M check_division_bounds"
proof (rule sound_ruleI)
  fix node bounds facts result
  assume true: "list_all (holds M) facts" and accepted: "check_division_bounds node bounds facts result = Inr ()"
  obtain t left right modular target lower ends where
      bound: "constant_bound result = Some (t, target, lower)"
    and operands: "division_operands t = Some (left, right, modular)"
    and ends: "length bounds = 4" "endpoints_from (InvalidIntegerDivisionBounds node) facts left right 0 bounds = Inr ends"
    and nonzero: "\<not> straddles_zero (ends ! 2) (ends ! 3)"
    and inside: "if lower then target \<le> fst (division_extremes modular ends)
      else snd (division_extremes modular ends) \<le> target"
    using accepted by (auto simp: check_division_bounds_def Let_def rule_Inr simp del: not_less not_le)
  note v = endpoints_value [OF true ends]
  have "within (integer_value M t) (division_extremes modular ends)"
    using v division_extremes_within [OF _ _ _ _ nonzero, of "integer_value M left" "integer_value M right" modular]
      division_operands_value [OF operands, of M] by simp
  then show "holds M result"
    using constant_bound_holds [OF bound, of M] inside by (cases lower) (simp_all add: within_def)
qed

lemma is_product_value:
  "is_product p a b \<Longrightarrow> integer_value M p = integer_value M a * integer_value M b"
  by (auto simp: is_product_def mult.commute split: option.splits if_splits)

lemma multiply_order_sound: "sound_rule M check_multiply_order"
proof (rule sound_ruleI)
  fix node bounds facts result
  assume true: "list_all (holds M) facts" and accepted: "check_multiply_order node bounds facts result = Inr ()"
  let ?v = "integer_value M"
  obtain i j a b s t left right where
      i: "i < length facts" "integer_order (facts ! i) = Some (a, b)"
    and j: "j < length facts" "integer_order (facts ! j) = Some (s, t)"
    and result: "integer_order result = Some (left, right)"
    and products: "integer_const s = Some 0 \<and> is_product left a t \<and> is_product right b t
      \<or> integer_const t = Some 0 \<and> is_product left b s \<and> is_product right a s"
    using accepted by (auto simp: check_multiply_order_def Let_def rule_Inr split: if_splits list.splits)
  have "?v a \<le> ?v b" "?v s \<le> ?v t"
    using cited_holds [OF true] i j integer_order_holds by blast+
  then have "?v left \<le> ?v right"
    using products by (auto simp: is_product_value [where M = M] intro: mult_right_mono mult_right_mono_neg)
  then show "holds M result" using integer_order_holds [OF result] by simp
qed

lemma is_scaled_value: "is_scaled p b d \<Longrightarrow> integer_value M p = integer_value M b * integer_value M d"
  by (auto simp: is_scaled_def split: option.splits if_splits)

lemma quotient_side_cases:
  assumes "quotient_side left right divisor scaled_left scaled_right = Some (d, bound, product)"
  shows "d = divisor \<and> (\<exists>n. left = TruncatingQuotient n d \<and> scaled_left = n \<and> bound = right \<and> product = scaled_right
      \<or> right = TruncatingQuotient n d \<and> scaled_right = n \<and> bound = left \<and> product = scaled_left)"
  using assms by (auto simp: quotient_side_def first_match_Cons split: integer.splits if_splits option.splits)

lemma sdiv_multiple: "0 < d \<Longrightarrow> (b * d) sdiv d = b" for b d :: int
  using sdiv_mult_smod_eq [of "b * d" d] by (simp add: smod_int_alt_def abs_mult)

lemma quotient_bound_sound: "sound_rule M check_quotient_bound"
proof (rule sound_ruleI)
  fix node bounds facts result
  assume true: "list_all (holds M) facts" and accepted: "check_quotient_bound node bounds facts result = Inr ()"
  let ?v = "integer_value M"
  obtain i j left right positive divisor sl sr d bound product where
      result: "integer_order result = Some (left, right)"
    and i: "i < length facts" "integer_order (facts ! i) = Some (sl, sr)"
    and j: "j < length facts" "integer_order (facts ! j) = Some (positive, divisor)"
    and one: "integer_const positive = Some 1"
    and side: "quotient_side left right divisor sl sr = Some (d, bound, product)"
    and scaled: "is_scaled product bound d"
    using accepted by (auto simp: check_quotient_bound_def Let_def rule_Inr split: if_splits list.splits)
  have order: "?v sl \<le> ?v sr" "?v positive \<le> ?v divisor"
    using cited_holds [OF true] i j integer_order_holds by blast+
  then have d: "0 < ?v d" using one quotient_side_cases [OF side] by auto
  have "?v product = ?v bound * ?v d" by (rule is_scaled_value [OF scaled])
  then have "?v left \<le> ?v right"
    using quotient_side_cases [OF side] order(1) d sdiv_mono [OF order(1) d] sdiv_multiple [OF d, of "?v bound"]
    by auto
  then show "holds M result" using integer_order_holds [OF result] by simp
qed

lemma quotient_shift_sound: "sound_rule M check_quotient_shift"
proof (rule sound_ruleI)
  fix node bounds facts result
  assume true: "list_all (holds M) facts" and accepted: "check_quotient_shift node bounds facts result = Inr ()"
  let ?v = "integer_value M"
  obtain i j x k where shape: "shifted_quotient result = Some (x, k)"
    and i: "i < length facts" "nonnegative_premise (facts ! i) x"
    and j: "j < length facts" "nonnegative_premise (facts ! j) k"
    using accepted by (auto simp: check_quotient_shift_def Let_def rule_Inr split: if_splits list.splits)
  have nonnegative: "0 \<le> ?v t" if "n < length facts" "nonnegative_premise (facts ! n) t" for n t
    using that(2) integer_order_holds cited_holds [OF true that(1)]
    by (fastforce simp: nonnegative_premise_def split: option.splits)
  obtain d where d: "0 < d" and
      equation: "stated_equality result = Some
        (TruncatingQuotient (Int_Add x (Int_Multiply (Int_Constant d) k)) (Int_Constant d),
         Int_Add (TruncatingQuotient x (Int_Constant d)) k)"
    using shape by (auto simp: shifted_quotient_def split: option.splits prod.splits integer.splits if_splits)
  have "(?v x + d * ?v k) sdiv d = ?v x sdiv d + ?v k"
    using d nonnegative [OF i] nonnegative [OF j] by (simp add: sdiv_as_div)
  then show "holds M result" using stated_equality_holds [OF equation] d by simp
qed

lemma bound_exclusion_sound: "sound_rule M check_bound_exclusion"
proof (rule sound_ruleI)
  fix node bounds facts result
  assume true: "list_all (holds M) facts" and accepted: "check_bound_exclusion node bounds facts result = Inr ()"
  obtain i t c lo hi where shape: "excluded_constant result = Some (t, c)"
    and i: "i < length facts" "integer_order (facts ! i) = Some (lo, hi)"
    and away: "hi = t \<and> (\<exists>e. integer_const lo = Some e \<and> c < e) \<or> lo = t \<and> (\<exists>e. integer_const hi = Some e \<and> c > e)"
    using accepted by (auto simp: check_bound_exclusion_def Let_def rule_Inr split: if_splits list.splits)
  have "integer_value M t \<noteq> c"
    using away integer_order_holds [OF i(2)] cited_holds [OF true i(1)] by auto
  then show "holds M result"
    using shape by (auto simp: excluded_constant_def integer_compare_def
        split: prop_term.splits condition.splits if_splits option.splits)
qed

lemma transported_relation_holds:
  "transported_relation p = Some (a, b, equal) \<Longrightarrow>
   holds M p \<longleftrightarrow> (if equal then integer_value M a = integer_value M b else integer_value M a \<le> integer_value M b)"
  using integer_order_holds [of p _ _ M] stated_equality_holds [of p _ _ M]
  by (auto simp: transported_relation_def split: option.splits)

lemma relation_transport_sound: "sound_rule M check_relation_transport"
proof (rule sound_ruleI)
  fix node bounds facts result
  assume true: "list_all (holds M) facts" and accepted: "check_relation_transport node bounds facts result = Inr ()"
  obtain i j a b lo hi equal new_lo new_hi where
      i: "i < length facts" "stated_equality (facts ! i) = Some (a, b)"
    and j: "j < length facts" "transported_relation (facts ! j) = Some (lo, hi, equal)"
    and result: "transported_relation result = Some (new_lo, new_hi, equal)"
    and moved: "new_lo = lo \<and> (hi = a \<and> new_hi = b \<or> hi = b \<and> new_hi = a)
      \<or> new_hi = hi \<and> (lo = a \<and> new_lo = b \<or> lo = b \<and> new_lo = a)"
    using accepted by (auto simp: check_relation_transport_def Let_def rule_Inr split: if_splits list.splits)
  show "holds M result"
    using moved stated_equality_holds [OF i(2)] transported_relation_holds [OF j(2)] transported_relation_holds [OF result]
      cited_holds [OF true i(1)] cited_holds [OF true j(1)] by auto
qed

lemma bounded_inside_value:
  assumes "list_all (holds M) facts" and "length bounds = 2"
    and "bounded_inside invalid facts bounds t format = Inr ()"
  shows "representable format (integer_value M t)"
proof -
  obtain lo hi where orders: "integer_order (facts ! (bounds ! 0)) = Some (Int_Constant lo, t)"
      "integer_order (facts ! (bounds ! 1)) = Some (t, Int_Constant hi)"
      "bounds ! 0 < length facts" "bounds ! 1 < length facts"
    and inside: "fst (format_bounds format) \<le> lo" "hi \<le> snd (format_bounds format)"
    using assms(3)
    by (auto simp: bounded_inside_def rule_Inr case_prod_beta Let_def split: if_splits option.splits)
  have "lo \<le> integer_value M t" "integer_value M t \<le> hi"
    using integer_order_holds [OF orders(1), of M] integer_order_holds [OF orders(2), of M] cited_holds [OF assms(1)] orders(3,4)
    by simp_all
  then show ?thesis using inside by (simp add: format_bounds_spec representable_def)
qed

lemma machine_sum_reading:
  assumes "machine_sum ty t = Some (l, r, negative)"
  shows "carrier_reading ty (bv_value \<rho> t) = wrapped (type_format ty)
    (if negative then carrier_reading ty (bv_value \<rho> l) - carrier_reading ty (bv_value \<rho> r)
     else carrier_reading ty (bv_value \<rho> l) + carrier_reading ty (bv_value \<rho> r))"
  using assms
  by (auto simp: machine_sum_def native_readings binary32_def binary64_def wrapped_type
      sint_word_ariths uint_word_ariths take_bit_eq_mod split: bv.splits if_splits)

lemma mathematical_value:
  assumes "mathematical t = Some (ty, v)" and "representable (type_format ty) (integer_value M v)"
  shows "integer_value M t = integer_value M v"
proof -
  obtain s l r left right negative where
      t: "t = Machine ty s" and sum: "machine_sum ty s = Some (l, r, negative)"
    and left: "from_machine ty l = Some left" and right: "from_machine ty r = Some right"
    and v: "v = (if negative then integer_subtract left right else integer_add left right)"
    using assms(1) by (auto simp: mathematical_def bind_eq_Some_conv split: integer.splits)
  have "integer_value M v = (if negative
      then carrier_reading ty (bv_value (machine_values M) l) - carrier_reading ty (bv_value (machine_values M) r)
      else carrier_reading ty (bv_value (machine_values M) l) + carrier_reading ty (bv_value (machine_values M) r))"
    using from_machine_value [OF left, of M] from_machine_value [OF right, of M] by (simp add: v integer_constructors)
  then show ?thesis
    using machine_sum_reading [OF sum, of "machine_values M"] wrapped_id [OF assms(2)] by (simp add: t)
qed

lemma operation_identity_sound: "sound_rule M check_operation_identity"
proof (rule sound_ruleI)
  fix node bounds facts result
  assume true: "list_all (holds M) facts" and accepted: "check_operation_identity node bounds facts result = Inr ()"
  obtain a b ty v where equation: "stated_equality result = Some (a, b)"
    and chosen: "(case mathematical a of
             Some (ty, v) \<Rightarrow> Some (ty, v, b)
           | None \<Rightarrow> map_option (\<lambda>(ty, v). (ty, v, a)) (mathematical b)) = Some (ty, v, v)"
    and inside: "length bounds = 2"
      "bounded_inside (InvalidIntegerOperationIdentity node) facts bounds v (type_format ty) = Inr ()"
    using accepted by (auto simp: check_operation_identity_def Let_def rule_Inr simp del: map_option_eq_Some)
  have sides: "mathematical a = Some (ty, v) \<and> b = v \<or> mathematical b = Some (ty, v) \<and> a = v"
    using chosen by (auto split: option.splits)
  have "integer_value M a = integer_value M b"
    using sides mathematical_value bounded_inside_value [OF true inside] by auto
  then show "holds M result" using stated_equality_holds [OF equation] by simp
qed

end
