(* ===== verification/IntegerPolynomial.thy ===== *)
theory IntegerPolynomial
  imports IntegerRules Persistent "HOL-Library.List_Lexorder" "HOL-Library.Multiset"
begin

text \<open>
  Ring identities of exact integers:
  \<^verbatim>\<open>src/src/kernel/proof/integer_polynomial_identity.rs\<close>. Both sides of an equation are
  expanded to polynomials over the identities of the nodes that are no ring operation, under
  limits on nodes, monomials, degree and coefficient size. A polynomial is the list of entries of
  the source's ordered map; the identity the interner gives a node is a parameter, and the
  work counter is left out.
\<close>

section \<open>Polynomials\<close>

type_synonym polynomial = "(nat list \<times> int) list"

definition MAX_NODES :: nat where "MAX_NODES = 256"
definition MAX_MONOMIALS :: nat where "MAX_MONOMIALS = 256"
definition MAX_DEGREE :: nat where "MAX_DEGREE = 16"
definition MAX_BITS :: nat where "MAX_BITS = 4096"

fun magnitude_bits :: "nat \<Rightarrow> nat" where
  "magnitude_bits n = (if n = 0 then 0 else Suc (magnitude_bits (n div 2)))"

declare magnitude_bits.simps [simp del]

definition integer_bits :: "int \<Rightarrow> nat" where
  "integer_bits v = magnitude_bits (nat \<bar>v\<bar>)"

definition insert_monomial :: "polynomial \<Rightarrow> nat list \<Rightarrow> int \<Rightarrow> rule_error + polynomial" where
  "insert_monomial p monomial c =
     (let sum = (case map_of p monomial of Some old \<Rightarrow> old + c | None \<Rightarrow> c) in
      if integer_bits sum > MAX_BITS then Inl IntegerPolynomialLimitExceeded
      else
        (let q = (if sum = 0 then del_entry monomial p else ins_entry monomial sum p) in
         if length q > MAX_MONOMIALS then Inl IntegerPolynomialLimitExceeded else Inr q))"

fun insert_monomials :: "polynomial \<Rightarrow> polynomial \<Rightarrow> rule_error + polynomial" where
  "insert_monomials p [] = Inr p"
| "insert_monomials p ((monomial, c) # rest) =
     attempt (insert_monomial p monomial c) (\<lambda>q. insert_monomials q rest)"

fun insert_products :: "polynomial \<Rightarrow> polynomial \<Rightarrow> rule_error + polynomial" where
  "insert_products p [] = Inr p"
| "insert_products p ((monomial, c) # rest) =
     (if length monomial > MAX_DEGREE then Inl IntegerPolynomialLimitExceeded
      else attempt (insert_monomial p (sort monomial) c) (\<lambda>q. insert_products q rest))"

definition products :: "polynomial \<Rightarrow> polynomial \<Rightarrow> polynomial" where
  "products a b = concat (map (\<lambda>(ak, av). map (\<lambda>(bk, bv). (ak @ bk, av * bv)) b) a)"

definition combine :: "polynomial \<Rightarrow> polynomial \<Rightarrow> bool \<Rightarrow> bool \<Rightarrow> rule_error + polynomial" where
  "combine a b multiplied negated =
     (if multiplied then insert_products [] (products a b)
      else attempt (insert_monomials [] a) (\<lambda>out.
             insert_monomials out (map (\<lambda>(key, v). (key, if negated then - v else v)) b)))"

section \<open>Expansion\<close>

definition ring_children :: "'x integer \<Rightarrow> 'x integer list" where
  "ring_children t = (case t of
     Int_Negate a \<Rightarrow> [a]
   | Int_Add a b \<Rightarrow> [a, b]
   | Int_Subtract a b \<Rightarrow> [a, b]
   | Int_Multiply a b \<Rightarrow> [a, b]
   | _ \<Rightarrow> [])"

type_synonym memo = "nat \<Rightarrow> polynomial option"

text \<open>An index into the memo panics on a missing node; \<open>expand_value\<close> shows that none is missing.\<close>

definition expanded :: "('x integer \<Rightarrow> nat) \<Rightarrow> memo \<Rightarrow> 'x integer \<Rightarrow> polynomial" where
  "expanded ident memo t = (case memo (ident t) of Some p \<Rightarrow> p | None \<Rightarrow> [])"

definition polynomial_of :: "('x integer \<Rightarrow> nat) \<Rightarrow> memo \<Rightarrow> 'x integer \<Rightarrow> rule_error + polynomial" where
  "polynomial_of ident memo t = (let at = expanded ident memo in
     case t of
       Int_Constant v \<Rightarrow>
         if integer_bits v > MAX_BITS then Inl IntegerPolynomialLimitExceeded else insert_monomial [] [] v
     | Int_Negate a \<Rightarrow> combine [] (at a) False True
     | Int_Add a b \<Rightarrow> combine (at a) (at b) False False
     | Int_Subtract a b \<Rightarrow> combine (at a) (at b) False True
     | Int_Multiply a b \<Rightarrow> combine (at a) (at b) True False
     | _ \<Rightarrow> insert_monomial [] [ident t] 1)"

lemma ring_children_size: "sum_list (map (\<lambda>c. 4 * size c + 2) (ring_children t)) + 1 < 4 * size t + 2"
  by (cases t) (auto simp: ring_children_def)

function expand ::
  "('x integer \<Rightarrow> nat) \<Rightarrow> ('x integer \<times> bool) list \<Rightarrow> memo \<times> nat list \<Rightarrow> rule_error + memo \<times> nat list"
where
  "expand ident [] state = Inr state"
| "expand ident ((t, ready) # stack) state =
     (if fst state (ident t) \<noteq> None then expand ident stack state
      else if ready then
        attempt (polynomial_of ident (fst state) t) (\<lambda>p.
          expand ident stack ((fst state)(ident t \<mapsto> p), snd state))
      else
        (let seen = List.insert (ident t) (snd state) in
         if length seen > MAX_NODES then Inl IntegerPolynomialLimitExceeded
         else expand ident (map (\<lambda>c. (c, False)) (ring_children t) @ (t, True) # stack) (fst state, seen)))"
  by pat_completeness auto
termination
proof (relation "measure (\<lambda>(_, stack, _). sum_list (map (\<lambda>(node, ready). if ready then 1 else 4 * size node + 2) stack))",
    goal_cases)
  case (4 ident t ready stack state seen)
  then show ?case using ring_children_size [of t] by (simp add: comp_def)
qed auto

declare expand.simps(2) [simp del]

definition check_polynomial_identity :: "('x integer \<Rightarrow> nat) \<Rightarrow> 'x rule_check" where
  "check_polynomial_identity ident node bounds premises result =
     (let invalid = InvalidIntegerPolynomialIdentity node in
      if bounds \<noteq> [] then Inl invalid
      else
        attempt (required invalid (stated_equality result)) (\<lambda>(a, b).
        attempt (expand ident [(a, False)] (Map.empty, [])) (\<lambda>state.
        attempt (expand ident [(b, False)] state) (\<lambda>state.
          follows invalid (expanded ident (fst state) a = expanded ident (fst state) b)))))"

section \<open>What a polynomial is worth\<close>

definition monomial_value :: "(nat \<Rightarrow> int) \<Rightarrow> nat list \<Rightarrow> int" where
  "monomial_value val monomial = prod_list (map val monomial)"

definition polynomial_value :: "(nat \<Rightarrow> int) \<Rightarrow> polynomial \<Rightarrow> int" where
  "polynomial_value val p = sum_list (map (\<lambda>(monomial, c). c * monomial_value val monomial) p)"

lemma polynomial_value_simps [simp]:
  "polynomial_value val [] = 0"
  "polynomial_value val ((monomial, c) # p) = c * monomial_value val monomial + polynomial_value val p"
  "polynomial_value val (p @ q) = polynomial_value val p + polynomial_value val q"
  by (simp_all add: polynomial_value_def)

lemma monomial_value_simps [simp]:
  "monomial_value val [] = 1" "monomial_value val [n] = val n"
  "monomial_value val (a @ b) = monomial_value val a * monomial_value val b"
  by (simp_all add: monomial_value_def)

lemma monomial_value_sort [simp]: "monomial_value val (sort monomial) = monomial_value val monomial"
  unfolding monomial_value_def by (metis mset_map mset_sort prod_mset_prod_list)

lemma value_ins_entry:
  "ascending p \<Longrightarrow> polynomial_value val (ins_entry k c p) =
     polynomial_value val p + (c - (case map_of p k of Some old \<Rightarrow> old | None \<Rightarrow> 0)) * monomial_value val k"
proof (induction k c p rule: ins_entry.induct)
  case (2 k v a b xs)
  have "map_of xs k = None" if "k < a" using that "2.prems" by (auto intro!: map_of_less(2))
  with 2 show ?case by (auto simp: algebra_simps)
qed simp

lemma value_del_entry:
  "ascending p \<Longrightarrow> polynomial_value val (del_entry k p) =
     polynomial_value val p - (case map_of p k of Some old \<Rightarrow> old | None \<Rightarrow> 0) * monomial_value val k"
proof (induction p)
  case (Cons x xs)
  obtain a b where x: "x = (a, b)" by (cases x)
  have "map_of xs k = None" if "k = a" using that Cons.prems by (auto simp: x intro!: map_of_less(2))
  with Cons show ?case by (auto simp: x)
qed (simp add: del_entry_def)

lemma insert_monomial_value:
  assumes "insert_monomial p monomial c = Inr q" and "ascending p"
  shows "ascending q \<and> polynomial_value val q = polynomial_value val p + c * monomial_value val monomial"
proof -
  let ?old = "case map_of p monomial of Some old \<Rightarrow> old | None \<Rightarrow> 0"
  let ?sum = "case map_of p monomial of Some old \<Rightarrow> old + c | None \<Rightarrow> c"
  have sum: "?sum = ?old + c" by (simp split: option.split)
  have "q = (if ?sum = 0 then del_entry monomial p else ins_entry monomial ?sum p)"
    using assms(1) by (auto simp: insert_monomial_def Let_def split: if_splits)
  moreover have "c * monomial_value val monomial = - (?old * monomial_value val monomial)" if "?sum = 0"
    using that unfolding sum by (simp add: eq_neg_iff_add_eq_0 add.commute flip: distrib_right)
  ultimately show ?thesis
    using value_ins_entry [OF assms(2), of val monomial ?sum] value_del_entry [OF assms(2), of val monomial]
      ascending_ins_entry [OF assms(2)] ascending_del_entry [OF assms(2)]
    by (cases "?sum = 0") (simp_all add: sum algebra_simps)
qed

lemma insert_monomials_value:
  "insert_monomials p listed = Inr q \<Longrightarrow> ascending p \<Longrightarrow>
   ascending q \<and> polynomial_value val q = polynomial_value val p + polynomial_value val listed"
proof (induction p listed rule: insert_monomials.induct)
  case (2 p monomial c rest)
  then obtain p' where p': "insert_monomial p monomial c = Inr p'" "insert_monomials p' rest = Inr q"
    by (auto simp: attempt_Inr)
  from insert_monomial_value [OF p'(1) "2.prems"(2)] "2.IH" [OF p'(2)] show ?case by simp
qed simp

lemma insert_products_value:
  "insert_products p listed = Inr q \<Longrightarrow> ascending p \<Longrightarrow>
   ascending q \<and> polynomial_value val q = polynomial_value val p + polynomial_value val listed"
proof (induction p listed rule: insert_products.induct)
  case (2 p monomial c rest)
  then obtain p' where p': "insert_monomial p (sort monomial) c = Inr p'" "insert_products p' rest = Inr q"
    and small: "\<not> MAX_DEGREE < length monomial"
    by (auto simp: attempt_Inr split: if_splits)
  from insert_monomial_value [OF p'(1) "2.prems"(2)] "2.IH" [OF small p'(2)] show ?case by simp
qed simp

lemma value_scaled_row:
  "polynomial_value val (map (\<lambda>(bk, bv). (ak @ bk, av * bv)) b) = av * monomial_value val ak * polynomial_value val b"
  by (induction b) (auto simp: algebra_simps)

lemma products_value: "polynomial_value val (products a b) = polynomial_value val a * polynomial_value val b"
  by (induction a) (auto simp: products_def value_scaled_row algebra_simps)

lemma value_negated:
  "polynomial_value val (map (\<lambda>(key, v). (key, if negated then - v else v)) b) =
   (if negated then - polynomial_value val b else polynomial_value val b)"
  by (induction b) auto

lemma combine_value:
  assumes "combine a b multiplied negated = Inr q"
  shows "ascending q \<and> polynomial_value val q =
    (if multiplied then polynomial_value val a * polynomial_value val b
     else if negated then polynomial_value val a - polynomial_value val b
     else polynomial_value val a + polynomial_value val b)"
proof (cases multiplied)
  case True
  then have "insert_products [] (products a b) = Inr q" using assms by (simp add: combine_def)
  from insert_products_value [OF this] True show ?thesis by (simp add: products_value)
next
  case False
  then obtain out where "insert_monomials [] a = Inr out"
    "insert_monomials out (map (\<lambda>(key, v). (key, if negated then - v else v)) b) = Inr q"
    using assms by (auto simp: combine_def attempt_Inr)
  with insert_monomials_value [of "[]" a out val] insert_monomials_value [of out _ q val] False
  show ?thesis by (auto simp: value_negated)
qed

section \<open>Expansion is exact\<close>

text \<open>What the stack owes: a node marked ready has its children in the memo when it is popped.\<close>

fun owed :: "('x integer \<Rightarrow> nat) \<Rightarrow> nat set \<Rightarrow> ('x integer \<times> bool) list \<Rightarrow> bool" where
  "owed ident known [] = True"
| "owed ident known ((t, ready) # stack) =
     ((ready \<longrightarrow> ident ` set (ring_children t) \<subseteq> known) \<and> owed ident (insert (ident t) known) stack)"

lemma owed_mono: "owed ident A stack \<Longrightarrow> A \<subseteq> B \<Longrightarrow> owed ident B stack"
  by (induction ident A stack arbitrary: B rule: owed.induct) auto

lemma owed_children:
  "owed ident (ident ` set children \<union> known) stack \<Longrightarrow> owed ident known (map (\<lambda>c. (c, False)) children @ stack)"
proof (induction children arbitrary: known)
  case (Cons c children)
  then have "owed ident (insert (ident c) known) (map (\<lambda>c. (c, False)) children @ stack)"
    by (intro Cons.IH) (simp add: insert_commute)
  then show ?case by simp
qed simp

text \<open>The nodes an expansion can reach.\<close>

fun ring_nodes :: "'x integer \<Rightarrow> 'x integer set" where
  "ring_nodes (Int_Negate a) = insert (Int_Negate a) (ring_nodes a)"
| "ring_nodes (Int_Add a b) = insert (Int_Add a b) (ring_nodes a \<union> ring_nodes b)"
| "ring_nodes (Int_Subtract a b) = insert (Int_Subtract a b) (ring_nodes a \<union> ring_nodes b)"
| "ring_nodes (Int_Multiply a b) = insert (Int_Multiply a b) (ring_nodes a \<union> ring_nodes b)"
| "ring_nodes t = {t}"

lemma ring_nodes_self: "t \<in> ring_nodes t"
  by (cases t) auto

lemma ring_nodes_closed: "t \<in> ring_nodes r \<Longrightarrow> set (ring_children t) \<subseteq> ring_nodes r"
  by (induction r rule: ring_nodes.induct) (auto simp: ring_children_def ring_nodes_self)

text \<open>A memo is right on a set of nodes: it holds only polynomials worth the nodes they stand for.\<close>

definition memo_right :: "('x integer \<Rightarrow> nat) \<Rightarrow> 'x meaning \<Rightarrow> (nat \<Rightarrow> int) \<Rightarrow> 'x integer set \<Rightarrow> memo \<Rightarrow> bool" where
  "memo_right ident M val U memo \<longleftrightarrow>
     (\<forall>t \<in> U. \<forall>p. memo (ident t) = Some p \<longrightarrow> ascending p \<and> polynomial_value val p = integer_value M t)"

lemma polynomial_of_value:
  assumes "polynomial_of ident memo t = Inr p" and "memo_right ident M val U memo"
    and "set (ring_children t) \<subseteq> U" and "ident ` set (ring_children t) \<subseteq> dom memo"
    and "val (ident t) = integer_value M t"
  shows "ascending p \<and> polynomial_value val p = integer_value M t"
proof -
  have child: "ascending (expanded ident memo c) \<and> polynomial_value val (expanded ident memo c) = integer_value M c"
    if "c \<in> set (ring_children t)" for c
    using that assms(2-4) by (fastforce simp: memo_right_def expanded_def)
  have leaf: "insert_monomial [] m c = Inr p \<Longrightarrow>
      ascending p \<and> polynomial_value val p = c * monomial_value val m" for m c
    using insert_monomial_value [of "[]" m c p val] by simp
  show ?thesis
  proof (cases t)
    case (Int_Negate a)
    then have "combine [] (expanded ident memo a) False True = Inr p"
      using assms(1) by (simp add: polynomial_of_def Let_def)
    from combine_value [OF this, of val] child [of a] Int_Negate show ?thesis by (simp add: ring_children_def)
  next
    case (Int_Add a b)
    then have "combine (expanded ident memo a) (expanded ident memo b) False False = Inr p"
      using assms(1) by (simp add: polynomial_of_def Let_def)
    from combine_value [OF this, of val] child [of a] child [of b] Int_Add show ?thesis
      by (simp add: ring_children_def)
  next
    case (Int_Subtract a b)
    then have "combine (expanded ident memo a) (expanded ident memo b) False True = Inr p"
      using assms(1) by (simp add: polynomial_of_def Let_def)
    from combine_value [OF this, of val] child [of a] child [of b] Int_Subtract show ?thesis
      by (simp add: ring_children_def)
  next
    case (Int_Multiply a b)
    then have "combine (expanded ident memo a) (expanded ident memo b) True False = Inr p"
      using assms(1) by (simp add: polynomial_of_def Let_def)
    from combine_value [OF this, of val] child [of a] child [of b] Int_Multiply show ?thesis
      by (simp add: ring_children_def)
  qed (use assms(1,5) in \<open>auto simp: polynomial_of_def Let_def split: if_splits dest!: leaf\<close>)
qed

lemma expand_value:
  assumes "\<forall>t \<in> U. val (ident t) = integer_value M t" and "\<forall>t \<in> U. set (ring_children t) \<subseteq> U"
  shows "expand ident stack state = Inr state' \<Longrightarrow> memo_right ident M val U (fst state) \<Longrightarrow>
    fst ` set stack \<subseteq> U \<Longrightarrow> owed ident (dom (fst state)) stack \<Longrightarrow>
    memo_right ident M val U (fst state') \<and> dom (fst state) \<union> ident ` fst ` set stack \<subseteq> dom (fst state')"
using assms
proof (induction ident stack state rule: expand.induct)
  case (2 ident t ready stack state)
  note go = "2.prems"(1) [unfolded expand.simps(2)]
  have t: "t \<in> U" and below: "fst ` set stack \<subseteq> U" using "2.prems"(3) by auto
  have later: "owed ident (insert (ident t) (dom (fst state))) stack" using "2.prems"(4) by simp
  consider (known) "fst state (ident t) \<noteq> None"
    | (ready) "fst state (ident t) = None" ready
    | (unready) "fst state (ident t) = None" "\<not> ready" by blast
  then show ?case
  proof cases
    case known
    then have "owed ident (dom (fst state)) stack" using later by (simp add: insert_absorb domIff)
    then show ?thesis using "2.IH"(1) known go "2.prems"(5,6,2) below by auto
  next
    case ready
    then obtain p where p: "polynomial_of ident (fst state) t = Inr p"
        and rest: "expand ident stack ((fst state)(ident t \<mapsto> p), snd state) = Inr state'"
      using go by (auto simp: attempt_Inr)
    have worth: "ascending p \<and> polynomial_value val p = integer_value M t"
      by (rule polynomial_of_value [OF p "2.prems"(2)]) (use ready t "2.prems"(4-6) in auto)
    have right: "memo_right ident M val U ((fst state)(ident t \<mapsto> p))"
      unfolding memo_right_def
    proof (intro ballI allI impI)
      fix u r
      assume u: "u \<in> U" "((fst state)(ident t \<mapsto> p)) (ident u) = Some r"
      show "ascending r \<and> polynomial_value val r = integer_value M u"
      proof (cases "ident u = ident t")
        case True
        then have "integer_value M u = integer_value M t" using "2.prems"(5) t u(1) by metis
        then show ?thesis using True u worth by simp
      next
        case False
        then show ?thesis using u "2.prems"(2) by (simp add: memo_right_def)
      qed
    qed
    have "memo_right ident M val U (fst state')
        \<and> dom ((fst state)(ident t \<mapsto> p)) \<union> ident ` fst ` set stack \<subseteq> dom (fst state')"
      using "2.IH"(2) [of p] ready rest right below later "2.prems"(5,6) by (simp del: fun_upd_apply)
    then show ?thesis by simp
  next
    case unready
    let ?stack = "map (\<lambda>c. (c, False)) (ring_children t) @ (t, True) # stack"
    have rest: "length (List.insert (ident t) (snd state)) \<le> MAX_NODES"
      "expand ident ?stack (fst state, List.insert (ident t) (snd state)) = Inr state'"
      using go unready by (auto simp: Let_def split: if_splits)
    have "owed ident (insert (ident t) (ident ` set (ring_children t) \<union> dom (fst state))) stack"
      by (rule owed_mono [OF later]) auto
    then have "owed ident (dom (fst state)) ?stack" by (intro owed_children) simp
    moreover have "set (ring_children t) \<subseteq> U" using "2.prems"(6) t by blast
    then have "fst ` set ?stack \<subseteq> U" using below t by (auto simp: image_subset_iff)
    ultimately have "memo_right ident M val U (fst state')
        \<and> dom (fst state) \<union> ident ` fst ` set ?stack \<subseteq> dom (fst state')"
      using "2.IH"(3) unready rest "2.prems"(5,6,2) by (simp del: set_append set_map)
    then show ?thesis by (simp add: image_Un)
  qed
qed simp

text \<open>Ids stand for nodes: two nodes an expansion meets have one id only if they are one node.\<close>

definition identities_ok :: "('x integer \<Rightarrow> nat) \<Rightarrow> 'x prop_term \<Rightarrow> bool" where
  "identities_ok ident p = (case stated_equality p of
     Some (a, b) \<Rightarrow> inj_on ident (ring_nodes a \<union> ring_nodes b)
   | None \<Rightarrow> True)"

lemma polynomial_identity_holds:
  assumes "check_polynomial_identity ident node bounds premises result = Inr ()" and "identities_ok ident result"
  shows "holds M result"
proof -
  obtain a b state state' where equation: "stated_equality result = Some (a, b)"
    and left: "expand ident [(a, False)] (Map.empty, []) = Inr state"
    and right: "expand ident [(b, False)] state = Inr state'"
    and same: "expanded ident (fst state') a = expanded ident (fst state') b"
    using assms(1) by (auto simp: check_polynomial_identity_def Let_def rule_Inr)
  let ?U = "ring_nodes a \<union> ring_nodes b"
  define val where "val n = integer_value M (inv_into ?U ident n)" for n
  have inj: "inj_on ident ?U" using assms(2) equation by (simp add: identities_ok_def)
  have val: "\<forall>t \<in> ?U. val (ident t) = integer_value M t" by (simp add: val_def inv_into_f_f [OF inj])
  have closed: "\<forall>t \<in> ?U. set (ring_children t) \<subseteq> ?U" using ring_nodes_closed by blast
  have nodes: "a \<in> ?U" "b \<in> ?U" by (simp_all add: ring_nodes_self)
  have "memo_right ident M val ?U (fst state) \<and> ident a \<in> dom (fst state)"
    using expand_value [OF val closed left] nodes by (simp add: memo_right_def)
  moreover from this have "memo_right ident M val ?U (fst state') \<and> dom (fst state) \<union> {ident b} \<subseteq> dom (fst state')"
    using expand_value [OF val closed right] nodes by simp
  ultimately have known: "memo_right ident M val ?U (fst state')" "ident a \<in> dom (fst state')" "ident b \<in> dom (fst state')"
    by auto
  have "polynomial_value val (expanded ident (fst state') r) = integer_value M r"
    if "r \<in> ?U" "ident r \<in> dom (fst state')" for r
    using known(1) that by (auto simp: memo_right_def expanded_def)
  then have "integer_value M a = integer_value M b" using same nodes known by metis
  then show ?thesis using stated_equality_holds [OF equation] by simp
qed

end
