(* ===== verification/CastIdentity.thy ===== *)
theory CastIdentity
  imports IntegerRules
begin

unbundle bit_operations_syntax

text \<open>
  Conversions of evaluated machine values
  (\<^verbatim>\<open>MachineIntegerType::convert_modulo_value\<close> of
  \<^verbatim>\<open>src/src/kernel/primitives/machine_integer.rs\<close>) and the rule that a conversion inside
  the destination's range keeps its value
  (\<^verbatim>\<open>src/src/kernel/proof/integer_cast_identity.rs\<close>). A value is a type and a term.
\<close>

section \<open>Conversion of a value\<close>

definition low_bits_mask :: "machine_integer_type \<Rightarrow> 32 word" where
  "low_bits_mask ty = push_bit (type_bits ty) 1 - 1"

definition converted_carrier ::
  "('x bv \<Rightarrow> 'x bv \<Rightarrow> bool) \<Rightarrow> machine_integer_type \<Rightarrow> machine_integer_type \<Rightarrow> 'x bv \<Rightarrow> 'x bv"
where
  "converted_carrier below source destination t =
     (let from_signed = fmt_signed (type_format source); to_signed = fmt_signed (type_format destination) in
      if type_bits destination = 64 then
        (if to_signed then
           (if type_bits source = 64 then int64_from_uint64_bits t
            else if from_signed then int64_from_32 t else int64_from_uint32 t)
         else
           (if type_bits source = 64 then uint64_from_int64 t
            else if from_signed then uint64_from_int32 t else uint64_from_32 t))
      else
        (let word = (if type_bits source = 64 then uint32_from_64 t else t) in
         if type_bits destination = 32 then word
         else if to_signed then
           (let sign = Constant (push_bit (type_bits destination - 1) 1) in
            subtract (bitwise_xor below (bitwise_and word (Constant (low_bits_mask destination))) sign) sign)
         else bitwise_and word (Constant (low_bits_mask destination))))"

definition convert_modulo_term ::
  "('x bv \<Rightarrow> 'x bv \<Rightarrow> bool) \<Rightarrow> machine_integer_type \<Rightarrow> machine_integer_type \<Rightarrow> 'x bv \<Rightarrow> 'x bv option"
where
  "convert_modulo_term below source destination t =
     (if type_bits source = 128 \<or> type_bits destination = 128
      then (if accepts_cast_operand source t then Some (machine_integer_cast source destination t) else None)
      else
        (case constant_from_term source t of
           Some c \<Rightarrow> constant_term destination (convert_modulo c (type_format destination))
         | None \<Rightarrow> if source = destination then Some t else Some (converted_carrier below source destination t)))"

section \<open>The rule\<close>

definition carrier_kept :: "machine_integer_type \<Rightarrow> 'x bv \<Rightarrow> machine_integer_type \<Rightarrow> 'x bv \<Rightarrow> bool" where
  "carrier_kept ty v source t \<longleftrightarrow>
     (if source \<in> {MInt32, MUInt32} then v = t
      else if source \<in> {MInt64, MUInt64} then v = uint32_from_64 t
      else False)
     \<and> ty \<in> {MInt8, MUInt8, MInt16, MUInt16}"

definition has_mask :: "'x bv \<Rightarrow> 32 word \<Rightarrow> bool" where
  "has_mask t w = (case t of
     Binary op l r \<Rightarrow> op = Op_BitwiseAnd \<and> (l = Constant w \<or> r = Constant w)
   | _ \<Rightarrow> False)"

definition promoted_unsigned_source :: "machine_integer_type \<Rightarrow> machine_integer_type \<Rightarrow> 'x bv \<Rightarrow> bool" where
  "promoted_unsigned_source ty source t \<longleftrightarrow>
     source \<in> {MUInt8, MUInt16} \<and> has_mask t (low_bits_mask source) \<and> ty \<in> {MInt32, MUInt32}"

definition legacy_type :: "machine_integer_type \<Rightarrow> bool" where
  "legacy_type ty \<longleftrightarrow> ty \<in> {MInt32, MUInt32, MInt64, MUInt64}"

definition masked_word :: "machine_integer_type \<Rightarrow> 'x bv \<Rightarrow> machine_integer_type \<Rightarrow> 'x bv \<Rightarrow> bool" where
  "masked_word ty v source t \<longleftrightarrow>
     source = MUInt32 \<and> ty \<in> {MUInt8, MUInt16}
     \<and> (case v of
          Binary op l r \<Rightarrow> op = Op_BitwiseAnd
            \<and> (l = t \<and> r = Constant (low_bits_mask ty) \<or> r = t \<and> l = Constant (low_bits_mask ty))
        | _ \<Rightarrow> False)"

definition direct_cast ::
  "('x bv \<Rightarrow> 'x bv \<Rightarrow> bool) \<Rightarrow> machine_integer_type \<Rightarrow> 'x bv \<Rightarrow> machine_integer_type \<Rightarrow> 'x bv
   \<Rightarrow> machine_integer_format option"
where
  "direct_cast below ty v source t =
     (if \<not> accepts_cast_operand source t then None
      else if v = machine_integer_cast source ty t
        \<or> carrier_kept ty v source t
        \<or> (legacy_type source \<and> legacy_type ty \<or> promoted_unsigned_source ty source t)
          \<and> convert_modulo_term below source ty t = Some v
        \<or> masked_word ty v source t
      then Some (type_format ty) else None)"

text \<open>The value under a conversion that cannot change a word of the destination's range.\<close>

definition peeled_cast :: "machine_integer_type \<Rightarrow> 'x bv \<Rightarrow> (machine_integer_type \<times> 'x bv) option" where
  "peeled_cast ty v = (case v of
     MachineIntegerCast inner through destination \<Rightarrow>
       if destination = ty \<and> type_bits through \<le> 32 \<and> format_contains (type_format through) (type_format destination)
       then (case from_machine ty inner of Some (Machine ty' v') \<Rightarrow> Some (ty', v') | _ \<Rightarrow> None)
       else None
   | _ \<Rightarrow> None)"

lemma from_machine_size: "from_machine ty t = Some (Machine ty' t') \<Longrightarrow> size t' \<le> size t"
proof (induction ty t rule: from_machine.induct)
  case (1 ty t)
  show ?case
  proof (cases "\<exists>operand source destination. t = MachineIntegerCast operand source destination")
    case False
    then have "observed_leaf ty t = Some (Machine ty' t')" using "1.prems" from_machine_leaf [of t ty] by blast
    then show ?thesis using observed_leaf_Machine by blast
  next
    case True
    then obtain operand source destination where cast: "t = MachineIntegerCast operand source destination"
      by blast
    note step = from_machine_cast [THEN iffD1, OF "1.prems" [unfolded cast]]
    consider "destination \<noteq> ty" "from_machine destination t = Some (Machine ty' t')"
      | "destination = ty" "type_bits source < type_bits ty" "format_contains (type_format ty) (type_format source)"
        "from_machine source operand = Some (Machine ty' t')"
      | "ty' = ty" "t' = t"
      using step by (auto simp: cast split: if_splits dest: observed_leaf_Machine)
    then show ?thesis
    proof cases
      case 1
      then show ?thesis using step by (intro "1.IH"(1) [OF _ cast]) (auto simp: cast)
    next
      case 2
      then have "size t' \<le> size operand" using step by (intro "1.IH"(2) [OF _ cast]) (auto simp: cast)
      then show ?thesis by (simp add: cast)
    qed simp
  qed
qed

lemma peeled_cast_smaller: "peeled_cast ty v = Some (ty', v') \<Longrightarrow> size v' < size v"
  by (auto simp: peeled_cast_def split: bv.splits if_splits option.splits integer.splits dest!: from_machine_size)

function cast_format ::
  "('x bv \<Rightarrow> 'x bv \<Rightarrow> bool) \<Rightarrow> machine_integer_type \<Rightarrow> 'x bv \<Rightarrow> machine_integer_type \<Rightarrow> 'x bv
   \<Rightarrow> machine_integer_format option"
where
  "cast_format below ty v source t =
     (case peeled_cast ty v of
        Some (ty', v') \<Rightarrow>
          (case cast_format below ty' v' source t of
             Some format \<Rightarrow> Some format
           | None \<Rightarrow> direct_cast below ty v source t)
      | None \<Rightarrow> direct_cast below ty v source t)"
  by pat_completeness auto
termination
  by (relation "measure (\<lambda>(_, _, v, _). size v)") (auto dest: peeled_cast_smaller)

declare cast_format.simps [simp del]

definition cast_of :: "('x bv \<Rightarrow> 'x bv \<Rightarrow> bool) \<Rightarrow> 'x integer \<Rightarrow> 'x integer \<Rightarrow> machine_integer_format option" where
  "cast_of below observed original = (case (observed, original) of
     (Machine ty v, Machine source t) \<Rightarrow> cast_format below ty v source t
   | _ \<Rightarrow> None)"

definition check_cast_identity :: "('x bv \<Rightarrow> 'x bv \<Rightarrow> bool) \<Rightarrow> 'x rule_check" where
  "check_cast_identity below node bounds premises result =
     (let invalid = InvalidIntegerCastIdentity node in
      if length bounds \<noteq> 2 then Inl invalid
      else
        attempt (required invalid (stated_equality result)) (\<lambda>(a, b).
        attempt (required invalid
          (case cast_of below a b of
             Some destination \<Rightarrow> Some (b, destination)
           | None \<Rightarrow> map_option (\<lambda>destination. (a, destination)) (cast_of below b a))) (\<lambda>(original, destination).
          bounded_inside invalid premises bounds original destination)))"

section \<open>Conversions read as the value they convert\<close>

text \<open>
  A value's term carries the width of its type, and a narrow value fills its 32-bit word:
  by its sign when it is signed, by zeros when it is not.
\<close>

definition carries_type :: "machine_integer_type \<Rightarrow> 'x bv \<Rightarrow> bool" where
  "carries_type ty t \<longleftrightarrow>
     (type_bits ty \<le> 32 \<longrightarrow> carries Width32 t) \<and> (type_bits ty = 64 \<longrightarrow> carries Width64 t)"

definition typed_reading :: "machine_integer_type \<Rightarrow> 'x valuation \<Rightarrow> 'x bv \<Rightarrow> int" where
  "typed_reading ty \<rho> t =
     (let signed = fmt_signed (type_format ty) in
      if type_bits ty = 64
      then (if signed then sint (low64 (bv_value \<rho> t)) else uint (low64 (bv_value \<rho> t)))
      else (if signed then sint (low32 (bv_value \<rho> t)) else uint (low32 (bv_value \<rho> t))))"

lemma typed_reading_native: "legacy_type ty \<Longrightarrow> carrier_reading ty (bv_value \<rho> t) = typed_reading ty \<rho> t"
  by (cases ty) (simp_all add: legacy_type_def typed_reading_def native_readings)

lemma wrapped_typed_reading:
  assumes "type_bits source \<noteq> 128" and "type_bits d \<le> 32 \<or> type_bits d \<le> type_bits source"
  shows "wrapped (type_format d) (typed_reading source \<rho> t) = carrier_reading d (bv_value \<rho> t)"
proof -
  have signed32: "type_bits d \<le> 32 \<Longrightarrow> wrapped (type_format d) (sint (low32 w)) = wrapped (type_format d) (uint (low32 w))"
    and signed64: "type_bits d \<le> 64 \<Longrightarrow> wrapped (type_format d) (sint (low64 w)) = wrapped (type_format d) (uint (low64 w))"
    for w by (intro wrapped_sint; simp flip: type_bits_def)+
  show ?thesis
  proof (cases "type_bits source = 64")
    case True
    then have "type_bits d \<le> 64" using assms(2) by linarith
    with True show ?thesis by (simp add: typed_reading_def signed64 reading_low64)
  next
    case False
    then have "type_bits d \<le> 32" using assms type_bits_le(3) [of source] by linarith
    with False show ?thesis by (simp add: typed_reading_def signed32 reading_low32)
  qed
qed

text \<open>Flipping the top bit of the low bits and subtracting it leaves them as they are.\<close>

lemma take_bit_flip_subtract:
  fixes v :: int
  assumes "k < n"
  shows "take_bit (Suc k) ((v XOR push_bit k 1) - push_bit k 1) = take_bit (Suc k) v"
proof -
  have "v XOR push_bit k 1 = (if bit v k then v - 2 ^ k else v + 2 ^ k)"
    unfolding flip_bit_eq_xor [symmetric]
    by (cases "bit v k") (simp_all add: flip_bit_eq_if unset_bit_eq set_bit_eq)
  then have "(v XOR push_bit k 1) - push_bit k 1 = (if bit v k then v - 2 ^ Suc k else v)"
    by (simp add: push_bit_eq_mult)
  then show ?thesis by (simp add: take_bit_eq_mod)
qed

lemma low_bits_mask: "low_bits_mask ty = mask (type_bits ty)"
  by (simp add: low_bits_mask_def mask_eq_exp_minus_1)

lemma masked_reading:
  assumes "type_bits d \<le> 32"
  shows "wrapped (type_format d) (uint (low32 w AND low_bits_mask d)) = carrier_reading d w"
  using assms unfolding low_bits_mask take_bit_eq_mask [symmetric]
  by (simp add: unsigned_take_bit_eq reading_low32 wrapped_take_bit flip: type_bits_def)

lemma sign_extended_reading:
  assumes "d \<in> {MInt8, MInt16}"
  shows "wrapped (type_format d) (uint (((low32 w AND low_bits_mask d) XOR push_bit (type_bits d - 1) 1)
    - push_bit (type_bits d - 1) 1)) = carrier_reading d w"
proof -
  let ?n = "type_bits d"
  let ?x = "take_bit ?n (uint (low32 w))" and ?s = "push_bit (?n - 1) 1"
  have n: "?n = 8 \<or> ?n = 16" using assms by auto
  have mask: "uint (low32 w AND low_bits_mask d) = ?x"
    unfolding low_bits_mask take_bit_eq_mask [symmetric] by (rule unsigned_take_bit_eq)
  have sign: "uint (push_bit (?n - 1) 1 :: 32 word) = ?s" using n by auto
  have "uint (((low32 w AND low_bits_mask d) XOR push_bit (?n - 1) 1) - push_bit (?n - 1) 1) =
      take_bit 32 ((?x XOR ?s) - ?s)"
    unfolding uint_word_ariths unsigned_xor_eq mask sign by (simp add: take_bit_eq_mod)
  moreover have "take_bit ?n (take_bit 32 ((?x XOR ?s) - ?s)) = take_bit ?n (uint (low32 w))"
    using n take_bit_flip_subtract [of 7 8 ?x] take_bit_flip_subtract [of 15 16 ?x] by auto
  ultimately have "wrapped (type_format d) (uint (((low32 w AND low_bits_mask d) XOR push_bit (?n - 1) 1)
      - push_bit (?n - 1) 1)) = wrapped (type_format d) (uint (low32 w))"
    by (metis wrapped_take_bit format_bits_type order_refl)
  then show ?thesis using n by (auto simp: reading_low32)
qed

lemma widened_reading:
  assumes "type_bits d = 64" "type_bits source \<le> 32" "carries Width32 t"
  shows "wrapped (type_format d) (uint (if fmt_signed (type_format source)
      then scast (low32 (bv_value \<rho> t)) else ucast (low32 (bv_value \<rho> t)) :: 64 word)) =
    wrapped (type_format d) (typed_reading source \<rho> t)"
proof (cases "fmt_signed (type_format source)")
  case True
  have "wrapped (type_format d) (sint (scast (low32 (bv_value \<rho> t)) :: 64 word)) =
      wrapped (type_format d) (uint (scast (low32 (bv_value \<rho> t)) :: 64 word))"
    using assms(1) by (intro wrapped_sint) (simp flip: type_bits_def)
  then show ?thesis using True assms(2) by (simp add: typed_reading_def sint_up_scast is_up)
next
  case False
  moreover have "uint (ucast (low32 (bv_value \<rho> t)) :: 64 word) = uint (low32 (bv_value \<rho> t))"
    by (rule uint_up_ucast) (simp add: is_up)
  ultimately show ?thesis using assms(2) by (simp add: typed_reading_def del: uint_ucast_wider)
qed

lemma converted_reading:
  assumes "carries_type source t" and "type_bits source \<noteq> 128" and "type_bits d \<noteq> 128"
  shows "carrier_reading d (bv_value \<rho> (converted_carrier below source d t)) =
    wrapped (type_format d) (typed_reading source \<rho> t)"
proof (cases "type_bits d = 64")
  case wide: True
  let ?signed = "fmt_signed (type_format d)" and ?v = "converted_carrier below source d t"
  show ?thesis
  proof (cases "type_bits source = 64")
    case True
    then have "carries Width64 t" using assms(1) by (simp add: carries_type_def)
    then have "low64 (bv_value \<rho> ?v) = low64 (bv_value \<rho> t)"
      using wide True int64_from_uint64_bits_means [of t \<rho>] uint64_from_int64_means [of \<rho> t]
      by (simp add: converted_carrier_def means64_def Let_def)
    then have "carrier_reading d (bv_value \<rho> ?v) = carrier_reading d (bv_value \<rho> t)"
      using wide by (simp add: reading_low64)
    then show ?thesis using wrapped_typed_reading [OF assms(2), of d \<rho> t] wide True by simp
  next
    case False
    then have narrow: "type_bits source \<le> 32" using assms(2) type_bits_le(3) [of source] by blast
    then have t: "carries Width32 t" using assms(1) by (simp add: carries_type_def)
    have "low64 (bv_value \<rho> ?v) = (if fmt_signed (type_format source)
        then scast (low32 (bv_value \<rho> t)) else ucast (low32 (bv_value \<rho> t)))"
      using wide False conversions_mean [OF t, of \<rho>] by (simp add: converted_carrier_def means64_def Let_def)
    then show ?thesis using widened_reading [OF wide narrow t, of \<rho>] wide by (simp add: reading_low64)
  qed
next
  case False
  then have narrow: "type_bits d \<le> 32" using assms(3) type_bits_le(3) [of d] by blast
  let ?word = "if type_bits source = 64 then uint32_from_64 t else t"
  have word: "low32 (bv_value \<rho> ?word) = low32 (bv_value \<rho> t)"
    using uint32_from_64_means [of \<rho> t] by (simp add: means32_def)
  have "carrier_reading d (bv_value \<rho> (converted_carrier below source d t)) = carrier_reading d (bv_value \<rho> t)"
  proof (cases "type_bits d = 32")
    case True
    then show ?thesis using word by (simp add: converted_carrier_def reading_low32 Let_def)
  next
    case False
    then show ?thesis
    proof (cases "fmt_signed (type_format d)")
      case True
      then have "d \<in> {MInt8, MInt16}" using False narrow by (cases d) auto
      then show ?thesis
        using True False narrow word sign_extended_reading [of d "bv_value \<rho> t"]
        by (simp add: converted_carrier_def reading_low32 Let_def
            subtract_means [unfolded means32_def] bitwise_xor_means [unfolded means32_def]
            bitwise_and_means [unfolded means32_def] del: insert_iff)
    next
      case unsigned: False
      then show ?thesis
        using False narrow word masked_reading [of d "bv_value \<rho> t"]
        by (simp add: converted_carrier_def reading_low32 Let_def bitwise_and_means [unfolded means32_def])
    qed
  qed
  then show ?thesis using wrapped_typed_reading [OF assms(2), of d \<rho> t] narrow by simp
qed

lemma masked_operand:
  assumes "has_mask t m"
  shows "low32 (bv_value \<rho> t) = low32 (bv_value \<rho> t) AND m"
proof -
  obtain l r where t: "t = Binary Op_BitwiseAnd l r" and m: "l = Constant m \<or> r = Constant m"
    using assms by (auto simp: has_mask_def split: bv.splits)
  from m show ?thesis
    by (rule disjE) (simp_all add: t binary32_def and.assoc and.commute [of m])
qed

lemma promoted_reading:
  assumes "promoted_unsigned_source ty source t"
  shows "carrier_reading source (bv_value \<rho> t) = typed_reading source \<rho> t"
proof -
  have source: "source \<in> {MUInt8, MUInt16}" and masked: "has_mask t (low_bits_mask source)"
    using assms by (simp_all add: promoted_unsigned_source_def)
  have "uint (low32 (bv_value \<rho> t)) = take_bit (type_bits source) (uint (low32 (bv_value \<rho> t)))"
    using masked_operand [OF masked, of \<rho>]
    unfolding low_bits_mask take_bit_eq_mask [symmetric] unsigned_take_bit_eq [symmetric] by simp
  then show ?thesis using source
    by (auto simp: reading_low32 typed_reading_def wrapped_def to_integer_constant_of)
qed

lemma convert_modulo_term_reading:
  assumes converted: "convert_modulo_term below source d t = Some v"
    and carries: "carries_type source t" and narrow: "type_bits source \<noteq> 128" "type_bits d \<noteq> 128"
    and exact: "carrier_reading source (bv_value \<rho> t) = typed_reading source \<rho> t"
  shows "carrier_reading d (bv_value \<rho> v) = wrapped (type_format d) (carrier_reading source (bv_value \<rho> t))"
proof (cases "constant_from_term source t")
  case None
  then consider "source = d" "v = t" | "v = converted_carrier below source d t"
    using converted narrow by (auto simp: convert_modulo_term_def split: if_splits)
  then show ?thesis
  proof cases
    case 1
    then show ?thesis by (simp add: carrier_reading_wrapped wrapped_wrapped)
  next
    case 2
    then show ?thesis using converted_reading [OF carries narrow] exact by simp
  qed
next
  case (Some c)
  have c: "carrier_reading source (bv_value \<rho> t) = to_integer c"
    using constant_from_term_reading [OF Some] by blast
  have "constant_term d (constant_of (type_format d) (wrapped (type_format d) (to_integer c))) = Some v"
    using converted narrow Some
    by (simp add: convert_modulo_term_def convert_modulo_spec constant_of_def take_bit_wrapped
        flip: format_bits_type)
  moreover obtain u where
    "constant_term d (constant_of (type_format d) (wrapped (type_format d) (to_integer c))) = Some u"
    "carrier_reading d (bv_value \<rho> u) = wrapped (type_format d) (to_integer c)"
    using constant_term_reading [OF wrapped_representable [of "type_format d" "to_integer c"]] by blast
  ultimately show ?thesis using c by simp
qed

text \<open>Apart from what it sees through, the rule accepts only conversions modulo the destination.\<close>

lemma carrier_kept_reading:
  assumes "carrier_kept ty v source t"
  shows "carrier_reading ty (bv_value \<rho> v) = wrapped (type_format ty) (carrier_reading source (bv_value \<rho> t))"
proof -
  have legacy: "legacy_type source" and ty: "type_bits ty \<le> 32" "type_bits source \<noteq> 128"
    and v: "low32 (bv_value \<rho> v) = low32 (bv_value \<rho> t)"
    using assms uint32_from_64_means [of \<rho> t]
    by (auto simp: carrier_kept_def legacy_type_def means32_def split: if_splits)
  have "carrier_reading ty (bv_value \<rho> v) = carrier_reading ty (bv_value \<rho> t)"
    using ty v by (simp add: reading_low32)
  then show ?thesis
    using wrapped_typed_reading [OF ty(2), of ty \<rho> t] ty(1) typed_reading_native [OF legacy, of \<rho> t] by simp
qed

lemma masked_word_reading:
  assumes "masked_word ty v source t"
  shows "carrier_reading ty (bv_value \<rho> v) = wrapped (type_format ty) (carrier_reading source (bv_value \<rho> t))"
proof -
  have source: "source = MUInt32" and ty: "type_bits ty \<le> 32"
    using assms by (auto simp: masked_word_def)
  have "low32 (bv_value \<rho> v) = low32 (bv_value \<rho> t) AND low_bits_mask ty"
    using assms by (auto simp: masked_word_def binary32_def and.commute split: bv.splits)
  then have "carrier_reading ty (bv_value \<rho> v) = carrier_reading ty (bv_value \<rho> t)"
    using masked_reading [OF ty, of "bv_value \<rho> t"] ty by (simp add: reading_low32)
  then show ?thesis using ty by (simp add: source native_readings reading_low32)
qed

lemma direct_cast_reading:
  assumes accepted: "direct_cast below ty v source t = Some format" and carries: "carries_type source t"
  shows "format = type_format ty \<and>
    carrier_reading ty (bv_value \<rho> v) = wrapped (type_format ty) (carrier_reading source (bv_value \<rho> t))"
proof -
  have format: "format = type_format ty" using accepted by (auto simp: direct_cast_def split: if_splits)
  consider "v = machine_integer_cast source ty t" | "carrier_kept ty v source t" | "masked_word ty v source t"
    | "legacy_type source" "legacy_type ty" "convert_modulo_term below source ty t = Some v"
    | "promoted_unsigned_source ty source t" "convert_modulo_term below source ty t = Some v"
    using accepted by (auto simp: direct_cast_def split: if_splits)
  then have "carrier_reading ty (bv_value \<rho> v) =
      wrapped (type_format ty) (carrier_reading source (bv_value \<rho> t))"
  proof cases
    case 1
    then show ?thesis by (simp add: machine_integer_cast_reading)
  next
    case 2
    then show ?thesis by (rule carrier_kept_reading)
  next
    case 3
    then show ?thesis by (rule masked_word_reading)
  next
    case 4
    then show ?thesis
      by (intro convert_modulo_term_reading [OF 4(3) carries _ _ typed_reading_native])
        (auto simp: legacy_type_def)
  next
    case 5
    then show ?thesis
      by (intro convert_modulo_term_reading [OF 5(2) carries _ _ promoted_reading])
        (auto simp: promoted_unsigned_source_def)
  qed
  with format show ?thesis by blast
qed

lemma cast_format_value:
  fixes M :: "'x meaning"
  assumes "cast_format below ty v source t = Some format" and "carries_type source t"
    and "representable format (carrier_reading source (bv_value (machine_values M) t))"
  shows "carrier_reading ty (bv_value (machine_values M) v) =
    carrier_reading source (bv_value (machine_values M) t)"
  using assms
proof (induction below ty v source t rule: cast_format.induct)
  case (1 below ty v source t)
  let ?\<rho> = "machine_values M"
  consider ty' v' where "peeled_cast ty v = Some (ty', v')" "cast_format below ty' v' source t = Some format"
    | "direct_cast below ty v source t = Some format"
    using "1.prems"(1) by (auto simp: cast_format.simps [of below ty v] split: option.splits)
  then show ?case
  proof cases
    case (1 ty' v')
    have inside: "carrier_reading ty' (bv_value ?\<rho> v') = carrier_reading source (bv_value ?\<rho> t)"
      using "1.IH" [OF 1(1) refl 1(2) "1.prems"(2,3)] .
    obtain inner through where v: "v = MachineIntegerCast inner through ty"
      and through: "type_bits through \<le> 32" "format_contains (type_format through) (type_format ty)"
      and read: "from_machine ty inner = Some (Machine ty' v')"
      using 1(1) by (auto simp: peeled_cast_def split: bv.splits if_splits option.splits integer.splits)
    have bits: "type_bits ty \<le> type_bits through"
      using format_contains_strict [OF through(2)] by (cases "ty = through") auto
    have "carrier_reading ty (bv_value ?\<rho> v) = carrier_reading ty (bv_value ?\<rho> inner)"
      using through(1) bits by (simp add: v reading_cast reading_low32 wrapped_wrapped)
    moreover have "carrier_reading ty (bv_value ?\<rho> inner) = carrier_reading ty' (bv_value ?\<rho> v')"
      using from_machine_value [OF read, of M] by simp
    ultimately show ?thesis using inside by simp
  next
    case 2
    then show ?thesis
      using direct_cast_reading [OF 2 "1.prems"(2), of ?\<rho>] wrapped_id "1.prems"(3) by metis
  qed
qed

text \<open>The operand of a conversion the rule accepts carries its type.\<close>

definition operand_carries_type :: "'x integer \<Rightarrow> bool" where
  "operand_carries_type i = (case i of Machine ty t \<Rightarrow> carries_type ty t | _ \<Rightarrow> True)"

definition cast_operands_carry :: "'x prop_term \<Rightarrow> bool" where
  "cast_operands_carry p = (case stated_equality p of
     Some (a, b) \<Rightarrow> operand_carries_type a \<and> operand_carries_type b
   | None \<Rightarrow> True)"

lemma cast_of_value:
  assumes "cast_of below observed original = Some format" and "operand_carries_type original"
    and "representable format (integer_value M original)"
  shows "integer_value M observed = integer_value M original"
  using assms cast_format_value
  by (fastforce simp: cast_of_def operand_carries_type_def split: integer.splits)

lemma cast_identity_holds:
  assumes true: "list_all (holds M) facts"
    and accepted: "check_cast_identity below node bounds facts result = Inr ()"
    and carried: "cast_operands_carry result"
  shows "holds M result"
proof -
  obtain a b where equation: "stated_equality result = Some (a, b)" and two: "length bounds = 2"
    using accepted by (auto simp: check_cast_identity_def Let_def rule_Inr)
  obtain original destination where chosen: "cast_of below a b = Some destination \<and> original = b
      \<or> cast_of below b a = Some destination \<and> original = a"
    and inside: "bounded_inside (InvalidIntegerCastIdentity node) facts bounds original destination = Inr ()"
    using accepted equation
    by (cases "cast_of below a b") (auto simp: check_cast_identity_def Let_def rule_Inr)
  have "representable destination (integer_value M original)"
    by (rule bounded_inside_value [OF true two inside])
  moreover have "operand_carries_type a" "operand_carries_type b"
    using carried equation by (simp_all add: cast_operands_carry_def)
  ultimately have "integer_value M a = integer_value M b" using chosen cast_of_value by metis
  then show ?thesis using stated_equality_holds [OF equation] by simp
qed

end
