(* ===== verification/PropositionIdentity.thy ===== *)
theory PropositionIdentity
  imports IntegerReadings
begin

text \<open>
  The comparison of a certificate's result with the goal it is offered for
  (\<^verbatim>\<open>src/src/kernel/proof/arithmetic_special.rs\<close>): terms are walked and
  charged against \<^verbatim>\<open>MAX_TERM_PAYLOAD\<close> first, and compared only inside the
  fragment the walk accepts. The step budget shared with the rest of the kernel is left out.
\<close>

section \<open>Payloads\<close>

definition MAX_TERM_PAYLOAD :: nat where
  "MAX_TERM_PAYLOAD = 256"

definition charge_payload :: "nat option \<Rightarrow> bool" where
  "charge_payload payload = (case payload of Some n \<Rightarrow> n \<le> MAX_TERM_PAYLOAD | None \<Rightarrow> False)"

definition added_payload :: "nat option \<Rightarrow> nat option \<Rightarrow> nat option" where
  "added_payload a b = (case (a, b) of (Some m, Some n) \<Rightarrow> Some (m + n) | _ \<Rightarrow> None)"

fun pointer_block_payload :: "'x pointer_block \<Rightarrow> nat" where
  "pointer_block_payload (Concrete name) = 1 + length name"
| "pointer_block_payload (Function_Block name) = 1 + length name"
| "pointer_block_payload (StringLiteral identity bytes) = 1 + length identity + length bytes"
| "pointer_block_payload _ = 1"

text \<open>The operators of two terms that the walk and the comparison know.\<close>

definition compared_operator :: "binary_operator \<Rightarrow> bool" where
  "compared_operator op = (case op of
     Op_Float32Binary _ \<Rightarrow> True
   | Op_Float64Binary _ \<Rightarrow> True
   | _ \<Rightarrow> op \<in> {Op_Add, Op_Subtract, Op_BitwiseAnd, Op_BitwiseOr, Op_BitwiseXor, Op_Int64Add, Op_UInt64Add,
       Op_UInt64Subtract, Op_UInt64Multiply, Op_UInt64Divide, Op_UInt64Remainder, Op_UInt64BitwiseAnd,
       Op_UInt64BitwiseOr})"

fun bitvector_payload :: "'x bv \<Rightarrow> nat option"
  and arguments_payload :: "'x bv list \<Rightarrow> nat option"
  and pointer_offset_payload :: "'x offset \<Rightarrow> nat option"
  and pointer_payload :: "'x pointer \<Rightarrow> nat option"
where
  "bitvector_payload (Constant _) = Some 1"
| "bitvector_payload (Int64Constant _) = Some 1"
| "bitvector_payload (UInt64Constant _) = Some 1"
| "bitvector_payload (MachineIntegerConstant _) = Some 1"
| "bitvector_payload (Variable _) = Some 1"
| "bitvector_payload (IntegerToMachine _ _) = Some 1"
| "bitvector_payload (Binary op l r) =
     (if compared_operator op
      then added_payload (Some 1) (added_payload (bitvector_payload l) (bitvector_payload r)) else None)"
| "bitvector_payload (Unary op a) =
     (if op \<in> {Op_Int64FromUInt32, Op_UInt64From32, Op_UInt32From64, Op_Float32Negate, Op_Float64Negate}
      then added_payload (Some 1) (bitvector_payload a) else None)"
| "bitvector_payload (MachineIntegerCast a _ _) = added_payload (Some 1) (bitvector_payload a)"
| "bitvector_payload (PureFunctionApplication name arguments) =
     added_payload (Some (1 + length name)) (arguments_payload arguments)"
| "bitvector_payload (PointerAddress p) = added_payload (Some 1) (pointer_payload p)"
| "bitvector_payload _ = None"
| "arguments_payload [] = Some 0"
| "arguments_payload (a # arguments) = added_payload (bitvector_payload a) (arguments_payload arguments)"
| "pointer_offset_payload (Off_Constant _) = Some 1"
| "pointer_offset_payload (Off_Variable _) = Some 1"
| "pointer_offset_payload (Off_Add l r) =
     added_payload (Some 1) (added_payload (pointer_offset_payload l) (pointer_offset_payload r))"
| "pointer_offset_payload (Int32Scaled a _) = added_payload (Some 1) (bitvector_payload a)"
| "pointer_offset_payload (Int64Scaled a _ _) = added_payload (Some 1) (bitvector_payload a)"
| "pointer_payload (Pointer block offset) =
     added_payload (Some (pointer_block_payload block)) (pointer_offset_payload offset)"

definition charge_bitvector :: "'x bv \<Rightarrow> bool" where
  "charge_bitvector t \<longleftrightarrow> charge_payload (bitvector_payload t)"

definition charge_pointer_offset :: "'x offset \<Rightarrow> bool" where
  "charge_pointer_offset t \<longleftrightarrow> charge_payload (pointer_offset_payload t)"

definition charge_pointer :: "'x pointer \<Rightarrow> bool" where
  "charge_pointer p \<longleftrightarrow> charge_payload (pointer_payload p)"

section \<open>Comparison inside the charged fragment\<close>

fun pointer_block_equal :: "'x pointer_block \<Rightarrow> 'x pointer_block \<Rightarrow> bool" where
  "pointer_block_equal (Concrete a) r = (r = Concrete a)"
| "pointer_block_equal (Function_Block a) r = (r = Function_Block a)"
| "pointer_block_equal (StringLiteral a bytes) r = (r = StringLiteral a bytes)"
| "pointer_block_equal (FunctionSymbolic a) r = (r = FunctionSymbolic a)"
| "pointer_block_equal (Symbolic a) r = (r = Symbolic a)"
| "pointer_block_equal ExternalArgument r = (r = ExternalArgument)"
| "pointer_block_equal (Heap a) r = (r = Heap a)"
| "pointer_block_equal (Temporary a) r = (r = Temporary a)"
| "pointer_block_equal _ r = False"

text \<open>
  The source keeps the pairs still to compare on a stack and stops at the first that differ;
  every pair is compared, so the order is not observable. A scaled offset and an address
  charge the terms they compare again.
\<close>

fun same_bitvector :: "'x bv \<Rightarrow> 'x bv \<Rightarrow> bool"
  and same_arguments :: "'x bv list \<Rightarrow> 'x bv list \<Rightarrow> bool"
  and pointer_offset_equal :: "'x offset \<Rightarrow> 'x offset \<Rightarrow> bool"
  and pointer_equal :: "'x pointer \<Rightarrow> 'x pointer \<Rightarrow> bool"
where
  "same_bitvector (Constant a) r = (r = Constant a)"
| "same_bitvector (Int64Constant a) r = (r = Int64Constant a)"
| "same_bitvector (UInt64Constant a) r = (r = UInt64Constant a)"
| "same_bitvector (MachineIntegerConstant a) r = (r = MachineIntegerConstant a)"
| "same_bitvector (Variable a) r = (r = Variable a)"
| "same_bitvector (IntegerToMachine a destination) r = (r = IntegerToMachine a destination)"
| "same_bitvector (Unary op a) r = (case r of
     Unary op' b \<Rightarrow>
       op = op' \<and> op \<in> {Op_Int64FromUInt32, Op_UInt64From32, Op_UInt32From64} \<and> same_bitvector a b
   | _ \<Rightarrow> False)"
| "same_bitvector (MachineIntegerCast a source destination) r = (case r of
     MachineIntegerCast b source' destination' \<Rightarrow>
       source = source' \<and> destination = destination' \<and> same_bitvector a b
   | _ \<Rightarrow> False)"
| "same_bitvector (PureFunctionApplication name arguments) r = (case r of
     PureFunctionApplication name' arguments' \<Rightarrow>
       name = name' \<and> length arguments = length arguments' \<and> same_arguments arguments arguments'
   | _ \<Rightarrow> False)"
| "same_bitvector (PointerAddress p) r = (case r of PointerAddress q \<Rightarrow> pointer_equal p q | _ \<Rightarrow> False)"
| "same_bitvector (Binary op a b) r = (case r of
     Binary op' a' b' \<Rightarrow> op = op' \<and> compared_operator op \<and> same_bitvector a a' \<and> same_bitvector b b'
   | _ \<Rightarrow> False)"
| "same_bitvector _ r = False"
| "same_arguments (a # arguments) (b # arguments') = (same_bitvector a b \<and> same_arguments arguments arguments')"
| "same_arguments _ _ = True"
| "pointer_offset_equal (Off_Constant a) r = (r = Off_Constant a)"
| "pointer_offset_equal (Off_Variable a) r = (r = Off_Variable a)"
| "pointer_offset_equal (Off_Add a b) r = (case r of
     Off_Add a' b' \<Rightarrow> pointer_offset_equal a a' \<and> pointer_offset_equal b b' | _ \<Rightarrow> False)"
| "pointer_offset_equal (Int32Scaled a width) r = (case r of
     Int32Scaled b width' \<Rightarrow>
       width = width' \<and> charge_bitvector a \<and> charge_bitvector b \<and> same_bitvector a b
   | _ \<Rightarrow> False)"
| "pointer_offset_equal (Int64Scaled a width is_unsigned) r = (case r of
     Int64Scaled b width' is_unsigned' \<Rightarrow>
       width = width' \<and> is_unsigned = is_unsigned' \<and> charge_bitvector a \<and> charge_bitvector b
       \<and> same_bitvector a b
   | _ \<Rightarrow> False)"
| "pointer_equal (Pointer block offset) q =
     (charge_pointer (Pointer block offset) \<and> charge_pointer q
      \<and> pointer_block_equal block (pointer_block q) \<and> pointer_offset_equal offset (pointer_offset q))"

definition bitvector_equal :: "'x bv \<Rightarrow> 'x bv \<Rightarrow> bool" where
  "bitvector_equal l r \<longleftrightarrow> charge_bitvector l \<and> charge_bitvector r \<and> same_bitvector l r"

section \<open>Conditions and propositions\<close>

definition float_condition_identity :: "'x float_cond \<Rightarrow> 'x float_cond \<Rightarrow> bool" where
  "float_condition_identity l r = (case (l, r) of
     (Float_Comparison op a b, Float_Comparison op' a' b') \<Rightarrow>
       op = op' \<and> bitvector_equal a a' \<and> bitvector_equal b b'
   | (Float_Classification class a, Float_Classification class' a') \<Rightarrow> class = class' \<and> bitvector_equal a a'
   | _ \<Rightarrow> False)"

text \<open>Comparisons whose operands are charged, and definedness claims, compared outright.\<close>

definition charged_comparison :: "comparison \<Rightarrow> bool" where
  "charged_comparison op \<longleftrightarrow>
     op \<in> {Op_Bitvector32Equal, Op_Bitvector64Equal, Op_Bitvector32SignedLessThan,
       Op_Bitvector32SignedLessEqual, Op_Bitvector64SignedLessEqual, Op_Bitvector32SignedGreaterThan,
       Op_Bitvector32SignedGreaterEqual}"

definition definedness_comparison :: "comparison \<Rightarrow> bool" where
  "definedness_comparison op \<longleftrightarrow>
     op \<in> {Op_Bitvector32SignedAddOverflows, Op_Bitvector32SignedSubtractOverflows,
       Op_Bitvector64SignedAddOverflows, Op_Bitvector64SignedSubtractOverflows}"

definition native_identity :: "'x cond \<Rightarrow> 'x cond \<Rightarrow> bool" where
  "native_identity l r = (case (l, r) of
     (PointerValueEqual a b, PointerValueEqual c d) \<Rightarrow>
       charge_pointer (value_pointer a) \<and> charge_pointer (value_pointer b)
       \<and> charge_pointer (value_pointer c) \<and> charge_pointer (value_pointer d) \<and> a = c \<and> b = d
   | (Cond_Constant a, Cond_Constant b) \<Rightarrow> a = b
   | (PointerEqual a b, PointerEqual c d) \<Rightarrow> pointer_equal a c \<and> pointer_equal b d
   | (PointerOffsetEqual a b, PointerOffsetEqual c d) \<Rightarrow>
       charge_pointer_offset a \<and> charge_pointer_offset b \<and> charge_pointer_offset c
       \<and> charge_pointer_offset d \<and> pointer_offset_equal a c \<and> pointer_offset_equal b d
   | (Compare op a b, Compare op' c d) \<Rightarrow>
       op = op'
       \<and> (if charged_comparison op then bitvector_equal a c \<and> bitvector_equal b d
          else definedness_comparison op \<and> a = c \<and> b = d)
   | (Float32_Condition a, Float32_Condition b) \<Rightarrow> float_condition_identity a b
   | (Float64_Condition a, Float64_Condition b) \<Rightarrow> float_condition_identity a b
   | _ \<Rightarrow> False)"

definition condition_identity :: "'x condition \<Rightarrow> 'x condition \<Rightarrow> bool" where
  "condition_identity l r = (case (l, r) of
     (Integer_Relation op a b, Integer_Relation op' c d) \<Rightarrow>
       op = op' \<and> op \<in> {Op_IntegerEqual, Op_IntegerNotEqual, Op_IntegerLessEqual} \<and> a = c \<and> b = d
   | (Native c, Native d) \<Rightarrow> native_identity c d
   | _ \<Rightarrow> False)"

text \<open>
  A conjunction compares conjunct by conjunct in the source; it is the result of a
  definedness node only, which is not modelled, and an opaque proposition here.
\<close>

definition proposition_identity :: "'x prop_term \<Rightarrow> 'x prop_term \<Rightarrow> bool" where
  "proposition_identity l r = (case (l, r) of
     (ConditionIs c expected, ConditionIs d expected') \<Rightarrow> expected = expected' \<and> condition_identity c d
   | _ \<Rightarrow> False)"

section \<open>What is compared equal is equal\<close>

lemma pointer_block_equal_eq: "pointer_block_equal a b \<Longrightarrow> a = b"
  by (cases a) simp_all

lemma same_terms_equal:
  fixes l r :: "'x bv" and xs ys :: "'x bv list" and a b :: "'x offset" and p q :: "'x pointer"
  shows "same_bitvector l r \<Longrightarrow> l = r"
  "length xs = length ys \<Longrightarrow> same_arguments xs ys \<Longrightarrow> xs = ys"
  "pointer_offset_equal a b \<Longrightarrow> a = b"
  "pointer_equal p q \<Longrightarrow> p = q"
proof (induction l r and xs ys and a b and p q
    rule: same_bitvector_same_arguments_pointer_offset_equal_pointer_equal.induct)
qed (auto split: bv.splits offset.splits pointer.splits dest: pointer_block_equal_eq simp: pointer.expand)

lemma bitvector_equal_eq: "bitvector_equal l r \<Longrightarrow> l = r"
  by (auto simp: bitvector_equal_def intro: same_terms_equal(1))

lemma proposition_identity_eq: "proposition_identity p q \<Longrightarrow> p = q"
  by (auto simp: proposition_identity_def condition_identity_def native_identity_def float_condition_identity_def
      split: prop_term.splits condition.splits cond.splits float_cond.splits if_splits
      dest: bitvector_equal_eq same_terms_equal(3,4))

end
