(* ===== verification/RuleCertificate.thy ===== *)
theory RuleCertificate
  imports IntegerAffine IntegerPolynomial CastIdentity PropositionIdentity
begin

text \<open>
  Certificates of the integer rules (\<^verbatim>\<open>SpecialArithmeticCertificate\<close>,
  \<^verbatim>\<open>integer_rule\<close> and \<^verbatim>\<open>integer_rule_holds\<close> of
  \<^verbatim>\<open>src/src/kernel/proof/arithmetic_special.rs\<close>): each node checks its result
  against the integer readings of the premises it cites, and the node the certificate
  concludes with must state the goal. The interface of a rule is a locale, interpreted on
  each of the ten rules; the nodes over pointers, floats and machine definedness are left out.
\<close>

section \<open>Nodes and certificates\<close>

datatype integer_rule_name =
    IntegerProductBounds | IntegerDivisionBounds | IntegerMultiplyOrder | IntegerQuotientBound
  | IntegerBoundExclusion | IntegerRelationTransport | IntegerPolynomialIdentity
  | IntegerQuotientShift | IntegerCastIdentity | IntegerOperationIdentity

record 'x rule_node =
  node_rule :: integer_rule_name
  node_bounds :: "nat list"
  node_result :: "'x prop_term"

record 'x rule_certificate =
  rule_nodes :: "'x rule_node list"
  rule_conclusion :: nat

text \<open>The comparison a result states, with its negation moved into the condition.\<close>

definition native_form :: "'x prop_term \<Rightarrow> 'x prop_term" where
  "native_form p = (case p of
     Not_Proposition (ConditionIs c value) \<Rightarrow> ConditionIs c (\<not> value)
   | _ \<Rightarrow> p)"

fun first_checked :: "('x prop_term \<Rightarrow> rule_error + unit) \<Rightarrow> rule_error \<Rightarrow> 'x prop_term list \<Rightarrow> rule_error + unit"
where
  "first_checked check error [] = Inl error"
| "first_checked check error (stated # others) = (case check stated of
     Inr _ \<Rightarrow> Inr ()
   | Inl _ \<Rightarrow> first_checked check error others)"

definition integer_rule_holds ::
  "'x block_registry \<Rightarrow> ('x bv \<Rightarrow> 'x bv \<Rightarrow> bool) \<Rightarrow> 'x prop_term \<Rightarrow> ('x prop_term \<Rightarrow> rule_error + unit)
   \<Rightarrow> rule_error + unit"
where
  "integer_rule_holds reg below result check =
     (case integer_observations_of_native_comparison reg below (native_form result) of
        [] \<Rightarrow> check result
      | stated # others \<Rightarrow>
          (case check stated of
             Inr _ \<Rightarrow> Inr ()
           | Inl error \<Rightarrow> first_checked check error others))"

definition cited_reading ::
  "'x block_registry \<Rightarrow> ('x bv \<Rightarrow> 'x bv \<Rightarrow> bool) \<Rightarrow> 'x prop_term \<Rightarrow> 'x prop_term" where
  "cited_reading reg below p =
     (case integer_observations_of_native_comparison reg below p of [] \<Rightarrow> p | stated # _ \<Rightarrow> stated)"

definition integer_rule ::
  "'x block_registry \<Rightarrow> ('x bv \<Rightarrow> 'x bv \<Rightarrow> bool) \<Rightarrow> nat \<Rightarrow> nat list \<Rightarrow> 'x prop_term list
   \<Rightarrow> 'x prop_term \<Rightarrow> 'x rule_check \<Rightarrow> rule_error + unit"
where
  "integer_rule reg below node bounds premises result check =
     (if list_ex (\<lambda>bound. bound \<ge> length premises) bounds then check node bounds premises result
      else
        (let cited = map (\<lambda>bound. cited_reading reg below (premises ! bound)) bounds;
             local = [0..<length bounds] in
         integer_rule_holds reg below result (check node local cited)))"

definition rule_check_of ::
  "('x bv \<Rightarrow> 'x bv \<Rightarrow> bool) \<Rightarrow> ('x integer \<Rightarrow> nat) \<Rightarrow> integer_rule_name \<Rightarrow> 'x rule_check" where
  "rule_check_of below ident rule = (case rule of
     IntegerProductBounds \<Rightarrow> check_product_bounds
   | IntegerDivisionBounds \<Rightarrow> check_division_bounds
   | IntegerMultiplyOrder \<Rightarrow> check_multiply_order
   | IntegerQuotientBound \<Rightarrow> check_quotient_bound
   | IntegerBoundExclusion \<Rightarrow> check_bound_exclusion
   | IntegerRelationTransport \<Rightarrow> check_relation_transport
   | IntegerPolynomialIdentity \<Rightarrow> check_polynomial_identity ident
   | IntegerQuotientShift \<Rightarrow> check_quotient_shift
   | IntegerCastIdentity \<Rightarrow> check_cast_identity below
   | IntegerOperationIdentity \<Rightarrow> check_operation_identity)"

definition check_rule_node ::
  "'x block_registry \<Rightarrow> ('x bv \<Rightarrow> 'x bv \<Rightarrow> bool) \<Rightarrow> ('x integer \<Rightarrow> nat) \<Rightarrow> nat \<Rightarrow> 'x rule_node
   \<Rightarrow> 'x prop_term list \<Rightarrow> rule_error + unit"
where
  "check_rule_node reg below ident index node premises =
     integer_rule reg below index (node_bounds node) premises (node_result node)
       (rule_check_of below ident (node_rule node))"

fun check_rule_nodes ::
  "(nat \<Rightarrow> 'x rule_node \<Rightarrow> rule_error + unit) \<Rightarrow> nat \<Rightarrow> 'x rule_node list \<Rightarrow> rule_error + unit"
where
  "check_rule_nodes check index [] = Inr ()"
| "check_rule_nodes check index (node # nodes) =
     attempt (check index node) (\<lambda>_. check_rule_nodes check (Suc index) nodes)"

definition check_rules ::
  "'x block_registry \<Rightarrow> ('x bv \<Rightarrow> 'x bv \<Rightarrow> bool) \<Rightarrow> ('x integer \<Rightarrow> nat) \<Rightarrow> 'x rule_certificate
   \<Rightarrow> 'x prop_term \<Rightarrow> 'x prop_term list \<Rightarrow> rule_error + unit"
where
  "check_rules reg below ident certificate goal premises =
     (let nodes = rule_nodes certificate; conclusion = rule_conclusion certificate in
      if conclusion \<ge> length nodes then Inl (Rule_InvalidNodeReference conclusion)
      else
        attempt (check_rule_nodes (\<lambda>index node. check_rule_node reg below ident index node premises) 0 nodes)
          (\<lambda>_. if proposition_identity (node_result (nodes ! conclusion)) goal then Inr ()
            else Inl Rule_DoesNotFollow))"

section \<open>The interface of a rule\<close>

text \<open>
  A rule promises that a result it accepts holds whenever its premises do, for the results
  it is asked about. A node then promises the same of a result in any of its spellings.
\<close>

definition stated_readings ::
  "'x block_registry \<Rightarrow> ('x bv \<Rightarrow> 'x bv \<Rightarrow> bool) \<Rightarrow> 'x prop_term \<Rightarrow> 'x prop_term list" where
  "stated_readings reg below p = p # integer_observations_of_native_comparison reg below (native_form p)"

lemma native_form_holds: "holds M (native_form p) \<longleftrightarrow> holds M p"
  by (auto simp: native_form_def split: prop_term.splits)

lemma native_form_ok: "proposition_ok reg \<rho> p \<Longrightarrow> proposition_ok reg \<rho> (native_form p)"
  by (auto simp: proposition_ok_def native_form_def stated_condition_def split: prop_term.splits)

lemma reading_holds:
  assumes "q \<in> set (integer_observations_of_native_comparison reg below p)"
    and "null_at_zero (machine_values M)" and "proposition_ok reg (machine_values M) p"
  shows "holds M q \<longleftrightarrow> holds M p"
proof -
  obtain op left right v where p: "p = ConditionIs (Native (Compare op left right)) v"
    using assms(1) by (auto simp: integer_observations_of_native_comparison_def
        split: prop_term.splits condition.splits cond.splits)
  then have "condition_ok reg (machine_values M) (Native (Compare op left right))"
    using assms(3) by (simp add: proposition_ok_def stated_condition_def)
  then show ?thesis using integer_observations_exact [OF _ assms(2), of q reg below] assms(1) p by simp
qed

lemma cited_reading_holds:
  assumes "null_at_zero (machine_values M)" and "proposition_ok reg (machine_values M) p"
  shows "holds M (cited_reading reg below p) \<longleftrightarrow> holds M p"
  using reading_holds [OF _ assms, of _ below] by (auto simp: cited_reading_def split: list.splits)

lemma first_checked_Inr: "first_checked check error others = Inr u \<longleftrightarrow> (\<exists>q \<in> set others. check q = Inr ())"
  by (induction check error others rule: first_checked.induct) (auto split: sum.splits)

lemma integer_rule_holds_Inr:
  assumes "integer_rule_holds reg below result check = Inr ()"
  obtains q where "q \<in> set (stated_readings reg below result)" "check q = Inr ()"
    "q = result \<or> q \<in> set (integer_observations_of_native_comparison reg below (native_form result))"
  using assms
  by (auto simp: integer_rule_holds_def stated_readings_def first_checked_Inr split: list.splits sum.splits)

locale integer_rule_interface =
  fixes M :: "'x meaning" and admissible :: "'x prop_term \<Rightarrow> bool" and check :: "'x rule_check"
  assumes checked_holds:
    "list_all (holds M) facts \<Longrightarrow> check node bounds facts result = Inr () \<Longrightarrow> admissible result \<Longrightarrow> holds M result"
begin

lemma node_holds:
  assumes "null_at_zero (machine_values M)" and "proposition_ok reg (machine_values M) result"
    and "list_all (proposition_ok reg (machine_values M)) facts" and "list_all (holds M) facts"
    and "list_all admissible (stated_readings reg below result)"
    and "integer_rule reg below node bounds facts result check = Inr ()"
  shows "holds M result"
proof (cases "list_ex (\<lambda>bound. bound \<ge> length facts) bounds")
  case True
  then have "check node bounds facts result = Inr ()" using assms(6) by (simp add: integer_rule_def)
  then show ?thesis using checked_holds [OF assms(4)] assms(5) by (simp add: stated_readings_def)
next
  case False
  let ?cited = "map (\<lambda>bound. cited_reading reg below (facts ! bound)) bounds"
  have "list_all (holds M) ?cited"
    using False assms(3,4) cited_reading_holds [OF assms(1), of reg _ below]
    by (auto simp: list_all_length list_ex_length in_set_conv_nth)
  moreover obtain q where q: "q \<in> set (stated_readings reg below result)"
      "check node [0..<length bounds] ?cited q = Inr ()"
      "q = result \<or> q \<in> set (integer_observations_of_native_comparison reg below (native_form result))"
    using False assms(6) integer_rule_holds_Inr [of reg below result] by (auto simp: integer_rule_def Let_def)
  moreover from this have "admissible q" using assms(5) by (simp add: list_all_iff)
  ultimately have "holds M q" by (intro checked_holds)
  then show ?thesis
    using q(3) reading_holds [OF _ assms(1) native_form_ok [OF assms(2)]] native_form_holds by metis
qed

end

section \<open>The ten rules provide it\<close>

lemma sound_rule_provides: "sound_rule M check \<Longrightarrow> integer_rule_interface M (\<lambda>_. True) check"
  by unfold_locales (auto simp: sound_rule_def)

interpretation product_rule: integer_rule_interface M "\<lambda>_. True" check_product_bounds for M
  by (rule sound_rule_provides [OF product_bounds_sound])

interpretation division_rule: integer_rule_interface M "\<lambda>_. True" check_division_bounds for M
  by (rule sound_rule_provides [OF division_bounds_sound])

interpretation multiply_rule: integer_rule_interface M "\<lambda>_. True" check_multiply_order for M
  by (rule sound_rule_provides [OF multiply_order_sound])

interpretation quotient_rule: integer_rule_interface M "\<lambda>_. True" check_quotient_bound for M
  by (rule sound_rule_provides [OF quotient_bound_sound])

interpretation exclusion_rule: integer_rule_interface M "\<lambda>_. True" check_bound_exclusion for M
  by (rule sound_rule_provides [OF bound_exclusion_sound])

interpretation transport_rule: integer_rule_interface M "\<lambda>_. True" check_relation_transport for M
  by (rule sound_rule_provides [OF relation_transport_sound])

interpretation shift_rule: integer_rule_interface M "\<lambda>_. True" check_quotient_shift for M
  by (rule sound_rule_provides [OF quotient_shift_sound])

interpretation operation_rule: integer_rule_interface M "\<lambda>_. True" check_operation_identity for M
  by (rule sound_rule_provides [OF operation_identity_sound])

interpretation polynomial_rule: integer_rule_interface M "identities_ok ident" "check_polynomial_identity ident"
  for M ident
  by unfold_locales (rule polynomial_identity_holds)

interpretation cast_rule: integer_rule_interface M cast_operands_carry "check_cast_identity below" for M below
  by unfold_locales (rule cast_identity_holds)

text \<open>
  What a node asks of its result: the names a polynomial identity gives the terms it expands
  tell them apart, and the operand of a conversion carries its type.
\<close>

definition admissible_result :: "('x integer \<Rightarrow> nat) \<Rightarrow> integer_rule_name \<Rightarrow> 'x prop_term \<Rightarrow> bool" where
  "admissible_result ident rule = (case rule of
     IntegerPolynomialIdentity \<Rightarrow> identities_ok ident
   | IntegerCastIdentity \<Rightarrow> cast_operands_carry
   | _ \<Rightarrow> (\<lambda>_. True))"

lemma rule_provides: "integer_rule_interface M (admissible_result ident rule) (rule_check_of below ident rule)"
  by (cases rule)
    (simp_all add: admissible_result_def rule_check_of_def product_rule.integer_rule_interface_axioms
      division_rule.integer_rule_interface_axioms multiply_rule.integer_rule_interface_axioms
      quotient_rule.integer_rule_interface_axioms exclusion_rule.integer_rule_interface_axioms
      transport_rule.integer_rule_interface_axioms shift_rule.integer_rule_interface_axioms
      operation_rule.integer_rule_interface_axioms polynomial_rule.integer_rule_interface_axioms
      cast_rule.integer_rule_interface_axioms)

definition rule_node_ok ::
  "'x block_registry \<Rightarrow> ('x bv \<Rightarrow> 'x bv \<Rightarrow> bool) \<Rightarrow> ('x integer \<Rightarrow> nat) \<Rightarrow> 'x valuation \<Rightarrow> 'x rule_node \<Rightarrow> bool"
where
  "rule_node_ok reg below ident \<rho> node \<longleftrightarrow>
     proposition_ok reg \<rho> (node_result node)
     \<and> list_all (admissible_result ident (node_rule node)) (stated_readings reg below (node_result node))"

lemma check_rule_nodes_Inr:
  "check_rule_nodes check index nodes = Inr () \<Longrightarrow> k < length nodes \<Longrightarrow> check (index + k) (nodes ! k) = Inr ()"
proof (induction check index nodes arbitrary: k rule: check_rule_nodes.induct)
  case (2 check index node nodes)
  then show ?case by (cases k) (auto simp: rule_Inr)
qed simp

section \<open>Properties\<close>

text \<open>C3: A certificate of the integer rules that the kernel accepts proves its goal: in
  every meaning in which the premises hold, every node's result holds, and the goal with
  them, for products, quotients, remainders, their bounds and orders, excluded values,
  transported relations, polynomial identities, conversions and machine operations, over
  native comparisons and integer ones alike.\<close>

theorem rules_sound:
  assumes "null_at_zero (machine_values M)"
    and "list_all (proposition_ok reg (machine_values M)) facts"
    and "list_all (rule_node_ok reg below ident (machine_values M)) (rule_nodes certificate)"
    and "list_all (holds M) facts"
    and "check_rules reg below ident certificate goal facts = Inr ()"
  shows "holds M goal \<and> list_all (holds M) (map node_result (rule_nodes certificate))"
proof -
  let ?nodes = "rule_nodes certificate"
  have conclusion: "rule_conclusion certificate < length ?nodes"
    and nodes: "check_rule_nodes (\<lambda>index node. check_rule_node reg below ident index node facts) 0 ?nodes = Inr ()"
    and same: "proposition_identity (node_result (?nodes ! rule_conclusion certificate)) goal"
    using assms(5) by (auto simp: check_rules_def Let_def rule_Inr split: if_splits)
  have "holds M (node_result (?nodes ! k))" if "k < length ?nodes" for k
  proof -
    have node: "rule_node_ok reg below ident (machine_values M) (?nodes ! k)"
      using assms(3) that by (simp add: list_all_length)
    show ?thesis
      using integer_rule_interface.node_holds [OF rule_provides assms(1) _ assms(2,4)] node
        check_rule_nodes_Inr [OF nodes that]
      by (auto simp: rule_node_ok_def check_rule_node_def)
  qed
  then show ?thesis
    using conclusion proposition_identity_eq [OF same] by (auto simp: list_all_length)
qed

text \<open>
  From \<open>0 <= x\<close> and \<open>x <= 5\<close> over a 64-bit word the kernel accepts
  that the exact \<open>x * x\<close> is at most 25.
\<close>

definition sample_square :: "nat rule_certificate" where
  "sample_square = \<lparr>rule_nodes = [\<lparr>node_rule = IntegerProductBounds, node_bounds = [0, 1, 0, 1],
     node_result = ConditionIs (Integer_Relation Op_IntegerLessEqual
       (Int_Multiply (Machine MUInt64 sample_word) (Machine MUInt64 sample_word)) (Int_Constant 25)) True\<rparr>],
     rule_conclusion = 0\<rparr>"

definition sample_floor :: "nat prop_term" where
  "sample_floor = ConditionIs (Integer_Relation Op_IntegerLessEqual (Int_Constant 0) (Machine MUInt64 sample_word)) True"

theorem rules_sound_witness:
  "check_rules bare_registry (\<lambda>_ _. False) (\<lambda>_. 0) sample_square
     (node_result (hd (rule_nodes sample_square))) [sample_floor, sample_bound] = Inr ()
   \<and> holds sample_meaning (node_result (hd (rule_nodes sample_square)))"
proof -
  have accepted: "check_rules bare_registry (\<lambda>_ _. False) (\<lambda>_. 0) sample_square
      (node_result (hd (rule_nodes sample_square))) [sample_floor, sample_bound] = Inr ()"
    by code_simp
  have "proposition_ok reg \<rho> sample_floor" for reg \<rho>
    by (simp add: proposition_ok_def sample_floor_def stated_condition_def)
  moreover have "holds sample_meaning sample_floor"
    by (simp add: sample_floor_def integer_compare_def native_readings)
  moreover have "holds sample_meaning sample_bound"
    by (simp add: sample_bound_def sample_meaning_def compare_value_def sample_word_def zero_valuation_def)
  moreover have "list_all (rule_node_ok bare_registry (\<lambda>_ _. False) (\<lambda>_. 0) (machine_values sample_meaning))
      (rule_nodes sample_square)"
    by (simp add: sample_square_def rule_node_ok_def proposition_ok_def stated_condition_def stated_readings_def
        admissible_result_def native_form_def integer_observations_of_native_comparison_def)
  ultimately show ?thesis
    using rules_sound [OF sample_meaning_null _ _ _ accepted] sample_bound_ok accepted by simp
qed

end
