(* ===== verification/SignedAtoms.thy ===== *)
theory SignedAtoms
  imports IntegerAffine
begin

text \<open>
  The identity that certificates of signed machine arithmetic give a 32-bit term:
  \<^verbatim>\<open>SignedArithmeticAtom\<close> of
  \<^verbatim>\<open>src/src/kernel/proof/signed_arithmetic.rs\<close>, the tokens of the term in prefix
  order. The source walks a term with a stack that visits the prefix order; the walk here is
  the recursion. Equal identities are shown to belong to equal terms.
\<close>

section \<open>Tokens\<close>

datatype atom_token =
    Token_Constant "32 word"
  | Token_Variable variable
  | Narrow64Variable variable
  | Narrow64Expression
  | NativeConstant "64 word"
  | NativeBinary binary_operator
  | Token_PureFunction string nat
  | Token_Binary binary_operator
  | UnaryNot
  | Token_Cast machine_integer_type machine_integer_type

type_synonym signed_atom = "atom_token list"

definition is_bitvector32 :: "binary_operator \<Rightarrow> bool" where
  "is_bitvector32 op \<longleftrightarrow>
     op \<in> {Op_Add, Op_Subtract, Op_Multiply, Op_Divide, Op_UnsignedDivide, Op_Remainder, Op_UnsignedRemainder,
       Op_ShiftLeft, Op_ArithmeticShiftRight, Op_LogicalShiftRight, Op_BitwiseAnd, Op_BitwiseOr, Op_BitwiseXor}"

definition signed_binary :: "binary_operator \<Rightarrow> bool" where
  "signed_binary op \<longleftrightarrow> is_bitvector32 op \<and> op \<notin> {Op_UnsignedDivide, Op_UnsignedRemainder}"

text \<open>A conversion into one or two bytes, from a word that its type does not contain.\<close>

definition narrowed_word_cast :: "machine_integer_type \<Rightarrow> machine_integer_type \<Rightarrow> bool" where
  "narrowed_word_cast source destination \<longleftrightarrow>
     type_bits source \<le> 32 \<and> type_bits destination \<in> {8, 16}
     \<and> \<not> format_contains (type_format destination) (type_format source)"

definition native_operator :: "binary_operator \<Rightarrow> bool" where
  "native_operator op \<longleftrightarrow>
     op \<in> {Op_UInt64Add, Op_UInt64Subtract, Op_UInt64Multiply, Op_UInt64Divide, Op_UInt64Remainder}"

definition tokens_of_both :: "signed_atom option \<Rightarrow> signed_atom option \<Rightarrow> signed_atom option" where
  "tokens_of_both l r = (case (l, r) of (Some xs, Some ys) \<Rightarrow> Some (xs @ ys) | _ \<Rightarrow> None)"

fun native_key :: "'x bv \<Rightarrow> signed_atom option" where
  "native_key (Variable v) = Some [Token_Variable v]"
| "native_key (UInt64Constant w) = Some [NativeConstant w]"
| "native_key (Binary op l r) =
     (if native_operator op
      then map_option ((#) (NativeBinary op)) (tokens_of_both (native_key l) (native_key r)) else None)"
| "native_key _ = None"

fun atom_key :: "'x bv \<Rightarrow> signed_atom option"
  and arguments_key :: "'x bv list \<Rightarrow> signed_atom option"
where
  "atom_key (Constant w) = Some [Token_Constant w]"
| "atom_key (Variable v) = Some [Token_Variable v]"
| "atom_key (Unary op a) =
     (if op = Op_UInt32From64
      then (case a of
              Variable v \<Rightarrow> Some [Narrow64Variable v]
            | _ \<Rightarrow> map_option ((#) Narrow64Expression) (native_key a))
      else if op = Op_BitwiseNot then map_option ((#) UnaryNot) (atom_key a)
      else None)"
| "atom_key (PureFunctionApplication name arguments) =
     map_option ((#) (Token_PureFunction name (length arguments))) (arguments_key arguments)"
| "atom_key (MachineIntegerCast a source destination) =
     (if narrowed_word_cast source destination
      then map_option ((#) (Token_Cast source destination)) (atom_key a) else None)"
| "atom_key (Binary op l r) =
     (if signed_binary op
      then map_option ((#) (Token_Binary op)) (tokens_of_both (atom_key l) (atom_key r)) else None)"
| "atom_key _ = None"
| "arguments_key [] = Some []"
| "arguments_key (a # arguments) = tokens_of_both (atom_key a) (arguments_key arguments)"

text \<open>The first token of an opaque term, and the tokens it may be made of.\<close>

definition opaque_first :: "atom_token \<Rightarrow> bool" where
  "opaque_first token = (case token of
     Token_Variable _ \<Rightarrow> True | Narrow64Variable _ \<Rightarrow> True | Narrow64Expression \<Rightarrow> True
   | Token_PureFunction _ _ \<Rightarrow> True | _ \<Rightarrow> False)"

definition opaque_token :: "atom_token \<Rightarrow> bool" where
  "opaque_token token = (case token of
     Token_Binary _ \<Rightarrow> False | UnaryNot \<Rightarrow> False | Token_Cast _ _ \<Rightarrow> False | _ \<Rightarrow> True)"

definition is_opaque_root :: "signed_atom \<Rightarrow> bool" where
  "is_opaque_root atom \<longleftrightarrow> atom \<noteq> [] \<and> opaque_first (hd atom) \<and> list_all opaque_token atom"

definition as_variable :: "signed_atom \<Rightarrow> variable option" where
  "as_variable atom = (case atom of [Token_Variable v] \<Rightarrow> Some v | _ \<Rightarrow> None)"

definition is_sign_bit_flip :: "signed_atom \<Rightarrow> bool" where
  "is_sign_bit_flip atom \<longleftrightarrow> (case atom of
     Token_Binary op # others \<Rightarrow>
       op = Op_BitwiseXor \<and> others \<noteq> []
       \<and> (hd others = Token_Constant 0x80000000 \<or> last others = Token_Constant 0x80000000)
   | _ \<Rightarrow> False)"

section \<open>Equal identities, equal terms\<close>

lemma tokens_of_both_Some:
  "tokens_of_both l r = Some zs \<longleftrightarrow> (\<exists>xs ys. l = Some xs \<and> r = Some ys \<and> zs = xs @ ys)"
  by (auto simp: tokens_of_both_def split: option.splits)

lemma native_key_heads:
  "native_key u \<noteq> Some []"
  "native_key u = Some (Token_Variable v # js) \<longleftrightarrow> u = Variable v \<and> js = []"
  "native_key u = Some (NativeConstant w # js) \<longleftrightarrow> u = UInt64Constant w \<and> js = []"
  "native_key u = Some (NativeBinary op # js) \<longleftrightarrow>
     (\<exists>l r kl kr. u = Binary op l r \<and> native_operator op \<and> native_key l = Some kl \<and> native_key r = Some kr
       \<and> js = kl @ kr)"
  by (cases u; auto simp: tokens_of_both_Some)+

text \<open>A key followed by anything is a key with the same first token.\<close>

lemma same_head:
  assumes "x # zs = j @ ys" and "j \<noteq> []"
  obtains js where "j = x # js" "zs = js @ ys"
  using assms by (cases j) auto

lemma native_key_prefix:
  fixes t u :: "'x bv"
  shows "native_key t = Some k \<Longrightarrow> native_key u = Some j \<Longrightarrow> k @ xs = j @ ys \<Longrightarrow> t = u \<and> xs = ys"
proof (induction t arbitrary: u k j xs ys rule: native_key.induct)
  case (1 v)
  have "Token_Variable v # xs = j @ ys" using 1(1,3) by (metis native_key.simps(1) append_Cons append_Nil option.inject)
  moreover have "j \<noteq> []" using 1(2) native_key_heads(1) by metis
  ultimately obtain js where "j = Token_Variable v # js" "xs = js @ ys" by (rule same_head)
  then show ?case using 1(2) by (simp add: native_key_heads)
next
  case (2 w)
  have "NativeConstant w # xs = j @ ys" using 2(1,3) by (metis native_key.simps(2) append_Cons append_Nil option.inject)
  moreover have "j \<noteq> []" using 2(2) native_key_heads(1) by metis
  ultimately obtain js where "j = NativeConstant w # js" "xs = js @ ys" by (rule same_head)
  then show ?case using 2(2) by (simp add: native_key_heads)
next
  case (3 op l r)
  obtain kl kr where op: "native_operator op" and k: "k = NativeBinary op # kl @ kr"
    and keys: "native_key l = Some kl" "native_key r = Some kr"
    using 3(3) by (auto simp: tokens_of_both_Some split: if_splits)
  have j: "j \<noteq> []" using 3(4) native_key_heads(1) by metis
  obtain js where js: "j = NativeBinary op # js" "kl @ kr @ xs = js @ ys"
    by (rule same_head [OF _ j]) (use 3(5) k in simp)
  then obtain l' r' jl jr where u: "u = Binary op l' r'" "js = jl @ jr"
    and keys': "native_key l' = Some jl" "native_key r' = Some jr"
    using 3(4) by (auto simp: native_key_heads)
  have "kl @ kr @ xs = jl @ jr @ ys" using js(2) u(2) by simp
  then have "l = l'" "kr @ xs = jr @ ys" using "3.IH"(1) [OF op keys(1) keys'(1)] by blast+
  then show ?case using "3.IH"(2) [OF op keys(2) keys'(2)] u(1) by blast
qed simp_all

lemma atom_key_heads:
  "atom_key u \<noteq> Some []"
  "atom_key u = Some (Token_Constant w # js) \<longleftrightarrow> u = Constant w \<and> js = []"
  "atom_key u = Some (Token_Variable v # js) \<longleftrightarrow> u = Variable v \<and> js = []"
  "atom_key u = Some (Narrow64Variable v # js) \<longleftrightarrow> u = UInt32From64 (Variable v) \<and> js = []"
  "atom_key u = Some (Narrow64Expression # js) \<longleftrightarrow>
     (\<exists>a. u = UInt32From64 a \<and> (\<forall>v. a \<noteq> Variable v) \<and> native_key a = Some js)"
  "atom_key u = Some (UnaryNot # js) \<longleftrightarrow> (\<exists>a. u = BitwiseNot a \<and> atom_key a = Some js)"
  "atom_key u = Some (Token_PureFunction name n # js) \<longleftrightarrow>
     (\<exists>arguments. u = PureFunctionApplication name arguments \<and> length arguments = n
       \<and> arguments_key arguments = Some js)"
  "atom_key u = Some (Token_Cast source destination # js) \<longleftrightarrow>
     (\<exists>a. u = MachineIntegerCast a source destination \<and> narrowed_word_cast source destination
       \<and> atom_key a = Some js)"
  "atom_key u = Some (Token_Binary op # js) \<longleftrightarrow>
     (\<exists>l r kl kr. u = Binary op l r \<and> signed_binary op \<and> atom_key l = Some kl \<and> atom_key r = Some kr
       \<and> js = kl @ kr)"
  by (cases u; auto simp: tokens_of_both_Some split: bv.splits)+

lemma atom_key_prefix:
  fixes t u :: "'x bv" and ts us :: "'x bv list"
  shows "atom_key t = Some k \<Longrightarrow> atom_key u = Some j \<Longrightarrow> k @ xs = j @ ys \<Longrightarrow> t = u \<and> xs = ys"
  "arguments_key ts = Some k \<Longrightarrow> arguments_key us = Some j \<Longrightarrow> k @ xs = j @ ys \<Longrightarrow> length ts = length us
   \<Longrightarrow> ts = us \<and> xs = ys"
proof (induction t and ts arbitrary: u k j xs ys and us k j xs ys rule: atom_key_arguments_key.induct)
  case (1 w)
  have "Token_Constant w # xs = j @ ys" using 1(1,3) by (metis atom_key.simps(1) append_Cons append_Nil option.inject)
  moreover have "j \<noteq> []" using 1(2) atom_key_heads(1) by metis
  ultimately obtain js where "j = Token_Constant w # js" "xs = js @ ys" by (rule same_head)
  then show ?case using 1(2) by (simp add: atom_key_heads)
next
  case (2 v)
  have "Token_Variable v # xs = j @ ys" using 2(1,3) by (metis atom_key.simps(2) append_Cons append_Nil option.inject)
  moreover have "j \<noteq> []" using 2(2) atom_key_heads(1) by metis
  ultimately obtain js where "j = Token_Variable v # js" "xs = js @ ys" by (rule same_head)
  then show ?case using 2(2) by (simp add: atom_key_heads)
next
  case (3 op a)
  have j: "j \<noteq> []" using 3(3) atom_key_heads(1) by metis
  consider (var) v where "op = Op_UInt32From64" "a = Variable v" "k = [Narrow64Variable v]"
    | (expr) ks where "op = Op_UInt32From64" "\<forall>v. a \<noteq> Variable v" "native_key a = Some ks"
        "k = Narrow64Expression # ks"
    | (bits) ks where "op = Op_BitwiseNot" "atom_key a = Some ks" "k = UnaryNot # ks"
    using 3(2) by (auto split: if_splits bv.splits)
  then show ?case
  proof cases
    case (var v)
    obtain js where "j = Narrow64Variable v # js" "xs = js @ ys"
      by (rule same_head [OF _ j]) (use 3(4) var(3) in simp)
    then show ?thesis using 3(3) var(1,2) by (simp add: atom_key_heads)
  next
    case (expr ks)
    obtain js where js: "j = Narrow64Expression # js" "ks @ xs = js @ ys"
      by (rule same_head [OF _ j]) (use 3(4) expr(4) in simp)
    obtain b where "u = UInt32From64 b" "native_key b = Some js"
      using 3(3) js(1) by (auto simp: atom_key_heads)
    then show ?thesis using native_key_prefix [OF expr(3) _ js(2)] expr(1) by simp
  next
    case (bits ks)
    obtain js where js: "j = UnaryNot # js" "ks @ xs = js @ ys"
      by (rule same_head [OF _ j]) (use 3(4) bits(3) in simp)
    obtain b where "u = BitwiseNot b" "atom_key b = Some js"
      using 3(3) js(1) by (auto simp: atom_key_heads)
    then show ?thesis using "3.IH" [OF _ bits(1,2) _ js(2)] bits(1) by simp
  qed
next
  case (4 name arguments)
  obtain ks where ks: "arguments_key arguments = Some ks"
      "k = Token_PureFunction name (length arguments) # ks"
    using 4(2) by auto
  have j: "j \<noteq> []" using 4(3) atom_key_heads(1) by metis
  obtain js where js: "j = Token_PureFunction name (length arguments) # js" "ks @ xs = js @ ys"
    by (rule same_head [OF _ j]) (use 4(4) ks(2) in simp)
  obtain us where "u = PureFunctionApplication name us" "length us = length arguments" "arguments_key us = Some js"
    using 4(3) js(1) by (auto simp: atom_key_heads)
  then show ?case using "4.IH" [OF ks(1) _ js(2)] by simp
next
  case (5 a source destination)
  obtain ks where ks: "narrowed_word_cast source destination" "atom_key a = Some ks"
      "k = Token_Cast source destination # ks"
    using 5(2) by (auto split: if_splits)
  have j: "j \<noteq> []" using 5(3) atom_key_heads(1) by metis
  obtain js where js: "j = Token_Cast source destination # js" "ks @ xs = js @ ys"
    by (rule same_head [OF _ j]) (use 5(4) ks(3) in simp)
  obtain b where "u = MachineIntegerCast b source destination" "atom_key b = Some js"
    using 5(3) js(1) by (auto simp: atom_key_heads)
  then show ?case using "5.IH" [OF ks(1,2) _ js(2)] by simp
next
  case (6 op l r)
  obtain kl kr where op: "signed_binary op" and k: "k = Token_Binary op # kl @ kr"
    and keys: "atom_key l = Some kl" "atom_key r = Some kr"
    using 6(3) by (auto simp: tokens_of_both_Some split: if_splits)
  have j: "j \<noteq> []" using 6(4) atom_key_heads(1) by metis
  obtain js where js: "j = Token_Binary op # js" "kl @ kr @ xs = js @ ys"
    by (rule same_head [OF _ j]) (use 6(5) k in simp)
  then obtain l' r' jl jr where u: "u = Binary op l' r'" "js = jl @ jr"
    and keys': "atom_key l' = Some jl" "atom_key r' = Some jr"
    using 6(4) by (auto simp: atom_key_heads)
  have "kl @ kr @ xs = jl @ jr @ ys" using js(2) u(2) by simp
  then have "l = l'" "kr @ xs = jr @ ys" using "6.IH"(1) [OF op keys(1) keys'(1)] by blast+
  then show ?case using "6.IH"(2) [OF op keys(2) keys'(2)] u(1) by blast
next
  case (9 a arguments)
  obtain ka ks where keys: "atom_key a = Some ka" "arguments_key arguments = Some ks" and k: "k = ka @ ks"
    using "9.prems"(1) by (auto simp: tokens_of_both_Some)
  obtain b bs where us: "us = b # bs" "length arguments = length bs" using "9.prems"(4) by (cases us) auto
  obtain ja js where keys': "atom_key b = Some ja" "arguments_key bs = Some js" and j: "j = ja @ js"
    using "9.prems"(2) by (auto simp: us tokens_of_both_Some)
  have "ka @ ks @ xs = ja @ js @ ys" using "9.prems"(3) k j by simp
  then have "a = b" "ks @ xs = js @ ys" using "9.IH"(1) [OF keys(1) keys'(1)] by blast+
  then show ?case using "9.IH"(2) [OF keys(2) keys'(2) _ us(2)] us(1) by blast
qed simp_all

lemma atom_key_inject: "atom_key t = Some k \<Longrightarrow> atom_key u = Some k \<Longrightarrow> t = u"
  using atom_key_prefix(1) [of t k u k "[]" "[]"] by simp

text \<open>The term behind an identity.\<close>

definition atom_term :: "signed_atom \<Rightarrow> 'x bv" where
  "atom_term k = (THE t. atom_key t = Some k)"

lemma atom_term: "atom_key t = Some k \<Longrightarrow> atom_term k = t"
  unfolding atom_term_def by (rule the_equality) (auto intro: atom_key_inject)

end
