(* ===== verification/SignedClaims.thy ===== *)
theory SignedClaims
  imports SignedAtoms
begin

text \<open>
  Claims of signed machine arithmetic (\<^verbatim>\<open>SignedArithmeticClaim\<close> of
  \<^verbatim>\<open>src/src/kernel/proof/signed_arithmetic.rs\<close>): an affine form over 32-bit terms,
  each read as a signed number, that is at most zero, zero or not zero; their arithmetic and
  the claim a comparison states. The canonical form of a term names the loads in it by their
  registered variables; it is a parameter, because it asks the memory model.
\<close>

section \<open>Claims\<close>

datatype signed_carrier = SignedInt32 | SignedInt64 | UnsignedInt32 | UnsignedInt64

datatype signed_relation = Signed_LessEqual | Signed_Equal | Signed_Disequal

record signed_claim =
  sc_carrier :: signed_carrier
  sc_relation :: signed_relation
  sc_terms :: "signed_atom linear"
  sc_constant :: int

definition signed_min :: int where "signed_min = - (2 ^ 31)"
definition signed_max :: int where "signed_max = 2 ^ 31 - 1"

text \<open>Unlike the claims over exact integers, a scaled claim keeps the terms it cancels.\<close>

definition scale_signed :: "signed_claim \<Rightarrow> int \<Rightarrow> signed_claim" where
  "scale_signed claim k =
     claim\<lparr>sc_terms := fmmap (\<lambda>c. c * k) (sc_terms claim), sc_constant := sc_constant claim * k\<rparr>"

definition add_signed :: "signed_claim \<Rightarrow> signed_claim \<Rightarrow> signed_claim option" where
  "add_signed left right =
     (if sc_carrier left \<noteq> sc_carrier right then None
      else Some (left\<lparr>sc_terms := add_terms (sc_terms left) (sc_terms right),
        sc_constant := sc_constant left + sc_constant right\<rparr>))"

definition negate_signed :: "signed_claim \<Rightarrow> signed_relation \<Rightarrow> signed_claim" where
  "negate_signed claim relation =
     claim\<lparr>sc_relation := relation, sc_terms := fmmap uminus (sc_terms claim),
       sc_constant := - sc_constant claim\<rparr>"

text \<open>Whether two forms are the same or each other's negation.\<close>

definition opposite_forms :: "signed_claim \<Rightarrow> signed_claim \<Rightarrow> bool" where
  "opposite_forms a b \<longleftrightarrow>
     sc_constant a = - sc_constant b \<and> sc_terms a = fmmap uminus (sc_terms b)"

definition strict_from_disequal :: "signed_claim \<Rightarrow> signed_claim \<Rightarrow> signed_claim option" where
  "strict_from_disequal bound disequal =
     (if sc_carrier bound \<noteq> sc_carrier disequal then None
      else if sc_terms bound = sc_terms disequal \<and> sc_constant bound = sc_constant disequal
        \<or> opposite_forms bound disequal
      then Some (bound\<lparr>sc_relation := Signed_LessEqual, sc_constant := sc_constant bound + 1\<rparr>)
      else None)"

definition equality_from_bounds :: "signed_claim \<Rightarrow> signed_claim \<Rightarrow> signed_claim option" where
  "equality_from_bounds lower upper =
     (if sc_carrier lower \<noteq> sc_carrier upper then None
      else if \<not> opposite_forms lower upper then None
      else Some (lower\<lparr>sc_relation := Signed_Equal\<rparr>))"

definition is_int32_range_bound :: "signed_claim \<Rightarrow> bool" where
  "is_int32_range_bound claim \<longleftrightarrow>
     sc_relation claim = Signed_LessEqual \<and> fcard (fmdom (sc_terms claim)) = 1
     \<and> fmpred (\<lambda>atom c. is_opaque_root atom
          \<and> (c = 1 \<and> sc_constant claim = - signed_max \<or> c = - 1 \<and> sc_constant claim = signed_min))
        (sc_terms claim)"

text \<open>The bound a planner asks for, of one variable on one side.\<close>

definition int32_range_bound :: "signed_atom \<Rightarrow> bool \<Rightarrow> signed_claim option" where
  "int32_range_bound atom upper =
     (case as_variable atom of
        None \<Rightarrow> None
      | Some _ \<Rightarrow>
          (let (c, k) = (if upper then (1, - signed_max) else (- 1, signed_min)) in
           Some \<lparr>sc_carrier = SignedInt32, sc_relation = Signed_LessEqual, sc_terms = fmupd atom c fmempty,
             sc_constant = k\<rparr>))"

definition is_trivial :: "signed_claim \<Rightarrow> bool" where
  "is_trivial claim \<longleftrightarrow>
     sc_terms claim = fmempty
     \<and> (case sc_relation claim of
          Signed_LessEqual \<Rightarrow> sc_constant claim \<le> 0
        | Signed_Equal \<Rightarrow> sc_constant claim = 0
        | Signed_Disequal \<Rightarrow> sc_constant claim \<noteq> 0)"

definition trivially_true_claims :: "signed_claim \<Rightarrow> signed_claim \<Rightarrow> bool" where
  "trivially_true_claims left right \<longleftrightarrow>
     sc_carrier left = sc_carrier right \<and> is_trivial left \<and> is_trivial right"

text \<open>The interval that a bound on one atom leaves it.\<close>

definition affine_term_bounds :: "signed_claim \<Rightarrow> signed_atom \<Rightarrow> (int \<times> int) option" where
  "affine_term_bounds claim atom =
     (if sc_relation claim \<noteq> Signed_LessEqual then None
      else
        (case fmlookup (sc_terms claim) atom of
           None \<Rightarrow> None
         | Some c \<Rightarrow>
             if sc_terms claim \<noteq> fmupd atom c fmempty then None
             else if c = 1 then
               (if - sc_constant claim < signed_min then None
                else Some (signed_min, min (- sc_constant claim) signed_max))
             else if c = - 1 then
               (if sc_constant claim > signed_max then None
                else Some (max (sc_constant claim) signed_min, signed_max))
             else None))"

definition same_int32_claim :: "signed_claim \<Rightarrow> signed_claim \<Rightarrow> bool" where
  "same_int32_claim expected actual \<longleftrightarrow> expected = actual \<and> sc_carrier expected = SignedInt32"

section \<open>The claim of a comparison\<close>

text \<open>
  A comparison as its relation, its smaller and larger side and whether it is strict; a
  comparison filed false is turned round.
\<close>

definition signed_comparison ::
  "'x condition \<times> bool \<Rightarrow> (signed_relation \<times> 'x bv \<times> 'x bv \<times> bool) option" where
  "signed_comparison stated = (case stated of
     (Native (Compare op left right), value) \<Rightarrow>
       (case op of
          Op_Bitvector32SignedLessThan \<Rightarrow>
            Some (if value then (Signed_LessEqual, left, right, True) else (Signed_LessEqual, right, left, False))
        | Op_Bitvector32SignedLessEqual \<Rightarrow>
            Some (if value then (Signed_LessEqual, left, right, False) else (Signed_LessEqual, right, left, True))
        | Op_Bitvector32SignedGreaterThan \<Rightarrow>
            Some (if value then (Signed_LessEqual, right, left, True) else (Signed_LessEqual, left, right, False))
        | Op_Bitvector32SignedGreaterEqual \<Rightarrow>
            Some (if value then (Signed_LessEqual, right, left, False) else (Signed_LessEqual, left, right, True))
        | Op_Bitvector32Equal \<Rightarrow>
            Some (if value then Signed_Equal else Signed_Disequal, left, right, False)
        | _ \<Rightarrow> None)
   | _ \<Rightarrow> None)"

type_synonym signed_form = "signed_atom linear \<times> int"

definition signed_claim_of :: "signed_relation \<Rightarrow> bool \<Rightarrow> signed_form \<Rightarrow> signed_claim" where
  "signed_claim_of relation strict = (\<lambda>(terms, k).
     \<lparr>sc_carrier = SignedInt32, sc_relation = relation, sc_terms = terms,
      sc_constant = (if strict then k + 1 else k)\<rparr>)"

text \<open>One side of a comparison, with its sign, added to the form.\<close>

definition affine_side :: "('x bv \<Rightarrow> 'x bv) \<Rightarrow> int \<Rightarrow> 'x bv \<Rightarrow> signed_form \<Rightarrow> signed_form option" where
  "affine_side canonical k t = (\<lambda>(terms, constant). case t of
     Constant w \<Rightarrow> Some (terms, constant + k * sint w)
   | _ \<Rightarrow> map_option (\<lambda>atom. (add_coefficient atom k terms, constant)) (atom_key (canonical t)))"

definition signed_difference :: "('x bv \<Rightarrow> 'x bv) \<Rightarrow> 'x bv \<Rightarrow> 'x bv \<Rightarrow> signed_form option" where
  "signed_difference canonical left right =
     Option.bind (affine_side canonical (- 1) right (fmempty, 0)) (affine_side canonical 1 left)"

definition affine_claim :: "('x bv \<Rightarrow> 'x bv) \<Rightarrow> 'x prop_term \<Rightarrow> signed_claim option" where
  "affine_claim canonical p = (case stated_condition p of
     None \<Rightarrow> None
   | Some stated \<Rightarrow>
       (case stated of
          (Native (Cond_Constant b), value) \<Rightarrow>
            Some (signed_claim_of Signed_Equal False (fmempty, if b = value then 0 else 1))
        | _ \<Rightarrow>
            (case signed_comparison stated of
               None \<Rightarrow> None
             | Some (relation, left, right, strict) \<Rightarrow>
                 map_option (signed_claim_of relation strict) (signed_difference canonical left right))))"

definition propositions_match :: "('x bv \<Rightarrow> 'x bv) \<Rightarrow> 'x prop_term \<Rightarrow> 'x prop_term \<Rightarrow> bool" where
  "propositions_match canonical left right =
     (case (affine_claim canonical left, affine_claim canonical right) of
        (Some a, Some b) \<Rightarrow> a = b
      | _ \<Rightarrow> False)"

section \<open>What a claim says\<close>

definition signed_number :: "'x valuation \<Rightarrow> 'x bv \<Rightarrow> int" where
  "signed_number \<rho> t = sint (low32 (bv_value \<rho> t))"

definition atom_reading :: "'x valuation \<Rightarrow> signed_atom \<Rightarrow> int" where
  "atom_reading \<rho> atom = signed_number \<rho> (atom_term atom)"

definition form_value :: "'x valuation \<Rightarrow> signed_form \<Rightarrow> int" where
  "form_value \<rho> form = worth (atom_reading \<rho>) (fst form) + snd form"

definition signed_worth :: "'x valuation \<Rightarrow> signed_claim \<Rightarrow> int" where
  "signed_worth \<rho> claim = form_value \<rho> (sc_terms claim, sc_constant claim)"

definition signed_holds :: "'x valuation \<Rightarrow> signed_claim \<Rightarrow> bool" where
  "signed_holds \<rho> claim \<longleftrightarrow> (case sc_relation claim of
     Signed_LessEqual \<Rightarrow> signed_worth \<rho> claim \<le> 0
   | Signed_Equal \<Rightarrow> signed_worth \<rho> claim = 0
   | Signed_Disequal \<Rightarrow> signed_worth \<rho> claim \<noteq> 0)"

text \<open>
  The canonical form keeps the value of every term, in a valuation that gives a registered
  variable the value of its load, and rebuilds a 32-bit operation from the canonical forms
  of its operands.
\<close>

definition canonical_ok :: "('x bv \<Rightarrow> 'x bv) \<Rightarrow> 'x valuation \<Rightarrow> bool" where
  "canonical_ok canonical \<rho> \<longleftrightarrow>
     (\<forall>t. signed_number \<rho> (canonical t) = signed_number \<rho> t)
     \<and> (\<forall>op l r. is_bitvector32 op \<longrightarrow> canonical (Binary op l r) = Binary op (canonical l) (canonical r))"

lemma signed_number_range: "signed_min \<le> signed_number \<rho> t" "signed_number \<rho> t \<le> signed_max"
  using sint_range_size [of "low32 (bv_value \<rho> t)"]
  by (simp_all add: signed_number_def signed_min_def signed_max_def word_size)

lemma atom_reading_range: "signed_min \<le> atom_reading \<rho> atom" "atom_reading \<rho> atom \<le> signed_max"
  by (simp_all add: atom_reading_def signed_number_range)

lemma signed_number_Constant [simp]: "signed_number \<rho> (Constant w) = sint w"
  by (simp add: signed_number_def)

lemma atom_reading_key: "atom_key t = Some atom \<Longrightarrow> atom_reading \<rho> atom = signed_number \<rho> t"
  by (simp add: atom_reading_def atom_term)

lemma atom_reading_canonical:
  "canonical_ok canonical \<rho> \<Longrightarrow> atom_key (canonical t) = Some atom \<Longrightarrow> atom_reading \<rho> atom = signed_number \<rho> t"
  by (simp add: atom_reading_key canonical_ok_def)

lemma form_value_pair [simp]: "form_value \<rho> (terms, k) = worth (atom_reading \<rho>) terms + k"
  by (simp add: form_value_def)

lemma affine_side_value:
  assumes "canonical_ok canonical \<rho>" and "affine_side canonical k t form = Some form'"
  shows "form_value \<rho> form' = form_value \<rho> form + k * signed_number \<rho> t"
  using assms(2) atom_reading_canonical [OF assms(1), of t]
  by (cases form) (auto simp: affine_side_def worth_add_coefficient split: bv.splits)

lemma signed_difference_value:
  assumes "canonical_ok canonical \<rho>" and "signed_difference canonical left right = Some form"
  shows "form_value \<rho> form = signed_number \<rho> left - signed_number \<rho> right"
proof -
  obtain middle where "affine_side canonical (- 1) right (fmempty, 0) = Some middle"
      "affine_side canonical 1 left middle = Some form"
    using assms(2) by (auto simp: signed_difference_def bind_eq_Some_conv)
  then show ?thesis
    using affine_side_value [OF assms(1), of "- 1" right "(fmempty, 0)" middle]
      affine_side_value [OF assms(1), of 1 left middle form]
    by simp
qed

lemma signed_worth_of: "signed_worth \<rho> (signed_claim_of relation strict form) = form_value \<rho> form + of_bool strict"
  by (cases form) (simp add: signed_worth_def signed_claim_of_def)

lemma signed_relation_of [simp]: "sc_relation (signed_claim_of relation strict form) = relation"
  "sc_carrier (signed_claim_of relation strict form) = SignedInt32"
  by (cases form; simp add: signed_claim_of_def)+

lemma sint_low32_eq_iff: "signed_number \<rho> l = signed_number \<rho> r \<longleftrightarrow> low32 (bv_value \<rho> l) = low32 (bv_value \<rho> r)"
  by (auto simp: signed_number_def intro: signed_word_eqI)

lemma signed_comparison_holds:
  assumes "signed_comparison (c, value) = Some (relation, left, right, strict)"
    and "form_value (machine_values M) form = signed_number (machine_values M) left - signed_number (machine_values M) right"
  shows "signed_holds (machine_values M) (signed_claim_of relation strict form) \<longleftrightarrow> condition_value M c = value"
  using assms sint_low32_eq_iff [of "machine_values M" left right]
  by (auto simp: signed_comparison_def signed_holds_def signed_worth_of compare_value_def signed_number_def
      split: condition.splits cond.splits comparison.splits if_splits)

lemma affine_claim_holds:
  assumes "canonical_ok canonical (machine_values M)" and "affine_claim canonical p = Some claim"
  shows "signed_holds (machine_values M) claim \<longleftrightarrow> holds M p"
proof -
  obtain c v where stated: "stated_condition p = Some (c, v)"
    using assms(2) by (auto simp: affine_claim_def split: option.splits)
  have "signed_holds (machine_values M) claim \<longleftrightarrow> condition_value M c = v"
  proof (cases "\<exists>b. c = Native (Cond_Constant b)")
    case True
    then show ?thesis
      using assms(2) by (auto simp: affine_claim_def stated signed_holds_def signed_worth_of split: if_splits)
  next
    case False
    then obtain relation left right strict form where
        "signed_comparison (c, v) = Some (relation, left, right, strict)"
        "signed_difference canonical left right = Some form" "claim = signed_claim_of relation strict form"
      using assms(2)
      by (auto simp: affine_claim_def stated split: option.splits condition.splits cond.splits)
    then show ?thesis
      using signed_comparison_holds signed_difference_value [OF assms(1)] by blast
  qed
  then show ?thesis using stated_condition_holds [OF stated] by simp
qed

section \<open>The arithmetic of claims\<close>

lemma signed_worth_scale: "signed_worth \<rho> (scale_signed claim k) = k * signed_worth \<rho> claim"
  using worth_linear [of "fmmap (\<lambda>c. c * k) (sc_terms claim)" k "sc_terms claim" 0 fmempty "atom_reading \<rho>"]
  by (simp add: signed_worth_def scale_signed_def algebra_simps)

lemma scale_signed_holds:
  assumes "signed_holds \<rho> claim" and "sc_relation claim = Signed_LessEqual \<Longrightarrow> 0 \<le> k"
    and "sc_relation claim = Signed_Disequal \<Longrightarrow> k \<noteq> 0"
  shows "signed_holds \<rho> (scale_signed claim k)"
proof -
  have "sc_relation (scale_signed claim k) = sc_relation claim" by (simp add: scale_signed_def)
  then show ?thesis
    using assms mult_nonneg_nonpos [of k "signed_worth \<rho> claim"]
    by (cases "sc_relation claim") (auto simp: signed_holds_def signed_worth_scale)
qed

lemma add_signed_holds:
  assumes "signed_holds \<rho> left" "signed_holds \<rho> right" "sc_relation left = sc_relation right"
    "sc_relation left \<noteq> Signed_Disequal" "add_signed left right = Some claim"
  shows "signed_holds \<rho> claim"
proof -
  have "signed_worth \<rho> claim = signed_worth \<rho> left + signed_worth \<rho> right" "sc_relation claim = sc_relation left"
    using assms(5) by (auto simp: add_signed_def signed_worth_def worth_add_terms split: if_splits)
  then show ?thesis using assms(1-4) by (cases "sc_relation left") (auto simp: signed_holds_def)
qed

lemma signed_worth_opposite: "opposite_forms a b \<Longrightarrow> signed_worth \<rho> a = - signed_worth \<rho> b"
  by (simp add: opposite_forms_def signed_worth_def worth_uminus)

lemma equality_signed_holds:
  assumes "signed_holds \<rho> claim" and "sc_relation claim = Signed_Equal"
  shows "signed_holds \<rho> (negate_signed claim Signed_LessEqual)"
    and "signed_holds \<rho> (claim\<lparr>sc_relation := Signed_LessEqual\<rparr>)"
  using assms by (simp_all add: signed_holds_def signed_worth_def negate_signed_def worth_uminus)

lemma equality_from_bounds_holds:
  assumes "signed_holds \<rho> lower" "signed_holds \<rho> upper" "sc_relation lower = Signed_LessEqual"
    "sc_relation upper = Signed_LessEqual" "equality_from_bounds lower upper = Some claim"
  shows "signed_holds \<rho> claim"
  using assms signed_worth_opposite [of lower upper \<rho>]
  by (auto simp: equality_from_bounds_def signed_holds_def signed_worth_def split: if_splits)

lemma strict_from_disequal_holds:
  assumes "signed_holds \<rho> bound" "signed_holds \<rho> disequal" "sc_relation bound = Signed_LessEqual"
    "sc_relation disequal = Signed_Disequal" "strict_from_disequal bound disequal = Some claim"
  shows "signed_holds \<rho> claim"
proof -
  have "signed_worth \<rho> bound = signed_worth \<rho> disequal \<or> signed_worth \<rho> bound = - signed_worth \<rho> disequal"
    using assms(5) signed_worth_opposite [of bound disequal \<rho>]
    by (auto simp: strict_from_disequal_def signed_worth_def split: if_splits)
  moreover have "signed_worth \<rho> claim = signed_worth \<rho> bound + 1" "sc_relation claim = Signed_LessEqual"
    using assms(5) by (auto simp: strict_from_disequal_def signed_worth_def split: if_splits)
  ultimately show ?thesis using assms(1-4) by (auto simp: signed_holds_def)
qed

lemma trivial_signed_holds: "is_trivial claim \<Longrightarrow> signed_holds \<rho> claim"
  by (auto simp: is_trivial_def signed_holds_def signed_worth_def split: signed_relation.splits)

lemma range_bound_holds:
  assumes "is_int32_range_bound claim"
  shows "signed_holds \<rho> claim"
proof -
  have "card (fmdom' (sc_terms claim)) = 1"
    using assms by (simp add: is_int32_range_bound_def fcard.rep_eq fmdom'_alt_def)
  then obtain atom where dom: "fmdom' (sc_terms claim) = {atom}" by (rule card_1_singletonE)
  then obtain c where c: "fmlookup (sc_terms claim) atom = Some c" by (metis fmlookup_dom'_iff insertI1)
  have terms: "sc_terms claim = fmupd atom c fmempty"
  proof (rule fmap_ext)
    show "fmlookup (sc_terms claim) a = fmlookup (fmupd atom c fmempty) a" for a
      using dom c fmdom'_notD [of a "sc_terms claim"] by (cases "a = atom") auto
  qed
  have "c = 1 \<and> sc_constant claim = - signed_max \<or> c = - 1 \<and> sc_constant claim = signed_min"
    using assms c by (auto simp: is_int32_range_bound_def fmpred_iff)
  then show ?thesis
    using assms atom_reading_range [of \<rho> atom]
    by (auto simp: signed_holds_def signed_worth_def terms worth_singleton is_int32_range_bound_def)
qed

text \<open>A planner's bound is one the checker takes.\<close>

lemma int32_range_bound_accepted:
  assumes "int32_range_bound atom upper = Some claim"
  shows "is_int32_range_bound claim \<and> sc_carrier claim = SignedInt32"
proof -
  obtain v where "atom = [Token_Variable v]"
    using assms by (auto simp: int32_range_bound_def as_variable_def split: list.splits atom_token.splits)
  then have "is_opaque_root atom" "as_variable atom \<noteq> None"
    by (simp_all add: is_opaque_root_def opaque_first_def opaque_token_def as_variable_def)
  then show ?thesis
    using assms
    by (cases upper) (auto simp: int32_range_bound_def is_int32_range_bound_def fcard.rep_eq fmpred_iff split: if_splits)
qed

lemma affine_term_bounds_hold:
  assumes "affine_term_bounds claim atom = Some (lower, upper)" and "signed_holds \<rho> claim"
  shows "signed_min \<le> lower \<and> lower \<le> atom_reading \<rho> atom \<and> atom_reading \<rho> atom \<le> upper \<and> upper \<le> signed_max"
proof -
  obtain c where "sc_terms claim = fmupd atom c fmempty" "sc_relation claim = Signed_LessEqual"
      "c = 1 \<and> lower = signed_min \<and> upper = min (- sc_constant claim) signed_max
        \<or> c = - 1 \<and> lower = max (sc_constant claim) signed_min \<and> upper = signed_max"
    using assms(1) by (auto simp: affine_term_bounds_def split: if_splits option.splits)
  then show ?thesis
    using assms(2) atom_reading_range [of \<rho> atom]
    by (auto simp: signed_holds_def signed_worth_def worth_singleton)
qed

end
