(* ===== verification/SignedIntervals.thy ===== *)
theory SignedIntervals
  imports SignedClaims IntervalOps
begin

unbundle bit_operations_syntax

text \<open>
  Intervals of signed 32-bit terms and the terms they are about
  (\<^verbatim>\<open>SignedArithmeticInterval\<close>, \<^verbatim>\<open>TermArena\<close> and the interval rules of
  \<^verbatim>\<open>src/src/kernel/proof/signed_arithmetic.rs\<close>). The source keeps checked terms in an
  arena and names them by index; a checked term here is the tree behind its index. The
  arena's \<^verbatim>\<open>equivalent\<close> compares two trees and remembers the answers, so here it is
  equality.
\<close>

section \<open>Intervals\<close>

record signed_interval =
  si_carrier :: signed_carrier
  si_lower :: int
  si_upper :: int

datatype signed_error =
    Signed_InvalidPremise nat
  | Signed_InvalidNodeReference nat
  | Signed_UnsupportedCarrier
  | Signed_UnsupportedPremise nat
  | Signed_InvalidDefinedness nat
  | Signed_InvalidOperator nat
  | Signed_InvalidCoefficient nat
  | Signed_InvalidEndpoint nat
  | Signed_InvalidRelation nat
  | Signed_NodeResultMismatch nat
  | Signed_Overflow nat
  | Signed_DoesNotFollow

definition int32_interval :: "int \<Rightarrow> int \<Rightarrow> signed_interval" where
  "int32_interval lower upper = \<lparr>si_carrier = SignedInt32, si_lower = lower, si_upper = upper\<rparr>"

definition interval_checked :: "nat \<Rightarrow> int \<Rightarrow> int \<Rightarrow> signed_error + signed_interval" where
  "interval_checked node lower upper =
     (if lower < signed_min \<or> upper > signed_max \<or> lower > upper then Inl (Signed_Overflow node)
      else Inr (int32_interval lower upper))"

definition interval_add ::
  "signed_interval \<Rightarrow> signed_interval \<Rightarrow> nat \<Rightarrow> bool \<Rightarrow> signed_error + signed_interval" where
  "interval_add left right node has_exact_definedness =
     (let lower = si_lower left + si_lower right; upper = si_upper left + si_upper right in
      if has_exact_definedness then interval_checked node (max lower signed_min) (min upper signed_max)
      else interval_checked node lower upper)"

definition interval_subtract ::
  "signed_interval \<Rightarrow> signed_interval \<Rightarrow> nat \<Rightarrow> signed_error + signed_interval" where
  "interval_subtract left right node =
     interval_checked node (si_lower left - si_upper right) (si_upper left - si_lower right)"

definition interval_multiply ::
  "signed_interval \<Rightarrow> signed_interval \<Rightarrow> nat \<Rightarrow> signed_error + signed_interval" where
  "interval_multiply left right node =
     (let (lower, upper) = corner_interval (*) (si_lower left, si_upper left) (si_lower right, si_upper right)
      in interval_checked node lower upper)"

definition interval_remainder_add ::
  "signed_interval \<Rightarrow> signed_interval \<Rightarrow> 32 word \<Rightarrow> 32 word \<Rightarrow> nat \<Rightarrow> signed_error + signed_interval" where
  "interval_remainder_add operand rest addend divisor node =
     (let a = sint addend; d = sint divisor in
      if si_carrier operand \<noteq> SignedInt32 \<or> si_carrier rest \<noteq> SignedInt32
        \<or> d \<le> 0 \<or> si_lower operand < 0 \<or> si_upper operand > signed_max
        \<or> si_lower operand > si_upper operand \<or> si_lower rest > si_upper rest
        \<or> si_lower operand + a < 0 \<or> si_upper operand + a > signed_max
        \<or> si_lower rest < 0 \<or> si_upper rest \<ge> d
      then Inl (Signed_InvalidOperator node)
      else
        (let lower = si_lower rest + a; upper = si_upper rest + a in
         if lower div d \<noteq> upper div d then Inl (Signed_InvalidOperator node)
         else interval_checked node (lower mod d) (upper mod d)))"

definition interval_remainder :: "signed_interval \<Rightarrow> 32 word \<Rightarrow> nat \<Rightarrow> signed_error + signed_interval" where
  "interval_remainder operand divisor node =
     (if divisor = 0 then Inl (Signed_InvalidOperator node)
      else
        (let magnitude = \<bar>sint divisor\<bar> - 1 in
         if si_lower operand \<ge> 0 then interval_checked node 0 magnitude
         else if si_upper operand < 0 then interval_checked node (- magnitude) 0
         else interval_checked node (- magnitude) magnitude))"

definition interval_shift_left :: "signed_interval \<Rightarrow> 32 word \<Rightarrow> nat \<Rightarrow> signed_error + signed_interval" where
  "interval_shift_left operand shift node =
     (if \<not> (0 \<le> sint shift \<and> sint shift < 32) \<or> si_lower operand < 0 then Inl (Signed_InvalidOperator node)
      else
        (let factor = 2 ^ unat shift in
         interval_checked node (si_lower operand * factor) (si_upper operand * factor)))"

definition interval_shift_right :: "signed_interval \<Rightarrow> 32 word \<Rightarrow> nat \<Rightarrow> signed_error + signed_interval" where
  "interval_shift_right operand shift node =
     (if \<not> (0 \<le> sint shift \<and> sint shift < 32) then Inl (Signed_InvalidOperator node)
      else
        (let shifted = (\<lambda>v. sint (signed_drop_bit (unat shift) (word_of_int v :: 32 word))) in
         Inr (operand\<lparr>si_lower := shifted (si_lower operand), si_upper := shifted (si_upper operand)\<rparr>)))"

definition interval_mask :: "signed_interval \<Rightarrow> 32 word \<Rightarrow> nat \<Rightarrow> signed_error + signed_interval" where
  "interval_mask operand m node =
     (if uint m > signed_max then Inl (Signed_InvalidOperator node)
      else Inr (operand\<lparr>si_lower := 0, si_upper := sint m\<rparr>))"

definition interval_narrowed ::
  "signed_interval \<Rightarrow> machine_integer_type \<Rightarrow> machine_integer_type \<Rightarrow> nat \<Rightarrow> signed_error + signed_interval" where
  "interval_narrowed operand source destination node =
     (if \<not> narrowed_word_cast source destination then Inl (Signed_InvalidOperator node)
      else
        (let (lo, hi) = format_bounds (type_format destination);
             floor = (if source = MUInt32 then max lo 0 else lo) in
         if si_carrier operand \<noteq> SignedInt32 \<or> si_lower operand < floor \<or> si_upper operand > hi
         then Inl (Signed_InvalidEndpoint node)
         else Inr operand))"

definition interval_sign_flip :: "signed_interval \<Rightarrow> signed_interval" where
  "interval_sign_flip operand =
     (let (lower, upper) =
        (if si_lower operand \<ge> 0 then (si_lower operand + signed_min, si_upper operand + signed_min)
         else if si_upper operand < 0 then (si_lower operand - signed_min, si_upper operand - signed_min)
         else (signed_min, signed_max))
      in operand\<lparr>si_lower := lower, si_upper := upper\<rparr>)"

datatype signed_order = Order_Less | Order_Less_Equal | Order_Equal | Order_Disequal

definition interval_proves :: "signed_interval \<Rightarrow> signed_interval \<Rightarrow> signed_order \<Rightarrow> bool" where
  "interval_proves left right order = (case order of
     Order_Less \<Rightarrow> si_upper left < si_lower right
   | Order_Less_Equal \<Rightarrow> si_upper left \<le> si_lower right
   | Order_Equal \<Rightarrow>
       si_lower left = si_upper left \<and> si_lower left = si_lower right \<and> si_lower right = si_upper right
   | Order_Disequal \<Rightarrow> si_upper left < si_lower right \<or> si_upper right < si_lower left)"

section \<open>Checked terms\<close>

datatype checked_operator =
    Checked_Add | Checked_Subtract | Checked_Multiply | Checked_Remainder
  | Checked_ShiftLeft | Checked_ArithmeticShiftRight | Checked_BitwiseAnd | Checked_BitwiseXor

datatype checked_term =
    Checked_Atom signed_atom
  | Checked_Binary checked_operator checked_term checked_term
  | Checked_Cast machine_integer_type machine_integer_type checked_term

definition machine_operator :: "checked_operator \<Rightarrow> binary_operator" where
  "machine_operator op = (case op of
     Checked_Add \<Rightarrow> Op_Add | Checked_Subtract \<Rightarrow> Op_Subtract | Checked_Multiply \<Rightarrow> Op_Multiply
   | Checked_Remainder \<Rightarrow> Op_Remainder | Checked_ShiftLeft \<Rightarrow> Op_ShiftLeft
   | Checked_ArithmeticShiftRight \<Rightarrow> Op_ArithmeticShiftRight | Checked_BitwiseAnd \<Rightarrow> Op_BitwiseAnd
   | Checked_BitwiseXor \<Rightarrow> Op_BitwiseXor)"

definition constant_atom :: "32 word \<Rightarrow> checked_term" where
  "constant_atom w = Checked_Atom [Token_Constant w]"

fun explicit_matches :: "checked_term \<Rightarrow> 'x bv \<Rightarrow> bool" where
  "explicit_matches (Checked_Atom atom) t \<longleftrightarrow> atom_key t = Some atom"
| "explicit_matches (Checked_Binary op l r) t = (case t of
     Binary op' a b \<Rightarrow> op' = machine_operator op \<and> explicit_matches l a \<and> explicit_matches r b
   | _ \<Rightarrow> False)"
| "explicit_matches (Checked_Cast source destination a) t = (case t of
     MachineIntegerCast b source' destination' \<Rightarrow>
       source = source' \<and> destination = destination' \<and> explicit_matches a b
   | _ \<Rightarrow> False)"

definition equivalent_explicit :: "('x bv \<Rightarrow> 'x bv) \<Rightarrow> checked_term \<Rightarrow> 'x bv \<Rightarrow> bool" where
  "equivalent_explicit canonical reference explicit \<longleftrightarrow> explicit_matches reference (canonical explicit)"

text \<open>An exclusive or with the sign bit may name its operands in either order.\<close>

definition sign_bit :: "32 word" where
  "sign_bit = push_bit 31 1"

definition equivalent_with_sign_flip :: "('x bv \<Rightarrow> 'x bv) \<Rightarrow> checked_term \<Rightarrow> 'x bv \<Rightarrow> bool" where
  "equivalent_with_sign_flip canonical reference explicit \<longleftrightarrow>
     equivalent_explicit canonical reference explicit
     \<or> (case (reference, explicit) of
          (Checked_Binary op l r, Binary op' a b) \<Rightarrow>
            op = Checked_BitwiseXor \<and> op' = Op_BitwiseXor
            \<and> (as_const a = Some sign_bit \<and> equivalent_explicit canonical r a \<and> equivalent_explicit canonical l b
               \<or> as_const b = Some sign_bit \<and> equivalent_explicit canonical l b
                 \<and> equivalent_explicit canonical r a)
        | _ \<Rightarrow> False)"

text \<open>A shift to the right of a number that stays non-negative is no larger than it.\<close>

definition term_interval_proves ::
  "checked_term \<Rightarrow> checked_term \<Rightarrow> signed_interval \<Rightarrow> signed_order \<Rightarrow> bool" where
  "term_interval_proves left right interval order \<longleftrightarrow>
     order = Order_Less_Equal \<and> si_lower interval \<ge> 0
     \<and> (case left of
          Checked_Binary op operand shift \<Rightarrow>
            op = Checked_ArithmeticShiftRight \<and> operand = right
            \<and> (case shift of
                 Checked_Atom tokens \<Rightarrow>
                   list_ex (\<lambda>token. case token of Token_Constant w \<Rightarrow> w \<le> 31 | _ \<Rightarrow> False) tokens
               | _ \<Rightarrow> False)
        | _ \<Rightarrow> False)"

definition is_exact_definedness :: "'x prop_term \<Rightarrow> 'x bv \<Rightarrow> bool" where
  "is_exact_definedness p t = (case (p, t) of
     (ConditionIs (Native (Compare op left right)) value, Binary op' a b) \<Rightarrow>
       \<not> value
       \<and> (op, op') \<in> {(Op_Bitvector32SignedAddOverflows, Op_Add),
           (Op_Bitvector32SignedSubtractOverflows, Op_Subtract),
           (Op_Bitvector32SignedMultiplyOverflows, Op_Multiply),
           (Op_Bitvector32SignedShiftLeftOverflows, Op_ShiftLeft),
           (Op_Bitvector32SignedDivideOverflows, Op_Remainder)}
       \<and> atom_key left \<noteq> None \<and> atom_key left = atom_key a
       \<and> atom_key right \<noteq> None \<and> atom_key right = atom_key b
   | _ \<Rightarrow> False)"

section \<open>Numbers of checked terms\<close>

primrec checked_bv :: "checked_term \<Rightarrow> 'x bv" where
  "checked_bv (Checked_Atom atom) = atom_term atom"
| "checked_bv (Checked_Binary op l r) = Binary (machine_operator op) (checked_bv l) (checked_bv r)"
| "checked_bv (Checked_Cast source destination a) = MachineIntegerCast (checked_bv a) source destination"

definition checked_number :: "'x valuation \<Rightarrow> checked_term \<Rightarrow> int" where
  "checked_number \<rho> t = signed_number \<rho> (checked_bv t)"

lemma explicit_matches_bv: "explicit_matches t u \<Longrightarrow> checked_bv t = u"
  by (induction t u rule: explicit_matches.induct) (auto simp: atom_term split: bv.splits)

lemma equivalent_explicit_number:
  assumes "canonical_ok canonical \<rho>" and "equivalent_explicit canonical t u"
  shows "checked_number \<rho> t = signed_number \<rho> u"
  using assms explicit_matches_bv [of t "canonical u"]
  by (simp add: equivalent_explicit_def checked_number_def canonical_ok_def)

lemma constant_number [simp]: "checked_number \<rho> (constant_atom w) = sint w"
  by (simp add: checked_number_def constant_atom_def atom_term [of "Constant w"])

lemma atom_number: "checked_number \<rho> (Checked_Atom atom) = atom_reading \<rho> atom"
  by (simp add: checked_number_def atom_reading_def)

lemma checked_number_range: "signed_min \<le> checked_number \<rho> t" "checked_number \<rho> t \<le> signed_max"
  by (simp_all add: checked_number_def signed_number_range)

lemma number_binary:
  "binary32 (machine_operator op) = Some f \<Longrightarrow>
   checked_number \<rho> (Checked_Binary op l r) =
     sint (f (low32 (bv_value \<rho> (checked_bv l))) (low32 (bv_value \<rho> (checked_bv r))))"
  by (simp add: checked_number_def signed_number_def)

lemma number_word: "word_of_int (checked_number \<rho> t) = low32 (bv_value \<rho> (checked_bv t))"
  by (simp add: checked_number_def signed_number_def)

lemma sint_exact: "signed_min \<le> v \<Longrightarrow> v \<le> signed_max \<Longrightarrow> sint (word_of_int v :: 32 word) = v"
  by (simp add: sint_sbintrunc' signed_take_bit_int_eq_self signed_min_def signed_max_def)

text \<open>An operation whose mathematical result fits has it for its number.\<close>

lemma exact_number:
  assumes "binary32 (machine_operator op) = Some f"
    and "f (word_of_int (checked_number \<rho> tp)) (word_of_int (checked_number \<rho> tq)) = word_of_int v"
    and "signed_min \<le> v" "v \<le> signed_max"
  shows "checked_number \<rho> (Checked_Binary op tp tq) = v"
  using number_binary [OF assms(1), of \<rho> tp tq] assms(2) sint_exact [OF assms(3,4)] by (simp only: number_word)

lemma checked_number_word: "sint (word_of_int (checked_number \<rho> t) :: 32 word) = checked_number \<rho> t"
  by (rule sint_exact [OF checked_number_range])

lemma exact_operations:
  fixes \<rho> :: "'x valuation"
  assumes "l = checked_number \<rho> tp" and "r = checked_number \<rho> tq"
  shows "signed_min \<le> l + r \<Longrightarrow> l + r \<le> signed_max \<Longrightarrow>
      checked_number \<rho> (Checked_Binary Checked_Add tp tq) = l + r"
    and "signed_min \<le> l - r \<Longrightarrow> l - r \<le> signed_max \<Longrightarrow>
      checked_number \<rho> (Checked_Binary Checked_Subtract tp tq) = l - r"
    and "signed_min \<le> l * r \<Longrightarrow> l * r \<le> signed_max \<Longrightarrow>
      checked_number \<rho> (Checked_Binary Checked_Multiply tp tq) = l * r"
    and "signed_min \<le> l smod r \<Longrightarrow> l smod r \<le> signed_max \<Longrightarrow>
      checked_number \<rho> (Checked_Binary Checked_Remainder tp tq) = l smod r"
  unfolding assms
  by (rule exact_number [where f = "(+)"] exact_number [where f = "(-)"] exact_number [where f = "(*)"]
      exact_number [where f = signed_rem];
      simp add: binary32_def machine_operator_def signed_rem_def checked_number_word; fail)+

lemma sint_zero_iff [simp]: "sint w = 0 \<longleftrightarrow> w = 0" for w :: "'a::len word"
  by (metis signed_0 signed_word_eqI)

section \<open>What an interval says\<close>

definition inside :: "'x valuation \<Rightarrow> signed_interval \<Rightarrow> checked_term \<Rightarrow> bool" where
  "inside \<rho> i t \<longleftrightarrow>
     si_carrier i = SignedInt32 \<and> signed_min \<le> si_lower i \<and> si_lower i \<le> checked_number \<rho> t
     \<and> checked_number \<rho> t \<le> si_upper i \<and> si_upper i \<le> signed_max"

lemma interval_checked_inside:
  assumes "interval_checked node low high = Inr i" and "low \<le> checked_number \<rho> t" "checked_number \<rho> t \<le> high"
  shows "inside \<rho> i t"
  using assms by (auto simp: interval_checked_def inside_def int32_interval_def split: if_splits)

lemma interval_checked_limits:
  "interval_checked node low high = Inr i \<Longrightarrow> signed_min \<le> low \<and> low \<le> high \<and> high \<le> signed_max"
  by (auto simp: interval_checked_def split: if_splits)

lemma interval_add_inside:
  assumes "inside \<rho> l tp" "inside \<rho> r tq" "interval_add l r node exact = Inr i"
    and "exact \<Longrightarrow> signed_min \<le> checked_number \<rho> tp + checked_number \<rho> tq
      \<and> checked_number \<rho> tp + checked_number \<rho> tq \<le> signed_max"
  shows "checked_number \<rho> (Checked_Binary Checked_Add tp tq) = checked_number \<rho> tp + checked_number \<rho> tq"
    and "inside \<rho> i (Checked_Binary Checked_Add tp tq)"
proof -
  let ?low = "si_lower l + si_lower r" and ?high = "si_upper l + si_upper r"
  have sum: "?low \<le> checked_number \<rho> tp + checked_number \<rho> tq" "checked_number \<rho> tp + checked_number \<rho> tq \<le> ?high"
    using assms(1,2) by (auto simp: inside_def)
  obtain low high where ends: "interval_checked node low high = Inr i"
      "low \<le> checked_number \<rho> tp + checked_number \<rho> tq" "checked_number \<rho> tp + checked_number \<rho> tq \<le> high"
    using assms(3,4) sum by (cases exact) (auto simp: interval_add_def)
  have fits: "signed_min \<le> checked_number \<rho> tp + checked_number \<rho> tq" "checked_number \<rho> tp + checked_number \<rho> tq \<le> signed_max"
    using interval_checked_limits [OF ends(1)] ends(2,3) by auto
  show number: "checked_number \<rho> (Checked_Binary Checked_Add tp tq) = checked_number \<rho> tp + checked_number \<rho> tq"
    by (rule exact_operations(1) [OF refl refl fits])
  show "inside \<rho> i (Checked_Binary Checked_Add tp tq)"
    by (rule interval_checked_inside [OF ends(1)]) (use ends(2,3) in \<open>simp_all add: number\<close>)
qed

lemma interval_subtract_inside:
  assumes "inside \<rho> l tp" "inside \<rho> r tq" "interval_subtract l r node = Inr i"
  shows "checked_number \<rho> (Checked_Binary Checked_Subtract tp tq) = checked_number \<rho> tp - checked_number \<rho> tq"
    and "inside \<rho> i (Checked_Binary Checked_Subtract tp tq)"
proof -
  have bounds: "si_lower l - si_upper r \<le> checked_number \<rho> tp - checked_number \<rho> tq"
      "checked_number \<rho> tp - checked_number \<rho> tq \<le> si_upper l - si_lower r"
    using assms(1,2) by (auto simp: inside_def)
  have checked: "interval_checked node (si_lower l - si_upper r) (si_upper l - si_lower r) = Inr i"
    using assms(3) by (simp add: interval_subtract_def)
  have fits: "signed_min \<le> checked_number \<rho> tp - checked_number \<rho> tq" "checked_number \<rho> tp - checked_number \<rho> tq \<le> signed_max"
    using interval_checked_limits [OF checked] bounds by auto
  show number: "checked_number \<rho> (Checked_Binary Checked_Subtract tp tq) = checked_number \<rho> tp - checked_number \<rho> tq"
    by (rule exact_operations(2) [OF refl refl fits])
  show "inside \<rho> i (Checked_Binary Checked_Subtract tp tq)"
    by (rule interval_checked_inside [OF checked]) (use bounds in \<open>simp_all add: number\<close>)
qed

lemma interval_multiply_inside:
  assumes "inside \<rho> l tp" "inside \<rho> r tq" "interval_multiply l r node = Inr i"
  shows "checked_number \<rho> (Checked_Binary Checked_Multiply tp tq) = checked_number \<rho> tp * checked_number \<rho> tq"
    and "inside \<rho> i (Checked_Binary Checked_Multiply tp tq)"
proof -
  obtain low high where corner: "corner_interval (*) (si_lower l, si_upper l) (si_lower r, si_upper r) = (low, high)"
    by fastforce
  have checked: "interval_checked node low high = Inr i" using assms(3) by (simp add: interval_multiply_def corner)
  have "within (checked_number \<rho> tp * checked_number \<rho> tq) (low, high)"
    unfolding corner [symmetric] using assms(1,2) by (intro product_within) (auto simp: within_def inside_def)
  then have bounds: "low \<le> checked_number \<rho> tp * checked_number \<rho> tq" "checked_number \<rho> tp * checked_number \<rho> tq \<le> high"
    by (simp_all add: within_def)
  have fits: "signed_min \<le> checked_number \<rho> tp * checked_number \<rho> tq" "checked_number \<rho> tp * checked_number \<rho> tq \<le> signed_max"
    using interval_checked_limits [OF checked] bounds by auto
  show number: "checked_number \<rho> (Checked_Binary Checked_Multiply tp tq) = checked_number \<rho> tp * checked_number \<rho> tq"
    by (rule exact_operations(3) [OF refl refl fits])
  show "inside \<rho> i (Checked_Binary Checked_Multiply tp tq)"
    by (rule interval_checked_inside [OF checked]) (use bounds in \<open>simp_all add: number\<close>)
qed

lemma remainder_number:
  assumes "d \<noteq> 0"
  shows "checked_number \<rho> (Checked_Binary Checked_Remainder t (constant_atom d)) = checked_number \<rho> t smod sint d"
proof -
  have "\<bar>checked_number \<rho> t smod sint d\<bar> \<le> \<bar>sint d\<bar> - 1" using assms by (intro smod_bounds) simp
  moreover have "\<bar>sint d\<bar> - 1 \<le> signed_max"
    using sint_range_size [of d] by (auto simp: signed_max_def word_size)
  ultimately show ?thesis
    by (intro exact_operations(4)) (auto simp: signed_min_def signed_max_def)
qed

lemma interval_remainder_inside:
  assumes "inside \<rho> operand t" "interval_remainder operand d node = Inr i"
  shows "inside \<rho> i (Checked_Binary Checked_Remainder t (constant_atom d))"
proof -
  have d: "d \<noteq> 0" using assms(2) by (auto simp: interval_remainder_def)
  then have "sint d \<noteq> 0" by simp
  note b = smod_bounds [OF this, of "checked_number \<rho> t"]
  consider "interval_checked node 0 (\<bar>sint d\<bar> - 1) = Inr i" "0 \<le> checked_number \<rho> t"
    | "interval_checked node (- (\<bar>sint d\<bar> - 1)) 0 = Inr i" "checked_number \<rho> t \<le> 0"
    | "interval_checked node (- (\<bar>sint d\<bar> - 1)) (\<bar>sint d\<bar> - 1) = Inr i"
    using assms d by (auto simp: interval_remainder_def inside_def Let_def split: if_splits)
  then show ?thesis
    by cases (erule interval_checked_inside; use b in \<open>auto simp: remainder_number [OF d] abs_le_iff\<close>)+
qed

lemma mod_shift:
  fixes x r a d :: int
  assumes "0 < d" and "x mod d = r" and "low \<le> r" "r \<le> high" and "(low + a) div d = (high + a) div d"
  shows "(low + a) mod d \<le> (x + a) mod d \<and> (x + a) mod d \<le> (high + a) mod d"
proof -
  have "(x + a) mod d = (r + a) mod d" using assms(2) by (metis mod_add_left_eq)
  moreover have "(low + a) div d \<le> (r + a) div d" "(r + a) div d \<le> (high + a) div d"
    using assms(1,3,4) by (intro zdiv_mono1; simp)+
  ultimately show ?thesis using assms(3-5) by (simp add: minus_div_mult_eq_mod [symmetric])
qed

lemma interval_remainder_add_inside:
  assumes "inside \<rho> operand t" "inside \<rho> rest (Checked_Binary Checked_Remainder t (constant_atom d))"
    and "interval_remainder_add operand rest a d node = Inr i"
  shows "inside \<rho> i (Checked_Binary Checked_Remainder (Checked_Binary Checked_Add t (constant_atom a)) (constant_atom d))"
proof -
  let ?x = "checked_number \<rho> t"
  have c: "0 < sint d" "0 \<le> si_lower operand" "0 \<le> si_lower operand + sint a" "si_upper operand + sint a \<le> signed_max"
      "(si_lower rest + sint a) div sint d = (si_upper rest + sint a) div sint d"
      "interval_checked node ((si_lower rest + sint a) mod sint d) ((si_upper rest + sint a) mod sint d) = Inr i"
    using assms(3) by (auto simp: interval_remainder_add_def Let_def split: if_splits)
  have x: "0 \<le> ?x" "0 \<le> ?x + sint a" "?x + sint a \<le> signed_max"
    using assms(1) c by (auto simp: inside_def)
  have nonneg: "y smod sint d = y mod sint d" if "0 \<le> y" for y
    using that c(1) by (simp add: smod_int_alt_def sgn_if abs_if)
  have d: "d \<noteq> 0" using c(1) by auto
  have sum: "checked_number \<rho> (Checked_Binary Checked_Add t (constant_atom a)) = ?x + sint a"
    using x(2,3) by (intro exact_operations(1)) (simp_all add: signed_min_def)
  have "si_lower rest \<le> ?x mod sint d" "?x mod sint d \<le> si_upper rest"
    using assms(2) by (simp_all add: inside_def remainder_number [OF d] nonneg [OF x(1)])
  note bounds = mod_shift [OF c(1) refl this c(5)]
  show ?thesis
    by (rule interval_checked_inside [OF c(6)])
      (use bounds in \<open>simp_all add: remainder_number [OF d] sum nonneg [OF x(2)]\<close>)
qed

lemma shift_left_inside:
  assumes "inside \<rho> operand t" "interval_shift_left operand n node = Inr i"
  shows "inside \<rho> i (Checked_Binary Checked_ShiftLeft t (constant_atom n))"
proof -
  let ?x = "checked_number \<rho> t" and ?f = "2 ^ unat n :: int"
  have c: "0 \<le> si_lower operand" "interval_checked node (si_lower operand * ?f) (si_upper operand * ?f) = Inr i"
    using assms(2) by (auto simp: interval_shift_left_def Let_def split: if_splits)
  have bounds: "si_lower operand * ?f \<le> ?x * ?f" "?x * ?f \<le> si_upper operand * ?f"
    using assms(1) by (auto simp: inside_def)
  have fits: "signed_min \<le> ?x * ?f" "?x * ?f \<le> signed_max"
    using bounds interval_checked_limits [OF c(2)] by linarith+
  have "checked_number \<rho> (Checked_Binary Checked_ShiftLeft t (constant_atom n)) = ?x * ?f"
  proof (rule exact_number [where f = "\<lambda>a b. push_bit (unat b) a"])
    show "push_bit (unat (word_of_int (checked_number \<rho> (constant_atom n)) :: 32 word)) (word_of_int ?x)
        = (word_of_int (?x * ?f) :: 32 word)"
      by (simp add: push_bit_eq_mult)
  qed (simp_all add: fits binary32_def machine_operator_def)
  then show ?thesis
    by (intro interval_checked_inside [OF c(2)]) (use bounds in simp_all)
qed

lemma shifted_number:
  "checked_number \<rho> (Checked_Binary Checked_ArithmeticShiftRight t (constant_atom n)) = checked_number \<rho> t div 2 ^ unat n"
  using number_binary [of Checked_ArithmeticShiftRight "\<lambda>a b. signed_drop_bit (unat b) a" \<rho> t "constant_atom n"]
  by (simp add: binary32_def machine_operator_def sint_signed_drop_bit_eq drop_bit_eq_div checked_number_word
      flip: number_word)

lemma shift_right_inside:
  assumes "inside \<rho> operand t" "interval_shift_right operand n node = Inr i"
  shows "inside \<rho> i (Checked_Binary Checked_ArithmeticShiftRight t (constant_atom n))"
proof -
  have ends: "sint (signed_drop_bit (unat n) (word_of_int v :: 32 word)) = v div 2 ^ unat n"
    if "signed_min \<le> v" "v \<le> signed_max" for v
    by (simp only: sint_signed_drop_bit_eq sint_exact [OF that] drop_bit_eq_div)
  have limits: "signed_min \<le> v div 2 ^ unat n \<and> v div 2 ^ unat n \<le> signed_max"
    if "signed_min \<le> v" "v \<le> signed_max" for v
    using sint_range_size [of "signed_drop_bit (unat n) (word_of_int v :: 32 word)"]
    unfolding ends [OF that] by (simp add: signed_min_def signed_max_def word_size)
  have o: "signed_min \<le> si_lower operand" "si_lower operand \<le> checked_number \<rho> t"
      "checked_number \<rho> t \<le> si_upper operand" "si_upper operand \<le> signed_max" "si_carrier operand = SignedInt32"
    using assms(1) by (simp_all add: inside_def)
  then have "si_lower operand \<le> signed_max" "signed_min \<le> si_upper operand" by simp_all
  note lower = ends [OF o(1) this(1)] limits [OF o(1) this(1)] and upper = ends [OF this(2) o(4)] limits [OF this(2) o(4)]
  have "i = operand\<lparr>si_lower := si_lower operand div 2 ^ unat n, si_upper := si_upper operand div 2 ^ unat n\<rparr>"
    using assms(2) by (auto simp: interval_shift_right_def lower upper Let_def split: if_splits)
  then show ?thesis
    using lower(2) upper(2) o zdiv_mono1 [OF o(2), of "2 ^ unat n"] zdiv_mono1 [OF o(3), of "2 ^ unat n"]
    by (simp add: inside_def shifted_number)
qed

lemma mask_inside:
  assumes "inside \<rho> operand t" "interval_mask operand m node = Inr i"
  shows "inside \<rho> i (Checked_Binary Checked_BitwiseAnd t (constant_atom m))"
proof -
  have m: "uint m \<le> signed_max" "i = operand\<lparr>si_lower := 0, si_upper := sint m\<rparr>"
    using assms(2) by (auto simp: interval_mask_def split: if_splits)
  have read: "sint z = uint z" if "uint z \<le> signed_max" for z :: "32 word"
    using sint_exact [of "uint z"] that order_trans [OF _ uint_ge_0 [of z], of signed_min] by (simp add: signed_min_def)
  define z where "z = low32 (bv_value \<rho> (checked_bv t)) AND m"
  have z: "uint z \<le> uint m" by (simp add: z_def uint_and AND_upper2)
  have "checked_number \<rho> (Checked_Binary Checked_BitwiseAnd t (constant_atom m)) = sint z"
    using number_binary [of Checked_BitwiseAnd "(AND)" \<rho> t "constant_atom m"] number_word [of \<rho> "constant_atom m"]
    by (simp add: z_def binary32_def machine_operator_def)
  then show ?thesis
    using assms(1) m z read [of z] read [of m] order_trans [OF z m(1)]
    by (simp add: inside_def signed_min_def)
qed

lemma narrowed_inside:
  assumes "inside \<rho> operand t" "interval_narrowed operand source destination node = Inr i"
    and "(source, destination) = (MInt8, MUInt16) \<Longrightarrow> si_upper operand \<le> 127"
  shows "checked_number \<rho> (Checked_Cast source destination t) = checked_number \<rho> t"
    and "inside \<rho> i (Checked_Cast source destination t)"
proof -
  let ?w = "low32 (bv_value \<rho> (checked_bv t))" and ?f = "type_format destination"
  have c: "narrowed_word_cast source destination" "i = operand" "format_low ?f \<le> si_lower operand" "si_upper operand \<le> format_high ?f"
    using assms(2) by (auto simp: interval_narrowed_def format_bounds_spec Let_def split: if_splits)
  have narrow: "type_bits source \<le> 32" "type_bits destination \<le> 32"
    using c(1) by (auto simp: narrowed_word_cast_def)
  have "representable ?f (sint ?w)"
    using assms(1) c(3,4)
    by (auto simp: representable_def inside_def checked_number_def signed_number_def)
  then have kept: "wrapped ?f (uint ?w) = sint ?w"
    using wrapped_sint [of ?f ?w] wrapped_id [of ?f "sint ?w"] narrow by simp
  have twice: "wrapped ?f (wrapped (type_format source) (uint ?w)) = wrapped ?f (uint ?w)"
  proof (cases "(source, destination) = (MInt8, MUInt16)")
    case True
    have bounds: "format_low (type_format MUInt16) = 0" "format_low (type_format MInt8) = - 128"
      "format_high (type_format MInt8) = 127" by code_simp+
    have "sint ?w \<le> 127" "0 \<le> sint ?w"
      using assms(1) assms(3) [OF True] c(3) True bounds(1)
      by (auto simp: inside_def checked_number_def signed_number_def)
    then have "representable (type_format source) (sint ?w)" using True bounds(2,3) by (simp add: representable_def)
    then show ?thesis
      using wrapped_sint [of "type_format source" ?w] wrapped_id [of "type_format source" "sint ?w"] narrow kept
        wrapped_sint [of ?f ?w] by simp
  next
    case False
    then have "type_bits destination \<le> type_bits source"
      using c(1) by (cases source; cases destination) (auto simp: narrowed_word_cast_def format_contains_def)
    then show ?thesis by (simp add: wrapped_wrapped)
  qed
  have "checked_number \<rho> (Checked_Cast source destination t)
      = sint (word_of_int (wrapped ?f (wrapped (type_format source) (uint ?w))) :: 32 word)"
    using narrow
    by (simp add: checked_number_def signed_number_def cast_value_def carrier_of_def reading_low32 wrapped_def)
  also have "\<dots> = sint ?w"
    using twice kept by simp
  finally show number: "checked_number \<rho> (Checked_Cast source destination t) = checked_number \<rho> t"
    by (simp add: checked_number_def signed_number_def)
  show "inside \<rho> i (Checked_Cast source destination t)"
    using assms(1) c(2) by (simp add: inside_def number)
qed

text \<open>
  The bound of 127 is needed: the checker keeps the interval of a word of 200 through the
  conversion, which reads its low eight bits as a negative number.
\<close>

lemma conversion_of_wide_word_lost:
  "interval_narrowed (int32_interval 200 200) MInt8 MUInt16 node = Inr (int32_interval 200 200)
   \<and> checked_number zero_valuation (constant_atom 200) = 200
   \<and> checked_number zero_valuation (Checked_Cast MInt8 MUInt16 (constant_atom 200)) = 65480"
proof (intro conjI)
  show "interval_narrowed (int32_interval 200 200) MInt8 MUInt16 node = Inr (int32_interval 200 200)"
    by code_simp
  have atom: "checked_bv (constant_atom 200) = (Constant 200 :: nat bv)"
    using atom_term [of "Constant 200 :: nat bv"] by (simp add: constant_atom_def)
  have "signed_number zero_valuation (Constant 200 :: nat bv) = 200"
    "signed_number zero_valuation (MachineIntegerCast (Constant 200 :: nat bv) MInt8 MUInt16) = 65480"
    by code_simp+
  then show "checked_number zero_valuation (constant_atom 200) = 200"
    "checked_number zero_valuation (Checked_Cast MInt8 MUInt16 (constant_atom 200)) = 65480"
    by (simp_all add: checked_number_def atom)
qed

lemma signed_inject_iff: "sint a = sint b \<longleftrightarrow> a = b" for a b :: "'a::len word"
  by (auto intro: signed_word_eqI)

lemma flipped_word: "w XOR sign_bit = w + sign_bit" for w :: "32 word"
proof -
  have two: "sign_bit + sign_bit = 0" by (simp add: sign_bit_def)
  have "w XOR push_bit 31 1 = (if bit w 31 then unset_bit 31 w else set_bit 31 w)"
    by (simp add: flip_bit_eq_if flip: flip_bit_eq_xor del: push_bit_of_1)
  then have "w XOR sign_bit = (if bit w 31 then unset_bit 31 w else set_bit 31 w)" by (simp only: sign_bit_def)
  then show ?thesis
    using two by (auto simp: unset_bit_eq set_bit_eq sign_bit_def push_bit_eq_mult)
qed

lemma flipped_number:
  "checked_number \<rho> (Checked_Binary Checked_BitwiseXor t (constant_atom sign_bit)) =
     (if checked_number \<rho> t \<ge> 0 then checked_number \<rho> t + signed_min else checked_number \<rho> t - signed_min)"
proof (rule exact_number [where f = "(XOR)"])
  let ?v = "if checked_number \<rho> t \<ge> 0 then checked_number \<rho> t + signed_min else checked_number \<rho> t - signed_min"
  have "word_of_int signed_min = sign_bit" "word_of_int (- signed_min) = sign_bit"
    by (simp_all add: sign_bit_def signed_min_def)
  then have "(word_of_int ?v :: 32 word) = word_of_int (checked_number \<rho> t) + sign_bit"
    by (metis (full_types) wi_hom_add diff_conv_add_uminus)
  then show "word_of_int (checked_number \<rho> t) XOR word_of_int (checked_number \<rho> (constant_atom sign_bit)) = (word_of_int ?v :: 32 word)"
    by (simp add: flipped_word)
qed (use checked_number_range [of \<rho> t] in \<open>auto simp: binary32_def machine_operator_def signed_min_def signed_max_def\<close>)

lemma sign_flip_inside:
  assumes "inside \<rho> operand t"
  shows "inside \<rho> (interval_sign_flip operand) (Checked_Binary Checked_BitwiseXor t (constant_atom sign_bit))"
  using assms checked_number_range [of \<rho> t]
  by (auto simp: inside_def interval_sign_flip_def flipped_number signed_min_def signed_max_def)

section \<open>Comparisons that intervals decide\<close>

definition order_means :: "signed_order \<Rightarrow> int \<Rightarrow> int \<Rightarrow> bool" where
  "order_means order l r = (case order of
     Order_Less \<Rightarrow> l < r | Order_Less_Equal \<Rightarrow> l \<le> r | Order_Equal \<Rightarrow> l = r | Order_Disequal \<Rightarrow> l \<noteq> r)"

lemma interval_proves_order:
  assumes "inside \<rho> i tp" "inside \<rho> j tq" "interval_proves i j order"
  shows "order_means order (checked_number \<rho> tp) (checked_number \<rho> tq)"
  using assms by (auto simp: inside_def interval_proves_def order_means_def split: signed_order.splits)

lemma term_interval_proves_order:
  assumes "inside \<rho> i tp" "term_interval_proves tp tq i order"
  shows "order_means order (checked_number \<rho> tp) (checked_number \<rho> tq)"
proof -
  obtain n where t: "tp = Checked_Binary Checked_ArithmeticShiftRight tq n"
    and o: "order = Order_Less_Equal" "0 \<le> si_lower i"
    using assms(2) by (auto simp: term_interval_proves_def split: checked_term.splits)
  define k where "k = unat (low32 (bv_value \<rho> (checked_bv n)))"
  have shifted: "checked_number \<rho> tp = checked_number \<rho> tq div 2 ^ k"
    using number_binary [of Checked_ArithmeticShiftRight "\<lambda>a b. signed_drop_bit (unat b) a" \<rho> tq n]
    by (simp add: t k_def binary32_def machine_operator_def sint_signed_drop_bit_eq drop_bit_eq_div
        checked_number_word flip: number_word)
  have "0 \<le> checked_number \<rho> tq div 2 ^ k"
    using assms(1) o(2) by (simp add: inside_def shifted)
  then have "0 \<le> checked_number \<rho> tq" by (simp add: pos_imp_zdiv_nonneg_iff)
  then have "checked_number \<rho> tq div 2 ^ k \<le> checked_number \<rho> tq div 1" by (intro zdiv_mono2) simp_all
  then show ?thesis by (simp add: o(1) order_means_def shifted)
qed

lemma sign_flip_match_number:
  assumes "canonical_ok canonical \<rho>" "equivalent_with_sign_flip canonical t u"
  shows "checked_number \<rho> t = signed_number \<rho> u"
proof -
  note same = equivalent_explicit_number [OF assms(1)]
  consider "equivalent_explicit canonical t u"
    | l r a b where "t = Checked_Binary Checked_BitwiseXor l r" "u = Binary Op_BitwiseXor a b"
        "checked_number \<rho> r = signed_number \<rho> a" "checked_number \<rho> l = signed_number \<rho> b"
    | l r a b where "t = Checked_Binary Checked_BitwiseXor l r" "u = Binary Op_BitwiseXor a b"
        "checked_number \<rho> l = signed_number \<rho> b" "checked_number \<rho> r = signed_number \<rho> a"
    using assms(2) same
    by (auto simp: equivalent_with_sign_flip_def split: checked_term.splits bv.splits)
  then show ?thesis
  proof cases
    case 1
    then show ?thesis by (rule same)
  qed (simp_all add: checked_number_def machine_operator_def signed_number_def binary32_def xor.commute
      signed_inject_iff)
qed

end
