(* ===== verification/SignedCertificate.thy ===== *)
theory SignedCertificate
  imports SignedIntervals IntegerCertificate
begin

text \<open>
  The checker of signed machine arithmetic (\<^verbatim>\<open>SignedArithmeticCertificate::check\<close> of
  \<^verbatim>\<open>src/src/kernel/proof/signed_arithmetic.rs\<close>). A certificate is a list of nodes; the
  checker recomputes the value of each from the values before it and the premises, and asks
  that the value of the last step states the goal. The evidence that flattens a comparison
  walks the nodes themselves, and reads the terms of those already checked.
\<close>

section \<open>Nodes and checked values\<close>

datatype 'x signed_node =
    Node_Premise nat signed_claim
  | Node_Scale nat int signed_claim
  | Node_Add nat nat signed_claim
  | Node_EqualityToLessEqual nat bool signed_claim
  | Node_EqualityFromBounds nat nat signed_claim
  | Node_StrictFromDisequal nat nat signed_claim
  | Node_Trivial signed_claim
  | Node_Int32Range signed_claim
  | IntervalFromAffine nat "'x bv" int int
  | IntervalFromAffineDirect nat "'x bv" int int
  | IntervalIntersect nat nat signed_interval
  | IntervalAtom signed_carrier "'x bv" int int
  | DefinedPremise nat signed_carrier "'x bv"
  | IntervalAdd nat nat nat signed_interval
  | IntervalAddBounded nat nat signed_interval
  | IntervalSubtract nat nat nat signed_interval
  | IntervalMultiply nat nat nat signed_interval
  | IntervalRemainderAdd nat nat "32 word" "32 word" signed_interval
  | IntervalRemainder nat "32 word" nat signed_interval
  | IntervalShiftLeft nat "32 word" nat signed_interval
  | IntervalArithmeticShiftRight nat "32 word" signed_interval
  | IntervalBitwiseAnd nat "32 word" signed_interval
  | IntervalNarrowedCast nat machine_integer_type machine_integer_type signed_interval
  | IntervalSignBitFlip nat signed_interval
  | IntervalCompare nat nat signed_order "'x prop_term"
  | AffinePremise nat nat nat signed_claim
  | AffineConclusion nat nat "'x prop_term"
  | AffineConclusionWithEvidence nat nat nat "'x prop_term"

record 'x signed_certificate =
  signed_nodes :: "'x signed_node list"
  signed_conclusion :: nat

datatype 'x checked_value =
    Checked_Affine signed_claim
  | Checked_Interval signed_interval checked_term
  | Checked_Defined signed_carrier "'x bv"
  | Checked_Proposition "'x prop_term"

text \<open>The values checked so far, and the terms of the arena in the order they were made.\<close>

record 'x signed_state =
  checked_values :: "'x checked_value list"
  arena_terms :: "checked_term list"

definition affine_at :: "'x checked_value list \<Rightarrow> nat \<Rightarrow> signed_error + signed_claim" where
  "affine_at checked index =
     (if index < length checked then
        (case checked ! index of Checked_Affine claim \<Rightarrow> Inr claim | _ \<Rightarrow> Inl (Signed_InvalidRelation index))
      else Inl (Signed_InvalidNodeReference index))"

definition interval_at :: "'x checked_value list \<Rightarrow> nat \<Rightarrow> signed_error + signed_interval \<times> checked_term" where
  "interval_at checked index =
     (if index < length checked then
        (case checked ! index of
           Checked_Interval i t \<Rightarrow> Inr (i, t)
         | _ \<Rightarrow> Inl (Signed_InvalidRelation index))
      else Inl (Signed_InvalidNodeReference index))"

definition require_int32 :: "signed_carrier \<Rightarrow> signed_error + unit" where
  "require_int32 carrier = (if carrier = SignedInt32 then Inr () else Inl Signed_UnsupportedCarrier)"

definition require_defined ::
  "('x bv \<Rightarrow> 'x bv) \<Rightarrow> 'x checked_value list \<Rightarrow> nat \<Rightarrow> checked_term \<Rightarrow> nat \<Rightarrow> signed_error + unit"
where
  "require_defined canonical checked index t node =
     (if index < length checked then
        (case checked ! index of
           Checked_Defined carrier actual \<Rightarrow>
             if carrier = SignedInt32 \<and> equivalent_explicit canonical t actual then Inr ()
             else Inl (Signed_InvalidDefinedness node)
         | _ \<Rightarrow> Inl (Signed_InvalidDefinedness node))
      else Inl (Signed_InvalidNodeReference index))"

text \<open>An interval of the left operand shows an operation defined whose result fits.\<close>

definition require_defined_or_bounded ::
  "('x bv \<Rightarrow> 'x bv) \<Rightarrow> 'x checked_value list \<Rightarrow> nat \<Rightarrow> checked_term \<Rightarrow> checked_term \<Rightarrow> nat
   \<Rightarrow> signed_error + unit"
where
  "require_defined_or_bounded canonical checked index t bounded node =
     (case (if index < length checked then Some (checked ! index) else None) of
        Some (Checked_Interval _ actual) \<Rightarrow>
          if bounded = actual then Inr () else Inl (Signed_InvalidDefinedness node)
      | _ \<Rightarrow> require_defined canonical checked index t node)"

section \<open>Affine evidence\<close>

definition affine_leaf :: "('x bv \<Rightarrow> 'x bv) \<Rightarrow> 'x bv \<Rightarrow> signed_form option" where
  "affine_leaf canonical t = (case as_const t of
     Some w \<Rightarrow> Some (fmempty, sint w)
   | None \<Rightarrow> map_option (\<lambda>atom. (fmupd atom 1 fmempty, 0)) (atom_key (canonical t)))"

definition contains_affine_machine_operation :: "'x bv \<Rightarrow> bool" where
  "contains_affine_machine_operation t = (case t of
     Binary op _ _ \<Rightarrow> op \<in> {Op_Add, Op_Subtract, Op_Multiply}
   | _ \<Rightarrow> False)"

text \<open>What a node contributes to the walk: its own term, another node, or two of them.\<close>

datatype 'x evidence_shape =
    Evidence_Leaf "'x bv"
  | Evidence_Same nat
  | Evidence_Sum nat nat
  | Evidence_Difference nat nat
  | Evidence_Product nat nat
  | Evidence_Converted nat
  | No_Evidence

definition evidence_shape :: "'x signed_node \<Rightarrow> 'x evidence_shape" where
  "evidence_shape node = (case node of
     IntervalAtom _ t _ _ \<Rightarrow> Evidence_Leaf t
   | IntervalFromAffine _ t _ _ \<Rightarrow> Evidence_Leaf t
   | IntervalFromAffineDirect _ t _ _ \<Rightarrow> Evidence_Leaf t
   | IntervalIntersect left _ _ \<Rightarrow> Evidence_Same left
   | IntervalAdd left right _ _ \<Rightarrow> Evidence_Sum left right
   | IntervalAddBounded left right _ \<Rightarrow> Evidence_Sum left right
   | IntervalSubtract left right _ _ \<Rightarrow> Evidence_Difference left right
   | IntervalMultiply left right _ _ \<Rightarrow> Evidence_Product left right
   | IntervalNarrowedCast operand _ _ _ \<Rightarrow> Evidence_Converted operand
   | _ \<Rightarrow> No_Evidence)"

definition form_sum :: "signed_form \<Rightarrow> signed_form \<Rightarrow> signed_form" where
  "form_sum l r = (add_terms (fst l) (fst r), snd l + snd r)"

definition form_difference :: "signed_form \<Rightarrow> signed_form \<Rightarrow> signed_form" where
  "form_difference l r = (add_terms (fst l) (fmmap uminus (fst r)), snd l - snd r)"

definition form_scale :: "int \<Rightarrow> signed_form \<Rightarrow> signed_form" where
  "form_scale k form = (fmmap (\<lambda>c. c * k) (fst form), snd form * k)"

definition form_product :: "signed_form \<Rightarrow> signed_form \<Rightarrow> signed_form option" where
  "form_product l r =
     (if fst l = fmempty then Some (form_scale (snd l) r)
      else if fst r = fmempty then Some (form_scale (snd r) l)
      else None)"

definition term_at :: "'x checked_value list \<Rightarrow> nat \<Rightarrow> checked_term option" where
  "term_at checked index =
     (if index < length checked then
        (case checked ! index of Checked_Interval _ t \<Rightarrow> Some t | _ \<Rightarrow> None)
      else None)"

text \<open>The term a combined form is filed under: the root's, or else the arena's first one.\<close>

definition root_term :: "'x signed_state \<Rightarrow> nat \<Rightarrow> checked_term option" where
  "root_term state root = (case term_at (checked_values state) root of
     Some t \<Rightarrow> Some t
   | None \<Rightarrow> (case arena_terms state of [] \<Rightarrow> None | t # _ \<Rightarrow> Some t))"

text \<open>
  The walk over the nodes. A path longer than the list of nodes visits one twice, and the
  walk of the source then runs until its work budget ends it.
\<close>

definition filed_under :: "checked_term option \<Rightarrow> signed_form option \<Rightarrow> (checked_term \<times> signed_form) option" where
  "filed_under t form = Option.bind t (\<lambda>t. map_option (Pair t) form)"

definition both_forms ::
  "(signed_form \<Rightarrow> signed_form \<Rightarrow> signed_form option) \<Rightarrow> (checked_term \<times> signed_form) option
   \<Rightarrow> (checked_term \<times> signed_form) option \<Rightarrow> signed_form option" where
  "both_forms f l r = Option.bind l (\<lambda>(_, a). Option.bind r (\<lambda>(_, b). f a b))"

primrec interval_affine_evidence ::
  "('x bv \<Rightarrow> 'x bv) \<Rightarrow> 'x signed_node list \<Rightarrow> 'x signed_state \<Rightarrow> nat \<Rightarrow> nat \<Rightarrow> nat
   \<Rightarrow> (checked_term \<times> signed_form) option"
where
  "interval_affine_evidence canonical nodes state root 0 index = None"
| "interval_affine_evidence canonical nodes state root (Suc fuel) index =
     (if index \<ge> length nodes then None
      else
        (let visit = interval_affine_evidence canonical nodes state root fuel in
         case evidence_shape (nodes ! index) of
           Evidence_Leaf t \<Rightarrow> filed_under (term_at (checked_values state) index) (affine_leaf canonical t)
         | Evidence_Same other \<Rightarrow> visit other
         | Evidence_Sum left right \<Rightarrow>
             filed_under (root_term state root)
               (both_forms (\<lambda>l r. Some (form_sum l r)) (visit left) (visit right))
         | Evidence_Difference left right \<Rightarrow>
             filed_under (root_term state root)
               (both_forms (\<lambda>l r. Some (form_difference l r)) (visit left) (visit right))
         | Evidence_Product left right \<Rightarrow>
             filed_under (root_term state root) (both_forms form_product (visit left) (visit right))
         | Evidence_Converted operand \<Rightarrow>
             Option.bind (visit operand) (\<lambda>(_, form).
               filed_under (term_at (checked_values state) index) (Some form))
         | No_Evidence \<Rightarrow> None))"

definition evidence_side ::
  "('x bv \<Rightarrow> 'x bv) \<Rightarrow> checked_term \<times> signed_form \<Rightarrow> 'x bv \<Rightarrow> signed_form option" where
  "evidence_side canonical evidence t =
     (if equivalent_explicit canonical (fst evidence) t then Some (snd evidence)
      else if contains_affine_machine_operation t then None
      else affine_leaf canonical t)"

definition evidence_difference ::
  "('x bv \<Rightarrow> 'x bv) \<Rightarrow> 'x bv \<Rightarrow> 'x bv \<Rightarrow> checked_term \<times> signed_form \<Rightarrow> checked_term \<times> signed_form
   \<Rightarrow> signed_form option" where
  "evidence_difference canonical left right left_evidence right_evidence =
     Option.bind (evidence_side canonical left_evidence left) (\<lambda>l.
       map_option (form_difference l) (evidence_side canonical right_evidence right))"

definition evidence_claim ::
  "('x bv \<Rightarrow> 'x bv) \<Rightarrow> 'x signed_node list \<Rightarrow> 'x signed_state \<Rightarrow> nat \<Rightarrow> nat \<Rightarrow> 'x prop_term
   \<Rightarrow> signed_claim option"
where
  "evidence_claim canonical nodes state left_index right_index p =
     (let evidence = (\<lambda>index. interval_affine_evidence canonical nodes state index (length nodes) index) in
      case (evidence left_index, evidence right_index) of
        (Some left_evidence, Some right_evidence) \<Rightarrow>
          (case Option.bind (stated_condition p) signed_comparison of
             None \<Rightarrow> None
           | Some (relation, left, right, strict) \<Rightarrow>
               map_option (signed_claim_of relation strict)
                 (evidence_difference canonical left right left_evidence right_evidence))
      | _ \<Rightarrow> None)"

definition comparison_sides :: "signed_order \<Rightarrow> 'x prop_term \<Rightarrow> ('x bv \<times> 'x bv) option" where
  "comparison_sides order p = (case p of
     ConditionIs (Native (Compare op left right)) value \<Rightarrow>
       (if (order, op, value) \<in>
          {(Order_Less, Op_Bitvector32SignedLessThan, True),
           (Order_Less_Equal, Op_Bitvector32SignedLessEqual, True),
           (Order_Equal, Op_Bitvector32Equal, True),
           (Order_Disequal, Op_Bitvector32Equal, False),
           (Order_Less, Op_Bitvector32SignedGreaterEqual, False),
           (Order_Less_Equal, Op_Bitvector32SignedGreaterThan, False)}
        then Some (left, right)
        else if (order, op, value) \<in>
          {(Order_Less, Op_Bitvector32SignedGreaterThan, True),
           (Order_Less_Equal, Op_Bitvector32SignedGreaterEqual, True),
           (Order_Less, Op_Bitvector32SignedLessEqual, False),
           (Order_Less_Equal, Op_Bitvector32SignedLessThan, False)}
        then Some (right, left)
        else None)
   | _ \<Rightarrow> None)"

definition comparison_proposition_matches ::
  "('x bv \<Rightarrow> 'x bv) \<Rightarrow> 'x prop_term \<Rightarrow> checked_term \<Rightarrow> checked_term \<Rightarrow> signed_order \<Rightarrow> bool" where
  "comparison_proposition_matches canonical p left right order =
     (case comparison_sides order p of
        None \<Rightarrow> False
      | Some (l, r) \<Rightarrow>
          equivalent_with_sign_flip canonical left l \<and> equivalent_with_sign_flip canonical right r)"

section \<open>The checker\<close>

text \<open>A node's result: its checked value and the terms it adds to the arena.\<close>

type_synonym 'x node_result = "signed_error + ('x checked_value \<times> checked_term list)"

definition affine_result :: "nat \<Rightarrow> signed_claim \<Rightarrow> signed_claim \<Rightarrow> 'x node_result" where
  "affine_result node expected result =
     (if same_int32_claim expected result then Inr (Checked_Affine expected, [])
      else Inl (Signed_NodeResultMismatch node))"

definition interval_result ::
  "nat \<Rightarrow> signed_interval \<Rightarrow> signed_interval \<Rightarrow> checked_term \<Rightarrow> checked_term list \<Rightarrow> 'x node_result" where
  "interval_result node expected result t made =
     (if expected = result then Inr (Checked_Interval expected t, made)
      else Inl (Signed_NodeResultMismatch node))"

definition bound_interval ::
  "nat \<Rightarrow> bool \<Rightarrow> signed_claim \<Rightarrow> 'x bv \<Rightarrow> int \<Rightarrow> int \<Rightarrow> 'x node_result" where
  "bound_interval node root source t lower upper =
     attempt (or_error (atom_key t) (Signed_InvalidOperator node)) (\<lambda>atom.
       if is_opaque_root atom \<noteq> root then Inl (Signed_InvalidOperator node)
       else
         attempt (or_error (affine_term_bounds source atom) (Signed_InvalidEndpoint node)) (\<lambda>expected.
           if (lower, upper) \<noteq> expected then Inl (Signed_NodeResultMismatch node)
           else Inr (Checked_Interval (int32_interval lower upper) (Checked_Atom atom), [Checked_Atom atom])))"

definition same_remainder :: "checked_term \<Rightarrow> 32 word \<Rightarrow> checked_term \<Rightarrow> bool" where
  "same_remainder operand divisor rest = (case (operand, rest) of
     (Checked_Atom base, Checked_Atom actual) \<Rightarrow>
       Token_Binary Op_Remainder # base @ [Token_Constant divisor] = actual
   | _ \<Rightarrow> Checked_Binary Checked_Remainder operand (constant_atom divisor) = rest)"

definition bounded_remainder :: "32 word \<Rightarrow> signed_interval \<Rightarrow> bool" where
  "bounded_remainder divisor operand \<longleftrightarrow>
     divisor \<noteq> 0 \<and> \<not> (divisor = - 1 \<and> si_lower operand \<le> signed_min \<and> si_upper operand \<ge> signed_min)"

text \<open>One definition for each kind of node that does more than one test.\<close>

definition check_premise ::
  "('x bv \<Rightarrow> 'x bv) \<Rightarrow> 'x prop_term list \<Rightarrow> nat \<Rightarrow> nat
   \<Rightarrow> signed_claim \<Rightarrow> 'x node_result"
where [simp]:
  "check_premise canonical premises node index result =
     attempt (element premises index (Signed_InvalidPremise index)) (\<lambda>premise.
     attempt (or_error (affine_claim canonical premise) (Signed_UnsupportedPremise index)) (\<lambda>expected.
       affine_result node expected result))"

definition check_scale ::
  "'x signed_state \<Rightarrow> nat \<Rightarrow> nat \<Rightarrow> int
   \<Rightarrow> signed_claim \<Rightarrow> 'x node_result"
where [simp]:
  "check_scale state node source k result =
     attempt (affine_at (checked_values state) source) (\<lambda>source.
       if sc_relation source = Signed_LessEqual \<and> k < 0
         \<or> sc_relation source = Signed_Disequal \<and> k = 0
       then Inl (Signed_InvalidCoefficient node)
       else affine_result node (scale_signed source k) result)"

definition check_add ::
  "'x signed_state \<Rightarrow> nat \<Rightarrow> nat \<Rightarrow> nat
   \<Rightarrow> signed_claim \<Rightarrow> 'x node_result"
where [simp]:
  "check_add state node left right result =
     attempt (affine_at (checked_values state) left) (\<lambda>left.
     attempt (affine_at (checked_values state) right) (\<lambda>right.
       if sc_relation left \<noteq> sc_relation right \<or> sc_relation left = Signed_Disequal
       then Inl (Signed_InvalidRelation node)
       else
         attempt (or_error (add_signed left right) (Signed_Overflow node)) (\<lambda>expected.
           affine_result node expected result)))"

definition check_equality_to_less_equal ::
  "'x signed_state \<Rightarrow> nat \<Rightarrow> nat \<Rightarrow> bool
   \<Rightarrow> signed_claim \<Rightarrow> 'x node_result"
where [simp]:
  "check_equality_to_less_equal state node source turned result =
     attempt (affine_at (checked_values state) source) (\<lambda>source.
       if sc_relation source \<noteq> Signed_Equal then Inl (Signed_InvalidRelation node)
       else affine_result node
         (if turned then negate_signed source Signed_LessEqual else source\<lparr>sc_relation := Signed_LessEqual\<rparr>)
         result)"

definition check_equality_from_bounds ::
  "'x signed_state \<Rightarrow> nat \<Rightarrow> nat \<Rightarrow> nat
   \<Rightarrow> signed_claim \<Rightarrow> 'x node_result"
where [simp]:
  "check_equality_from_bounds state node lower upper result =
     attempt (affine_at (checked_values state) lower) (\<lambda>lower.
     attempt (affine_at (checked_values state) upper) (\<lambda>upper.
       if sc_relation lower \<noteq> Signed_LessEqual \<or> sc_relation upper \<noteq> Signed_LessEqual
       then Inl (Signed_InvalidRelation node)
       else
         attempt (or_error (equality_from_bounds lower upper) (Signed_InvalidRelation node)) (\<lambda>expected.
           affine_result node expected result)))"

definition check_strict_from_disequal ::
  "'x signed_state \<Rightarrow> nat \<Rightarrow> nat \<Rightarrow> nat
   \<Rightarrow> signed_claim \<Rightarrow> 'x node_result"
where [simp]:
  "check_strict_from_disequal state node bound disequal result =
     attempt (affine_at (checked_values state) bound) (\<lambda>bound.
     attempt (affine_at (checked_values state) disequal) (\<lambda>disequal.
       if sc_relation bound \<noteq> Signed_LessEqual \<or> sc_relation disequal \<noteq> Signed_Disequal
       then Inl (Signed_InvalidRelation node)
       else
         attempt (or_error (strict_from_disequal bound disequal) (Signed_InvalidRelation node)) (\<lambda>expected.
           affine_result node expected result)))"

definition check_interval_atom ::
  "nat \<Rightarrow> signed_carrier \<Rightarrow> 'x bv \<Rightarrow> int \<Rightarrow> int
   \<Rightarrow> 'x node_result"
where [simp]:
  "check_interval_atom node carrier t lower upper =
     attempt (require_int32 carrier) (\<lambda>_.
       if lower > upper \<or> lower < signed_min \<or> upper > signed_max then Inl (Signed_InvalidEndpoint node)
       else
         attempt (or_error (atom_key t) (Signed_InvalidOperator node)) (\<lambda>atom.
           let valid_atom = (is_opaque_root atom \<and> (lower, upper) = (signed_min, signed_max));
               valid_constant = (case as_const t of
                  None \<Rightarrow> False | Some w \<Rightarrow> (lower, upper) = (sint w, sint w))
           in if \<not> valid_atom \<and> \<not> valid_constant then Inl (Signed_InvalidOperator node)
              else Inr (Checked_Interval \<lparr>si_carrier = carrier, si_lower = lower, si_upper = upper\<rparr>
                          (Checked_Atom atom), [Checked_Atom atom])))"

definition check_interval_intersect ::
  "'x signed_state \<Rightarrow> nat \<Rightarrow> nat \<Rightarrow> nat
   \<Rightarrow> signed_interval \<Rightarrow> 'x node_result"
where [simp]:
  "check_interval_intersect state node left right result =
     attempt (interval_at (checked_values state) left) (\<lambda>(i, t).
     attempt (interval_at (checked_values state) right) (\<lambda>(j, u).
       if si_carrier i \<noteq> si_carrier j \<or> t \<noteq> u then Inl (Signed_InvalidRelation node)
       else
         (let expected = i\<lparr>si_lower := max (si_lower i) (si_lower j), si_upper := min (si_upper i) (si_upper j)\<rparr> in
          if si_lower expected > si_upper expected then Inl Signed_DoesNotFollow
          else interval_result node expected result t [])))"

definition check_defined_premise ::
  "'x prop_term list \<Rightarrow> nat \<Rightarrow> nat \<Rightarrow> signed_carrier
   \<Rightarrow> 'x bv \<Rightarrow> 'x node_result"
where [simp]:
  "check_defined_premise premises node index carrier t =
     attempt (require_int32 carrier) (\<lambda>_.
     attempt (element premises index (Signed_InvalidPremise index)) (\<lambda>premise.
       if \<not> is_exact_definedness premise t then Inl (Signed_InvalidDefinedness node)
       else Inr (Checked_Defined carrier t, [])))"

definition check_interval_add ::
  "('x bv \<Rightarrow> 'x bv) \<Rightarrow> 'x signed_state \<Rightarrow> nat \<Rightarrow> nat
   \<Rightarrow> nat \<Rightarrow> nat \<Rightarrow> signed_interval \<Rightarrow> 'x node_result"
where [simp]:
  "check_interval_add canonical state node left right defined result =
     attempt (interval_at (checked_values state) left) (\<lambda>(i, tp).
     attempt (interval_at (checked_values state) right) (\<lambda>(j, tq).
       let t = Checked_Binary Checked_Add tp tq in
       attempt (require_defined canonical (checked_values state) defined t node) (\<lambda>_.
       attempt (interval_add i j node True) (\<lambda>expected. interval_result node expected result t [t]))))"

definition check_interval_add_bounded ::
  "'x signed_state \<Rightarrow> nat \<Rightarrow> nat \<Rightarrow> nat
   \<Rightarrow> signed_interval \<Rightarrow> 'x node_result"
where [simp]:
  "check_interval_add_bounded state node left right result =
     attempt (interval_at (checked_values state) left) (\<lambda>(i, tp).
     attempt (interval_at (checked_values state) right) (\<lambda>(j, tq).
       let t = Checked_Binary Checked_Add tp tq in
       attempt (interval_add i j node False) (\<lambda>expected. interval_result node expected result t [t])))"

definition check_interval_subtract ::
  "('x bv \<Rightarrow> 'x bv) \<Rightarrow> 'x signed_state \<Rightarrow> nat \<Rightarrow> nat
   \<Rightarrow> nat \<Rightarrow> nat \<Rightarrow> signed_interval \<Rightarrow> 'x node_result"
where [simp]:
  "check_interval_subtract canonical state node left right defined result =
     attempt (interval_at (checked_values state) left) (\<lambda>(i, tp).
     attempt (interval_at (checked_values state) right) (\<lambda>(j, tq).
       let t = Checked_Binary Checked_Subtract tp tq in
       attempt (interval_subtract i j node) (\<lambda>expected.
       attempt (require_defined_or_bounded canonical (checked_values state) defined t tp node) (\<lambda>_.
         interval_result node expected result t [t]))))"

definition check_interval_multiply ::
  "('x bv \<Rightarrow> 'x bv) \<Rightarrow> 'x signed_state \<Rightarrow> nat \<Rightarrow> nat
   \<Rightarrow> nat \<Rightarrow> nat \<Rightarrow> signed_interval \<Rightarrow> 'x node_result"
where [simp]:
  "check_interval_multiply canonical state node left right defined result =
     attempt (interval_at (checked_values state) left) (\<lambda>(i, tp).
     attempt (interval_at (checked_values state) right) (\<lambda>(j, tq).
       let t = Checked_Binary Checked_Multiply tp tq in
       attempt (interval_multiply i j node) (\<lambda>expected.
       attempt (require_defined_or_bounded canonical (checked_values state) defined t tp node) (\<lambda>_.
         interval_result node expected result t [t]))))"

definition check_interval_remainder_add ::
  "'x signed_state \<Rightarrow> nat \<Rightarrow> nat \<Rightarrow> nat \<Rightarrow> 32 word
   \<Rightarrow> 32 word \<Rightarrow> signed_interval \<Rightarrow> 'x node_result"
where [simp]:
  "check_interval_remainder_add state node operand rest addend divisor result =
     attempt (interval_at (checked_values state) operand) (\<lambda>(i, t).
     attempt (interval_at (checked_values state) rest) (\<lambda>(j, u).
     attempt (interval_remainder_add i j addend divisor node) (\<lambda>expected.
       if \<not> same_remainder t divisor u then Inl (Signed_InvalidOperator node)
       else
         (let total = Checked_Binary Checked_Add t (constant_atom addend);
              kept = Checked_Binary Checked_Remainder total (constant_atom divisor)
          in interval_result node expected result kept
               [constant_atom divisor, Checked_Binary Checked_Remainder t (constant_atom divisor),
                constant_atom addend, total, kept]))))"

definition check_interval_remainder ::
  "('x bv \<Rightarrow> 'x bv) \<Rightarrow> 'x signed_state \<Rightarrow> nat \<Rightarrow> nat
   \<Rightarrow> 32 word \<Rightarrow> nat \<Rightarrow> signed_interval \<Rightarrow> 'x node_result"
where [simp]:
  "check_interval_remainder canonical state node operand divisor defined result =
     attempt (interval_at (checked_values state) operand) (\<lambda>(i, t).
       let kept = Checked_Binary Checked_Remainder t (constant_atom divisor) in
       attempt (interval_remainder i divisor node) (\<lambda>expected.
       attempt
         (if bounded_remainder divisor i
          then require_defined_or_bounded canonical (checked_values state) defined kept t node
          else require_defined canonical (checked_values state) defined kept node) (\<lambda>_.
         interval_result node expected result kept [constant_atom divisor, kept])))"

definition check_interval_shift_left ::
  "('x bv \<Rightarrow> 'x bv) \<Rightarrow> 'x signed_state \<Rightarrow> nat \<Rightarrow> nat
   \<Rightarrow> 32 word \<Rightarrow> nat \<Rightarrow> signed_interval \<Rightarrow> 'x node_result"
where [simp]:
  "check_interval_shift_left canonical state node operand shift defined result =
     attempt (interval_at (checked_values state) operand) (\<lambda>(i, t).
       let shifted = Checked_Binary Checked_ShiftLeft t (constant_atom shift) in
       attempt (interval_shift_left i shift node) (\<lambda>expected.
       attempt (require_defined_or_bounded canonical (checked_values state) defined shifted t node) (\<lambda>_.
         interval_result node expected result shifted [constant_atom shift, shifted])))"

definition check_interval_shift_right ::
  "'x signed_state \<Rightarrow> nat \<Rightarrow> nat \<Rightarrow> 32 word
   \<Rightarrow> signed_interval \<Rightarrow> 'x node_result"
where [simp]:
  "check_interval_shift_right state node operand shift result =
     attempt (interval_at (checked_values state) operand) (\<lambda>(i, t).
       let shifted = Checked_Binary Checked_ArithmeticShiftRight t (constant_atom shift) in
       attempt (interval_shift_right i shift node) (\<lambda>expected.
         interval_result node expected result shifted [constant_atom shift, shifted]))"

definition check_interval_mask ::
  "'x signed_state \<Rightarrow> nat \<Rightarrow> nat \<Rightarrow> 32 word
   \<Rightarrow> signed_interval \<Rightarrow> 'x node_result"
where [simp]:
  "check_interval_mask state node operand m result =
     attempt (interval_at (checked_values state) operand) (\<lambda>(i, t).
       let masked = Checked_Binary Checked_BitwiseAnd t (constant_atom m) in
       attempt (interval_mask i m node) (\<lambda>expected.
         interval_result node expected result masked [constant_atom m, masked]))"

definition check_interval_narrowed ::
  "'x signed_state \<Rightarrow> nat \<Rightarrow> nat \<Rightarrow> machine_integer_type
   \<Rightarrow> machine_integer_type \<Rightarrow> signed_interval \<Rightarrow> 'x node_result"
where [simp]:
  "check_interval_narrowed state node operand source destination result =
     attempt (interval_at (checked_values state) operand) (\<lambda>(i, t).
       let converted = Checked_Cast source destination t in
       attempt (interval_narrowed i source destination node) (\<lambda>expected.
         interval_result node expected result converted [converted]))"

definition check_interval_sign_flip ::
  "'x signed_state \<Rightarrow> nat \<Rightarrow> nat \<Rightarrow> signed_interval
   \<Rightarrow> 'x node_result"
where [simp]:
  "check_interval_sign_flip state node operand result =
     attempt (interval_at (checked_values state) operand) (\<lambda>(i, t).
       let flipped = Checked_Binary Checked_BitwiseXor t (constant_atom sign_bit) in
       interval_result node (interval_sign_flip i) result flipped [constant_atom sign_bit, flipped])"

definition check_interval_compare ::
  "('x bv \<Rightarrow> 'x bv) \<Rightarrow> 'x signed_state \<Rightarrow> nat \<Rightarrow> nat
   \<Rightarrow> nat \<Rightarrow> signed_order \<Rightarrow> 'x prop_term \<Rightarrow> 'x node_result"
where [simp]:
  "check_interval_compare canonical state node left right order result =
     attempt (interval_at (checked_values state) left) (\<lambda>(i, tp).
     attempt (interval_at (checked_values state) right) (\<lambda>(j, tq).
       if si_carrier i \<noteq> SignedInt32 \<or> si_carrier j \<noteq> SignedInt32 then Inl Signed_UnsupportedCarrier
       else if \<not> comparison_proposition_matches canonical result tp tq order
         \<or> \<not> interval_proves i j order \<and> \<not> term_interval_proves tp tq i order
       then Inl (Signed_NodeResultMismatch node)
       else Inr (Checked_Proposition result, [])))"

definition check_affine_premise ::
  "('x bv \<Rightarrow> 'x bv) \<Rightarrow> 'x signed_node list \<Rightarrow> 'x prop_term list
   \<Rightarrow> 'x signed_state \<Rightarrow> nat \<Rightarrow> nat \<Rightarrow> nat \<Rightarrow> nat
   \<Rightarrow> signed_claim \<Rightarrow> 'x node_result"
where [simp]:
  "check_affine_premise canonical nodes premises state node source left right result =
     attempt (affine_at (checked_values state) source) (\<lambda>_.
     attempt
       (if source < length nodes then
          (case nodes ! source of
             Node_Premise index _ \<Rightarrow> Inr index
           | _ \<Rightarrow> Inl (Signed_InvalidNodeReference source))
        else Inl (Signed_InvalidNodeReference source)) (\<lambda>index.
     attempt (element premises index (Signed_InvalidPremise index)) (\<lambda>premise.
     attempt (or_error (evidence_claim canonical nodes state left right premise)
                (Signed_NodeResultMismatch node)) (\<lambda>expected.
       affine_result node expected result))))"

definition check_affine_conclusion ::
  "('x bv \<Rightarrow> 'x bv) \<Rightarrow> 'x signed_node list \<Rightarrow> 'x signed_state
   \<Rightarrow> nat \<Rightarrow> nat \<Rightarrow> nat \<Rightarrow> 'x prop_term
   \<Rightarrow> 'x node_result"
where [simp]:
  "check_affine_conclusion canonical nodes state node source evidence result =
     attempt (affine_at (checked_values state) source) (\<lambda>claim.
     attempt (interval_at (checked_values state) evidence) (\<lambda>_.
     attempt (or_error (evidence_claim canonical nodes state evidence evidence result)
                (Signed_NodeResultMismatch node)) (\<lambda>expected.
       if \<not> same_int32_claim expected claim then Inl (Signed_NodeResultMismatch node)
       else Inr (Checked_Proposition result, []))))"

definition check_affine_conclusion_with_evidence ::
  "('x bv \<Rightarrow> 'x bv) \<Rightarrow> 'x signed_node list \<Rightarrow> 'x signed_state
   \<Rightarrow> nat \<Rightarrow> nat \<Rightarrow> nat \<Rightarrow> nat \<Rightarrow> 'x prop_term
   \<Rightarrow> 'x node_result"
where [simp]:
  "check_affine_conclusion_with_evidence canonical nodes state node source left right result =
     attempt (affine_at (checked_values state) source) (\<lambda>claim.
     attempt (interval_at (checked_values state) left) (\<lambda>_.
     attempt (interval_at (checked_values state) right) (\<lambda>_.
     attempt (or_error (evidence_claim canonical nodes state left right result)
                (Signed_NodeResultMismatch node)) (\<lambda>expected.
       if \<not> same_int32_claim expected claim then Inl (Signed_NodeResultMismatch node)
       else Inr (Checked_Proposition result, [])))))"

fun check_signed_node ::
  "('x bv \<Rightarrow> 'x bv) \<Rightarrow> 'x signed_node list \<Rightarrow> 'x prop_term list \<Rightarrow> 'x signed_state \<Rightarrow> nat
   \<Rightarrow> 'x signed_node \<Rightarrow> 'x node_result"
where
  "check_signed_node canonical nodes premises state node (Node_Premise index result) =
     check_premise canonical premises node index result"
| "check_signed_node canonical nodes premises state node (Node_Scale source k result) =
     check_scale state node source k result"
| "check_signed_node canonical nodes premises state node (Node_Add left right result) =
     check_add state node left right result"
| "check_signed_node canonical nodes premises state node (Node_EqualityToLessEqual source turned result) =
     check_equality_to_less_equal state node source turned result"
| "check_signed_node canonical nodes premises state node (Node_EqualityFromBounds lower upper result) =
     check_equality_from_bounds state node lower upper result"
| "check_signed_node canonical nodes premises state node (Node_StrictFromDisequal bound disequal result) =
     check_strict_from_disequal state node bound disequal result"
| "check_signed_node canonical nodes premises state node (Node_Trivial result) =
     (if \<not> is_trivial result \<or> sc_carrier result \<noteq> SignedInt32 then Inl (Signed_NodeResultMismatch node)
      else Inr (Checked_Affine result, []))"
| "check_signed_node canonical nodes premises state node (Node_Int32Range result) =
     (if sc_carrier result \<noteq> SignedInt32 \<or> \<not> is_int32_range_bound result
      then Inl (Signed_NodeResultMismatch node)
      else Inr (Checked_Affine result, []))"
| "check_signed_node canonical nodes premises state node (IntervalFromAffine source t lower upper) =
     attempt (affine_at (checked_values state) source) (\<lambda>source.
       bound_interval node True source t lower upper)"
| "check_signed_node canonical nodes premises state node (IntervalFromAffineDirect source t lower upper) =
     attempt (affine_at (checked_values state) source) (\<lambda>source.
       bound_interval node False source t lower upper)"
| "check_signed_node canonical nodes premises state node (IntervalAtom carrier t lower upper) =
     check_interval_atom node carrier t lower upper"
| "check_signed_node canonical nodes premises state node (IntervalIntersect left right result) =
     check_interval_intersect state node left right result"
| "check_signed_node canonical nodes premises state node (DefinedPremise index carrier t) =
     check_defined_premise premises node index carrier t"
| "check_signed_node canonical nodes premises state node (IntervalAdd left right defined result) =
     check_interval_add canonical state node left right defined result"
| "check_signed_node canonical nodes premises state node (IntervalAddBounded left right result) =
     check_interval_add_bounded state node left right result"
| "check_signed_node canonical nodes premises state node (IntervalSubtract left right defined result) =
     check_interval_subtract canonical state node left right defined result"
| "check_signed_node canonical nodes premises state node (IntervalMultiply left right defined result) =
     check_interval_multiply canonical state node left right defined result"
| "check_signed_node canonical nodes premises state node (IntervalRemainderAdd operand rest addend divisor result) =
     check_interval_remainder_add state node operand rest addend divisor result"
| "check_signed_node canonical nodes premises state node (IntervalRemainder operand divisor defined result) =
     check_interval_remainder canonical state node operand divisor defined result"
| "check_signed_node canonical nodes premises state node (IntervalShiftLeft operand shift defined result) =
     check_interval_shift_left canonical state node operand shift defined result"
| "check_signed_node canonical nodes premises state node (IntervalArithmeticShiftRight operand shift result) =
     check_interval_shift_right state node operand shift result"
| "check_signed_node canonical nodes premises state node (IntervalBitwiseAnd operand m result) =
     check_interval_mask state node operand m result"
| "check_signed_node canonical nodes premises state node (IntervalNarrowedCast operand source destination result) =
     check_interval_narrowed state node operand source destination result"
| "check_signed_node canonical nodes premises state node (IntervalSignBitFlip operand result) =
     check_interval_sign_flip state node operand result"
| "check_signed_node canonical nodes premises state node (IntervalCompare left right order result) =
     check_interval_compare canonical state node left right order result"
| "check_signed_node canonical nodes premises state node (AffinePremise source left right result) =
     check_affine_premise canonical nodes premises state node source left right result"
| "check_signed_node canonical nodes premises state node (AffineConclusion source evidence result) =
     check_affine_conclusion canonical nodes state node source evidence result"
| "check_signed_node canonical nodes premises state node (AffineConclusionWithEvidence source left right result) =
     check_affine_conclusion_with_evidence canonical nodes state node source left right result"

fun check_signed_nodes ::
  "('x signed_state \<Rightarrow> nat \<Rightarrow> 'x signed_node \<Rightarrow> 'x node_result) \<Rightarrow> 'x signed_state \<Rightarrow> 'x signed_node list
   \<Rightarrow> signed_error + 'x signed_state"
where
  "check_signed_nodes step state [] = Inr state"
| "check_signed_nodes step state (node # nodes) =
     attempt (step state (length (checked_values state)) node) (\<lambda>(value, made).
       check_signed_nodes step
         \<lparr>checked_values = checked_values state @ [value], arena_terms = arena_terms state @ made\<rparr> nodes)"

definition conclusion_matches :: "('x bv \<Rightarrow> 'x bv) \<Rightarrow> 'x checked_value \<Rightarrow> 'x prop_term \<Rightarrow> bool" where
  "conclusion_matches canonical checked goal = (case checked of
     Checked_Affine claim \<Rightarrow>
       (case affine_claim canonical goal of
          None \<Rightarrow> False
        | Some expected \<Rightarrow> expected = claim \<or> trivially_true_claims expected claim)
   | Checked_Proposition p \<Rightarrow> propositions_match canonical p goal
   | _ \<Rightarrow> False)"

definition check_signed ::
  "('x bv \<Rightarrow> 'x bv) \<Rightarrow> 'x signed_certificate \<Rightarrow> 'x prop_term \<Rightarrow> 'x prop_term list \<Rightarrow> signed_error + unit"
where
  "check_signed canonical certificate goal premises =
     (let nodes = signed_nodes certificate; conclusion = signed_conclusion certificate in
      if conclusion \<ge> length nodes then Inl (Signed_InvalidNodeReference conclusion)
      else
        attempt (check_signed_nodes (check_signed_node canonical nodes premises)
                   \<lparr>checked_values = [], arena_terms = []\<rparr> nodes) (\<lambda>state.
        attempt (element (checked_values state) conclusion (Signed_InvalidNodeReference conclusion)) (\<lambda>checked.
          if conclusion_matches canonical checked goal then Inr () else Inl Signed_DoesNotFollow)))"

text \<open>
  Whether two source propositions are the same premise: the same claim, or the definedness
  of the same operation on the same identities.
\<close>

definition exact_definedness_parts :: "'x prop_term \<Rightarrow> (nat \<times> 'x bv \<times> 'x bv) option" where
  "exact_definedness_parts p = (case p of
     ConditionIs (Native (Compare op left right)) value \<Rightarrow>
       (if value then None
        else
          (case op of
             Op_Bitvector32SignedAddOverflows \<Rightarrow> Some (0, left, right)
           | Op_Bitvector32SignedSubtractOverflows \<Rightarrow> Some (1, left, right)
           | Op_Bitvector32SignedMultiplyOverflows \<Rightarrow> Some (2, left, right)
           | Op_Bitvector32SignedShiftLeftOverflows \<Rightarrow> Some (3, left, right)
           | Op_Bitvector32SignedDivideOverflows \<Rightarrow> Some (4, left, right)
           | _ \<Rightarrow> None))
   | _ \<Rightarrow> None)"

definition signed_arithmetic_terms_equal :: "'x bv \<Rightarrow> 'x bv \<Rightarrow> bool" where
  "signed_arithmetic_terms_equal left right \<longleftrightarrow> atom_key left \<noteq> None \<and> atom_key left = atom_key right"

definition signed_arithmetic_source_matches ::
  "('x bv \<Rightarrow> 'x bv) \<Rightarrow> 'x prop_term \<Rightarrow> 'x prop_term \<Rightarrow> bool" where
  "signed_arithmetic_source_matches canonical left right =
     (case (affine_claim canonical left, affine_claim canonical right) of
        (Some a, Some b) \<Rightarrow> a = b
      | _ \<Rightarrow>
          (case (exact_definedness_parts left, exact_definedness_parts right) of
             (Some (op, a, b), Some (op', a', b')) \<Rightarrow>
               op = op' \<and> signed_arithmetic_terms_equal a a' \<and> signed_arithmetic_terms_equal b b'
           | _ \<Rightarrow> False))"

section \<open>What checked values say\<close>

text \<open>A checked term whose root is an atom has the identity of some term.\<close>

definition rooted :: "'x itself \<Rightarrow> checked_term \<Rightarrow> bool" where
  "rooted ty t \<longleftrightarrow> (case t of Checked_Atom atom \<Rightarrow> \<exists>u :: 'x bv. atom_key u = Some atom | _ \<Rightarrow> True)"

text \<open>Whatever a walk from a node finds has the number of the node's term.\<close>

definition evidence_exact ::
  "('x bv \<Rightarrow> 'x bv) \<Rightarrow> 'x valuation \<Rightarrow> 'x signed_node list \<Rightarrow> nat \<Rightarrow> checked_term \<Rightarrow> bool" where
  "evidence_exact canonical \<rho> nodes index t \<longleftrightarrow>
     (\<forall>state root fuel u form.
        interval_affine_evidence canonical nodes state root fuel index = Some (u, form)
        \<longrightarrow> form_value \<rho> form = checked_number \<rho> t)"

definition defined_ok :: "'x meaning \<Rightarrow> 'x bv \<Rightarrow> bool" where
  "defined_ok M t \<longleftrightarrow> (\<exists>p. holds M p \<and> is_exact_definedness p t)"

definition value_ok ::
  "('x bv \<Rightarrow> 'x bv) \<Rightarrow> 'x meaning \<Rightarrow> 'x signed_node list \<Rightarrow> 'x checked_value list \<Rightarrow> nat
   \<Rightarrow> 'x checked_value \<Rightarrow> bool"
where
  "value_ok canonical M nodes checked index v = (case v of
     Checked_Interval i t \<Rightarrow>
       inside (machine_values M) i t \<and> rooted TYPE('x) t
       \<and> evidence_exact canonical (machine_values M) nodes index t
       \<and> (\<forall>other. evidence_shape (nodes ! index) = Evidence_Same other
            \<longrightarrow> other < index \<and> term_at checked other = Some t)
   | Checked_Affine claim \<Rightarrow> evidence_shape (nodes ! index) = No_Evidence \<and> signed_holds (machine_values M) claim
   | Checked_Defined _ t \<Rightarrow> evidence_shape (nodes ! index) = No_Evidence \<and> defined_ok M t
   | Checked_Proposition p \<Rightarrow> evidence_shape (nodes ! index) = No_Evidence \<and> holds M p)"

definition checked_ok ::
  "('x bv \<Rightarrow> 'x bv) \<Rightarrow> 'x meaning \<Rightarrow> 'x signed_node list \<Rightarrow> 'x checked_value list \<Rightarrow> bool" where
  "checked_ok canonical M nodes checked \<longleftrightarrow>
     (\<forall>index < length checked. value_ok canonical M nodes checked index (checked ! index))"

lemma affine_at_Inr: "affine_at checked index = Inr claim \<longleftrightarrow> index < length checked \<and> checked ! index = Checked_Affine claim"
  by (auto simp: affine_at_def split: checked_value.splits)

lemma interval_at_Inr:
  "interval_at checked index = Inr x \<longleftrightarrow> index < length checked \<and> checked ! index = Checked_Interval (fst x) (snd x)"
  by (cases x) (auto simp: interval_at_def split: checked_value.splits)

lemma term_at_Some:
  "term_at checked index = Some t \<longleftrightarrow> index < length checked \<and> (\<exists>i. checked ! index = Checked_Interval i t)"
  by (auto simp: term_at_def split: checked_value.splits)

lemma affine_at_holds:
  assumes "checked_ok canonical M nodes checked" and "affine_at checked index = Inr claim"
  shows "signed_holds (machine_values M) claim"
  using assms by (auto simp: checked_ok_def affine_at_Inr value_ok_def dest!: spec [of _ index])

lemma interval_at_inside:
  fixes canonical :: "'x bv \<Rightarrow> 'x bv"
  assumes "checked_ok canonical M nodes checked" and "interval_at checked index = Inr (i, t)"
  shows "inside (machine_values M) i t" and "rooted TYPE('x) t"
    and "evidence_exact canonical (machine_values M) nodes index t"
    and "index < length checked" and "term_at checked index = Some t"
  using assms by (auto simp: checked_ok_def interval_at_Inr value_ok_def term_at_Some dest!: spec [of _ index])

section \<open>The walk finds the number of a term\<close>

lemma filed_under_Some: "filed_under t form = Some (u, g) \<longleftrightarrow> t = Some u \<and> form = Some g"
  by (cases t; cases form) (auto simp: filed_under_def)

lemma both_forms_Some:
  "both_forms f l r = Some g \<longleftrightarrow> (\<exists>t a u b. l = Some (t, a) \<and> r = Some (u, b) \<and> f a b = Some g)"
  by (auto simp: both_forms_def bind_eq_Some_conv)

lemma form_values:
  "form_value \<rho> (form_sum l r) = form_value \<rho> l + form_value \<rho> r"
  "form_value \<rho> (form_difference l r) = form_value \<rho> l - form_value \<rho> r"
  by (simp_all add: form_sum_def form_difference_def form_value_def worth_add_terms worth_uminus)

lemma form_value_scale: "form_value \<rho> (form_scale k form) = k * form_value \<rho> form"
  using worth_linear [of "fmmap (\<lambda>c. c * k) (fst form)" k "fst form" 0 fmempty "atom_reading \<rho>"]
  by (simp add: form_value_def form_scale_def algebra_simps)

lemma form_product_value:
  "form_product l r = Some form \<Longrightarrow> form_value \<rho> form = form_value \<rho> l * form_value \<rho> r"
  using form_value_scale [of \<rho> "snd l" r] form_value_scale [of \<rho> "snd r" l]
  by (auto simp: form_product_def form_value_def split: if_splits)

lemma affine_leaf_value:
  assumes "canonical_ok canonical \<rho>" and "affine_leaf canonical t = Some form"
  shows "form_value \<rho> form = signed_number \<rho> t"
proof (cases "as_const t")
  case None
  then obtain atom where "form = (fmupd atom 1 fmempty, 0)" "atom_key (canonical t) = Some atom"
    using assms(2) by (auto simp: affine_leaf_def)
  then show ?thesis using atom_reading_canonical [OF assms(1)] by (simp add: worth_singleton)
next
  case (Some w)
  then show ?thesis using assms(2) as_const_sound [OF Some, of \<rho>] by (auto simp: affine_leaf_def signed_number_def)
qed

lemma evidence_exactD:
  "evidence_exact canonical \<rho> nodes index t \<Longrightarrow>
   interval_affine_evidence canonical nodes state root fuel index = Some (u, form) \<Longrightarrow>
   form_value \<rho> form = checked_number \<rho> t"
  unfolding evidence_exact_def by blast

text \<open>One lemma for each way a node enters the walk.\<close>

lemma evidence_leaf:
  assumes "canonical_ok canonical \<rho>" and "evidence_shape (nodes ! index) = Evidence_Leaf u"
    and "checked_number \<rho> t = signed_number \<rho> u"
  shows "evidence_exact canonical \<rho> nodes index t"
  unfolding evidence_exact_def
proof (intro allI impI)
  fix state root fuel v form
  assume "interval_affine_evidence canonical nodes state root fuel index = Some (v, form)"
  then have "affine_leaf canonical u = Some form"
    using assms(2) by (cases fuel) (auto simp: filed_under_Some split: if_splits)
  then show "form_value \<rho> form = checked_number \<rho> t" using affine_leaf_value [OF assms(1)] assms(3) by simp
qed

lemma evidence_none: "evidence_shape (nodes ! index) = No_Evidence \<Longrightarrow> interval_affine_evidence canonical nodes state root fuel index = None"
  by (cases fuel) simp_all

lemma evidence_pair:
  assumes exact: "evidence_exact canonical \<rho> nodes left tp" "evidence_exact canonical \<rho> nodes right tq"
    and shape: "evidence_shape (nodes ! index) = Evidence_Sum left right \<and> v = checked_number \<rho> tp + checked_number \<rho> tq
      \<or> evidence_shape (nodes ! index) = Evidence_Difference left right \<and> v = checked_number \<rho> tp - checked_number \<rho> tq
      \<or> evidence_shape (nodes ! index) = Evidence_Product left right \<and> v = checked_number \<rho> tp * checked_number \<rho> tq"
    and "checked_number \<rho> t = v"
  shows "evidence_exact canonical \<rho> nodes index t"
  unfolding evidence_exact_def
proof (intro allI impI)
  fix state root fuel u form
  assume walk: "interval_affine_evidence canonical nodes state root fuel index = Some (u, form)"
  then obtain fuel' where fuel: "fuel = Suc fuel'" by (cases fuel) simp_all
  let ?visit = "interval_affine_evidence canonical nodes state root fuel'"
  have parts: "\<exists>p a q b. ?visit left = Some (p, a) \<and> ?visit right = Some (q, b) \<and> f a b = Some form"
    if "both_forms f (?visit left) (?visit right) = Some form" for f
    using that by (auto simp: both_forms_Some)
  have sides: "form_value \<rho> a = checked_number \<rho> tp" "form_value \<rho> b = checked_number \<rho> tq"
    if "?visit left = Some (p, a)" "?visit right = Some (q, b)" for p a q b
    using evidence_exactD [OF exact(1) that(1)] evidence_exactD [OF exact(2) that(2)] .
  consider "both_forms (\<lambda>l r. Some (form_sum l r)) (?visit left) (?visit right) = Some form"
      "v = checked_number \<rho> tp + checked_number \<rho> tq"
    | "both_forms (\<lambda>l r. Some (form_difference l r)) (?visit left) (?visit right) = Some form"
      "v = checked_number \<rho> tp - checked_number \<rho> tq"
    | "both_forms form_product (?visit left) (?visit right) = Some form"
      "v = checked_number \<rho> tp * checked_number \<rho> tq"
    using walk shape by (auto simp: fuel Let_def filed_under_Some split: if_splits)
  then show "form_value \<rho> form = checked_number \<rho> t"
  proof cases
    case 1
    then show ?thesis using parts [OF 1(1)] sides assms(4) form_values(1) by (metis option.inject)
  next
    case 2
    then show ?thesis using parts [OF 2(1)] sides assms(4) form_values(2) by (metis option.inject)
  next
    case 3
    then show ?thesis using parts [OF 3(1)] sides assms(4) form_product_value by metis
  qed
qed

lemma evidence_through:
  assumes "evidence_exact canonical \<rho> nodes other u"
    and "evidence_shape (nodes ! index) = Evidence_Same other \<or> evidence_shape (nodes ! index) = Evidence_Converted other"
    and "checked_number \<rho> t = checked_number \<rho> u"
  shows "evidence_exact canonical \<rho> nodes index t"
  unfolding evidence_exact_def
proof (intro allI impI)
  fix state root fuel v form
  assume walk: "interval_affine_evidence canonical nodes state root fuel index = Some (v, form)"
  then obtain fuel' where fuel: "fuel = Suc fuel'" by (cases fuel) simp_all
  obtain w where "interval_affine_evidence canonical nodes state root fuel' other = Some (w, form)"
    using walk assms(2) by (auto simp: fuel filed_under_Some bind_eq_Some_conv split: if_splits)
  then show "form_value \<rho> form = checked_number \<rho> t" using evidence_exactD [OF assms(1)] assms(3) by simp
qed

lemma evidence_unwalked:
  "evidence_shape (nodes ! index) = No_Evidence \<Longrightarrow> evidence_exact canonical \<rho> nodes index t"
  by (simp add: evidence_exact_def evidence_none)

text \<open>The form is filed under the term of the node the walk started from.\<close>

lemma evidence_filed:
  assumes "checked_ok canonical M nodes (checked_values state)"
    and "interval_affine_evidence canonical nodes state root fuel index = Some (u, form)"
    and "term_at (checked_values state) index = Some t" "term_at (checked_values state) root = Some t"
  shows "u = t"
  using assms(2,3)
proof (induction fuel arbitrary: index)
  case (Suc fuel)
  have "root_term state root = Some t" using assms(4) by (simp add: root_term_def)
  moreover have "term_at (checked_values state) other = Some t"
    if "evidence_shape (nodes ! index) = Evidence_Same other" for other
    using assms(1) Suc.prems(2) that by (auto simp: checked_ok_def term_at_Some value_ok_def)
  ultimately show ?case
    using Suc.prems Suc.IH
    by (auto simp: filed_under_Some bind_eq_Some_conv Let_def split: if_splits evidence_shape.splits)
qed simp

lemma evidence_number:
  assumes "checked_ok canonical M nodes (checked_values state)" and "index < length (checked_values state)"
    and "interval_affine_evidence canonical nodes state index fuel index = Some (t, form)"
  shows "form_value (machine_values M) form = checked_number (machine_values M) t"
proof -
  have ok: "value_ok canonical M nodes (checked_values state) index (checked_values state ! index)"
    using assms(1,2) by (simp add: checked_ok_def)
  obtain i u where v: "checked_values state ! index = Checked_Interval i u"
    using ok assms(3) by (cases "checked_values state ! index") (auto simp: value_ok_def evidence_none)
  then have at: "term_at (checked_values state) index = Some u" using assms(2) by (simp add: term_at_Some)
  have "evidence_exact canonical (machine_values M) nodes index u" using ok v by (simp add: value_ok_def)
  from evidence_exactD [OF this assms(3)] show ?thesis using evidence_filed [OF assms(1,3) at at] by simp
qed

section \<open>Claims from evidence\<close>

lemma evidence_side_value:
  assumes "canonical_ok canonical \<rho>" and "form_value \<rho> (snd evidence) = checked_number \<rho> (fst evidence)"
    and "evidence_side canonical evidence t = Some form"
  shows "form_value \<rho> form = signed_number \<rho> t"
  using assms(3) equivalent_explicit_number [OF assms(1), of "fst evidence" t] affine_leaf_value [OF assms(1), of t form]
    assms(2)
  by (auto simp: evidence_side_def split: if_splits)

lemma evidence_claim_holds:
  assumes canonical: "canonical_ok canonical (machine_values M)"
    and checked: "checked_ok canonical M nodes (checked_values state)"
    and indices: "left < length (checked_values state)" "right < length (checked_values state)"
    and claim: "evidence_claim canonical nodes state left right p = Some claim"
  shows "signed_holds (machine_values M) claim \<longleftrightarrow> holds M p"
proof -
  let ?walk = "\<lambda>index. interval_affine_evidence canonical nodes state index (length nodes) index"
  obtain e d c v relation l r strict form where walks: "?walk left = Some e" "?walk right = Some d"
    and stated: "stated_condition p = Some (c, v)" "signed_comparison (c, v) = Some (relation, l, r, strict)"
    and form: "evidence_difference canonical l r e d = Some form" and eq: "claim = signed_claim_of relation strict form"
    using claim by (auto simp: evidence_claim_def Let_def bind_eq_Some_conv split: option.splits)
  obtain a b where sides: "evidence_side canonical e l = Some a" "evidence_side canonical d r = Some b"
    and form_is: "form = form_difference a b"
    using form by (auto simp: evidence_difference_def bind_eq_Some_conv)
  have "form_value (machine_values M) (snd e) = checked_number (machine_values M) (fst e)"
    using evidence_number [OF checked indices(1), of "length nodes" "fst e" "snd e"] walks(1) by simp
  note left = evidence_side_value [OF canonical this sides(1)]
  have "form_value (machine_values M) (snd d) = checked_number (machine_values M) (fst d)"
    using evidence_number [OF checked indices(2), of "length nodes" "fst d" "snd d"] walks(2) by simp
  note right = evidence_side_value [OF canonical this sides(2)]
  have "form_value (machine_values M) form = signed_number (machine_values M) l - signed_number (machine_values M) r"
    by (simp only: form_is form_values left right)
  then show ?thesis
    using signed_comparison_holds [OF stated(2)] stated_condition_holds [OF stated(1)] eq by simp
qed

lemma comparison_matches_holds:
  assumes "canonical_ok canonical (machine_values M)"
    and "comparison_proposition_matches canonical p tp tq order"
    and "order_means order (checked_number (machine_values M) tp) (checked_number (machine_values M) tq)"
  shows "holds M p"
proof -
  obtain l r where sides: "comparison_sides order p = Some (l, r)"
    and same: "equivalent_with_sign_flip canonical tp l" "equivalent_with_sign_flip canonical tq r"
    using assms(2) by (auto simp: comparison_proposition_matches_def split: option.splits)
  have order: "order_means order (signed_number (machine_values M) l) (signed_number (machine_values M) r)"
    using assms(3) sign_flip_match_number [OF assms(1)] same by simp
  obtain op left right v where p: "p = ConditionIs (Native (Compare op left right)) v"
    using sides by (auto simp: comparison_sides_def split: prop_term.splits condition.splits cond.splits)
  show ?thesis
    using sides order unfolding p comparison_sides_def
    by (cases order; cases op; cases v;
        simp add: order_means_def compare_value_def flip: signed_number_def sint_low32_eq_iff)
qed

text \<open>Premises that match are true together.\<close>

lemma source_matches_holds:
  assumes "canonical_ok canonical (machine_values M)" and "signed_arithmetic_source_matches canonical p q"
  shows "holds M p \<longleftrightarrow> holds M q"
proof -
  consider claim where "affine_claim canonical p = Some claim" "affine_claim canonical q = Some claim"
    | op a b a' b' where "exact_definedness_parts p = Some (op, a, b)" "exact_definedness_parts q = Some (op, a', b')"
        "signed_arithmetic_terms_equal a a'" "signed_arithmetic_terms_equal b b'"
    using assms(2) by (auto simp: signed_arithmetic_source_matches_def split: option.splits)
  then show ?thesis
  proof cases
    case 1
    then show ?thesis using affine_claim_holds [OF assms(1)] by blast
  next
    case 2
    then have "a = a'" "b = b'" by (auto simp: signed_arithmetic_terms_equal_def intro: atom_key_inject)
    then have "p = q"
      using 2(1,2)
      by (auto simp: exact_definedness_parts_def split: prop_term.splits condition.splits cond.splits if_splits
          comparison.splits)
    then show ?thesis by simp
  qed
qed

section \<open>A defined operation is exact\<close>

lemma defined_sum:
  assumes "canonical_ok canonical (machine_values M)" and "defined_ok M u"
    and "equivalent_explicit canonical (Checked_Binary Checked_Add tp tq) u"
  shows "signed_min \<le> checked_number (machine_values M) tp + checked_number (machine_values M) tq
    \<and> checked_number (machine_values M) tp + checked_number (machine_values M) tq \<le> signed_max"
proof -
  let ?n = "signed_number (machine_values M)"
  obtain p where p: "holds M p" "is_exact_definedness p u" using assms(2) by (auto simp: defined_ok_def)
  then obtain op l r v op' a b where shape: "p = ConditionIs (Native (Compare op l r)) v" "u = Binary op' a b"
    by (auto simp: is_exact_definedness_def split: prop_term.splits condition.splits cond.splits bv.splits)
  have sides: "\<not> v" "l = a" "r = b" "(op, op') \<in> {(Op_Bitvector32SignedAddOverflows, Op_Add),
      (Op_Bitvector32SignedSubtractOverflows, Op_Subtract), (Op_Bitvector32SignedMultiplyOverflows, Op_Multiply),
      (Op_Bitvector32SignedShiftLeftOverflows, Op_ShiftLeft), (Op_Bitvector32SignedDivideOverflows, Op_Remainder)}"
    using p(2) by (auto simp: is_exact_definedness_def shape intro: atom_key_inject)
  then have word: "is_bitvector32 op'" by (auto simp: is_bitvector32_def)
  then have "canonical u = Binary op' (canonical a) (canonical b)"
    using assms(1) by (simp add: canonical_ok_def shape)
  then have match: "op' = Op_Add" "equivalent_explicit canonical tp a" "equivalent_explicit canonical tq b"
    using assms(3) by (simp_all add: equivalent_explicit_def machine_operator_def)
  then have "\<not> overflow32 (+) (bv_value (machine_values M) a) (bv_value (machine_values M) b)"
    using p(1) sides by (auto simp: shape compare_value_def)
  then show ?thesis
    using equivalent_explicit_number [OF assms(1)] match(2,3)
    by (auto simp: overflow32_def signed_number_def signed_min_def signed_max_def)
qed

section \<open>Every node keeps the checked values true\<close>

lemma checked_ok_append:
  assumes "checked_ok canonical M nodes checked" and "value_ok canonical M nodes checked (length checked) v"
  shows "checked_ok canonical M nodes (checked @ [v])"
proof -
  have at: "term_at (checked @ [v]) other = term_at checked other" if "other < length checked" for other
    using that by (simp add: term_at_def nth_append)
  have "value_ok canonical M nodes (checked @ [v]) index w"
    if "value_ok canonical M nodes checked index w" "index \<le> length checked" for index w
    using that at by (cases w) (auto simp: value_ok_def)
  then show ?thesis using assms by (auto simp: checked_ok_def nth_append less_Suc_eq)
qed

text \<open>
  The side conditions on a node at its place, which the checker does not ask: the evidence of
  a flattened premise is earlier, and a word converted from eight signed bits to sixteen
  unsigned ones is at most 127, so that it is the extension of its low eight bits.
\<close>

definition node_ok :: "nat \<Rightarrow> 'x signed_node \<Rightarrow> bool" where
  "node_ok index node = (case node of
     AffinePremise _ left right _ \<Rightarrow> left < index \<and> right < index
   | IntervalNarrowedCast _ source destination result \<Rightarrow>
       (source, destination) = (MInt8, MUInt16) \<longrightarrow> si_upper result \<le> 127
   | _ \<Rightarrow> True)"

lemma affine_result_ok:
  "affine_result index expected result = Inr (v, made) \<Longrightarrow> evidence_shape (nodes ! index) = No_Evidence
   \<Longrightarrow> signed_holds (machine_values M) expected \<Longrightarrow> value_ok canonical M nodes checked index v"
  by (auto simp: affine_result_def value_ok_def split: if_splits)

lemma interval_result_ok:
  fixes canonical :: "'x bv \<Rightarrow> 'x bv"
  assumes "interval_result index expected result t terms = Inr (v, made)" and "inside (machine_values M) expected t"
    and "\<forall>atom. t \<noteq> Checked_Atom atom" and "evidence_exact canonical (machine_values M) nodes index t"
    and "\<forall>other. evidence_shape (nodes ! index) \<noteq> Evidence_Same other"
  shows "value_ok canonical M nodes checked index v"
  using assms by (auto simp: interval_result_def value_ok_def rooted_def split: if_splits checked_term.splits)

lemmas node_Inr = attempt_Inr or_error_Inr element_Inr

lemma bound_interval_ok:
  assumes "canonical_ok canonical (machine_values M)" and "signed_holds (machine_values M) source"
    and "bound_interval index root source t lower upper = Inr (v, made)"
    and "evidence_shape (nodes ! index) = Evidence_Leaf t"
  shows "value_ok canonical M nodes checked index v"
proof -
  obtain atom where atom: "atom_key t = Some atom" "affine_term_bounds source atom = Some (lower, upper)"
    and v: "v = Checked_Interval (int32_interval lower upper) (Checked_Atom atom)"
    using assms(3) by (auto simp: bound_interval_def node_Inr split: if_splits)
  have "evidence_exact canonical (machine_values M) nodes index (Checked_Atom atom)"
    by (rule evidence_leaf [OF assms(1,4)]) (simp add: atom_number atom_reading_key [OF atom(1)])
  then show ?thesis
    using affine_term_bounds_hold [OF atom(2) assms(2)] atom(1) assms(4)
    by (auto simp: v value_ok_def inside_def int32_interval_def atom_number rooted_def)
qed

lemma interval_atom_ok:
  assumes "canonical_ok canonical (machine_values M)"
    and "check_signed_node canonical nodes premises state index (IntervalAtom carrier t lower upper) = Inr (v, made)"
    and "evidence_shape (nodes ! index) = Evidence_Leaf t"
  shows "value_ok canonical M nodes checked index v"
proof -
  obtain atom where atom: "atom_key t = Some atom"
    and v: "v = Checked_Interval \<lparr>si_carrier = SignedInt32, si_lower = lower, si_upper = upper\<rparr> (Checked_Atom atom)"
    and ends: "lower = signed_min \<and> upper = signed_max \<or> (\<exists>w. as_const t = Some w \<and> lower = sint w \<and> upper = sint w)"
    using assms(2) by (auto simp: node_Inr require_int32_def Let_def split: if_splits option.splits)
  have exact: "evidence_exact canonical (machine_values M) nodes index (Checked_Atom atom)"
    by (rule evidence_leaf [OF assms(1,3)]) (simp add: atom_number atom_reading_key [OF atom])
  have "checked_number (machine_values M) (Checked_Atom atom) = sint w" if "as_const t = Some w" for w
    using as_const_sound [OF that, of "machine_values M"]
    by (simp add: atom_number atom_reading_key [OF atom] signed_number_def)
  then have "inside (machine_values M) \<lparr>si_carrier = SignedInt32, si_lower = lower, si_upper = upper\<rparr> (Checked_Atom atom)"
    using ends checked_number_range [of "machine_values M" "Checked_Atom atom"] by (auto simp: inside_def)
  then show ?thesis using exact atom assms(3) by (auto simp: v value_ok_def rooted_def)
qed

lemma interval_intersect_ok:
  assumes checked: "checked_ok canonical M nodes (checked_values state)"
    and node: "nodes ! length (checked_values state) = IntervalIntersect left right result"
    and accepted: "check_signed_node canonical nodes premises state index (IntervalIntersect left right result) = Inr (v, made)"
  shows "value_ok canonical M nodes (checked_values state) (length (checked_values state)) v"
proof -
  let ?index = "length (checked_values state)"
  obtain i j t where left: "interval_at (checked_values state) left = Inr (i, t)"
    and right: "interval_at (checked_values state) right = Inr (j, t)"
    and v: "v = Checked_Interval (i\<lparr>si_lower := max (si_lower i) (si_lower j), si_upper := min (si_upper i) (si_upper j)\<rparr>) t"
    using accepted by (auto simp: node_Inr Let_def interval_result_def split: if_splits)
  note l = interval_at_inside [OF checked left] and r = interval_at_inside [OF checked right]
  have shape: "evidence_shape (nodes ! ?index) = Evidence_Same left" by (simp add: node evidence_shape_def)
  have "evidence_exact canonical (machine_values M) nodes ?index t"
    using evidence_through [OF l(3)] shape by blast
  then show ?thesis using l r shape by (auto simp: v value_ok_def inside_def)
qed

text \<open>The arithmetic of intervals.\<close>

lemma interval_pair_ok:
  assumes checked: "checked_ok canonical M nodes checked"
    and left: "interval_at checked left = Inr (i, tp)" and right: "interval_at checked right = Inr (j, tq)"
    and accepted: "interval_result index expected result (Checked_Binary op tp tq) terms = Inr (v, made)"
    and shape: "evidence_shape (nodes ! index) = Evidence_Sum left right
        \<and> checked_number (machine_values M) (Checked_Binary op tp tq)
          = checked_number (machine_values M) tp + checked_number (machine_values M) tq
      \<or> evidence_shape (nodes ! index) = Evidence_Difference left right
        \<and> checked_number (machine_values M) (Checked_Binary op tp tq)
          = checked_number (machine_values M) tp - checked_number (machine_values M) tq
      \<or> evidence_shape (nodes ! index) = Evidence_Product left right
        \<and> checked_number (machine_values M) (Checked_Binary op tp tq)
          = checked_number (machine_values M) tp * checked_number (machine_values M) tq"
    and "inside (machine_values M) expected (Checked_Binary op tp tq)"
  shows "value_ok canonical M nodes checked index v"
proof -
  note l = interval_at_inside [OF checked left] and r = interval_at_inside [OF checked right]
  have "evidence_exact canonical (machine_values M) nodes index (Checked_Binary op tp tq)"
    by (rule evidence_pair [OF l(3) r(3) _ refl]) (use shape in auto)
  then show ?thesis
    by (intro interval_result_ok [OF accepted assms(6)]) (use shape in auto)
qed

lemma require_defined_Inr:
  "require_defined canonical checked index t node = Inr x \<longleftrightarrow>
     index < length checked
     \<and> (\<exists>u. checked ! index = Checked_Defined SignedInt32 u \<and> equivalent_explicit canonical t u)"
  by (auto simp: require_defined_def split: checked_value.splits)

lemma interval_add_ok:
  assumes canonical: "canonical_ok canonical (machine_values M)"
    and checked: "checked_ok canonical M nodes (checked_values state)"
    and kind: "node = IntervalAdd left right defined result \<or> node = IntervalAddBounded left right result"
    and here: "nodes ! index = node"
    and accepted: "check_signed_node canonical nodes premises state index node = Inr (v, made)"
  shows "value_ok canonical M nodes (checked_values state) index v"
proof -
  let ?checked = "checked_values state" and ?sum = "Checked_Binary Checked_Add"
  define exact where "exact \<longleftrightarrow> node = IntervalAdd left right defined result"
  have "\<exists>i tp j tq expected. interval_at ?checked left = Inr (i, tp) \<and> interval_at ?checked right = Inr (j, tq)
      \<and> (exact \<longrightarrow> require_defined canonical ?checked defined (?sum tp tq) index = Inr ())
      \<and> interval_add i j index exact = Inr expected
      \<and> interval_result index expected result (?sum tp tq) [?sum tp tq] = Inr (v, made)"
    using kind accepted unfolding exact_def by (elim disjE) (auto simp: attempt_Inr Let_def)
  then obtain i tp j tq expected where at: "interval_at ?checked left = Inr (i, tp)" "interval_at ?checked right = Inr (j, tq)"
    and defined: "exact \<Longrightarrow> require_defined canonical ?checked defined (?sum tp tq) index = Inr ()"
    and sum: "interval_add i j index exact = Inr expected"
    and result: "interval_result index expected result (?sum tp tq) [?sum tp tq] = Inr (v, made)"
    by blast
  have fits: "signed_min \<le> checked_number (machine_values M) tp + checked_number (machine_values M) tq
      \<and> checked_number (machine_values M) tp + checked_number (machine_values M) tq \<le> signed_max" if needed: exact
  proof -
    obtain u where u: "defined < length ?checked" "?checked ! defined = Checked_Defined SignedInt32 u"
        "equivalent_explicit canonical (?sum tp tq) u"
      using defined [OF needed] by (auto simp: require_defined_Inr)
    then have "defined_ok M u" using checked by (auto simp: checked_ok_def value_ok_def dest!: spec [of _ defined])
    from defined_sum [OF canonical this u(3)] show ?thesis .
  qed
  note exact = interval_add_inside [OF interval_at_inside(1) [OF checked at(1)] interval_at_inside(1) [OF checked at(2)] sum fits]
  show ?thesis
    by (rule interval_pair_ok [OF checked at result _ exact(2)])
      (use kind exact(1) in \<open>auto simp: here evidence_shape_def\<close>)
qed

lemma interval_product_ok:
  assumes checked: "checked_ok canonical M nodes (checked_values state)"
    and kind: "node = IntervalSubtract left right defined result \<and> op = Checked_Subtract
      \<or> node = IntervalMultiply left right defined result \<and> op = Checked_Multiply"
    and here: "nodes ! index = node"
    and accepted: "check_signed_node canonical nodes premises state index node = Inr (v, made)"
  shows "value_ok canonical M nodes (checked_values state) index v"
proof -
  let ?checked = "checked_values state"
  have "\<exists>i tp j tq expected. interval_at ?checked left = Inr (i, tp) \<and> interval_at ?checked right = Inr (j, tq)
      \<and> (op = Checked_Subtract \<longrightarrow> interval_subtract i j index = Inr expected)
      \<and> (op = Checked_Multiply \<longrightarrow> interval_multiply i j index = Inr expected)
      \<and> interval_result index expected result (Checked_Binary op tp tq) [Checked_Binary op tp tq] = Inr (v, made)"
    using kind accepted by (elim disjE) (auto simp: attempt_Inr Let_def)
  then obtain i tp j tq expected where at: "interval_at ?checked left = Inr (i, tp)" "interval_at ?checked right = Inr (j, tq)"
    and exact: "op = Checked_Subtract \<Longrightarrow> interval_subtract i j index = Inr expected"
      "op = Checked_Multiply \<Longrightarrow> interval_multiply i j index = Inr expected"
    and result: "interval_result index expected result (Checked_Binary op tp tq) [Checked_Binary op tp tq] = Inr (v, made)"
    by blast
  note sides = interval_at_inside(1) [OF checked at(1)] interval_at_inside(1) [OF checked at(2)]
  have "inside (machine_values M) expected (Checked_Binary op tp tq)"
    using kind interval_subtract_inside(2) [OF sides exact(1)] interval_multiply_inside(2) [OF sides exact(2)] by auto
  then show ?thesis
    by (rule interval_pair_ok [OF checked at result, rotated])
      (use kind interval_subtract_inside(1) [OF sides exact(1)] interval_multiply_inside(1) [OF sides exact(2)]
        in \<open>auto simp: here evidence_shape_def\<close>)
qed

lemma interval_unary_ok:
  assumes checked: "checked_ok canonical M nodes (checked_values state)"
    and kind: "node = IntervalRemainder operand n defined result \<or> node = IntervalShiftLeft operand n defined result
      \<or> node = IntervalArithmeticShiftRight operand n result \<or> node = IntervalBitwiseAnd operand n result
      \<or> node = IntervalSignBitFlip operand result"
    and here: "nodes ! index = node"
    and accepted: "check_signed_node canonical nodes premises state index node = Inr (v, made)"
  shows "value_ok canonical M nodes (checked_values state) index v"
proof -
  have "\<exists>i t. interval_at (checked_values state) operand = Inr (i, t)"
    using kind accepted by (elim disjE) (auto simp: attempt_Inr)
  then obtain i t where at: "interval_at (checked_values state) operand = Inr (i, t)" by blast
  note o = interval_at_inside(1) [OF checked at]
  obtain op r expected terms where
      "interval_result index expected result (Checked_Binary op t r) terms = Inr (v, made)"
      "inside (machine_values M) expected (Checked_Binary op t r)"
    using kind accepted interval_remainder_inside [OF o] shift_left_inside [OF o] shift_right_inside [OF o]
      mask_inside [OF o] sign_flip_inside [OF o]
    by (elim disjE) (auto simp: attempt_Inr at Let_def)
  then show ?thesis
    by (rule interval_result_ok) (use kind here in \<open>auto intro!: evidence_unwalked simp: evidence_shape_def\<close>)
qed

lemma interval_narrowed_ok:
  assumes checked: "checked_ok canonical M nodes (checked_values state)"
    and here: "nodes ! index = IntervalNarrowedCast operand source destination result"
    and types: "(source, destination) = (MInt8, MUInt16) \<Longrightarrow> si_upper result \<le> 127"
    and accepted: "check_signed_node canonical nodes premises state index
      (IntervalNarrowedCast operand source destination result) = Inr (v, made)"
  shows "value_ok canonical M nodes (checked_values state) index v"
proof -
  obtain i t expected where at: "interval_at (checked_values state) operand = Inr (i, t)"
    and narrowed: "interval_narrowed i source destination index = Inr expected"
    and made: "interval_result index expected result (Checked_Cast source destination t) [Checked_Cast source destination t] = Inr (v, made)"
    using accepted by (auto simp: attempt_Inr Let_def)
  note o = interval_at_inside [OF checked at]
  have "result = i" using made narrowed by (auto simp: interval_result_def interval_narrowed_def Let_def split: if_splits prod.splits)
  note kept = narrowed_inside [OF o(1) narrowed types [unfolded this]]
  have "evidence_exact canonical (machine_values M) nodes index (Checked_Cast source destination t)"
    using evidence_through [OF o(3) _ kept(1)] here by (simp add: evidence_shape_def)
  then show ?thesis
    by (intro interval_result_ok [OF made kept(2)]) (simp_all add: here evidence_shape_def)
qed

text \<open>The remainder of a sum reads a checked remainder, spelled as one identity or as an operation.\<close>

lemma same_remainder_number:
  fixes \<rho> :: "'x valuation"
  assumes "same_remainder t d u" and "rooted TYPE('x) t"
  shows "checked_number \<rho> (Checked_Binary Checked_Remainder t (constant_atom d)) = checked_number \<rho> u"
proof (cases "\<exists>base actual. t = Checked_Atom base \<and> u = Checked_Atom actual")
  case True
  then obtain base actual where atoms: "t = Checked_Atom base" "u = Checked_Atom actual"
    and actual: "actual = Token_Binary Op_Remainder # base @ [Token_Constant d]"
    using assms(1) by (auto simp: same_remainder_def)
  obtain b :: "'x bv" where b: "atom_key b = Some base" using assms(2) atoms(1) by (auto simp: rooted_def)
  then have "atom_key (Binary Op_Remainder b (Constant d)) = Some actual"
    by (simp add: actual signed_binary_def is_bitvector32_def tokens_of_both_def)
  from atom_term [OF this] show ?thesis
    using b by (simp add: atoms constant_atom_def checked_number_def machine_operator_def atom_term
        atom_term [of "Constant d"])
next
  case False
  then show ?thesis using assms(1) by (auto simp: same_remainder_def split: checked_term.splits)
qed

lemma interval_remainder_add_ok:
  fixes canonical :: "'x bv \<Rightarrow> 'x bv"
  assumes checked: "checked_ok canonical M nodes (checked_values state)"
    and here: "nodes ! index = IntervalRemainderAdd operand rest a d result"
    and accepted: "check_signed_node canonical nodes premises state index
      (IntervalRemainderAdd operand rest a d result) = Inr (v, made)"
  shows "value_ok canonical M nodes (checked_values state) index v"
proof -
  obtain i t j u expected terms where at: "interval_at (checked_values state) operand = Inr (i, t)"
      "interval_at (checked_values state) rest = Inr (j, u)"
    and moved: "interval_remainder_add i j a d index = Inr expected" and same: "same_remainder t d u"
    and made: "interval_result index expected result
      (Checked_Binary Checked_Remainder (Checked_Binary Checked_Add t (constant_atom a)) (constant_atom d)) terms = Inr (v, made)"
    using accepted by (auto simp: attempt_Inr Let_def split: if_splits)
  note o = interval_at_inside [OF checked at(1)] and r = interval_at_inside [OF checked at(2)]
  have "inside (machine_values M) j (Checked_Binary Checked_Remainder t (constant_atom d))"
    using r(1) same_remainder_number [OF same o(2)] by (simp add: inside_def)
  from interval_remainder_add_inside [OF o(1) this moved] show ?thesis
    by (rule interval_result_ok [OF made]) (simp_all add: here evidence_shape_def evidence_unwalked)
qed

lemma affine_node_ok:
  assumes canonical: "canonical_ok canonical (machine_values M)"
    and checked: "checked_ok canonical M nodes (checked_values state)"
    and given: "\<forall>p \<in> set premises. holds M p"
    and kind: "node = Node_Premise k result \<or> node = Node_Scale k factor result \<or> node = Node_Add k l result
      \<or> node = Node_EqualityToLessEqual k turned result \<or> node = Node_EqualityFromBounds k l result
      \<or> node = Node_StrictFromDisequal k l result \<or> node = Node_Trivial result \<or> node = Node_Int32Range result
      \<or> node = AffinePremise k l r result \<and> l < length (checked_values state) \<and> r < length (checked_values state)"
    and here: "nodes ! index = node"
    and accepted: "check_signed_node canonical nodes premises state index node = Inr (v, made)"
  shows "value_ok canonical M nodes (checked_values state) index v"
proof -
  have shape: "evidence_shape (nodes ! index) = No_Evidence"
    using kind by (elim disjE) (auto simp: here evidence_shape_def)
  have premise: "holds M (premises ! i)" if "i < length premises" for i using given that by simp
  note true = affine_at_holds [OF checked]
  have "\<exists>claim. v = Checked_Affine claim \<and> signed_holds (machine_values M) claim"
    using kind
  proof (elim disjE conjE)
    assume "node = Node_Premise k result"
    then show ?thesis
      using accepted premise affine_claim_holds [OF canonical]
      by (auto simp: node_Inr affine_result_def split: if_splits)
  next
    assume "node = Node_Scale k factor result"
    then show ?thesis
      using accepted by (auto simp: node_Inr affine_result_def split: if_splits intro!: scale_signed_holds dest!: true)
  next
    assume "node = Node_Add k l result"
    then show ?thesis
      using accepted
      by (auto simp: node_Inr affine_result_def split: if_splits dest!: true dest: add_signed_holds)
  next
    assume "node = Node_EqualityToLessEqual k turned result"
    then show ?thesis
      using accepted
      by (auto simp: node_Inr affine_result_def split: if_splits dest!: true intro: equality_signed_holds)
  next
    assume "node = Node_EqualityFromBounds k l result"
    then show ?thesis
      using accepted
      by (auto simp: node_Inr affine_result_def split: if_splits dest!: true intro: equality_from_bounds_holds)
  next
    assume "node = Node_StrictFromDisequal k l result"
    then show ?thesis
      using accepted
      by (auto simp: node_Inr affine_result_def split: if_splits dest!: true intro: strict_from_disequal_holds)
  next
    assume "node = Node_Trivial result"
    then show ?thesis using accepted by (auto intro: trivial_signed_holds split: if_splits)
  next
    assume "node = Node_Int32Range result"
    then show ?thesis using accepted by (auto intro: range_bound_holds split: if_splits)
  next
    assume node: "node = AffinePremise k l r result"
      and bounds: "l < length (checked_values state)" "r < length (checked_values state)"
    from accepted [unfolded node] obtain i claim where "i < length premises" "v = Checked_Affine claim"
        "evidence_claim canonical nodes state l r (premises ! i) = Some claim"
      by (auto simp: node_Inr affine_result_def split: if_splits)
    then show ?thesis using premise evidence_claim_holds [OF canonical checked bounds] by blast
  qed
  then show ?thesis using shape by (auto simp: value_ok_def)
qed

lemma proposition_node_ok:
  assumes canonical: "canonical_ok canonical (machine_values M)"
    and checked: "checked_ok canonical M nodes (checked_values state)"
    and given: "\<forall>p \<in> set premises. holds M p"
    and kind: "node = DefinedPremise k carrier t \<or> node = IntervalCompare k l order p
      \<or> node = AffineConclusion k l p \<or> node = AffineConclusionWithEvidence k l r p"
    and here: "nodes ! index = node"
    and accepted: "check_signed_node canonical nodes premises state index node = Inr (v, made)"
  shows "value_ok canonical M nodes (checked_values state) index v"
proof -
  have shape: "evidence_shape (nodes ! index) = No_Evidence"
    using kind by (elim disjE) (auto simp: here evidence_shape_def)
  have concluded: "holds M p"
    if "evidence_claim canonical nodes state i j p = Some claim" "interval_at (checked_values state) i = Inr x"
      "interval_at (checked_values state) j = Inr y" "affine_at (checked_values state) k = Inr claim" for i j x y claim
  proof -
    have "i < length (checked_values state)" "j < length (checked_values state)"
      using that(2,3) by (simp_all add: interval_at_Inr)
    then show ?thesis
      using evidence_claim_holds [OF canonical checked _ _ that(1)] affine_at_holds [OF checked that(4)] by blast
  qed
  consider (defined) "v = Checked_Defined carrier t" "defined_ok M t" | (stated) "v = Checked_Proposition p" "holds M p"
    using kind
  proof (elim disjE)
    assume node: "node = DefinedPremise k carrier t"
    have "v = Checked_Defined carrier t \<and> defined_ok M t"
      using accepted given unfolding node defined_ok_def
      by (auto simp: node_Inr require_int32_def split: if_splits intro!: exI [of _ "premises ! k"])
    then show thesis using defined by blast
  next
    assume node: "node = IntervalCompare k l order p"
    obtain i tp j tq where at: "interval_at (checked_values state) k = Inr (i, tp)" "interval_at (checked_values state) l = Inr (j, tq)"
      and v: "v = Checked_Proposition p" and matches: "comparison_proposition_matches canonical p tp tq order"
      and proves: "interval_proves i j order \<or> term_interval_proves tp tq i order"
      using accepted unfolding node by (auto simp: attempt_Inr split: if_splits)
    note sides = interval_at_inside(1) [OF checked at(1)] interval_at_inside(1) [OF checked at(2)]
    have "order_means order (checked_number (machine_values M) tp) (checked_number (machine_values M) tq)"
      using proves interval_proves_order [OF sides] term_interval_proves_order [OF sides(1)] by blast
    then show thesis using stated(1) v comparison_matches_holds [OF canonical matches] that(2) by blast
  next
    assume node: "node = AffineConclusion k l p"
    show thesis
      using accepted that(2) concluded unfolding node
      by (auto simp: node_Inr same_int32_claim_def split: if_splits)
  next
    assume node: "node = AffineConclusionWithEvidence k l r p"
    show thesis
      using accepted that(2) concluded unfolding node
      by (auto simp: node_Inr same_int32_claim_def split: if_splits)
  qed
  then show ?thesis by cases (simp_all add: value_ok_def shape)
qed

lemma node_sound:
  fixes canonical :: "'x bv \<Rightarrow> 'x bv"
  assumes canonical: "canonical_ok canonical (machine_values M)"
    and checked: "checked_ok canonical M nodes (checked_values state)"
    and given: "\<forall>p \<in> set premises. holds M p"
    and here: "nodes ! length (checked_values state) = node" and ok: "node_ok (length (checked_values state)) node"
    and accepted: "check_signed_node canonical nodes premises state (length (checked_values state)) node = Inr (v, made)"
  shows "value_ok canonical M nodes (checked_values state) (length (checked_values state)) v"
proof -
  note affine = affine_node_ok [OF canonical checked given _ here accepted]
    and stated = proposition_node_ok [OF canonical checked given _ here accepted]
    and sums = interval_add_ok [OF canonical checked _ here accepted]
    and products = interval_product_ok [OF checked _ here accepted]
    and unary = interval_unary_ok [OF checked _ here accepted]
  show ?thesis
  proof (cases node)
    case (IntervalFromAffine source t lower upper)
    then obtain claim where "affine_at (checked_values state) source = Inr claim"
        "bound_interval (length (checked_values state)) True claim t lower upper = Inr (v, made)"
      using accepted by (auto simp: attempt_Inr)
    then show ?thesis
      by (intro bound_interval_ok [OF canonical affine_at_holds [OF checked]])
        (simp_all add: here IntervalFromAffine evidence_shape_def)
  next
    case (IntervalFromAffineDirect source t lower upper)
    then obtain claim where "affine_at (checked_values state) source = Inr claim"
        "bound_interval (length (checked_values state)) False claim t lower upper = Inr (v, made)"
      using accepted by (auto simp: attempt_Inr)
    then show ?thesis
      by (intro bound_interval_ok [OF canonical affine_at_holds [OF checked]])
        (simp_all add: here IntervalFromAffineDirect evidence_shape_def)
  next
    case (IntervalAtom carrier t lower upper)
    show ?thesis
      by (rule interval_atom_ok [OF canonical accepted [unfolded IntervalAtom]])
        (simp add: here IntervalAtom evidence_shape_def)
  next
    case (IntervalIntersect left right result)
    show ?thesis
      by (rule interval_intersect_ok [OF checked here [unfolded IntervalIntersect] accepted [unfolded IntervalIntersect]])
  next
    case (IntervalRemainderAdd operand rest a d result)
    show ?thesis
      by (rule interval_remainder_add_ok [OF checked here [unfolded IntervalRemainderAdd] accepted [unfolded IntervalRemainderAdd]])
  next
    case (IntervalNarrowedCast operand source destination result)
    then show ?thesis
      using interval_narrowed_ok [OF checked here [unfolded IntervalNarrowedCast] _ accepted [unfolded IntervalNarrowedCast]] ok
      by (simp add: node_ok_def)
  next
    case (AffinePremise source left right result)
    then show ?thesis using ok by (intro affine) (auto simp: node_ok_def)
  next
    case (Node_Premise k result)
    show ?thesis by (rule affine) (use Node_Premise in blast)
  next
    case (Node_Scale k factor result)
    show ?thesis by (rule affine) (use Node_Scale in blast)
  next
    case (Node_Add k l result)
    show ?thesis by (rule affine) (use Node_Add in blast)
  next
    case (Node_EqualityToLessEqual k turned result)
    show ?thesis by (rule affine) (use Node_EqualityToLessEqual in blast)
  next
    case (Node_EqualityFromBounds k l result)
    show ?thesis by (rule affine) (use Node_EqualityFromBounds in blast)
  next
    case (Node_StrictFromDisequal k l result)
    show ?thesis by (rule affine) (use Node_StrictFromDisequal in blast)
  next
    case (Node_Trivial result)
    show ?thesis by (rule affine) (use Node_Trivial in blast)
  next
    case (Node_Int32Range result)
    show ?thesis by (rule affine) (use Node_Int32Range in blast)
  next
    case (DefinedPremise k carrier t)
    show ?thesis by (rule stated) (use DefinedPremise in blast)
  next
    case (IntervalCompare k l order p)
    show ?thesis by (rule stated) (use IntervalCompare in blast)
  next
    case (AffineConclusion k l p)
    show ?thesis by (rule stated) (use AffineConclusion in blast)
  next
    case (AffineConclusionWithEvidence k l r p)
    show ?thesis by (rule stated) (use AffineConclusionWithEvidence in blast)
  next
    case (IntervalAdd k l defined result)
    show ?thesis by (rule sums) (use IntervalAdd in blast)
  next
    case (IntervalAddBounded k l result)
    show ?thesis by (rule sums) (use IntervalAddBounded in blast)
  next
    case (IntervalSubtract k l defined result)
    show ?thesis by (rule products) (use IntervalSubtract in blast)
  next
    case (IntervalMultiply k l defined result)
    show ?thesis by (rule products) (use IntervalMultiply in blast)
  next
    case (IntervalRemainder k n defined result)
    show ?thesis by (rule unary) (use IntervalRemainder in blast)
  next
    case (IntervalShiftLeft k n defined result)
    show ?thesis by (rule unary) (use IntervalShiftLeft in blast)
  next
    case (IntervalArithmeticShiftRight k n result)
    show ?thesis by (rule unary) (use IntervalArithmeticShiftRight in blast)
  next
    case (IntervalBitwiseAnd k n result)
    show ?thesis by (rule unary) (use IntervalBitwiseAnd in blast)
  next
    case (IntervalSignBitFlip k result)
    show ?thesis by (rule unary) (use IntervalSignBitFlip in blast)
  qed
qed

section \<open>Certificates are sound\<close>

definition nodes_ok :: "'x signed_node list \<Rightarrow> bool" where
  "nodes_ok nodes \<longleftrightarrow> list_all (\<lambda>index. node_ok index (nodes ! index)) [0..<length nodes]"

lemma run_sound:
  assumes canonical: "canonical_ok canonical (machine_values M)" and given: "\<forall>p \<in> set premises. holds M p"
    and ok: "nodes_ok nodes"
  shows "check_signed_nodes (check_signed_node canonical nodes premises) state others = Inr final
    \<Longrightarrow> nodes = before @ others \<Longrightarrow> length before = length (checked_values state)
    \<Longrightarrow> checked_ok canonical M nodes (checked_values state) \<Longrightarrow> checked_ok canonical M nodes (checked_values final)"
proof (induction others arbitrary: state before)
  case (Cons node others)
  let ?index = "length (checked_values state)"
  obtain v made where step: "check_signed_node canonical nodes premises state ?index node = Inr (v, made)"
    and more: "check_signed_nodes (check_signed_node canonical nodes premises)
      \<lparr>checked_values = checked_values state @ [v], arena_terms = arena_terms state @ made\<rparr> others = Inr final"
    using Cons.prems(1) by (auto simp: attempt_Inr)
  have here: "nodes ! ?index = node" using Cons.prems(2,3) by (simp add: nth_append)
  have "?index < length nodes" using Cons.prems(2,3) by simp
  then have "node_ok ?index node" using ok here by (auto simp: nodes_ok_def list_all_iff)
  then have "value_ok canonical M nodes (checked_values state) ?index v"
    by (rule node_sound [OF canonical Cons.prems(4) given here _ step])
  then have "checked_ok canonical M nodes (checked_values state @ [v])"
    by (rule checked_ok_append [OF Cons.prems(4)])
  then show ?case
    using Cons.IH [OF more, of "before @ [node]"] Cons.prems(2,3) by simp
qed simp

lemma conclusion_matches_holds:
  assumes canonical: "canonical_ok canonical (machine_values M)" and "value_ok canonical M nodes checked index v"
    and "conclusion_matches canonical v goal"
  shows "holds M goal"
proof (cases v)
  case (Checked_Affine claim)
  then obtain expected where expected: "affine_claim canonical goal = Some expected"
    and same: "expected = claim \<or> trivially_true_claims expected claim"
    using assms(3) by (auto simp: conclusion_matches_def split: option.splits)
  have "signed_holds (machine_values M) claim" using assms(2) by (simp add: Checked_Affine value_ok_def)
  then have "signed_holds (machine_values M) expected"
    using same trivial_signed_holds by (auto simp: trivially_true_claims_def)
  then show ?thesis using affine_claim_holds [OF canonical expected] by simp
next
  case (Checked_Proposition p)
  then obtain claim where "affine_claim canonical p = Some claim" "affine_claim canonical goal = Some claim"
    using assms(3) by (auto simp: conclusion_matches_def propositions_match_def split: option.splits)
  then show ?thesis
    using assms(2) affine_claim_holds [OF canonical] by (auto simp: Checked_Proposition value_ok_def)
qed (use assms(3) in \<open>simp_all add: conclusion_matches_def\<close>)

text \<open>C2: a certificate of signed machine arithmetic that the checker accepts proves its goal:
  wherever the premises hold, so does the goal. Two side conditions on the nodes, which the
  checker does not ask (\<open>nodes_ok\<close>): the evidence of a flattened premise must be an earlier
  node (the lemma after the witness shows why), and a conversion from eight signed bits to
  sixteen unsigned ones must be of an operand bounded by 127, since the checker keeps the
  operand's whole word where the conversion reads its low eight bits
  (\<open>conversion_of_wide_word_lost\<close>).
\<close>

theorem signed_certificate_sound:
  assumes "canonical_ok canonical (machine_values M)"
    and "\<forall>p \<in> set premises. holds M p"
    and "nodes_ok (signed_nodes certificate)"
    and "check_signed canonical certificate goal premises = Inr ()"
  shows "holds M goal"
proof -
  let ?nodes = "signed_nodes certificate" and ?start = "\<lparr>checked_values = [], arena_terms = []\<rparr> :: 'a signed_state"
  obtain final where run: "check_signed_nodes (check_signed_node canonical ?nodes premises) ?start ?nodes = Inr final"
    and conclusion: "signed_conclusion certificate < length (checked_values final)"
      "conclusion_matches canonical (checked_values final ! signed_conclusion certificate) goal"
    using assms(4) by (auto simp: check_signed_def Let_def node_Inr split: if_splits)
  have "checked_ok canonical M ?nodes (checked_values ?start)" by (simp add: checked_ok_def)
  then have "checked_ok canonical M ?nodes (checked_values final)"
    by (intro run_sound [OF assms(1-3) run, of "[]"]) simp_all
  then show ?thesis
    using conclusion conclusion_matches_holds [OF assms(1) _ conclusion(2)] by (auto simp: checked_ok_def)
qed

text \<open>A sum bounded through its operand: from \<open>x \<le> 5\<close>, \<open>x + 1 \<le> 6\<close>.\<close>

definition sample_atom :: signed_atom where
  "sample_atom = [Token_Variable (Variable_Of 0 Ordinary)]"

definition signed_sample_bound :: "nat prop_term" where
  "signed_sample_bound = ConditionIs (Native (Bitvector32SignedLessEqual sample_word (Constant 5))) True"

definition signed_sample_goal :: "nat prop_term" where
  "signed_sample_goal = ConditionIs (Native (Bitvector32SignedLessEqual (Add sample_word (Constant 1)) (Constant 6))) True"

definition signed_sample :: "nat signed_certificate" where
  "signed_sample = \<lparr>signed_nodes =
     [Node_Premise 0 (signed_claim_of Signed_LessEqual False (fmupd sample_atom 1 fmempty, - 5)),
      IntervalFromAffine 0 sample_word signed_min 5,
      IntervalAtom SignedInt32 (Constant 1) 1 1,
      IntervalAddBounded 1 2 (int32_interval (signed_min + 1) 6),
      IntervalAtom SignedInt32 (Constant 6) 6 6,
      AffineConclusionWithEvidence 0 3 4 signed_sample_goal],
     signed_conclusion = 5\<rparr>"

lemma canonical_same: "canonical_ok (\<lambda>t. t) \<rho>"
  by (simp add: canonical_ok_def)

theorem signed_certificate_sound_witness:
  "check_signed (\<lambda>t. t) signed_sample signed_sample_goal [signed_sample_bound] = Inr ()
   \<and> holds sample_meaning signed_sample_goal"
proof -
  have accepted: "check_signed (\<lambda>t. t) signed_sample signed_sample_goal [signed_sample_bound] = Inr ()"
    by code_simp
  have "holds sample_meaning signed_sample_bound"
    by (simp add: signed_sample_bound_def sample_meaning_def compare_value_def sample_word_def zero_valuation_def)
  moreover have "nodes_ok (signed_nodes signed_sample)" by code_simp
  ultimately have "holds sample_meaning signed_sample_goal"
    using signed_certificate_sound [OF canonical_same _ _ accepted] by simp
  with accepted show ?thesis by simp
qed

text \<open>
  Why the evidence of a flattened premise must come earlier. The certificate below names a
  sum checked after the premise that cites it; the form of the sum is then filed under the
  first term of the arena, the variable of the premise, and from \<open>x \<le> 0\<close> the checker
  accepts \<open>3 \<le> 0\<close>.
\<close>

definition late_evidence :: "nat signed_certificate" where
  "late_evidence = \<lparr>signed_nodes =
     [IntervalAtom SignedInt32 sample_word signed_min signed_max,
      IntervalAtom SignedInt32 (Constant 1) 1 1,
      IntervalAtom SignedInt32 (Constant 2) 2 2,
      IntervalAtom SignedInt32 (Constant 0) 0 0,
      Node_Premise 0 (signed_claim_of Signed_LessEqual False (fmupd sample_atom 1 fmempty, 0)),
      AffinePremise 4 6 3 (signed_claim_of Signed_LessEqual False (fmempty, 3)),
      IntervalAddBounded 1 2 (int32_interval 3 3)],
     signed_conclusion = 5\<rparr>"

lemma late_evidence_accepted:
  "check_signed (\<lambda>t. t) late_evidence
     (ConditionIs (Native (Bitvector32SignedLessEqual (Constant 3) (Constant 0))) True)
     [ConditionIs (Native (Bitvector32SignedLessEqual sample_word (Constant 0))) True] = Inr ()
   \<and> \<not> nodes_ok (signed_nodes late_evidence)"
  by code_simp

end
